(* ===== verification/Prelude.thy ===== *)
theory Prelude
  imports Main "HOL-Library.Sublist"
begin

text \<open>
  Shared vocabulary of the development: the string functions of Go's \<^verbatim>\<open>strings\<close> package
  that the sources use (Go strings are byte strings, so they are \<^typ>\<open>string\<close>, a list of
  8-bit characters), generic lemmas on lists, and the named collections that the
  component theories fill.
\<close>

named_theorems row_simps \<open>how a table operation acts on its rows\<close>
named_theorems inv_intros \<open>preservation of a component's invariant by its operations\<close>

type_synonym ('e, 'a) result = "'e + 'a"

abbreviation slash :: char where "slash \<equiv> CHR ''/''"

section \<open>Functions of package strings\<close>

definition HasPrefix :: "string \<Rightarrow> string \<Rightarrow> bool" where
  "HasPrefix s p = prefix p s"

definition HasSuffix :: "string \<Rightarrow> string \<Rightarrow> bool" where
  "HasSuffix s p = suffix p s"

definition TrimPrefix :: "string \<Rightarrow> string \<Rightarrow> string" where
  "TrimPrefix s p = (if prefix p s then drop (length p) s else s)"

definition TrimSuffix :: "string \<Rightarrow> string \<Rightarrow> string" where
  "TrimSuffix s p = (if suffix p s then take (length s - length p) s else s)"

text \<open>\<^verbatim>\<open>strings.TrimRight(s, "c")\<close> for a one-character cutset.\<close>

definition TrimRight :: "string \<Rightarrow> char \<Rightarrow> string" where
  "TrimRight s c = rev (dropWhile (\<lambda>x. x = c) (rev s))"

fun Contains :: "string \<Rightarrow> string \<Rightarrow> bool" where
  "Contains [] sub = (sub = [])"
| "Contains (x # xs) sub = (prefix sub (x # xs) \<or> Contains xs sub)"

text \<open>\<^verbatim>\<open>strings.ContainsAny\<close> and the byte searches of the sources.\<close>

definition ContainsAny :: "string \<Rightarrow> string \<Rightarrow> bool" where
  "ContainsAny s cs = list_ex (\<lambda>x. x \<in> set cs) s"

fun IndexByte :: "string \<Rightarrow> char \<Rightarrow> nat option" where
  "IndexByte [] c = None"
| "IndexByte (x # xs) c = (if x = c then Some 0 else map_option Suc (IndexByte xs c))"

text \<open>\<^verbatim>\<open>strings.Split(s, "c")\<close> for a one-character separator: never empty.\<close>

fun Split :: "char \<Rightarrow> string \<Rightarrow> string list" where
  "Split c [] = [[]]"
| "Split c (x # xs) =
     (if x = c then [] # Split c xs
      else (case Split c xs of [] \<Rightarrow> [[x]] | w # ws \<Rightarrow> (x # w) # ws))"

fun StrJoin :: "string list \<Rightarrow> string \<Rightarrow> string" where
  "StrJoin [] sep = []"
| "StrJoin [w] sep = w"
| "StrJoin (w # v # ws) sep = w @ sep @ StrJoin (v # ws) sep"

definition ReplaceByte :: "string \<Rightarrow> char \<Rightarrow> string \<Rightarrow> string" where
  "ReplaceByte s c r = concat (map (\<lambda>x. if x = c then r else [x]) s)"

text \<open>\<^verbatim>\<open>strings.ReplaceAll\<close> for a non-empty pattern.\<close>

function ReplaceAll :: "string \<Rightarrow> string \<Rightarrow> string \<Rightarrow> string" where
  "ReplaceAll s old new =
     (case s of [] \<Rightarrow> []
      | x # xs \<Rightarrow> if old \<noteq> [] \<and> prefix old s then new @ ReplaceAll (drop (length old) s) old new
                else x # ReplaceAll xs old new)"
  by pat_completeness auto
termination by (relation "measure (\<lambda>(s, _, _). length s)") auto

declare ReplaceAll.simps [simp del]

text \<open>White space of \<^verbatim>\<open>strings.TrimSpace\<close> and \<^verbatim>\<open>strings.Fields\<close> in the ASCII range.\<close>

definition isSpace :: "char \<Rightarrow> bool" where
  "isSpace c = (c \<in> {CHR '' '', CHR 0x09, CHR 0x0A, CHR 0x0B, CHR 0x0C, CHR 0x0D})"

definition TrimSpace :: "string \<Rightarrow> string" where
  "TrimSpace s = rev (dropWhile isSpace (rev (dropWhile isSpace s)))"

lemma dropWhile_shorter:
  "ys \<noteq> [] \<Longrightarrow> P (hd ys) \<Longrightarrow> length (dropWhile P ys) < length ys"
  by (cases ys) (auto simp: less_Suc_eq_le length_dropWhile_le)

function Fields :: "string \<Rightarrow> string list" where
  "Fields s =
     (let t = dropWhile isSpace s in
      if t = [] then []
      else takeWhile (\<lambda>c. \<not> isSpace c) t # Fields (dropWhile (\<lambda>c. \<not> isSpace c) t))"
  by pat_completeness auto
termination
proof (relation "measure length", goal_cases)
  case 1
  show ?case by simp
next
  case (2 s t)
  then have "dropWhile isSpace s \<noteq> []" by simp
  from dropWhile_shorter [OF this, of "\<lambda>c. \<not> isSpace c"] hd_dropWhile [OF this]
  have "length (dropWhile (\<lambda>c. \<not> isSpace c) t) < length t" by (simp add: 2(1))
  also have "\<dots> \<le> length s" by (simp add: 2(1) length_dropWhile_le)
  finally show ?case by simp
qed

declare Fields.simps [simp del]

text \<open>\<^verbatim>\<open>strings.ToLower\<close> on ASCII bytes.\<close>

definition lowerByte :: "char \<Rightarrow> char" where
  "lowerByte c = (let n = (of_char c :: nat) in if 65 \<le> n \<and> n \<le> 90 then char_of (n + 32) else c)"

definition ToLower :: "string \<Rightarrow> string" where
  "ToLower s = map lowerByte s"

text \<open>\<^verbatim>\<open>strconv.Itoa\<close> on the non-negative integers the sources format.\<close>

fun Itoa :: "nat \<Rightarrow> string" where
  "Itoa n = (if n < 10 then [char_of (48 + n)] else Itoa (n div 10) @ [char_of (48 + n mod 10)])"

declare Itoa.simps [simp del]

section \<open>Lemmas on the string functions\<close>

lemma HasPrefix_append [simp]: "HasPrefix (p @ s) p"
  by (simp add: HasPrefix_def)

lemma HasPrefixE:
  assumes "HasPrefix s p"
  obtains r where "s = p @ r"
  using assms by (auto simp: HasPrefix_def prefix_def)

lemma TrimPrefix_append [simp]: "TrimPrefix (p @ s) p = s"
  by (simp add: TrimPrefix_def)

lemma TrimSuffix_append [simp]: "TrimSuffix (s @ p) p = s"
  by (simp add: TrimSuffix_def suffix_def)

lemma Contains_iff_sublist: "Contains s sub \<longleftrightarrow> sublist sub s"
proof (induction s)
  case Nil
  show ?case by simp
next
  case (Cons x xs)
  then show ?case by (simp add: sublist_Cons_right)
qed

lemma Contains_append: "Contains s sub \<Longrightarrow> Contains (u @ s @ v) sub"
  by (auto simp: Contains_iff_sublist sublist_def) (metis append.assoc)

lemma Split_not_Nil [simp]: "Split c s \<noteq> []"
  by (induction s) (auto split: list.splits)

lemma Split_no_sep: "w \<in> set (Split c s) \<Longrightarrow> c \<notin> set w"
proof (induction s arbitrary: w)
  case Nil
  then show ?case by simp
next
  case (Cons x xs)
  then show ?case by (fastforce split: if_splits list.splits)
qed

lemma StrJoin_Split: "StrJoin (Split c s) [c] = s"
proof (induction s)
  case Nil
  show ?case by simp
next
  case (Cons x xs)
  then show ?case
    by (cases "Split c xs"; cases "tl (Split c xs)") (auto split: list.splits)
qed

lemma Split_id: "c \<notin> set w \<Longrightarrow> Split c w = [w]"
  by (induction w) auto

lemma Split_append_sep: "c \<notin> set w \<Longrightarrow> Split c (w @ c # s) = w # Split c s"
  by (induction w) auto

lemma Split_StrJoin:
  assumes "ws \<noteq> []" and "\<And>w. w \<in> set ws \<Longrightarrow> c \<notin> set w"
  shows "Split c (StrJoin ws [c]) = ws"
  using assms
proof (induction ws "[c]" rule: StrJoin.induct)
  case 1
  then show ?case by simp
next
  case (2 w)
  then show ?case by (simp add: Split_id)
next
  case (3 w v ws)
  then show ?case by (simp add: Split_append_sep)
qed

lemma Split_append:
  "Split c (s @ c # t) = Split c s @ Split c t"
  by (induction s) (auto split: list.splits)

lemma StrJoin_Cons: "ws \<noteq> [] \<Longrightarrow> StrJoin (w # ws) sep = w @ sep @ StrJoin ws sep"
  by (cases ws) auto

lemma StrJoin_append:
  "vs \<noteq> [] \<Longrightarrow> ws \<noteq> [] \<Longrightarrow> StrJoin (vs @ ws) sep = StrJoin vs sep @ sep @ StrJoin ws sep"
  by (induction vs rule: list_nonempty_induct) (auto simp: StrJoin_Cons)

lemma Contains_StrJoin: "w \<in> set ws \<Longrightarrow> Contains (StrJoin ws sep) w"
proof (induction ws sep rule: StrJoin.induct)
  case (3 v u ws sep)
  then show ?case
    using Contains_append [of "StrJoin (u # ws) sep" w "v @ sep" "[]"]
      Contains_append [of v v "[]"]
    by (auto simp: Contains_iff_sublist)
qed (simp_all add: Contains_iff_sublist)

lemma TrimRight_no_trailing: "s = [] \<or> last s \<noteq> c \<Longrightarrow> TrimRight s c = s"
  by (cases s rule: rev_cases) (auto simp: TrimRight_def)

lemma Itoa_digit: "n < 10 \<Longrightarrow> of_char (char_of (48 + n :: nat) :: char) = 48 + n"
  by simp

lemma Itoa_inj: "Itoa m = Itoa n \<Longrightarrow> m = n"
proof (induction m arbitrary: n rule: Itoa.induct)
  case (1 m)
  have len: "Itoa k \<noteq> []" for k by (subst Itoa.simps) simp
  have last: "last (Itoa k) = char_of (48 + k mod 10)" for k by (subst Itoa.simps) simp
  have but: "butlast (Itoa k) = (if k < 10 then [] else Itoa (k div 10))" for k by (subst Itoa.simps) simp
  have "(of_char (char_of (48 + m mod 10) :: char) :: nat) = of_char (char_of (48 + n mod 10) :: char)"
    using last [of m] last [of n] 1(2) by simp
  then have mod: "m mod 10 = n mod 10" by simp
  have tl: "(if m < 10 then [] else Itoa (m div 10)) = (if n < 10 then [] else Itoa (n div 10))"
    using but [of m] but [of n] 1(2) by simp
  have "m div 10 = n div 10"
  proof (cases "m < 10")
    case True
    then show ?thesis using tl len [of "n div 10", symmetric] by (auto split: if_splits)
  next
    case False
    with tl len 1(1) show ?thesis by (auto split: if_splits)
  qed
  with mod show ?case by (metis div_mult_mod_eq)
qed

lemma option_eqI: "(\<And>i. x = Some i \<longleftrightarrow> y = Some i) \<Longrightarrow> x = y"
  by (cases x; cases y) auto

lemma find_filter_cong:
  "(\<And>x. x \<in> set xs \<Longrightarrow> R x \<longleftrightarrow> Q x \<and> P x) \<Longrightarrow> find P (filter Q xs) = find R xs"
  by (induction xs) auto

lemma key_in_filter:
  assumes "distinct (map k xs)" and "x \<in> set xs"
  shows "k x \<in> k ` set (filter P xs) \<longleftrightarrow> P x"
  using assms by (auto simp: distinct_map inj_on_def)

lemma map_of_filter_key: "map_of (filter (\<lambda>e. P (fst e)) f) q = (if P q then map_of f q else None)"
  by (induction f) auto

lemma map_of_filter_neq: "map_of (filter (\<lambda>e. fst e \<noteq> k) f) q = (if q = k then None else map_of f q)"
  using map_of_filter_key [of "\<lambda>x. x \<noteq> k" f q] by simp

end
