(* ===== verification/GoPath.thy ===== *)
theory GoPath
  imports Prelude
begin

text \<open>
  Go's \<^verbatim>\<open>path/filepath\<close> on a Unix system, as far as the sources use it: \<^verbatim>\<open>Clean\<close>,
  \<^verbatim>\<open>Join\<close>, \<^verbatim>\<open>Dir\<close>, \<^verbatim>\<open>Base\<close>, \<^verbatim>\<open>Ext\<close> and \<^verbatim>\<open>Split\<close>. The abstraction of an absolute
  path is the list \<open>segs\<close> of its components; the lemmas of this theory reduce the
  textual containment test the sources write (equality, or prefix plus separator) to the
  prefix order on these lists.
\<close>

section \<open>Definitions\<close>

definition comps :: "string \<Rightarrow> string list" where
  "comps p = filter (\<lambda>w. w \<noteq> [] \<and> w \<noteq> ''.'') (Split slash p)"

text \<open>Elimination of \<^verbatim>\<open>..\<close>: \<open>st\<close> is the reversed output so far.\<close>

fun resolve :: "bool \<Rightarrow> string list \<Rightarrow> string list \<Rightarrow> string list" where
  "resolve rooted st [] = rev st"
| "resolve rooted st (w # ws) =
     (if w = ''..'' then
        (case st of
           [] \<Rightarrow> (if rooted then resolve rooted [] ws else resolve rooted [w] ws)
         | t # ts \<Rightarrow> (if t = ''..'' then resolve rooted (w # st) ws else resolve rooted ts ws))
      else resolve rooted (w # st) ws)"

definition Clean :: "string \<Rightarrow> string" where
  "Clean p =
     (let rooted = HasPrefix p ''/''; cs = resolve rooted [] (comps p)
      in if rooted then ''/'' @ StrJoin cs ''/''
         else if cs = [] then ''.'' else StrJoin cs ''/'')"

fun Join :: "string list \<Rightarrow> string" where
  "Join [] = []"
| "Join (e # es) = (if e = [] then Join es else Clean (StrJoin (e # es) ''/''))"

text \<open>The part of a path up to and including its last separator, and the rest.\<close>

definition PathSplit :: "string \<Rightarrow> string \<times> string" where
  "PathSplit p =
     (let f = rev (takeWhile (\<lambda>c. c \<noteq> slash) (rev p)) in (take (length p - length f) p, f))"

definition Dir :: "string \<Rightarrow> string" where
  "Dir p = Clean (fst (PathSplit p))"

definition Base :: "string \<Rightarrow> string" where
  "Base p =
     (if p = [] then ''.''
      else (let q = snd (PathSplit (TrimRight p slash)) in if q = [] then ''/'' else q))"

definition Ext :: "string \<Rightarrow> string" where
  "Ext p =
     (let f = snd (PathSplit p); r = takeWhile (\<lambda>c. c \<noteq> CHR ''.'') (rev f)
      in if length r < length f then CHR ''.'' # rev r else [])"

text \<open>The component list of an absolute path, and the path of a component list.\<close>

definition segs :: "string \<Rightarrow> string list" where
  "segs p = resolve True [] (comps p)"

definition path_of :: "string list \<Rightarrow> string" where
  "path_of cs = ''/'' @ StrJoin cs ''/''"

definition proper :: "string \<Rightarrow> bool" where
  "proper w = (w \<noteq> [] \<and> w \<noteq> ''.'' \<and> w \<noteq> ''..'' \<and> slash \<notin> set w)"

text \<open>The containment test as the sources write it: \<^verbatim>\<open>p == d || HasPrefix(p, d+"/")\<close>.\<close>

definition atOrUnder :: "string \<Rightarrow> string \<Rightarrow> bool" where
  "atOrUnder d p = (p = d \<or> HasPrefix p (d @ ''/''))"

section \<open>Components\<close>

lemma comps_append_slash: "comps (p @ slash # q) = comps p @ comps q"
  by (simp add: comps_def Split_append)

lemma comps_Nil [simp]: "comps [] = []"
  by (simp add: comps_def)

lemma comps_slash_Cons [simp]: "comps (slash # q) = comps q"
  using comps_append_slash [of "[]" q] by simp

lemma comps_mem: "w \<in> set (comps p) \<Longrightarrow> w \<noteq> [] \<and> w \<noteq> ''.'' \<and> slash \<notin> set w"
  by (auto simp: comps_def dest: Split_no_sep)

lemma comps_proper_iff: "list_all proper (comps p) \<longleftrightarrow> ''..'' \<notin> set (comps p)"
  by (auto simp: list_all_iff proper_def dest: comps_mem)

lemma comps_StrJoin:
  assumes "list_all proper cs"
  shows "comps (StrJoin cs ''/'') = cs"
proof (cases "cs = []")
  case True
  then show ?thesis by simp
next
  case False
  then have "Split slash (StrJoin cs ''/'') = cs"
    using assms by (intro Split_StrJoin) (auto simp: list_all_iff proper_def)
  moreover have "filter (\<lambda>w. w \<noteq> [] \<and> w \<noteq> ''.'') cs = cs"
    using assms by (auto simp: list_all_iff proper_def filter_id_conv)
  ultimately show ?thesis by (simp add: comps_def)
qed

lemma comps_proper_name: "proper w \<Longrightarrow> comps w = [w]"
  using comps_StrJoin [of "[w]"] by simp

lemma comps_path_of: "list_all proper cs \<Longrightarrow> comps (path_of cs) = cs"
  by (simp add: path_of_def comps_StrJoin)

lemma no_dotdot_comps:
  assumes "\<not> Contains p ''..''"
  shows "list_all proper (comps p)"
proof -
  have "''..'' \<notin> set (Split slash p)"
    using assms Contains_StrJoin [of "''..''" "Split slash p" "[slash]"]
    by (auto simp: StrJoin_Split)
  then have "''..'' \<notin> set (comps p)" by (simp add: comps_def)
  then show ?thesis by (simp only: comps_proper_iff) simp
qed

section \<open>Resolution of dot-dot\<close>

lemma resolve_proper: "list_all proper ws \<Longrightarrow> resolve r st ws = rev st @ ws"
  by (induction ws arbitrary: st) (auto simp: proper_def)

lemma resolve_append: "resolve r st (xs @ ys) = resolve r (rev (resolve r st xs)) ys"
  by (induction r st xs rule: resolve.induct) (auto split: list.splits)

lemma resolve_rooted_proper:
  assumes "list_all proper st" and "\<And>w. w \<in> set ws \<Longrightarrow> w \<noteq> [] \<and> w \<noteq> ''.'' \<and> slash \<notin> set w"
  shows "list_all proper (resolve True st ws)"
  using assms
proof (induction "True" st ws rule: resolve.induct)
  case (1 st)
  then show ?case by simp
next
  case (2 st w ws)
  then show ?case by (cases st) (auto simp: proper_def)
qed

lemma segs_proper: "list_all proper (segs p)"
  unfolding segs_def by (rule resolve_rooted_proper) (auto dest: comps_mem)

lemma segs_path_of [simp]: "list_all proper cs \<Longrightarrow> segs (path_of cs) = cs"
  by (simp add: segs_def comps_path_of resolve_proper)

lemma segs_append_slash: "segs (p @ slash # q) = resolve True (rev (segs p)) (comps q)"
  by (simp add: segs_def comps_append_slash resolve_append)

lemma path_of_inj:
  assumes "list_all proper cs" and "list_all proper ds"
  shows "path_of cs = path_of ds \<longleftrightarrow> cs = ds"
  using assms segs_path_of by metis

section \<open>Clean and Join on absolute paths\<close>

abbreviation rooted :: "string \<Rightarrow> bool" where "rooted p \<equiv> HasPrefix p ''/''"

lemma rooted_Cons [simp]: "rooted (slash # p)"
  by (simp add: HasPrefix_def)

lemma rooted_path_of [simp]: "rooted (path_of cs)"
  by (simp add: path_of_def HasPrefix_def)

lemma Clean_rooted: "rooted p \<Longrightarrow> Clean p = path_of (segs p)"
  by (simp add: Clean_def path_of_def segs_def)

lemma rooted_Clean [simp]: "rooted p \<Longrightarrow> rooted (Clean p)"
  by (simp add: Clean_rooted)

lemma segs_Clean [simp]: "rooted p \<Longrightarrow> segs (Clean p) = segs p"
  by (simp add: Clean_rooted segs_proper)

lemma Clean_path_of: "list_all proper cs \<Longrightarrow> Clean (path_of cs) = path_of cs"
  by (simp add: Clean_rooted)

lemma Clean_idem: "rooted p \<Longrightarrow> Clean (Clean p) = Clean p"
  by (simp add: Clean_rooted segs_proper Clean_path_of)

lemma rooted_not_Nil: "rooted p \<Longrightarrow> p \<noteq> []"
  by (auto simp: HasPrefix_def)

lemma rooted_append: "rooted p \<Longrightarrow> rooted (p @ q)"
  by (auto simp: HasPrefix_def)

lemma Join2_rooted:
  "rooted a \<Longrightarrow> Join [a, b] = path_of (resolve True (rev (segs a)) (comps b))"
  using rooted_not_Nil [of a] rooted_append [of a "slash # b"]
  by (simp add: Clean_rooted segs_append_slash)

lemma segs_Join2:
  assumes "rooted a" and "list_all proper (comps b)"
  shows "segs (Join [a, b]) = segs a @ comps b"
proof -
  have "Join [a, b] = path_of (segs a @ comps b)"
    by (simp only: Join2_rooted [OF assms(1)] resolve_proper [OF assms(2)] rev_rev_ident)
  then show ?thesis using assms segs_proper [of a] by simp
qed

lemma rooted_Join2: "rooted a \<Longrightarrow> rooted (Join [a, b])"
  by (simp only: Join2_rooted rooted_path_of)

lemma Clean_Join2: "rooted a \<Longrightarrow> Clean (Join [a, b]) = Join [a, b]"
  using Clean_idem [of "a @ slash # b"] rooted_not_Nil [of a] rooted_append [of a "slash # b"]
  by simp

section \<open>Containment\<close>

lemma path_of_append: "cs \<noteq> [] \<Longrightarrow> ds \<noteq> [] \<Longrightarrow> path_of (cs @ ds) = path_of cs @ path_of ds"
  by (simp add: path_of_def StrJoin_append)

lemma path_of_snoc_slash: "cs \<noteq> [] \<Longrightarrow> ds \<noteq> [] \<Longrightarrow> path_of (cs @ ds) = path_of cs @ ''/'' @ StrJoin ds ''/''"
  by (simp add: path_of_def StrJoin_append)

lemma path_of_Nil [simp]: "path_of [] = ''/''"
  by (simp add: path_of_def)

text \<open>The textual test below a proper directory is the prefix order on components.\<close>

lemma HasPrefix_path_of:
  assumes cs: "list_all proper cs" and ds: "list_all proper ds" "ds \<noteq> []"
  shows "HasPrefix (path_of cs) (path_of ds @ ''/'') \<longleftrightarrow> strict_prefix ds cs"
proof
  assume "HasPrefix (path_of cs) (path_of ds @ ''/'')"
  then obtain r where r: "path_of cs = path_of ds @ slash # r"
    by (auto simp: HasPrefix_def prefix_def)
  then have "comps (path_of cs) = comps (path_of ds) @ comps r"
    by (simp add: comps_append_slash)
  then have eq: "cs = ds @ comps r" using cs ds by (simp add: comps_path_of)
  have "comps r \<noteq> []"
  proof
    assume "comps r = []"
    with eq r show False by simp
  qed
  with eq show "strict_prefix ds cs" by (auto simp: strict_prefix_def)
next
  assume "strict_prefix ds cs"
  then obtain es where "cs = ds @ es" "es \<noteq> []" by (auto simp: strict_prefix_def prefix_def)
  then show "HasPrefix (path_of cs) (path_of ds @ ''/'')"
    using ds by (simp add: path_of_snoc_slash HasPrefix_def)
qed

lemma atOrUnder_path_of:
  assumes "list_all proper cs" and "list_all proper ds" and "ds \<noteq> []"
  shows "atOrUnder (path_of ds) (path_of cs) \<longleftrightarrow> prefix ds cs"
  using HasPrefix_path_of [OF assms] path_of_inj [OF assms(1,2)]
  by (auto simp: atOrUnder_def strict_prefix_def)

lemma atOrUnder_Clean:
  assumes "rooted d" and "rooted p" and "segs d \<noteq> []"
  shows "atOrUnder (Clean d) (Clean p) \<longleftrightarrow> prefix (segs d) (segs p)"
  using assms by (simp add: Clean_rooted atOrUnder_path_of segs_proper)

text \<open>
  The root directory is the exception: \<^verbatim>\<open>"/" + "/"\<close> is no prefix of a cleaned path, so the
  textual test with root accepts root alone.
\<close>

lemma path_of_no_double_slash:
  assumes "list_all proper cs"
  shows "\<not> HasPrefix (path_of cs) ''//''"
proof
  assume "HasPrefix (path_of cs) ''//''"
  then obtain r where r: "StrJoin cs ''/'' = slash # r" by (auto simp: HasPrefix_def prefix_def path_of_def)
  show False
  proof (cases cs)
    case Nil
    with r show False by simp
  next
    case (Cons w ws)
    with assms obtain x xs where "w = x # xs" "x \<noteq> slash"
      by (cases w) (auto simp: proper_def)
    with r Cons show False by (cases ws) auto
  qed
qed

lemma atOrUnder_root:
  assumes "rooted p"
  shows "atOrUnder ''/'' (Clean p) \<longleftrightarrow> segs p = []"
proof -
  have "path_of (segs p) = ''/'' \<longleftrightarrow> segs p = []"
    using path_of_inj [OF segs_proper, of "[]" p] by simp
  then show ?thesis
    using assms path_of_no_double_slash [OF segs_proper, of p]
    by (simp add: atOrUnder_def Clean_rooted)
qed

section \<open>Directory and base name of an absolute path\<close>

text \<open>The text before the components below a directory.\<close>

definition dirPrefix :: "string list \<Rightarrow> string" where
  "dirPrefix ds = (if ds = [] then ''/'' else path_of ds @ ''/'')"

lemma path_of_under: "es \<noteq> [] \<Longrightarrow> path_of (ds @ es) = dirPrefix ds @ StrJoin es ''/''"
  by (simp add: dirPrefix_def path_of_snoc_slash) (simp add: path_of_def)

lemma dirPrefix_snoc: "\<exists>u. dirPrefix ds = u @ [slash]"
  by (auto simp: dirPrefix_def)

lemma PathSplit_snoc:
  assumes "slash \<notin> set d"
  shows "PathSplit (path_of (ds @ [d])) = (dirPrefix ds, d)"
proof -
  obtain u where u: "dirPrefix ds = u @ [slash]" using dirPrefix_snoc by blast
  have p: "path_of (ds @ [d]) = u @ slash # d" using path_of_under [of "[d]" ds] u by simp
  have "takeWhile (\<lambda>c. c \<noteq> slash) (rev d @ slash # rev u) = rev d"
    using assms by (subst takeWhile_append2) auto
  then show ?thesis unfolding PathSplit_def p by (simp add: Let_def u)
qed

lemma Clean_dirPrefix:
  assumes "list_all proper ds"
  shows "Clean (dirPrefix ds) = path_of ds"
proof -
  have "segs (path_of ds @ [slash]) = ds"
    using segs_append_slash [of "path_of ds" "[]"] assms by simp
  moreover have "rooted (path_of ds @ [slash])" by (simp add: rooted_append)
  ultimately have "Clean (path_of ds @ [slash]) = path_of ds" by (simp add: Clean_rooted)
  moreover have "Clean ''/'' = path_of []" by (simp add: Clean_rooted segs_def comps_def)
  ultimately show ?thesis by (simp add: dirPrefix_def)
qed

lemma Dir_path_of:
  assumes "list_all proper ds" and "proper d"
  shows "Dir (path_of (ds @ [d])) = path_of ds"
  using assms by (simp add: Dir_def PathSplit_snoc proper_def Clean_dirPrefix)

lemma Base_path_of:
  assumes "proper d"
  shows "Base (path_of (ds @ [d])) = d"
proof -
  have d: "d \<noteq> []" "slash \<notin> set d" using assms by (simp_all add: proper_def)
  obtain u where u: "dirPrefix ds = u @ [slash]" using dirPrefix_snoc by blast
  have p: "path_of (ds @ [d]) = u @ slash # d" using path_of_under [of "[d]" ds] u by simp
  have "last (path_of (ds @ [d])) \<noteq> slash" using d p last_in_set [OF d(1)] by (metis last_ConsR last_appendR list.distinct(1))
  then have "TrimRight (path_of (ds @ [d])) slash = path_of (ds @ [d])" by (simp add: TrimRight_no_trailing)
  then show ?thesis using d by (simp add: Base_def PathSplit_snoc) (simp add: path_of_def)
qed

declare Join.simps(2) [simp del]

end
