(* ===== verification/FileSys.thy ===== *)
theory FileSys
  imports GoPath "HOL-Library.AList"
begin

text \<open>
  The file system behind Go's \<^verbatim>\<open>os\<close> package, without symbolic links: a finite table from the
  component list of an absolute path to a regular file with its content or a directory. The root
  directory always exists. Each call returns the new table or the error the kernel reports.
\<close>

section \<open>Definitions\<close>

datatype node = RegularFile string | Directory

datatype fserr = ENOENT | ENOTDIR | EISDIR | EEXIST | ENOTEMPTY | EINVAL | EBUSY | EIO

type_synonym fs = "(string list \<times> node) list"

definition fsGet :: "fs \<Rightarrow> string list \<Rightarrow> node option" where
  "fsGet f p = (if p = [] then Some Directory else map_of f p)"

definition isFile :: "node option \<Rightarrow> bool" where
  "isFile n = (case n of Some (RegularFile _) \<Rightarrow> True | _ \<Rightarrow> False)"

text \<open>A regular file above \<open>p\<close>: then \<^verbatim>\<open>os.Stat\<close> fails with \<^verbatim>\<open>ENOTDIR\<close>, which is not \<^verbatim>\<open>IsNotExist\<close>.\<close>

definition blocked :: "fs \<Rightarrow> string list \<Rightarrow> bool" where
  "blocked f p = list_ex (\<lambda>n. isFile (fsGet f (take n p))) [0..<length p]"

definition notExist :: "fs \<Rightarrow> string list \<Rightarrow> bool" where
  "notExist f p = (fsGet f p = None \<and> \<not> blocked f p)"

definition fsPut :: "fs \<Rightarrow> string list \<Rightarrow> node \<Rightarrow> fs" where
  "fsPut f p n = AList.update p n f"

definition addDir :: "string list \<Rightarrow> fs \<Rightarrow> fs" where
  "addDir q f = (if fsGet f q = None then fsPut f q Directory else f)"

definition fsMkdirAll :: "fs \<Rightarrow> string list \<Rightarrow> (fserr, fs) result" where
  "fsMkdirAll f p =
     (if blocked f p \<or> isFile (fsGet f p) then Inl ENOTDIR
      else Inr (fold addDir (map (\<lambda>n. take n p) [0..<Suc (length p)]) f))"

definition hasChild :: "fs \<Rightarrow> string list \<Rightarrow> bool" where
  "hasChild f p = list_ex (\<lambda>e. strict_prefix p (fst e)) f"

definition fsRemove :: "fs \<Rightarrow> string list \<Rightarrow> (fserr, fs) result" where
  "fsRemove f p =
     (case fsGet f p of
        None \<Rightarrow> Inl (if blocked f p then ENOTDIR else ENOENT)
      | Some (RegularFile _) \<Rightarrow> Inr (filter (\<lambda>e. fst e \<noteq> p) f)
      | Some Directory \<Rightarrow> if p = [] then Inl EBUSY else if hasChild f p then Inl ENOTEMPTY
                         else Inr (filter (\<lambda>e. fst e \<noteq> p) f))"

definition fsRemoveAll :: "fs \<Rightarrow> string list \<Rightarrow> fs" where
  "fsRemoveAll f p = filter (\<lambda>e. \<not> prefix p (fst e)) f"

definition moveKey :: "string list \<Rightarrow> string list \<Rightarrow> string list \<Rightarrow> string list" where
  "moveKey p q r = (if prefix p r then q @ drop (length p) r else r)"

definition fsRename :: "fs \<Rightarrow> string list \<Rightarrow> string list \<Rightarrow> (fserr, fs) result" where
  "fsRename f p q =
     (case fsGet f p of
        None \<Rightarrow> Inl (if blocked f p then ENOTDIR else ENOENT)
      | Some n \<Rightarrow>
          if p = [] then Inl EBUSY
          else if fsGet f q = Some Directory then Inl EEXIST
          else if p = q then Inr f
          else if fsGet f (butlast q) \<noteq> Some Directory then Inl (if blocked f q then ENOTDIR else ENOENT)
          else if n = Directory \<and> fsGet f q \<noteq> None then Inl ENOTDIR
          else if prefix p q then Inl EINVAL
          else Inr (map (\<lambda>e. (moveKey p q (fst e), snd e)) (filter (\<lambda>e. fst e \<noteq> q) f)))"

definition fsCreate :: "fs \<Rightarrow> string list \<Rightarrow> string \<Rightarrow> (fserr, fs) result" where
  "fsCreate f p c =
     (if fsGet f p = Some Directory then Inl EISDIR
      else if fsGet f (butlast p) \<noteq> Some Directory then Inl (if blocked f p then ENOTDIR else ENOENT)
      else Inr (fsPut f p (RegularFile c)))"

definition fsRead :: "fs \<Rightarrow> string list \<Rightarrow> (fserr, string) result" where
  "fsRead f p =
     (case fsGet f p of
        None \<Rightarrow> Inl (if blocked f p then ENOTDIR else ENOENT)
      | Some (RegularFile c) \<Rightarrow> Inr c
      | Some Directory \<Rightarrow> Inl EISDIR)"

text \<open>A table is well formed when keys are unique and every entry lies in a directory.\<close>

definition fsWF :: "fs \<Rightarrow> bool" where
  "fsWF f \<longleftrightarrow> distinct (map fst f) \<and>
     list_all (\<lambda>e. fst e \<noteq> [] \<and> fsGet f (butlast (fst e)) = Some Directory) f"

section \<open>Laws\<close>

lemma fsGet_Nil [simp]: "fsGet f [] = Some Directory"
  by (simp add: fsGet_def)

lemma fsGet_put: "p \<noteq> [] \<Longrightarrow> fsGet (fsPut f p n) q = (if q = p then Some n else fsGet f q)"
  by (simp add: fsGet_def fsPut_def update_conv')

lemma fsGet_filter: "fsGet (filter (\<lambda>e. P (fst e)) f) q = (if q = [] \<or> P q then fsGet f q else None)"
  by (simp add: fsGet_def map_of_filter_key)

lemma fsGet_remove_key: "fsGet (filter (\<lambda>e. fst e \<noteq> p) f) q = (if q = p \<and> q \<noteq> [] then None else fsGet f q)"
  using fsGet_filter [of "\<lambda>r. r \<noteq> p" f q] by auto

lemma isFile_Some [simp]: "isFile (Some (RegularFile c))" "\<not> isFile (Some Directory)" "\<not> isFile None"
  by (simp_all add: isFile_def)

lemma isFile_iff: "isFile n \<longleftrightarrow> (\<exists>c. n = Some (RegularFile c))"
  by (auto simp: isFile_def split: option.splits node.splits)

lemma blocked_iff: "blocked f p \<longleftrightarrow> (\<exists>q. strict_prefix q p \<and> isFile (fsGet f q))"
proof
  assume "blocked f p"
  then obtain n where n: "n < length p" "isFile (fsGet f (take n p))" by (auto simp: blocked_def list_ex_iff)
  then have "strict_prefix (take n p) p"
    by (auto simp: strict_prefix_def take_is_prefix)
  with n(2) show "\<exists>q. strict_prefix q p \<and> isFile (fsGet f q)" by blast
next
  assume "\<exists>q. strict_prefix q p \<and> isFile (fsGet f q)"
  then obtain q where q: "strict_prefix q p" "isFile (fsGet f q)" by blast
  then have "length q < length p" "take (length q) p = q"
    by (auto simp: strict_prefix_def prefix_def)
  with q show "blocked f p" by (auto simp: blocked_def list_ex_iff intro!: bexI [of _ "length q"])
qed

lemma fsRemove_get:
  "fsRemove f p = Inr f' \<Longrightarrow> fsGet f' q = (if q = p then None else fsGet f q) \<and> p \<noteq> []"
  by (auto simp: fsRemove_def fsGet_remove_key split: option.splits node.splits if_splits)

lemma addDir_get: "fsGet (addDir p f) q = (if q = p \<and> fsGet f p = None then Some Directory else fsGet f q)"
proof (cases "p = []")
  case False
  then show ?thesis by (simp add: addDir_def fsGet_put)
qed (simp add: addDir_def)

lemma fold_addDir_get:
  "fsGet (fold addDir qs f) q = (if q \<in> set qs \<and> fsGet f q = None then Some Directory else fsGet f q)"
  by (induction qs arbitrary: f) (auto simp: addDir_get)

text \<open>Creating directories keeps what is there and makes every missing prefix a directory.\<close>

lemma fsMkdirAll_get:
  assumes "fsMkdirAll f p = Inr f'"
  shows "fsGet f' q = (if prefix q p \<and> fsGet f q = None then Some Directory else fsGet f q)"
proof -
  have mem: "q \<in> set (map (\<lambda>n. take n p) [0..<Suc (length p)]) \<longleftrightarrow> prefix q p"
  proof
    assume "prefix q p"
    then have "take (length q) p = q" "length q \<in> set [0..<Suc (length p)]"
      using prefix_length_le [of q p] by (auto simp: prefix_def)
    then show "q \<in> set (map (\<lambda>n. take n p) [0..<Suc (length p)])" by (metis image_eqI image_set)
  qed (auto simp: take_is_prefix simp del: upt_Suc)
  have "f' = fold addDir (map (\<lambda>n. take n p) [0..<Suc (length p)]) f"
    using assms by (auto simp: fsMkdirAll_def simp del: upt_Suc split: if_splits)
  then show ?thesis by (simp only: fold_addDir_get mem)
qed

lemma fsMkdirAll_pre:
  assumes "fsMkdirAll f p = Inr f'" and "prefix q p"
  shows "fsGet f q = None \<or> fsGet f q = Some Directory"
proof -
  have "\<not> isFile (fsGet f q)"
    using assms by (auto simp: fsMkdirAll_def blocked_iff strict_prefix_def split: if_splits)
  then show ?thesis by (cases "fsGet f q") (auto simp: isFile_def split: node.splits)
qed

lemma fsMkdirAll_dir: "fsMkdirAll f p = Inr f' \<Longrightarrow> prefix q p \<Longrightarrow> fsGet f' q = Some Directory"
  using fsMkdirAll_get [of f p f' q] fsMkdirAll_pre [of f p f' q] by auto

lemma fsCreate_get:
  "fsCreate f p c = Inr f' \<Longrightarrow> fsGet f' q = (if q = p then Some (RegularFile c) else fsGet f q) \<and> p \<noteq> []"
  by (cases "p = []") (auto simp: fsCreate_def fsGet_put split: if_splits)

text \<open>Moving a regular file.\<close>

lemma map_of_move:
  assumes "p \<noteq> q"  and "\<And>e. e \<in> set f \<Longrightarrow> prefix p (fst e) \<Longrightarrow> fst e = p"
  shows "map_of (map (\<lambda>e. (moveKey p q (fst e), snd e)) (filter (\<lambda>e. fst e \<noteq> q) f)) r =
    (if r = q then map_of f p else if r = p then None else map_of f r)"
  using assms
proof (induction f)
  case (Cons e f)
  have "prefix p (fst e) \<longleftrightarrow> fst e = p" using Cons.prems(2) [of e] by auto
  then show ?case using Cons by (cases e) (auto simp: moveKey_def)
qed simp

section \<open>Well-formed tables\<close>

lemma fsGet_key: "p \<noteq> [] \<Longrightarrow> p \<in> fst ` set f \<longleftrightarrow> fsGet f p \<noteq> None"
  using map_of_eq_None_iff [of f p] by (auto simp: fsGet_def)

lemma ball_keys:
  "x \<notin> K \<Longrightarrow> (\<And>p. p \<noteq> x \<Longrightarrow> p \<in> K \<longleftrightarrow> Q p) \<Longrightarrow> (\<forall>p \<in> K. R p) \<longleftrightarrow> (\<forall>p. p \<noteq> x \<longrightarrow> Q p \<longrightarrow> R p)"
  by metis

lemma fsWF_sem:
  "fsWF f \<longleftrightarrow> distinct (map fst f) \<and> [] \<notin> fst ` set f \<and>
     (\<forall>p. p \<noteq> [] \<longrightarrow> fsGet f p \<noteq> None \<longrightarrow> fsGet f (butlast p) = Some Directory)"
proof -
  have "list_all (\<lambda>e. fst e \<noteq> [] \<and> fsGet f (butlast (fst e)) = Some Directory) f \<longleftrightarrow>
      [] \<notin> fst ` set f \<and> (\<forall>p \<in> fst ` set f. fsGet f (butlast p) = Some Directory)"
    unfolding list_all_iff by (simp add: image_iff) metis
  moreover have "[] \<notin> fst ` set f \<Longrightarrow> (\<forall>p \<in> fst ` set f. fsGet f (butlast p) = Some Directory) \<longleftrightarrow>
      (\<forall>p. p \<noteq> [] \<longrightarrow> fsGet f p \<noteq> None \<longrightarrow> fsGet f (butlast p) = Some Directory)"
    by (rule ball_keys) (simp_all only: fsGet_key not_False_eq_True)
  ultimately show ?thesis unfolding fsWF_def by (simp only: conj_assoc) (meson)
qed

lemma wf_parent: "fsWF f \<Longrightarrow> p \<noteq> [] \<Longrightarrow> fsGet f p \<noteq> None \<Longrightarrow> fsGet f (butlast p) = Some Directory"
  by (simp add: fsWF_sem)

lemma wf_ancestor:
  assumes wf: "fsWF f"
  shows "fsGet f p \<noteq> None \<Longrightarrow> strict_prefix q p \<Longrightarrow> fsGet f q = Some Directory"
proof (induction p rule: rev_induct)
  case Nil
  then show ?case by simp
next
  case (snoc x p)
  then have d: "fsGet f p = Some Directory" using wf_parent [OF wf, of "p @ [x]"] by simp
  show ?case
  proof (cases "q = p")
    case False
    with snoc.prems(2) have "strict_prefix q p" by (auto simp: strict_prefix_def prefix_snoc)
    then show ?thesis using snoc.IH d by simp
  qed (use d in simp)
qed

lemma wf_not_blocked: "fsWF f \<Longrightarrow> fsGet f p \<noteq> None \<Longrightarrow> \<not> blocked f p"
  by (auto simp: blocked_iff dest: wf_ancestor)

lemma wf_no_child_of_file:
  assumes "fsWF f" and "fsGet f p = Some (RegularFile c)" and "e \<in> set f" and "prefix p (fst e)"
  shows "fst e = p"
proof (rule ccontr)
  assume "fst e \<noteq> p"
  then have "strict_prefix p (fst e)" using assms(4) by (simp add: strict_prefix_def)
  moreover have "fsGet f (fst e) \<noteq> None"
    using assms(3) map_of_eq_None_iff [of f "fst e"] by (auto simp: fsGet_def)
  ultimately have "fsGet f p = Some Directory" using wf_ancestor [OF assms(1)] by blast
  with assms(2) show False by simp
qed

lemma fsRename_file_get:
  assumes wf: "fsWF f" and reg: "fsGet f p = Some (RegularFile c)" and run: "fsRename f p q = Inr f'"
  shows "fsGet f' r = (if r = q then Some (RegularFile c) else if r = p then None else fsGet f r)"
proof (cases "p = q")
  case True
  then show ?thesis using reg run by (auto simp: fsRename_def split: if_splits)
next
  case False
  have ne: "p \<noteq> []" "q \<noteq> []" using reg run by (auto simp: fsRename_def split: if_splits)
  have "f' = map (\<lambda>e. (moveKey p q (fst e), snd e)) (filter (\<lambda>e. fst e \<noteq> q) f)"
    using reg run False by (auto simp: fsRename_def split: if_splits)
  then have "map_of f' r = (if r = q then map_of f p else if r = p then None else map_of f r)"
    using map_of_move [OF False, of f r] wf_no_child_of_file [OF wf reg] by simp
  then show ?thesis using ne reg by (auto simp: fsGet_def)
qed

lemma fsWF_put:
  assumes "fsWF f" and "p \<noteq> []" and "fsGet f (butlast p) = Some Directory"
    and "n = Directory \<or> fsGet f p \<noteq> Some Directory"
  shows "fsWF (fsPut f p n)"
proof -
  have "distinct (map fst (fsPut f p n))" "[] \<notin> fst ` set (fsPut f p n)"
    using assms(1,2) by (auto simp: fsPut_def fsWF_sem distinct_update dom_update)
  moreover have "fsGet (fsPut f p n) (butlast q) = Some Directory"
    if "q \<noteq> []" "fsGet (fsPut f p n) q \<noteq> None" for q
  proof (cases "q = p")
    case True
    then show ?thesis using assms(2,3) by (auto simp: fsGet_put) (metis append_butlast_last_id not_Cons_self2 append_self_conv)
  next
    case False
    then have "fsGet f (butlast q) = Some Directory"
      using that wf_parent [OF assms(1)] by (simp add: fsGet_put [OF assms(2)])
    then show ?thesis using assms(4) by (auto simp: fsGet_put [OF assms(2)])
  qed
  ultimately show ?thesis by (simp add: fsWF_sem)
qed

lemma fsCreate_wf: "fsWF f \<Longrightarrow> fsCreate f p c = Inr f' \<Longrightarrow> fsWF f'"
  by (cases "p = []") (auto simp: fsCreate_def intro!: fsWF_put split: if_splits)

lemma fsRemove_wf:
  assumes wf: "fsWF f" and run: "fsRemove f p = Inr f'"
  shows "fsWF f'"
proof -
  have f': "f' = filter (\<lambda>e. fst e \<noteq> p) f" and ne: "p \<noteq> []"
    using run by (auto simp: fsRemove_def split: option.splits node.splits if_splits)
  have "fsGet f' (butlast q) = Some Directory" if q: "q \<noteq> []" "fsGet f' q \<noteq> None" for q
  proof -
    have old: "fsGet f q \<noteq> None" "q \<noteq> p" using q fsRemove_get [OF run, of q] by (auto split: if_splits)
    have "butlast q \<noteq> p"
    proof
      assume eq: "butlast q = p"
      then have sp: "strict_prefix p q" using q(1)
        by (metis append_butlast_last_id not_Cons_self2 append_self_conv prefixI strict_prefix_def)
      have mem: "\<exists>e \<in> set f. fst e = q" using fsGet_key [OF q(1), of f] old(1) by auto
      have "fsGet f p = Some Directory" using wf_parent [OF wf q(1) old(1)] eq by simp
      then have "\<not> hasChild f p" using run by (auto simp: fsRemove_def split: if_splits)
      with sp mem show False by (auto simp: hasChild_def list_ex_iff)
    qed
    then show ?thesis
      using wf_parent [OF wf q(1) old(1)] fsRemove_get [OF run, of "butlast q"] by simp
  qed
  then show ?thesis using wf unfolding fsWF_sem f' by (auto simp: distinct_map_filter)
qed

lemma fsMkdirAll_wf:
  assumes "fsWF f" and "fsMkdirAll f p = Inr f'"
  shows "fsWF f'"
proof -
  have step: "fsWF (fold addDir (map (\<lambda>n. take n p) [0..<k]) f) \<and>
      (k > 0 \<longrightarrow> fsGet (fold addDir (map (\<lambda>n. take n p) [0..<k]) f) (take (k - 1) p) = Some Directory)"
    if "k \<le> Suc (length p)" for k
    using that
  proof (induction k)
    case (Suc k)
    let ?g = "fold addDir (map (\<lambda>n. take n p) [0..<k]) f"
    have ih: "fsWF ?g" "k > 0 \<Longrightarrow> fsGet ?g (take (k - 1) p) = Some Directory" using Suc by auto
    have pre: "prefix (take k p) p" by (rule take_is_prefix)
    have "fsGet f (take k p) = None \<or> fsGet f (take k p) = Some Directory"
      using fsMkdirAll_pre [OF assms(2) pre] .
    then have dir: "fsGet (addDir (take k p) ?g) (take k p) = Some Directory"
      unfolding addDir_get fold_addDir_get by auto
    have "fsWF (addDir (take k p) ?g)"
    proof (cases "k > 0 \<and> fsGet ?g (take k p) = None")
      case True
      then have "take k p \<noteq> []" by auto
      moreover have "butlast (take k p) = take (k - 1) p" using Suc.prems by (simp add: butlast_take)
      ultimately show ?thesis using True ih by (simp add: addDir_def fsWF_put)
    qed (use ih(1) in \<open>auto simp: addDir_def\<close>)
    then show ?case using dir by simp
  qed (use assms(1) in simp)
  have "f' = fold addDir (map (\<lambda>n. take n p) [0..<Suc (length p)]) f"
    using assms(2) by (auto simp: fsMkdirAll_def simp del: upt_Suc split: if_splits)
  then show ?thesis using step [of "Suc (length p)"] by simp
qed

lemma fsRename_wf:
  assumes wf: "fsWF f" and reg: "fsGet f p = Some (RegularFile c)" and run: "fsRename f p q = Inr f'"
  shows "fsWF f'"
proof (cases "p = q")
  case True
  then show ?thesis using reg run wf by (auto simp: fsRename_def split: if_splits)
next
  case False
  have ne: "p \<noteq> []" "q \<noteq> []" and par: "fsGet f (butlast q) = Some Directory" and nd: "fsGet f q \<noteq> Some Directory"
    using reg run False by (auto simp: fsRename_def split: if_splits)
  have f': "f' = map (\<lambda>e. (moveKey p q (fst e), snd e)) (filter (\<lambda>e. fst e \<noteq> q) f)"
    using reg run False by (auto simp: fsRename_def split: if_splits)
  have key: "moveKey p q (fst e) = (if fst e = p then q else fst e)" if "e \<in> set f" for e
    using wf_no_child_of_file [OF wf reg that] by (auto simp: moveKey_def)
  have keys: "map fst f' = map (\<lambda>k. if k = p then q else k) (filter (\<lambda>k. k \<noteq> q) (map fst f))"
    using key unfolding f' by (simp add: filter_map comp_def)
  have d: "distinct (map fst f)" "[] \<notin> fst ` set f" using wf by (auto simp: fsWF_sem)
  have 1: "distinct (map fst f')" unfolding keys using d(1) False by (auto simp: distinct_map inj_on_def)
  have "[] \<notin> set (map fst f')" unfolding keys using d(2) ne by auto
  then have 2: "[] \<notin> fst ` set f'" by simp
  note get = fsRename_file_get [OF wf reg run]
  have "fsGet f' (butlast r) = Some Directory" if r: "r \<noteq> []" "fsGet f' r \<noteq> None" for r
  proof -
    have "fsGet f (butlast r) = Some Directory"
      using r par wf_parent [OF wf r(1)] by (auto simp: get split: if_splits)
    then show ?thesis using reg nd by (auto simp: get)
  qed
  with 1 2 show ?thesis by (simp add: fsWF_sem)
qed

end
