(* ===== verification/UploadStore.thy ===== *)
theory UploadStore
  imports FileSys "HOL-Library.List_Lexorder" "HOL-Library.Char_ord"
begin

text \<open>
  The upload bookkeeping of \<^verbatim>\<open>service/upload\<close>: batches with their manifest items
  (\<^verbatim>\<open>batch.go\<close>, \<^verbatim>\<open>batch_store.go\<close>) and upload tasks (\<^verbatim>\<open>store.go\<close>), over a model of the SQL
  database. Every statement may fail: the database carries a list of faults, one per
  statement to come, so each error return of the code is a branch of the model, and a
  transaction that fails restores the tables. Unsorted queries return rows in table order.
\<close>

section \<open>Rows\<close>

definition BatchStatusActive :: string where "BatchStatusActive = ''active''"
definition BatchStatusInterrupted :: string where "BatchStatusInterrupted = ''interrupted''"
definition BatchStatusCompleted :: string where "BatchStatusCompleted = ''completed''"
definition BatchStatusAbandoned :: string where "BatchStatusAbandoned = ''abandoned''"

definition BatchInterruptSourceSignal :: string where "BatchInterruptSourceSignal = ''signal''"
definition BatchInterruptSourceTimeout :: string where "BatchInterruptSourceTimeout = ''timeout''"

lemmas status_defs = BatchStatusActive_def BatchStatusInterrupted_def BatchStatusCompleted_def
  BatchStatusAbandoned_def
lemmas source_defs = BatchInterruptSourceSignal_def BatchInterruptSourceTimeout_def

lemma status_distinct [simp]:
  "BatchStatusActive \<noteq> BatchStatusInterrupted" "BatchStatusInterrupted \<noteq> BatchStatusActive"
  "BatchStatusActive \<noteq> BatchStatusCompleted" "BatchStatusCompleted \<noteq> BatchStatusActive"
  "BatchStatusActive \<noteq> BatchStatusAbandoned" "BatchStatusAbandoned \<noteq> BatchStatusActive"
  "BatchStatusInterrupted \<noteq> BatchStatusCompleted" "BatchStatusCompleted \<noteq> BatchStatusInterrupted"
  "BatchStatusInterrupted \<noteq> BatchStatusAbandoned" "BatchStatusAbandoned \<noteq> BatchStatusInterrupted"
  "BatchStatusCompleted \<noteq> BatchStatusAbandoned" "BatchStatusAbandoned \<noteq> BatchStatusCompleted"
  by (simp_all add: status_defs)

lemma source_distinct [simp]:
  "BatchInterruptSourceSignal \<noteq> BatchInterruptSourceTimeout"
  "BatchInterruptSourceTimeout \<noteq> BatchInterruptSourceSignal"
  "BatchInterruptSourceSignal \<noteq> []" "BatchInterruptSourceTimeout \<noteq> []"
  by (simp_all add: source_defs)

record UploadBatch =
  b_ID :: string
  b_OwnerUserID :: string
  b_TargetPath :: string
  b_Status :: string
  b_Total :: int
  b_Done :: int
  b_LastProgressAt :: int
  b_InterruptedAt :: int
  b_InterruptSource :: string
  b_StagingCleaned :: bool
  b_CreatedAt :: int
  b_UpdatedAt :: int

record UploadBatchItem =
  bi_ID :: nat
  bi_BatchID :: string
  bi_RelativePath :: string
  bi_Size :: int
  bi_Done :: bool

text \<open>
  The task row as far as this repository writes and reads it (the type itself belongs to
  the shared library), and the status strings of that library, which stay a parameter.
\<close>

record UploadTask =
  t_ID :: string
  t_OwnerUserID :: string
  t_Filename :: string
  t_TargetPath :: string
  t_RelativePath :: string
  t_Size :: int
  t_Mime :: string
  t_Fingerprint :: string
  t_BatchID :: string
  t_ClientID :: string
  t_ClientMeta :: string
  t_Status :: string
  t_UploadedOffset :: int
  t_Error :: string
  t_LastErrorAt :: int
  t_ExpiresAt :: int
  t_CreatedAt :: int

record UploadStatuses =
  us_Uploading :: string
  us_Paused :: string
  us_Failed :: string
  us_Canceled :: string
  us_Completed :: string

section \<open>Database\<close>

datatype dberr = DBError | UniqueViolation | ErrNotFound

record tables =
  tb_batches :: "UploadBatch list"
  tb_items :: "UploadBatchItem list"
  tb_tasks :: "UploadTask list"
  tb_nextItem :: nat

text \<open>
  \<open>db_now\<close> is the clock during the operation, \<open>db_faults\<close> says which statements fail;
  \<open>db_fs\<close> is the file system.
\<close>

record db =
  db_tab :: tables
  db_now :: int
  db_faults :: "bool list"
  db_fs :: fs

type_synonym ('e, 'a) exec = "db \<Rightarrow> ('e, 'a) result \<times> db"
type_synonym 'a dbm = "(dberr, 'a) exec"

definition returnM :: "'a \<Rightarrow> ('e, 'a) exec" where
  "returnM x s = (Inr x, s)"

definition throwM :: "'e \<Rightarrow> ('e, 'a) exec" where
  "throwM e s = (Inl e, s)"

definition bindM :: "('e, 'a) exec \<Rightarrow> ('a \<Rightarrow> ('e, 'b) exec) \<Rightarrow> ('e, 'b) exec" where
  "bindM m f s = (case m s of (Inl e, s') \<Rightarrow> (Inl e, s') | (Inr x, s') \<Rightarrow> f x s')"

text \<open>An error that the caller drops, as in \<^verbatim>\<open>_ = f()\<close>.\<close>

definition ignoreM :: "('f, 'a) exec \<Rightarrow> ('e, unit) exec" where
  "ignoreM m s = (Inr (), snd (m s))"

text \<open>An error the caller inspects.\<close>

definition tryM :: "('e, 'a) exec \<Rightarrow> ('f, ('e, 'a) result) exec" where
  "tryM m s = (case m s of (r, s') \<Rightarrow> (Inr r, s'))"

definition stmt :: "(int \<Rightarrow> tables \<Rightarrow> (dberr, 'a) result \<times> tables) \<Rightarrow> 'a dbm" where
  "stmt f s =
     (if db_faults s \<noteq> [] \<and> hd (db_faults s) then (Inl DBError, s\<lparr>db_faults := tl (db_faults s)\<rparr>)
      else case f (db_now s) (db_tab s) of
             (r, t) \<Rightarrow> (r, s\<lparr>db_tab := t, db_faults := tl (db_faults s)\<rparr>))"

text \<open>\<^verbatim>\<open>db.Transaction\<close>: begin, body, commit; any error restores the tables.\<close>

definition transaction :: "'a dbm \<Rightarrow> 'a dbm" where
  "transaction body s =
     (case bindM (stmt (\<lambda>_ t. (Inr (), t)))
             (\<lambda>_. bindM body (\<lambda>x. bindM (stmt (\<lambda>_ t. (Inr (), t))) (\<lambda>_. returnM x))) s of
        (Inl e, s') \<Rightarrow> (Inl e, s'\<lparr>db_tab := db_tab s\<rparr>)
      | (Inr x, s') \<Rightarrow> (Inr x, s'))"

fun forM :: "('a \<Rightarrow> ('e, unit) exec) \<Rightarrow> 'a list \<Rightarrow> ('e, unit) exec" where
  "forM f [] = returnM ()"
| "forM f (x # xs) = bindM (f x) (\<lambda>_. forM f xs)"

definition query :: "(tables \<Rightarrow> 'a) \<Rightarrow> 'a dbm" where
  "query f = stmt (\<lambda>_ t. (Inr (f t), t))"

text \<open>Calls of the \<^verbatim>\<open>os\<close> package, which may also fail for reasons outside the table (I/O, device).\<close>

definition osDo :: "(fs \<Rightarrow> (fserr, fs) result) \<Rightarrow> (fserr, unit) exec" where
  "osDo f s =
     (if db_faults s \<noteq> [] \<and> hd (db_faults s) then (Inl EIO, s\<lparr>db_faults := tl (db_faults s)\<rparr>)
      else case f (db_fs s) of
             Inl e \<Rightarrow> (Inl e, s\<lparr>db_faults := tl (db_faults s)\<rparr>)
           | Inr fs' \<Rightarrow> (Inr (), s\<lparr>db_fs := fs', db_faults := tl (db_faults s)\<rparr>))"

definition osGet :: "(fs \<Rightarrow> (fserr, 'a) result) \<Rightarrow> (fserr, 'a) exec" where
  "osGet f s =
     (if db_faults s \<noteq> [] \<and> hd (db_faults s) then (Inl EIO, s\<lparr>db_faults := tl (db_faults s)\<rparr>)
      else (f (db_fs s), s\<lparr>db_faults := tl (db_faults s)\<rparr>))"

text \<open>\<^verbatim>\<open>os.Remove\<close> with its error dropped.\<close>

definition osRemove :: "string \<Rightarrow> ('e, unit) exec" where
  "osRemove p = ignoreM (osDo (\<lambda>f. fsRemove f (segs p)))"

text \<open>\<^verbatim>\<open>UPDATE o_upload_batches\<close>: returns the affected row count; \<^verbatim>\<open>updated_at\<close> is automatic.\<close>

definition updateBatches :: "(UploadBatch \<Rightarrow> bool) \<Rightarrow> (UploadBatch \<Rightarrow> UploadBatch) \<Rightarrow> nat dbm" where
  "updateBatches P f = stmt (\<lambda>now t.
     (Inr (length (filter P (tb_batches t))),
      t\<lparr>tb_batches := map (\<lambda>b. if P b then (f b)\<lparr>b_UpdatedAt := now\<rparr> else b) (tb_batches t)\<rparr>))"

definition updateItems :: "(UploadBatchItem \<Rightarrow> bool) \<Rightarrow> (UploadBatchItem \<Rightarrow> UploadBatchItem) \<Rightarrow> nat dbm" where
  "updateItems P f = stmt (\<lambda>_ t.
     (Inr (length (filter P (tb_items t))),
      t\<lparr>tb_items := map (\<lambda>i. if P i then f i else i) (tb_items t)\<rparr>))"

definition deleteItems :: "(UploadBatchItem \<Rightarrow> bool) \<Rightarrow> nat dbm" where
  "deleteItems P = stmt (\<lambda>_ t.
     (Inr (length (filter P (tb_items t))), t\<lparr>tb_items := filter (\<lambda>i. \<not> P i) (tb_items t)\<rparr>))"

definition deleteBatches :: "(UploadBatch \<Rightarrow> bool) \<Rightarrow> nat dbm" where
  "deleteBatches P = stmt (\<lambda>_ t.
     (Inr (length (filter P (tb_batches t))), t\<lparr>tb_batches := filter (\<lambda>b. \<not> P b) (tb_batches t)\<rparr>))"

text \<open>Inserts: primary key of the batch, unique index on batch and path of the items.\<close>

definition insertBatch :: "UploadBatch \<Rightarrow> unit dbm" where
  "insertBatch b = stmt (\<lambda>now t.
     if b_ID b \<in> b_ID ` set (tb_batches t) then (Inl UniqueViolation, t)
     else (Inr (), t\<lparr>tb_batches := tb_batches t @
        [b\<lparr>b_CreatedAt := (if b_CreatedAt b = 0 then now else b_CreatedAt b),
           b_UpdatedAt := (if b_UpdatedAt b = 0 then now else b_UpdatedAt b)\<rparr>]\<rparr>))"

definition itemKey :: "UploadBatchItem \<Rightarrow> string \<times> string" where
  "itemKey i = (bi_BatchID i, bi_RelativePath i)"

fun numberItems :: "nat \<Rightarrow> UploadBatchItem list \<Rightarrow> UploadBatchItem list" where
  "numberItems n [] = []"
| "numberItems n (i # is) = i\<lparr>bi_ID := n\<rparr> # numberItems (Suc n) is"

definition insertItems :: "UploadBatchItem list \<Rightarrow> unit dbm" where
  "insertItems is = stmt (\<lambda>_ t.
     if distinct (map itemKey (tb_items t @ is))
     then (Inr (), t\<lparr>tb_items := tb_items t @ numberItems (tb_nextItem t) is,
                     tb_nextItem := tb_nextItem t + length is\<rparr>)
     else (Inl UniqueViolation, t))"

text \<open>Slices of at most \<open>n\<close> elements, for \<^verbatim>\<open>CreateInBatches\<close> and the chunked loop.\<close>

function chunks :: "nat \<Rightarrow> 'a list \<Rightarrow> 'a list list" where
  "chunks n xs = (if n = 0 \<or> xs = [] then [] else take n xs # chunks n (drop n xs))"
  by pat_completeness auto
termination by (relation "measure (\<lambda>(n, xs). length xs)") auto

declare chunks.simps [simp del]

section \<open>BatchStore\<close>

definition BatchStore_Create :: "UploadBatch \<Rightarrow> UploadBatchItem list \<Rightarrow> unit dbm" where
  "BatchStore_Create b items = transaction
     (bindM (query (\<lambda>t. length (filter (\<lambda>r. b_ID r = b_ID b) (tb_batches t)))) (\<lambda>cnt.
      if cnt > 0 then returnM ()
      else bindM (insertBatch b) (\<lambda>_.
           if items = [] then returnM () else forM insertItems (chunks 500 items))))"

definition BatchStore_Get :: "string \<Rightarrow> UploadBatch dbm" where
  "BatchStore_Get i = bindM (query (\<lambda>t. find (\<lambda>b. b_ID b = i) (tb_batches t))) (\<lambda>r.
     case r of None \<Rightarrow> throwM ErrNotFound | Some b \<Rightarrow> returnM b)"

definition MissingItems :: "string \<Rightarrow> UploadBatchItem list dbm" where
  "MissingItems batchID = query (\<lambda>t. sort_key bi_RelativePath
     (filter (\<lambda>i. bi_BatchID i = batchID \<and> \<not> bi_Done i) (tb_items t)))"

definition openStatus :: "string \<Rightarrow> bool" where
  "openStatus s = (s = BatchStatusActive \<or> s = BatchStatusInterrupted)"

definition markHeader :: "string \<Rightarrow> int \<Rightarrow> unit dbm" where
  "markHeader batchID now =
     bindM (updateBatches (\<lambda>b. b_ID b = batchID)
              (\<lambda>b. b\<lparr>b_Done := b_Done b + 1, b_LastProgressAt := now\<rparr>)) (\<lambda>_.
     bindM (updateBatches (\<lambda>b. b_ID b = batchID \<and> b_Done b \<ge> b_Total b \<and> openStatus (b_Status b))
              (\<lambda>b. b\<lparr>b_Status := BatchStatusCompleted\<rparr>)) (\<lambda>_.
     bindM (updateBatches (\<lambda>b. b_ID b = batchID \<and> b_Status b = BatchStatusInterrupted \<and>
                              b_Done b < b_Total b \<and> b_InterruptSource b \<noteq> BatchInterruptSourceSignal)
              (\<lambda>b. b\<lparr>b_Status := BatchStatusActive, b_InterruptSource := []\<rparr>)) (\<lambda>_.
     returnM ())))"

definition MarkItemDone :: "string \<Rightarrow> string \<Rightarrow> int \<Rightarrow> unit dbm" where
  "MarkItemDone batchID relativePath now = transaction
     (bindM (updateItems (\<lambda>i. bi_BatchID i = batchID \<and> bi_RelativePath i = relativePath \<and> \<not> bi_Done i)
               (\<lambda>i. i\<lparr>bi_Done := True\<rparr>)) (\<lambda>rows.
      if rows = 0 then returnM () else markHeader batchID now))"

definition MarkItemDoneAcrossBatches :: "string \<Rightarrow> string \<Rightarrow> int \<Rightarrow> unit dbm" where
  "MarkItemDoneAcrossBatches targetPath relativePath now =
     (let completedAbs = Clean (Join [targetPath, relativePath]) in
      bindM (query (\<lambda>t. filter (\<lambda>b. openStatus (b_Status b)) (tb_batches t))) (\<lambda>candidates.
      forM (\<lambda>b.
        let root = TrimRight (Clean (b_TargetPath b)) slash; pre = root @ ''/'' in
        if \<not> HasPrefix completedAbs pre then returnM ()
        else (let rel = TrimPrefix completedAbs pre in
              if rel = [] then returnM () else MarkItemDone (b_ID b) rel now)) candidates))"

definition TouchProgress :: "string \<Rightarrow> int \<Rightarrow> unit dbm" where
  "TouchProgress batchID now =
     bindM (updateBatches (\<lambda>b. b_ID b = batchID \<and> (b_Status b = BatchStatusActive \<or>
               (b_Status b = BatchStatusInterrupted \<and> b_InterruptSource b \<noteq> BatchInterruptSourceSignal)))
             (\<lambda>b. b\<lparr>b_Status := BatchStatusActive, b_LastProgressAt := now, b_InterruptSource := []\<rparr>))
       (\<lambda>_. returnM ())"

definition BatchStore_SetStatus :: "string \<Rightarrow> string \<Rightarrow> unit dbm" where
  "BatchStore_SetStatus i status =
     bindM (updateBatches (\<lambda>b. b_ID b = i) (\<lambda>b. b\<lparr>b_Status := status\<rparr>)) (\<lambda>_. returnM ())"

definition SetInterrupted :: "string \<Rightarrow> int \<Rightarrow> string \<Rightarrow> unit dbm" where
  "SetInterrupted i now source =
     bindM (updateBatches (\<lambda>b. b_ID b = i \<and> b_Status b = BatchStatusActive)
             (\<lambda>b. b\<lparr>b_Status := BatchStatusInterrupted, b_InterruptedAt := now,
                    b_StagingCleaned := False, b_InterruptSource := source\<rparr>))
       (\<lambda>_. returnM ())"

definition MarkStagingCleaned :: "string \<Rightarrow> unit dbm" where
  "MarkStagingCleaned i =
     bindM (updateBatches (\<lambda>b. b_ID b = i) (\<lambda>b. b\<lparr>b_StagingCleaned := True\<rparr>)) (\<lambda>_. returnM ())"

definition ListByStatus :: "string \<Rightarrow> UploadBatch list dbm" where
  "ListByStatus status = query (\<lambda>t. filter (\<lambda>b. b_Status b = status) (tb_batches t))"

text \<open>The badge map of one directory: child entry name to batch id.\<close>

definition childUnder :: "string \<Rightarrow> UploadBatch \<Rightarrow> UploadBatchItem \<Rightarrow> string option" where
  "childUnder pre b it =
     (let full = Clean (Join [b_TargetPath b, bi_RelativePath it]) in
      if \<not> HasPrefix full pre then None
      else (let rest = TrimPrefix full pre;
                child = (case IndexByte rest slash of Some i \<Rightarrow> take i rest | None \<Rightarrow> rest)
            in if child = [] then None else Some child))"

definition addBadge :: "string \<Rightarrow> UploadBatch \<Rightarrow> UploadBatchItem \<Rightarrow> (string \<rightharpoonup> string) \<Rightarrow> (string \<rightharpoonup> string)" where
  "addBadge pre b it out =
     (case childUnder pre b it of None \<Rightarrow> out
      | Some child \<Rightarrow> (if out child = None then out(child \<mapsto> b_ID b) else out))"

fun badgeLoop :: "string \<Rightarrow> UploadBatch list \<Rightarrow> (string \<rightharpoonup> string) \<Rightarrow> (string \<rightharpoonup> string) dbm" where
  "badgeLoop pre [] out = returnM out"
| "badgeLoop pre (b # bs) out = bindM (MissingItems (b_ID b)) (\<lambda>items.
     badgeLoop pre bs (fold (addBadge pre b) items out))"

definition interruptedOf :: "string \<Rightarrow> UploadBatch list dbm" where
  "interruptedOf owner = query (\<lambda>t. filter (\<lambda>b. b_Status b = BatchStatusInterrupted \<and>
     b_OwnerUserID b = owner) (tb_batches t))"

definition BrokenChildren :: "string \<Rightarrow> string \<Rightarrow> (string \<rightharpoonup> string) dbm" where
  "BrokenChildren dir owner = bindM (interruptedOf owner) (\<lambda>batches.
     if batches = [] then returnM Map.empty
     else (let cleanDir = Clean dir; pre = (if cleanDir = ''/'' then ''/'' else cleanDir @ ''/'')
           in badgeLoop pre batches Map.empty))"

fun abandonLoop :: "string \<Rightarrow> UploadBatch list \<Rightarrow> string list dbm" where
  "abandonLoop clean [] = returnM []"
| "abandonLoop clean (b # bs) = bindM (MissingItems (b_ID b)) (\<lambda>items.
     let hit = list_ex (\<lambda>it. let full = Clean (Join [b_TargetPath b, bi_RelativePath it])
                            in full = clean \<or> HasPrefix full (clean @ ''/'')) items in
     if \<not> hit then abandonLoop clean bs
     else bindM (BatchStore_SetStatus (b_ID b) BatchStatusAbandoned) (\<lambda>_.
          bindM (abandonLoop clean bs) (\<lambda>ids. returnM (b_ID b # ids))))"

definition AbandonInterruptedUnder :: "string \<Rightarrow> string \<Rightarrow> string list dbm" where
  "AbandonInterruptedUnder path owner = bindM (interruptedOf owner) (\<lambda>batches.
     abandonLoop (Clean path) batches)"

definition removeHeader :: "string \<Rightarrow> nat \<Rightarrow> unit dbm" where
  "removeHeader batchID rows =
     bindM (updateBatches (\<lambda>b. b_ID b = batchID) (\<lambda>b. b\<lparr>b_Total := b_Total b - int rows\<rparr>)) (\<lambda>_.
     bindM (updateBatches (\<lambda>b. b_ID b = batchID \<and> b_Done b \<ge> b_Total b \<and> openStatus (b_Status b))
              (\<lambda>b. b\<lparr>b_Status := BatchStatusCompleted\<rparr>)) (\<lambda>_. returnM ()))"

definition removeChunk :: "string \<Rightarrow> string list \<Rightarrow> unit dbm" where
  "removeChunk batchID chunk = transaction
     (bindM (deleteItems (\<lambda>i. bi_BatchID i = batchID \<and> \<not> bi_Done i \<and> bi_RelativePath i \<in> set chunk)) (\<lambda>rows.
      if rows = 0 then returnM () else removeHeader batchID rows))"

definition RemoveItems :: "string \<Rightarrow> string list \<Rightarrow> unit dbm" where
  "RemoveItems batchID relativePaths = forM (removeChunk batchID) (chunks 500 relativePaths)"

definition terminalStatus :: "string \<Rightarrow> bool" where
  "terminalStatus s = (s = BatchStatusCompleted \<or> s = BatchStatusAbandoned)"

definition deleteOne :: "string \<Rightarrow> unit dbm" where
  "deleteOne i = transaction
     (bindM (deleteItems (\<lambda>it. bi_BatchID it = i)) (\<lambda>_.
      bindM (deleteBatches (\<lambda>b. b_ID b = i)) (\<lambda>_. returnM ())))"

definition DeleteTerminal :: "nat dbm" where
  "DeleteTerminal =
     bindM (query (\<lambda>t. map b_ID (filter (\<lambda>b. terminalStatus (b_Status b)) (tb_batches t)))) (\<lambda>ids.
     bindM (forM deleteOne ids) (\<lambda>_. returnM (length ids)))"

section \<open>TaskStore\<close>

definition updateTasks :: "(UploadTask \<Rightarrow> bool) \<Rightarrow> (UploadTask \<Rightarrow> UploadTask) \<Rightarrow> unit dbm" where
  "updateTasks P f = stmt (\<lambda>_ t.
     (Inr (), t\<lparr>tb_tasks := map (\<lambda>x. if P x then f x else x) (tb_tasks t)\<rparr>))"

definition TaskStore_Create :: "UploadTask \<Rightarrow> unit dbm" where
  "TaskStore_Create x = stmt (\<lambda>now t.
     if t_ID x \<in> t_ID ` set (tb_tasks t) then (Inl UniqueViolation, t)
     else (Inr (), t\<lparr>tb_tasks := tb_tasks t @
        [x\<lparr>t_CreatedAt := (if t_CreatedAt x = 0 then now else t_CreatedAt x)\<rparr>]\<rparr>))"

definition TaskStore_Get :: "string \<Rightarrow> UploadTask dbm" where
  "TaskStore_Get i = bindM (query (\<lambda>t. find (\<lambda>x. t_ID x = i) (tb_tasks t))) (\<lambda>r.
     case r of None \<Rightarrow> throwM ErrNotFound | Some x \<Rightarrow> returnM x)"

definition unfinished :: "UploadStatuses \<Rightarrow> UploadTask \<Rightarrow> bool" where
  "unfinished us x = (t_Status x \<in> {us_Uploading us, us_Paused us, us_Failed us})"

definition ListActiveByOwner :: "UploadStatuses \<Rightarrow> string \<Rightarrow> UploadTask list dbm" where
  "ListActiveByOwner us owner = query (\<lambda>t. sort_key (\<lambda>x. - t_CreatedAt x)
     (filter (\<lambda>x. t_OwnerUserID x = owner \<and> unfinished us x) (tb_tasks t)))"

definition ListDueForGC :: "int \<Rightarrow> UploadTask list dbm" where
  "ListDueForGC now = query (\<lambda>t. filter (\<lambda>x. 0 < t_ExpiresAt x \<and> t_ExpiresAt x \<le> now) (tb_tasks t))"

definition UpdateOffset :: "string \<Rightarrow> int \<Rightarrow> int \<Rightarrow> unit dbm" where
  "UpdateOffset i offset expiresAt =
     updateTasks (\<lambda>x. t_ID x = i) (\<lambda>x. x\<lparr>t_UploadedOffset := offset, t_ExpiresAt := expiresAt\<rparr>)"

definition TaskStore_SetStatus :: "string \<Rightarrow> string \<Rightarrow> int \<Rightarrow> unit dbm" where
  "TaskStore_SetStatus i status expiresAt =
     updateTasks (\<lambda>x. t_ID x = i) (\<lambda>x. x\<lparr>t_Status := status, t_ExpiresAt := expiresAt\<rparr>)"

definition SetFailed :: "UploadStatuses \<Rightarrow> string \<Rightarrow> string \<Rightarrow> int \<Rightarrow> int \<Rightarrow> unit dbm" where
  "SetFailed us i errMsg lastErrorAt expiresAt =
     updateTasks (\<lambda>x. t_ID x = i) (\<lambda>x. x\<lparr>t_Status := us_Failed us, t_Error := errMsg,
       t_LastErrorAt := lastErrorAt, t_ExpiresAt := expiresAt\<rparr>)"

definition TaskStore_Delete :: "string \<Rightarrow> unit dbm" where
  "TaskStore_Delete i = stmt (\<lambda>_ t. (Inr (), t\<lparr>tb_tasks := filter (\<lambda>x. t_ID x \<noteq> i) (tb_tasks t)\<rparr>))"

definition ListUnfinishedByBatch :: "UploadStatuses \<Rightarrow> string \<Rightarrow> UploadTask list dbm" where
  "ListUnfinishedByBatch us batchID = query (\<lambda>t.
     filter (\<lambda>x. t_BatchID x = batchID \<and> unfinished us x) (tb_tasks t))"

end
