(* ===== verification/UploadInv.thy ===== *)
theory UploadInv
  imports UploadStore
begin

text \<open>
  Reasoning about the upload store: the effect of statements, transactions and loops on the
  tables, a locale for relations between table states that every operation respects, the
  invariant of batches and manifest, and the life cycle of a batch row.
\<close>

section \<open>Statements and transactions\<close>

lemma stmt_Inr:
  "stmt f s = (Inr x, s') \<Longrightarrow> f (db_now s) (db_tab s) = (Inr x, db_tab s') \<and> db_now s' = db_now s"
  by (auto simp: stmt_def split: if_splits prod.splits)

lemma stmt_now: "stmt f s = (r, s') \<Longrightarrow> db_now s' = db_now s"
  by (auto simp: stmt_def split: if_splits prod.splits)

lemma bindM_Inr:
  assumes "bindM m f s = (Inr y, s')"
  obtains x s1 where "m s = (Inr x, s1)" and "f x s1 = (Inr y, s')"
  using assms by (auto simp: bindM_def split: prod.splits sum.splits)

lemma returnM_Inr [simp]: "returnM x s = (r, s') \<longleftrightarrow> r = Inr x \<and> s' = s"
  by (auto simp: returnM_def)

lemma transaction_Inl: "transaction body s = (Inl e, s') \<Longrightarrow> db_tab s' = db_tab s"
  by (auto simp: transaction_def split: prod.splits sum.splits)

lemma transaction_Inr:
  assumes "transaction body s = (Inr x, s')"
  obtains s1 s2 where "body s1 = (Inr x, s2)" and "db_tab s1 = db_tab s" and "db_now s1 = db_now s"
    and "db_tab s2 = db_tab s'"
proof -
  from assms have "bindM (stmt (\<lambda>_ t. (Inr (), t)))
      (\<lambda>_. bindM body (\<lambda>x. bindM (stmt (\<lambda>_ t. (Inr (), t))) (\<lambda>_. returnM x))) s = (Inr x, s')"
    by (auto simp: transaction_def split: prod.splits sum.splits)
  then obtain s1 s2 s3 where
      1: "stmt (\<lambda>_ t. (Inr (), t)) s = (Inr (), s1)" and 2: "body s1 = (Inr x, s2)" and
      3: "stmt (\<lambda>_ t. (Inr (), t)) s2 = (Inr (), s3)" "s' = s3"
    by (auto elim!: bindM_Inr)
  show thesis
    using that [OF 2] stmt_Inr [OF 1] stmt_Inr [OF 3(1)] 3(2) by simp
qed

lemma query_Inr: "query f s = (Inr x, s') \<Longrightarrow> x = f (db_tab s) \<and> db_tab s' = db_tab s"
  by (auto simp: query_def dest!: stmt_Inr)

lemma query_tab [simp]: "db_tab (snd (query f s)) = db_tab s"
  by (auto simp: query_def stmt_def split: if_splits)

lemma updateBatches_Inr:
  "updateBatches P f s = (Inr n, s') \<Longrightarrow>
   db_tab s' = (db_tab s)\<lparr>tb_batches := map (\<lambda>b. if P b then (f b)\<lparr>b_UpdatedAt := db_now s\<rparr> else b)
      (tb_batches (db_tab s))\<rparr> \<and> db_now s' = db_now s"
  by (auto simp: updateBatches_def dest!: stmt_Inr)

lemma updateItems_Inr:
  "updateItems P f s = (Inr n, s') \<Longrightarrow> n = length (filter P (tb_items (db_tab s))) \<and>
   db_tab s' = (db_tab s)\<lparr>tb_items := map (\<lambda>i. if P i then f i else i) (tb_items (db_tab s))\<rparr> \<and>
   db_now s' = db_now s"
  by (auto simp: updateItems_def dest!: stmt_Inr)

lemma deleteItems_Inr:
  "deleteItems P s = (Inr n, s') \<Longrightarrow> n = length (filter P (tb_items (db_tab s))) \<and>
   db_tab s' = (db_tab s)\<lparr>tb_items := filter (\<lambda>i. \<not> P i) (tb_items (db_tab s))\<rparr> \<and> db_now s' = db_now s"
  by (auto simp: deleteItems_def dest!: stmt_Inr)

lemma deleteBatches_Inr:
  "deleteBatches P s = (Inr n, s') \<Longrightarrow>
   db_tab s' = (db_tab s)\<lparr>tb_batches := filter (\<lambda>b. \<not> P b) (tb_batches (db_tab s))\<rparr>"
  by (auto simp: deleteBatches_def dest!: stmt_Inr)

section \<open>Relations that operations respect\<close>

text \<open>
  A reflexive and transitive relation between states is respected by an operation when it links
  the states before and after every run, successful or not. Sequencing and loops inherit it.
\<close>

locale exec_relation =
  fixes S :: "db \<Rightarrow> db \<Rightarrow> bool"
  assumes S_refl: "S s s" and S_trans: "S s t \<Longrightarrow> S t u \<Longrightarrow> S s u"
begin

definition keeps :: "('e, 'a) exec \<Rightarrow> bool" where
  "keeps m \<longleftrightarrow> (\<forall>s. S s (snd (m s)))"

lemma keepsI: "(\<And>s r s'. m s = (r, s') \<Longrightarrow> S s s') \<Longrightarrow> keeps m"
  unfolding keeps_def by (metis prod.collapse)

lemma keepsD: "keeps m \<Longrightarrow> m s = (r, s') \<Longrightarrow> S s s'"
  unfolding keeps_def by (metis snd_conv)

lemma keeps_return: "keeps (returnM x)"
  by (simp add: keeps_def returnM_def S_refl)

lemma keeps_throw: "keeps (throwM e)"
  by (simp add: keeps_def throwM_def S_refl)

lemma keeps_bind:
  assumes "keeps m" and "\<And>x. keeps (f x)"
  shows "keeps (bindM m f)"
proof (rule keepsI)
  fix s r s'
  assume run: "bindM m f s = (r, s')"
  obtain r1 s1 where m: "m s = (r1, s1)" by force
  have 1: "S s s1" using keepsD [OF assms(1) m] .
  show "S s s'"
  proof (cases r1)
    case (Inl e)
    with run m 1 show ?thesis by (simp add: bindM_def)
  next
    case (Inr x)
    with run m have "f x s1 = (r, s')" by (simp add: bindM_def)
    then show ?thesis using keepsD [OF assms(2)] S_trans [OF 1] by blast
  qed
qed

lemma keeps_forM: "(\<And>x. x \<in> set xs \<Longrightarrow> keeps (f x)) \<Longrightarrow> keeps (forM f xs)"
  by (induction xs) (simp_all add: keeps_return keeps_bind)

lemma keeps_ignore: "keeps m \<Longrightarrow> keeps (ignoreM m)"
  by (simp add: keeps_def ignoreM_def)

lemma keeps_try: "keeps m \<Longrightarrow> keeps (tryM m)"
  by (auto simp: keeps_def tryM_def split: prod.splits) (metis snd_conv)

text \<open>An operation that starts by reading the state.\<close>

lemma keeps_read: "(\<And>s. keeps (m s)) \<Longrightarrow> keeps (\<lambda>s. m s s)"
  by (simp add: keeps_def)

lemma keeps_if: "keeps m \<Longrightarrow> keeps n \<Longrightarrow> keeps (if c then m else n)"
  by simp

end

text \<open>Relations between table states; a transaction needs its successful runs only.\<close>

locale table_relation =
  fixes R :: "tables \<Rightarrow> tables \<Rightarrow> bool"
  assumes R_refl: "R t t" and R_trans: "R t u \<Longrightarrow> R u v \<Longrightarrow> R t v"

sublocale table_relation \<subseteq> exec_relation "\<lambda>s s'. R (db_tab s) (db_tab s')"
  by unfold_locales (auto intro: R_refl R_trans)

context table_relation
begin

lemma keeps_query: "keeps (query f)"
  by (simp add: keeps_def R_refl)

lemma keeps_transaction:
  assumes "\<And>s x s'. body s = (Inr x, s') \<Longrightarrow> R (db_tab s) (db_tab s')"
  shows "keeps (transaction body)"
proof (rule keepsI)
  fix s r s'
  assume run: "transaction body s = (r, s')"
  show "R (db_tab s) (db_tab s')"
  proof (cases r)
    case (Inl e)
    then show ?thesis using run transaction_Inl R_refl by metis
  next
    case (Inr x)
    with run obtain s1 s2 where "body s1 = (Inr x, s2)" "db_tab s1 = db_tab s" "db_tab s2 = db_tab s'"
      by (auto elim: transaction_Inr)
    then show ?thesis using assms by metis
  qed
qed

lemma keeps_stmt:
  assumes "\<And>now t r t'. f now t = (r, t') \<Longrightarrow> R t t'"
  shows "keeps (stmt f)"
proof (rule keepsI)
  fix s r s'
  assume "stmt f s = (r, s')"
  then show "R (db_tab s) (db_tab s')"
    using assms R_refl by (auto simp: stmt_def split: if_splits prod.splits)
qed

text \<open>An operation that is exact on success and changes nothing on failure.\<close>

lemma keeps_atomic:
  assumes "\<And>s x s'. m s = (Inr x, s') \<Longrightarrow> R (db_tab s) (db_tab s')"
    and "\<And>s e s'. m s = (Inl e, s') \<Longrightarrow> db_tab s' = db_tab s"
  shows "keeps m"
proof (rule keepsI)
  fix s r s'
  assume "m s = (r, s')"
  then show "R (db_tab s) (db_tab s')"
    using assms(1) assms(2) [of s _ s'] R_refl by (cases r) auto
qed

lemmas keeps_intros = keeps_return keeps_throw keeps_query keeps_bind keeps_forM keeps_ignore

end

section \<open>Life cycle of a batch row\<close>

text \<open>
  How a row may change over any number of operations: identity, owner, target and creation
  time stay; the done count grows, the total shrinks; a terminal status stays terminal; an interrupt
  by the window-close signal is never undone, only completed or abandoned.
\<close>

definition evolves :: "UploadBatch \<Rightarrow> UploadBatch \<Rightarrow> bool" where
  "evolves b b' \<longleftrightarrow>
     b_ID b' = b_ID b \<and> b_OwnerUserID b' = b_OwnerUserID b \<and> b_TargetPath b' = b_TargetPath b \<and>
     b_CreatedAt b' = b_CreatedAt b \<and> b_Done b \<le> b_Done b' \<and> b_Total b' \<le> b_Total b \<and>
     (terminalStatus (b_Status b) \<longrightarrow> terminalStatus (b_Status b')) \<and>
     (b_Status b = BatchStatusInterrupted \<and> b_InterruptSource b = BatchInterruptSourceSignal \<longrightarrow>
        (b_Status b' = BatchStatusInterrupted \<and> b_InterruptSource b' = BatchInterruptSourceSignal) \<or>
        terminalStatus (b_Status b'))"

lemma evolves_refl: "evolves b b"
  by (simp add: evolves_def)

lemma evolves_trans: "evolves a b \<Longrightarrow> evolves b c \<Longrightarrow> evolves a c"
  unfolding evolves_def by (elim conjE, intro conjI) auto

text \<open>Every row of the later state stems from a row of the earlier one.\<close>

definition history :: "tables \<Rightarrow> tables \<Rightarrow> bool" where
  "history t t' \<longleftrightarrow> (\<forall>b' \<in> set (tb_batches t'). \<exists>b \<in> set (tb_batches t). evolves b b')"

interpretation hist: table_relation history
proof
  show "history t t" for t unfolding history_def using evolves_refl by blast
  show "history t u \<Longrightarrow> history u v \<Longrightarrow> history t v" for t u v
    unfolding history_def using evolves_trans by meson
qed

lemma hist_updateBatches:
  assumes "\<And>b n. P b \<Longrightarrow> evolves b ((f b)\<lparr>b_UpdatedAt := n\<rparr>)"
  shows "hist.keeps (updateBatches P f)"
  unfolding updateBatches_def
  by (rule hist.keeps_stmt) (auto simp: history_def intro: assms evolves_refl bexI)

lemma hist_items:
  "hist.keeps (updateItems P g)" "hist.keeps (deleteItems P)" "hist.keeps (insertItems is)"
  unfolding updateItems_def deleteItems_def insertItems_def
  by (rule hist.keeps_stmt; auto simp: history_def intro: evolves_refl split: if_splits)+

lemma hist_deleteBatches: "hist.keeps (deleteBatches P)"
  unfolding deleteBatches_def
  by (rule hist.keeps_stmt) (auto simp: history_def intro: evolves_refl)

lemma hist_transaction: "hist.keeps m \<Longrightarrow> hist.keeps (transaction m)"
  by (rule hist.keeps_transaction) (blast dest: hist.keepsD)

lemma hist_Abandon: "hist.keeps (BatchStore_SetStatus i BatchStatusAbandoned)"
  unfolding BatchStore_SetStatus_def
  by (intro hist.keeps_intros hist_updateBatches) (auto simp: evolves_def terminalStatus_def)

lemma hist_MarkItemDone: "hist.keeps (MarkItemDone i rel now)"
  unfolding MarkItemDone_def markHeader_def
  by (intro hist_transaction hist.keeps_bind hist_items)
    (auto intro!: hist.keeps_intros hist_updateBatches simp: evolves_def terminalStatus_def openStatus_def)

lemma hist_MarkItemDoneAcrossBatches: "hist.keeps (MarkItemDoneAcrossBatches tp rel now)"
  unfolding MarkItemDoneAcrossBatches_def Let_def
  by (intro hist.keeps_intros) (auto intro: hist.keeps_return hist_MarkItemDone)

lemma hist_TouchProgress: "hist.keeps (TouchProgress i now)"
  unfolding TouchProgress_def
  by (intro hist.keeps_intros hist_updateBatches) (auto simp: evolves_def terminalStatus_def)

lemma hist_SetInterrupted: "hist.keeps (SetInterrupted i now src)"
  unfolding SetInterrupted_def
  by (intro hist.keeps_intros hist_updateBatches) (auto simp: evolves_def terminalStatus_def)

lemma hist_MarkStagingCleaned: "hist.keeps (MarkStagingCleaned i)"
  unfolding MarkStagingCleaned_def
  by (intro hist.keeps_intros hist_updateBatches) (auto simp: evolves_def)

lemma hist_RemoveItems: "hist.keeps (RemoveItems i ps)"
proof -
  have "hist.keeps (removeChunk i c)" for c
    unfolding removeChunk_def removeHeader_def
    by (intro hist_transaction hist.keeps_bind hist_items)
      (auto intro!: hist.keeps_intros hist_updateBatches simp: evolves_def terminalStatus_def openStatus_def)
  then show ?thesis unfolding RemoveItems_def by (intro hist.keeps_intros)
qed

lemma hist_DeleteTerminal: "hist.keeps DeleteTerminal"
proof -
  have "hist.keeps (deleteOne i)" for i
    unfolding deleteOne_def
    by (intro hist_transaction hist.keeps_bind hist_items hist_deleteBatches hist.keeps_return)
  then show ?thesis unfolding DeleteTerminal_def by (intro hist.keeps_intros)
qed

section \<open>The manifest invariant\<close>

definition itemsOf :: "tables \<Rightarrow> string \<Rightarrow> UploadBatchItem list" where
  "itemsOf t i = filter (\<lambda>it. bi_BatchID it = i) (tb_items t)"

definition doneOf :: "tables \<Rightarrow> string \<Rightarrow> UploadBatchItem list" where
  "doneOf t i = filter (\<lambda>it. bi_BatchID it = i \<and> bi_Done it) (tb_items t)"

text \<open>
  The header row of a batch agrees with its manifest: the counters are the numbers of items
  and of done items, an open batch still misses an item, a completed one misses none.
\<close>

definition batchOK :: "tables \<Rightarrow> UploadBatch \<Rightarrow> bool" where
  "batchOK t b \<longleftrightarrow>
     b_Total b = int (length (itemsOf t (b_ID b))) \<and> b_Done b = int (length (doneOf t (b_ID b))) \<and>
     rooted (b_TargetPath b) \<and> Clean (b_TargetPath b) = b_TargetPath b \<and>
     (openStatus (b_Status b) \<or> terminalStatus (b_Status b)) \<and>
     (openStatus (b_Status b) \<longrightarrow> b_Done b < b_Total b) \<and>
     (b_Status b = BatchStatusCompleted \<longrightarrow> b_Done b = b_Total b) \<and>
     (b_Status b = BatchStatusInterrupted \<longrightarrow>
        b_InterruptSource b \<in> {BatchInterruptSourceSignal, BatchInterruptSourceTimeout})"

definition itemOK :: "UploadBatchItem \<Rightarrow> bool" where
  "itemOK it \<longleftrightarrow> bi_RelativePath it \<noteq> [] \<and> \<not> Contains (bi_RelativePath it) ''..'' \<and>
     \<not> HasPrefix (bi_RelativePath it) ''/''"

definition batchInv :: "tables \<Rightarrow> bool" where
  "batchInv t \<longleftrightarrow>
     distinct (map b_ID (tb_batches t)) \<and> distinct (map itemKey (tb_items t)) \<and>
     (\<forall>it \<in> set (tb_items t). bi_BatchID it \<in> b_ID ` set (tb_batches t)) \<and>
     (\<forall>it \<in> set (tb_items t). itemOK it) \<and> (\<forall>b \<in> set (tb_batches t). batchOK t b)"

lemma done_le_total: "length (doneOf t i) \<le> length (itemsOf t i)"
proof -
  have "doneOf t i = filter bi_Done (itemsOf t i)" by (simp add: doneOf_def itemsOf_def conj_commute)
  then show ?thesis by simp
qed

text \<open>Preservation as a relation, to use the combinators of the locale.\<close>

definition invStep :: "tables \<Rightarrow> tables \<Rightarrow> bool" where
  "invStep t t' \<longleftrightarrow> (batchInv t \<longrightarrow> batchInv t')"

interpretation binv: table_relation invStep
  by unfold_locales (auto simp: invStep_def)

text \<open>Rewriting header rows without touching identity or manifest.\<close>

definition mapBatches :: "(UploadBatch \<Rightarrow> UploadBatch) \<Rightarrow> tables \<Rightarrow> tables" where
  "mapBatches g t = t\<lparr>tb_batches := map g (tb_batches t)\<rparr>"

lemma mapBatches_sel [simp]:
  "tb_batches (mapBatches g t) = map g (tb_batches t)" "tb_items (mapBatches g t) = tb_items t"
  "tb_tasks (mapBatches g t) = tb_tasks t"
  "itemsOf (mapBatches g t) = itemsOf t" "doneOf (mapBatches g t) = doneOf t"
  by (auto simp: mapBatches_def itemsOf_def doneOf_def)

lemma batchOK_mapBatches [simp]: "batchOK (mapBatches g t) b = batchOK t b"
  by (simp add: batchOK_def)

lemma mapBatches_comp: "mapBatches g (mapBatches h t) = mapBatches (g \<circ> h) t"
  by (simp add: mapBatches_def)

lemma batchInv_mapBatches:
  assumes "batchInv t" and "\<And>b. b \<in> set (tb_batches t) \<Longrightarrow> b_ID (g b) = b_ID b \<and> batchOK t (g b)"
  shows "batchInv (mapBatches g t)"
proof -
  have ids: "map b_ID (map g (tb_batches t)) = map b_ID (tb_batches t)" using assms(2) by simp
  then have "b_ID ` g ` set (tb_batches t) = b_ID ` set (tb_batches t)"
    by (metis image_set)
  then show ?thesis
    using assms ids unfolding batchInv_def by (auto simp del: map_map)
qed

lemma binv_updateBatches:
  assumes "\<And>b n t. P b \<Longrightarrow> batchOK t b \<Longrightarrow> b_ID (f b) = b_ID b \<and> batchOK t ((f b)\<lparr>b_UpdatedAt := n\<rparr>)"
  shows "binv.keeps (updateBatches P f)"
  unfolding updateBatches_def
proof (rule binv.keeps_stmt, unfold invStep_def, intro impI)
  fix now t r t'
  assume r: "(Inr (length (filter P (tb_batches t))),
      t\<lparr>tb_batches := map (\<lambda>b. if P b then (f b)\<lparr>b_UpdatedAt := now\<rparr> else b) (tb_batches t)\<rparr>) = (r, t')"
    and inv: "batchInv t"
  have "batchInv (mapBatches (\<lambda>b. if P b then (f b)\<lparr>b_UpdatedAt := now\<rparr> else b) t)"
    using inv assms by (intro batchInv_mapBatches) (auto simp: batchInv_def)
  then show "batchInv t'" using r by (simp add: mapBatches_def)
qed

lemma batchOK_updated [simp]: "batchOK t (b\<lparr>b_UpdatedAt := n\<rparr>) = batchOK t b"
  by (simp add: batchOK_def)

lemmas batch_simps = batchOK_def openStatus_def terminalStatus_def

lemma binv_TouchProgress: "binv.keeps (TouchProgress i now)"
  unfolding TouchProgress_def
  by (intro binv.keeps_intros binv_updateBatches) (auto simp: batch_simps)

lemma binv_SetInterrupted:
  "src \<in> {BatchInterruptSourceSignal, BatchInterruptSourceTimeout} \<Longrightarrow> binv.keeps (SetInterrupted i now src)"
  unfolding SetInterrupted_def
  by (intro binv.keeps_intros binv_updateBatches) (auto simp: batch_simps)

lemma binv_MarkStagingCleaned: "binv.keeps (MarkStagingCleaned i)"
  unfolding MarkStagingCleaned_def
  by (intro binv.keeps_intros binv_updateBatches) (auto simp: batch_simps)

lemma binv_Abandon: "binv.keeps (BatchStore_SetStatus i BatchStatusAbandoned)"
  unfolding BatchStore_SetStatus_def
  by (intro binv.keeps_intros binv_updateBatches) (auto simp: batch_simps)

text \<open>Counting lemmas for the manifest.\<close>

lemma length_filter_mark:
  assumes "\<And>x. x \<in> set xs \<Longrightarrow> P x \<Longrightarrow> \<not> Q x \<and> Q (f x)"
  shows "length (filter Q (map (\<lambda>x. if P x then f x else x) xs)) = length (filter Q xs) + length (filter P xs)"
  using assms by (induction xs) auto

lemma length_filter_map_same:
  assumes "\<And>x. x \<in> set xs \<Longrightarrow> P x \<Longrightarrow> Q (f x) = Q x"
  shows "length (filter Q (map (\<lambda>x. if P x then f x else x) xs)) = length (filter Q xs)"
  using assms by (induction xs) auto

lemma length_filter_remove:
  assumes "\<And>x. x \<in> set xs \<Longrightarrow> P x \<Longrightarrow> Q x"
  shows "length (filter Q (filter (\<lambda>x. \<not> P x) xs)) + length (filter P xs) = length (filter Q xs)"
  using assms by (induction xs) auto

lemma distinct_key_filter:
  assumes "distinct (map k xs)" and "\<And>x. x \<in> set xs \<Longrightarrow> P x \<Longrightarrow> k x = c"
  shows "length (filter P xs) \<le> 1"
  using assms
proof (induction xs)
  case (Cons x xs)
  show ?case
  proof (cases "P x")
    case True
    then have "k x = c" using Cons.prems(2) by simp
    then have "filter P xs = []"
      using Cons.prems by (auto simp: filter_empty_conv) (metis image_eqI)
    then show ?thesis by simp
  qed (use Cons in auto)
qed simp

section \<open>Marking, removing, creating and deleting\<close>

text \<open>What a successful \<^verbatim>\<open>MarkItemDone\<close> that finds its item does to the header row.\<close>

definition advance :: "int \<Rightarrow> int \<Rightarrow> UploadBatch \<Rightarrow> UploadBatch" where
  "advance now clk b =
     (let b1 = b\<lparr>b_Done := b_Done b + 1, b_LastProgressAt := now, b_UpdatedAt := clk\<rparr> in
      if b_Done b1 \<ge> b_Total b1 \<and> openStatus (b_Status b1) then b1\<lparr>b_Status := BatchStatusCompleted\<rparr>
      else if b_Status b1 = BatchStatusInterrupted \<and> b_Done b1 < b_Total b1 \<and>
              b_InterruptSource b1 \<noteq> BatchInterruptSourceSignal
           then b1\<lparr>b_Status := BatchStatusActive, b_InterruptSource := []\<rparr>
      else b1)"

definition isMissing :: "string \<Rightarrow> string \<Rightarrow> UploadBatchItem \<Rightarrow> bool" where
  "isMissing i rel it \<longleftrightarrow> bi_BatchID it = i \<and> bi_RelativePath it = rel \<and> \<not> bi_Done it"

definition mapItems :: "(UploadBatchItem \<Rightarrow> UploadBatchItem) \<Rightarrow> tables \<Rightarrow> tables" where
  "mapItems g t = t\<lparr>tb_items := map g (tb_items t)\<rparr>"

definition setDone :: "string \<Rightarrow> string \<Rightarrow> UploadBatchItem \<Rightarrow> UploadBatchItem" where
  "setDone i rel it = (if isMissing i rel it then it\<lparr>bi_Done := True\<rparr> else it)"

definition onBatch :: "string \<Rightarrow> (UploadBatch \<Rightarrow> UploadBatch) \<Rightarrow> UploadBatch \<Rightarrow> UploadBatch" where
  "onBatch i f b = (if b_ID b = i then f b else b)"

definition marked :: "string \<Rightarrow> string \<Rightarrow> int \<Rightarrow> int \<Rightarrow> tables \<Rightarrow> tables" where
  "marked i rel now clk t =
     (if filter (isMissing i rel) (tb_items t) = [] then t
      else mapBatches (onBatch i (advance now clk)) (mapItems (setDone i rel) t))"

lemma updateBatches_map:
  "updateBatches P f s = (Inr n, s') \<Longrightarrow>
   db_tab s' = mapBatches (\<lambda>b. if P b then (f b)\<lparr>b_UpdatedAt := db_now s\<rparr> else b) (db_tab s) \<and>
   db_now s' = db_now s"
  by (simp add: mapBatches_def updateBatches_Inr)

lemma mapBatches_cong: "(\<And>b. b \<in> set (tb_batches t) \<Longrightarrow> g b = h b) \<Longrightarrow> mapBatches g t = mapBatches h t"
  by (simp add: mapBatches_def)

lemma markHeader_Inr:
  assumes "markHeader i now s = (Inr (), s')"
  shows "db_tab s' = mapBatches (onBatch i (advance now (db_now s))) (db_tab s)"
proof -
  from assms obtain n1 s1 n2 s2 n3 s3 where
    "updateBatches (\<lambda>b. b_ID b = i) (\<lambda>b. b\<lparr>b_Done := b_Done b + 1, b_LastProgressAt := now\<rparr>) s = (Inr n1, s1)"
    "updateBatches (\<lambda>b. b_ID b = i \<and> b_Done b \<ge> b_Total b \<and> openStatus (b_Status b))
       (\<lambda>b. b\<lparr>b_Status := BatchStatusCompleted\<rparr>) s1 = (Inr n2, s2)"
    "updateBatches (\<lambda>b. b_ID b = i \<and> b_Status b = BatchStatusInterrupted \<and> b_Done b < b_Total b \<and>
         b_InterruptSource b \<noteq> BatchInterruptSourceSignal)
       (\<lambda>b. b\<lparr>b_Status := BatchStatusActive, b_InterruptSource := []\<rparr>) s2 = (Inr n3, s3)"
    "s' = s3"
    unfolding markHeader_def by (auto elim!: bindM_Inr)
  then show ?thesis
    by (auto dest!: updateBatches_map simp: mapBatches_comp onBatch_def advance_def Let_def
        intro!: mapBatches_cong)
qed

lemma updateItems_map:
  "updateItems (isMissing i rel) (\<lambda>it. it\<lparr>bi_Done := True\<rparr>) s = (Inr n, s') \<Longrightarrow>
   n = length (filter (isMissing i rel) (tb_items (db_tab s))) \<and>
   db_tab s' = mapItems (setDone i rel) (db_tab s) \<and> db_now s' = db_now s"
  by (simp add: mapItems_def setDone_def [abs_def] updateItems_Inr)

lemma mapItems_none:
  "filter (isMissing i rel) (tb_items t) = [] \<Longrightarrow> mapItems (setDone i rel) t = t"
  by (simp add: mapItems_def setDone_def filter_empty_conv map_idI)

lemma MarkItemDone_Inr:
  assumes "MarkItemDone i rel now s = (Inr (), s')"
  shows "db_tab s' = marked i rel now (db_now s) (db_tab s)"
proof -
  from assms obtain s1 s2 where s: "db_tab s1 = db_tab s" "db_now s1 = db_now s" "db_tab s2 = db_tab s'"
    and body: "bindM (updateItems (isMissing i rel) (\<lambda>it. it\<lparr>bi_Done := True\<rparr>))
      (\<lambda>rows. if rows = 0 then returnM () else markHeader i now) s1 = (Inr (), s2)"
    unfolding MarkItemDone_def isMissing_def [abs_def] by (rule transaction_Inr)
  from body obtain n s3 where
    items: "updateItems (isMissing i rel) (\<lambda>it. it\<lparr>bi_Done := True\<rparr>) s1 = (Inr n, s3)"
    and rest: "(if n = 0 then returnM () else markHeader i now) s3 = (Inr (), s2)"
    by (rule bindM_Inr)
  show ?thesis
    using updateItems_map [OF items] rest s
    by (auto simp: marked_def mapItems_none dest!: markHeader_Inr split: if_splits)
qed

lemma MarkItemDone_Inl: "MarkItemDone i rel now s = (Inl e, s') \<Longrightarrow> db_tab s' = db_tab s"
  unfolding MarkItemDone_def by (rule transaction_Inl)

lemma tb_items_setDone:
  "tb_items (mapItems (setDone i rel) t) =
   map (\<lambda>it. if isMissing i rel it then it\<lparr>bi_Done := True\<rparr> else it) (tb_items t)"
  by (simp add: mapItems_def setDone_def [abs_def])

lemma itemsOf_setDone: "length (itemsOf (mapItems (setDone i rel) t) j) = length (itemsOf t j)"
  unfolding itemsOf_def tb_items_setDone by (rule length_filter_map_same) auto

lemma doneOf_setDone:
  "length (doneOf (mapItems (setDone i rel) t) j) =
   length (doneOf t j) + (if j = i then length (filter (isMissing i rel) (tb_items t)) else 0)"
proof (cases "j = i")
  case True
  then show ?thesis unfolding doneOf_def tb_items_setDone
    by (simp only: if_True refl, intro length_filter_mark) (auto simp: isMissing_def)
next
  case False
  then show ?thesis unfolding doneOf_def tb_items_setDone
    by (simp only: if_False add_0_right, intro length_filter_map_same) (auto simp: isMissing_def)
qed

lemma batchOK_cong:
  "length (itemsOf t' (b_ID b)) = length (itemsOf t (b_ID b)) \<Longrightarrow>
   length (doneOf t' (b_ID b)) = length (doneOf t (b_ID b)) \<Longrightarrow> batchOK t' b = batchOK t b"
  by (simp add: batchOK_def)

lemma missing_one:
  assumes "batchInv t" and "filter (isMissing i rel) (tb_items t) \<noteq> []"
  shows "length (filter (isMissing i rel) (tb_items t)) = 1"
proof -
  have "length (filter (isMissing i rel) (tb_items t)) \<le> 1"
    using assms(1) by (intro distinct_key_filter [where k = itemKey and c = "(i, rel)"])
      (auto simp: batchInv_def isMissing_def itemKey_def)
  moreover have "length (filter (isMissing i rel) (tb_items t)) \<noteq> 0" using assms(2) by simp
  ultimately show ?thesis by linarith
qed

lemma missing_less:
  assumes "it \<in> set (tb_items t)" and "bi_BatchID it = i" and "\<not> bi_Done it"
  shows "length (doneOf t i) < length (itemsOf t i)"
proof -
  have "doneOf t i = filter bi_Done (itemsOf t i)" by (simp add: doneOf_def itemsOf_def conj_commute)
  moreover have "it \<in> set (itemsOf t i)" using assms by (simp add: itemsOf_def)
  ultimately show ?thesis using assms(3) by (metis length_filter_less)
qed

lemma batchOK_advance:
  assumes "batchOK t b" and "b_Done b < b_Total b"
    and "length (itemsOf t' (b_ID b)) = length (itemsOf t (b_ID b))"
    and "length (doneOf t' (b_ID b)) = Suc (length (doneOf t (b_ID b)))"
  shows "batchOK t' (advance now clk b)"
  using assms by (auto simp: batch_simps advance_def Let_def)

lemma batchInv_marked:
  assumes inv: "batchInv t"
  shows "batchInv (marked i rel now clk t)"
proof (cases "filter (isMissing i rel) (tb_items t) = []")
  case True
  then show ?thesis using inv by (simp add: marked_def)
next
  case False
  then obtain it where it: "it \<in> set (tb_items t)" "isMissing i rel it" by (auto simp: filter_empty_conv)
  let ?t = "mapItems (setDone i rel) t"
  have one: "length (filter (isMissing i rel) (tb_items t)) = 1" using missing_one [OF inv False] .
  have keys: "map itemKey (tb_items ?t) = map itemKey (tb_items t)"
    by (simp add: mapItems_def setDone_def itemKey_def)
  have ok: "batchOK ?t (onBatch i (advance now clk) b)" if b: "b \<in> set (tb_batches t)" for b
  proof (cases "b_ID b = i")
    case True
    have bok: "batchOK t b" using inv b by (simp add: batchInv_def)
    moreover have "b_Done b < b_Total b"
      using bok missing_less [OF it(1), of i] it(2) True by (simp add: batchOK_def isMissing_def)
    ultimately show ?thesis
      using True one by (simp add: onBatch_def batchOK_advance itemsOf_setDone doneOf_setDone)
  next
    case False
    then show ?thesis
      using inv b batchOK_cong [of ?t b t] by (simp add: onBatch_def batchInv_def itemsOf_setDone doneOf_setDone)
  qed
  have ids: "map b_ID (map (onBatch i (advance now clk)) (tb_batches t)) = map b_ID (tb_batches t)"
    by (auto simp: onBatch_def advance_def Let_def)
  then have idset: "b_ID ` onBatch i (advance now clk) ` set (tb_batches t) = b_ID ` set (tb_batches t)"
    by (metis image_set)
  have items: "itemOK x \<and> bi_BatchID x \<in> b_ID ` set (tb_batches t)" if "x \<in> set (tb_items ?t)" for x
    using that inv by (auto simp: batchInv_def mapItems_def setDone_def itemOK_def)
  have "batchInv (mapBatches (onBatch i (advance now clk)) ?t)"
    unfolding batchInv_def
    using ids idset keys items ok inv
    by (auto simp: batchInv_def mapItems_def simp del: map_map)
  then show ?thesis using False by (simp add: marked_def)
qed

lemma binv_MarkItemDone: "binv.keeps (MarkItemDone i rel now)"
  by (rule binv.keeps_atomic)
    (auto simp: invStep_def MarkItemDone_Inr batchInv_marked dest: MarkItemDone_Inl)

lemma binv_MarkItemDoneAcrossBatches: "binv.keeps (MarkItemDoneAcrossBatches tp rel now)"
  unfolding MarkItemDoneAcrossBatches_def Let_def
  by (intro binv.keeps_intros) (auto intro: binv.keeps_return binv_MarkItemDone)

text \<open>Removing missing items from a manifest.\<close>

definition missingIn :: "string \<Rightarrow> string list \<Rightarrow> UploadBatchItem \<Rightarrow> bool" where
  "missingIn i ps it \<longleftrightarrow> bi_BatchID it = i \<and> \<not> bi_Done it \<and> bi_RelativePath it \<in> set ps"

definition shrink :: "nat \<Rightarrow> int \<Rightarrow> UploadBatch \<Rightarrow> UploadBatch" where
  "shrink n clk b =
     (let b1 = b\<lparr>b_Total := b_Total b - int n, b_UpdatedAt := clk\<rparr> in
      if b_Done b1 \<ge> b_Total b1 \<and> openStatus (b_Status b1)
      then b1\<lparr>b_Status := BatchStatusCompleted\<rparr> else b1)"

definition dropItems :: "(UploadBatchItem \<Rightarrow> bool) \<Rightarrow> tables \<Rightarrow> tables" where
  "dropItems P t = t\<lparr>tb_items := filter (\<lambda>it. \<not> P it) (tb_items t)\<rparr>"

definition removed :: "string \<Rightarrow> string list \<Rightarrow> int \<Rightarrow> tables \<Rightarrow> tables" where
  "removed i ps clk t =
     (let n = length (filter (missingIn i ps) (tb_items t)) in
      if n = 0 then t else mapBatches (onBatch i (shrink n clk)) (dropItems (missingIn i ps) t))"

lemma removeHeader_Inr:
  assumes "removeHeader i n s = (Inr (), s')"
  shows "db_tab s' = mapBatches (onBatch i (shrink n (db_now s))) (db_tab s)"
proof -
  from assms obtain n1 s1 n2 s2 where
    "updateBatches (\<lambda>b. b_ID b = i) (\<lambda>b. b\<lparr>b_Total := b_Total b - int n\<rparr>) s = (Inr n1, s1)"
    "updateBatches (\<lambda>b. b_ID b = i \<and> b_Done b \<ge> b_Total b \<and> openStatus (b_Status b))
       (\<lambda>b. b\<lparr>b_Status := BatchStatusCompleted\<rparr>) s1 = (Inr n2, s2)"
    "s' = s2"
    unfolding removeHeader_def by (auto elim!: bindM_Inr)
  then show ?thesis
    by (auto dest!: updateBatches_map simp: mapBatches_comp onBatch_def shrink_def Let_def
        intro!: mapBatches_cong)
qed

lemma dropItems_none: "filter P (tb_items t) = [] \<Longrightarrow> dropItems P t = t"
  by (simp add: dropItems_def filter_empty_conv)

lemma removeChunk_Inr:
  assumes "removeChunk i ps s = (Inr (), s')"
  shows "db_tab s' = removed i ps (db_now s) (db_tab s)"
proof -
  from assms obtain s1 s2 where s: "db_tab s1 = db_tab s" "db_now s1 = db_now s" "db_tab s2 = db_tab s'"
    and body: "bindM (deleteItems (missingIn i ps))
      (\<lambda>rows. if rows = 0 then returnM () else removeHeader i rows) s1 = (Inr (), s2)"
    unfolding removeChunk_def missingIn_def [abs_def] by (rule transaction_Inr)
  from body obtain n s3 where del: "deleteItems (missingIn i ps) s1 = (Inr n, s3)"
    and rest: "(if n = 0 then returnM () else removeHeader i n) s3 = (Inr (), s2)"
    by (rule bindM_Inr)
  show ?thesis
    using deleteItems_Inr [OF del] rest s
    by (auto simp: removed_def Let_def dropItems_none dropItems_def [symmetric]
        dest!: removeHeader_Inr split: if_splits)
qed

lemma counts_dropItems:
  "length (doneOf (dropItems (missingIn i ps) t) j) = length (doneOf t j)"
  "length (itemsOf (dropItems (missingIn i ps) t) j) +
     (if j = i then length (filter (missingIn i ps) (tb_items t)) else 0) = length (itemsOf t j)"
proof -
  have "filter (\<lambda>it. bi_BatchID it = j \<and> bi_Done it) (filter (\<lambda>it. \<not> missingIn i ps it) (tb_items t)) =
        filter (\<lambda>it. bi_BatchID it = j \<and> bi_Done it) (tb_items t)"
    by (auto simp: missingIn_def intro!: filter_cong)
  then show "length (doneOf (dropItems (missingIn i ps) t) j) = length (doneOf t j)"
    by (simp add: doneOf_def dropItems_def)
  show "length (itemsOf (dropItems (missingIn i ps) t) j) +
     (if j = i then length (filter (missingIn i ps) (tb_items t)) else 0) = length (itemsOf t j)"
  proof (cases "j = i")
    case True
    then show ?thesis
      using length_filter_remove [of "tb_items t" "missingIn i ps" "\<lambda>it. bi_BatchID it = i"]
      by (simp add: itemsOf_def dropItems_def missingIn_def del: filter_filter)
  next
    case False
    then have "filter (\<lambda>it. bi_BatchID it = j) (filter (\<lambda>it. \<not> missingIn i ps it) (tb_items t)) =
        filter (\<lambda>it. bi_BatchID it = j) (tb_items t)"
      by (auto simp: missingIn_def intro!: filter_cong)
    then show ?thesis using False by (simp add: itemsOf_def dropItems_def)
  qed
qed

lemma batchOK_shrink:
  assumes "batchOK t b" and "length (doneOf t' (b_ID b)) = length (doneOf t (b_ID b))"
    and "length (itemsOf t' (b_ID b)) + n = length (itemsOf t (b_ID b))" and "n > 0"
  shows "batchOK t' (shrink n clk b)"
  using assms done_le_total [of t' "b_ID b"] by (auto simp: batch_simps shrink_def Let_def)

lemma batchInv_removed:
  assumes inv: "batchInv t"
  shows "batchInv (removed i ps clk t)"
proof (cases "filter (missingIn i ps) (tb_items t) = []")
  case True
  then show ?thesis using inv by (simp add: removed_def)
next
  case False
  let ?n = "length (filter (missingIn i ps) (tb_items t))"
  let ?t = "dropItems (missingIn i ps) t"
  have ok: "batchOK ?t (onBatch i (shrink ?n clk) b)" if b: "b \<in> set (tb_batches t)" for b
    using inv b False counts_dropItems [of i ps t "b_ID b"]
    by (cases "b_ID b = i")
      (auto simp: onBatch_def batchInv_def intro: batchOK_shrink batchOK_cong [THEN iffD2])
  have ids: "map b_ID (map (onBatch i (shrink ?n clk)) (tb_batches t)) = map b_ID (tb_batches t)"
    by (auto simp: onBatch_def shrink_def Let_def)
  then have idset: "b_ID ` onBatch i (shrink ?n clk) ` set (tb_batches t) = b_ID ` set (tb_batches t)"
    by (metis image_set)
  have "batchInv (mapBatches (onBatch i (shrink ?n clk)) ?t)"
    unfolding batchInv_def using ids idset ok inv
    by (auto simp: batchInv_def dropItems_def distinct_map_filter simp del: map_map)
  then show ?thesis using False by (simp add: removed_def)
qed

lemma removeChunk_Inl: "removeChunk i ps s = (Inl e, s') \<Longrightarrow> db_tab s' = db_tab s"
  unfolding removeChunk_def by (rule transaction_Inl)

lemma binv_RemoveItems: "binv.keeps (RemoveItems i ps)"
proof -
  have "binv.keeps (removeChunk i c)" for c
    by (rule binv.keeps_atomic)
      (auto simp: invStep_def removeChunk_Inr batchInv_removed dest: removeChunk_Inl)
  then show ?thesis unfolding RemoveItems_def by (intro binv.keeps_intros)
qed

text \<open>Creating a batch with its manifest.\<close>

lemma concat_chunks: "n > 0 \<Longrightarrow> concat (chunks n xs) = xs"
  by (induction n xs rule: chunks.induct) (subst chunks.simps, auto)

lemma numberItems_append:
  "numberItems n (xs @ ys) = numberItems n xs @ numberItems (n + length xs) ys"
  by (induction xs arbitrary: n) auto

lemma length_numberItems [simp]: "length (numberItems n xs) = length xs"
  by (induction xs arbitrary: n) auto

lemma numberItems_views [simp]:
  "map itemKey (numberItems n xs) = map itemKey xs"
  "length (filter (\<lambda>it. bi_BatchID it = i) (numberItems n xs)) = length (filter (\<lambda>it. bi_BatchID it = i) xs)"
  "length (filter (\<lambda>it. bi_BatchID it = i \<and> bi_Done it) (numberItems n xs)) =
   length (filter (\<lambda>it. bi_BatchID it = i \<and> bi_Done it) xs)"
  "(\<forall>it \<in> set (numberItems n xs). itemOK it) = (\<forall>it \<in> set xs. itemOK it)"
  by (induction xs arbitrary: n) (auto simp: itemKey_def itemOK_def)

lemma numberItems_batch: "it \<in> set (numberItems n xs) \<Longrightarrow> bi_BatchID it \<in> bi_BatchID ` set xs"
  by (induction xs arbitrary: n) auto

definition addItems :: "UploadBatchItem list \<Rightarrow> tables \<Rightarrow> tables" where
  "addItems is t = t\<lparr>tb_items := tb_items t @ numberItems (tb_nextItem t) is,
     tb_nextItem := tb_nextItem t + length is\<rparr>"

lemma insertItems_Inr:
  "insertItems is s = (Inr (), s') \<Longrightarrow>
   db_tab s' = addItems is (db_tab s) \<and> distinct (map itemKey (tb_items (db_tab s) @ is))"
  by (auto simp: insertItems_def addItems_def simp del: map_append distinct_append
      dest!: stmt_Inr split: if_splits)

lemma insertAll_Inr:
  "forM insertItems cs s = (Inr (), s') \<Longrightarrow> distinct (map itemKey (tb_items (db_tab s))) \<Longrightarrow>
   db_tab s' = addItems (concat cs) (db_tab s) \<and> distinct (map itemKey (tb_items (db_tab s) @ concat cs))"
proof (induction cs arbitrary: s)
  case Nil
  then show ?case by (simp add: addItems_def)
next
  case (Cons c cs)
  then obtain s1 where 1: "insertItems c s = (Inr (), s1)" and 2: "forM insertItems cs s1 = (Inr (), s')"
    by (auto elim!: bindM_Inr)
  note h = insertItems_Inr [OF 1]
  then have "distinct (map itemKey (tb_items (db_tab s1)))" by (auto simp: addItems_def)
  from Cons.IH [OF 2 this] h show ?case by (auto simp: addItems_def numberItems_append add.assoc)
qed

definition stamped :: "int \<Rightarrow> UploadBatch \<Rightarrow> UploadBatch" where
  "stamped clk b = b\<lparr>b_CreatedAt := (if b_CreatedAt b = 0 then clk else b_CreatedAt b),
     b_UpdatedAt := (if b_UpdatedAt b = 0 then clk else b_UpdatedAt b)\<rparr>"

definition created :: "UploadBatch \<Rightarrow> UploadBatchItem list \<Rightarrow> int \<Rightarrow> tables \<Rightarrow> tables" where
  "created b items clk t =
     (if b_ID b \<in> b_ID ` set (tb_batches t) then t
      else addItems items (t\<lparr>tb_batches := tb_batches t @ [stamped clk b]\<rparr>))"

lemma query_now: "query f s = (r, s') \<Longrightarrow> db_now s' = db_now s"
  by (auto simp: query_def dest: stmt_now)

lemma Create_Inr:
  assumes run: "BatchStore_Create b items s = (Inr (), s')"
    and dist: "distinct (map itemKey (tb_items (db_tab s)))"
  shows "db_tab s' = created b items (db_now s) (db_tab s) \<and> distinct (map itemKey (tb_items (db_tab s')))"
proof -
  from run obtain s1 s2 where s: "db_tab s1 = db_tab s" "db_now s1 = db_now s" "db_tab s2 = db_tab s'"
    and body: "bindM (query (\<lambda>t. length (filter (\<lambda>r. b_ID r = b_ID b) (tb_batches t)))) (\<lambda>cnt.
      if cnt > 0 then returnM ()
      else bindM (insertBatch b) (\<lambda>_.
           if items = [] then returnM () else forM insertItems (chunks 500 items))) s1 = (Inr (), s2)"
    unfolding BatchStore_Create_def by (rule transaction_Inr)
  from body obtain cnt s3 where
    q: "query (\<lambda>t. length (filter (\<lambda>r. b_ID r = b_ID b) (tb_batches t))) s1 = (Inr cnt, s3)" and
    rest: "(if cnt > 0 then returnM () else bindM (insertBatch b) (\<lambda>_.
           if items = [] then returnM () else forM insertItems (chunks 500 items))) s3 = (Inr (), s2)"
    by (rule bindM_Inr)
  note c = query_Inr [OF q] query_now [OF q]
  show ?thesis
  proof (cases "b_ID b \<in> b_ID ` set (tb_batches (db_tab s))")
    case True
    then have "cnt > 0" using c s by (auto simp: filter_empty_conv)
    then show ?thesis using True rest c s dist by (simp add: created_def)
  next
    case False
    then have "cnt = 0" using c s by (simp add: filter_empty_conv) (metis image_eqI)
    with rest obtain s4 where ins: "insertBatch b s3 = (Inr (), s4)"
      and it: "(if items = [] then returnM () else forM insertItems (chunks 500 items)) s4 = (Inr (), s2)"
      by (auto elim!: bindM_Inr)
    have t4: "db_tab s4 = (db_tab s)\<lparr>tb_batches := tb_batches (db_tab s) @ [stamped (db_now s) b]\<rparr>"
      using ins c s by (auto simp: insertBatch_def stamped_def dest!: stmt_Inr split: if_splits)
    have "db_tab s2 = addItems items (db_tab s4) \<and> distinct (map itemKey (tb_items (db_tab s2)))"
    proof (cases "items = []")
      case True
      then show ?thesis using it t4 dist by (simp add: addItems_def)
    next
      case f: False
      then have "forM insertItems (chunks 500 items) s4 = (Inr (), s2)" using it by simp
      from insertAll_Inr [OF this] t4 dist show ?thesis by (simp add: concat_chunks addItems_def)
    qed
    then have "db_tab s' = addItems items (db_tab s4)" "distinct (map itemKey (tb_items (db_tab s')))"
      using s(3) by metis+
    then show ?thesis using False t4 by (simp add: created_def)
  qed
qed

lemma Create_Inl: "BatchStore_Create b items s = (Inl e, s') \<Longrightarrow> db_tab s' = db_tab s"
  unfolding BatchStore_Create_def by (rule transaction_Inl)

text \<open>What the API handler guarantees about the rows it creates.\<close>

definition freshBatch :: "UploadBatch \<Rightarrow> UploadBatchItem list \<Rightarrow> bool" where
  "freshBatch b items \<longleftrightarrow>
     items \<noteq> [] \<and> list_all (\<lambda>it. bi_BatchID it = b_ID b \<and> \<not> bi_Done it \<and> itemOK it) items \<and>
     b_Total b = int (length items) \<and> b_Done b = 0 \<and> b_Status b = BatchStatusActive \<and>
     rooted (b_TargetPath b) \<and> Clean (b_TargetPath b) = b_TargetPath b"

lemma itemsOf_addItems:
  "length (itemsOf (addItems is t) j) = length (itemsOf t j) + length (filter (\<lambda>it. bi_BatchID it = j) is)"
  "length (doneOf (addItems is t) j) =
   length (doneOf t j) + length (filter (\<lambda>it. bi_BatchID it = j \<and> bi_Done it) is)"
  by (simp_all add: itemsOf_def doneOf_def addItems_def)

lemma itemsOf_batches [simp]:
  "itemsOf (t\<lparr>tb_batches := bs\<rparr>) = itemsOf t" "doneOf (t\<lparr>tb_batches := bs\<rparr>) = doneOf t"
  by (auto simp: itemsOf_def doneOf_def)

lemma batchInv_no_items:
  assumes "batchInv t" and "i \<notin> b_ID ` set (tb_batches t)"
  shows "itemsOf t i = []" and "doneOf t i = []"
  using assms by (auto simp: batchInv_def itemsOf_def doneOf_def filter_empty_conv)

lemma batchInv_created:
  assumes inv: "batchInv t" and fresh: "freshBatch b items"
    and dist: "distinct (map itemKey (tb_items (created b items clk t)))"
  shows "batchInv (created b items clk t)"
proof (cases "b_ID b \<in> b_ID ` set (tb_batches t)")
  case True
  then show ?thesis using inv by (simp add: created_def)
next
  case False
  let ?t = "addItems items (t\<lparr>tb_batches := tb_batches t @ [stamped clk b]\<rparr>)"
  have tb: "tb_batches ?t = tb_batches t @ [stamped clk b]"
    "tb_items ?t = tb_items t @ numberItems (tb_nextItem t) items" by (simp_all add: addItems_def)
  have fid: "filter (\<lambda>it. bi_BatchID it = b_ID b) items = items"
    "filter (\<lambda>it. bi_BatchID it = b_ID b \<and> bi_Done it) items = []"
    using fresh by (auto simp: freshBatch_def list_all_iff filter_empty_conv)
  have other: "filter (\<lambda>it. bi_BatchID it = j) items = []"
    "filter (\<lambda>it. bi_BatchID it = j \<and> bi_Done it) items = []" if "j \<noteq> b_ID b" for j
    using fresh that by (auto simp: freshBatch_def list_all_iff filter_empty_conv)
  have new: "batchOK ?t (stamped clk b)"
    using fresh batchInv_no_items [OF inv False]
    by (simp add: batchOK_def stamped_def itemsOf_addItems fid freshBatch_def openStatus_def)
  have old: "batchOK ?t c" if "c \<in> set (tb_batches t)" for c
  proof -
    have "b_ID c \<noteq> b_ID b" using that False by (metis image_eqI)
    then show ?thesis
      using inv that batchOK_cong [of ?t c t] by (simp add: itemsOf_addItems other batchInv_def)
  qed
  have it: "itemOK x \<and> bi_BatchID x = b_ID b" if "x \<in> set (numberItems (tb_nextItem t) items)" for x
  proof -
    have "\<forall>it \<in> set items. itemOK it \<and> bi_BatchID it = b_ID b"
      using fresh by (simp add: freshBatch_def list_all_iff)
    then show ?thesis
      using that numberItems_batch [OF that] numberItems_views(4) [of "tb_nextItem t" items]
      by (metis imageE)
  qed
  have "distinct (map itemKey (tb_items t @ numberItems (tb_nextItem t) items))"
    using dist False unfolding created_def by (simp only: if_False tb)
  moreover have sid: "b_ID (stamped clk b) = b_ID b" by (simp add: stamped_def)
  moreover have "distinct (map b_ID (tb_batches t @ [stamped clk b]))"
    using inv False sid by (simp add: batchInv_def)
  ultimately have "batchInv ?t"
    unfolding batchInv_def tb using inv False new old it
    by (auto simp: batchInv_def simp del: map_append numberItems_views)
  then show ?thesis using False by (simp add: created_def)
qed

lemma binv_Create:
  assumes "freshBatch b items"
  shows "binv.keeps (BatchStore_Create b items)"
proof (rule binv.keeps_atomic)
  fix s x s'
  assume "BatchStore_Create b items s = (Inr x, s')"
  then have run: "BatchStore_Create b items s = (Inr (), s')" by simp
  show "invStep (db_tab s) (db_tab s')"
    unfolding invStep_def
    using Create_Inr [OF run] batchInv_created [OF _ assms] by (metis batchInv_def)
qed (rule Create_Inl)

text \<open>Deleting a batch with its manifest.\<close>

definition deleted :: "string \<Rightarrow> tables \<Rightarrow> tables" where
  "deleted i t = t\<lparr>tb_items := filter (\<lambda>it. bi_BatchID it \<noteq> i) (tb_items t),
     tb_batches := filter (\<lambda>b. b_ID b \<noteq> i) (tb_batches t)\<rparr>"

lemma deleteOne_Inr:
  assumes "deleteOne i s = (Inr (), s')"
  shows "db_tab s' = deleted i (db_tab s)"
proof -
  from assms obtain s1 s2 where s: "db_tab s1 = db_tab s" "db_tab s2 = db_tab s'"
    and body: "bindM (deleteItems (\<lambda>it. bi_BatchID it = i)) (\<lambda>_.
      bindM (deleteBatches (\<lambda>b. b_ID b = i)) (\<lambda>_. returnM ())) s1 = (Inr (), s2)"
    unfolding deleteOne_def by (rule transaction_Inr)
  from body obtain n s3 m where "deleteItems (\<lambda>it. bi_BatchID it = i) s1 = (Inr n, s3)"
      "deleteBatches (\<lambda>b. b_ID b = i) s3 = (Inr m, s2)"
    by (auto elim!: bindM_Inr)
  from deleteItems_Inr [OF this(1)] deleteBatches_Inr [OF this(2)] s show ?thesis
    by (simp add: deleted_def)
qed

lemma deleteOne_Inl: "deleteOne i s = (Inl e, s') \<Longrightarrow> db_tab s' = db_tab s"
  unfolding deleteOne_def by (rule transaction_Inl)

lemma batchInv_deleted:
  assumes inv: "batchInv t"
  shows "batchInv (deleted i t)"
proof -
  have other: "itemsOf (deleted i t) j = itemsOf t j" "doneOf (deleted i t) j = doneOf t j" if "j \<noteq> i" for j
    using that by (auto simp: itemsOf_def doneOf_def deleted_def intro!: filter_cong)
  have "batchOK (deleted i t) b" if "b \<in> set (tb_batches t)" "b_ID b \<noteq> i" for b
    using that inv batchOK_cong [of "deleted i t" b t] by (simp add: other batchInv_def)
  then show ?thesis
    using inv unfolding batchInv_def
    by (auto simp: deleted_def distinct_map_filter)
qed

lemma binv_DeleteTerminal: "binv.keeps DeleteTerminal"
proof -
  have "binv.keeps (deleteOne i)" for i
    by (rule binv.keeps_atomic) (auto simp: invStep_def deleteOne_Inr batchInv_deleted dest: deleteOne_Inl)
  then show ?thesis unfolding DeleteTerminal_def by (intro binv.keeps_intros)
qed

text \<open>The abandon loop, for every relation that reading and abandoning respect.\<close>

context table_relation
begin

lemma keeps_abandonLoop:
  assumes "\<And>i. keeps (BatchStore_SetStatus i BatchStatusAbandoned)"
  shows "keeps (abandonLoop clean bs)"
  by (induction bs) (auto intro!: keeps_intros assms simp: MissingItems_def Let_def)

lemma keeps_AbandonUnder:
  assumes "\<And>i. keeps (BatchStore_SetStatus i BatchStatusAbandoned)"
  shows "keeps (AbandonInterruptedUnder p owner)"
  unfolding AbandonInterruptedUnder_def interruptedOf_def
  by (intro keeps_intros keeps_abandonLoop assms)

end

lemmas binv_AbandonUnder = binv.keeps_AbandonUnder [OF binv_Abandon]
lemmas hist_AbandonUnder = hist.keeps_AbandonUnder [OF hist_Abandon]

end
