(* ===== verification/UploadBadge.thy ===== *)
theory UploadBadge
  imports UploadInv
begin

text \<open>
  Badges of interrupted uploads: which directory entries \<^verbatim>\<open>BrokenChildren\<close> marks, and that
  \<^verbatim>\<open>AbandonInterruptedUnder\<close> removes exactly the batches behind a badge. Both walk the same
  rows with different textual tests; the specification is the prefix order on components.
\<close>

section \<open>Where a missing file lies\<close>

definition itemSegs :: "UploadBatch \<Rightarrow> UploadBatchItem \<Rightarrow> string list" where
  "itemSegs b it = segs (b_TargetPath b) @ comps (bi_RelativePath it)"

definition missesUnder :: "tables \<Rightarrow> string list \<Rightarrow> UploadBatch \<Rightarrow> bool" where
  "missesUnder t cs b \<longleftrightarrow> list_ex (\<lambda>it. bi_BatchID it = b_ID b \<and> \<not> bi_Done it \<and> prefix cs (itemSegs b it)) (tb_items t)"

text \<open>An entry is broken for a user when an interrupted batch of theirs misses a file at or under it.\<close>

definition brokenBy :: "tables \<Rightarrow> string \<Rightarrow> string list \<Rightarrow> UploadBatch \<Rightarrow> bool" where
  "brokenBy t owner cs b \<longleftrightarrow>
     b_Status b = BatchStatusInterrupted \<and> b_OwnerUserID b = owner \<and> missesUnder t cs b"

definition broken :: "tables \<Rightarrow> string \<Rightarrow> string list \<Rightarrow> bool" where
  "broken t owner cs \<longleftrightarrow> list_ex (brokenBy t owner cs) (tb_batches t)"

lemma itemSegs_proper: "itemOK it \<Longrightarrow> list_all proper (itemSegs b it)"
  by (simp add: itemSegs_def segs_proper itemOK_def no_dotdot_comps)

lemma item_path:
  assumes "rooted (b_TargetPath b)" and "itemOK it"
  shows "Clean (Join [b_TargetPath b, bi_RelativePath it]) = path_of (itemSegs b it)"
proof -
  have p: "list_all proper (comps (bi_RelativePath it))" using assms(2) by (simp add: itemOK_def no_dotdot_comps)
  have "Join [b_TargetPath b, bi_RelativePath it] = path_of (itemSegs b it)"
    by (simp only: Join2_rooted [OF assms(1)] resolve_proper [OF p] rev_rev_ident itemSegs_def)
  then show ?thesis using Clean_Join2 [OF assms(1)] by metis
qed

section \<open>The badge of an entry\<close>

lemma dirPrefix_Clean:
  "rooted d \<Longrightarrow> (if Clean d = ''/'' then ''/'' else Clean d @ ''/'') = dirPrefix (segs d)"
  using path_of_inj [OF segs_proper, of "[]" d] by (simp add: dirPrefix_def Clean_rooted)

lemma HasPrefix_dirPrefix:
  assumes "list_all proper fs" and "list_all proper ds"
  shows "HasPrefix (path_of fs) (dirPrefix ds) \<longleftrightarrow> prefix ds fs \<and> (ds = fs \<longrightarrow> ds = [])"
  using HasPrefix_path_of [OF assms] by (auto simp: dirPrefix_def strict_prefix_def)

lemma IndexByte_none: "c \<notin> set w \<Longrightarrow> IndexByte w c = None"
  by (induction w) auto

lemma IndexByte_first: "c \<notin> set w \<Longrightarrow> IndexByte (w @ c # r) c = Some (length w)"
  by (induction w) auto

lemma first_segment:
  assumes "slash \<notin> set c"
  shows "(case IndexByte (StrJoin (c # es) ''/'') slash of Some i \<Rightarrow> take i (StrJoin (c # es) ''/'')
          | None \<Rightarrow> StrJoin (c # es) ''/'') = c"
  using assms by (cases es) (simp_all add: IndexByte_none IndexByte_first)

lemma childUnder_iff:
  assumes "rooted (b_TargetPath b)" and it: "itemOK it" and ds: "list_all proper ds"
  shows "childUnder (dirPrefix ds) b it = Some c \<longleftrightarrow> prefix (ds @ [c]) (itemSegs b it)"
proof -
  let ?fs = "itemSegs b it"
  note ok = itemSegs_proper [OF it, of b]
  note hp = HasPrefix_dirPrefix [OF ok ds]
  show ?thesis
  proof (cases "prefix ds ?fs")
    case False
    moreover have "\<not> prefix (ds @ [c]) ?fs" using False append_prefixD by blast
    ultimately show ?thesis using hp by (simp add: childUnder_def Let_def item_path [OF assms(1) it])
  next
    case True
    then obtain es where es: "?fs = ds @ es" by (auto simp: prefix_def)
    show ?thesis
    proof (cases es)
      case Nil
      then show ?thesis
        using es hp by (simp add: childUnder_def Let_def item_path [OF assms(1) it] TrimPrefix_def dirPrefix_def
            split: option.splits)
    next
      case (Cons e es')
      then have e: "proper e" using ok es by simp
      have full: "path_of ?fs = dirPrefix ds @ StrJoin (e # es') ''/''"
        using path_of_under [of es ds] es Cons by simp
      have fs: "(case IndexByte (StrJoin (e # es') ''/'') slash of None \<Rightarrow> StrJoin (e # es') ''/''
          | Some i \<Rightarrow> take i (StrJoin (e # es') ''/'')) = e"
        using e by (intro first_segment) (simp add: proper_def)
      have "childUnder (dirPrefix ds) b it = Some e"
        unfolding childUnder_def item_path [OF assms(1) it] full Let_def TrimPrefix_append fs
        using e by (simp add: proper_def)
      then show ?thesis using es Cons by auto
    qed
  qed
qed

definition addAll :: "string \<Rightarrow> UploadBatch \<Rightarrow> UploadBatchItem list \<Rightarrow> (string \<rightharpoonup> string) \<Rightarrow> (string \<rightharpoonup> string)" where
  "addAll pre b items out = fold (addBadge pre b) items out"

lemma addBadge_dom:
  "addBadge pre b it out c = Some i \<longleftrightarrow>
   out c = Some i \<or> (out c = None \<and> i = b_ID b \<and> childUnder pre b it = Some c)"
  by (auto simp: addBadge_def split: option.splits)

lemma addAll_dom:
  "fold (addBadge pre b) items out c = Some i \<longleftrightarrow>
   out c = Some i \<or> (out c = None \<and> i = b_ID b \<and> list_ex (\<lambda>it. childUnder pre b it = Some c) items)"
proof (induction items arbitrary: out)
  case Nil
  then show ?case by simp
next
  case (Cons it items)
  have "addBadge pre b it out c = None \<longleftrightarrow> out c = None \<and> childUnder pre b it \<noteq> Some c"
    by (auto simp: addBadge_def split: option.splits)
  then show ?case using Cons.IH [of "addBadge pre b it out"] by (auto simp: addBadge_dom)
qed

definition hasChild :: "tables \<Rightarrow> string \<Rightarrow> string \<Rightarrow> UploadBatch \<Rightarrow> bool" where
  "hasChild t pre c b \<longleftrightarrow>
     list_ex (\<lambda>it. bi_BatchID it = b_ID b \<and> \<not> bi_Done it \<and> childUnder pre b it = Some c) (tb_items t)"

lemma list_ex_sort [simp]: "list_ex P (sort_key k xs) = list_ex P xs"
  by (simp add: list_ex_iff)

lemma badgeLoop_Inr:
  "badgeLoop pre bs out s = (Inr m, s') \<Longrightarrow>
   db_tab s' = db_tab s \<and>
   (m c = Some i \<longleftrightarrow> out c = Some i \<or>
      (out c = None \<and> map_option b_ID (find (hasChild (db_tab s) pre c) bs) = Some i))"
proof (induction bs arbitrary: out s)
  case Nil
  then show ?case by simp
next
  case (Cons b bs)
  then obtain items s1 where q: "MissingItems (b_ID b) s = (Inr items, s1)"
    and rest: "badgeLoop pre bs (fold (addBadge pre b) items out) s1 = (Inr m, s')"
    by (auto elim!: bindM_Inr)
  from q have items: "items = sort_key bi_RelativePath
      (filter (\<lambda>i. bi_BatchID i = b_ID b \<and> \<not> bi_Done i) (tb_items (db_tab s)))"
    and tab: "db_tab s1 = db_tab s"
    by (auto simp: MissingItems_def dest: query_Inr)
  have ex: "list_ex (\<lambda>it. childUnder pre b it = Some c) items \<longleftrightarrow> hasChild (db_tab s) pre c b"
    by (auto simp: items hasChild_def list_ex_iff)
  have none: "fold (addBadge pre b) items out c = None \<longleftrightarrow> out c = None \<and> \<not> hasChild (db_tab s) pre c b"
    using addAll_dom [of pre b items out c] ex by (metis option.exhaust option.discI)
  show ?case
    using Cons.IH [OF rest] none addAll_dom [of pre b items out c i] ex tab
    by (auto simp del: find_Some_iff)
qed

lemma hasChild_misses:
  assumes "batchInv t" and "b \<in> set (tb_batches t)" and "list_all proper ds"
  shows "hasChild t (dirPrefix ds) c b \<longleftrightarrow> missesUnder t (ds @ [c]) b"
proof -
  have "rooted (b_TargetPath b)" using assms by (simp add: batchInv_def batchOK_def)
  then show ?thesis
    using assms childUnder_iff [of b _ ds c] unfolding hasChild_def missesUnder_def
    by (auto simp: list_ex_iff batchInv_def)
qed

lemma BrokenChildren_Inr:
  assumes inv: "batchInv (db_tab s)" and dir: "rooted dir"
    and run: "BrokenChildren dir owner s = (Inr m, s')"
  shows "m c = map_option b_ID (find (brokenBy (db_tab s) owner (segs dir @ [c])) (tb_batches (db_tab s)))"
proof -
  let ?t = "db_tab s"
  let ?bs = "filter (\<lambda>b. b_Status b = BatchStatusInterrupted \<and> b_OwnerUserID b = owner) (tb_batches ?t)"
  from run obtain batches s1 where q: "interruptedOf owner s = (Inr batches, s1)"
    and rest: "(if batches = [] then returnM Map.empty
       else badgeLoop (if Clean dir = ''/'' then ''/'' else Clean dir @ ''/'') batches Map.empty) s1 = (Inr m, s')"
    unfolding BrokenChildren_def Let_def by (rule bindM_Inr)
  from q have b: "batches = ?bs" and tab: "db_tab s1 = ?t"
    by (auto simp: interruptedOf_def dest: query_Inr)
  have "m c = map_option b_ID (find (hasChild ?t (dirPrefix (segs dir)) c) ?bs)"
  proof (cases "?bs = []")
    case True
    then have "batches = []" using b by simp
    then show ?thesis using rest unfolding True by simp
  next
    case False
    then have "badgeLoop (dirPrefix (segs dir)) ?bs Map.empty s1 = (Inr m, s')"
      using rest b dirPrefix_Clean [OF dir] by simp
    from badgeLoop_Inr [OF this, of c] show ?thesis unfolding tab
      by (intro option_eqI) simp
  qed
  also have "find (hasChild ?t (dirPrefix (segs dir)) c) ?bs =
             find (brokenBy ?t owner (segs dir @ [c])) (tb_batches ?t)"
  proof -
    have "hasChild ?t (dirPrefix (segs dir)) c b \<longleftrightarrow> missesUnder ?t (segs dir @ [c]) b"
      if "b \<in> set (tb_batches ?t)" for b
      using hasChild_misses [OF inv that segs_proper] .
    then show ?thesis by (intro find_filter_cong) (simp add: brokenBy_def conj_assoc)
  qed
  finally show ?thesis .
qed

section \<open>Abandoning what is behind a badge\<close>

definition abandonIDs :: "string set \<Rightarrow> int \<Rightarrow> UploadBatch \<Rightarrow> UploadBatch" where
  "abandonIDs I clk b = (if b_ID b \<in> I then b\<lparr>b_Status := BatchStatusAbandoned, b_UpdatedAt := clk\<rparr> else b)"

definition hitBy :: "tables \<Rightarrow> string \<Rightarrow> UploadBatch \<Rightarrow> bool" where
  "hitBy t clean b \<longleftrightarrow> list_ex (\<lambda>it. bi_BatchID it = b_ID b \<and> \<not> bi_Done it \<and>
     atOrUnder clean (Clean (Join [b_TargetPath b, bi_RelativePath it]))) (tb_items t)"

lemma SetStatus_Inr:
  "BatchStore_SetStatus i BatchStatusAbandoned s = (Inr (), s') \<Longrightarrow>
   db_tab s' = mapBatches (abandonIDs {i} (db_now s)) (db_tab s) \<and> db_now s' = db_now s"
  unfolding BatchStore_SetStatus_def abandonIDs_def [abs_def]
  by (auto elim!: bindM_Inr dest!: updateBatches_map)

lemma abandonIDs_comp: "abandonIDs I clk \<circ> abandonIDs J clk = abandonIDs (I \<union> J) clk"
  by (auto simp: abandonIDs_def)

lemma mapBatches_id: "mapBatches (abandonIDs {} clk) t = t"
  by (simp add: mapBatches_def abandonIDs_def [abs_def])

lemma abandonLoop_Inr:
  "abandonLoop clean bs s = (Inr ids, s') \<Longrightarrow>
   ids = map b_ID (filter (hitBy (db_tab s) clean) bs) \<and>
   db_tab s' = mapBatches (abandonIDs (set ids) (db_now s)) (db_tab s)"
proof (induction bs arbitrary: s ids)
  case Nil
  then show ?case by (simp add: mapBatches_id)
next
  case (Cons b bs)
  from Cons.prems obtain items s1 where q: "MissingItems (b_ID b) s = (Inr items, s1)"
    and rest: "(let hit = list_ex (\<lambda>it. let full = Clean (Join [b_TargetPath b, bi_RelativePath it])
                            in full = clean \<or> HasPrefix full (clean @ ''/'')) items in
     if \<not> hit then abandonLoop clean bs
     else bindM (BatchStore_SetStatus (b_ID b) BatchStatusAbandoned) (\<lambda>_.
          bindM (abandonLoop clean bs) (\<lambda>ids. returnM (b_ID b # ids)))) s1 = (Inr ids, s')"
    unfolding abandonLoop.simps by (rule bindM_Inr)
  from q have items: "items = sort_key bi_RelativePath
      (filter (\<lambda>i. bi_BatchID i = b_ID b \<and> \<not> bi_Done i) (tb_items (db_tab s)))"
    and tab: "db_tab s1 = db_tab s" and now: "db_now s1 = db_now s"
    by (auto simp: MissingItems_def dest: query_Inr query_now)
  have hit: "list_ex (\<lambda>it. let full = Clean (Join [b_TargetPath b, bi_RelativePath it])
       in full = clean \<or> HasPrefix full (clean @ ''/'')) items \<longleftrightarrow> hitBy (db_tab s) clean b"
    by (auto simp: items hitBy_def list_ex_iff atOrUnder_def Let_def)
  show ?case
  proof (cases "hitBy (db_tab s) clean b")
    case False
    then have "abandonLoop clean bs s1 = (Inr ids, s')" using rest hit by (simp add: Let_def)
    from Cons.IH [OF this] False tab now show ?thesis by simp
  next
    case True
    then obtain s2 ids' where set: "BatchStore_SetStatus (b_ID b) BatchStatusAbandoned s1 = (Inr (), s2)"
      and loop: "abandonLoop clean bs s2 = (Inr ids', s')" and ids: "ids = b_ID b # ids'"
      using rest hit by (auto simp: Let_def elim!: bindM_Inr)
    note t2 = SetStatus_Inr [OF set]
    have "hitBy (db_tab s2) clean = hitBy (db_tab s) clean" using t2 tab by (simp add: hitBy_def [abs_def])
    then show ?thesis
      using Cons.IH [OF loop] t2 tab now True ids by (simp add: mapBatches_comp abandonIDs_comp)
  qed
qed

lemma hitBy_misses:
  assumes "batchInv t" and "b \<in> set (tb_batches t)" and "rooted p" and "segs p \<noteq> []"
  shows "hitBy t (Clean p) b \<longleftrightarrow> missesUnder t (segs p) b"
proof -
  have r: "rooted (b_TargetPath b)" using assms by (simp add: batchInv_def batchOK_def)
  have "atOrUnder (Clean p) (Clean (Join [b_TargetPath b, bi_RelativePath it])) \<longleftrightarrow> prefix (segs p) (itemSegs b it)"
    if "itemOK it" for it
    unfolding item_path [OF r that] Clean_rooted [OF assms(3)]
    using atOrUnder_path_of [OF itemSegs_proper [OF that] segs_proper assms(4)] .
  then show ?thesis
    using assms unfolding hitBy_def missesUnder_def by (auto simp: list_ex_iff batchInv_def)
qed

lemma Abandon_Inr:
  assumes "batchInv (db_tab s)" and "rooted p" and "segs p \<noteq> []"
    and run: "AbandonInterruptedUnder p owner s = (Inr ids, s')"
  shows "ids = map b_ID (filter (brokenBy (db_tab s) owner (segs p)) (tb_batches (db_tab s)))"
    and "db_tab s' = mapBatches (abandonIDs (set ids) (db_now s)) (db_tab s)"
proof -
  from run obtain batches s1 where q: "interruptedOf owner s = (Inr batches, s1)"
    and rest: "abandonLoop (Clean p) batches s1 = (Inr ids, s')"
    unfolding AbandonInterruptedUnder_def by (rule bindM_Inr)
  from q have b: "batches = filter (\<lambda>b. b_Status b = BatchStatusInterrupted \<and> b_OwnerUserID b = owner)
      (tb_batches (db_tab s))" and tab: "db_tab s1 = db_tab s" "db_now s1 = db_now s"
    by (auto simp: interruptedOf_def dest: query_Inr query_now)
  show "db_tab s' = mapBatches (abandonIDs (set ids) (db_now s)) (db_tab s)"
    using abandonLoop_Inr [OF rest] tab by simp
  have "filter (hitBy (db_tab s) (Clean p)) batches =
        filter (brokenBy (db_tab s) owner (segs p)) (tb_batches (db_tab s))"
    unfolding b filter_filter
    by (rule filter_cong) (use hitBy_misses [OF assms(1) _ assms(2,3)] in \<open>auto simp: brokenBy_def\<close>)
  then show "ids = map b_ID (filter (brokenBy (db_tab s) owner (segs p)) (tb_batches (db_tab s)))"
    using abandonLoop_Inr [OF rest] tab by simp
qed

lemma not_broken_after:
  assumes "batchInv (db_tab s)" and "rooted p" and "segs p \<noteq> []"
    and "AbandonInterruptedUnder p owner s = (Inr ids, s')"
  shows "\<not> broken (db_tab s') owner (segs p)"
proof -
  note h = Abandon_Inr [OF assms]
  have "\<not> brokenBy (db_tab s') owner (segs p) b'" if b': "b' \<in> set (tb_batches (db_tab s'))" for b'
  proof
    assume br: "brokenBy (db_tab s') owner (segs p) b'"
    from b' h(2) obtain b where b: "b \<in> set (tb_batches (db_tab s))" "b' = abandonIDs (set ids) (db_now s) b"
      by auto
    have "b_ID b \<notin> set ids" using br b by (auto simp: brokenBy_def abandonIDs_def)
    then have "b' = b" using b by (simp add: abandonIDs_def)
    then have "brokenBy (db_tab s) owner (segs p) b"
      using br h(2) by (simp add: brokenBy_def missesUnder_def)
    then have "b_ID b \<in> set ids" using h(1) b(1) by auto
    with \<open>b_ID b \<notin> set ids\<close> show False ..
  qed
  then show ?thesis by (auto simp: broken_def list_ex_iff)
qed

section \<open>Badge properties\<close>

text \<open>
  C26. Listing a directory marks exactly the entries at or under which an interrupted batch of
  the listing user still misses a file, and the batch id shown on an entry is that of such a
  batch of that user.
\<close>

theorem BrokenChildren_exact:
  assumes "batchInv (db_tab s)" and "rooted dir" and "BrokenChildren dir owner s = (Inr m, s')"
  shows "(m c \<noteq> None \<longleftrightarrow> broken (db_tab s) owner (segs dir @ [c])) \<and>
    (m c = Some i \<longrightarrow> list_ex (\<lambda>b. b_ID b = i \<and> brokenBy (db_tab s) owner (segs dir @ [c]) b)
       (tb_batches (db_tab s)))"
proof (intro conjI impI)
  note m = BrokenChildren_Inr [OF assms, of c]
  show "m c \<noteq> None \<longleftrightarrow> broken (db_tab s) owner (segs dir @ [c])"
    by (auto simp: m find_None_iff broken_def list_ex_iff)
  assume "m c = Some i"
  then obtain b where "find (brokenBy (db_tab s) owner (segs dir @ [c])) (tb_batches (db_tab s)) = Some b"
    "b_ID b = i" using m by auto
  then show "list_ex (\<lambda>b. b_ID b = i \<and> brokenBy (db_tab s) owner (segs dir @ [c]) b) (tb_batches (db_tab s))"
    by (auto simp: find_Some_iff list_ex_iff)
qed

definition badgeDB :: db where
  "badgeDB = \<lparr>db_tab = \<lparr>tb_batches =
       [\<lparr>b_ID = ''B1'', b_OwnerUserID = ''1'', b_TargetPath = ''/DATA/x'', b_Status = BatchStatusInterrupted,
         b_Total = 2, b_Done = 1, b_LastProgressAt = 5, b_InterruptedAt = 200,
         b_InterruptSource = BatchInterruptSourceTimeout, b_StagingCleaned = False,
         b_CreatedAt = 1, b_UpdatedAt = 5\<rparr>,
        \<lparr>b_ID = ''B2'', b_OwnerUserID = ''1'', b_TargetPath = ''/DATA/x/a'', b_Status = BatchStatusInterrupted,
         b_Total = 1, b_Done = 0, b_LastProgressAt = 5, b_InterruptedAt = 200,
         b_InterruptSource = BatchInterruptSourceSignal, b_StagingCleaned = True,
         b_CreatedAt = 1, b_UpdatedAt = 5\<rparr>],
     tb_items =
       [\<lparr>bi_ID = 1, bi_BatchID = ''B1'', bi_RelativePath = ''a/1'', bi_Size = 3, bi_Done = True\<rparr>,
        \<lparr>bi_ID = 2, bi_BatchID = ''B1'', bi_RelativePath = ''a/2'', bi_Size = 3, bi_Done = False\<rparr>,
        \<lparr>bi_ID = 3, bi_BatchID = ''B2'', bi_RelativePath = ''3'', bi_Size = 3, bi_Done = False\<rparr>],
     tb_tasks = [], tb_nextItem = 4\<rparr>, db_now = 300, db_faults = [], db_fs = []\<rparr>"

lemma badgeDB_inv: "batchInv (db_tab badgeDB)"
  by code_simp

lemma badgeDB_query [simp]: "query f badgeDB = (Inr (f (db_tab badgeDB)), badgeDB)"
  by (simp add: query_def stmt_def badgeDB_def)

theorem BrokenChildren_exact_witness:
  "\<exists>m. fst (BrokenChildren ''/DATA/x'' ''1'' badgeDB) = Inr m \<and> m ''a'' \<noteq> None"
proof -
  have "\<not> isl (fst (BrokenChildren ''/DATA/x'' ''1'' badgeDB))" by code_simp
  then obtain m s' where run: "BrokenChildren ''/DATA/x'' ''1'' badgeDB = (Inr m, s')"
    by (metis isl_def prod.collapse sum.exhaust)
  have "broken (db_tab badgeDB) ''1'' (segs ''/DATA/x'' @ [''a''])" by code_simp
  then show ?thesis
    using BrokenChildren_exact [OF badgeDB_inv _ run, of "''a''"] run by (simp add: HasPrefix_def)
qed

text \<open>
  Abandoning the entry behind a badge clears the badge: it abandons exactly the interrupted
  batches of the caller that miss a file at or under the entry, leaves every other batch as
  it was, and no later listing over the same rows marks the entry again, even when several
  batches were stacked on it.
\<close>

theorem Abandon_clears_badge:
  assumes "batchInv (db_tab s)" and "rooted dir" and "proper c"
    and "AbandonInterruptedUnder (Join [dir, c]) owner s = (Inr ids, s')"
    and "db_tab s2 = db_tab s'" and "BrokenChildren dir owner s2 = (Inr m, s3)"
  shows "ids = map b_ID (filter (brokenBy (db_tab s) owner (segs dir @ [c])) (tb_batches (db_tab s))) \<and>
    tb_batches (db_tab s') = map (\<lambda>b. if b_ID b \<in> set ids
       then b\<lparr>b_Status := BatchStatusAbandoned, b_UpdatedAt := db_now s\<rparr> else b) (tb_batches (db_tab s)) \<and>
    m c = None"
proof (intro conjI)
  have c: "list_all proper (comps c)" "comps c = [c]" using assms(3) comps_proper_name [of c] by simp_all
  have sg: "segs (Join [dir, c]) = segs dir @ [c]" using segs_Join2 [OF assms(2) c(1)] c(2) by simp
  note r = rooted_Join2 [OF assms(2), of c]
  have ne: "segs (Join [dir, c]) \<noteq> []" using sg by simp
  note h = Abandon_Inr [OF assms(1) r ne assms(4)]
  show "ids = map b_ID (filter (brokenBy (db_tab s) owner (segs dir @ [c])) (tb_batches (db_tab s)))"
    using h(1) sg by simp
  show "tb_batches (db_tab s') = map (\<lambda>b. if b_ID b \<in> set ids
       then b\<lparr>b_Status := BatchStatusAbandoned, b_UpdatedAt := db_now s\<rparr> else b) (tb_batches (db_tab s))"
    using h(2) by (simp add: abandonIDs_def)
  have "invStep (db_tab s) (db_tab s')"
    using binv_AbandonUnder binv.keepsD assms(4) by blast
  then have "batchInv (db_tab s2)" using assms(1,5) by (simp add: invStep_def)
  then have "m c = None \<longleftrightarrow> \<not> broken (db_tab s2) owner (segs dir @ [c])"
    using BrokenChildren_Inr [OF _ assms(2,6), of c] by (auto simp: find_None_iff broken_def list_ex_iff)
  then show "m c = None"
    using not_broken_after [OF assms(1) r ne assms(4)] assms(5) sg by simp
qed

theorem Abandon_clears_badge_witness:
  "\<exists>m. fst (BrokenChildren ''/DATA/x'' ''1''
      (snd (AbandonInterruptedUnder (Join [''/DATA/x'', ''a'']) ''1'' badgeDB))) = Inr m \<and> m ''a'' = None"
proof -
  let ?run = "AbandonInterruptedUnder (Join [''/DATA/x'', ''a'']) ''1'' badgeDB"
  have "\<not> isl (fst ?run)" "\<not> isl (fst (BrokenChildren ''/DATA/x'' ''1'' (snd ?run)))" by code_simp+
  then obtain ids m s3 where run: "?run = (Inr ids, snd ?run)"
    "BrokenChildren ''/DATA/x'' ''1'' (snd ?run) = (Inr m, s3)"
    by (metis isl_def prod.collapse sum.exhaust)
  have "proper ''a''" "rooted ''/DATA/x''" by code_simp+
  from Abandon_clears_badge [OF badgeDB_inv this(2,1) run(1) refl run(2)] run(2) show ?thesis by simp
qed

end
