(* ===== verification/UploadSweeper.thy ===== *)
theory UploadSweeper
  imports UploadBadge "HOL-Library.AList"
begin

text \<open>
  The periodic batch sweeper (\<^verbatim>\<open>batch_sweeper.go\<close>) with the cancellation of a batch's tus
  tasks, the enumeration of staging directories (\<^verbatim>\<open>staging_dirs.go\<close>), the write throttle
  (\<^verbatim>\<open>touch_throttle.go\<close>) and the task row of a created upload (\<^verbatim>\<open>hook.go\<close>). The shared library's
  \<^verbatim>\<open>Cancel\<close> is a parameter. A round of the sweeper refines a function on single rows.
\<close>

section \<open>Definitions\<close>

definition BatchIdleInterruptSeconds :: int where "BatchIdleInterruptSeconds = 120"
definition BatchStagingGraceSeconds :: int where "BatchStagingGraceSeconds = 600"
definition UploadIdleTimeoutSeconds :: int where "UploadIdleTimeoutSeconds = 6 * 60 * 60"
definition UploadCanceledTTLSeconds :: int where "UploadCanceledTTLSeconds = 60 * 60"

text \<open>The text of \<^verbatim>\<open>/proc/self/mounts\<close>, or \<open>None\<close> when reading it fails; blanks are escaped as octal 040.\<close>

definition octalBlank :: string where "octalBlank = CHR 0x5C # ''040''"

definition listMountPoints :: "string option \<Rightarrow> string list" where
  "listMountPoints data =
     (case data of None \<Rightarrow> []
      | Some txt \<Rightarrow> concat (map (\<lambda>line. let f = Fields line in
           if length f \<ge> 2 then [ReplaceAll (f ! 1) octalBlank '' ''] else []) (Split (CHR 0x0A) txt)))"

text \<open>\<open>gone\<close> tells for which paths \<^verbatim>\<open>os.Stat\<close> fails with \<^verbatim>\<open>IsNotExist\<close>.\<close>

definition targetOrphaned :: "(string \<Rightarrow> bool) \<Rightarrow> string \<Rightarrow> string list \<Rightarrow> bool" where
  "targetOrphaned gone target mountPoints =
     (if \<not> gone target then False
      else (let clean = Clean target in
            list_ex (\<lambda>m. let mm = Clean m in
              mm \<noteq> ''/'' \<and> (clean = mm \<or> HasPrefix clean (mm @ ''/''))) mountPoints))"

definition cancelOne :: "(string \<Rightarrow> int \<Rightarrow> bool dbm) \<Rightarrow> string list \<Rightarrow> int \<Rightarrow> UploadTask \<Rightarrow> unit dbm" where
  "cancelOne cancel stagingDirs expires x =
     bindM (ignoreM (cancel (t_ID x) expires)) (\<lambda>_.
     forM (\<lambda>dir. bindM (osRemove (Join [dir, t_ID x])) (\<lambda>_. osRemove (Join [dir, t_ID x @ ''.info'']))) stagingDirs)"

definition cancelUnfinished ::
  "UploadStatuses \<Rightarrow> (string \<Rightarrow> int \<Rightarrow> bool dbm) \<Rightarrow> string \<Rightarrow> string list \<Rightarrow> int \<Rightarrow> unit dbm" where
  "cancelUnfinished us cancel batchID stagingDirs now =
     bindM (ListUnfinishedByBatch us batchID) (\<lambda>list.
       forM (cancelOne cancel stagingDirs (now + UploadCanceledTTLSeconds)) list)"

definition idle :: "int \<Rightarrow> UploadBatch \<Rightarrow> bool" where
  "idle now b =
     (let prev = (if b_LastProgressAt b = 0 then b_CreatedAt b else b_LastProgressAt b)
      in now - prev > BatchIdleInterruptSeconds)"

definition interruptIdle :: "int \<Rightarrow> unit dbm" where
  "interruptIdle now = bindM (ListByStatus BatchStatusActive) (\<lambda>actives.
     forM (\<lambda>b. if idle now b then SetInterrupted (b_ID b) now BatchInterruptSourceTimeout else returnM ()) actives)"

definition cleanOne :: "UploadStatuses \<Rightarrow> (string \<Rightarrow> int \<Rightarrow> bool dbm) \<Rightarrow> string list \<Rightarrow> int \<Rightarrow> UploadBatch \<Rightarrow> unit dbm" where
  "cleanOne us cancel stagingDirs now b =
     (if b_StagingCleaned b \<or> now - b_InterruptedAt b \<le> BatchStagingGraceSeconds then returnM ()
      else bindM (cancelUnfinished us cancel (b_ID b) stagingDirs now) (\<lambda>_. MarkStagingCleaned (b_ID b)))"

definition orphanOne :: "UploadStatuses \<Rightarrow> (string \<Rightarrow> int \<Rightarrow> bool dbm) \<Rightarrow> (string \<Rightarrow> bool) \<Rightarrow> string list \<Rightarrow> string list \<Rightarrow> int \<Rightarrow>
    UploadBatch \<Rightarrow> unit dbm" where
  "orphanOne us cancel gone mounts stagingDirs now b =
     (if \<not> targetOrphaned gone (b_TargetPath b) mounts then returnM ()
      else bindM (cancelUnfinished us cancel (b_ID b) stagingDirs now) (\<lambda>_.
           BatchStore_SetStatus (b_ID b) BatchStatusAbandoned))"

definition SweepBatches :: "UploadStatuses \<Rightarrow> (string \<Rightarrow> int \<Rightarrow> bool dbm) \<Rightarrow> (string \<Rightarrow> bool) \<Rightarrow> string option \<Rightarrow>
    string list \<Rightarrow> int \<Rightarrow> unit dbm" where
  "SweepBatches us cancel gone mountsText stagingDirs now =
     bindM (interruptIdle now) (\<lambda>_.
     bindM (ListByStatus BatchStatusInterrupted) (\<lambda>interrupted.
     bindM (forM (cleanOne us cancel stagingDirs now) interrupted) (\<lambda>_.
     bindM (forM (orphanOne us cancel gone (listMountPoints mountsText) stagingDirs now) interrupted) (\<lambda>_.
     bindM DeleteTerminal (\<lambda>_. returnM ())))))"

text \<open>Directory entries of the media root with their directory flag, and the existing directories.\<close>

definition StagingDirs :: "string \<Rightarrow> string \<Rightarrow> (string \<times> bool) list option \<Rightarrow> (string \<Rightarrow> bool) \<Rightarrow> string list" where
  "StagingDirs legacyDir mediaRoot entries isDir =
     (case entries of None \<Rightarrow> [legacyDir]
      | Some es \<Rightarrow> legacyDir # filter isDir
          (map (\<lambda>e. Join [mediaRoot, fst e, ''.system_data'', ''file-tus-staging'']) (filter snd es)))"

subsection \<open>Throttle\<close>

definition maxThrottleEntries :: nat where "maxThrottleEntries = 10000"

record TouchThrottle =
  tt_interval :: int
  tt_last :: "(string \<times> int) list"

definition NewTouchThrottle :: "int \<Rightarrow> TouchThrottle" where
  "NewTouchThrottle intervalSecs = \<lparr>tt_interval = intervalSecs, tt_last = []\<rparr>"

definition Allow :: "string \<Rightarrow> int \<Rightarrow> TouchThrottle \<Rightarrow> bool \<times> TouchThrottle" where
  "Allow key now t =
     (case map_of (tt_last t) key of
        Some prev \<Rightarrow> if now - prev < tt_interval t then (False, t)
                    else (True, t\<lparr>tt_last := AList.update key now (tt_last t)\<rparr>)
      | None \<Rightarrow> (True, t\<lparr>tt_last := AList.update key now
                   (if length (tt_last t) \<ge> maxThrottleEntries then [] else tt_last t)\<rparr>))"

subsection \<open>Task row of a created upload\<close>

text \<open>The hook event as far as it is read; \<open>marshal\<close> is the JSON encoder of the client map.\<close>

record HookEvent =
  ev_ID :: string
  ev_Size :: int
  ev_Offset :: int
  ev_MetaData :: "string \<rightharpoonup> string"
  ev_Storage :: "string \<rightharpoonup> string"
  ev_Header :: "string \<rightharpoonup> string"
  ev_RemoteAddr :: string

text \<open>Reading a Go map of strings: a missing key gives the empty string.\<close>

definition mapGet :: "(string \<rightharpoonup> string) \<Rightarrow> string \<Rightarrow> string" where
  "mapGet m k = (case m k of None \<Rightarrow> [] | Some v \<Rightarrow> v)"

definition NewTaskFromHook ::
  "UploadStatuses \<Rightarrow> ((string \<times> string) list \<Rightarrow> string) \<Rightarrow> HookEvent \<Rightarrow> int \<Rightarrow> UploadTask" where
  "NewTaskFromHook us marshal ev now =
     (let meta = ev_MetaData ev;
          rel = (if mapGet meta ''relativePath'' = [] then mapGet meta ''filename'' else mapGet meta ''relativePath'');
          cm = marshal [(''user_agent'', mapGet (ev_Header ev) ''User-Agent''), (''remote_addr'', ev_RemoteAddr ev)]
      in \<lparr>t_ID = ev_ID ev, t_OwnerUserID = mapGet (ev_Header ev) ''user_id'', t_Filename = mapGet meta ''filename'',
          t_TargetPath = mapGet meta ''targetPath'', t_RelativePath = rel, t_Size = ev_Size ev,
          t_Mime = mapGet meta ''filetype'', t_Fingerprint = mapGet meta ''fingerprint'',
          t_BatchID = mapGet meta ''batch_id'', t_ClientID = mapGet meta ''client_id'', t_ClientMeta = cm,
          t_Status = us_Uploading us, t_UploadedOffset = 0, t_Error = [], t_LastErrorAt = 0,
          t_ExpiresAt = now + UploadIdleTimeoutSeconds, t_CreatedAt = 0\<rparr>)"

section \<open>A round refines a function on rows\<close>

text \<open>
  What the sweeper needs of the shared library's \<^verbatim>\<open>Cancel\<close>: it works through the task store,
  so it leaves batches and manifests alone.
\<close>

definition tasksOnly :: "('e, 'a) exec \<Rightarrow> bool" where
  "tasksOnly m \<longleftrightarrow> (\<forall>s. tb_batches (db_tab (snd (m s))) = tb_batches (db_tab s) \<and>
     tb_items (db_tab (snd (m s))) = tb_items (db_tab s) \<and> db_now (snd (m s)) = db_now s)"

lemma tasksOnlyD:
  "tasksOnly m \<Longrightarrow> m s = (r, s') \<Longrightarrow> tb_batches (db_tab s') = tb_batches (db_tab s) \<and>
     tb_items (db_tab s') = tb_items (db_tab s) \<and> db_now s' = db_now s"
  unfolding tasksOnly_def by (metis snd_conv)

lemma tasksOnly_bind: "tasksOnly m \<Longrightarrow> (\<And>x. tasksOnly (f x)) \<Longrightarrow> tasksOnly (bindM m f)"
  unfolding tasksOnly_def bindM_def by (auto split: prod.splits sum.splits) (metis snd_conv)+

lemma tasksOnly_basic: "tasksOnly (returnM x)" "tasksOnly (query f)" "tasksOnly (osRemove p)"
  by (auto simp: tasksOnly_def returnM_def query_def stmt_def osRemove_def osDo_def ignoreM_def split: sum.splits)

lemma tasksOnly_ignore: "tasksOnly m \<Longrightarrow> tasksOnly (ignoreM m)"
  by (simp add: tasksOnly_def ignoreM_def)

lemma tasksOnly_forM: "(\<And>x. tasksOnly (f x)) \<Longrightarrow> tasksOnly (forM f xs)"
  by (induction xs) (simp_all add: tasksOnly_basic tasksOnly_bind)

lemma tasksOnly_cancelUnfinished:
  assumes "\<And>i e. tasksOnly (cancel i e)"
  shows "tasksOnly (cancelUnfinished us cancel i dirs now)"
  unfolding cancelUnfinished_def cancelOne_def ListUnfinishedByBatch_def
  by (intro tasksOnly_bind tasksOnly_basic tasksOnly_forM tasksOnly_ignore assms)

text \<open>
  The loops of a round update the rows of a set of ids. Such a bulk update is determined
  by its action on single ids.
\<close>

locale bulk_update =
  fixes upd :: "string set \<Rightarrow> int \<Rightarrow> UploadBatch \<Rightarrow> UploadBatch"
  assumes upd_none: "upd {} clk b = b" and upd_union: "upd I clk (upd J clk b) = upd (I \<union> J) clk b"
begin

text \<open>One call changes the rows of the ids in \<open>I\<close>, keeps the manifest and the clock.\<close>

definition doesUpd :: "unit dbm \<Rightarrow> string set \<Rightarrow> bool" where
  "doesUpd m I \<longleftrightarrow> (\<forall>s s'. m s = (Inr (), s') \<longrightarrow>
     tb_batches (db_tab s') = map (upd I (db_now s)) (tb_batches (db_tab s)) \<and>
     tb_items (db_tab s') = tb_items (db_tab s) \<and> db_now s' = db_now s)"

lemma doesUpdI:
  "(\<And>s s'. m s = (Inr (), s') \<Longrightarrow> tb_batches (db_tab s') = map (upd I (db_now s)) (tb_batches (db_tab s)) \<and>
     tb_items (db_tab s') = tb_items (db_tab s) \<and> db_now s' = db_now s) \<Longrightarrow> doesUpd m I"
  by (simp add: doesUpd_def)

lemma doesUpdD:
  "doesUpd m I \<Longrightarrow> m s = (Inr (), s') \<Longrightarrow>
   tb_batches (db_tab s') = map (upd I (db_now s)) (tb_batches (db_tab s)) \<and>
   tb_items (db_tab s') = tb_items (db_tab s) \<and> db_now s' = db_now s"
  by (simp add: doesUpd_def)

lemma doesUpd_return: "doesUpd (returnM ()) {}"
  by (simp add: doesUpd_def upd_none map_idI [symmetric])

lemma doesUpd_tasks: "tasksOnly m \<Longrightarrow> doesUpd m {}"
  by (auto simp: doesUpd_def upd_none map_idI dest: tasksOnlyD)

lemma doesUpd_bind:
  assumes "doesUpd m I" and "doesUpd n J"
  shows "doesUpd (bindM m (\<lambda>_. n)) (I \<union> J)"
proof (rule doesUpdI)
  fix s s'
  assume "bindM m (\<lambda>_. n) s = (Inr (), s')"
  then obtain s1 where "m s = (Inr (), s1)" "n s1 = (Inr (), s')" by (auto elim!: bindM_Inr)
  with assms show "tb_batches (db_tab s') = map (upd (I \<union> J) (db_now s)) (tb_batches (db_tab s)) \<and>
     tb_items (db_tab s') = tb_items (db_tab s) \<and> db_now s' = db_now s"
    by (simp add: doesUpd_def upd_union Un_commute)
qed

lemma doesUpd_forM:
  assumes "\<And>x. x \<in> set xs \<Longrightarrow> doesUpd (f x) (if P x then {k x} else {})"
  shows "doesUpd (forM f xs) (k ` set (filter P xs))"
  using assms
proof (induction xs)
  case Nil
  then show ?case by (simp add: doesUpd_return)
next
  case (Cons x xs)
  from doesUpd_bind [OF Cons.prems [of x] Cons.IH] Cons.prems show ?case by (auto split: if_splits)
qed

end

definition interruptIDs :: "int \<Rightarrow> string set \<Rightarrow> int \<Rightarrow> UploadBatch \<Rightarrow> UploadBatch" where
  "interruptIDs now I clk b = (if b_ID b \<in> I \<and> b_Status b = BatchStatusActive
     then b\<lparr>b_Status := BatchStatusInterrupted, b_InterruptedAt := now, b_StagingCleaned := False,
            b_InterruptSource := BatchInterruptSourceTimeout, b_UpdatedAt := clk\<rparr> else b)"

definition cleanIDs :: "string set \<Rightarrow> int \<Rightarrow> UploadBatch \<Rightarrow> UploadBatch" where
  "cleanIDs I clk b = (if b_ID b \<in> I then b\<lparr>b_StagingCleaned := True, b_UpdatedAt := clk\<rparr> else b)"

interpretation intr: bulk_update "interruptIDs now" for now
  by unfold_locales (auto simp: interruptIDs_def)

interpretation cln: bulk_update cleanIDs
  by unfold_locales (auto simp: cleanIDs_def)

interpretation abn: bulk_update abandonIDs
  by unfold_locales (auto simp: abandonIDs_def)

lemma intr_SetInterrupted: "intr.doesUpd now (SetInterrupted i now BatchInterruptSourceTimeout) {i}"
  unfolding SetInterrupted_def
  by (rule intr.doesUpdI) (auto elim!: bindM_Inr dest!: updateBatches_map simp: interruptIDs_def)

lemma cln_Mark: "cln.doesUpd (MarkStagingCleaned i) {i}"
  unfolding MarkStagingCleaned_def
  by (rule cln.doesUpdI) (auto elim!: bindM_Inr dest!: updateBatches_map simp: cleanIDs_def)

lemma abn_SetStatus: "abn.doesUpd (BatchStore_SetStatus i BatchStatusAbandoned) {i}"
  by (rule abn.doesUpdI) (simp add: SetStatus_Inr)

lemma cln_cleanOne:
  assumes "\<And>i e. tasksOnly (cancel i e)"
  shows "cln.doesUpd (cleanOne us cancel dirs now b)
    (if \<not> b_StagingCleaned b \<and> now - b_InterruptedAt b > BatchStagingGraceSeconds then {b_ID b} else {})"
  using cln.doesUpd_bind [OF cln.doesUpd_tasks [OF tasksOnly_cancelUnfinished [OF assms]] cln_Mark]
  by (auto simp: cleanOne_def cln.doesUpd_return)

lemma abn_orphanOne:
  assumes "\<And>i e. tasksOnly (cancel i e)"
  shows "abn.doesUpd (orphanOne us cancel gone mounts dirs now b)
    (if targetOrphaned gone (b_TargetPath b) mounts then {b_ID b} else {})"
  using abn.doesUpd_bind [OF abn.doesUpd_tasks [OF tasksOnly_cancelUnfinished [OF assms]] abn_SetStatus]
  by (auto simp: orphanOne_def abn.doesUpd_return)

lemma deleteAll_Inr:
  "forM deleteOne ids s = (Inr (), s') \<Longrightarrow>
   tb_batches (db_tab s') = filter (\<lambda>b. b_ID b \<notin> set ids) (tb_batches (db_tab s)) \<and>
   tb_items (db_tab s') = filter (\<lambda>it. bi_BatchID it \<notin> set ids) (tb_items (db_tab s))"
proof (induction ids arbitrary: s)
  case Nil
  then show ?case by simp
next
  case (Cons i ids)
  then obtain s1 where 1: "deleteOne i s = (Inr (), s1)" and 2: "forM deleteOne ids s1 = (Inr (), s')"
    by (auto elim!: bindM_Inr)
  from Cons.IH [OF 2] deleteOne_Inr [OF 1] show ?case by (auto simp: deleted_def intro!: filter_cong)
qed

definition terminalIDs :: "UploadBatch list \<Rightarrow> string set" where
  "terminalIDs bs = b_ID ` set (filter (\<lambda>b. terminalStatus (b_Status b)) bs)"

lemma DeleteTerminal_Inr:
  assumes "DeleteTerminal s = (Inr n, s')"
  shows "tb_batches (db_tab s') = filter (\<lambda>b. b_ID b \<notin> terminalIDs (tb_batches (db_tab s))) (tb_batches (db_tab s))"
    and "tb_items (db_tab s') = filter (\<lambda>it. bi_BatchID it \<notin> terminalIDs (tb_batches (db_tab s))) (tb_items (db_tab s))"
proof -
  from assms obtain ids s1 where
    q: "query (\<lambda>t. map b_ID (filter (\<lambda>b. terminalStatus (b_Status b)) (tb_batches t))) s = (Inr ids, s1)"
    and loop: "forM deleteOne ids s1 = (Inr (), s')"
    unfolding DeleteTerminal_def by (auto elim!: bindM_Inr)
  from query_Inr [OF q] have "set ids = terminalIDs (tb_batches (db_tab s))" "db_tab s1 = db_tab s"
    by (auto simp: terminalIDs_def)
  with deleteAll_Inr [OF loop]
  show "tb_batches (db_tab s') = filter (\<lambda>b. b_ID b \<notin> terminalIDs (tb_batches (db_tab s))) (tb_batches (db_tab s))"
    and "tb_items (db_tab s') = filter (\<lambda>it. bi_BatchID it \<notin> terminalIDs (tb_batches (db_tab s))) (tb_items (db_tab s))"
    by simp_all
qed

text \<open>What a round does to one row: \<open>None\<close> when the row is deleted.\<close>

definition afterIdle :: "int \<Rightarrow> int \<Rightarrow> UploadBatch \<Rightarrow> UploadBatch" where
  "afterIdle now clk b = (if b_Status b = BatchStatusActive \<and> idle now b
     then b\<lparr>b_Status := BatchStatusInterrupted, b_InterruptedAt := now, b_StagingCleaned := False,
            b_InterruptSource := BatchInterruptSourceTimeout, b_UpdatedAt := clk\<rparr> else b)"

definition sweepRow :: "(string \<Rightarrow> bool) \<Rightarrow> string list \<Rightarrow> int \<Rightarrow> int \<Rightarrow> UploadBatch \<Rightarrow> UploadBatch option" where
  "sweepRow gone mounts now clk b =
     (let b1 = afterIdle now clk b in
      if terminalStatus (b_Status b1) then None
      else if b_Status b1 = BatchStatusInterrupted then
        (if targetOrphaned gone (b_TargetPath b1) mounts then None
         else if \<not> b_StagingCleaned b1 \<and> now - b_InterruptedAt b1 > BatchStagingGraceSeconds
         then Some (b1\<lparr>b_StagingCleaned := True, b_UpdatedAt := clk\<rparr>) else Some b1)
      else Some b1)"

lemma interruptIDs_row:
  "b_ID b \<in> I \<longleftrightarrow> b_Status b = BatchStatusActive \<and> idle now b \<Longrightarrow>
   interruptIDs now I clk b = afterIdle now clk b"
  by (simp add: interruptIDs_def afterIdle_def)

lemma sweepRow_eq:
  assumes "b_ID b1 \<in> I \<longleftrightarrow> b_Status b1 = BatchStatusInterrupted \<and>
      \<not> b_StagingCleaned b1 \<and> now - b_InterruptedAt b1 > BatchStagingGraceSeconds"
    and "b_ID b1 \<in> J \<longleftrightarrow> b_Status b1 = BatchStatusInterrupted \<and> targetOrphaned gone (b_TargetPath b1) mounts"
    and "b1 = afterIdle now clk b"
  shows "sweepRow gone mounts now clk b =
    (if terminalStatus (b_Status (abandonIDs J clk (cleanIDs I clk b1))) then None
     else Some (abandonIDs J clk (cleanIDs I clk b1)))"
  using assms(1,2) unfolding sweepRow_def Let_def assms(3) [symmetric]
  by (simp add: abandonIDs_def cleanIDs_def terminalStatus_def)

lemma interruptIdle_Inr:
  assumes run: "interruptIdle now s = (Inr (), s')" and dist: "distinct (map b_ID (tb_batches (db_tab s)))"
  shows "tb_batches (db_tab s') = map (afterIdle now (db_now s)) (tb_batches (db_tab s)) \<and>
    tb_items (db_tab s') = tb_items (db_tab s) \<and> db_now s' = db_now s"
proof -
  let ?bs = "tb_batches (db_tab s)"
  let ?act = "filter (\<lambda>b. b_Status b = BatchStatusActive) ?bs"
  let ?I = "b_ID ` set (filter (idle now) ?act)"
  from run obtain actives s1 where q: "ListByStatus BatchStatusActive s = (Inr actives, s1)"
    and loop: "forM (\<lambda>b. if idle now b then SetInterrupted (b_ID b) now BatchInterruptSourceTimeout
        else returnM ()) actives s1 = (Inr (), s')"
    unfolding interruptIdle_def by (rule bindM_Inr)
  from q have a: "actives = ?act" "db_tab s1 = db_tab s" "db_now s1 = db_now s"
    by (auto simp: ListByStatus_def dest: query_Inr query_now)
  have "intr.doesUpd now (forM (\<lambda>b. if idle now b then SetInterrupted (b_ID b) now BatchInterruptSourceTimeout
        else returnM ()) ?act) ?I"
    by (rule intr.doesUpd_forM) (simp add: intr_SetInterrupted intr.doesUpd_return)
  from intr.doesUpdD [OF this loop [unfolded a(1)]]
  have "tb_batches (db_tab s') = map (interruptIDs now ?I (db_now s)) ?bs \<and>
      tb_items (db_tab s') = tb_items (db_tab s) \<and> db_now s' = db_now s"
    unfolding a(2,3) .
  moreover have "interruptIDs now ?I (db_now s) b = afterIdle now (db_now s) b" if "b \<in> set ?bs" for b
  proof -
    have "b_ID b \<in> ?I \<longleftrightarrow> b_Status b = BatchStatusActive \<and> idle now b"
      unfolding filter_filter by (rule key_in_filter [OF dist that])
    then show ?thesis by (rule interruptIDs_row)
  qed
  ultimately show ?thesis by simp
qed

lemma filter_terminal:
  "distinct (map b_ID bs) \<Longrightarrow>
   filter (\<lambda>b. b_ID b \<notin> terminalIDs bs) bs = filter (\<lambda>b. \<not> terminalStatus (b_Status b)) bs"
  unfolding terminalIDs_def by (rule filter_cong) (simp_all only: key_in_filter refl)

lemma map_filter_rows:
  assumes "\<And>b. b \<in> set bs \<Longrightarrow> r b = (if P (g b) then None else Some (g b))"
  shows "filter (\<lambda>b. \<not> P b) (map g bs) = List.map_filter r bs"
  using assms by (induction bs) (auto simp: map_filter_simps)

lemma afterIdle_sel [simp]: "b_ID (afterIdle now clk b) = b_ID b" "b_TargetPath (afterIdle now clk b) = b_TargetPath b"
  by (simp_all add: afterIdle_def)

lemma Sweep_Inr:
  assumes cancel: "\<And>i e. tasksOnly (cancel i e)"
    and dist: "distinct (map b_ID (tb_batches (db_tab s)))"
    and run: "SweepBatches us cancel gone mtxt dirs now s = (Inr (), s')"
  shows "tb_batches (db_tab s') =
    List.map_filter (sweepRow gone (listMountPoints mtxt) now (db_now s)) (tb_batches (db_tab s))"
proof -
  let ?bs = "tb_batches (db_tab s)" and ?clk = "db_now s" and ?m = "listMountPoints mtxt"
  let ?b1 = "map (afterIdle now ?clk) ?bs"
  let ?int = "filter (\<lambda>b. b_Status b = BatchStatusInterrupted) ?b1"
  let ?Q = "\<lambda>b. \<not> b_StagingCleaned b \<and> now - b_InterruptedAt b > BatchStagingGraceSeconds"
  let ?O = "\<lambda>b. targetOrphaned gone (b_TargetPath b) ?m"
  let ?I = "b_ID ` set (filter ?Q ?int)" and ?J = "b_ID ` set (filter ?O ?int)"
  from run obtain s1 interrupted s2 s3 s4 n s5 where
    1: "interruptIdle now s = (Inr (), s1)" and
    2: "ListByStatus BatchStatusInterrupted s1 = (Inr interrupted, s2)" and
    3: "forM (cleanOne us cancel dirs now) interrupted s2 = (Inr (), s3)" and
    4: "forM (orphanOne us cancel gone ?m dirs now) interrupted s3 = (Inr (), s4)" and
    5: "DeleteTerminal s4 = (Inr n, s5)" "s' = s5"
    unfolding SweepBatches_def by (auto elim!: bindM_Inr)
  note r1 = interruptIdle_Inr [OF 1 dist]
  from 2 r1 have r2: "interrupted = ?int" "db_tab s2 = db_tab s1" "db_now s2 = ?clk"
    by (auto simp: ListByStatus_def dest: query_Inr query_now)
  have "cln.doesUpd (forM (cleanOne us cancel dirs now) ?int) ?I"
    by (rule cln.doesUpd_forM) (rule cln_cleanOne [OF cancel])
  from cln.doesUpdD [OF this 3 [unfolded r2(1)]]
  have r3: "tb_batches (db_tab s3) = map (cleanIDs ?I ?clk) ?b1" "db_now s3 = ?clk"
    unfolding r2(2,3) r1 [THEN conjunct1] by blast+
  have "abn.doesUpd (forM (orphanOne us cancel gone ?m dirs now) ?int) ?J"
    by (rule abn.doesUpd_forM) (rule abn_orphanOne [OF cancel])
  from abn.doesUpdD [OF this 4 [unfolded r2(1)]]
  have "tb_batches (db_tab s4) = map (abandonIDs ?J ?clk) (tb_batches (db_tab s3))"
    unfolding r3(2) by blast
  then have r4: "tb_batches (db_tab s4) = map (abandonIDs ?J ?clk \<circ> cleanIDs ?I ?clk \<circ> afterIdle now ?clk) ?bs"
    unfolding r3(1) map_map o_assoc .
  have ids: "map b_ID (tb_batches (db_tab s4)) = map b_ID ?bs"
    unfolding r4 by (simp add: abandonIDs_def cleanIDs_def)
  have d1: "distinct (map b_ID ?b1)" using dist by (simp add: comp_def)
  have "sweepRow gone ?m now ?clk b =
      (let c = (abandonIDs ?J ?clk \<circ> cleanIDs ?I ?clk \<circ> afterIdle now ?clk) b
       in if terminalStatus (b_Status c) then None else Some c)" if "b \<in> set ?bs" for b
  proof -
    let ?b = "afterIdle now ?clk b"
    have m: "?b \<in> set ?b1" using that by simp
    have I: "b_ID ?b \<in> ?I \<longleftrightarrow> b_Status ?b = BatchStatusInterrupted \<and> ?Q ?b"
      unfolding filter_filter by (rule key_in_filter [OF d1 m])
    have J: "b_ID ?b \<in> ?J \<longleftrightarrow> b_Status ?b = BatchStatusInterrupted \<and> ?O ?b"
      unfolding filter_filter by (rule key_in_filter [OF d1 m])
    show ?thesis using sweepRow_eq [OF I J refl] unfolding o_apply Let_def .
  qed
  then have "filter (\<lambda>b. \<not> terminalStatus (b_Status b)) (tb_batches (db_tab s4)) =
      List.map_filter (sweepRow gone ?m now ?clk) ?bs"
    unfolding r4 by (intro map_filter_rows) (simp only: Let_def)
  then show ?thesis
    using DeleteTerminal_Inr(1) [OF 5(1)] 5(2) filter_terminal [of "tb_batches (db_tab s4)"] ids dist by simp
qed

section \<open>Sweeper properties\<close>

text \<open>When a target counts as orphaned, on components: gone, and on a mounted volume other than root.\<close>

lemma targetOrphaned_iff:
  assumes "rooted target" and "list_all rooted mounts"
  shows "targetOrphaned gone target mounts \<longleftrightarrow>
    gone target \<and> list_ex (\<lambda>m. segs m \<noteq> [] \<and> prefix (segs m) (segs target)) mounts"
proof -
  have "(Clean m \<noteq> ''/'' \<and> (Clean target = Clean m \<or> HasPrefix (Clean target) (Clean m @ ''/''))) \<longleftrightarrow>
        segs m \<noteq> [] \<and> prefix (segs m) (segs target)" if "m \<in> set mounts" for m
  proof -
    have r: "rooted m" using that assms(2) by (simp add: list_all_iff)
    have "Clean m = ''/'' \<longleftrightarrow> segs m = []"
      using path_of_inj [OF segs_proper, of "[]" m] by (simp add: Clean_rooted [OF r])
    then show ?thesis
      using atOrUnder_Clean [OF r assms(1)] by (auto simp: atOrUnder_def)
  qed
  then show ?thesis unfolding targetOrphaned_def Let_def by (auto simp: list_ex_iff)
qed

text \<open>
  C21. A successful round of the sweeper acts row by row: idle active batches become
  interrupted by timeout, terminal ones are deleted, interrupted ones are deleted exactly when
  their target is orphaned and otherwise kept, with staging cleaned after the grace period.
\<close>

theorem SweepBatches_refines_rows:
  assumes "\<And>i e. tasksOnly (cancel i e)" and "batchInv (db_tab s)"
    and "SweepBatches us cancel gone mountsText dirs now s = (Inr (), s')"
  shows "tb_batches (db_tab s') =
    List.map_filter (sweepRow gone (listMountPoints mountsText) now (db_now s)) (tb_batches (db_tab s))"
  using assms by (intro Sweep_Inr) (simp_all add: batchInv_def)

text \<open>A concrete cancel in the manner of the shared library: fetch the task, set it canceled.\<close>

definition demoStatuses :: UploadStatuses where
  "demoStatuses = \<lparr>us_Uploading = ''uploading'', us_Paused = ''paused'', us_Failed = ''failed'',
     us_Canceled = ''canceled'', us_Completed = ''completed''\<rparr>"

definition demoCancel :: "string \<Rightarrow> int \<Rightarrow> bool dbm" where
  "demoCancel i e = bindM (TaskStore_Get i) (\<lambda>_.
     bindM (TaskStore_SetStatus i (us_Canceled demoStatuses) e) (\<lambda>_. returnM True))"

lemma tasksOnly_throw: "tasksOnly (throwM e)"
  by (simp add: tasksOnly_def throwM_def)

lemma tasksOnly_updateTasks: "tasksOnly (updateTasks P f)"
  by (auto simp: tasksOnly_def updateTasks_def stmt_def)

lemma tasksOnly_demo: "tasksOnly (demoCancel i e)"
proof -
  have "tasksOnly (TaskStore_Get i)"
    unfolding TaskStore_Get_def
    by (intro tasksOnly_bind tasksOnly_basic) (auto simp: tasksOnly_throw tasksOnly_basic split: option.splits)
  then show ?thesis
    unfolding demoCancel_def TaskStore_SetStatus_def
    by (intro tasksOnly_bind tasksOnly_basic tasksOnly_updateTasks)
qed

definition demoMounts :: string where "demoMounts = ''d / ext4 rw'' @ [CHR 0x0A] @ ''e /DATA ext4 rw''"

definition demoSweep :: "(string \<Rightarrow> bool) \<Rightarrow> int \<Rightarrow> unit dbm" where
  "demoSweep gone now = SweepBatches demoStatuses demoCancel gone (Some demoMounts) [''/DATA/st''] now"

theorem SweepBatches_refines_rows_witness:
  "tb_batches (db_tab (snd (demoSweep (\<lambda>p. p = ''/DATA/x'') 300 badgeDB))) =
   List.map_filter (sweepRow (\<lambda>p. p = ''/DATA/x'') (listMountPoints (Some demoMounts)) 300 300)
     (tb_batches (db_tab badgeDB))"
proof -
  let ?r = "demoSweep (\<lambda>p. p = ''/DATA/x'') 300 badgeDB"
  have "fst ?r = Inr ()" by code_simp
  then have run: "?r = (Inr (), snd ?r)" by (metis prod.collapse)
  have "db_now badgeDB = 300" by code_simp
  with SweepBatches_refines_rows [OF tasksOnly_demo badgeDB_inv run [unfolded demoSweep_def]]
  show ?thesis by (simp add: demoSweep_def)
qed

text \<open>
  A badge never expires by itself: an interrupted batch whose target exists, or lies on no
  mounted volume other than root, survives every successful round as an interrupted batch
  with its owner, target, counters and interrupt source; an active batch with progress in
  the last 120 seconds survives unchanged.
\<close>

theorem SweepBatches_keeps_badges:
  assumes "\<And>i e. tasksOnly (cancel i e)" and "batchInv (db_tab s)"
    and "list_all rooted (listMountPoints mountsText)"
    and "SweepBatches us cancel gone mountsText dirs now s = (Inr (), s')"
    and "b \<in> set (tb_batches (db_tab s))"
    and "b_Status b = BatchStatusInterrupted \<and>
           (gone (b_TargetPath b) \<longrightarrow> \<not> list_ex (\<lambda>m. segs m \<noteq> [] \<and> prefix (segs m) (segs (b_TargetPath b)))
              (listMountPoints mountsText)) \<or>
         b_Status b = BatchStatusActive \<and> \<not> idle now b"
  shows "list_ex (\<lambda>c. c = b \<or> b_Status b = BatchStatusInterrupted \<and>
      c = b\<lparr>b_StagingCleaned := True, b_UpdatedAt := db_now s\<rparr>) (tb_batches (db_tab s'))"
proof -
  let ?m = "listMountPoints mountsText" and ?clk = "db_now s"
  have r: "rooted (b_TargetPath b)" using assms(2,5) by (simp add: batchInv_def batchOK_def)
  have "\<exists>c. sweepRow gone ?m now ?clk b = Some c \<and> (c = b \<or> b_Status b = BatchStatusInterrupted \<and>
      c = b\<lparr>b_StagingCleaned := True, b_UpdatedAt := ?clk\<rparr>)"
    using assms(6) targetOrphaned_iff [OF r assms(3), of gone]
    by (auto simp: sweepRow_def Let_def afterIdle_def terminalStatus_def)
  moreover have "tb_batches (db_tab s') = List.map_filter (sweepRow gone ?m now ?clk) (tb_batches (db_tab s))"
    using assms(1,2,4) by (intro Sweep_Inr) (simp_all add: batchInv_def)
  ultimately show ?thesis using assms(5) by (force simp: list_ex_iff List.map_filter_def)
qed

theorem SweepBatches_keeps_badges_witness:
  "list_ex (\<lambda>c. b_ID c = ''B1'') (tb_batches (db_tab (snd (demoSweep (\<lambda>p. False) 900 badgeDB))))"
proof -
  let ?r = "demoSweep (\<lambda>p. False) 900 badgeDB" and ?b = "hd (tb_batches (db_tab badgeDB))"
  have "fst ?r = Inr ()" by code_simp
  then have run: "?r = (Inr (), snd ?r)" by (metis prod.collapse)
  have m: "list_all rooted (listMountPoints (Some demoMounts))" by code_simp
  have st: "b_Status ?b = BatchStatusInterrupted" "b_ID ?b = ''B1''" "?b \<in> set (tb_batches (db_tab badgeDB))"
    by (simp_all add: badgeDB_def)
  have "list_ex (\<lambda>c. c = ?b \<or> b_Status ?b = BatchStatusInterrupted \<and>
      c = ?b\<lparr>b_StagingCleaned := True, b_UpdatedAt := db_now badgeDB\<rparr>) (tb_batches (db_tab (snd ?r)))"
    unfolding demoSweep_def
    by (rule SweepBatches_keeps_badges [OF tasksOnly_demo badgeDB_inv m run [unfolded demoSweep_def] st(3)])
      (simp add: st(1))
  then obtain c where "c \<in> set (tb_batches (db_tab (snd ?r)))" "b_ID c = b_ID ?b"
    unfolding list_ex_iff by force
  then show ?thesis using st(2) by (auto simp: list_ex_iff)
qed

section \<open>Throttle properties\<close>

text \<open>The decisions of a throttle over a sequence of events.\<close>

fun throttleRun :: "TouchThrottle \<Rightarrow> (string \<times> int) list \<Rightarrow> (string \<times> int \<times> bool) list \<times> TouchThrottle" where
  "throttleRun t [] = ([], t)"
| "throttleRun t ((k, n) # evs) =
     (case Allow k n t of (ok, t') \<Rightarrow> (case throttleRun t' evs of (ds, t'') \<Rightarrow> ((k, n, ok) # ds, t'')))"

definition throttleOK :: "TouchThrottle \<Rightarrow> bool" where
  "throttleOK t \<longleftrightarrow> distinct (map fst (tt_last t)) \<and> length (tt_last t) \<le> maxThrottleEntries"

lemma length_update:
  "length (AList.update k v al) = (if k \<in> fst ` set al then length al else Suc (length al))"
  by (induction al) auto

lemma Allow_OK: "throttleOK t \<Longrightarrow> throttleOK (snd (Allow k n t)) \<and> tt_interval (snd (Allow k n t)) = tt_interval t"
proof -
  assume ok: "throttleOK t"
  have "map_of (tt_last t) k = None \<longleftrightarrow> k \<notin> fst ` set (tt_last t)" by (rule map_of_eq_None_iff)
  then show ?thesis
    using ok by (auto simp: throttleOK_def Allow_def length_update distinct_update maxThrottleEntries_def
        split: option.splits)
qed

lemma throttleRun_OK: "throttleOK t \<Longrightarrow> throttleOK (snd (throttleRun t evs))"
proof (induction t evs rule: throttleRun.induct)
  case (2 t k n evs)
  then show ?case using Allow_OK [of t k n] by (auto split: prod.splits)
qed simp

lemma Allow_last:
  "Allow k n t = (ok, t') \<Longrightarrow> map_of (tt_last t') j = Some v \<Longrightarrow>
   map_of (tt_last t) j = Some v \<or> (j = k \<and> v = n \<and> ok)"
  by (auto simp: Allow_def update_conv' split: option.splits if_splits)

lemma Allow_reject: "Allow k n t = (False, t') \<Longrightarrow> \<exists>v. map_of (tt_last t) k = Some v \<and> n - v < tt_interval t"
  by (auto simp: Allow_def split: option.splits if_splits)

lemma Allow_interval: "Allow k n t = (ok, t') \<Longrightarrow> tt_interval t' = tt_interval t"
  by (auto simp: Allow_def split: option.splits if_splits)

lemma throttleRun_covered:
  assumes "\<And>j v. map_of (tt_last t) j = Some v \<Longrightarrow> (j, v, True) \<in> set past"
    and "fst (throttleRun t evs) = pre @ (k, n, False) # post"
  shows "\<exists>v. (k, v, True) \<in> set (past @ pre) \<and> n - v < tt_interval t"
  using assms
proof (induction evs arbitrary: t past pre)
  case Nil
  then show ?case by simp
next
  case (Cons ev evs)
  obtain k' n' where ev: "ev = (k', n')" by force
  obtain ok t' where al: "Allow k' n' t = (ok, t')" by force
  have run: "(k', n', ok) # fst (throttleRun t' evs) = pre @ (k, n, False) # post"
    using Cons.prems(2) ev al by (simp split: prod.splits)
  show ?case
  proof (cases pre)
    case Nil
    then have "Allow k n t = (False, t')" using run al by simp
    from Allow_reject [OF this] show ?thesis using Cons.prems(1) by auto
  next
    case (Cons d pre')
    then have d: "d = (k', n', ok)" "fst (throttleRun t' evs) = pre' @ (k, n, False) # post" using run by simp_all
    have "(j, v, True) \<in> set (past @ [d])" if "map_of (tt_last t') j = Some v" for j v
      using Allow_last [OF al that] Cons.prems(1) d(1) by auto
    from Cons.IH [OF this d(2)] show ?thesis
      using Cons Allow_interval [OF al] by auto
  qed
qed

text \<open>
  The throttle loses no progress for longer than its interval: whenever it rejects an event,
  an earlier event of the same key was let through less than the interval before; and its table
  never holds more than 10000 entries, with one entry per key.
\<close>

theorem throttle_sound:
  assumes "throttleRun (NewTouchThrottle interval) evs = (ds, t)"
    and "ds = pre @ (k, n, False) # post"
  shows "(\<exists>v. (k, v, True) \<in> set pre \<and> n - v < interval) \<and>
    length (tt_last t) \<le> 10000 \<and> distinct (map fst (tt_last t))"
proof -
  have "throttleOK (NewTouchThrottle interval)" by (simp add: throttleOK_def NewTouchThrottle_def)
  from throttleRun_OK [OF this, of evs] assms(1) have "throttleOK t" by simp
  moreover have "\<exists>v. (k, v, True) \<in> set ([] @ pre) \<and> n - v < tt_interval (NewTouchThrottle interval)"
    using assms by (intro throttleRun_covered [where evs = evs]) (auto simp: NewTouchThrottle_def)
  ultimately show ?thesis by (simp add: throttleOK_def maxThrottleEntries_def NewTouchThrottle_def)
qed

theorem throttle_sound_witness:
  "\<exists>v. (''a'', v, True) \<in> set [(''a'', 10::int, True), (''b'', 11, True)] \<and> 13 - v < (5::int)"
  using throttle_sound [of 5 "[(''a'', 10), (''b'', 11), (''a'', 13)]" _ _ "[(''a'', 10, True), (''b'', 11, True)]" "''a''" 13 "[]"]
  by (force simp: Allow_def NewTouchThrottle_def maxThrottleEntries_def)

end
