(* ===== verification/PathUtils.thy ===== *)
theory PathUtils
  imports GoPath
begin

text \<open>
  \<^verbatim>\<open>pkg/utils/path.go\<close>: normalisation of request paths, the sub-path test, the join of a
  base path with a request path, and the percent encoding of path segments. The protected
  folder names of \<^verbatim>\<open>route/v1/file.go\<close> and \<^verbatim>\<open>route/v2/file.go\<close> are here too, since both
  API versions share them.
\<close>

section \<open>Definitions\<close>

definition FixAndCleanPath :: "string \<Rightarrow> string" where
  "FixAndCleanPath path =
     (let p = ReplaceByte path (CHR 0x5C) ''/'';
          q = (if \<not> HasPrefix p ''/'' then ''/'' @ p else p)
      in Clean q)"

definition PathAddSeparatorSuffix :: "string \<Rightarrow> string" where
  "PathAddSeparatorSuffix path = (if \<not> HasSuffix path ''/'' then path @ ''/'' else path)"

definition PathEqual :: "string \<Rightarrow> string \<Rightarrow> bool" where
  "PathEqual path1 path2 = (FixAndCleanPath path1 = FixAndCleanPath path2)"

definition IsSubPath :: "string \<Rightarrow> string \<Rightarrow> bool" where
  "IsSubPath path0 subPath0 =
     (let path = FixAndCleanPath path0; subPath = FixAndCleanPath subPath0
      in path = subPath \<or> HasPrefix subPath (PathAddSeparatorSuffix path))"

definition ExtNoDot :: "string \<Rightarrow> string" where
  "ExtNoDot path = (let ext = Ext path in if HasPrefix ext ''.'' then tl ext else ext)"

text \<open>\<^verbatim>\<open>url.PathEscape\<close>: the bytes a path segment keeps, and the two upper-case hex digits.\<close>

definition keepInSegment :: "char \<Rightarrow> bool" where
  "keepInSegment c =
     (let n = (of_char c :: nat)
      in (48 \<le> n \<and> n \<le> 57) \<or> (65 \<le> n \<and> n \<le> 90) \<or> (97 \<le> n \<and> n \<le> 122)
         \<or> c \<in> set ''-_.~$&+:=@'')"

definition hexUpper :: "nat \<Rightarrow> char" where
  "hexUpper n = (if n < 10 then char_of (48 + n) else char_of (55 + n))"

definition PathEscape :: "string \<Rightarrow> string" where
  "PathEscape s = concat (map (\<lambda>c. if keepInSegment c then [c]
     else CHR ''%'' # [hexUpper (of_char c div 16), hexUpper (of_char c mod 16)]) s)"

definition toReplace :: "(char \<times> string) list" where
  "toReplace = [(CHR ''%'', ''%25''), (CHR ''%'', ''%25''), (CHR ''?'', ''%3F''), (CHR ''#'', ''%23'')]"

definition EncodePath :: "string \<Rightarrow> bool list \<Rightarrow> string" where
  "EncodePath path all =
     (let seg = Split slash path;
          enc = (\<lambda>s. if all \<noteq> [] \<and> hd all then PathEscape s
                      else fold (\<lambda>(src, dst) acc. ReplaceByte acc src dst) toReplace s)
      in StrJoin (map enc seg) ''/'')"

datatype path_error = RelativePathNotAllowed

definition JoinBasePath :: "string \<Rightarrow> string \<Rightarrow> (path_error, string) result" where
  "JoinBasePath basePath reqPath =
     (if HasSuffix reqPath ''..'' \<or> Contains reqPath ''../'' then Inl RelativePathNotAllowed
      else Inr (Join [FixAndCleanPath basePath, FixAndCleanPath reqPath]))"

text \<open>Protected folder names.\<close>

definition protectedNames :: "string list" where
  "protectedNames = [''AppData'', ''Documents'', ''Downloads'', ''Gallery'', ''Media'']"

definition isProtectedName :: "string \<Rightarrow> bool" where
  "isProtectedName name = list_ex (\<lambda>p. name = p) protectedNames"

definition containsProtectedName :: "string \<Rightarrow> bool \<times> string" where
  "containsProtectedName path =
     (case find isProtectedName (Split slash path) of
        Some part \<Rightarrow> (True, part) | None \<Rightarrow> (False, []))"

section \<open>Lemmas\<close>

lemma FixAndCleanPath_rooted [simp]: "rooted (FixAndCleanPath p)"
  by (simp add: FixAndCleanPath_def Let_def)

lemma FixAndCleanPath_path_of: "FixAndCleanPath p = path_of (segs (FixAndCleanPath p))"
proof -
  have "\<exists>q. rooted q \<and> FixAndCleanPath p = Clean q"
    by (auto simp: FixAndCleanPath_def Let_def intro: rooted_Cons)
  then obtain q where q: "rooted q" "FixAndCleanPath p = Clean q" by blast
  show ?thesis unfolding q(2) using q(1) by (simp add: Clean_rooted segs_proper)
qed

lemma StrJoin_no_trailing_slash:
  assumes "list_all proper cs" and "cs \<noteq> []"
  shows "\<not> HasSuffix (path_of cs) ''/''"
proof -
  obtain bs w where cs: "cs = bs @ [w]" using assms(2) by (metis rev_exhaust)
  with assms(1) obtain v x where w: "w = v @ [x]" "x \<noteq> slash"
    by (cases w rule: rev_cases) (auto simp: proper_def)
  then have "path_of cs = slash # (if bs = [] then [] else StrJoin bs ''/'' @ ''/'') @ v @ [x]"
    by (simp add: path_of_def cs StrJoin_append)
  then show ?thesis using w(2) by (auto simp: HasSuffix_def suffix_def)
qed

lemma PathAddSeparatorSuffix_path_of:
  "list_all proper cs \<Longrightarrow>
   PathAddSeparatorSuffix (path_of cs) = (if cs = [] then ''/'' else path_of cs @ ''/'')"
  using StrJoin_no_trailing_slash [of cs]
  by (auto simp: PathAddSeparatorSuffix_def HasSuffix_def)

text \<open>
  Sub-path test: \<^verbatim>\<open>IsSubPath(path, sub)\<close> holds exactly when the components of the
  normalised \<open>path\<close> are an initial part of those of the normalised \<open>sub\<close>; the root
  directory is an ancestor of everything, and a sibling with a common name prefix is not a
  sub-path.
\<close>

theorem IsSubPath_iff_prefix:
  "IsSubPath path sub \<longleftrightarrow> prefix (segs (FixAndCleanPath path)) (segs (FixAndCleanPath sub))"
proof -
  let ?c = "segs (FixAndCleanPath path)" and ?d = "segs (FixAndCleanPath sub)"
  have eq: "IsSubPath path sub \<longleftrightarrow>
      path_of ?c = path_of ?d \<or> HasPrefix (path_of ?d) (PathAddSeparatorSuffix (path_of ?c))"
    by (simp add: IsSubPath_def Let_def FixAndCleanPath_path_of [symmetric])
  show ?thesis
  proof (cases "?c = []")
    case True
    then show ?thesis
      by (simp add: eq PathAddSeparatorSuffix_def HasSuffix_def)
  next
    case False
    then show ?thesis
      using HasPrefix_path_of [OF segs_proper segs_proper, of "FixAndCleanPath path" "FixAndCleanPath sub"]
      by (auto simp: eq PathAddSeparatorSuffix_path_of segs_proper path_of_inj strict_prefix_def)
  qed
qed

lemma segs_JoinBasePath:
  assumes "JoinBasePath base req = Inr r"
  shows "segs r = segs (FixAndCleanPath base) @ segs (FixAndCleanPath req)"
proof -
  let ?b = "FixAndCleanPath base" and ?q = "FixAndCleanPath req"
  have "r = Join [?b, ?q]" using assms by (auto simp: JoinBasePath_def split: if_splits)
  moreover have "comps ?q = segs ?q"
    using comps_path_of [OF segs_proper, of ?q] FixAndCleanPath_path_of [of req] by simp
  ultimately show ?thesis
    using segs_Join2 [of ?b ?q] segs_proper [of ?q] by (metis FixAndCleanPath_rooted)
qed

text \<open>
  Joining a request path to a base never leaves the base: whenever \<^verbatim>\<open>JoinBasePath\<close> accepts,
  the components of the result are those of the base followed by those of the request path.
\<close>

theorem JoinBasePath_contained:
  assumes "JoinBasePath base req = Inr r"
  shows "segs r = segs (FixAndCleanPath base) @ segs (FixAndCleanPath req)"
  using assms by (rule segs_JoinBasePath)

theorem JoinBasePath_contained_witness:
  "JoinBasePath ''/srv'' ''a/b'' = Inr ''/srv/a/b'' \<and> segs ''/srv/a/b'' = [''srv'', ''a'', ''b'']"
proof -
  have r: "JoinBasePath ''/srv'' ''a/b'' = Inr ''/srv/a/b''"
    "segs (FixAndCleanPath ''/srv'') = [''srv'']" "segs (FixAndCleanPath ''a/b'') = [''a'', ''b'']" by code_simp+
  then show ?thesis using JoinBasePath_contained [OF r(1)] by simp
qed

end
