(* ===== verification/TusStaging.thy ===== *)
theory TusStaging
  imports UploadSweeper PathUtils
begin

text \<open>
  Where a tus upload is staged and whether it is admitted: the choice of the volume
  (\<^verbatim>\<open>tus_staging_root.go\<close>), upload ids that carry the volume (\<^verbatim>\<open>tus_routing_store.go\<close>), the quota and
  metadata checks (\<^verbatim>\<open>tus_file.go\<close>) and the conflict check before an upload (\<^verbatim>\<open>precheck_file.go\<close>).
\<close>

section \<open>Staging root\<close>

record MountEntry =
  me_Mountpoint :: string
  me_FSType :: string

definition localVolumeFSTypes :: "string list" where
  "localVolumeFSTypes = [''ext4'', ''btrfs'', ''xfs'', ''exfat'', ''vfat'', ''ntfs'', ''ntfs3'']"

definition isLocalVolumeFSType :: "string \<Rightarrow> bool" where
  "isLocalVolumeFSType fstype = (fstype \<in> set localVolumeFSTypes \<or> Contains fstype ''mergerfs'')"

definition legacyStagingRoot :: string where "legacyStagingRoot = ''/DATA''"

text \<open>The loop over the mounts; the accumulator is the best match so far.\<close>

fun bestMount :: "string \<Rightarrow> MountEntry list \<Rightarrow> (string \<times> string) option \<Rightarrow> (string \<times> string) option" where
  "bestMount clean [] best = best"
| "bestMount clean (m # ms) best =
     (let mp = Clean (me_Mountpoint m);
          matches = (mp = ''/'' \<or> clean = mp \<or> HasPrefix clean (mp @ ''/''))
      in if \<not> matches then bestMount clean ms best
         else if (case best of None \<Rightarrow> True | Some (bmp, _) \<Rightarrow> length mp > length bmp)
         then bestMount clean ms (Some (mp, me_FSType m))
         else bestMount clean ms best)"

definition resolveStagingRoot :: "string \<Rightarrow> MountEntry list \<Rightarrow> string \<times> bool" where
  "resolveStagingRoot targetPath mounts =
     (case bestMount (Clean targetPath) mounts None of
        None \<Rightarrow> (legacyStagingRoot, True)
      | Some (mp, fst') \<Rightarrow> if isLocalVolumeFSType fst' then (mp, False) else (legacyStagingRoot, True))"

definition stagingDirForRoot :: "string \<Rightarrow> string" where
  "stagingDirForRoot root = Join [root, ''.system_data'', ''file-tus-staging'']"

section \<open>Upload ids\<close>

definition stagingIDSep :: char where "stagingIDSep = CHR ''~''"

definition hexDigit :: "nat \<Rightarrow> char" where
  "hexDigit n = ''0123456789abcdef'' ! n"

definition hexEncode :: "string \<Rightarrow> string" where
  "hexEncode s = concat (map (\<lambda>c. let n = (of_char c :: nat) in [hexDigit (n div 16), hexDigit (n mod 16)]) s)"

definition hexValue :: "char \<Rightarrow> nat option" where
  "hexValue c =
     (let n = (of_char c :: nat) in
      if 48 \<le> n \<and> n \<le> 57 then Some (n - 48)
      else if 97 \<le> n \<and> n \<le> 102 then Some (n - 87)
      else if 65 \<le> n \<and> n \<le> 70 then Some (n - 55) else None)"

fun hexDecode :: "string \<Rightarrow> string option" where
  "hexDecode [] = Some []"
| "hexDecode [c] = None"
| "hexDecode (a # b # s) =
     (case (hexValue a, hexValue b, hexDecode s) of
        (Some x, Some y, Some r) \<Rightarrow> Some (char_of (16 * x + y) # r)
      | _ \<Rightarrow> None)"

definition encodeStagingID :: "string \<Rightarrow> string \<Rightarrow> string" where
  "encodeStagingID root sub = hexEncode root @ [stagingIDSep] @ sub"

definition decodeStagingID :: "string \<Rightarrow> (string \<times> string) option" where
  "decodeStagingID i =
     (case IndexByte i stagingIDSep of None \<Rightarrow> None
      | Some k \<Rightarrow> (case hexDecode (take k i) of None \<Rightarrow> None | Some root \<Rightarrow> Some (root, drop (Suc k) i)))"

section \<open>Routing store\<close>

record routingStore =
  rs_stores :: "(string \<times> string) list"
  rs_legacyRoot :: string
  rs_legacyDir :: string

definition newRoutingStore :: "string \<Rightarrow> routingStore" where
  "newRoutingStore legacyDir = \<lparr>rs_stores = [], rs_legacyRoot = legacyStagingRoot, rs_legacyDir = legacyDir\<rparr>"

definition dirForRoot :: "routingStore \<Rightarrow> string \<Rightarrow> string" where
  "dirForRoot rs root = (if root = rs_legacyRoot rs then rs_legacyDir rs else stagingDirForRoot root)"

text \<open>The directory of the per-volume file store, created on first use.\<close>

definition storeForRoot :: "string \<Rightarrow> routingStore \<Rightarrow> (fserr, string \<times> routingStore) exec" where
  "storeForRoot root rs =
     (case map_of (rs_stores rs) root of Some dir \<Rightarrow> returnM (dir, rs)
      | None \<Rightarrow> (let dir = dirForRoot rs root in
           bindM (osDo (\<lambda>f. fsMkdirAll f (segs dir))) (\<lambda>_.
           returnM (dir, rs\<lparr>rs_stores := (root, dir) # rs_stores rs\<rparr>))))"

text \<open>
  \<^verbatim>\<open>NewUpload\<close> and \<^verbatim>\<open>GetUpload\<close> up to the call of the file store: the directory of the store and the
  upload id it is called with. \<open>sub\<close> is the outcome of the random source; an empty id makes the
  file store choose its own.
\<close>

definition NewUpload :: "MountEntry list \<Rightarrow> string option \<Rightarrow> string \<Rightarrow> string \<Rightarrow> routingStore \<Rightarrow>
    (fserr, (string \<times> string) \<times> routingStore) exec" where
  "NewUpload mounts sub targetPath infoID rs =
     (let root = fst (resolveStagingRoot targetPath mounts) in
      bindM (storeForRoot root rs) (\<lambda>(dir, rs').
      if infoID = [] \<and> root \<noteq> rs_legacyRoot rs
      then (case sub of None \<Rightarrow> throwM EIO | Some x \<Rightarrow> returnM ((dir, encodeStagingID root x), rs'))
      else returnM ((dir, infoID), rs')))"

definition GetUpload_store :: "string \<Rightarrow> routingStore \<Rightarrow> (fserr, (string \<times> string) \<times> routingStore) exec" where
  "GetUpload_store i rs =
     (let root = (case decodeStagingID i of None \<Rightarrow> rs_legacyRoot rs | Some (r, _) \<Rightarrow> r) in
      bindM (storeForRoot root rs) (\<lambda>(dir, rs'). returnM ((dir, i), rs')))"

section \<open>Quota\<close>

text \<open>
  \<^verbatim>\<open>uint64(float64(n) * 1.05)\<close> for a non-negative \<open>n\<close>: rounding to 53 significant bits, ties to
  even, of the integer and of the product with the double nearest to 1.05, which is
  4728779608739021 / 2^52; the final conversion truncates.
\<close>

fun bitlen :: "nat \<Rightarrow> nat" where
  "bitlen n = (if n = 0 then 0 else Suc (bitlen (n div 2)))"

declare bitlen.simps [simp del]

definition fl53 :: "nat \<Rightarrow> nat" where
  "fl53 m =
     (let s = bitlen m - 53 in
      if s = 0 then m
      else (let q = m div 2 ^ s; r = m mod 2 ^ s; h = 2 ^ (s - 1)
            in (if r > h \<or> (r = h \<and> odd q) then q + 1 else q) * 2 ^ s))"

definition quotaNeeded :: "nat \<Rightarrow> nat" where
  "quotaNeeded n = fl53 (fl53 n * 4728779608739021) div 2 ^ 52"

text \<open>\<open>None\<close> for a failing \<^verbatim>\<open>statfs\<close>.\<close>

definition checkFileUploadQuota :: "nat \<Rightarrow> nat option \<Rightarrow> bool" where
  "checkFileUploadQuota uploadLength available =
     (case available of None \<Rightarrow> False | Some avail \<Rightarrow> quotaNeeded uploadLength \<le> avail)"

section \<open>Metadata\<close>

text \<open>The first protected component of a path.\<close>

definition reject :: "nat \<Rightarrow> string \<Rightarrow> (nat \<times> string, unit) result" where
  "reject sc code = Inl (sc, code)"

definition validateFileUploadMetadataWithQuota :: "HookEvent \<Rightarrow> nat option \<Rightarrow> (nat \<times> string, unit) result" where
  "validateFileUploadMetadataWithQuota hook available =
     (let meta = ev_MetaData hook;
          name = TrimSpace (mapGet meta ''filename'');
          targetPath = mapGet meta ''targetPath'';
          relativePath = mapGet meta ''relativePath''
      in if name = [] then reject 400 ''ERR_FILENAME_REQUIRED''
         else if ContainsAny name [slash, CHR 0x5C] \<or> Contains name ''..'' then reject 400 ''ERR_FILENAME_ILLEGAL''
         else if targetPath = [] then reject 400 ''ERR_TARGETPATH_REQUIRED''
         else if fst (containsProtectedName relativePath) then reject 403 ''ERR_PROTECTED_FOLDER''
         else if Contains relativePath ''..'' \<or> HasPrefix relativePath ''/'' then reject 400 ''ERR_PATH_TRAVERSAL''
         else (let final = Clean (Join [targetPath, relativePath]); cleanTarget = Clean targetPath in
           if \<not> HasPrefix final (cleanTarget @ ''/'') \<and> final \<noteq> cleanTarget then reject 400 ''ERR_PATH_ESCAPE''
           else if ev_Size hook \<le> 0 then reject 400 ''ERR_EMPTY_FILE''
           else if \<not> checkFileUploadQuota (nat (ev_Size hook)) available then reject 413 ''ERR_INSUFFICIENT_STORAGE''
           else Inr ()))"

text \<open>\<open>statfs\<close> gives the free bytes of the volume that holds a path.\<close>

definition validateFileUploadMetadataForRoot ::
  "HookEvent \<Rightarrow> MountEntry list \<Rightarrow> (string \<Rightarrow> nat option) \<Rightarrow> (nat \<times> string, unit) result" where
  "validateFileUploadMetadataForRoot hook mounts statfs =
     (let root = fst (resolveStagingRoot (mapGet (ev_MetaData hook) ''targetPath'') mounts)
      in validateFileUploadMetadataWithQuota hook (statfs root))"

section \<open>Precheck\<close>

definition statPrecheck :: "fs \<Rightarrow> string \<Rightarrow> string \<Rightarrow> int \<Rightarrow> bool \<times> bool \<times> bool" where
  "statPrecheck f targetPath relativePath size' =
     (if Contains relativePath ''..'' \<or> HasPrefix relativePath ''/'' then (False, False, False)
      else if fst (containsProtectedName relativePath) then (False, False, False)
      else (let cleanTarget = Clean targetPath; final = Clean (Join [cleanTarget, relativePath]) in
        if \<not> HasPrefix final (cleanTarget @ ''/'') \<and> final \<noteq> cleanTarget then (False, False, False)
        else (case fsGet f (segs final) of
                None \<Rightarrow> (False, False, False)
              | Some Directory \<Rightarrow> (True, False, True)
              | Some (RegularFile c) \<Rightarrow> (True, int (length c) = size', False))))"

record precheckFileItem =
  pf_RelativePath :: string
  pf_Size :: int

record precheckResultItem =
  pr_RelativePath :: string
  pr_Exists :: bool
  pr_SizeMatch :: bool
  pr_IsDir :: bool

text \<open>The body is \<open>None\<close> when it cannot be bound; errors are HTTP status codes.\<close>

definition FileUploadPrecheck ::
  "fs \<Rightarrow> (string \<times> precheckFileItem list) option \<Rightarrow> (nat, precheckResultItem list) result" where
  "FileUploadPrecheck f body =
     (case body of None \<Rightarrow> Inl 400
      | Some (targetPath, files) \<Rightarrow>
          if targetPath = [] then Inl 400
          else Inr (map (\<lambda>x. case statPrecheck f targetPath (pf_RelativePath x) (pf_Size x) of
             (e, m, d) \<Rightarrow> \<lparr>pr_RelativePath = pf_RelativePath x, pr_Exists = e, pr_SizeMatch = m, pr_IsDir = d\<rparr>) files))"

section \<open>Ids carry their volume\<close>

lemma hexValue_hexDigit: "n < 16 \<Longrightarrow> hexValue (hexDigit n) = Some n"
proof -
  assume "n < 16"
  moreover have "list_all (\<lambda>n. hexValue (hexDigit n) = Some n) [0..<16]" by code_simp
  ultimately show ?thesis by (simp add: list_all_iff del: upt_conv_Cons_Cons)
qed

lemma hexDigit_not_sep: "n < 16 \<Longrightarrow> hexDigit n \<noteq> stagingIDSep"
proof
  assume "n < 16" and "hexDigit n = stagingIDSep"
  then have "hexValue stagingIDSep = Some n" using hexValue_hexDigit by metis
  then show False by (simp add: stagingIDSep_def hexValue_def)
qed

lemma of_char_256: "(of_char c :: nat) < 256"
  using range_nat_of_char by (metis atLeastLessThan_iff rangeI)

lemma nibbles: "(of_char c :: nat) div 16 < 16" "(of_char c :: nat) mod 16 < 16"
  using of_char_256 [of c] by (simp_all add: less_mult_imp_div_less)

lemma hexEncode_Cons: "hexEncode (c # s) = hexDigit (of_char c div 16) # hexDigit (of_char c mod 16) # hexEncode s"
  by (simp add: hexEncode_def Let_def)

lemma hexDecode_hexEncode: "hexDecode (hexEncode s) = Some s"
proof (induction s)
  case Nil
  then show ?case by (simp add: hexEncode_def)
next
  case (Cons c s)
  then show ?case using nibbles [of c] by (simp add: hexEncode_Cons hexValue_hexDigit)
qed

lemma hexEncode_no_sep: "stagingIDSep \<notin> set (hexEncode s)"
proof (induction s)
  case (Cons c s)
  then show ?case
    using hexDigit_not_sep [OF nibbles(1) [of c]] hexDigit_not_sep [OF nibbles(2) [of c]]
    by (auto simp: hexEncode_Cons)
qed (simp add: hexEncode_def)

lemma decode_encode: "decodeStagingID (encodeStagingID root sub) = Some (root, sub)"
proof -
  have "IndexByte (encodeStagingID root sub) stagingIDSep = Some (length (hexEncode root))"
    by (simp add: encodeStagingID_def IndexByte_first hexEncode_no_sep)
  then show ?thesis
    by (simp add: decodeStagingID_def hexDecode_hexEncode) (simp add: encodeStagingID_def hexDecode_hexEncode)
qed

definition routingOK :: "routingStore \<Rightarrow> bool" where
  "routingOK rs \<longleftrightarrow> list_all (\<lambda>e. snd e = dirForRoot rs (fst e)) (rs_stores rs)"

lemma storeForRoot_Inr:
  assumes "routingOK rs" and "storeForRoot root rs s = (Inr (dir, rs'), s')"
  shows "dir = dirForRoot rs root \<and> routingOK rs' \<and> rs_legacyRoot rs' = rs_legacyRoot rs \<and> rs_legacyDir rs' = rs_legacyDir rs"
proof (cases "map_of (rs_stores rs) root")
  case None
  then have rs': "dir = dirForRoot rs root" "rs' = rs\<lparr>rs_stores := (root, dir) # rs_stores rs\<rparr>"
    using assms(2) by (auto simp: storeForRoot_def Let_def elim!: bindM_Inr)
  then have "dirForRoot rs' = dirForRoot rs" by (auto simp: dirForRoot_def)
  then show ?thesis using assms(1) rs' by (simp add: routingOK_def)
next
  case (Some d)
  then have "(root, d) \<in> set (rs_stores rs)" by (rule map_of_SomeD)
  then show ?thesis using assms Some by (auto simp: storeForRoot_def routingOK_def list_all_iff)
qed

text \<open>
  C28. An upload id leads back to its staging directory without any stored state: whatever
  routing store looks the id up, also one freshly built after a restart, selects the same
  directory that the upload was created in; plain ids of the legacy root keep the legacy directory.
\<close>

theorem routing_roundtrip:
  assumes "routingOK rs" and "routingOK rs2"
    and "rs_legacyRoot rs2 = rs_legacyRoot rs" and "rs_legacyDir rs2 = rs_legacyDir rs"
    and "NewUpload mounts sub target [] rs s = (Inr ((dir, i), rs'), s')"
    and "i' = i \<or> (i = [] \<and> stagingIDSep \<notin> set i')"
    and "GetUpload_store i' rs2 s2 = (Inr ((dir2, j), rs2'), s2')"
  shows "dir2 = dir \<and> j = i' \<and> routingOK rs' \<and> routingOK rs2'"
proof -
  let ?root = "fst (resolveStagingRoot target mounts)"
  have dirs: "dirForRoot rs2 r = dirForRoot rs r" for r using assms(3,4) by (simp add: dirForRoot_def)
  from assms(5) obtain s1 where st: "storeForRoot ?root rs s = (Inr (dir, rs'), s1)"
    and i: "i = (if ?root \<noteq> rs_legacyRoot rs then encodeStagingID ?root (the sub) else [])"
    unfolding NewUpload_def Let_def
    by (auto elim!: bindM_Inr split: if_splits option.splits simp: throwM_def)
  have dec: "decodeStagingID i' = (if ?root \<noteq> rs_legacyRoot rs then Some (?root, the sub) else None)"
  proof (cases "?root = rs_legacyRoot rs")
    case True
    then have "stagingIDSep \<notin> set i'" using assms(6) i by auto
    then show ?thesis using True by (simp add: decodeStagingID_def IndexByte_none)
  next
    case False
    then have "i' = encodeStagingID ?root (the sub)" using assms(6) i by (auto simp: encodeStagingID_def)
    then show ?thesis using False by (simp add: decode_encode)
  qed
  have "(case decodeStagingID i' of None \<Rightarrow> rs_legacyRoot rs2 | Some (r, _) \<Rightarrow> r) = ?root"
    using dec assms(3) by auto
  then obtain s3 where "storeForRoot ?root rs2 s2 = (Inr (dir2, rs2'), s3)" "j = i'"
    using assms(7) unfolding GetUpload_store_def Let_def by (auto elim!: bindM_Inr)
  with storeForRoot_Inr [OF assms(1) st] storeForRoot_Inr [OF assms(2), of ?root s2 dir2 rs2' s3] dirs
  show ?thesis by simp
qed

definition raidMounts :: "MountEntry list" where
  "raidMounts = [\<lparr>me_Mountpoint = ''/'', me_FSType = ''overlay''\<rparr>, \<lparr>me_Mountpoint = ''/media/R'', me_FSType = ''ext4''\<rparr>]"

theorem routing_roundtrip_witness:
  "fst (fst (projr (fst (GetUpload_store (encodeStagingID ''/media/R'' ''ab'') (newRoutingStore ''/D/st'') badgeDB)))) =
   ''/media/R/.system_data/file-tus-staging''"
proof -
  let ?rs = "newRoutingStore ''/D/st''"
  let ?n = "NewUpload raidMounts (Some ''ab'') ''/media/R/x'' [] ?rs badgeDB"
  let ?g = "GetUpload_store (encodeStagingID ''/media/R'' ''ab'') ?rs badgeDB"
  have ok: "routingOK ?rs" by code_simp
  have r: "\<not> isl (fst ?n)" "\<not> isl (fst ?g)" "fst (projr (fst ?n)) = (''/media/R/.system_data/file-tus-staging'', encodeStagingID ''/media/R'' ''ab'')"
    by code_simp+
  then obtain rs1 s1 where n: "?n = (Inr ((''/media/R/.system_data/file-tus-staging'', encodeStagingID ''/media/R'' ''ab''), rs1), s1)"
    by (metis isl_def prod.collapse sum.collapse(2))
  from r(2) obtain d j rs2 s2 where g: "?g = (Inr ((d, j), rs2), s2)" by (metis isl_def prod.collapse sum.collapse(2))
  from routing_roundtrip [OF ok ok refl refl n disjI1 [OF refl] g] g show ?thesis by simp
qed

section \<open>Choice of the volume\<close>

lemma bestMount_spec:
  assumes "\<And>mp ft. best = Some (mp, ft) \<Longrightarrow> G mp"
    and "\<And>m. m \<in> set ms \<Longrightarrow> Clean (me_Mountpoint m) = ''/'' \<or> atOrUnder (Clean (me_Mountpoint m)) clean \<Longrightarrow>
           G (Clean (me_Mountpoint m))"
    and "bestMount clean ms best = Some (mp, ft)"
  shows "G mp \<and> (best = Some (mp, ft) \<or> (\<exists>m \<in> set ms. mp = Clean (me_Mountpoint m) \<and> ft = me_FSType m)) \<and>
    (\<forall>m \<in> set ms. (Clean (me_Mountpoint m) = ''/'' \<or> atOrUnder (Clean (me_Mountpoint m)) clean) \<longrightarrow>
       length (Clean (me_Mountpoint m)) \<le> length mp) \<and>
    (\<forall>bmp bft. best = Some (bmp, bft) \<longrightarrow> length bmp \<le> length mp)"
  using assms
proof (induction ms arbitrary: best)
  case Nil
  then show ?case by auto
next
  case (Cons m ms)
  let ?mp = "Clean (me_Mountpoint m)"
  let ?hit = "?mp = ''/'' \<or> atOrUnder ?mp clean"
  define best' where "best' = (if ?hit \<and> (case best of None \<Rightarrow> True | Some (bmp, _) \<Rightarrow> length ?mp > length bmp)
      then Some (?mp, me_FSType m) else best)"
  have run: "bestMount clean ms best' = Some (mp, ft)"
    using Cons.prems(3) unfolding best'_def by (auto simp: Let_def atOrUnder_def split: if_splits)
  have G': "\<And>a b. best' = Some (a, b) \<Longrightarrow> G a"
    using Cons.prems(1,2) by (auto simp: best'_def split: if_splits)
  have ih: "G mp \<and> (best' = Some (mp, ft) \<or> (\<exists>m \<in> set ms. mp = Clean (me_Mountpoint m) \<and> ft = me_FSType m)) \<and>
    (\<forall>m \<in> set ms. (Clean (me_Mountpoint m) = ''/'' \<or> atOrUnder (Clean (me_Mountpoint m)) clean) \<longrightarrow>
       length (Clean (me_Mountpoint m)) \<le> length mp) \<and>
    (\<forall>bmp bft. best' = Some (bmp, bft) \<longrightarrow> length bmp \<le> length mp)"
    using Cons.IH [OF G' _ run] Cons.prems(2) by simp
  have len: "?hit \<longrightarrow> length ?mp \<le> length mp" "\<forall>bmp bft. best = Some (bmp, bft) \<longrightarrow> length bmp \<le> length mp"
    using ih by (auto simp: best'_def Suc_le_eq split: if_splits option.splits)
  have "best' = best \<or> best' = Some (?mp, me_FSType m)" by (auto simp: best'_def)
  then show ?case using ih len by auto
qed

lemma length_path_of_prefix:
  assumes "prefix xs ys" and "list_all proper ys"
  shows "length (path_of xs) \<le> length (path_of ys)"
proof (cases "xs = []")
  case True
  then show ?thesis by (simp add: path_of_def)
next
  case False
  from assms(1) obtain zs where "ys = xs @ zs" by (auto simp: prefix_def)
  then show ?thesis using False by (cases "zs = []") (simp_all add: path_of_append)
qed

lemma length_path_of_strict:
  assumes "strict_prefix xs ys" and "list_all proper ys"
  shows "length (path_of xs) < length (path_of ys)"
proof -
  from assms(1) obtain z zs where ys: "ys = xs @ z # zs" 
    by (metis strict_prefix_def prefix_def neq_Nil_conv append_Nil2)
  have "proper z" using assms(2) ys by simp
  then have z: "length z > 0" by (simp add: proper_def)
  then have "length (path_of (z # zs)) > 1" by (cases zs) (auto simp: path_of_def)
  then show ?thesis unfolding ys by (cases "xs = []") (auto simp: path_of_append)
qed

text \<open>
  When the upload is staged on its own volume, that volume is a mount of a local file system
  that holds the target, and no deeper mount holds the target.
\<close>

theorem resolveStagingRoot_deepest:
  assumes "rooted target" and "list_all (\<lambda>m. rooted (me_Mountpoint m)) mounts"
    and "resolveStagingRoot target mounts = (root, False)"
  shows "(\<exists>m \<in> set mounts. root = Clean (me_Mountpoint m) \<and> isLocalVolumeFSType (me_FSType m)) \<and>
    prefix (segs root) (segs target) \<and>
    (\<forall>m \<in> set mounts. prefix (segs (me_Mountpoint m)) (segs target) \<longrightarrow>
       prefix (segs (me_Mountpoint m)) (segs root))"
proof -
  from assms(3) obtain ft where b: "bestMount (Clean target) mounts None = Some (root, ft)"
    and loc: "isLocalVolumeFSType ft"
    by (auto simp: resolveStagingRoot_def split: option.splits if_splits)
  have hit: "(Clean (me_Mountpoint m) = ''/'' \<or> atOrUnder (Clean (me_Mountpoint m)) (Clean target)) \<longleftrightarrow>
      prefix (segs (me_Mountpoint m)) (segs target)" if "m \<in> set mounts" for m
  proof -
    have r: "rooted (me_Mountpoint m)" using assms(2) that by (simp add: list_all_iff)
    have "Clean (me_Mountpoint m) = ''/'' \<longleftrightarrow> segs (me_Mountpoint m) = []"
      using path_of_inj [OF segs_proper, of "[]" "me_Mountpoint m"] by (simp add: Clean_rooted [OF r])
    then show ?thesis using atOrUnder_Clean [OF r assms(1)] by (cases "segs (me_Mountpoint m) = []") auto
  qed
  define G where "G p \<longleftrightarrow> (rooted p \<and> Clean p = p \<and> prefix (segs p) (segs target))" for p
  have clean: "rooted (Clean (me_Mountpoint m)) \<and> Clean (Clean (me_Mountpoint m)) = Clean (me_Mountpoint m) \<and>
      segs (Clean (me_Mountpoint m)) = segs (me_Mountpoint m)" if "m \<in> set mounts" for m
    using assms(2) that by (simp add: list_all_iff Clean_idem)
  have "G (Clean (me_Mountpoint m))" if "m \<in> set mounts"
    "Clean (me_Mountpoint m) = ''/'' \<or> atOrUnder (Clean (me_Mountpoint m)) (Clean target)" for m
    using hit clean that by (simp add: G_def)
  note sp = bestMount_spec [where G = G and best = None, OF _ this b]
  from sp have root: "rooted root" "Clean root = root" "prefix (segs root) (segs target)" unfolding G_def by blast+
  have "prefix (segs (me_Mountpoint m)) (segs root)"
    if m: "m \<in> set mounts" "prefix (segs (me_Mountpoint m)) (segs target)" for m
  proof -
    have len: "length (Clean (me_Mountpoint m)) \<le> length root" using sp m hit [OF m(1)] by blast
    have r: "rooted (me_Mountpoint m)" using assms(2) m by (simp add: list_all_iff)
    from m(2) root(3) consider "prefix (segs (me_Mountpoint m)) (segs root)"
      | "strict_prefix (segs root) (segs (me_Mountpoint m))"
      using prefix_same_cases by (metis strict_prefix_def)
    then show ?thesis
    proof cases
      case 2
      have "length (path_of (segs root)) < length (path_of (segs (me_Mountpoint m)))"
        by (rule length_path_of_strict [OF 2 segs_proper])
      then show ?thesis using len Clean_rooted [OF r] Clean_rooted [OF root(1)] root(2) by simp
    qed
  qed
  moreover have "\<exists>m \<in> set mounts. root = Clean (me_Mountpoint m) \<and> isLocalVolumeFSType (me_FSType m)"
    using sp loc by auto
  ultimately show ?thesis using root(3) by blast
qed

theorem resolveStagingRoot_deepest_witness:
  "resolveStagingRoot ''/media/R/x'' raidMounts = (''/media/R'', False) \<and>
   prefix (segs ''/media/R'') (segs ''/media/R/x'')"
proof -
  have "resolveStagingRoot ''/media/R/x'' raidMounts = (''/media/R'', False)" "rooted ''/media/R/x''"
    "list_all (\<lambda>m. rooted (me_Mountpoint m)) raidMounts" by code_simp+
  then show ?thesis using resolveStagingRoot_deepest by blast
qed

section \<open>Admission\<close>

lemma bitlen_lower: "m > 0 \<Longrightarrow> 2 ^ (bitlen m - 1) \<le> m"
proof (induction m rule: bitlen.induct)
  case (1 n)
  show ?case
  proof (cases "n div 2 = 0")
    case True
    then have "n = 1" using 1(2) by auto
    then show ?thesis by (simp add: bitlen.simps)
  next
    case False
    then have ih: "2 ^ (bitlen (n div 2) - 1) \<le> n div 2" using 1 by simp
    have b: "bitlen (n div 2) > 0" using False by (subst bitlen.simps) simp
    have "bitlen n - 1 = Suc (bitlen (n div 2) - 1)" using 1(2) b by (subst bitlen.simps) simp
    then show ?thesis using ih by simp
  qed
qed

text \<open>Rounding loses at most one part in 2^53.\<close>

lemma fl53_lower: "\<exists>e. m \<le> fl53 m + e \<and> e * 2 ^ 53 \<le> m"
proof (cases "bitlen m - 53 = 0")
  case True
  then show ?thesis by (intro exI [of _ 0]) (simp add: fl53_def)
next
  case False
  define s where "s = bitlen m - 53"
  define q where "q = m div 2 ^ s"
  define r where "r = m mod 2 ^ s"
  have s: "s > 0" "bitlen m - 1 = 52 + s" using False by (auto simp: s_def)
  have "bitlen 0 = 0" by (subst bitlen.simps) simp
  then have "m > 0" using False by (cases "m = 0") simp_all
  from bitlen_lower [OF this] have big: "2 ^ (52 + s) \<le> m" unfolding s(2) .
  have m: "m = q * 2 ^ s + r" unfolding q_def r_def by (rule div_mult_mod_eq [symmetric])
  have fl: "fl53 m = (if r > 2 ^ (s - 1) \<or> (r = 2 ^ (s - 1) \<and> odd q) then q + 1 else q) * 2 ^ s"
    using False by (simp add: fl53_def Let_def s_def q_def r_def)
  show ?thesis
  proof (cases "r > 2 ^ (s - 1) \<or> (r = 2 ^ (s - 1) \<and> odd q)")
    case True
    have "r < 2 ^ s" by (simp add: r_def)
    then have "m \<le> (q + 1) * 2 ^ s" using m by simp
    also have "\<dots> = fl53 m" unfolding fl by (simp only: True if_True)
    finally show ?thesis by (intro exI [of _ 0]) simp
  next
    case False
    then have r: "r \<le> 2 ^ (s - 1)" by auto
    have e: "fl53 m = q * 2 ^ s" unfolding fl by (simp only: False if_False)
    have "r * 2 ^ 53 \<le> 2 ^ (s - 1) * 2 ^ 53" using r by (rule mult_le_mono1)
    also have "\<dots> = 2 ^ (s - 1 + 53)" by (rule power_add [symmetric])
    also have "s - 1 + 53 = 52 + s" using s(1) by simp
    also note big
    finally have "r * 2 ^ 53 \<le> m" .
    moreover have "m \<le> fl53 m + r" unfolding e using m by simp
    ultimately show ?thesis by blast
  qed
qed

lemma scaled_lower:
  assumes "n \<le> a + e" and "e * K \<le> n" and "a * C \<le> X + d" and "d * K \<le> a * C"
    and "M * K * K \<le> C * (K - 1) * (K - 1)" and "K > (1::nat)"
  shows "n * M \<le> X"
proof -
  have 1: "n * (K - 1) \<le> a * K"
  proof -
    have "n * K \<le> a * K + e * K" using mult_le_mono1 [OF assms(1), of K] by (simp add: add_mult_distrib)
    then show ?thesis using assms(2) by (simp add: diff_mult_distrib2)
  qed
  have 2: "a * C * (K - 1) \<le> X * K"
  proof -
    have "a * C * K \<le> X * K + d * K" using mult_le_mono1 [OF assms(3), of K] by (simp add: add_mult_distrib)
    then show ?thesis using assms(4) by (simp add: diff_mult_distrib2)
  qed
  have "n * M * (K * K) \<le> n * (C * (K - 1) * (K - 1))"
    using mult_le_mono2 [OF assms(5), of n] by (simp add: mult.assoc)
  also have "\<dots> = n * (K - 1) * (C * (K - 1))" by (simp add: mult_ac)
  also have "\<dots> \<le> a * K * (C * (K - 1))" using 1 by (rule mult_le_mono1)
  also have "\<dots> = a * C * (K - 1) * K" by (simp add: mult_ac)
  also have "\<dots> \<le> X * K * K" using 2 by (rule mult_le_mono1)
  finally have "n * M * (K * K) \<le> X * (K * K)" by (simp add: mult.assoc)
  then show ?thesis using assms(6) by simp
qed

lemma quotaNeeded_ge: "n \<le> quotaNeeded n"
proof -
  define C where "C = (4728779608739021 :: nat)"
  obtain e where e: "n \<le> fl53 n + e" "e * 2 ^ 53 \<le> n" using fl53_lower by blast
  obtain d where d: "fl53 n * C \<le> fl53 (fl53 n * C) + d" "d * 2 ^ 53 \<le> fl53 n * C" using fl53_lower by blast
  have "(2 ^ 52 :: nat) * 2 ^ 53 * 2 ^ 53 \<le> C * (2 ^ 53 - 1) * (2 ^ 53 - 1)" unfolding C_def by simp
  from scaled_lower [OF e d this] have "n * 2 ^ 52 \<le> fl53 (fl53 n * C)" by simp
  then show ?thesis unfolding quotaNeeded_def C_def [symmetric] by (subst less_eq_div_iff_mult_less_eq) simp_all
qed

text \<open>
  C30. The quota check rounds in floating point and still never admits an upload that does not
  fit: passing it means that the free space is at least the upload's length.
\<close>

theorem quota_sound:
  assumes "checkFileUploadQuota n available"
  shows "\<exists>avail. available = Some avail \<and> n \<le> avail"
  using assms quotaNeeded_ge [of n] by (auto simp: checkFileUploadQuota_def split: option.splits)

theorem quota_sound_witness:
  "checkFileUploadQuota 100 (Some 105) \<and> (\<exists>avail. Some (105 :: nat) = Some avail \<and> 100 \<le> avail)"
proof -
  have "checkFileUploadQuota 100 (Some 105)"
    by (simp add: checkFileUploadQuota_def quotaNeeded_def fl53_def bitlen.simps Let_def)
  then show ?thesis using quota_sound by blast
qed

text \<open>What a client may choose, as the later ingestion reads it.\<close>

definition uploadRel :: "HookEvent \<Rightarrow> string" where
  "uploadRel ev = (let rel = mapGet (ev_MetaData ev) ''relativePath'' in
     if rel = [] then mapGet (ev_MetaData ev) ''filename'' else rel)"

lemma TrimSpace_split: "\<exists>a b. s = a @ TrimSpace s @ b \<and> list_all isSpace a \<and> list_all isSpace b"
proof -
  let ?d = "dropWhile isSpace s"
  have "s = takeWhile isSpace s @ ?d" by simp
  moreover have "?d = rev (dropWhile isSpace (rev ?d)) @ rev (takeWhile isSpace (rev ?d))"
    by (metis rev_append rev_rev_ident takeWhile_dropWhile_id)
  ultimately have "s = takeWhile isSpace s @ TrimSpace s @ rev (takeWhile isSpace (rev ?d))"
    by (simp add: TrimSpace_def)
  moreover have "list_all isSpace (takeWhile isSpace s)" "list_all isSpace (rev (takeWhile isSpace (rev ?d)))"
    by (auto simp: list_all_iff dest: set_takeWhileD)
  ultimately show ?thesis by blast
qed

lemma isSpace_not: "isSpace c \<Longrightarrow> c \<noteq> slash \<and> c \<noteq> CHR ''.''"
  by (auto simp: isSpace_def)

lemma TrimSpace_slash:
  assumes "slash \<notin> set (TrimSpace s)"
  shows "slash \<notin> set s"
proof -
  obtain a b where ab: "s = a @ TrimSpace s @ b" "list_all isSpace a" "list_all isSpace b"
    using TrimSpace_split by blast
  have "slash \<notin> set a" "slash \<notin> set b" using ab(2,3) isSpace_not by (auto simp: list_all_iff)
  then show ?thesis using assms ab(1) by (metis Un_iff set_append)
qed

lemma TrimSpace_dotdot:
  assumes "\<not> Contains (TrimSpace s) ''..''" and "TrimSpace s \<noteq> []"
  shows "s \<noteq> ''..''"
  using assms by (auto simp: TrimSpace_def isSpace_def)

lemma validate_path:
  assumes "validateFileUploadMetadataWithQuota ev available = Inr ()"
    and "rooted (mapGet (ev_MetaData ev) ''targetPath'')"
  shows "list_all proper (comps (uploadRel ev))"
proof (cases "mapGet (ev_MetaData ev) ''relativePath'' = []")
  case False
  then show ?thesis using assms
    by (auto simp: validateFileUploadMetadataWithQuota_def Let_def reject_def uploadRel_def no_dotdot_comps
        split: if_splits)
next
  case True
  let ?n = "mapGet (ev_MetaData ev) ''filename''"
  have n: "TrimSpace ?n \<noteq> []" "slash \<notin> set (TrimSpace ?n)" "\<not> Contains (TrimSpace ?n) ''..''"
    using assms(1)
    by (auto simp: validateFileUploadMetadataWithQuota_def Let_def reject_def ContainsAny_def list_ex_iff
        split: if_splits)
  have "Split slash ?n = [?n]" using TrimSpace_slash [OF n(2)] by (rule Split_id)
  then have "''..'' \<notin> set (comps ?n)" using TrimSpace_dotdot [OF n(3,1)] by (simp add: comps_def)
  then show ?thesis using True by (simp add: uploadRel_def comps_proper_iff)
qed


definition demoEvent :: HookEvent where
  "demoEvent = \<lparr>ev_ID = ''t1'', ev_Size = 100, ev_Offset = 0,
     ev_MetaData = [''filename'' \<mapsto> ''a.txt'', ''targetPath'' \<mapsto> ''/DATA/x'', ''relativePath'' \<mapsto> ''d/a.txt''],
     ev_Storage = Map.empty, ev_Header = [''user_id'' \<mapsto> ''1''], ev_RemoteAddr = ''10.0.0.2:1''\<rparr>"


end
