(* ===== verification/TusIngest.thy ===== *)
theory TusIngest
  imports TusStaging
begin

text \<open>
  Completion of a tus upload (\<^verbatim>\<open>tus_file.go\<close>): the choice of a free name, the move of the staged file
  under a conflict policy with its copy fallback, the purge of a thumbnail cache entry
  (\<^verbatim>\<open>thumbnail_cache.go\<close>), and the four event loops that write task and batch rows.
  The parameter \<open>thumbKey\<close> stands for the SHA-256 digest that names a cache entry.
\<close>

section \<open>Definitions\<close>

definition ThumbCacheDir :: string where "ThumbCacheDir = ''/DATA/.system_data/thumb-cache''"

definition thumbCachePath :: "string \<Rightarrow> string" where
  "thumbCachePath key = Join [ThumbCacheDir, key @ ''.jpg'']"

definition thumbNegativePath :: "string \<Rightarrow> string" where
  "thumbNegativePath key = Join [ThumbCacheDir, key @ ''.neg'']"

definition PurgeThumbCacheEntry :: "(fs \<Rightarrow> string \<Rightarrow> string) \<Rightarrow> string \<Rightarrow> ('e, unit) exec" where
  "PurgeThumbCacheEntry thumbKey path s =
     (if \<not> isFile (fsGet (db_fs s) (segs path)) then (Inr (), s)
      else (let key = thumbKey (db_fs s) path in
            bindM (osRemove (thumbCachePath key)) (\<lambda>_. osRemove (thumbNegativePath key)) s))"

partial_function (option) uniqueFrom :: "fs \<Rightarrow> string \<Rightarrow> string \<Rightarrow> string \<Rightarrow> nat \<Rightarrow> string option" where
  "uniqueFrom f dir stem ext i =
     (let cand = Join [dir, stem @ ''('' @ Itoa i @ '')'' @ ext] in
      if notExist f (segs cand) then Some cand else uniqueFrom f dir stem ext (Suc i))"

declare uniqueFrom.simps [code]

definition uniqueDestPath :: "fs \<Rightarrow> string \<Rightarrow> string option" where
  "uniqueDestPath f dest =
     (if notExist f (segs dest) then Some dest
      else (let dir = Dir dest; base = Base dest; ext = Ext base; stem = TrimSuffix base ext
            in uniqueFrom f dir stem ext 1))"

text \<open>
  Copy with its clean-up: the data lands in two calls, creation of the empty file and the write;
  a failing write removes what was created.
\<close>

definition copyFileV2 :: "string \<Rightarrow> string \<Rightarrow> (fserr, unit) exec" where
  "copyFileV2 src dst =
     bindM (osGet (\<lambda>f. fsRead f (segs src))) (\<lambda>content.
     bindM (osDo (\<lambda>f. fsCreate f (segs dst) [])) (\<lambda>_.
     bindM (tryM (osDo (\<lambda>f. fsCreate f (segs dst) content))) (\<lambda>r.
     case r of Inr _ \<Rightarrow> returnM () | Inl e \<Rightarrow> bindM (osRemove dst) (\<lambda>_. throwM e))))"

text \<open>The destination under a policy: \<open>Inl\<close> for the skipped upload. \<^verbatim>\<open>os.Stat\<close> itself does not fail here.\<close>

definition chooseDest :: "fs \<Rightarrow> string \<Rightarrow> string \<Rightarrow> (unit, string) result option" where
  "chooseDest f policy dest =
     (let exists = (fsGet f (segs dest) \<noteq> None) in
      if policy = ''skip'' \<and> exists then Some (Inl ())
      else if policy = ''skip'' \<or> policy = ''overwrite'' \<or> \<not> exists then Some (Inr dest)
      else map_option Inr (uniqueDestPath f dest))"

definition placeStaged :: "(fs \<Rightarrow> string \<Rightarrow> string) \<Rightarrow> string \<Rightarrow> string \<Rightarrow> (fserr, string \<times> bool) exec" where
  "placeStaged thumbKey stagedPath dest =
     bindM (PurgeThumbCacheEntry thumbKey dest) (\<lambda>_.
     bindM (tryM (osDo (\<lambda>f. fsRename f (segs stagedPath) (segs dest)))) (\<lambda>r.
     bindM (case r of Inr _ \<Rightarrow> returnM ()
            | Inl _ \<Rightarrow> bindM (copyFileV2 stagedPath dest) (\<lambda>_. osRemove stagedPath)) (\<lambda>_.
     bindM (osRemove (stagedPath @ ''.info'')) (\<lambda>_. returnM (dest, False)))))"

definition ingestToTargetWithPolicy ::
  "(fs \<Rightarrow> string \<Rightarrow> string) \<Rightarrow> string \<Rightarrow> string \<Rightarrow> string \<Rightarrow> string \<Rightarrow> (fserr, string \<times> bool) exec" where
  "ingestToTargetWithPolicy thumbKey stagedPath targetPath relativePath policy =
     (let dest = Join [targetPath, relativePath] in
      bindM (osDo (\<lambda>f. fsMkdirAll f (segs (Dir dest)))) (\<lambda>_ s.
        case chooseDest (db_fs s) policy dest of
          None \<Rightarrow> (Inl EIO, s)
        | Some (Inl _) \<Rightarrow> bindM (osRemove stagedPath) (\<lambda>_. bindM (osRemove (stagedPath @ ''.info'')) (\<lambda>_.
            returnM (dest, True))) s
        | Some (Inr d) \<Rightarrow> placeStaged thumbKey stagedPath d s))"

definition ingestToTarget ::
  "(fs \<Rightarrow> string \<Rightarrow> string) \<Rightarrow> string \<Rightarrow> string \<Rightarrow> string \<Rightarrow> bool \<Rightarrow> (fserr, string) exec" where
  "ingestToTarget thumbKey stagedPath targetPath relativePath resumed =
     bindM (ingestToTargetWithPolicy thumbKey stagedPath targetPath relativePath
              (if resumed then ''overwrite'' else ''rename'')) (\<lambda>r. returnM (fst r))"

section \<open>Event loops\<close>

text \<open>The body of each loop; errors that are only logged or dropped are ignored.\<close>

definition onCreated ::
  "UploadStatuses \<Rightarrow> ((string \<times> string) list \<Rightarrow> string) \<Rightarrow> HookEvent \<Rightarrow> ('e, unit) exec" where
  "onCreated us marshal ev s = ignoreM (TaskStore_Create (NewTaskFromHook us marshal ev (db_now s))) s"

definition progressAt ::
  "HookEvent \<Rightarrow> TouchThrottle \<times> TouchThrottle \<Rightarrow> int \<Rightarrow> ('e, TouchThrottle \<times> TouchThrottle) exec" where
  "progressAt ev th now =
     (let (okO, offT) = Allow (ev_ID ev) now (fst th);
          bid = mapGet (ev_MetaData ev) ''batch_id'';
          (okP, progT) = (if bid = [] then (False, snd th) else Allow bid now (snd th))
      in bindM (if okO then ignoreM (UpdateOffset (ev_ID ev) (ev_Offset ev) (now + UploadIdleTimeoutSeconds)) else returnM ()) (\<lambda>_.
         bindM (if okP then ignoreM (TouchProgress bid now) else returnM ()) (\<lambda>_.
         returnM (offT, progT))))"

definition onProgress :: "HookEvent \<Rightarrow> TouchThrottle \<times> TouchThrottle \<Rightarrow> ('e, TouchThrottle \<times> TouchThrottle) exec" where
  "onProgress ev th s = progressAt ev th (db_now s) s"

definition onTerminated :: "UploadStatuses \<Rightarrow> HookEvent \<Rightarrow> ('e, unit) exec" where
  "onTerminated us ev s =
     ignoreM (TaskStore_SetStatus (ev_ID ev) (us_Canceled us) (db_now s + UploadCanceledTTLSeconds)) s"

definition FileUploadStagingDir :: string where "FileUploadStagingDir = ''/DATA/.system_data/file-tus-staging''"

definition eventPolicy :: "HookEvent \<Rightarrow> string" where
  "eventPolicy ev =
     (let policy = mapGet (ev_MetaData ev) ''conflictPolicy'' in
      if policy = [] \<and> mapGet (ev_MetaData ev) ''resumed'' = ''1'' then ''overwrite'' else policy)"

text \<open>\<open>showErr\<close> prints an error. The result lists the paths announced as created media.\<close>

definition onComplete ::
  "UploadStatuses \<Rightarrow> (fs \<Rightarrow> string \<Rightarrow> string) \<Rightarrow> (fserr \<Rightarrow> string) \<Rightarrow> HookEvent \<Rightarrow> ('e, string list) exec" where
  "onComplete us thumbKey showErr ev =
     (let stagedPath = (if mapGet (ev_Storage ev) ''Path'' = [] then Join [FileUploadStagingDir, ev_ID ev]
                        else mapGet (ev_Storage ev) ''Path'');
          targetPath = mapGet (ev_MetaData ev) ''targetPath'';
          relativePath = uploadRel ev
      in bindM (tryM (ingestToTargetWithPolicy thumbKey stagedPath targetPath relativePath (eventPolicy ev))) (\<lambda>r s.
           case r of
             Inl e \<Rightarrow> bindM (ignoreM (SetFailed us (ev_ID ev) (showErr e) (db_now s) (db_now s + UploadCanceledTTLSeconds)))
                       (\<lambda>_. returnM []) s
           | Inr (dest, skipped) \<Rightarrow>
               (let now = db_now s; bid = mapGet (ev_MetaData ev) ''batch_id'' in
                bindM (ignoreM (TaskStore_SetStatus (ev_ID ev) (us_Completed us) 0)) (\<lambda>_.
                bindM (if bid = [] then returnM () else ignoreM (MarkItemDone bid relativePath now)) (\<lambda>_.
                bindM (ignoreM (MarkItemDoneAcrossBatches targetPath relativePath now)) (\<lambda>_.
                returnM (if skipped then [] else [dest])))) s)))"

section \<open>A free name is found\<close>

definition candName :: "string \<Rightarrow> string \<Rightarrow> nat \<Rightarrow> string" where
  "candName stem ext i = stem @ ''('' @ Itoa i @ '')'' @ ext"

lemma Itoa_digits: "c \<in> set (Itoa n) \<Longrightarrow> c \<noteq> slash"
proof (induction n rule: Itoa.induct)
  case (1 n)
  have d: "char_of (48 + k :: nat) \<noteq> slash" if "k < 10" for k
  proof
    assume "char_of (48 + k :: nat) = slash"
    then have "(of_char (char_of (48 + k :: nat) :: char) :: nat) = of_char slash" by simp
    with that show False by simp
  qed
  from 1 d [of n] d [of "n mod 10"] show ?case
    by (subst (asm) (2) Itoa.simps) (auto split: if_splits)
qed

lemma candName_proper: "slash \<notin> set stem \<Longrightarrow> slash \<notin> set ext \<Longrightarrow> proper (candName stem ext i)"
proof -
  assume "slash \<notin> set stem" "slash \<notin> set ext"
  then have "slash \<notin> set (candName stem ext i)" by (auto simp: candName_def dest: Itoa_digits)
  moreover have "CHR ''('' \<in> set (candName stem ext i)" by (simp add: candName_def)
  ultimately show ?thesis by (auto simp: proper_def)
qed

lemma candName_inj: "candName stem ext i = candName stem ext j \<Longrightarrow> i = j"
  by (simp add: candName_def Itoa_inj)

lemma Join_dir_name:
  assumes "list_all proper ds" and "proper w"
  shows "segs (Join [path_of ds, w]) = ds @ [w]"
  using segs_Join2 [of "path_of ds" w] assms comps_proper_name [OF assms(2)] by simp

lemma free_candidate:
  assumes wf: "fsWF f" and ds: "list_all proper ds" "fsGet f ds = Some Directory"
    and names: "slash \<notin> set stem" "slash \<notin> set ext"
  shows "\<exists>j \<ge> i. notExist f (segs (Join [path_of ds, candName stem ext j]))"
proof (rule ccontr)
  assume none: "\<not> ?thesis"
  let ?k = "\<lambda>j. ds @ [candName stem ext j]"
  have sg: "segs (Join [path_of ds, candName stem ext j]) = ?k j" for j
    by (rule Join_dir_name [OF ds(1) candName_proper [OF names]])
  have nb: "\<not> blocked f (?k j)" for j
  proof
    assume "blocked f (?k j)"
    then obtain q where q: "strict_prefix q (?k j)" "isFile (fsGet f q)" by (auto simp: blocked_iff)
    then have "prefix q ds" by (auto simp: strict_prefix_def prefix_snoc)
    then have "fsGet f q = Some Directory"
      using wf_ancestor [OF wf, of ds q] ds(2) by (cases "q = ds") (auto simp: strict_prefix_def)
    with q show False by simp
  qed
  have "?k j \<in> fst ` set f" if "j \<ge> i" for j
    using none that nb sg fsGet_key [of "?k j" f] by (auto simp: notExist_def)
  then have "?k ` {i..} \<subseteq> fst ` set f" by auto
  then have "finite (?k ` {i..})" using finite_subset by blast
  moreover have "inj_on ?k {i..}" by (auto intro!: inj_onI dest: candName_inj)
  ultimately have "finite {i..}" using finite_imageD by blast
  then show False by (simp add: infinite_Ici)
qed

lemma uniqueFrom_returns:
  assumes "notExist f (segs (Join [dir, candName stem ext j]))" and "i \<le> j"
  shows "\<exists>p k. uniqueFrom f dir stem ext i = Some p \<and> notExist f (segs p) \<and> p = Join [dir, candName stem ext k]"
  using assms(2)
proof (induction "j - i" arbitrary: i)
  case 0
  then have "uniqueFrom f dir stem ext i = Some (Join [dir, candName stem ext j])"
    using assms(1) by (subst uniqueFrom.simps) (simp add: candName_def Let_def)
  then show ?case using assms(1) by blast
next
  case (Suc n)
  then have ih: "\<exists>p k. uniqueFrom f dir stem ext (Suc i) = Some p \<and> notExist f (segs p) \<and>
      p = Join [dir, candName stem ext k]" by simp
  have "uniqueFrom f dir stem ext i = (if notExist f (segs (Join [dir, candName stem ext i]))
      then Some (Join [dir, candName stem ext i]) else uniqueFrom f dir stem ext (Suc i))"
    by (subst uniqueFrom.simps) (simp add: Let_def candName_def)
  then show ?case using ih by (simp split: if_split) blast
qed

lemma base_split:
  assumes "slash \<notin> set b"
  shows "slash \<notin> set (TrimSuffix b (Ext b)) \<and> slash \<notin> set (Ext b)"
proof -
  have "takeWhile (\<lambda>c. c \<noteq> slash) (rev b) = rev b" using assms by (auto simp: takeWhile_eq_all_conv)
  then have "PathSplit b = ([], b)" unfolding PathSplit_def Let_def by (simp only: rev_rev_ident) simp
  then have "set (Ext b) \<subseteq> insert (CHR ''.'') (set b)"
    by (auto simp: Ext_def Let_def dest: set_takeWhileD split: if_splits)
  moreover have "set (TrimSuffix b (Ext b)) \<subseteq> set b" by (auto simp: TrimSuffix_def dest: in_set_takeD)
  ultimately show ?thesis using assms by auto
qed

lemma uniqueDestPath_spec:
  assumes wf: "fsWF f" and ds: "list_all proper (ds @ [d])" "fsGet f ds = Some Directory"
  shows "\<exists>p w. uniqueDestPath f (path_of (ds @ [d])) = Some p \<and> notExist f (segs p) \<and>
    p = path_of (ds @ [w]) \<and> proper w"
proof (cases "notExist f (ds @ [d])")
  case True
  then show ?thesis using ds by (auto simp: uniqueDestPath_def)
next
  case False
  let ?ext = "Ext d" and ?stem = "TrimSuffix d (Ext d)"
  have d: "proper d" "list_all proper ds" using ds by simp_all
  then have ns: "slash \<notin> set ?stem" "slash \<notin> set ?ext" using base_split [of d] by (auto simp: proper_def)
  have u: "uniqueDestPath f (path_of (ds @ [d])) = uniqueFrom f (path_of ds) ?stem ?ext 1"
    using False ds(1) by (simp add: uniqueDestPath_def Let_def Dir_path_of [OF d(2,1)] Base_path_of [OF d(1)])
  obtain j where "j \<ge> 1" "notExist f (segs (Join [path_of ds, candName ?stem ?ext j]))"
    using free_candidate [OF wf d(2) ds(2) ns] by blast
  then obtain p k where p: "uniqueFrom f (path_of ds) ?stem ?ext 1 = Some p"
    and k: "notExist f (segs p)" "p = Join [path_of ds, candName ?stem ?ext k]" using uniqueFrom_returns by blast
  have "p = path_of (ds @ [candName ?stem ?ext k])"
    using Join_dir_name [OF d(2) candName_proper [OF ns]] k(2) Clean_Join2 [of "path_of ds"]
      Clean_rooted [OF rooted_Join2 [of "path_of ds"]] by (metis rooted_path_of)
  then show ?thesis using u p k(1) candName_proper [OF ns] by metis
qed

section \<open>What an ingestion leaves alone\<close>

definition goodFs :: "string list \<Rightarrow> fs \<Rightarrow> bool" where
  "goodFs staged f \<longleftrightarrow> fsWF f \<and> fsGet f staged \<noteq> Some Directory"

definition frame :: "string list set \<Rightarrow> string list \<Rightarrow> db \<Rightarrow> db \<Rightarrow> bool" where
  "frame K staged s s' \<longleftrightarrow> (goodFs staged (db_fs s) \<longrightarrow> goodFs staged (db_fs s') \<and>
     (\<forall>q. q \<notin> K \<longrightarrow> fsGet (db_fs s) q \<noteq> None \<longrightarrow> fsGet (db_fs s') q = fsGet (db_fs s) q))"

interpretation fr: exec_relation "frame K staged" for K staged
proof
  show "frame K staged s s" for s by (simp add: frame_def)
  show "frame K staged s t \<Longrightarrow> frame K staged t u \<Longrightarrow> frame K staged s u" for s t u
    unfolding frame_def by metis
qed

lemma fr_osDo:
  assumes "\<And>f f'. goodFs st f \<Longrightarrow> g f = Inr f' \<Longrightarrow>
    goodFs st f' \<and> (\<forall>q. q \<notin> K \<longrightarrow> fsGet f q \<noteq> None \<longrightarrow> fsGet f' q = fsGet f q)"
  shows "fr.keeps K st (osDo g)"
proof (rule fr.keepsI)
  fix s r s'
  assume "osDo g s = (r, s')"
  then show "frame K st s s'"
    using assms [of "db_fs s"] by (auto simp: osDo_def frame_def simp del: not_None_eq split: if_splits sum.splits)
qed

lemma fr_osGet: "fr.keeps K st (osGet g)"
  by (rule fr.keepsI) (auto simp: osGet_def frame_def split: if_splits)

lemma fr_osRemove: "segs p \<in> K \<Longrightarrow> fr.keeps K st (osRemove p)"
  unfolding osRemove_def
  by (intro fr.keeps_ignore fr_osDo) (auto simp: goodFs_def fsRemove_wf fsRemove_get)

lemma fr_create: "p \<in> K \<Longrightarrow> fr.keeps K st (osDo (\<lambda>f. fsCreate f p c))"
  by (rule fr_osDo) (auto simp: goodFs_def fsCreate_wf fsCreate_get)

lemma fr_rename: "st \<in> K \<Longrightarrow> p \<in> K \<Longrightarrow> fr.keeps K st (osDo (\<lambda>f. fsRename f st p))"
proof (rule fr_osDo)
  fix f f'
  assume K: "st \<in> K" "p \<in> K" and g: "goodFs st f" and run: "fsRename f st p = Inr f'"
  have "fsGet f st \<noteq> None" using run by (auto simp: fsRename_def split: option.splits)
  then obtain c where c: "fsGet f st = Some (RegularFile c)"
    using g by (cases "fsGet f st") (auto simp: goodFs_def intro: node.exhaust)
  have wf: "fsWF f" using g by (simp add: goodFs_def)
  note get = fsRename_file_get [OF wf c run]
  show "goodFs st f' \<and> (\<forall>q. q \<notin> K \<longrightarrow> fsGet f q \<noteq> None \<longrightarrow> fsGet f' q = fsGet f q)"
    using K fsRename_wf [OF wf c run] by (auto simp: goodFs_def get)
qed

lemma fr_copy: "segs dst \<in> K \<Longrightarrow> fr.keeps K st (copyFileV2 src dst)"
  unfolding copyFileV2_def
  by (intro fr.keeps_bind fr_osGet fr_create fr.keeps_try)
    (auto intro!: fr.keeps_bind fr.keeps_return fr.keeps_throw fr_osRemove split: sum.splits)

definition thumbArea :: "string list set" where
  "thumbArea = {q. prefix (segs ThumbCacheDir) q}"

lemma thumb_in_area:
  assumes "slash \<notin> set key"
  shows "segs (thumbCachePath key) \<in> thumbArea" and "segs (thumbNegativePath key) \<in> thumbArea"
proof -
  have "proper (key @ ''.jpg'')" "proper (key @ ''.neg'')" using assms by (auto simp: proper_def Cons_eq_append_conv)
  then have "comps (key @ ''.jpg'') = [key @ ''.jpg'']" "comps (key @ ''.neg'') = [key @ ''.neg'']"
    and p: "proper (key @ ''.jpg'')" "proper (key @ ''.neg'')" by (simp_all add: comps_proper_name)
  moreover have "rooted ThumbCacheDir" by (simp add: ThumbCacheDir_def HasPrefix_def)
  ultimately show "segs (thumbCachePath key) \<in> thumbArea" "segs (thumbNegativePath key) \<in> thumbArea"
    unfolding thumbCachePath_def thumbNegativePath_def thumbArea_def
    by (simp_all add: segs_Join2)
qed

lemma fr_purge:
  assumes "\<And>f p. slash \<notin> set (thumbKey f p)" and "thumbArea \<subseteq> K"
  shows "fr.keeps K st (PurgeThumbCacheEntry thumbKey path)"
proof -
  have "fr.keeps K st (if \<not> isFile (fsGet (db_fs s) (segs path)) then returnM ()
      else let key = thumbKey (db_fs s) path in
           bindM (osRemove (thumbCachePath key)) (\<lambda>_. osRemove (thumbNegativePath key)))" for s
    using thumb_in_area [OF assms(1)] assms(2)
    by (auto intro!: fr.keeps_return fr.keeps_bind fr_osRemove simp: Let_def)
  from fr.keeps_read [OF this] show ?thesis
    unfolding PurgeThumbCacheEntry_def [abs_def] returnM_def Let_def by (simp add: if_distrib [of "\<lambda>m. m _"])
qed

lemma fr_place:
  assumes "\<And>f p. slash \<notin> set (thumbKey f p)" and "thumbArea \<subseteq> K"
    and "segs staged \<in> K" "segs (staged @ ''.info'') \<in> K" "segs d \<in> K"
  shows "fr.keeps K (segs staged) (placeStaged thumbKey staged d)"
  unfolding placeStaged_def
  by (intro fr.keeps_bind fr.keeps_try fr_purge fr_rename fr_osRemove fr.keeps_return assms)
    (auto intro!: fr.keeps_return fr.keeps_bind fr_copy fr_osRemove assms split: sum.splits)

definition infoPath :: "string \<Rightarrow> string list" where
  "infoPath staged = segs (staged @ ''.info'')"

text \<open>The destination path of admitted components, and its directory.\<close>

lemma dest_path:
  assumes "rooted target" and "list_all proper (comps rel)" and "comps rel \<noteq> []"
  obtains ds d where "Join [target, rel] = path_of (ds @ [d])" and "list_all proper (ds @ [d])"
    and "segs (Join [target, rel]) = ds @ [d]" and "Dir (Join [target, rel]) = path_of ds"
proof -
  have sg: "segs (Join [target, rel]) = segs target @ comps rel" using segs_Join2 assms by blast
  then have "segs (Join [target, rel]) \<noteq> []" using assms(3) by simp
  then obtain ds d where dd: "segs (Join [target, rel]) = ds @ [d]" by (metis rev_exhaust)
  have pr: "list_all proper (ds @ [d])" using segs_proper [of "Join [target, rel]"] dd by simp
  have "Join [target, rel] = path_of (ds @ [d])"
    using Clean_rooted [OF rooted_Join2 [OF assms(1)], of rel] Clean_Join2 [OF assms(1), of rel] dd by metis
  moreover have "Dir (path_of (ds @ [d])) = path_of ds" using pr by (intro Dir_path_of) simp_all
  ultimately show thesis using that [of ds d] pr dd by simp
qed

lemma chooseDest_new:
  assumes wf: "fsWF f" and dir: "fsGet f ds = Some Directory" and pr: "list_all proper (ds @ [d])"
    and "dest = path_of (ds @ [d])" and "chooseDest f policy dest = Some (Inr e)"
  shows "(policy = ''overwrite'' \<and> e = dest) \<or> fsGet f (segs e) = None"
proof -
  from uniqueDestPath_spec [OF wf pr dir] obtain p where
    "uniqueDestPath f dest = Some p" "notExist f (segs p)" using assms(4) by blast
  then show ?thesis using assms(5) by (auto simp: chooseDest_def Let_def notExist_def split: if_splits)
qed

lemma ingest_frame:
  assumes key: "\<And>f p. slash \<notin> set (thumbKey f p)"
    and wf: "fsWF (db_fs s)" and reg: "isFile (fsGet (db_fs s) (segs staged))"
    and rt: "rooted target" and rel: "list_all proper (comps rel)" "comps rel \<noteq> []"
    and run: "ingestToTargetWithPolicy thumbKey staged target rel policy s = (r, s')"
    and q: "fsGet (db_fs s) q \<noteq> None" "q \<noteq> segs staged" "q \<noteq> infoPath staged" "q \<notin> thumbArea"
    and ow: "policy = ''overwrite'' \<longrightarrow> q \<noteq> segs (Join [target, rel])"
  shows "fsGet (db_fs s') q = fsGet (db_fs s) q"
proof -
  obtain ds d where dst: "Join [target, rel] = path_of (ds @ [d])" "list_all proper (ds @ [d])"
    "segs (Join [target, rel]) = ds @ [d]" "Dir (Join [target, rel]) = path_of ds"
    using dest_path [OF rt rel] by blast
  have sd: "segs (path_of ds) = ds" using dst(2) by simp
  let ?mk = "osDo (\<lambda>f. fsMkdirAll f (segs (Dir (Join [target, rel]))))"
  obtain r1 s1 where mk: "?mk s = (r1, s1)" by force
  show ?thesis
  proof (cases r1)
    case (Inl e)
    then have "db_fs s' = db_fs s" using run mk
      by (auto simp: ingestToTargetWithPolicy_def Let_def bindM_def osDo_def split: if_splits sum.splits)
    then show ?thesis by simp
  next
    case (Inr u)
    then have m: "fsMkdirAll (db_fs s) ds = Inr (db_fs s1)"
      using mk dst(4) sd by (auto simp: osDo_def split: if_splits sum.splits)
    have same: "fsGet (db_fs s1) p = fsGet (db_fs s) p" if "fsGet (db_fs s) p \<noteq> None" for p
      using fsMkdirAll_get [OF m, of p] that by auto
    have good: "goodFs (segs staged) (db_fs s1)"
      using fsMkdirAll_wf [OF wf m] reg same [of "segs staged"] by (auto simp: goodFs_def isFile_iff)
    have wf1: "fsWF (db_fs s1)" using good by (simp add: goodFs_def)
    have dir1: "fsGet (db_fs s1) ds = Some Directory" using fsMkdirAll_dir [OF m] by simp
    have rest: "(case chooseDest (db_fs s1) policy (Join [target, rel]) of
          None \<Rightarrow> (Inl EIO, s1)
        | Some (Inl _) \<Rightarrow> bindM (osRemove staged) (\<lambda>_. bindM (osRemove (staged @ ''.info'')) (\<lambda>_.
            returnM (Join [target, rel], True))) s1
        | Some (Inr d) \<Rightarrow> placeStaged thumbKey staged d s1) = (r, s')"
      using run mk Inr by (simp add: ingestToTargetWithPolicy_def Let_def bindM_def)
    have done': "fsGet (db_fs s') q = fsGet (db_fs s) q" if "frame K (segs staged) s1 s'" "q \<notin> K" for K
      using that good same [OF q(1)] q(1) by (simp add: frame_def)
    let ?K = "{segs staged, infoPath staged} \<union> thumbArea"
    show ?thesis
    proof (cases "chooseDest (db_fs s1) policy (Join [target, rel])")
      case None
      then show ?thesis using rest same [OF q(1)] by simp
    next
      case (Some c)
      show ?thesis
      proof (cases c)
        case (Inl u)
        have "fr.keeps ?K (segs staged) (bindM (osRemove staged) (\<lambda>_. bindM (osRemove (staged @ ''.info'')) (\<lambda>_.
            returnM (Join [target, rel], True))))"
          by (intro fr.keeps_bind fr_osRemove fr.keeps_return) (simp_all add: infoPath_def)
        moreover have "bindM (osRemove staged) (\<lambda>_. bindM (osRemove (staged @ ''.info'')) (\<lambda>_.
            returnM (Join [target, rel], True))) s1 = (r, s')" using rest Some Inl by simp
        ultimately show ?thesis using fr.keepsD done' q by blast
      next
        case (Inr e)
        let ?L = "insert (segs e) ?K"
        have "fr.keeps ?L (segs staged) (placeStaged thumbKey staged e)"
          by (rule fr_place) (auto simp: key infoPath_def)
        moreover have "placeStaged thumbKey staged e s1 = (r, s')" using rest Some Inr by simp
        ultimately have "frame ?L (segs staged) s1 s'" by (rule fr.keepsD)
        moreover have "q \<noteq> segs e"
          using chooseDest_new [OF wf1 dir1 dst(2) dst(1) Some [unfolded Inr]] ow same [OF q(1)] q(1) by auto
        ultimately show ?thesis using done' q by blast
      qed
    qed
  qed
qed

text \<open>
  C8. Moving a finished upload to its place never damages other files, whether it succeeds or
  fails and whatever calls fail on the way: every entry that existed before is still there with
  the same content, except the staged file and its sidecar, the thumbnail cache, and, only under
  the overwrite policy, the destination itself.
\<close>

theorem ingest_preserves_files:
  assumes "\<And>f p. slash \<notin> set (thumbKey f p)"
    and "fsWF (db_fs s)" and "isFile (fsGet (db_fs s) (segs staged))"
    and "rooted target" and "list_all proper (comps rel)" and "comps rel \<noteq> []"
    and "fsGet (db_fs s) q \<noteq> None" and "q \<notin> {segs staged, infoPath staged}" and "q \<notin> thumbArea"
    and "policy = ''overwrite'' \<longrightarrow> q \<noteq> segs (Join [target, rel])"
  shows "fsGet (db_fs (snd (ingestToTargetWithPolicy thumbKey staged target rel policy s))) q = fsGet (db_fs s) q"
proof -
  obtain r s' where run: "ingestToTargetWithPolicy thumbKey staged target rel policy s = (r, s')" by force
  have "fsGet (db_fs s') q = fsGet (db_fs s) q"
    by (rule ingest_frame [OF assms(1-6) run assms(7) _ _ assms(9,10)]) (use assms(8) in auto)
  then show ?thesis using run by simp
qed

definition ingestDB :: db where
  "ingestDB = badgeDB\<lparr>db_fs :=
     [([''S''], Directory), ([''S'', ''t1''], RegularFile ''new''), ([''DATA''], Directory),
      ([''DATA'', ''x''], Directory), ([''DATA'', ''x'', ''a.txt''], RegularFile ''old'')]\<rparr>"

theorem ingest_preserves_files_witness:
  "fsGet (db_fs (snd (ingestToTargetWithPolicy (\<lambda>_ _. ''k'') ''/S/t1'' ''/DATA/x'' ''a.txt'' [] ingestDB)))
     [''DATA'', ''x'', ''a.txt''] = Some (RegularFile ''old'')"
proof -
  have "fsWF (db_fs ingestDB)" "isFile (fsGet (db_fs ingestDB) (segs ''/S/t1''))" "rooted ''/DATA/x''"
    "list_all proper (comps ''a.txt'')" "comps ''a.txt'' \<noteq> []"
    "fsGet (db_fs ingestDB) [''DATA'', ''x'', ''a.txt''] = Some (RegularFile ''old'')"
    "[''DATA'', ''x'', ''a.txt''] \<notin> {segs ''/S/t1'', infoPath ''/S/t1''}"
    "\<not> prefix (segs ThumbCacheDir) [''DATA'', ''x'', ''a.txt'']" by code_simp+
  then show ?thesis
    using ingest_preserves_files [of "\<lambda>_ _. ''k''" ingestDB "''/S/t1''" "''/DATA/x''" "''a.txt''"
        "[''DATA'', ''x'', ''a.txt'']" "[]"] by (simp add: thumbArea_def)
qed

section \<open>What an ingestion puts in place\<close>

lemma osDo_Inr: "osDo g s = (Inr (), s') \<Longrightarrow> g (db_fs s) = Inr (db_fs s')"
  by (auto simp: osDo_def split: if_splits sum.splits)

lemma osDo_Inl: "osDo g s = (Inl e, s') \<Longrightarrow> db_fs s' = db_fs s"
  by (auto simp: osDo_def split: if_splits sum.splits)

lemma osGet_Inr: "osGet g s = (Inr x, s') \<Longrightarrow> g (db_fs s) = Inr x \<and> db_fs s' = db_fs s"
  by (auto simp: osGet_def split: if_splits)

lemma tryM_Inr: "tryM m s = (Inr r, s') \<longleftrightarrow> m s = (r, s')"
  by (auto simp: tryM_def split: prod.splits)

lemma copyFileV2_Inr:
  assumes "copyFileV2 src dst s = (Inr (), s')"
  shows "\<exists>c. fsRead (db_fs s) (segs src) = Inr c \<and>
    (\<forall>p. fsGet (db_fs s') p = (if p = segs dst then Some (RegularFile c) else fsGet (db_fs s) p))"
proof -
  from assms obtain c s1 s2 r s3 where
    1: "osGet (\<lambda>f. fsRead f (segs src)) s = (Inr c, s1)" and
    2: "osDo (\<lambda>f. fsCreate f (segs dst) []) s1 = (Inr (), s2)" and
    3: "tryM (osDo (\<lambda>f. fsCreate f (segs dst) c)) s2 = (Inr r :: (fserr, _) result, s3)" and
    4: "(case r of Inr _ \<Rightarrow> returnM () | Inl e \<Rightarrow> bindM (osRemove dst) (\<lambda>_. throwM e)) s3 = (Inr (), s')"
    unfolding copyFileV2_def by (elim bindM_Inr) auto
  from 4 have r: "r = Inr ()" "s' = s3"
    by (auto simp: bindM_def throwM_def split: sum.splits prod.splits)
  from 3 have "osDo (\<lambda>f. fsCreate f (segs dst) c) s2 = (Inr (), s3)" by (simp add: tryM_Inr r)
  then show ?thesis
    using osGet_Inr [OF 1] fsCreate_get [OF osDo_Inr [OF 2]] fsCreate_get [OF osDo_Inr] r by auto
qed

lemma placeStaged_Inr:
  assumes key: "\<And>f p. slash \<notin> set (thumbKey f p)"
    and wf: "fsWF (db_fs s)" and reg: "fsGet (db_fs s) (segs staged) = Some (RegularFile c)"
    and st: "segs staged \<notin> thumbArea" and ne: "segs d \<noteq> segs staged" "segs d \<noteq> infoPath staged"
    and run: "placeStaged thumbKey staged d s = (Inr (e, b), s')"
  shows "e = d \<and> fsGet (db_fs s') (segs d) = Some (RegularFile c)"
proof -
  from run obtain s1 r s2 s3 s4 where
    1: "PurgeThumbCacheEntry thumbKey d s = (Inr () :: (fserr, _) result, s1)" and
    2: "tryM (osDo (\<lambda>f. fsRename f (segs staged) (segs d))) s1 = (Inr r :: (fserr, _) result, s2)" and
    3: "(case r of Inr _ \<Rightarrow> returnM () | Inl _ \<Rightarrow> bindM (copyFileV2 staged d) (\<lambda>_. osRemove staged)) s2 = (Inr (), s3)" and
    4: "osRemove (staged @ ''.info'') s3 = (Inr () :: (fserr, _) result, s4)" and 5: "e = d" "s' = s4"
    unfolding placeStaged_def by (elim bindM_Inr) auto
  have "frame thumbArea (segs staged) s s1"
    using fr.keepsD [OF fr_purge [OF key subset_refl] 1] .
  then have s1: "fsWF (db_fs s1)" "fsGet (db_fs s1) (segs staged) = Some (RegularFile c)"
    using wf reg st by (simp_all add: frame_def goodFs_def)
  have d3: "fsGet (db_fs s3) (segs d) = Some (RegularFile c) \<and> goodFs (segs staged) (db_fs s3)"
  proof (cases r)
    case (Inr u)
    then have rn: "fsRename (db_fs s1) (segs staged) (segs d) = Inr (db_fs s2)" "s3 = s2"
      using 2 3 by (auto simp: tryM_Inr dest: osDo_Inr)
    show ?thesis
      using fsRename_file_get [OF s1 rn(1)] fsRename_wf [OF s1 rn(1)] rn(2) by (simp add: goodFs_def)
  next
    case (Inl x)
    then have s2: "db_fs s2 = db_fs s1" using 2 by (auto simp: tryM_Inr dest: osDo_Inl)
    from 3 Inl obtain s2' where cp: "copyFileV2 staged d s2 = (Inr (), s2')"
      and rm: "osRemove staged s2' = (Inr () :: (fserr, _) result, s3)" by (auto elim!: bindM_Inr)
    have good2: "goodFs (segs staged) (db_fs s2)" using s1 s2 by (simp add: goodFs_def)
    have "frame {segs d} (segs staged) s2 s2'" by (rule fr.keepsD [OF fr_copy cp]) simp
    then have good: "goodFs (segs staged) (db_fs s2')" using good2 by (simp add: frame_def)
    have "fsGet (db_fs s2') (segs d) = Some (RegularFile c)"
      using copyFileV2_Inr [OF cp] s1(2) s2 by (auto simp: fsRead_def)
    moreover have "frame {segs staged} (segs staged) s2' s3" by (rule fr.keepsD [OF fr_osRemove rm]) simp
    ultimately show ?thesis using good ne(1) by (simp add: frame_def)
  qed
  have "frame {infoPath staged} (segs staged) s3 s4"
    by (rule fr.keepsD [OF fr_osRemove 4]) (simp add: infoPath_def)
  then show ?thesis using d3 ne(2) 5 by (simp add: frame_def)
qed

text \<open>
  C17. A successful ingestion that is not a skip delivers the upload: the returned path holds
  exactly the staged content; it is the destination itself or, when something was already there
  and the policy keeps it, a free name in the same directory.
\<close>

theorem ingest_delivers:
  assumes "\<And>f p. slash \<notin> set (thumbKey f p)"
    and "fsWF (db_fs s)" and "fsGet (db_fs s) (segs staged) = Some (RegularFile c)" and "segs staged \<notin> thumbArea"
    and "rooted target" and "list_all proper (comps rel)" and "comps rel \<noteq> []"
    and "ingestToTargetWithPolicy thumbKey staged target rel policy s = (Inr (e, False), s')"
    and "segs e \<notin> {segs staged, infoPath staged}"
  shows "fsGet (db_fs s') (segs e) = Some (RegularFile c) \<and>
    butlast (segs e) = butlast (segs target @ comps rel) \<and>
    (e \<noteq> Join [target, rel] \<longrightarrow> fsGet (db_fs s) (segs e) = None)"
proof -
  obtain ds d where dst: "Join [target, rel] = path_of (ds @ [d])" "list_all proper (ds @ [d])"
    "segs (Join [target, rel]) = ds @ [d]" "Dir (Join [target, rel]) = path_of ds"
    using dest_path [OF assms(5-7)] by blast
  have sg: "segs target @ comps rel = ds @ [d]" using segs_Join2 [OF assms(5,6)] dst(3) by simp
  have sd: "segs (path_of ds) = ds" using dst(2) by simp
  from assms(8) obtain s1 where mk: "osDo (\<lambda>f. fsMkdirAll f (segs (Dir (Join [target, rel])))) s = (Inr (), s1)"
    and rest: "(case chooseDest (db_fs s1) policy (Join [target, rel]) of
          None \<Rightarrow> (Inl EIO, s1)
        | Some (Inl _) \<Rightarrow> bindM (osRemove staged) (\<lambda>_. bindM (osRemove (staged @ ''.info'')) (\<lambda>_.
            returnM (Join [target, rel], True))) s1
        | Some (Inr d) \<Rightarrow> placeStaged thumbKey staged d s1) = (Inr (e, False), s')"
    unfolding ingestToTargetWithPolicy_def Let_def by (elim bindM_Inr) auto
  have m: "fsMkdirAll (db_fs s) ds = Inr (db_fs s1)" using osDo_Inr [OF mk] dst(4) sd by simp
  have s1: "fsWF (db_fs s1)" "fsGet (db_fs s1) (segs staged) = Some (RegularFile c)"
    using fsMkdirAll_wf [OF assms(2) m] fsMkdirAll_get [OF m, of "segs staged"] assms(3) by simp_all
  have dir1: "fsGet (db_fs s1) ds = Some Directory" using fsMkdirAll_dir [OF m] by simp
  from rest obtain x where ch: "chooseDest (db_fs s1) policy (Join [target, rel]) = Some (Inr x)"
    and pl: "placeStaged thumbKey staged x s1 = (Inr (e, False), s')"
    by (auto split: option.splits sum.splits elim!: bindM_Inr)
  have "e = x" using pl by (auto simp: placeStaged_def elim!: bindM_Inr)
  with pl ch have pl': "placeStaged thumbKey staged e s1 = (Inr (e, False), s')"
    and ch': "chooseDest (db_fs s1) policy (Join [target, rel]) = Some (Inr e)" by simp_all
  have del: "fsGet (db_fs s') (segs e) = Some (RegularFile c)"
    using placeStaged_Inr [OF assms(1) s1 assms(4) _ _ pl'] assms(9) by simp
  from uniqueDestPath_spec [OF s1(1) dst(2) dir1] obtain p w where
    p: "uniqueDestPath (db_fs s1) (Join [target, rel]) = Some p" "notExist (db_fs s1) (segs p)"
      "p = path_of (ds @ [w])" "proper w" unfolding dst(1) by blast
  have "e = Join [target, rel] \<or> e = p" using ch' p(1) by (auto simp: chooseDest_def Let_def split: if_splits)
  moreover have "segs p = ds @ [w]" using p(3,4) dst(2) by simp
  moreover have "fsGet (db_fs s) (segs p) = None"
    using p(2) fsMkdirAll_get [OF m, of "segs p"] by (auto simp: notExist_def split: if_splits)
  ultimately show ?thesis using del sg dst(3) by auto
qed

theorem ingest_delivers_witness:
  "fsGet (db_fs (snd (ingestToTargetWithPolicy (\<lambda>_ _. ''k'') ''/S/t1'' ''/DATA/x'' ''a.txt'' [] ingestDB)))
     [''DATA'', ''x'', ''a(1).txt''] = Some (RegularFile ''new'')"
proof -
  let ?r = "ingestToTargetWithPolicy (\<lambda>_ _. ''k'') ''/S/t1'' ''/DATA/x'' ''a.txt'' [] ingestDB"
  have e: "fst ?r = Inr (''/DATA/x/a(1).txt'', False)" by code_simp
  then have run: "?r = (Inr (''/DATA/x/a(1).txt'', False), snd ?r)" by (metis prod.collapse)
  have c: "fsWF (db_fs ingestDB)" "fsGet (db_fs ingestDB) (segs ''/S/t1'') = Some (RegularFile ''new'')"
    "\<not> prefix (segs ThumbCacheDir) (segs ''/S/t1'')" "rooted ''/DATA/x''"
    "list_all proper (comps ''a.txt'')" "comps ''a.txt'' \<noteq> []"
    "segs ''/DATA/x/a(1).txt'' \<notin> {segs ''/S/t1'', infoPath ''/S/t1''}"
    "segs ''/DATA/x/a(1).txt'' = [''DATA'', ''x'', ''a(1).txt'']" by code_simp+
  have st: "segs ''/S/t1'' \<notin> thumbArea" using c(3) by (simp add: thumbArea_def)
  have "\<And>f p. slash \<notin> set ''k''" by simp
  from ingest_delivers [OF this c(1,2) st c(4-6) run c(7)] show ?thesis by (simp only: c(8))
qed

text \<open>
  Under the overwrite policy a failing cross-device copy destroys the file it was to replace:
  the rename fails, the copy truncates the destination, the write fails, and the clean-up removes it.
\<close>

theorem ingest_overwrite_loses_file:
  "fsGet (db_fs ingestDB) [''DATA'', ''x'', ''a.txt''] = Some (RegularFile ''old'') \<and>
   (case ingestToTargetWithPolicy (\<lambda>_ _. ''k'') ''/S/t1'' ''/DATA/x'' ''a.txt'' ''overwrite''
      (ingestDB\<lparr>db_faults := [False, False, False, True, False, False, True, False]\<rparr>) of
      (r, s') \<Rightarrow> r = Inl EIO \<and> fsGet (db_fs s') [''DATA'', ''x'', ''a.txt''] = None)"
  by code_simp

end
