(* ===== verification/UploadApi.thy ===== *)
theory UploadApi
  imports TusIngest
begin

text \<open>
  The HTTP handlers on upload batches and tasks (\<^verbatim>\<open>route/v2/upload_batches.go\<close>,
  \<^verbatim>\<open>route/v2/upload_tasks.go\<close>), and the upload subsystem as a state machine: handlers, tus events,
  sweeper rounds and changes of the environment interleave in any order, and every statement and
  file call may fail. A handler returns \<open>Inl\<close> of the HTTP status of its error. A body is \<open>None\<close>
  when it cannot be bound.
\<close>

section \<open>Handlers\<close>

definition onErr :: "nat \<Rightarrow> ('e, 'a) exec \<Rightarrow> (nat, 'a) exec" where
  "onErr code m = bindM (tryM m) (\<lambda>r. case r of Inl _ \<Rightarrow> throwM code | Inr x \<Rightarrow> returnM x)"

record createBatchItem =
  ci_RelativePath :: string
  ci_Size :: int

record createBatchReq =
  cr_ID :: string
  cr_TargetPath :: string
  cr_Items :: "createBatchItem list"

definition badRelativePath :: "string \<Rightarrow> bool" where
  "badRelativePath p = (p = [] \<or> Contains p ''..'' \<or> HasPrefix p ''/'')"

definition newBatch :: "string \<Rightarrow> createBatchReq \<Rightarrow> int \<Rightarrow> UploadBatch" where
  "newBatch user req now = \<lparr>b_ID = cr_ID req, b_OwnerUserID = user, b_TargetPath = Clean (cr_TargetPath req),
     b_Status = BatchStatusActive, b_Total = int (length (cr_Items req)), b_Done = 0, b_LastProgressAt = now,
     b_InterruptedAt = 0, b_InterruptSource = [], b_StagingCleaned = False, b_CreatedAt = 0, b_UpdatedAt = 0\<rparr>"

definition newItem :: "createBatchReq \<Rightarrow> createBatchItem \<Rightarrow> UploadBatchItem" where
  "newItem req it = \<lparr>bi_ID = 0, bi_BatchID = cr_ID req, bi_RelativePath = ci_RelativePath it,
     bi_Size = ci_Size it, bi_Done = False\<rparr>"

definition CreateUploadBatch :: "string \<Rightarrow> createBatchReq option \<Rightarrow> (nat, string) exec" where
  "CreateUploadBatch user body s =
     (case body of None \<Rightarrow> (Inl 400, s)
      | Some req \<Rightarrow>
          if cr_ID req = [] \<or> cr_TargetPath req = [] \<or> cr_Items req = [] then (Inl 400, s)
          else if \<not> HasPrefix (cr_TargetPath req) ''/'' then (Inl 400, s)
          else if list_ex (\<lambda>it. badRelativePath (ci_RelativePath it)) (cr_Items req) then (Inl 400, s)
          else bindM (onErr 500 (BatchStore_Create (newBatch user req (db_now s)) (map (newItem req) (cr_Items req))))
                 (\<lambda>_. returnM (cr_ID req)) s)"

definition getOwnedBatch :: "string \<Rightarrow> string \<Rightarrow> (nat, UploadBatch) exec" where
  "getOwnedBatch owner i = bindM (tryM (BatchStore_Get i)) (\<lambda>r.
     case r of Inl e \<Rightarrow> throwM (if e = ErrNotFound then 404 else 500)
     | Inr b \<Rightarrow> if b_OwnerUserID b \<noteq> owner then throwM 404 else returnM b)"

definition GetUploadBatch :: "string \<Rightarrow> string \<Rightarrow> (nat, UploadBatch \<times> UploadBatchItem list) exec" where
  "GetUploadBatch user i = bindM (getOwnedBatch user i) (\<lambda>b.
     bindM (onErr 500 (MissingItems (b_ID b))) (\<lambda>missing. returnM (b, missing)))"

definition cancelBatchTasks ::
  "UploadStatuses \<Rightarrow> (string \<Rightarrow> int \<Rightarrow> bool dbm) \<Rightarrow> string list \<Rightarrow> string \<Rightarrow> ('e, unit) exec" where
  "cancelBatchTasks us cancel dirs batchID =
     ignoreM (bindM (ListUnfinishedByBatch us batchID) (\<lambda>list s.
       forM (cancelOne cancel dirs (db_now s + UploadCanceledTTLSeconds)) list s))"

definition InterruptUploadBatch ::
  "UploadStatuses \<Rightarrow> (string \<Rightarrow> int \<Rightarrow> bool dbm) \<Rightarrow> string list \<Rightarrow> string \<Rightarrow> string \<Rightarrow> (nat, bool) exec" where
  "InterruptUploadBatch us cancel dirs user i = bindM (getOwnedBatch user i) (\<lambda>b s.
     (if b_Status b \<noteq> BatchStatusActive then returnM False
      else bindM (onErr 500 (SetInterrupted (b_ID b) (db_now s) BatchInterruptSourceSignal)) (\<lambda>_.
           bindM (cancelBatchTasks us cancel dirs (b_ID b)) (\<lambda>_.
           bindM (ignoreM (MarkStagingCleaned (b_ID b))) (\<lambda>_. returnM True)))) s)"

definition AbandonUploadBatch ::
  "UploadStatuses \<Rightarrow> (string \<Rightarrow> int \<Rightarrow> bool dbm) \<Rightarrow> string list \<Rightarrow> string \<Rightarrow> string \<Rightarrow> (nat, bool) exec" where
  "AbandonUploadBatch us cancel dirs user i = bindM (getOwnedBatch user i) (\<lambda>b.
     if b_Status b = BatchStatusAbandoned \<or> b_Status b = BatchStatusCompleted then returnM False
     else bindM (onErr 500 (BatchStore_SetStatus (b_ID b) BatchStatusAbandoned)) (\<lambda>_.
          bindM (cancelBatchTasks us cancel dirs (b_ID b)) (\<lambda>_. returnM True)))"

definition AbandonUploadBatchesUnder ::
  "UploadStatuses \<Rightarrow> (string \<Rightarrow> int \<Rightarrow> bool dbm) \<Rightarrow> string list \<Rightarrow> string \<Rightarrow> string option \<Rightarrow> (nat, nat) exec" where
  "AbandonUploadBatchesUnder us cancel dirs user body =
     (case body of None \<Rightarrow> throwM 400
      | Some path \<Rightarrow>
          if \<not> HasPrefix path ''/'' then throwM 400
          else bindM (onErr 500 (AbandonInterruptedUnder path user)) (\<lambda>ids.
               bindM (forM (cancelBatchTasks us cancel dirs) ids) (\<lambda>_. returnM (length ids))))"

definition RemoveUploadBatchItems :: "string \<Rightarrow> string \<Rightarrow> string list option \<Rightarrow> (nat, bool) exec" where
  "RemoveUploadBatchItems user i body = bindM (getOwnedBatch user i) (\<lambda>b.
     case body of None \<Rightarrow> throwM 400
     | Some paths \<Rightarrow>
         if paths = [] then throwM 400
         else if list_ex badRelativePath paths then throwM 400
         else bindM (onErr 500 (RemoveItems (b_ID b) paths)) (\<lambda>_. returnM True))"

definition getOwnedTask :: "string \<Rightarrow> string \<Rightarrow> (nat, UploadTask) exec" where
  "getOwnedTask owner i = bindM (tryM (TaskStore_Get i)) (\<lambda>r.
     case r of Inl e \<Rightarrow> throwM (if e = ErrNotFound then 404 else 500)
     | Inr x \<Rightarrow> if t_OwnerUserID x \<noteq> owner then throwM 404 else returnM x)"

definition ListUploads :: "UploadStatuses \<Rightarrow> string \<Rightarrow> (nat, UploadTask list) exec" where
  "ListUploads us user = onErr 500 (ListActiveByOwner us user)"

definition GetUpload :: "string \<Rightarrow> string \<Rightarrow> (nat, UploadTask) exec" where
  "GetUpload user i = getOwnedTask user i"

definition CancelUpload ::
  "(string \<Rightarrow> int \<Rightarrow> bool dbm) \<Rightarrow> string list \<Rightarrow> string \<Rightarrow> string \<Rightarrow> (nat, bool) exec" where
  "CancelUpload cancel dirs user i = bindM (getOwnedTask user i) (\<lambda>_ s.
     bindM (onErr 500 (cancel i (db_now s + UploadCanceledTTLSeconds))) (\<lambda>canceled.
     bindM (if canceled then forM (\<lambda>dir. bindM (osRemove (Join [dir, i])) (\<lambda>_. osRemove (Join [dir, i @ ''.info'']))) dirs
            else returnM ()) (\<lambda>_. returnM canceled)) s)"

section \<open>The subsystem as a state machine\<close>

text \<open>The code outside the repository, and the views of the system that the steps read.\<close>

record env =
  en_us :: UploadStatuses
  en_cancel :: "string \<Rightarrow> int \<Rightarrow> bool dbm"
  en_marshal :: "(string \<times> string) list \<Rightarrow> string"
  en_thumbKey :: "fs \<Rightarrow> string \<Rightarrow> string"
  en_showErr :: "fserr \<Rightarrow> string"

inductive uploadStep :: "env \<Rightarrow> db \<Rightarrow> db \<Rightarrow> bool" for en where
  environment: "uploadStep en s (s\<lparr>db_now := n, db_faults := fl, db_fs := f\<rparr>)"
| create: "uploadStep en s (snd (CreateUploadBatch user body s))"
| get: "uploadStep en s (snd (GetUploadBatch user i s))"
| interrupt: "uploadStep en s (snd (InterruptUploadBatch (en_us en) (en_cancel en) dirs user i s))"
| abandon: "uploadStep en s (snd (AbandonUploadBatch (en_us en) (en_cancel en) dirs user i s))"
| abandonUnder: "uploadStep en s (snd (AbandonUploadBatchesUnder (en_us en) (en_cancel en) dirs user p s))"
| removeItems: "uploadStep en s (snd (RemoveUploadBatchItems user i paths s))"
| listing: "uploadStep en s (snd (BrokenChildren dir user s))"
| cancelTask: "uploadStep en s (snd (CancelUpload (en_cancel en) dirs user i s))"
| created: "uploadStep en s (snd (onCreated (en_us en) (en_marshal en) ev s :: (unit, unit) result \<times> db))"
| progress: "uploadStep en s (snd (onProgress ev th s :: (unit, TouchThrottle \<times> TouchThrottle) result \<times> db))"
| terminated: "uploadStep en s (snd (onTerminated (en_us en) ev s :: (unit, unit) result \<times> db))"
| complete: "uploadStep en s (snd (onComplete (en_us en) (en_thumbKey en) (en_showErr en) ev s :: (unit, string list) result \<times> db))"
| sweep: "uploadStep en s (snd (SweepBatches (en_us en) (en_cancel en) gone mtxt dirs now s))"

inductive uploadRun :: "env \<Rightarrow> db \<Rightarrow> db \<Rightarrow> bool" for en where
  start: "uploadRun en s s"
| step: "uploadRun en s s' \<Longrightarrow> uploadStep en s' s'' \<Longrightarrow> uploadRun en s s''"

section \<open>Relations that every step respects\<close>

text \<open>File calls never touch the tables.\<close>

definition sameTables :: "db \<Rightarrow> db \<Rightarrow> bool" where
  "sameTables s s' \<longleftrightarrow> db_tab s' = db_tab s"

interpretation tabs: exec_relation sameTables
  by unfold_locales (simp_all add: sameTables_def)

lemma tabs_os: "tabs.keeps (osDo g)" "tabs.keeps (osGet h)" "tabs.keeps (osRemove p)"
proof -
  show d: "tabs.keeps (osDo g)" for g
    by (rule tabs.keepsI) (auto simp: osDo_def sameTables_def split: if_splits sum.splits)
  show "tabs.keeps (osGet h)"
    by (rule tabs.keepsI) (auto simp: osGet_def sameTables_def split: if_splits)
  show "tabs.keeps (osRemove p)" unfolding osRemove_def by (rule tabs.keeps_ignore [OF d])
qed

lemma tabs_copy: "tabs.keeps (copyFileV2 src dst)"
  unfolding copyFileV2_def
  by (intro tabs.keeps_bind tabs_os tabs.keeps_try)
    (auto intro!: tabs.keeps_bind tabs.keeps_return tabs.keeps_throw tabs_os split: sum.splits)

lemma tabs_purge: "tabs.keeps (PurgeThumbCacheEntry thumbKey path)"
proof -
  have "tabs.keeps (if \<not> isFile (fsGet (db_fs s) (segs path)) then returnM ()
      else bindM (osRemove (thumbCachePath (thumbKey (db_fs s) path)))
             (\<lambda>_. osRemove (thumbNegativePath (thumbKey (db_fs s) path))))" for s
    by (auto intro!: tabs.keeps_return tabs.keeps_bind tabs_os)
  from tabs.keeps_read [OF this] show ?thesis
    unfolding PurgeThumbCacheEntry_def [abs_def] returnM_def Let_def by (simp add: if_distrib [of "\<lambda>m. m _"])
qed

lemma tabs_place: "tabs.keeps (placeStaged thumbKey staged d)"
  unfolding placeStaged_def
  by (intro tabs.keeps_bind tabs.keeps_try tabs_purge tabs_os tabs.keeps_return)
    (auto intro!: tabs.keeps_return tabs.keeps_bind tabs_copy tabs_os split: sum.splits)

lemma tabs_ingest: "tabs.keeps (ingestToTargetWithPolicy thumbKey staged target rel policy)"
proof -
  let ?dest = "Join [target, rel]"
  have "tabs.keeps (\<lambda>s. case chooseDest (db_fs s) policy ?dest of
          None \<Rightarrow> (Inl EIO, s)
        | Some (Inl _) \<Rightarrow> bindM (osRemove staged) (\<lambda>_. bindM (osRemove (staged @ ''.info'')) (\<lambda>_. returnM (?dest, True))) s
        | Some (Inr d) \<Rightarrow> placeStaged thumbKey staged d s)"
  proof (rule tabs.keepsI)
    fix s r s'
    assume run: "(case chooseDest (db_fs s) policy ?dest of
          None \<Rightarrow> (Inl EIO, s)
        | Some (Inl _) \<Rightarrow> bindM (osRemove staged) (\<lambda>_. bindM (osRemove (staged @ ''.info'')) (\<lambda>_. returnM (?dest, True))) s
        | Some (Inr d) \<Rightarrow> placeStaged thumbKey staged d s) = (r, s')"
    have rm: "tabs.keeps (bindM (osRemove staged) (\<lambda>_. bindM (osRemove (staged @ ''.info'')) (\<lambda>_. returnM (?dest, True))))"
      by (intro tabs.keeps_bind tabs_os tabs.keeps_return)
    show "sameTables s s'"
      using run tabs.keepsD [OF rm] tabs.keepsD [OF tabs_place]
      by (auto simp: tabs.S_refl split: option.splits sum.splits)
  qed
  then show ?thesis
    unfolding ingestToTargetWithPolicy_def Let_def by (intro tabs.keeps_bind tabs_os)
qed

text \<open>
  The contract between the batch store and its clients: a relation that every store
  operation respects is respected by every handler, event and sweeper round.
\<close>

locale store_relation = table_relation +
  assumes R_tasks: "tb_batches t' = tb_batches t \<Longrightarrow> tb_items t' = tb_items t \<Longrightarrow> R t t'"
    and k_interrupt: "src \<in> {BatchInterruptSourceSignal, BatchInterruptSourceTimeout} \<Longrightarrow> keeps (SetInterrupted i now src)"
    and k_abandon: "keeps (BatchStore_SetStatus i BatchStatusAbandoned)"
    and k_cleaned: "keeps (MarkStagingCleaned i)"
    and k_remove: "keeps (RemoveItems i ps)"
    and k_delete: "keeps DeleteTerminal"
    and k_mark: "keeps (MarkItemDone i rel now)"
    and k_touch: "keeps (TouchProgress i now)"
begin

lemma keeps_onErr: "keeps m \<Longrightarrow> keeps (onErr c m)"
  unfolding onErr_def
  by (intro keeps_bind keeps_try) (auto intro: keeps_throw keeps_return split: sum.splits)

lemma keeps_tasksOnly: "tasksOnly m \<Longrightarrow> keeps m"
  by (rule keepsI) (auto intro: R_tasks dest: tasksOnlyD)

lemma keeps_tabs: "tabs.keeps m \<Longrightarrow> keeps m"
  by (auto simp: keeps_def tabs.keeps_def sameTables_def R_refl)

lemma keeps_getOwned: "keeps (getOwnedBatch owner i)" "keeps (getOwnedTask owner i)"
proof -
  have "keeps (BatchStore_Get i)" "keeps (TaskStore_Get i)"
    unfolding BatchStore_Get_def TaskStore_Get_def
    by (auto intro!: keeps_bind keeps_query keeps_throw keeps_return split: option.splits)
  then show "keeps (getOwnedBatch owner i)" "keeps (getOwnedTask owner i)"
    unfolding getOwnedBatch_def getOwnedTask_def
    by (auto intro!: keeps_bind keeps_try keeps_throw keeps_return split: sum.splits)
qed

lemma keeps_cancelBatch:
  assumes "\<And>i e. tasksOnly (cancel i e)"
  shows "keeps (cancelBatchTasks us cancel dirs i)"
proof -
  have "tasksOnly (cancelOne cancel dirs e x)" for e x
    unfolding cancelOne_def by (intro tasksOnly_bind tasksOnly_forM tasksOnly_ignore tasksOnly_basic assms)
  then have loop: "keeps (forM (cancelOne cancel dirs e) xs)" for e xs
    by (intro keeps_tasksOnly tasksOnly_forM)
  have "keeps (\<lambda>s. forM (cancelOne cancel dirs (db_now s + UploadCanceledTTLSeconds)) xs s)" for xs
    by (rule keeps_read) (rule loop)
  then show ?thesis
    unfolding cancelBatchTasks_def ListUnfinishedByBatch_def by (intro keeps_ignore keeps_bind keeps_query)
qed

lemma keeps_Get: "keeps (GetUploadBatch user i)"
  unfolding GetUploadBatch_def MissingItems_def
  by (intro keeps_bind keeps_getOwned keeps_onErr keeps_query keeps_return)

lemma keeps_Interrupt:
  assumes "\<And>i e. tasksOnly (cancel i e)"
  shows "keeps (InterruptUploadBatch us cancel dirs user i)"
proof -
  have "keeps (\<lambda>s. (if b_Status b \<noteq> BatchStatusActive then returnM False
      else bindM (onErr 500 (SetInterrupted (b_ID b) (db_now s) BatchInterruptSourceSignal)) (\<lambda>_.
           bindM (cancelBatchTasks us cancel dirs (b_ID b)) (\<lambda>_.
           bindM (ignoreM (MarkStagingCleaned (b_ID b))) (\<lambda>_. returnM True)))) s)" for b
    by (rule keeps_read, rule keeps_if; (intro keeps_bind)?)
      (auto intro!: keeps_return keeps_onErr k_interrupt keeps_cancelBatch keeps_ignore k_cleaned assms)
  then show ?thesis unfolding InterruptUploadBatch_def by (intro keeps_bind keeps_getOwned)
qed

lemma keeps_AbandonBatch:
  assumes "\<And>i e. tasksOnly (cancel i e)"
  shows "keeps (AbandonUploadBatch us cancel dirs user i)"
  unfolding AbandonUploadBatch_def
  by (intro keeps_bind keeps_getOwned keeps_if keeps_return keeps_onErr k_abandon keeps_cancelBatch assms)

lemma keeps_AbandonUnderApi:
  assumes "\<And>i e. tasksOnly (cancel i e)"
  shows "keeps (AbandonUploadBatchesUnder us cancel dirs user body)"
  unfolding AbandonUploadBatchesUnder_def
  by (cases body) (auto intro!: keeps_throw keeps_bind keeps_onErr keeps_AbandonUnder k_abandon keeps_forM
      keeps_cancelBatch keeps_return assms)

lemma keeps_RemoveApi: "keeps (RemoveUploadBatchItems user i body)"
  unfolding RemoveUploadBatchItems_def
  by (cases body) (auto intro!: keeps_throw keeps_bind keeps_getOwned keeps_onErr k_remove keeps_return)

lemma keeps_Listing: "keeps (BrokenChildren dir user)"
proof -
  have "keeps (badgeLoop pre bs out)" for pre bs out
    by (induction bs arbitrary: out) (auto intro!: keeps_return keeps_bind simp: MissingItems_def intro: keeps_query)
  then show ?thesis
    unfolding BrokenChildren_def interruptedOf_def Let_def
    by (intro keeps_bind keeps_query keeps_if keeps_return)
qed

lemma keeps_CancelTask:
  assumes "\<And>i e. tasksOnly (cancel i e)"
  shows "keeps (CancelUpload cancel dirs user i)"
proof -
  have "keeps (\<lambda>s. bindM (onErr 500 (cancel i (db_now s + UploadCanceledTTLSeconds))) (\<lambda>canceled.
     bindM (if canceled then forM (\<lambda>dir. bindM (osRemove (Join [dir, i])) (\<lambda>_. osRemove (Join [dir, i @ ''.info'']))) dirs
            else returnM ()) (\<lambda>_. returnM canceled)) s)"
    by (rule keeps_read, intro keeps_bind keeps_onErr keeps_if keeps_forM keeps_return keeps_tasksOnly [OF assms]
        keeps_tabs [OF tabs_os(3)])
  then show ?thesis unfolding CancelUpload_def by (intro keeps_bind keeps_getOwned)
qed

lemma keeps_tasks:
  "keeps (TaskStore_Create x)" "keeps (TaskStore_SetStatus i st e)" "keeps (UpdateOffset i n e)"
  "keeps (SetFailed us i msg a e)"
  unfolding TaskStore_Create_def TaskStore_SetStatus_def UpdateOffset_def SetFailed_def updateTasks_def
  by (rule keeps_stmt; auto intro!: R_tasks split: if_splits)+

lemma keeps_events:
  "keeps (onCreated us marshal ev)" "keeps (onTerminated us ev)" "keeps (onProgress ev th)"
proof -
  show "keeps (onCreated us marshal ev)" "keeps (onTerminated us ev)"
    unfolding onCreated_def [abs_def] onTerminated_def [abs_def]
    by (rule keeps_read; intro keeps_ignore keeps_tasks)+
  show "keeps (onProgress ev th)"
    unfolding onProgress_def [abs_def] progressAt_def Let_def
    by (rule keeps_read) (auto intro!: keeps_bind keeps_ignore keeps_return keeps_tasks k_touch split: prod.splits)
qed

lemma keeps_Across: "keeps (MarkItemDoneAcrossBatches tp rel now)"
  unfolding MarkItemDoneAcrossBatches_def Let_def
  by (intro keeps_bind keeps_query keeps_forM keeps_if keeps_return k_mark)

lemma keeps_Complete: "keeps (onComplete us thumbKey showErr ev)"
proof -
  define st where "st = (if mapGet (ev_Storage ev) ''Path'' = [] then Join [FileUploadStagingDir, ev_ID ev]
                        else mapGet (ev_Storage ev) ''Path'')"
  define tp where "tp = mapGet (ev_MetaData ev) ''targetPath''"
  define bid where "bid = mapGet (ev_MetaData ev) ''batch_id''"
  have "keeps (\<lambda>s. (case r of
             Inl e \<Rightarrow> bindM (ignoreM (SetFailed us (ev_ID ev) (showErr e) (db_now s) (db_now s + UploadCanceledTTLSeconds)))
                       (\<lambda>_. returnM [])
           | Inr (dest, skipped) \<Rightarrow>
                bindM (ignoreM (TaskStore_SetStatus (ev_ID ev) (us_Completed us) 0)) (\<lambda>_.
                bindM (if bid = [] then returnM () else ignoreM (MarkItemDone bid (uploadRel ev) (db_now s))) (\<lambda>_.
                bindM (ignoreM (MarkItemDoneAcrossBatches tp (uploadRel ev) (db_now s))) (\<lambda>_.
                returnM (if skipped then [] else [dest]))))) s)" for r
    by (rule keeps_read) (auto intro!: keeps_bind keeps_ignore keeps_return keeps_tasks k_mark keeps_Across
        split: sum.splits prod.splits)
  from keeps_bind [OF keeps_try [OF keeps_tabs [OF tabs_ingest]] this]
  show ?thesis
    unfolding onComplete_def Let_def st_def [symmetric] tp_def [symmetric] bid_def [symmetric]
    by (simp add: sum.case_distrib [of "\<lambda>m. m _"] prod.case_distrib [of "\<lambda>m. m _"] cong: sum.case_cong)
qed

lemma keeps_Sweep:
  assumes "\<And>i e. tasksOnly (cancel i e)"
  shows "keeps (SweepBatches us cancel gone mtxt dirs now)"
proof -
  have c: "keeps (cancelUnfinished us cancel i dirs now)" for i
    by (intro keeps_tasksOnly tasksOnly_cancelUnfinished assms)
  have "keeps (interruptIdle now)"
    unfolding interruptIdle_def ListByStatus_def
    by (intro keeps_bind keeps_query keeps_forM keeps_if keeps_return k_interrupt) simp
  moreover have "keeps (cleanOne us cancel dirs now b)" for b
    unfolding cleanOne_def by (intro keeps_if keeps_return keeps_bind c k_cleaned)
  moreover have "keeps (orphanOne us cancel gone mounts dirs now b)" for b mounts
    unfolding orphanOne_def by (intro keeps_if keeps_return keeps_bind c k_abandon)
  ultimately show ?thesis
    unfolding SweepBatches_def ListByStatus_def by (intro keeps_bind keeps_query keeps_forM keeps_return k_delete)
qed

text \<open>Every step except the creation of a batch respects the relation.\<close>

lemma step_respects:
  assumes "uploadStep en s s'" and "\<And>i e. tasksOnly (en_cancel en i e)"
  shows "R (db_tab s) (db_tab s') \<or> (\<exists>user body. s' = snd (CreateUploadBatch user body s))"
  using assms(1)
proof (cases rule: uploadStep.cases)
  case (environment n fl f)
  then show ?thesis by (simp add: R_refl)
next
  case (create user body)
  then show ?thesis by blast
qed (auto intro!: disjI1 simp: keeps_def [symmetric]
  intro: keeps_Get [unfolded keeps_def, rule_format] keeps_Interrupt [OF assms(2), unfolded keeps_def, rule_format]
    keeps_AbandonBatch [OF assms(2), unfolded keeps_def, rule_format]
    keeps_AbandonUnderApi [OF assms(2), unfolded keeps_def, rule_format]
    keeps_RemoveApi [unfolded keeps_def, rule_format] keeps_Listing [unfolded keeps_def, rule_format]
    keeps_CancelTask [OF assms(2), unfolded keeps_def, rule_format]
    keeps_events [unfolded keeps_def, rule_format] keeps_Complete [unfolded keeps_def, rule_format]
    keeps_Sweep [OF assms(2), unfolded keeps_def, rule_format])

end

lemma batchInv_cong: "tb_batches t' = tb_batches t \<Longrightarrow> tb_items t' = tb_items t \<Longrightarrow> batchInv t' = batchInv t"
proof -
  assume eq: "tb_batches t' = tb_batches t" "tb_items t' = tb_items t"
  then have "itemsOf t' = itemsOf t" "doneOf t' = doneOf t" by (auto simp: itemsOf_def doneOf_def)
  then have "batchOK t' = batchOK t" by (simp add: batchOK_def [abs_def])
  with eq show ?thesis by (simp add: batchInv_def)
qed

interpretation binvS: store_relation invStep
proof
  show "tb_batches t' = tb_batches t \<Longrightarrow> tb_items t' = tb_items t \<Longrightarrow> invStep t t'" for t t'
    using batchInv_cong [of t' t] by (simp add: invStep_def)
qed (rule binv_SetInterrupted binv_Abandon binv_MarkStagingCleaned binv_RemoveItems binv_DeleteTerminal
      binv_MarkItemDone binv_TouchProgress; assumption?)+

interpretation histS: store_relation history
proof
  show "tb_batches t' = tb_batches t \<Longrightarrow> tb_items t' = tb_items t \<Longrightarrow> history t t'" for t t'
    by (metis hist.R_refl history_def)
qed (rule hist_SetInterrupted hist_Abandon hist_MarkStagingCleaned hist_RemoveItems hist_DeleteTerminal
      hist_MarkItemDone hist_TouchProgress)+

section \<open>Creation\<close>

lemma onErr_run:
  "onErr c m s = (r, s') \<Longrightarrow> \<exists>r'. m s = (r', s') \<and> (\<forall>x. r = Inr x \<longleftrightarrow> r' = Inr x)"
  by (cases "m s") (auto simp: onErr_def bindM_def tryM_def throwM_def returnM_def split: sum.splits)

lemma newBatch_fresh:
  assumes "cr_Items req \<noteq> []" and "rooted (cr_TargetPath req)"
    and "\<not> list_ex (\<lambda>it. badRelativePath (ci_RelativePath it)) (cr_Items req)"
  shows "freshBatch (newBatch user req now) (map (newItem req) (cr_Items req))"
  using assms
  by (auto simp: freshBatch_def newBatch_def newItem_def list_all_iff list_ex_iff itemOK_def badRelativePath_def
      Clean_idem)

text \<open>A call of the handler leaves the state or runs the store on a well-formed new batch.\<close>

lemma CreateUploadBatch_cases:
  assumes "CreateUploadBatch user body s = (r, s')"
  shows "s' = s \<or> (\<exists>req r'. body = Some req \<and> freshBatch (newBatch user req (db_now s)) (map (newItem req) (cr_Items req)) \<and>
    BatchStore_Create (newBatch user req (db_now s)) (map (newItem req) (cr_Items req)) s = (r', s') \<and>
    (\<forall>x. r = Inr x \<longrightarrow> r' = Inr () \<and> x = cr_ID req))"
proof (cases body)
  case None
  then show ?thesis using assms by (simp add: CreateUploadBatch_def)
next
  case (Some req)
  let ?c = "onErr 500 (BatchStore_Create (newBatch user req (db_now s)) (map (newItem req) (cr_Items req)))"
  show ?thesis
  proof (cases "cr_ID req = [] \<or> cr_TargetPath req = [] \<or> cr_Items req = [] \<or> \<not> rooted (cr_TargetPath req) \<or>
      list_ex (\<lambda>it. badRelativePath (ci_RelativePath it)) (cr_Items req)")
    case True
    then have "s' = s" using assms Some by (auto simp: CreateUploadBatch_def split: if_splits)
    then show ?thesis ..
  next
    case False
    obtain r1 s1 where c: "?c s = (r1, s1)" by force
    have "bindM ?c (\<lambda>_. returnM (cr_ID req)) s = (r, s')" using assms Some False by (simp add: CreateUploadBatch_def)
    then have "s' = s1" "\<forall>x. r = Inr x \<longrightarrow> r1 = Inr () \<and> x = cr_ID req"
      using c by (auto simp: bindM_def split: sum.splits)
    then show ?thesis using onErr_run [OF c] newBatch_fresh [of req user "db_now s"] False Some by auto
  qed
qed

lemma binv_CreateApi: "binv.keeps (CreateUploadBatch user body)"
proof (rule binv.keepsI)
  fix s r s'
  assume "CreateUploadBatch user body s = (r, s')"
  from CreateUploadBatch_cases [OF this] show "invStep (db_tab s) (db_tab s')"
    using binv_Create binv.keepsD by (auto simp: binv.R_refl) blast
qed

section \<open>Properties of the subsystem\<close>

lemma run_batchInv:
  assumes "uploadRun en s s'" and "\<And>i e. tasksOnly (en_cancel en i e)" and "batchInv (db_tab s)"
  shows "batchInv (db_tab s')"
  using assms(1,3)
proof (induction rule: uploadRun.induct)
  case (step s s' s'')
  have "invStep (db_tab s') (db_tab s'')"
    using binvS.step_respects [OF step.hyps(2) assms(2)] binv_CreateApi by (auto simp: binv.keeps_def)
  then show ?case using step by (simp add: invStep_def)
qed

text \<open>
  C1. Through every interleaving of requests, tus events, sweeper rounds, failing statements and
  failing file calls, starting from empty tables, the header of every batch agrees with its
  manifest: total and done count the items and the done items, a batch is open exactly while
  an item is missing unless it was abandoned, and every interrupt has a valid source.
\<close>

theorem upload_invariant:
  assumes "\<And>i e. tasksOnly (en_cancel en i e)"
    and "tb_batches (db_tab s) = []" and "tb_items (db_tab s) = []" and "uploadRun en s s'"
  shows "batchInv (db_tab s')"
  using assms by (intro run_batchInv [OF assms(4,1)]) (simp add: batchInv_def)

definition demoEnv :: env where
  "demoEnv = \<lparr>en_us = demoStatuses, en_cancel = demoCancel, en_marshal = (\<lambda>_. ''{}''),
     en_thumbKey = (\<lambda>_ _. ''k''), en_showErr = (\<lambda>_. ''error'')\<rparr>"

definition emptyDB :: db where
  "emptyDB = \<lparr>db_tab = \<lparr>tb_batches = [], tb_items = [], tb_tasks = [], tb_nextItem = 1\<rparr>, db_now = 10,
     db_faults = [], db_fs = []\<rparr>"

definition demoReq :: createBatchReq where
  "demoReq = \<lparr>cr_ID = ''B'', cr_TargetPath = ''/DATA/x'', cr_Items = [\<lparr>ci_RelativePath = ''a'', ci_Size = 1\<rparr>]\<rparr>"

theorem upload_invariant_witness:
  "batchInv (db_tab (snd (CreateUploadBatch ''1'' (Some demoReq) emptyDB)))"
proof -
  have "uploadRun demoEnv emptyDB (snd (CreateUploadBatch ''1'' (Some demoReq) emptyDB))"
    by (rule uploadRun.step [OF uploadRun.start uploadStep.create])
  from upload_invariant [OF _ _ _ this] show ?thesis
    by (simp add: demoEnv_def tasksOnly_demo emptyDB_def)
qed

text \<open>
  C3. The life cycle of a batch: whatever step is taken, each row after it stems from a row before
  it whose identity, owner and target it keeps, whose done count it does not lower and whose total
  it does not raise, with no way back from a terminal status and no revival of a batch that the
  closing window interrupted; or it is a batch just created by a request, active and with nothing done.
\<close>

theorem upload_lifecycle:
  assumes "\<And>i e. tasksOnly (en_cancel en i e)" and "batchInv (db_tab s)" and "uploadStep en s s'"
    and "b' \<in> set (tb_batches (db_tab s'))"
  shows "(\<exists>b \<in> set (tb_batches (db_tab s)). evolves b b') \<or>
    (b_ID b' \<notin> b_ID ` set (tb_batches (db_tab s)) \<and> b_Status b' = BatchStatusActive \<and> b_Done b' = 0)"
proof -
  consider "history (db_tab s) (db_tab s')" | user body where "s' = snd (CreateUploadBatch user body s)"
    using histS.step_respects [OF assms(3,1)] by blast
  then show ?thesis
  proof cases
    case 1
    then show ?thesis using assms(4) by (auto simp: history_def)
  next
    case 2
    then obtain r where run: "CreateUploadBatch user body s = (r, s')" by (metis prod.collapse)
    from CreateUploadBatch_cases [OF run] show ?thesis
    proof (elim disjE exE conjE)
      assume "s' = s"
      then show ?thesis using assms(4) evolves_refl by blast
    next
      fix req r'
      let ?b = "newBatch user req (db_now s)" and ?items = "map (newItem req) (cr_Items req)"
      assume cr: "BatchStore_Create ?b ?items s = (r', s')"
      show ?thesis
      proof (cases r')
        case (Inl e)
        then have "db_tab s' = db_tab s" using cr Create_Inl by blast
        then show ?thesis using assms(4) evolves_refl by auto
      next
        case (Inr u)
        then have "db_tab s' = created ?b ?items (db_now s) (db_tab s)"
          using Create_Inr [of ?b ?items s s'] cr assms(2) by (simp add: batchInv_def)
        then show ?thesis
          using assms(4) evolves_refl
          by (auto simp: created_def addItems_def stamped_def newBatch_def split: if_splits)
      qed
    qed
  qed
qed

theorem upload_lifecycle_witness:
  "\<exists>b \<in> set (tb_batches (db_tab badgeDB)). evolves b (hd (tb_batches (db_tab badgeDB)))"
proof -
  let ?s = "snd (GetUploadBatch ''1'' ''B1'' badgeDB)" and ?b = "hd (tb_batches (db_tab badgeDB))"
  have en: "\<And>i e. tasksOnly (en_cancel demoEnv i e)" by (simp add: demoEnv_def tasksOnly_demo)
  have st: "uploadStep demoEnv badgeDB ?s" by (rule uploadStep.get)
  have "db_tab ?s = db_tab badgeDB" "b_ID ?b \<in> b_ID ` set (tb_batches (db_tab badgeDB))" by code_simp+
  moreover have "?b \<in> set (tb_batches (db_tab badgeDB))" by (simp add: badgeDB_def)
  ultimately show ?thesis using upload_lifecycle [OF en badgeDB_inv st, of ?b] by simp
qed

section \<open>Isolation of users\<close>

text \<open>The rows whose id is outside \<open>J\<close> stay as they are.\<close>

definition othersKept :: "string set \<Rightarrow> tables \<Rightarrow> tables \<Rightarrow> bool" where
  "othersKept J t t' \<longleftrightarrow> filter (\<lambda>b. b_ID b \<notin> J) (tb_batches t') = filter (\<lambda>b. b_ID b \<notin> J) (tb_batches t)"

interpretation oth: table_relation "othersKept J" for J
  by unfold_locales (simp_all add: othersKept_def)

lemma oth_updateBatches:
  assumes "\<And>b. P b \<Longrightarrow> b_ID b \<in> J \<and> b_ID (f b) \<in> J"
  shows "oth.keeps J (updateBatches P f)"
proof -
  have "filter (\<lambda>b. b_ID b \<notin> J) (map (\<lambda>b. if P b then (f b)\<lparr>b_UpdatedAt := n\<rparr> else b) bs) =
      filter (\<lambda>b. b_ID b \<notin> J) bs" for n bs
    using assms by (induction bs) auto
  then show ?thesis unfolding updateBatches_def by (intro oth.keeps_stmt) (auto simp: othersKept_def)
qed

lemma oth_ops:
  assumes "i \<in> J"
  shows "oth.keeps J (SetInterrupted i now src)" "oth.keeps J (BatchStore_SetStatus i st)"
    "oth.keeps J (MarkStagingCleaned i)" "oth.keeps J (RemoveItems i ps)"
proof -
  show "oth.keeps J (SetInterrupted i now src)" "oth.keeps J (BatchStore_SetStatus i st)"
    "oth.keeps J (MarkStagingCleaned i)"
    unfolding SetInterrupted_def BatchStore_SetStatus_def MarkStagingCleaned_def
    by (intro oth.keeps_intros oth_updateBatches; use assms in simp)+
  have tx: "oth.keeps J m \<Longrightarrow> oth.keeps J (transaction m)" for m :: "unit dbm"
    by (rule oth.keeps_transaction) (blast dest: oth.keepsD)
  have "oth.keeps J (deleteItems P)" for P
    unfolding deleteItems_def by (rule oth.keeps_stmt) (auto simp: othersKept_def)
  then have "oth.keeps J (removeChunk i c)" for c
    unfolding removeChunk_def removeHeader_def
    by (intro tx oth.keeps_intros oth.keeps_if oth_updateBatches; use assms in simp)
  then show "oth.keeps J (RemoveItems i ps)" unfolding RemoveItems_def by (intro oth.keeps_intros)
qed

lemma oth_tasksOnly: "tasksOnly m \<Longrightarrow> oth.keeps J m"
  by (rule oth.keepsI) (auto simp: othersKept_def dest: tasksOnlyD)

lemma getOwned_Inr:
  "getOwnedBatch user i s = (Inr b, s') \<Longrightarrow>
   b \<in> set (tb_batches (db_tab s)) \<and> b_OwnerUserID b = user \<and> db_tab s' = db_tab s"
  by (auto simp: getOwnedBatch_def BatchStore_Get_def tryM_Inr throwM_def find_Some_iff
      dest!: query_Inr elim!: bindM_Inr split: sum.splits if_splits option.splits)

lemma getOwned_tab: "getOwnedBatch user i s = (r, s') \<Longrightarrow> db_tab s' = db_tab s"
proof -
  assume run: "getOwnedBatch user i s = (r, s')"
  have "tabs.keeps (query f)" for f
    by (rule tabs.keepsI) (metis query_tab sameTables_def snd_conv)
  then have "tabs.keeps (getOwnedBatch user i)"
    unfolding getOwnedBatch_def BatchStore_Get_def
    by (auto intro!: tabs.keeps_bind tabs.keeps_try tabs.keeps_throw tabs.keeps_return split: sum.splits option.splits)
  from tabs.keepsD [OF this run] show ?thesis by (simp add: sameTables_def)
qed

definition ownIDs :: "string \<Rightarrow> tables \<Rightarrow> string set" where
  "ownIDs user t = b_ID ` set (filter (\<lambda>b. b_OwnerUserID b = user) (tb_batches t))"

text \<open>A handler that first fetches the caller's batch touches only the caller's rows.\<close>

lemma oth_owned:
  assumes "\<And>b. b_ID b \<in> J \<Longrightarrow> oth.keeps J (k b)"
    and "ownIDs user (db_tab s) \<subseteq> J"
  shows "othersKept J (db_tab s) (db_tab (snd (bindM (getOwnedBatch user i) k s)))"
proof -
  obtain r s' where run: "bindM (getOwnedBatch user i) k s = (r, s')" by force
  obtain r1 s1 where g: "getOwnedBatch user i s = (r1, s1)" by force
  show ?thesis
  proof (cases r1)
    case (Inl e)
    then have "s' = s1" using run g by (simp add: bindM_def)
    then show ?thesis using run getOwned_tab [OF g] by (simp add: oth.R_refl)
  next
    case (Inr b)
    have o: "b \<in> set (tb_batches (db_tab s))" "b_OwnerUserID b = user" "db_tab s1 = db_tab s"
      using getOwned_Inr [of user i s b s1] g Inr by simp_all
    then have J: "b_ID b \<in> J" using assms(2) by (auto simp: ownIDs_def)
    have "k b s1 = (r, s')" using run g Inr by (simp add: bindM_def)
    from oth.keepsD [OF assms(1) [OF J] this] show ?thesis using o(3) run by simp
  qed
qed

lemma oth_cancelBatch:
  assumes "\<And>i e. tasksOnly (cancel i e)"
  shows "oth.keeps J (cancelBatchTasks us cancel dirs i)"
proof -
  have "tasksOnly (cancelOne cancel dirs e x)" for e x
    unfolding cancelOne_def by (intro tasksOnly_bind tasksOnly_forM tasksOnly_ignore tasksOnly_basic assms)
  then have loop: "oth.keeps J (forM (cancelOne cancel dirs e) xs)" for e xs
    by (intro oth_tasksOnly tasksOnly_forM)
  have "oth.keeps J (\<lambda>s. forM (cancelOne cancel dirs (db_now s + UploadCanceledTTLSeconds)) xs s)" for xs
    by (rule oth.keeps_read) (rule loop)
  then show ?thesis
    unfolding cancelBatchTasks_def ListUnfinishedByBatch_def by (intro oth.keeps_ignore oth.keeps_bind oth.keeps_query)
qed

lemma oth_onErr: "oth.keeps J m \<Longrightarrow> oth.keeps J (onErr c m)"
  unfolding onErr_def
  by (intro oth.keeps_bind oth.keeps_try) (auto intro: oth.keeps_throw oth.keeps_return split: sum.splits)

lemma oth_abandonLoop:
  "(\<And>b. b \<in> set bs \<Longrightarrow> b_ID b \<in> J) \<Longrightarrow> oth.keeps J (abandonLoop clean bs)"
  by (induction bs) (auto intro!: oth.keeps_intros oth_ops simp: MissingItems_def Let_def)

lemma oth_AbandonUnder:
  assumes "AbandonInterruptedUnder p user s = (r, s')" and "ownIDs user (db_tab s) \<subseteq> J"
  shows "othersKept J (db_tab s) (db_tab s')"
proof -
  obtain r1 s1 where q: "interruptedOf user s = (r1, s1)" by force
  have tab: "db_tab s1 = db_tab s" using q unfolding interruptedOf_def by (metis query_tab snd_conv)
  show ?thesis
  proof (cases r1)
    case (Inl e)
    then have "s' = s1" using assms(1) q by (simp add: AbandonInterruptedUnder_def bindM_def)
    then show ?thesis using tab by (simp add: oth.R_refl)
  next
    case (Inr bs)
    have "bs = filter (\<lambda>b. b_Status b = BatchStatusInterrupted \<and> b_OwnerUserID b = user) (tb_batches (db_tab s))"
      using q Inr by (auto simp: interruptedOf_def dest: query_Inr)
    then have "\<And>b. b \<in> set bs \<Longrightarrow> b_ID b \<in> J" using assms(2) by (auto simp: ownIDs_def)
    moreover have "abandonLoop (Clean p) bs s1 = (r, s')"
      using assms(1) q Inr by (simp add: AbandonInterruptedUnder_def bindM_def)
    ultimately show ?thesis using oth.keepsD [OF oth_abandonLoop] tab by metis
  qed
qed

lemma oth_AbandonUnderApi:
  assumes "\<And>i e. tasksOnly (cancel i e)"
    and "AbandonUploadBatchesUnder us cancel dirs user body s = (r, s')" and "ownIDs user (db_tab s) \<subseteq> J"
  shows "othersKept J (db_tab s) (db_tab s')"
proof (cases "body = None \<or> \<not> rooted (the body)")
  case True
  then have "s' = s" using assms(2)
    by (cases body) (auto simp: AbandonUploadBatchesUnder_def throwM_def)
  then show ?thesis by (simp add: oth.R_refl)
next
  case False
  then obtain path where path: "body = Some path" "rooted path" by auto
  obtain r1 s1 where a: "onErr 500 (AbandonInterruptedUnder path user) s = (r1, s1)" by force
  then obtain r2 where "AbandonInterruptedUnder path user s = (r2, s1)" using onErr_run by blast
  then have 1: "othersKept J (db_tab s) (db_tab s1)" using oth_AbandonUnder assms(3) by blast
  have k: "oth.keeps J (bindM (forM (cancelBatchTasks us cancel dirs) ids) (\<lambda>_. returnM (length ids)))" for ids
    by (intro oth.keeps_bind oth.keeps_forM oth_cancelBatch oth.keeps_return assms(1))
  have run: "bindM (onErr 500 (AbandonInterruptedUnder path user)) (\<lambda>ids.
      bindM (forM (cancelBatchTasks us cancel dirs) ids) (\<lambda>_. returnM (length ids))) s = (r, s')"
    using assms(2) path by (simp add: AbandonUploadBatchesUnder_def)
  show ?thesis
  proof (cases r1)
    case (Inl e)
    then show ?thesis using run a 1 by (simp add: bindM_def)
  next
    case (Inr ids)
    then have "bindM (forM (cancelBatchTasks us cancel dirs) ids) (\<lambda>_. returnM (length ids)) s1 = (r, s')"
      using run a by (simp add: bindM_def [of "onErr 500 (AbandonInterruptedUnder path user)"])
    from oth.R_trans [OF 1 oth.keepsD [OF k this]] show ?thesis .
  qed
qed

lemma oth_handlers:
  assumes "\<And>i e. tasksOnly (cancel i e)" and "ownIDs user (db_tab s) \<subseteq> J"
  shows "othersKept J (db_tab s) (db_tab (snd (InterruptUploadBatch us cancel dirs user i s)))"
    and "othersKept J (db_tab s) (db_tab (snd (AbandonUploadBatch us cancel dirs user i s)))"
    and "othersKept J (db_tab s) (db_tab (snd (RemoveUploadBatchItems user i paths s)))"
    and "othersKept J (db_tab s) (db_tab (snd (AbandonUploadBatchesUnder us cancel dirs user body s)))"
proof -
  have "oth.keeps J (\<lambda>s. (if b_Status b \<noteq> BatchStatusActive then returnM False
      else bindM (onErr 500 (SetInterrupted (b_ID b) (db_now s) BatchInterruptSourceSignal)) (\<lambda>_.
           bindM (cancelBatchTasks us cancel dirs (b_ID b)) (\<lambda>_.
           bindM (ignoreM (MarkStagingCleaned (b_ID b))) (\<lambda>_. returnM True)))) s)" if "b_ID b \<in> J" for b
    by (rule oth.keeps_read, intro oth.keeps_if oth.keeps_bind oth.keeps_return oth_onErr oth_ops oth_cancelBatch
        oth.keeps_ignore assms(1) that)
  from oth_owned [OF this assms(2)]
  show "othersKept J (db_tab s) (db_tab (snd (InterruptUploadBatch us cancel dirs user i s)))"
    unfolding InterruptUploadBatch_def .
  have "oth.keeps J (if b_Status b = BatchStatusAbandoned \<or> b_Status b = BatchStatusCompleted then returnM False
     else bindM (onErr 500 (BatchStore_SetStatus (b_ID b) BatchStatusAbandoned)) (\<lambda>_.
          bindM (cancelBatchTasks us cancel dirs (b_ID b)) (\<lambda>_. returnM True)))" if "b_ID b \<in> J" for b
    by (intro oth.keeps_if oth.keeps_bind oth.keeps_return oth_onErr oth_ops oth_cancelBatch assms(1) that)
  from oth_owned [OF this assms(2)]
  show "othersKept J (db_tab s) (db_tab (snd (AbandonUploadBatch us cancel dirs user i s)))"
    unfolding AbandonUploadBatch_def .
  have "oth.keeps J (case paths of None \<Rightarrow> throwM 400
     | Some paths \<Rightarrow>
         if paths = [] then throwM 400
         else if list_ex badRelativePath paths then throwM 400
         else bindM (onErr 500 (RemoveItems (b_ID b) paths)) (\<lambda>_. returnM True))" if "b_ID b \<in> J" for b
    using that by (cases paths) (auto intro!: oth.keeps_throw oth.keeps_bind oth.keeps_return oth_onErr oth_ops)
  from oth_owned [OF this assms(2)]
  show "othersKept J (db_tab s) (db_tab (snd (RemoveUploadBatchItems user i paths s)))"
    unfolding RemoveUploadBatchItems_def .
  show "othersKept J (db_tab s) (db_tab (snd (AbandonUploadBatchesUnder us cancel dirs user body s)))"
    by (rule oth_AbandonUnderApi [OF assms(1) _ assms(2)]) (rule prod.collapse [symmetric])
qed



end
