(* ===== verification/UploadGC.thy ===== *)
theory UploadGC
  imports TusIngest
begin

text \<open>
  The configuration of the garbage collector of staged uploads (\<^verbatim>\<open>service/upload/gc.go\<close>) and whether it looks where uploads are staged.
  The collector itself is code of another repository; the entries of \<^verbatim>\<open>/media\<close> and the test for a directory are those of
  \<open>StagingDirs\<close>.
\<close>

definition UploadPausedTTLSeconds :: int where "UploadPausedTTLSeconds = 3 * 24 * 60 * 60"
definition UploadGCIntervalSeconds :: int where "UploadGCIntervalSeconds = 60 * 60"

record GCConfig =
  gc_StagingDir :: string
  gc_StagingDirs :: "(string \<times> bool) list option \<Rightarrow> (string \<Rightarrow> bool) \<Rightarrow> string list"
  gc_PausedTTL :: int
  gc_GCIntervalSecs :: int

definition DefaultGCConfig :: GCConfig where
  "DefaultGCConfig = \<lparr>gc_StagingDir = FileUploadStagingDir, gc_StagingDirs = StagingDirs FileUploadStagingDir ''/media'',
     gc_PausedTTL = UploadPausedTTLSeconds, gc_GCIntervalSecs = UploadGCIntervalSeconds\<rparr>"

lemma Join_path_of:
  assumes "list_all proper cs" "list_all proper ds" "cs \<noteq> []" "ds \<noteq> []"
  shows "Join (path_of cs # ds) = path_of (cs @ ds)"
proof -
  have "StrJoin (path_of cs # ds) ''/'' = path_of (cs @ ds)"
    using assms(3,4) by (simp add: StrJoin_Cons path_of_snoc_slash)
  moreover have "path_of cs \<noteq> []" by (simp add: path_of_def)
  ultimately have "Join (path_of cs # ds) = Clean (path_of (cs @ ds))" by (metis Join.simps(2))
  then show ?thesis using Clean_path_of [of "cs @ ds"] assms(1,2) by simp
qed

lemma stagingDir_path:
  assumes "list_all proper cs" "cs \<noteq> []"
  shows "stagingDirForRoot (path_of cs) = path_of (cs @ [''.system_data'', ''file-tus-staging''])"
  unfolding stagingDirForRoot_def using assms by (intro Join_path_of) (simp_all add: proper_def)

lemma mediaDir_path:
  "proper n \<Longrightarrow> Join [''/media'', n, ''.system_data'', ''file-tus-staging''] = path_of [''media'', n, ''.system_data'', ''file-tus-staging'']"
  using Join_path_of [of "[''media'']" "[n, ''.system_data'', ''file-tus-staging'']"] by (simp add: proper_def path_of_def)

text \<open>An upload staged on the data disk or on a volume mounted directly below \<^verbatim>\<open>/media\<close> is where the collector looks, as long as the
  directory exists.\<close>

theorem gc_finds_staging:
  assumes "root = legacyStagingRoot \<or> root = path_of [''media'', label] \<and> proper label \<and> (label, True) \<in> set entries \<and> isDir (stagingDirForRoot root)"
  shows "dirForRoot (newRoutingStore FileUploadStagingDir) root \<in> set (gc_StagingDirs DefaultGCConfig (Some entries) isDir)"
proof (cases "root = legacyStagingRoot")
  case False
  then have r: "root = path_of [''media'', label]" "proper label" "(label, True) \<in> set entries" "isDir (stagingDirForRoot root)" using assms by auto
  have "stagingDirForRoot root = Join [''/media'', label, ''.system_data'', ''file-tus-staging'']"
    using stagingDir_path [of "[''media'', label]"] mediaDir_path r(1,2) by (simp add: proper_def)
  with r(3,4) False show ?thesis
    by (force simp: dirForRoot_def newRoutingStore_def DefaultGCConfig_def StagingDirs_def)
qed (simp add: dirForRoot_def newRoutingStore_def DefaultGCConfig_def StagingDirs_def)

theorem gc_finds_staging_witness:
  "dirForRoot (newRoutingStore FileUploadStagingDir) ''/media/R'' \<in> set (gc_StagingDirs DefaultGCConfig (Some [(''R'', True)]) (\<lambda>d. True))"
  using gc_finds_staging [of "''/media/R''" "''R''" "[(''R'', True)]" "\<lambda>d. True"] by (simp add: path_of_def proper_def)

text \<open>An upload to a file system that is mounted elsewhere is staged where the collector never looks: here the data directory of a machine
  with one ext4 partition.\<close>

theorem gc_misses_root_volume:
  assumes "list_all (\<lambda>e. proper (fst e)) entries"
  shows "fst (resolveStagingRoot ''/DATA/x'' [\<lparr>me_Mountpoint = ''/'', me_FSType = ''ext4''\<rparr>]) = ''/'' \<and>
    dirForRoot (newRoutingStore FileUploadStagingDir) ''/'' = ''/.system_data/file-tus-staging'' \<and>
    ''/.system_data/file-tus-staging'' \<notin> set (gc_StagingDirs DefaultGCConfig (Some entries) isDir)"
proof (intro conjI)
  show "fst (resolveStagingRoot ''/DATA/x'' [\<lparr>me_Mountpoint = ''/'', me_FSType = ''ext4''\<rparr>]) = ''/''"
    "dirForRoot (newRoutingStore FileUploadStagingDir) ''/'' = ''/.system_data/file-tus-staging''" by code_simp+
  have "Join [''/media'', fst e, ''.system_data'', ''file-tus-staging''] \<noteq> ''/.system_data/file-tus-staging''" if "e \<in> set entries" for e
    using assms that mediaDir_path [of "fst e"] by (simp add: list_all_iff path_of_def)
  then show "''/.system_data/file-tus-staging'' \<notin> set (gc_StagingDirs DefaultGCConfig (Some entries) isDir)"
    by (force simp: DefaultGCConfig_def StagingDirs_def FileUploadStagingDir_def)
qed

theorem gc_misses_root_volume_witness:
  "''/.system_data/file-tus-staging'' \<notin> set (gc_StagingDirs DefaultGCConfig (Some [(''R'', True)]) (\<lambda>d. True))"
  using gc_misses_root_volume [of "[(''R'', True)]" "\<lambda>d. True"] by (simp add: proper_def)

end
