(* ===== verification/FileQueue.thy ===== *)
theory FileQueue
  imports GoPath "HOL-Library.AList" "HOL-Library.Multiset" "HOL-Library.List_Lexorder" "HOL-Library.Char_ord"
begin

text \<open>
  The queue of file operations (\<^verbatim>\<open>service/file.go\<close>) and its progress notifications
  (\<^verbatim>\<open>service/notify.go\<close>): admission with deduplication by fingerprint, retirement, cancellation
  contexts, the running marker and the completion record. Each definition of a queue operation is one
  critical section of the code; operations with several sections are given section by section,
  and a step relation interleaves them freely.
\<close>

section \<open>State\<close>

record FileItem =
  fi_From :: string
  fi_Finished :: bool
  fi_Size :: int
  fi_ProcessedSize :: int
  fi_ParkedPath :: string

record FileOperate =
  fo_Type :: string
  fo_Item :: "FileItem list"
  fo_TotalSize :: int
  fo_ProcessedSize :: int
  fo_To :: string
  fo_Style :: string
  fo_Finished :: bool
  fo_Cancelled :: bool

text \<open>
  The package state: \<open>FileQueue\<close> as an association list, the fields of \<open>opQueue\<close>, and the
  contexts created so far, numbered, with the set of cancelled ones.
\<close>

record opState =
  q_FileQueue :: "(string \<times> FileOperate) list"
  q_ids :: "string list"
  q_fingerprintOf :: "(string \<times> string) list"
  q_activeFingerprints :: "string set"
  q_ctxOf :: "(string \<times> nat) list"
  q_cancelOf :: "(string \<times> nat) list"
  q_running :: string
  q_finished :: "string set"
  q_nextCtx :: nat
  q_cancelled :: "nat set"

definition emptyQueue :: opState where
  "emptyQueue = \<lparr>q_FileQueue = [], q_ids = [], q_fingerprintOf = [], q_activeFingerprints = {}, q_ctxOf = [],
     q_cancelOf = [], q_running = [], q_finished = {}, q_nextCtx = 0, q_cancelled = {}\<rparr>"

section \<open>Operations\<close>

definition NUL :: char where "NUL = CHR 0x00"

definition fileOperateFingerprint :: "FileOperate \<Rightarrow> string" where
  "fileOperateFingerprint t =
     fo_Type t @ [NUL] @ fo_To t @ [NUL] @ StrJoin (sort (map fi_From (fo_Item t))) [NUL]"

definition fqLoad :: "string \<Rightarrow> opState \<Rightarrow> FileOperate option" where
  "fqLoad i s = map_of (q_FileQueue s) i"

definition fqStore :: "string \<Rightarrow> FileOperate \<Rightarrow> opState \<Rightarrow> opState" where
  "fqStore i t s = s\<lparr>q_FileQueue := AList.update i t (q_FileQueue s)\<rparr>"

definition fqDelete :: "string \<Rightarrow> opState \<Rightarrow> opState" where
  "fqDelete i s = s\<lparr>q_FileQueue := filter (\<lambda>e. fst e \<noteq> i) (q_FileQueue s)\<rparr>"

text \<open>The critical section of \<^verbatim>\<open>markOpFinished\<close>, and the whole of it when the load succeeds.\<close>

definition markOpFinished :: "string \<Rightarrow> opState \<Rightarrow> opState" where
  "markOpFinished i s = (case fqLoad i s of None \<Rightarrow> s | Some _ \<Rightarrow> s\<lparr>q_finished := insert i (q_finished s)\<rparr>)"

definition opFinished :: "string \<Rightarrow> opState \<Rightarrow> bool" where
  "opFinished i s = (i \<in> q_finished s)"

text \<open>Returns \<open>(isFirst, duplicate)\<close>.\<close>

definition EnqueueOp :: "string \<Rightarrow> FileOperate \<Rightarrow> opState \<Rightarrow> (bool \<times> bool) \<times> opState" where
  "EnqueueOp i t s =
     (let fp = fileOperateFingerprint t in
      if fp \<in> q_activeFingerprints s then ((False, True), s)
      else (let s1 = fqStore i t s;
                s2 = s1\<lparr>q_ids := q_ids s1 @ [i],
                        q_fingerprintOf := AList.update i fp (q_fingerprintOf s1),
                        q_activeFingerprints := insert fp (q_activeFingerprints s1),
                        q_ctxOf := AList.update i (q_nextCtx s1) (q_ctxOf s1),
                        q_cancelOf := AList.update i (q_nextCtx s1) (q_cancelOf s1),
                        q_nextCtx := Suc (q_nextCtx s1)\<rparr>
            in ((length (q_ids s2) = 1, False), s2)))"

definition releaseQueueSlotLocked :: "string \<Rightarrow> opState \<Rightarrow> opState" where
  "releaseQueueSlotLocked i s =
     (let s1 = s\<lparr>q_ids := filter (\<lambda>v. v \<noteq> i) (q_ids s)\<rparr>;
          s2 = (case map_of (q_fingerprintOf s1) i of None \<Rightarrow> s1
                | Some fp \<Rightarrow> s1\<lparr>q_fingerprintOf := filter (\<lambda>e. fst e \<noteq> i) (q_fingerprintOf s1),
                                 q_activeFingerprints := q_activeFingerprints s1 - {fp}\<rparr>)
      in s2\<lparr>q_finished := q_finished s2 - {i}\<rparr>)"

definition DequeueOp :: "string \<Rightarrow> opState \<Rightarrow> opState" where
  "DequeueOp i s =
     (let s1 = releaseQueueSlotLocked i s
      in s1\<lparr>q_ctxOf := filter (\<lambda>e. fst e \<noteq> i) (q_ctxOf s1),
            q_cancelOf := filter (\<lambda>e. fst e \<noteq> i) (q_cancelOf s1),
            q_running := (if q_running s1 = i then [] else q_running s1)\<rparr>)"

definition PeekOps :: "opState \<Rightarrow> string list" where
  "PeekOps s = q_ids s"

definition ClearOps :: "opState \<Rightarrow> opState" where
  "ClearOps s = s\<lparr>q_ids := [], q_fingerprintOf := [], q_activeFingerprints := {}, q_finished := {}, q_running := []\<rparr>"

text \<open>Returns the context (\<open>None\<close> for the background context) and \<open>alreadyRunning\<close>.\<close>

definition beginRun :: "string \<Rightarrow> opState \<Rightarrow> (nat option \<times> bool) \<times> opState" where
  "beginRun i s =
     (if q_running s = i then ((None, True), s)
      else ((map_of (q_ctxOf s) i, False), s\<lparr>q_running := i\<rparr>))"

definition endRun :: "string \<Rightarrow> opState \<Rightarrow> opState" where
  "endRun i s = (if q_running s = i then s\<lparr>q_running := []\<rparr> else s)"

definition ctxErr :: "nat option \<Rightarrow> opState \<Rightarrow> bool" where
  "ctxErr c s = (case c of None \<Rightarrow> False | Some n \<Rightarrow> n \<in> q_cancelled s)"

definition callCancel :: "nat \<Rightarrow> opState \<Rightarrow> opState" where
  "callCancel n s = s\<lparr>q_cancelled := insert n (q_cancelled s)\<rparr>"

text \<open>
  \<^verbatim>\<open>CancelOp\<close>: the checks before the lock, the locked section (the cancel function and whether
  the task runs), and what follows the unlock.
\<close>

definition cancelGate :: "string \<Rightarrow> opState \<Rightarrow> bool" where
  "cancelGate i s = (case fqLoad i s of None \<Rightarrow> False | Some op \<Rightarrow> \<not> fo_Finished op \<and> \<not> opFinished i s)"

definition cancelLocked :: "string \<Rightarrow> opState \<Rightarrow> (nat \<times> bool) option \<times> opState" where
  "cancelLocked i s =
     (let running = (q_running s = i) in
      case map_of (q_cancelOf s) i of
        None \<Rightarrow> (None, s)
      | Some n \<Rightarrow> (Some (n, running), if running then s else releaseQueueSlotLocked i s))"

definition CancelOp :: "string \<Rightarrow> opState \<Rightarrow> opState" where
  "CancelOp i s =
     (if \<not> cancelGate i s then s
      else (case cancelLocked i s of
              (None, s1) \<Rightarrow> s1
            | (Some (n, running), s1) \<Rightarrow>
                (let s2 = callCancel n s1 in if running then s2 else fqDelete i s2)))"

text \<open>The three sections of \<^verbatim>\<open>CancelAllOps\<close> and their composition.\<close>

definition cancelEvery :: "opState \<Rightarrow> opState" where
  "cancelEvery s = s\<lparr>q_cancelled := q_cancelled s \<union> snd ` set (q_cancelOf s)\<rparr>"

definition fqClear :: "opState \<Rightarrow> opState" where
  "fqClear s = s\<lparr>q_FileQueue := []\<rparr>"

definition CancelAllOps :: "opState \<Rightarrow> opState" where
  "CancelAllOps s = ClearOps (fqClear (cancelEvery s))"

definition storeFileProgress :: "string \<Rightarrow> FileOperate \<Rightarrow> opState \<Rightarrow> opState" where
  "storeFileProgress i progress s =
     (case fqLoad i s of None \<Rightarrow> s
      | Some op \<Rightarrow> if fo_Finished op \<or> fo_Cancelled op then s
                  else if opFinished i s then s
                  else fqStore i progress s)"

section \<open>Notifications\<close>

record notifyFile =
  nf_Id :: string
  nf_ProcessedSize :: int
  nf_TotalSize :: int
  nf_To :: string
  nf_Type :: string
  nf_Status :: string
  nf_ParkedPath :: string
  nf_Finished :: bool
  nf_Cancelled :: bool
  nf_ProcessingPath :: string

definition buildFileNotifyTask :: "string \<Rightarrow> FileOperate \<Rightarrow> opState \<Rightarrow> notifyFile \<times> bool" where
  "buildFileNotifyTask i temp s =
     (let parked = (case find (\<lambda>v. fi_ParkedPath v \<noteq> []) (fo_Item temp) of None \<Rightarrow> [] | Some v \<Rightarrow> fi_ParkedPath v);
          task = \<lparr>nf_Id = i, nf_ProcessedSize = fo_ProcessedSize temp, nf_TotalSize = fo_TotalSize temp,
                  nf_To = fo_To temp, nf_Type = fo_Type temp,
                  nf_Status = (if fo_ProcessedSize temp = 0 then ''STARTING'' else ''PROCESSING''),
                  nf_ParkedPath = parked, nf_Finished = False, nf_Cancelled = False, nf_ProcessingPath = []\<rparr>
      in if fo_Finished temp \<or> opFinished i s \<or> (fo_TotalSize temp > 0 \<and> fo_ProcessedSize temp \<ge> fo_TotalSize temp)
         then ((if fo_Cancelled temp then task\<lparr>nf_Finished := True, nf_Cancelled := True, nf_Status := ''CANCELLED''\<rparr>
                else task\<lparr>nf_Finished := True, nf_Status := ''FINISHED''\<rparr>), True)
         else ((case find (\<lambda>v. fi_Size v \<noteq> fi_ProcessedSize v) (fo_Item temp) of
                  None \<Rightarrow> task | Some v \<Rightarrow> task\<lparr>nf_ProcessingPath := fi_From v\<rparr>), False))"

text \<open>
  One pass of the notify loop over a snapshot of the queue: the list to publish, the number of \<^verbatim>\<open>ExecOpFile\<close>
  goroutines it starts, and the new state.
\<close>

fun notifyPass :: "string list \<Rightarrow> opState \<Rightarrow> notifyFile list \<times> nat \<times> opState" where
  "notifyPass [] s = ([], 0, s)"
| "notifyPass (v # vs) s =
     (case fqLoad v s of
        None \<Rightarrow> notifyPass vs s
      | Some temp \<Rightarrow>
          (case buildFileNotifyTask v temp s of
             (task, fin) \<Rightarrow>
               (if fin
                then (case notifyPass vs (DequeueOp v (fqDelete v s)) of (rest, n, s2) \<Rightarrow> (task # rest, Suc n, s2))
                else (case notifyPass vs s of (rest, n, s2) \<Rightarrow> (task # rest, n, s2)))))"

text \<open>The immediate broadcast publishes an empty list when \<open>FileQueue\<close> is empty.\<close>

definition SendFileOperateNotify_now :: "opState \<Rightarrow> notifyFile list \<times> nat \<times> opState" where
  "SendFileOperateNotify_now s = (if q_FileQueue s = [] then ([], 0, s) else notifyPass (PeekOps s) s)"

text \<open>A round of the periodic loop: \<open>None\<close> when the loop ends because \<open>FileQueue\<close> is empty.\<close>

definition notifyRound :: "opState \<Rightarrow> (notifyFile list \<times> nat \<times> opState) option" where
  "notifyRound s = (if q_FileQueue s = [] then None else Some (notifyPass (PeekOps s) s))"

text \<open>
  The last part of \<^verbatim>\<open>FileOperate\<close> when its item loop is over: store the terminal state, record the
  completion, and for a cancelled task publish it, retire it and start an \<^verbatim>\<open>ExecOpFile\<close> goroutine. The first
  component is what is pushed, the second the number of goroutines started.
\<close>

definition finishRun :: "string \<Rightarrow> FileOperate \<Rightarrow> bool \<Rightarrow> opState \<Rightarrow> notifyFile list \<times> nat \<times> opState" where
  "finishRun k temp cancelled s =
     (let temp' = temp\<lparr>fo_Finished := True, fo_Cancelled := (fo_Cancelled temp \<or> cancelled)\<rparr>;
          s1 = markOpFinished k (fqStore k temp' s)
      in if cancelled
         then ([fst (buildFileNotifyTask k temp' s1)], 1, DequeueOp k (fqDelete k s1))
         else ([], 0, s1))"

text \<open>
  One task of a \<^verbatim>\<open>CheckFileStatus\<close> pass; \<open>sizeOf\<close> measures a path and fails with \<open>None\<close>. The slice
  \<open>temp.Item\<close> shares its array with the entry of \<open>FileQueue\<close>, so the item updates land in the
  entry whether or not the snapshot is stored afterwards.
\<close>

fun checkItems :: "(string \<Rightarrow> int option) \<Rightarrow> string \<Rightarrow> FileItem list \<Rightarrow> int \<Rightarrow> FileItem list \<times> int" where
  "checkItems sizeOf dest [] tot = ([], tot)"
| "checkItems sizeOf dest (v # vs) tot =
     (if \<not> fi_Finished v
      then (case sizeOf (dest @ ''/'' @ Base (fi_From v)) of
              None \<Rightarrow> (case checkItems sizeOf dest vs tot of (is, n) \<Rightarrow> (v # is, n))
            | Some sz \<Rightarrow>
                (case checkItems sizeOf dest vs (tot + sz) of (is, n) \<Rightarrow>
                   (v\<lparr>fi_ProcessedSize := sz, fi_Finished := (sz = fi_Size v)\<rparr> # is, n)))
      else (case checkItems sizeOf dest vs (tot + fi_ProcessedSize v) of (is, n) \<Rightarrow> (v # is, n)))"

definition CheckFileStatus_task :: "(string \<Rightarrow> int option) \<Rightarrow> string \<Rightarrow> opState \<Rightarrow> opState" where
  "CheckFileStatus_task sizeOf v s =
     (case fqLoad v s of
        None \<Rightarrow> s
      | Some temp \<Rightarrow>
          (case checkItems sizeOf (fo_To temp) (fo_Item temp) 0 of
             (is, tot) \<Rightarrow>
               (let s1 = fqStore v (temp\<lparr>fo_Item := is\<rparr>) s
                in storeFileProgress v (temp\<lparr>fo_Item := is, fo_ProcessedSize := tot\<rparr>) s1)))"

text \<open>A pass over a snapshot of the queue; \<open>None\<close> when the loop ends because the queue is empty.\<close>

definition CheckFileStatus_pass :: "(string \<Rightarrow> int option) \<Rightarrow> opState \<Rightarrow> opState option" where
  "CheckFileStatus_pass sizeOf s =
     (if PeekOps s = [] then None else Some (fold (CheckFileStatus_task sizeOf) (PeekOps s) s))"

text \<open>The entry checks of \<^verbatim>\<open>FileOperate\<close>: the loaded task, unless it is gone or has already run.\<close>

definition FileOperate_load :: "string \<Rightarrow> opState \<Rightarrow> FileOperate option" where
  "FileOperate_load k s =
     (case fqLoad k s of
        None \<Rightarrow> None
      | Some temp \<Rightarrow> if fo_Finished temp \<or> fo_ProcessedSize temp > 0 \<or> opFinished k s then None else Some temp)"

text \<open>The task an \<^verbatim>\<open>ExecOpFile\<close> goroutine starts.\<close>

definition ExecOpFile :: "opState \<Rightarrow> string option" where
  "ExecOpFile s = (case PeekOps s of [] \<Rightarrow> None | i # _ \<Rightarrow> Some i)"

end
