(* ===== verification/FileQueueRun.thy ===== *)
theory FileQueueRun
  imports FileQueue
begin

text \<open>
  The goroutines around the queue of file operations as a labelled step relation: handlers that submit and
  cancel, \<^verbatim>\<open>ExecOpFile\<close> goroutines, workers inside \<^verbatim>\<open>FileOperate\<close>, the notify pollers and the
  progress walker. A goroutine is a program point with its local variables; one step is one access to the
  shared state (a section under the lock of \<open>opQueue\<close> or one call on \<open>FileQueue\<close>, together with the reads
  that precede it), so the pollers, workers and handlers interleave in every order.
\<close>

section \<open>Goroutines and steps\<close>

datatype gor =
    Dispatched string
  | Loaded string FileOperate
  | Running string FileOperate "nat option"
  | Stored string bool
  | Retiring string
  | Dequeuing string
  | Ending string
  | PollDequeue string
  | CancelGated string
  | CancelCall string nat bool
  | CancelDelete string
  | AllCancelled
  | AllCleared

record opSys =
  sys_q :: opState
  sys_execs :: nat
  sys_gors :: "gor list"

definition initSys :: opSys where
  "initSys = \<lparr>sys_q = emptyQueue, sys_execs = 0, sys_gors = []\<rparr>"

primrec gorId :: "gor \<Rightarrow> string" where
  "gorId (Dispatched i) = i"
| "gorId (Loaded i t) = i"
| "gorId (Running i t x) = i"
| "gorId (Stored i b) = i"
| "gorId (Retiring i) = i"
| "gorId (Dequeuing i) = i"
| "gorId (Ending i) = i"
| "gorId (PollDequeue i) = i"
| "gorId (CancelGated i) = i"
| "gorId (CancelCall i n r) = i"
| "gorId (CancelDelete i) = i"
| "gorId AllCancelled = []"
| "gorId AllCleared = []"

text \<open>A new uuid is in no table and no goroutine holds it.\<close>

definition freshId :: "string \<Rightarrow> opSys \<Rightarrow> bool" where
  "freshId i c = (i \<noteq> [] \<and> i \<notin> set (q_ids (sys_q c)) \<and> i \<notin> fst ` set (q_ctxOf (sys_q c))
     \<and> i \<notin> gorId ` set (sys_gors c))"

datatype ev = Tau | Submitted string FileOperate bool | Began string "nat option" | DequeuedEv string

text \<open>Replaces a goroutine by its continuation, if it has one.\<close>

definition cont :: "gor \<Rightarrow> gor list \<Rightarrow> opState \<Rightarrow> nat \<Rightarrow> opSys \<Rightarrow> opSys" where
  "cont g k q n c = \<lparr>sys_q = q, sys_execs = sys_execs c + n, sys_gors = remove1 g (sys_gors c) @ k\<rparr>"

definition finTask :: "FileOperate \<Rightarrow> bool \<Rightarrow> FileOperate" where
  "finTask t c = t\<lparr>fo_Finished := True, fo_Cancelled := (fo_Cancelled t \<or> c)\<rparr>"

inductive fileStep :: "opSys \<Rightarrow> ev \<Rightarrow> opSys \<Rightarrow> bool" where
  submit: "\<lbrakk>freshId i c; EnqueueOp i t (sys_q c) = ((isFirst, dup), q')\<rbrakk>
     \<Longrightarrow> fileStep c (Submitted i t dup)
           \<lparr>sys_q = q', sys_execs = sys_execs c + (if \<not> dup \<and> isFirst then 1 else 0), sys_gors = sys_gors c\<rparr>"
| dispatch: "0 < sys_execs c
     \<Longrightarrow> fileStep c Tau \<lparr>sys_q = sys_q c, sys_execs = sys_execs c - 1,
           sys_gors = sys_gors c @ (case ExecOpFile (sys_q c) of None \<Rightarrow> [] | Some i \<Rightarrow> [Dispatched i])\<rparr>"
| load: "Dispatched i \<in> set (sys_gors c)
     \<Longrightarrow> fileStep c Tau (cont (Dispatched i)
           (case FileOperate_load i (sys_q c) of None \<Rightarrow> [] | Some t \<Rightarrow> [Loaded i t]) (sys_q c) 0 c)"
| refuse: "\<lbrakk>Loaded i t \<in> set (sys_gors c); beginRun i (sys_q c) = ((x, True), q')\<rbrakk>
     \<Longrightarrow> fileStep c Tau (cont (Loaded i t) [] q' 0 c)"
| beginR: "\<lbrakk>Loaded i t \<in> set (sys_gors c); beginRun i (sys_q c) = ((x, False), q')\<rbrakk>
     \<Longrightarrow> fileStep c (Began i x) (cont (Loaded i t) [Running i t x] q' 0 c)"
| finish: "\<lbrakk>Running i t x \<in> set (sys_gors c); cancelled \<longrightarrow> ctxErr x (sys_q c);
            fo_Type t' = fo_Type t; fo_To t' = fo_To t; fo_TotalSize t' = fo_TotalSize t; map fi_From (fo_Item t') = map fi_From (fo_Item t)\<rbrakk>
     \<Longrightarrow> fileStep c Tau (cont (Running i t x) [Stored i cancelled] (fqStore i (finTask t' cancelled) (sys_q c)) 0 c)"
| mark: "Stored i cancelled \<in> set (sys_gors c)
     \<Longrightarrow> fileStep c Tau (cont (Stored i cancelled) [if cancelled then Retiring i else Ending i]
           (markOpFinished i (sys_q c)) 0 c)"
| retire: "Retiring i \<in> set (sys_gors c)
     \<Longrightarrow> fileStep c Tau (cont (Retiring i) [Dequeuing i] (fqDelete i (sys_q c)) 0 c)"
| dequeue: "Dequeuing i \<in> set (sys_gors c)
     \<Longrightarrow> fileStep c (DequeuedEv i) (cont (Dequeuing i) [Ending i] (DequeueOp i (sys_q c)) 1 c)"
| ending: "Ending i \<in> set (sys_gors c) \<Longrightarrow> fileStep c Tau (cont (Ending i) [] (endRun i (sys_q c)) 0 c)"
| poll: "\<lbrakk>fqLoad i (sys_q c) = Some t; snd (buildFileNotifyTask i t (sys_q c))\<rbrakk>
     \<Longrightarrow> fileStep c Tau \<lparr>sys_q = fqDelete i (sys_q c), sys_execs = sys_execs c,
           sys_gors = sys_gors c @ [PollDequeue i]\<rparr>"
| pollDequeue: "PollDequeue i \<in> set (sys_gors c)
     \<Longrightarrow> fileStep c (DequeuedEv i) (cont (PollDequeue i) [] (DequeueOp i (sys_q c)) 1 c)"
| progress: "fileStep c Tau (c\<lparr>sys_q := CheckFileStatus_task sizeOf i (sys_q c)\<rparr>)"
| cancelGate: "cancelGate i (sys_q c)
     \<Longrightarrow> fileStep c Tau (c\<lparr>sys_gors := sys_gors c @ [CancelGated i]\<rparr>)"
| cancelNone: "\<lbrakk>CancelGated i \<in> set (sys_gors c); cancelLocked i (sys_q c) = (None, q')\<rbrakk>
     \<Longrightarrow> fileStep c Tau (cont (CancelGated i) [] q' 0 c)"
| cancelSome: "\<lbrakk>CancelGated i \<in> set (sys_gors c); cancelLocked i (sys_q c) = (Some (n, r), q')\<rbrakk>
     \<Longrightarrow> fileStep c Tau (cont (CancelGated i) [CancelCall i n r] q' 0 c)"
| cancelCall: "CancelCall i n r \<in> set (sys_gors c)
     \<Longrightarrow> fileStep c Tau (cont (CancelCall i n r) (if r then [] else [CancelDelete i]) (callCancel n (sys_q c)) 0 c)"
| cancelDelete: "CancelDelete i \<in> set (sys_gors c)
     \<Longrightarrow> fileStep c Tau (cont (CancelDelete i) [] (fqDelete i (sys_q c)) 0 c)"
| cancelAll: "fileStep c Tau \<lparr>sys_q = cancelEvery (sys_q c), sys_execs = sys_execs c,
                sys_gors = sys_gors c @ [AllCancelled]\<rparr>"
| clearQueue: "AllCancelled \<in> set (sys_gors c)
     \<Longrightarrow> fileStep c Tau (cont AllCancelled [AllCleared] (fqClear (sys_q c)) 0 c)"
| clearOps: "AllCleared \<in> set (sys_gors c)
     \<Longrightarrow> fileStep c Tau (cont AllCleared [] (ClearOps (sys_q c)) 0 c)"

inductive fileRun :: "opSys \<Rightarrow> ev list \<Rightarrow> opSys \<Rightarrow> bool" where
  run_nil: "fileRun c [] c"
| run_snoc: "\<lbrakk>fileRun c es c'; fileStep c' e c''\<rbrakk> \<Longrightarrow> fileRun c (es @ [e]) c''"

section \<open>Bookkeeping invariant\<close>

text \<open>
  The bookkeeping of \<open>opQueue\<close>: ids are distinct, exactly the ids in the queue hold a fingerprint, no
  two of them hold the same one, the set of active fingerprints is the set of those held, the contexts
  and the cancel functions are of the same tasks, and every queued task has both.
\<close>

definition fpInv :: "string list \<Rightarrow> (string \<times> string) list \<Rightarrow> string set \<Rightarrow> bool" where
  "fpInv ids fps act = (distinct ids \<and> distinct (map fst fps) \<and> distinct (map snd fps)
     \<and> set (map fst fps) = set ids \<and> act = set (map snd fps))"

definition ctxInv :: "string list \<Rightarrow> (string \<times> nat) list \<Rightarrow> (string \<times> nat) list \<Rightarrow> nat \<Rightarrow> bool" where
  "ctxInv ids ctxs cancels nxt = (cancels = ctxs \<and> distinct (map fst ctxs) \<and> set ids \<subseteq> set (map fst ctxs)
     \<and> (\<forall>n \<in> set (map snd ctxs). n < nxt))"

definition opInv :: "opState \<Rightarrow> bool" where
  "opInv s = (fpInv (q_ids s) (q_fingerprintOf s) (q_activeFingerprints s)
     \<and> ctxInv (q_ids s) (q_ctxOf s) (q_cancelOf s) (q_nextCtx s))"

lemmas op_defs = EnqueueOp_def fqStore_def fqDelete_def releaseQueueSlotLocked_def DequeueOp_def ClearOps_def
  beginRun_def endRun_def callCancel_def cancelLocked_def cancelEvery_def fqClear_def storeFileProgress_def
  markOpFinished_def CheckFileStatus_task_def

text \<open>Operations that touch only \<open>FileQueue\<close>, the running marker, the completions or the cancelled
  contexts leave the bookkeeping alone.\<close>

definition book :: "opState \<Rightarrow> string list \<times> (string \<times> string) list \<times> string set \<times> (string \<times> nat) list
    \<times> (string \<times> nat) list \<times> nat" where
  "book s = (q_ids s, q_fingerprintOf s, q_activeFingerprints s, q_ctxOf s, q_cancelOf s, q_nextCtx s)"

lemma opInv_book: "book s = book s' \<Longrightarrow> opInv s = opInv s'"
  by (simp add: book_def opInv_def)

lemma book_simps [simp]:
  "book (fqStore i t s) = book s" "book (fqDelete i s) = book s" "book (fqClear s) = book s"
  "book (markOpFinished i s) = book s" "book (endRun i s) = book s" "book (callCancel n s) = book s"
  "book (cancelEvery s) = book s" "book (storeFileProgress i t s) = book s"
  by (simp_all add: book_def op_defs split: option.split)

lemma book_check [simp]: "book (CheckFileStatus_task sz i s) = book s"
  by (simp add: CheckFileStatus_task_def Let_def split: option.split prod.split)

lemma book_beginRun: "beginRun i s = (r, s') \<Longrightarrow> book s' = book s"
  by (auto simp: beginRun_def book_def split: if_splits)

lemma alist_update_new: "k \<notin> fst ` set al \<Longrightarrow> AList.update k v al = al @ [(k, v)]"
  by (induction al) auto

lemma opInv_EnqueueOp:
  assumes "opInv s" "i \<notin> set (q_ids s)" "i \<notin> fst ` set (q_ctxOf s)" "EnqueueOp i t s = (r, s')"
  shows "opInv s'"
proof (cases "fileOperateFingerprint t \<in> q_activeFingerprints s")
  case True then show ?thesis using assms by (simp add: EnqueueOp_def Let_def)
next
  case False
  have new: "i \<notin> fst ` set (q_fingerprintOf s)" using assms(1,2) by (simp add: opInv_def fpInv_def)
  have c: "q_cancelOf s = q_ctxOf s" using assms(1) by (simp add: opInv_def ctxInv_def)
  have s': "book s' = (q_ids s @ [i], q_fingerprintOf s @ [(i, fileOperateFingerprint t)],
      insert (fileOperateFingerprint t) (q_activeFingerprints s),
      q_ctxOf s @ [(i, q_nextCtx s)], q_ctxOf s @ [(i, q_nextCtx s)], Suc (q_nextCtx s))"
    using assms(4) False new assms(3) c by (auto simp: EnqueueOp_def fqStore_def Let_def book_def alist_update_new)
  have "fpInv (q_ids s @ [i]) (q_fingerprintOf s @ [(i, fileOperateFingerprint t)])
      (insert (fileOperateFingerprint t) (q_activeFingerprints s))"
    using assms(1,2) False by (auto simp: opInv_def fpInv_def)
  moreover have "ctxInv (q_ids s @ [i]) (q_ctxOf s @ [(i, q_nextCtx s)]) (q_ctxOf s @ [(i, q_nextCtx s)]) (Suc (q_nextCtx s))"
    using assms(1,3) by (auto simp: opInv_def ctxInv_def less_Suc_eq)
  ultimately show ?thesis using s' by (simp add: opInv_def book_def)
qed

lemma set_snd_filter_key:
  assumes "distinct (map fst al)" "distinct (map snd al)" "map_of al k = Some v"
  shows "set (map snd (filter (\<lambda>e. fst e \<noteq> k) al)) = set (map snd al) - {v}"
proof -
  have kv: "(k, v) \<in> set al" using assms(3) by (rule map_of_SomeD)
  have "fst e \<noteq> k \<longleftrightarrow> snd e \<noteq> v" if "e \<in> set al" for e
    using assms(1,2) kv that by (auto simp: distinct_map inj_on_def) force+
  then show ?thesis by force
qed

lemma distinct_map_filter_sub: "distinct (map f xs) \<Longrightarrow> distinct (map f (filter P xs))"
  by (induction xs) auto

lemma set_fst_filter_key: "set (map fst (filter (\<lambda>e. fst e \<noteq> k) al)) = set (map fst al) - {k}"
  by (induction al) auto

lemma fpInv_release:
  assumes "fpInv ids fps act"
  shows "fpInv (filter (\<lambda>v. v \<noteq> i) ids) (filter (\<lambda>e. fst e \<noteq> i) fps)
           (case map_of fps i of None \<Rightarrow> act | Some fp \<Rightarrow> act - {fp})"
proof -
  have fs: "set (map fst (filter (\<lambda>e. fst e \<noteq> i) fps)) = set (filter (\<lambda>v. v \<noteq> i) ids)"
    using assms by (auto simp only: fpInv_def set_fst_filter_key set_filter)
  have sn: "set (map snd (filter (\<lambda>e. fst e \<noteq> i) fps)) = (case map_of fps i of None \<Rightarrow> act | Some fp \<Rightarrow> act - {fp})"
  proof (cases "map_of fps i")
    case None
    then have "filter (\<lambda>e. fst e \<noteq> i) fps = fps" by (force simp: filter_id_conv map_of_eq_None_iff)
    then show ?thesis using None assms by (simp add: fpInv_def)
  next
    case (Some fp)
    then show ?thesis using assms set_snd_filter_key [OF _ _ Some] by (simp add: fpInv_def)
  qed
  show ?thesis using assms by (auto simp only: fpInv_def fs sn intro: distinct_map_filter_sub distinct_filter)
qed

lemma book_release:
  "book (releaseQueueSlotLocked i s) = (filter (\<lambda>v. v \<noteq> i) (q_ids s), filter (\<lambda>e. fst e \<noteq> i) (q_fingerprintOf s),
     (case map_of (q_fingerprintOf s) i of None \<Rightarrow> q_activeFingerprints s | Some fp \<Rightarrow> q_activeFingerprints s - {fp}),
     q_ctxOf s, q_cancelOf s, q_nextCtx s)"
proof (cases "map_of (q_fingerprintOf s) i")
  case None
  then have "filter (\<lambda>e. fst e \<noteq> i) (q_fingerprintOf s) = q_fingerprintOf s"
    by (force simp: filter_id_conv map_of_eq_None_iff)
  then show ?thesis using None by (simp add: releaseQueueSlotLocked_def book_def Let_def)
qed (simp add: releaseQueueSlotLocked_def book_def Let_def)

lemma book_DequeueOp:
  "book (DequeueOp i s) = (case book (releaseQueueSlotLocked i s) of (ids, fps, act, ctxs, cancels, n) \<Rightarrow>
     (ids, fps, act, filter (\<lambda>e. fst e \<noteq> i) ctxs, filter (\<lambda>e. fst e \<noteq> i) cancels, n))"
  by (simp add: DequeueOp_def book_def Let_def)

lemma opInv_release: "opInv s \<Longrightarrow> opInv (releaseQueueSlotLocked i s)"
  using fpInv_release [of "q_ids s" "q_fingerprintOf s" "q_activeFingerprints s" i] book_release [of i s]
  by (auto simp: opInv_def ctxInv_def book_def)

lemma ctxInv_dequeue:
  "ctxInv ids ctxs cancels n \<Longrightarrow>
   ctxInv (filter (\<lambda>v. v \<noteq> i) ids) (filter (\<lambda>e. fst e \<noteq> i) ctxs) (filter (\<lambda>e. fst e \<noteq> i) cancels) n"
  unfolding ctxInv_def set_fst_filter_key by (auto simp: distinct_map_filter_sub)

lemma opInv_DequeueOp: "opInv s \<Longrightarrow> opInv (DequeueOp i s)"
  using fpInv_release [of "q_ids s" "q_fingerprintOf s" "q_activeFingerprints s" i] book_release [of i s]
    book_DequeueOp [of i s] ctxInv_dequeue [of "q_ids s" "q_ctxOf s" "q_cancelOf s" "q_nextCtx s" i]
  by (simp add: opInv_def book_def)

lemma opInv_ClearOps: "opInv s \<Longrightarrow> opInv (ClearOps s)"
  by (simp add: ClearOps_def opInv_def fpInv_def ctxInv_def)

lemma opInv_cancelLocked: "opInv s \<Longrightarrow> cancelLocked i s = (r, s') \<Longrightarrow> opInv s'"
  by (auto simp: cancelLocked_def Let_def opInv_release split: option.splits if_splits)

lemma sys_q_cont [simp]: "sys_q (cont g k q n c) = q"
  by (simp add: cont_def)

lemma opInv_same_book: "opInv s \<Longrightarrow> book s' = book s \<Longrightarrow> opInv s'"
  by (simp add: opInv_book [of s' s])

lemma opInv_step: "fileStep c e c' \<Longrightarrow> opInv (sys_q c) \<Longrightarrow> opInv (sys_q c')"
proof (induction rule: fileStep.induct)
  case submit then show ?case by (auto simp: freshId_def intro: opInv_EnqueueOp)
next
  case cancelNone then show ?case by (simp add: opInv_cancelLocked)
next
  case cancelSome then show ?case by (simp add: opInv_cancelLocked)
qed (simp_all add: opInv_DequeueOp opInv_ClearOps, (blast intro: opInv_same_book book_simps book_check book_beginRun)+)

section \<open>Tasks and their fingerprints\<close>

text \<open>The contents of a task that a goroutine or the queue holds under an id.\<close>

definition known :: "opSys \<Rightarrow> string \<Rightarrow> FileOperate \<Rightarrow> bool" where
  "known c i t = (fqLoad i (sys_q c) = Some t \<or> Loaded i t \<in> set (sys_gors c) \<or> (\<exists>x. Running i t x \<in> set (sys_gors c)))"

definition opLink :: "opSys \<Rightarrow> bool" where
  "opLink c = (\<forall>i \<in> set (q_ids (sys_q c)). \<forall>t. known c i t
     \<longrightarrow> map_of (q_fingerprintOf (sys_q c)) i = Some (fileOperateFingerprint t))"

lemma opLink_mono:
  assumes "opLink c"
    and "\<And>j. j \<in> set (q_ids (sys_q c')) \<Longrightarrow> j \<in> set (q_ids (sys_q c))
           \<and> map_of (q_fingerprintOf (sys_q c')) j = map_of (q_fingerprintOf (sys_q c)) j"
    and "\<And>j t. known c' j t \<Longrightarrow> \<exists>u. known c j u \<and> fileOperateFingerprint u = fileOperateFingerprint t"
  shows "opLink c'"
  using assms unfolding opLink_def by metis

lemma opLink_same_book:
  assumes "opLink c" "book (sys_q c') = book (sys_q c)"
    and "\<And>j t. known c' j t \<Longrightarrow> \<exists>u. known c j u \<and> fileOperateFingerprint u = fileOperateFingerprint t"
  shows "opLink c'"
  by (rule opLink_mono [OF assms(1) _ assms(3)]) (use assms(2) in \<open>simp_all add: book_def\<close>)

lemma fqLoad_simps [simp]:
  "fqLoad j (fqStore i t s) = (if j = i then Some t else fqLoad j s)"
  "fqLoad j (fqDelete i s) = (if j = i then None else fqLoad j s)"
  "fqLoad j (fqClear s) = None" "fqLoad j (endRun i s) = fqLoad j s" "fqLoad j (callCancel n s) = fqLoad j s"
  "fqLoad j (cancelEvery s) = fqLoad j s" "fqLoad j (ClearOps s) = fqLoad j s"
  "fqLoad j (markOpFinished i s) = fqLoad j s" "fqLoad j (releaseQueueSlotLocked i s) = fqLoad j s"
  "fqLoad j (DequeueOp i s) = fqLoad j s"
  by (simp_all add: fqLoad_def op_defs Let_def map_of_filter_neq update_conv' split: option.split)

lemma fqLoad_beginRun: "beginRun i s = (r, s') \<Longrightarrow> fqLoad j s' = fqLoad j s"
  by (auto simp: beginRun_def fqLoad_def split: if_splits)

lemma fqLoad_cancelLocked: "cancelLocked i s = (r, s') \<Longrightarrow> fqLoad j s' = fqLoad j s"
  by (auto simp: cancelLocked_def Let_def split: if_splits option.splits)

lemma checkItems_froms: "checkItems sz d xs n = (ys, m) \<Longrightarrow> map fi_From ys = map fi_From xs"
  by (induction sz d xs n arbitrary: ys m rule: checkItems.induct) (auto split: if_splits option.splits prod.splits)

lemma fqLoad_check:
  assumes "fqLoad j (CheckFileStatus_task sz i s) = Some t"
  shows "\<exists>u. fqLoad j s = Some u \<and> fileOperateFingerprint u = fileOperateFingerprint t"
  using assms
  by (auto simp: CheckFileStatus_task_def storeFileProgress_def Let_def fileOperateFingerprint_def
      dest: checkItems_froms split: option.splits prod.splits if_splits)

lemma book_cancelLocked:
  "cancelLocked i s = (r, s') \<Longrightarrow> book s' = book s \<or> book s' = book (releaseQueueSlotLocked i s)"
  by (auto simp: cancelLocked_def Let_def split: if_splits option.splits)

lemma set_cont: "set (sys_gors (cont g k q n c)) \<subseteq> set (sys_gors c) \<union> set k"
  using set_remove1_subset [of g "sys_gors c"] by (auto simp: cont_def)

lemma known_contE:
  assumes "known (cont g k q n c) j t"
  obtains "fqLoad j q = Some t" | "known c j t" | "Loaded j t \<in> set k" | x where "Running j t x \<in> set k"
  using assms set_cont [of g k q n c] unfolding known_def by auto

lemma known_fq: "fqLoad j (sys_q c) = Some t \<Longrightarrow> known c j t"
  by (simp add: known_def)

lemma known_same:
  "fqLoad j (sys_q c) = Some t \<Longrightarrow> \<exists>u. known c j u \<and> fileOperateFingerprint u = fileOperateFingerprint t"
  using known_fq by blast

lemma released_keys:
  assumes "book s' = book (releaseQueueSlotLocked i s) \<or> book s' = book (DequeueOp i s)" "j \<in> set (q_ids s')"
  shows "j \<in> set (q_ids s) \<and> map_of (q_fingerprintOf s') j = map_of (q_fingerprintOf s) j"
  using assms by (auto simp: book_DequeueOp book_release) (auto simp: book_def map_of_filter_neq)

lemma opLink_cont:
  assumes "opLink c" "book q = book (sys_q c)" "\<And>j t. Loaded j t \<notin> set k" "\<And>j t x. Running j t x \<notin> set k"
    and "\<And>j t. fqLoad j q = Some t \<Longrightarrow> fqLoad j (sys_q c) = Some t"
  shows "opLink (cont g k q n c)"
  by (rule opLink_same_book [OF assms(1)])
     (use assms(2-) in \<open>auto elim!: known_contE intro: known_same\<close>)

lemma opLink_submit:
  assumes "freshId i c" "EnqueueOp i t (sys_q c) = ((isFirst, dup), q')" "opInv (sys_q c)" "opLink c"
  shows "opLink \<lparr>sys_q = q', sys_execs = n, sys_gors = sys_gors c\<rparr>"
proof (cases dup)
  case True
  then have "q' = sys_q c" using assms(2) by (auto simp: EnqueueOp_def Let_def split: if_splits)
  then show ?thesis using assms(4) by (simp add: opLink_def known_def)
next
  case False
  have g: "\<And>u x. Loaded i u \<notin> set (sys_gors c) \<and> Running i u x \<notin> set (sys_gors c)"
    using assms(1) by (force simp: freshId_def)
  have q': "q_ids q' = q_ids (sys_q c) @ [i]" "\<And>j. fqLoad j q' = (if j = i then Some t else fqLoad j (sys_q c))"
    "\<And>j. map_of (q_fingerprintOf q') j = (if j = i then Some (fileOperateFingerprint t) else map_of (q_fingerprintOf (sys_q c)) j)"
    using assms(2) False by (auto simp: EnqueueOp_def Let_def fqStore_def fqLoad_def update_conv' split: if_splits)
  have "(j = i \<and> u = t) \<or> (j \<noteq> i \<and> known c j u)"
    if "known \<lparr>sys_q = q', sys_execs = n, sys_gors = sys_gors c\<rparr> j u" for j u
    using that g q'(2) by (cases "j = i") (auto simp: known_def)
  then show ?thesis using assms(4) q' unfolding opLink_def by auto
qed

lemma fingerprint_finTask:
  "\<lbrakk>fo_Type t' = fo_Type t; fo_To t' = fo_To t; map fi_From (fo_Item t') = map fi_From (fo_Item t)\<rbrakk>
   \<Longrightarrow> fileOperateFingerprint t = fileOperateFingerprint (finTask t' c)"
  by (simp add: fileOperateFingerprint_def finTask_def)

lemma opLink_step: "\<lbrakk>fileStep c e c'; opInv (sys_q c); opLink c\<rbrakk> \<Longrightarrow> opLink c'"
proof (induction rule: fileStep.induct)
  case submit then show ?case by (rule opLink_submit)
next
  case (load i c)
  show ?case
    by (rule opLink_same_book [OF load(3)])
       (auto elim!: known_contE intro: known_same simp: FileOperate_load_def split: option.splits if_splits)
next
  case (finish i t x c b t')
  have "known c i t" using finish(1) by (auto simp: known_def)
  then show ?case using fingerprint_finTask [OF finish(3,4,6)]
    by (intro opLink_same_book [OF finish(8)]) (auto elim!: known_contE split: if_splits, (metis known_fq)+)
next
  case (progress c sz i)
  show ?case
    by (rule opLink_same_book [OF progress(2)]) (auto simp: known_def dest: fqLoad_check)
next
  case (cancelNone i c q')
  then have "q' = sys_q c" by (auto simp: cancelLocked_def Let_def split: option.splits)
  then show ?case by (intro opLink_same_book [OF cancelNone(4)]) (auto elim!: known_contE intro: known_same)
next
  case (cancelSome i c n r q')
  have keys: "j \<in> set (q_ids (sys_q c)) \<and> map_of (q_fingerprintOf q') j = map_of (q_fingerprintOf (sys_q c)) j"
    if "j \<in> set (q_ids q')" for j
    using book_cancelLocked [OF cancelSome(2)] released_keys [of q' i "sys_q c" j] that by (auto simp: book_def)
  show ?case
    by (rule opLink_mono [OF cancelSome(4)])
       (auto simp: keys fqLoad_cancelLocked [OF cancelSome(2)] elim!: known_contE intro: known_same)
next
  case (dequeue i c)
  show ?case
    by (rule opLink_mono [OF dequeue(3)])
       (use released_keys [of "DequeueOp i (sys_q c)" i "sys_q c"] in \<open>auto elim!: known_contE intro: known_same\<close>)
next
  case (pollDequeue i c)
  show ?case
    by (rule opLink_mono [OF pollDequeue(3)])
       (use released_keys [of "DequeueOp i (sys_q c)" i "sys_q c"] in \<open>auto elim!: known_contE intro: known_same\<close>)
next
  case (clearOps c)
  then show ?case by (simp add: opLink_def ClearOps_def)
next
  case (refuse i t c x q')
  show ?case by (rule opLink_same_book [OF refuse(4)])
    (auto elim!: known_contE simp: book_beginRun [OF refuse(2)] fqLoad_beginRun [OF refuse(2)], (metis known_fq)+)
next
  case (beginR i t c x q')
  have "known c i t" using beginR(1) by (simp add: known_def)
  then show ?case by (intro opLink_same_book [OF beginR(4)])
    (auto elim!: known_contE simp: book_beginRun [OF beginR(2)] fqLoad_beginRun [OF beginR(2)], (metis known_fq)+)
next
  case (poll i c t)
  show ?case by (rule opLink_same_book [OF poll(4)]) (auto simp: known_def split: if_splits)
next
  case (dispatch c)
  show ?case by (rule opLink_same_book [OF dispatch(3)]) (auto simp: known_def split: option.splits)
next
  case (cancelGate i c)
  show ?case by (rule opLink_same_book [OF cancelGate(3)]) (auto simp: known_def)
next
  case (cancelAll c)
  show ?case by (rule opLink_same_book [OF cancelAll(2)]) (auto simp: known_def)
qed (auto intro!: opLink_cont split: if_splits)

lemma opInv_empty: "opInv emptyQueue"
  unfolding opInv_def by (simp add: emptyQueue_def fpInv_def ctxInv_def)

lemma run_inv: "fileRun c es c' \<Longrightarrow> opInv (sys_q c) \<Longrightarrow> opLink c \<Longrightarrow> opInv (sys_q c') \<and> opLink c'"
  by (induction rule: fileRun.induct) (auto dest: opInv_step opLink_step)

lemma init_inv: "opInv (sys_q initSys)" "opLink initSys"
  using opInv_empty by (simp_all add: initSys_def opLink_def) (simp add: emptyQueue_def)

section \<open>Retirement\<close>

text \<open>
  What a run must have shown before a goroutine may hold a task in a given program point: a worker point needs
  the start of the worker, a poller point the start of a worker or a submission of positive size.
\<close>

definition began :: "ev list \<Rightarrow> string \<Rightarrow> bool" where
  "began es i = (\<exists>x. Began i x \<in> set es)"

definition sized :: "ev list \<Rightarrow> string \<Rightarrow> int \<Rightarrow> bool" where
  "sized es i n = (\<exists>t. Submitted i t False \<in> set es \<and> fo_TotalSize t = n)"

fun gorOk :: "ev list \<Rightarrow> gor \<Rightarrow> bool" where
  "gorOk es (Loaded i t) = (sized es i (fo_TotalSize t) \<and> (fo_Finished t \<longrightarrow> began es i))"
| "gorOk es (Running i t x) = (sized es i (fo_TotalSize t) \<and> began es i)"
| "gorOk es (Stored i b) = began es i"
| "gorOk es (Retiring i) = began es i"
| "gorOk es (Dequeuing i) = began es i"
| "gorOk es (PollDequeue i) = (began es i \<or> (\<exists>n > 0. sized es i n))"
| "gorOk es g = True"

definition runOk :: "ev list \<Rightarrow> opSys \<Rightarrow> bool" where
  "runOk es c = ((\<forall>g \<in> set (sys_gors c). gorOk es g)
     \<and> (\<forall>i \<in> q_finished (sys_q c). began es i)
     \<and> (\<forall>i t. fqLoad i (sys_q c) = Some t \<longrightarrow> sized es i (fo_TotalSize t) \<and> (fo_Finished t \<longrightarrow> began es i))
     \<and> (\<forall>i. DequeuedEv i \<in> set es \<longrightarrow> began es i \<or> (\<exists>n > 0. sized es i n)))"

lemma gorOk_mono: "gorOk es g \<Longrightarrow> gorOk (es @ fs) g"
  by (cases g) (auto simp: began_def sized_def)

lemma runOk_extend:
  assumes "runOk es c" and ne: "\<And>i. e = DequeuedEv i \<Longrightarrow> began es i \<or> (\<exists>n > 0. sized es i n)"
    and "\<And>g. g \<in> set (sys_gors c') \<Longrightarrow> g \<in> set (sys_gors c) \<or> gorOk (es @ [e]) g"
    and "\<And>i. i \<in> q_finished (sys_q c') \<Longrightarrow> i \<in> q_finished (sys_q c) \<or> began (es @ [e]) i"
    and "\<And>i t. fqLoad i (sys_q c') = Some t \<Longrightarrow>
           (\<exists>u. fqLoad i (sys_q c) = Some u \<and> fo_TotalSize u = fo_TotalSize t \<and> (fo_Finished t \<longrightarrow> fo_Finished u))
           \<or> sized (es @ [e]) i (fo_TotalSize t) \<and> (fo_Finished t \<longrightarrow> began (es @ [e]) i)"
  shows "runOk (es @ [e]) c'"
proof -
  have m: "\<And>i. began es i \<Longrightarrow> began (es @ [e]) i" "\<And>i n. sized es i n \<Longrightarrow> sized (es @ [e]) i n"
    by (auto simp: began_def sized_def)
  show ?thesis unfolding runOk_def
  proof (intro conjI ballI allI impI)
    fix i t assume l: "fqLoad i (sys_q c') = Some t"
    show "sized (es @ [e]) i (fo_TotalSize t)" "fo_Finished t \<Longrightarrow> began (es @ [e]) i"
      using assms(5) [OF l] assms(1) m unfolding runOk_def by metis+
  next
    fix i assume "DequeuedEv i \<in> set (es @ [e])"
    then show "began (es @ [e]) i \<or> (\<exists>n > 0. sized (es @ [e]) i n)"
      using assms(1) ne [of i] m unfolding runOk_def by (metis Un_iff empty_iff insert_iff list.set set_append)
  qed (use assms(1,3,4) m gorOk_mono in \<open>unfold runOk_def, blast+\<close>)
qed

lemma finished_simps [simp]:
  "q_finished (fqStore i t s) = q_finished s" "q_finished (fqDelete i s) = q_finished s"
  "q_finished (fqClear s) = q_finished s" "q_finished (endRun i s) = q_finished s"
  "q_finished (callCancel n s) = q_finished s" "q_finished (cancelEvery s) = q_finished s"
  "q_finished (ClearOps s) = {}" "q_finished (CheckFileStatus_task sz i s) = q_finished s"
  "q_finished (releaseQueueSlotLocked i s) = q_finished s - {i}" "q_finished (DequeueOp i s) = q_finished s - {i}"
  by (simp_all add: op_defs Let_def split: option.split prod.split)

lemma finished_mark: "j \<in> q_finished (markOpFinished i s) \<Longrightarrow> j = i \<or> j \<in> q_finished s"
  by (auto simp: markOpFinished_def split: option.splits)

lemma finished_beginRun: "beginRun i s = (r, s') \<Longrightarrow> q_finished s' = q_finished s"
  by (auto simp: beginRun_def split: if_splits)

lemma finished_cancelLocked: "cancelLocked i s = (r, s') \<Longrightarrow> q_finished s' \<subseteq> q_finished s"
  by (auto simp: cancelLocked_def Let_def split: if_splits option.splits)

lemma finished_EnqueueOp: "EnqueueOp i t s = (r, s') \<Longrightarrow> q_finished s' = q_finished s"
  by (auto simp: EnqueueOp_def fqStore_def Let_def split: if_splits)

lemma fqLoad_check_terminal:
  assumes "fqLoad j (CheckFileStatus_task sz i s) = Some t"
  shows "\<exists>u. fqLoad j s = Some u \<and> fo_TotalSize u = fo_TotalSize t \<and> (fo_Finished t \<longrightarrow> fo_Finished u)"
  using assms
  by (auto simp: CheckFileStatus_task_def storeFileProgress_def Let_def split: option.splits prod.splits if_splits)

lemma fqLoad_EnqueueOp:
  "EnqueueOp i t s = ((f, dup), s') \<Longrightarrow> fqLoad j s' = (if \<not> dup \<and> j = i then Some t else fqLoad j s)"
  by (auto simp: EnqueueOp_def Let_def fqStore_def fqLoad_def update_conv' split: if_splits)

lemma runOk_gor: "runOk es c \<Longrightarrow> g \<in> set (sys_gors c) \<Longrightarrow> gorOk (es @ fs) g"
  by (auto simp: runOk_def intro: gorOk_mono)

lemma runOk_cont:
  assumes "runOk es c" "\<And>i. e = DequeuedEv i \<Longrightarrow> began es i \<or> (\<exists>n > 0. sized es i n)"
    and "\<And>g. g \<in> set k \<Longrightarrow> gorOk (es @ [e]) g"
    and "\<And>i. i \<in> q_finished q \<Longrightarrow> i \<in> q_finished (sys_q c) \<or> began (es @ [e]) i"
    and "\<And>i t. fqLoad i q = Some t \<Longrightarrow> fqLoad i (sys_q c) = Some t
           \<or> sized (es @ [e]) i (fo_TotalSize t) \<and> (fo_Finished t \<longrightarrow> began (es @ [e]) i)"
  shows "runOk (es @ [e]) (cont g k q n c)"
  apply (rule runOk_extend [OF assms(1,2)])
     apply assumption
  subgoal using set_cont [of g k q n c] assms(3) by auto
  subgoal using assms(4) by simp
  subgoal for i t using assms(5) [of i t] by auto
  done

lemma runOk_step:
  assumes "fileStep c e c'" "runOk es c" "\<And>i t d. e = Submitted i t d \<Longrightarrow> \<not> fo_Finished t"
  shows "runOk (es @ [e]) c'"
  using assms
proof (induction rule: fileStep.induct)
  case (submit i c t isFirst dup q')
  show ?case
    by (rule runOk_extend [OF submit(3)])
       (use submit in \<open>auto simp: finished_EnqueueOp [OF submit(2)] fqLoad_EnqueueOp [OF submit(2)] sized_def split: if_splits\<close>)
next
  case (dispatch c)
  show ?case by (rule runOk_extend [OF dispatch(2)]) (auto split: option.splits)
next
  case (load i c)
  have "\<And>t. FileOperate_load i (sys_q c) = Some t \<Longrightarrow> gorOk (es @ [Tau]) (Loaded i t)"
    using load(2) by (auto simp: FileOperate_load_def runOk_def sized_def began_def split: option.splits if_splits)
  then show ?case
    by (cases "FileOperate_load i (sys_q c)") (auto intro!: runOk_cont [OF load(2)])
next
  case (refuse i t c x q')
  then show ?case by (intro runOk_cont) (auto simp: fqLoad_beginRun finished_beginRun)
next
  case (beginR i t c x q')
  have "gorOk (es @ [Began i x]) (Running i t x)"
    using runOk_gor [OF beginR(3,1), of "[Began i x]"] by (auto simp: began_def)
  then show ?case using beginR by (intro runOk_cont) (auto simp: fqLoad_beginRun finished_beginRun)
next
  case (finish i t x c b t')
  show ?case using runOk_gor [OF finish(7,1), of "[Tau]"] finish(5)
    by (intro runOk_cont [OF finish(7)]) (auto simp: finTask_def split: if_splits)
next
  case (mark i b c)
  show ?case using runOk_gor [OF mark(2,1), of "[Tau]"]
    by (intro runOk_cont [OF mark(2)]) (auto dest: finished_mark split: if_splits)
next
  case (retire i c)
  show ?case using runOk_gor [OF retire(2,1), of "[Tau]"] by (intro runOk_cont [OF retire(2)]) (auto split: if_splits)
next
  case (dequeue i c)
  show ?case using runOk_gor [OF dequeue(2,1), of "[]"] by (intro runOk_cont [OF dequeue(2)]) auto
next
  case (poll i c t)
  have "gorOk (es @ [Tau]) (PollDequeue i)"
    using poll(1-3) unfolding runOk_def
    by (auto simp: buildFileNotifyTask_def Let_def opFinished_def sized_def began_def split: if_splits)
  then show ?case by (intro runOk_extend [OF poll(3)]) (auto split: if_splits)
next
  case (pollDequeue i c)
  show ?case using runOk_gor [OF pollDequeue(2,1), of "[]"] by (intro runOk_cont [OF pollDequeue(2)]) auto
next
  case (progress c sz i)
  show ?case by (rule runOk_extend [OF progress(1)]) (auto dest: fqLoad_check_terminal)
next
  case (cancelGate i c)
  show ?case by (rule runOk_extend [OF cancelGate(2)]) auto
next
  case (cancelAll c)
  show ?case by (rule runOk_extend [OF cancelAll(1)]) auto
next
  case (cancelNone i c q')
  then show ?case by (intro runOk_cont) (auto simp: fqLoad_cancelLocked dest: finished_cancelLocked)
next
  case (cancelSome i c n r q')
  then show ?case by (intro runOk_cont) (auto simp: fqLoad_cancelLocked dest: finished_cancelLocked)
qed (erule runOk_cont; auto split: if_splits)+

lemma run_runOk:
  "fileRun c es c' \<Longrightarrow> runOk [] c \<Longrightarrow> \<forall>i t d. Submitted i t d \<in> set es \<longrightarrow> \<not> fo_Finished t \<Longrightarrow> runOk es c'"
proof (induction rule: fileRun.induct)
  case (run_snoc c es c' e c'')
  have "\<forall>i t d. Submitted i t d \<in> set es \<longrightarrow> \<not> fo_Finished t" using run_snoc(5) by auto
  then have "runOk es c'" using run_snoc(3,4) by blast
  moreover have "\<not> fo_Finished t" if "e = Submitted i t d" for i t d
    using run_snoc(5) [rule_format, of i t d] that by simp
  ultimately show ?case by (rule runOk_step [OF run_snoc(2)])
qed simp

lemma runOk_init: "runOk [] initSys"
  by (simp add: runOk_def initSys_def emptyQueue_def fqLoad_def)

section \<open>Cancellation\<close>

text \<open>A task whose context exists and is cancelled.\<close>

definition cancelledTask :: "string \<Rightarrow> opState \<Rightarrow> bool" where
  "cancelledTask i s = (\<exists>n. map_of (q_ctxOf s) i = Some n \<and> n \<in> q_cancelled s)"

lemma ctxOf_simps [simp]:
  "q_ctxOf (fqStore i t s) = q_ctxOf s" "q_ctxOf (fqDelete i s) = q_ctxOf s" "q_ctxOf (fqClear s) = q_ctxOf s"
  "q_ctxOf (endRun i s) = q_ctxOf s" "q_ctxOf (callCancel n s) = q_ctxOf s" "q_ctxOf (cancelEvery s) = q_ctxOf s"
  "q_ctxOf (ClearOps s) = q_ctxOf s" "q_ctxOf (CheckFileStatus_task sz i s) = q_ctxOf s"
  "q_ctxOf (releaseQueueSlotLocked i s) = q_ctxOf s" "q_ctxOf (markOpFinished i s) = q_ctxOf s"
  "q_ctxOf (DequeueOp i s) = filter (\<lambda>e. fst e \<noteq> i) (q_ctxOf s)"
  by (simp_all add: op_defs Let_def split: option.split prod.split)

lemma cancelled_simps [simp]:
  "q_cancelled (fqStore i t s) = q_cancelled s" "q_cancelled (fqDelete i s) = q_cancelled s"
  "q_cancelled (fqClear s) = q_cancelled s" "q_cancelled (endRun i s) = q_cancelled s"
  "q_cancelled (callCancel n s) = insert n (q_cancelled s)"
  "q_cancelled (ClearOps s) = q_cancelled s" "q_cancelled (CheckFileStatus_task sz i s) = q_cancelled s"
  "q_cancelled (releaseQueueSlotLocked i s) = q_cancelled s" "q_cancelled (markOpFinished i s) = q_cancelled s"
  "q_cancelled (DequeueOp i s) = q_cancelled s"
  "q_cancelled (cancelEvery s) = q_cancelled s \<union> snd ` set (q_cancelOf s)"
  by (simp_all add: op_defs Let_def split: option.split prod.split)

lemma cancelledTask_EnqueueOp:
  "EnqueueOp j t s = (r, s') \<Longrightarrow> j \<noteq> i \<Longrightarrow> cancelledTask i s \<Longrightarrow> cancelledTask i s'"
  by (auto simp: EnqueueOp_def Let_def fqStore_def cancelledTask_def update_conv' split: if_splits)

lemma cancelledTask_beginRun: "beginRun j s = (r, s') \<Longrightarrow> cancelledTask i s' = cancelledTask i s"
  by (auto simp: beginRun_def cancelledTask_def split: if_splits)

lemma cancelledTask_cancelLocked: "cancelLocked j s = (r, s') \<Longrightarrow> cancelledTask i s' = cancelledTask i s"
  by (auto simp: cancelLocked_def Let_def cancelledTask_def split: if_splits option.splits)

lemma cancelledTask_step:
  "\<lbrakk>fileStep c e c'; e \<noteq> DequeuedEv i; cancelledTask i (sys_q c)\<rbrakk> \<Longrightarrow> cancelledTask i (sys_q c')"
proof (induction rule: fileStep.induct)
  case (submit j c t f d q')
  then have "j \<noteq> i" by (force simp: freshId_def cancelledTask_def dest: map_of_SomeD)
  then show ?case using submit by (auto intro: cancelledTask_EnqueueOp)
qed (auto simp: cancelledTask_beginRun cancelledTask_cancelLocked,
     auto simp: cancelledTask_def map_of_filter_neq)

lemma cancelled_mono_step: "fileStep c e c' \<Longrightarrow> q_cancelled (sys_q c) \<subseteq> q_cancelled (sys_q c')"
  by (induction rule: fileStep.induct)
     (auto simp: EnqueueOp_def Let_def fqStore_def beginRun_def cancelLocked_def split: if_splits option.splits)

lemma ctxErr_mono: "q_cancelled s \<subseteq> q_cancelled s' \<Longrightarrow> ctxErr x s \<Longrightarrow> ctxErr x s'"
  by (auto simp: ctxErr_def split: option.splits)

lemma cancelled_begins:
  "\<lbrakk>fileStep c (Began i x) c'; cancelledTask i (sys_q c)\<rbrakk> \<Longrightarrow> ctxErr x (sys_q c')"
  by (cases rule: fileStep.cases) (auto simp: beginRun_def cancelledTask_def ctxErr_def split: if_splits option.splits)

section \<open>Executable schedules\<close>

text \<open>A schedule picks one step at a time; every schedule that is accepted is a run.\<close>

datatype act =
    ASubmit string FileOperate
  | ADispatch
  | ALoad string
  | ABegin string FileOperate
  | AFinish string FileOperate "nat option" bool
  | AMark string bool
  | AEnding string
  | APoll string
  | APollDequeue string
  | AProgress string int
  | ACancelGate string
  | ACancelLocked string
  | ACancelCall string nat bool
  | ACancelDelete string

fun actStep :: "act \<Rightarrow> opSys \<Rightarrow> (ev \<times> opSys) option" where
  "actStep (ASubmit i t) c =
     (if freshId i c then (case EnqueueOp i t (sys_q c) of ((f, d), q') \<Rightarrow>
        Some (Submitted i t d, \<lparr>sys_q = q', sys_execs = sys_execs c + (if \<not> d \<and> f then 1 else 0), sys_gors = sys_gors c\<rparr>))
      else None)"
| "actStep ADispatch c =
     (if 0 < sys_execs c then Some (Tau, \<lparr>sys_q = sys_q c, sys_execs = sys_execs c - 1,
        sys_gors = sys_gors c @ (case ExecOpFile (sys_q c) of None \<Rightarrow> [] | Some i \<Rightarrow> [Dispatched i])\<rparr>) else None)"
| "actStep (ALoad i) c =
     (if Dispatched i \<in> set (sys_gors c) then Some (Tau, cont (Dispatched i)
        (case FileOperate_load i (sys_q c) of None \<Rightarrow> [] | Some t \<Rightarrow> [Loaded i t]) (sys_q c) 0 c) else None)"
| "actStep (ABegin i t) c =
     (if Loaded i t \<in> set (sys_gors c) then
        (case beginRun i (sys_q c) of ((x, b), q') \<Rightarrow>
           if b then Some (Tau, cont (Loaded i t) [] q' 0 c)
           else Some (Began i x, cont (Loaded i t) [Running i t x] q' 0 c)) else None)"
| "actStep (AFinish i t x b) c =
     (if Running i t x \<in> set (sys_gors c) \<and> (b \<longrightarrow> ctxErr x (sys_q c))
      then Some (Tau, cont (Running i t x) [Stored i b] (fqStore i (finTask t b) (sys_q c)) 0 c) else None)"
| "actStep (AMark i b) c =
     (if Stored i b \<in> set (sys_gors c)
      then Some (Tau, cont (Stored i b) [if b then Retiring i else Ending i] (markOpFinished i (sys_q c)) 0 c) else None)"
| "actStep (AEnding i) c =
     (if Ending i \<in> set (sys_gors c) then Some (Tau, cont (Ending i) [] (endRun i (sys_q c)) 0 c) else None)"
| "actStep (APoll i) c =
     (case fqLoad i (sys_q c) of None \<Rightarrow> None
      | Some t \<Rightarrow> if snd (buildFileNotifyTask i t (sys_q c))
                  then Some (Tau, \<lparr>sys_q = fqDelete i (sys_q c), sys_execs = sys_execs c,
                         sys_gors = sys_gors c @ [PollDequeue i]\<rparr>) else None)"
| "actStep (APollDequeue i) c =
     (if PollDequeue i \<in> set (sys_gors c)
      then Some (DequeuedEv i, cont (PollDequeue i) [] (DequeueOp i (sys_q c)) 1 c) else None)"
| "actStep (AProgress i n) c = Some (Tau, c\<lparr>sys_q := CheckFileStatus_task (\<lambda>_. Some n) i (sys_q c)\<rparr>)"
| "actStep (ACancelGate i) c =
     (if cancelGate i (sys_q c) then Some (Tau, c\<lparr>sys_gors := sys_gors c @ [CancelGated i]\<rparr>) else None)"
| "actStep (ACancelLocked i) c =
     (if CancelGated i \<in> set (sys_gors c) then
        (case cancelLocked i (sys_q c) of
           (None, q') \<Rightarrow> Some (Tau, cont (CancelGated i) [] q' 0 c)
         | (Some (n, r), q') \<Rightarrow> Some (Tau, cont (CancelGated i) [CancelCall i n r] q' 0 c)) else None)"
| "actStep (ACancelCall i n r) c =
     (if CancelCall i n r \<in> set (sys_gors c)
      then Some (Tau, cont (CancelCall i n r) (if r then [] else [CancelDelete i]) (callCancel n (sys_q c)) 0 c) else None)"
| "actStep (ACancelDelete i) c =
     (if CancelDelete i \<in> set (sys_gors c) then Some (Tau, cont (CancelDelete i) [] (fqDelete i (sys_q c)) 0 c) else None)"

fun actRun :: "act list \<Rightarrow> opSys \<Rightarrow> (ev list \<times> opSys) option" where
  "actRun [] c = Some ([], c)"
| "actRun (a # as) c =
     (case actStep a c of None \<Rightarrow> None
      | Some (e, c') \<Rightarrow> (case actRun as c' of None \<Rightarrow> None | Some (es, c'') \<Rightarrow> Some (e # es, c'')))"

lemma if_Some_eq: "((if P then Some x else None) = Some y) = (P \<and> x = y)"
  by simp

lemma actStep_sound: "actStep a c = Some (e, c') \<Longrightarrow> fileStep c e c'"
proof (cases a)
  case (ABegin i t)
  then show "actStep a c = Some (e, c') \<Longrightarrow> fileStep c e c'"
    by (cases "beginRun i (sys_q c)") (auto simp: if_Some_eq intro: fileStep.refuse fileStep.beginR split: prod.splits if_splits)
next
  case (ACancelLocked i)
  then show "actStep a c = Some (e, c') \<Longrightarrow> fileStep c e c'"
    by (auto simp: if_Some_eq intro: fileStep.cancelNone fileStep.cancelSome split: prod.splits option.splits if_splits)
next
  case (APoll i)
  then show "actStep a c = Some (e, c') \<Longrightarrow> fileStep c e c'"
    by (auto simp: if_Some_eq intro: fileStep.poll split: option.splits)
qed (auto simp: if_Some_eq simp del: One_nat_def intro: fileStep.intros split: prod.splits)

lemma fileRun_Cons: "fileStep c e c' \<Longrightarrow> fileRun c' es c'' \<Longrightarrow> fileRun c (e # es) c''"
proof (rotate_tac, induction rule: fileRun.induct)
  case (run_nil c') then show ?case using fileRun.run_snoc [OF fileRun.run_nil] by force
next
  case (run_snoc c' es d e' d')
  then show ?case using fileRun.run_snoc [of c "e # es" d e' d'] by simp
qed

lemma actRun_sound: "actRun as c = Some (es, c') \<Longrightarrow> fileRun c es c'"
  by (induction as arbitrary: c es) (auto intro: fileRun.run_nil split: option.splits, meson fileRun_Cons actStep_sound)

section \<open>Properties\<close>

text \<open>Two requests with the same type, destination and collection of sources.\<close>

definition sameRequest :: "FileOperate \<Rightarrow> FileOperate \<Rightarrow> bool" where
  "sameRequest t u = (fo_Type t = fo_Type u \<and> fo_To t = fo_To u
     \<and> mset (map fi_From (fo_Item t)) = mset (map fi_From (fo_Item u)))"

lemma sameRequest_fingerprint: "sameRequest t u \<Longrightarrow> fileOperateFingerprint t = fileOperateFingerprint u"
  unfolding sameRequest_def fileOperateFingerprint_def
  by (metis sorted_list_of_multiset_mset)

lemma sep_inj: "\<lbrakk>z \<notin> set a; z \<notin> set b; a @ z # x = b @ z # y\<rbrakk> \<Longrightarrow> a = b \<and> x = y"
proof (induction a arbitrary: b)
  case Nil then show ?case by (cases b) auto
next
  case (Cons c a) then show ?case by (cases b) auto
qed

lemma StrJoin_inj:
  assumes "\<forall>w \<in> set ws. z \<notin> set w" "\<forall>w \<in> set vs. z \<notin> set w" "ws \<noteq> []" "vs \<noteq> []" "StrJoin ws [z] = StrJoin vs [z]"
  shows "ws = vs"
  using assms
proof (induction ws arbitrary: vs)
  case (Cons w ws)
  obtain v vs' where v: "vs = v # vs'" using Cons.prems(4) by (cases vs) auto
  have nz: "z \<notin> set w" "z \<notin> set v" using Cons.prems(1,2) v by auto
  consider "ws = []" "vs' = []" | "ws = []" "vs' \<noteq> []" | "ws \<noteq> []" "vs' = []" | "ws \<noteq> []" "vs' \<noteq> []" by blast
  then show ?case
  proof cases
    case 1 then show ?thesis using Cons.prems(5) v by simp
  next
    case 2
    then have "w = v @ z # StrJoin vs' [z]" using Cons.prems(5) v StrJoin_Cons [of vs' v "[z]"] by simp
    then show ?thesis using nz by simp
  next
    case 3
    then have "v = w @ z # StrJoin ws [z]" using Cons.prems(5) v StrJoin_Cons [of ws w "[z]"] by simp
    then show ?thesis using nz by simp
  next
    case 4
    then have "w @ z # StrJoin ws [z] = v @ z # StrJoin vs' [z]" using Cons.prems(5) v by (simp add: StrJoin_Cons)
    then have e: "w = v" "StrJoin ws [z] = StrJoin vs' [z]" using sep_inj [OF nz] by auto
    have "ws = vs'" by (rule Cons.IH) (use Cons.prems(1,2) v 4 e in auto)
    then show ?thesis using e v by simp
  qed
qed simp

definition nulFree :: "FileOperate \<Rightarrow> bool" where
  "nulFree t = (NUL \<notin> set (fo_Type t) \<and> NUL \<notin> set (fo_To t) \<and> fo_Item t \<noteq> []
     \<and> (\<forall>v \<in> set (fo_Item t). NUL \<notin> set (fi_From v)))"

lemma sort_eq_mset: "sort xs = sort ys \<Longrightarrow> mset xs = mset ys"
  by (metis mset_sort sorted_list_of_multiset_mset)

definition demoTask :: "string \<Rightarrow> FileOperate" where
  "demoTask f = \<lparr>fo_Type = ''copy'', fo_Item = [\<lparr>fi_From = f, fi_Finished = False, fi_Size = 8, fi_ProcessedSize = 0, fi_ParkedPath = []\<rparr>],
     fo_TotalSize = 8, fo_ProcessedSize = 0, fo_To = ''/d'', fo_Style = ''overwrite'', fo_Finished = False, fo_Cancelled = False\<rparr>"

text \<open>
  C10. In every interleaving of the queue's goroutines the bookkeeping of \<open>opQueue\<close> stays consistent, and two tasks
  in the queue are never the same request (type, destination and sources, in any order).
\<close>

theorem opQueue_no_duplicates:
  assumes "fileRun initSys es c"
  shows "opInv (sys_q c) \<and> (\<forall>i j t u. i \<in> set (q_ids (sys_q c)) \<longrightarrow> j \<in> set (q_ids (sys_q c)) \<longrightarrow> i \<noteq> j
           \<longrightarrow> fqLoad i (sys_q c) = Some t \<longrightarrow> fqLoad j (sys_q c) = Some u \<longrightarrow> \<not> sameRequest t u)"
proof -
  have inv: "opInv (sys_q c)" "opLink c" using run_inv [OF assms init_inv] by auto
  have "\<not> sameRequest t u" if q: "i \<in> set (q_ids (sys_q c))" "j \<in> set (q_ids (sys_q c))" "i \<noteq> j"
    "fqLoad i (sys_q c) = Some t" "fqLoad j (sys_q c) = Some u" for i j t u
  proof
    assume "sameRequest t u"
    then have fp: "fileOperateFingerprint t = fileOperateFingerprint u" by (rule sameRequest_fingerprint)
    have "(i, fileOperateFingerprint t) \<in> set (q_fingerprintOf (sys_q c))"
         "(j, fileOperateFingerprint t) \<in> set (q_fingerprintOf (sys_q c))"
      using inv(2) q fp known_fq unfolding opLink_def by (metis map_of_SomeD)+
    moreover have "inj_on snd (set (q_fingerprintOf (sys_q c)))"
      using inv(1) by (simp add: opInv_def fpInv_def distinct_map)
    ultimately show False
      using q(3) inj_onD [of snd _ "(i, fileOperateFingerprint t)" "(j, fileOperateFingerprint t)"] by fastforce
  qed
  then show ?thesis using inv(1) by blast
qed

text \<open>
  The fingerprint identifies a request exactly: for requests whose strings hold no NUL byte and that have an
  item, \<^verbatim>\<open>EnqueueOp\<close> on a queue that holds one request refuses another if and only if both have the same type,
  destination and collection of sources.
\<close>

theorem EnqueueOp_refuses_iff:
  assumes "nulFree t" "nulFree u" "q_activeFingerprints s = {}" "EnqueueOp i t s = (r, s')"
  shows "snd (fst (EnqueueOp j u s')) \<longleftrightarrow> sameRequest t u"
proof -
  have "fileOperateFingerprint t = fileOperateFingerprint u \<longleftrightarrow> sameRequest t u"
  proof
    assume fp: "fileOperateFingerprint t = fileOperateFingerprint u"
    let ?f = "\<lambda>t. sort (map fi_From (fo_Item t))"
    have nz: "NUL \<notin> set (fo_Type t)" "NUL \<notin> set (fo_Type u)" "NUL \<notin> set (fo_To t)" "NUL \<notin> set (fo_To u)"
      "\<forall>w \<in> set (?f t). NUL \<notin> set w" "\<forall>w \<in> set (?f u). NUL \<notin> set w" "fo_Item t \<noteq> []" "fo_Item u \<noteq> []"
      using assms(1,2) by (simp_all add: nulFree_def)
    have "fo_Type t @ NUL # (fo_To t @ NUL # StrJoin (?f t) [NUL]) = fo_Type u @ NUL # (fo_To u @ NUL # StrJoin (?f u) [NUL])"
      using fp by (simp add: fileOperateFingerprint_def)
    note ty = sep_inj [OF nz(1,2) this]
    then have tl: "fo_To t = fo_To u \<and> StrJoin (?f t) [NUL] = StrJoin (?f u) [NUL]" using sep_inj [OF nz(3,4)] by blast
    have "sort (map fi_From (fo_Item v)) \<noteq> []" if "fo_Item v \<noteq> []" for v
      using that by (metis length_0_conv length_map length_sort)
    then have "?f t = ?f u" using tl StrJoin_inj [OF nz(5,6)] nz(7,8) by blast
    then show "sameRequest t u" using ty tl unfolding sameRequest_def by (blast dest: sort_eq_mset)
  qed (rule sameRequest_fingerprint)
  moreover have "q_activeFingerprints s' = {fileOperateFingerprint t}"
    using assms(3,4) by (auto simp: EnqueueOp_def fqStore_def Let_def)
  moreover have "snd (fst (EnqueueOp j u s')) \<longleftrightarrow> fileOperateFingerprint u \<in> q_activeFingerprints s'"
    by (simp add: EnqueueOp_def Let_def)
  ultimately show ?thesis by (metis singleton_iff)
qed

theorem EnqueueOp_refuses_iff_witness:
  "nulFree (demoTask ''/s/x'') \<and> nulFree (demoTask ''/s/y'')
   \<and> (snd (fst (EnqueueOp ''b'' (demoTask ''/s/y'') (snd (EnqueueOp ''a'' (demoTask ''/s/x'') emptyQueue))))
        \<longleftrightarrow> sameRequest (demoTask ''/s/x'') (demoTask ''/s/y''))"
proof -
  have "nulFree (demoTask ''/s/x'')" "nulFree (demoTask ''/s/y'')" "q_activeFingerprints emptyQueue = {}" by code_simp+
  then show ?thesis
    using EnqueueOp_refuses_iff [of "demoTask ''/s/x''" "demoTask ''/s/y''" emptyQueue "''a''"
        "fst (EnqueueOp ''a'' (demoTask ''/s/x'') emptyQueue)" "snd (EnqueueOp ''a'' (demoTask ''/s/x'') emptyQueue)" "''b''"] by simp
qed

text \<open>A schedule with two queued tasks and a refused duplicate.\<close>

definition twoQueued :: "act list" where
  "twoQueued = [ASubmit ''a'' (demoTask ''/s/x''), ASubmit ''b'' (demoTask ''/s/y''), ASubmit ''c'' (demoTask ''/s/x'')]"

lemma twoQueued_run:
  "\<exists>es c. fileRun initSys es c \<and> q_ids (sys_q c) = [''a'', ''b''] \<and> fqLoad ''a'' (sys_q c) = Some (demoTask ''/s/x'')
     \<and> fqLoad ''b'' (sys_q c) = Some (demoTask ''/s/y'')"
proof -
  have "(case actRun twoQueued initSys of None \<Rightarrow> False | Some (es, c) \<Rightarrow> q_ids (sys_q c) = [''a'', ''b'']
     \<and> fqLoad ''a'' (sys_q c) = Some (demoTask ''/s/x'') \<and> fqLoad ''b'' (sys_q c) = Some (demoTask ''/s/y''))"
    by code_simp
  then show ?thesis by (auto split: option.splits dest!: actRun_sound)
qed

theorem opQueue_no_duplicates_witness:
  "\<exists>es c. fileRun initSys es c \<and> opInv (sys_q c) \<and> q_ids (sys_q c) = [''a'', ''b''] \<and> \<not> sameRequest (demoTask ''/s/x'') (demoTask ''/s/y'')"
proof -
  obtain es c where r: "fileRun initSys es c" "q_ids (sys_q c) = [''a'', ''b'']"
    "fqLoad ''a'' (sys_q c) = Some (demoTask ''/s/x'')" "fqLoad ''b'' (sys_q c) = Some (demoTask ''/s/y'')"
    using twoQueued_run by blast
  then show ?thesis using opQueue_no_duplicates [OF r(1)] by (intro exI [of _ es] exI [of _ c]) auto
qed

text \<open>
  C12. Once the context of a task is cancelled, every worker that starts it afterwards is handed a cancelled
  context, until the task is dequeued: a cancellation that arrives between the dispatch of a worker and its
  \<^verbatim>\<open>beginRun\<close> is not lost.
\<close>

theorem cancellation_honoured:
  assumes "fileRun c es c'" "cancelledTask i (sys_q c)" "DequeuedEv i \<notin> set es" "Began i x \<in> set es"
  shows "ctxErr x (sys_q c')"
proof -
  have "cancelledTask i (sys_q c') \<and> (\<forall>x. Began i x \<in> set es \<longrightarrow> ctxErr x (sys_q c'))"
    using assms(1-3)
  proof (induction rule: fileRun.induct)
    case (run_snoc c es c' e c'')
    then have "cancelledTask i (sys_q c')" "\<forall>x. Began i x \<in> set es \<longrightarrow> ctxErr x (sys_q c')" by auto
    then show ?case using run_snoc(2,5) cancelledTask_step [OF run_snoc(2)] cancelled_begins ctxErr_mono [OF cancelled_mono_step [OF run_snoc(2)]]
      by auto
  qed simp
  then show ?thesis using assms(4) by blast
qed

text \<open>The cancellation of a queued task: the locked section and the call of its cancel function make it cancelled.\<close>

definition raceStart :: "act list" where
  "raceStart = [ASubmit ''a'' (demoTask ''/s/x''), ADispatch, ALoad ''a'', ACancelGate ''a'', ACancelLocked ''a'',
     ACancelCall ''a'' 0 False, ACancelDelete ''a'']"

theorem cancellation_honoured_witness:
  "\<exists>c es c'. fileRun initSys es c \<and> cancelledTask ''a'' (sys_q c) \<and> q_ids (sys_q c) = []
     \<and> fileRun c [Began ''a'' (Some 0)] c' \<and> ctxErr (Some 0) (sys_q c')"
proof -
  have "(case actRun raceStart initSys of None \<Rightarrow> False | Some (es, c) \<Rightarrow>
      map_of (q_ctxOf (sys_q c)) ''a'' = Some 0 \<and> 0 \<in> q_cancelled (sys_q c) \<and> q_ids (sys_q c) = []
      \<and> (case actRun [ABegin ''a'' (demoTask ''/s/x'')] c of None \<Rightarrow> False | Some (fs, c') \<Rightarrow> fs = [Began ''a'' (Some 0)]))"
    by code_simp
  then obtain es c c' where r: "actRun raceStart initSys = Some (es, c)" "map_of (q_ctxOf (sys_q c)) ''a'' = Some 0"
    "0 \<in> q_cancelled (sys_q c)" "q_ids (sys_q c) = []" "actRun [ABegin ''a'' (demoTask ''/s/x'')] c = Some ([Began ''a'' (Some 0)], c')"
    by (auto split: option.splits prod.splits simp del: actRun.simps)
  then have "cancelledTask ''a'' (sys_q c)" by (auto simp: cancelledTask_def)
  then show ?thesis
    using cancellation_honoured [OF actRun_sound [OF r(5)], of "''a''" "Some 0"] actRun_sound [OF r(1)] actRun_sound [OF r(5)] r(4) by auto
qed

text \<open>
  A task is dequeued without a worker having started it only if it has a positive size: the completion by
  size never applies to a task of size 0, so a batch of empty directories is executed before it is retired.
\<close>

theorem retired_only_after_run:
  assumes "fileRun initSys es c" "\<forall>i t d. Submitted i t d \<in> set es \<longrightarrow> \<not> fo_Finished t"
    "DequeuedEv i \<in> set es" "\<forall>t. Submitted i t False \<in> set es \<longrightarrow> fo_TotalSize t \<le> 0"
  shows "\<exists>x. Began i x \<in> set es"
proof -
  have "runOk es c" using run_runOk [OF assms(1) runOk_init assms(2)] .
  then have "began es i \<or> (\<exists>n > 0. sized es i n)" using assms(3) by (auto simp: runOk_def)
  then show ?thesis using assms(4) by (auto simp: began_def sized_def)
qed

definition emptyDirs :: FileOperate where
  "emptyDirs = \<lparr>fo_Type = ''move'', fo_Item = [\<lparr>fi_From = ''/s/e'', fi_Finished = False, fi_Size = 0, fi_ProcessedSize = 0, fi_ParkedPath = []\<rparr>],
     fo_TotalSize = 0, fo_ProcessedSize = 0, fo_To = ''/d'', fo_Style = [], fo_Finished = False, fo_Cancelled = False\<rparr>"

definition emptyRun :: "act list" where
  "emptyRun = [ASubmit ''a'' emptyDirs, ADispatch, ALoad ''a'', ABegin ''a'' emptyDirs, AProgress ''a'' 0,
     AFinish ''a'' emptyDirs (Some 0) False, AMark ''a'' False, AEnding ''a'', APoll ''a'', APollDequeue ''a'']"

theorem retired_only_after_run_witness:
  "\<exists>es c. fileRun initSys es c \<and> DequeuedEv ''a'' \<in> set es \<and> (\<exists>x. Began ''a'' x \<in> set es)"
proof -
  have "(case actRun emptyRun initSys of None \<Rightarrow> False
      | Some (es, c) \<Rightarrow> es = [Submitted ''a'' emptyDirs False, Tau, Tau, Began ''a'' (Some 0), Tau, Tau, Tau, Tau, Tau, DequeuedEv ''a''])"
    by code_simp
  then obtain es c where r: "fileRun initSys es c"
    "es = [Submitted ''a'' emptyDirs False, Tau, Tau, Began ''a'' (Some 0), Tau, Tau, Tau, Tau, Tau, DequeuedEv ''a'']"
    by (auto split: option.splits dest!: actRun_sound)
  have "\<exists>x. Began ''a'' x \<in> set es"
    by (rule retired_only_after_run [OF r(1)]) (use r(2) in \<open>auto simp: emptyDirs_def\<close>)
  then show ?thesis using r by (intro exI [of _ es] exI [of _ c]) simp
qed

text \<open>
  C30. The size fallback retires a task that no worker ever started: when the destination of a queued task already
  has the task's size, one progress pass makes the poller report it finished and dequeue it.
\<close>

definition neverRun :: "act list" where
  "neverRun = [ASubmit ''a'' (demoTask ''/s/x''), ASubmit ''b'' (demoTask ''/s/y''), AProgress ''b'' 8, APoll ''b'', APollDequeue ''b'']"

theorem retired_without_run:
  "\<exists>es c. fileRun initSys es c \<and> DequeuedEv ''b'' \<in> set es \<and> (\<forall>x. Began ''b'' x \<notin> set es)
     \<and> Submitted ''b'' (demoTask ''/s/y'') False \<in> set es \<and> fqLoad ''b'' (sys_q c) = None"
proof -
  have "(case actRun neverRun initSys of None \<Rightarrow> False | Some (es, c) \<Rightarrow> fqLoad ''b'' (sys_q c) = None
      \<and> es = [Submitted ''a'' (demoTask ''/s/x'') False, Submitted ''b'' (demoTask ''/s/y'') False, Tau, Tau, DequeuedEv ''b''])"
    by code_simp
  then show ?thesis by (force split: option.splits dest!: actRun_sound)
qed

text \<open>
  C33. A queue can stop for good: when the first task is cancelled between its dispatch and its load, its worker
  returns at once and nothing dispatches the task behind it, while later submissions are not first either.
\<close>

definition stalledRun :: "act list" where
  "stalledRun = [ASubmit ''a'' (demoTask ''/s/x''), ASubmit ''b'' (demoTask ''/s/y''), ADispatch, ACancelGate ''a'',
     ACancelLocked ''a'', ACancelCall ''a'' 0 False, ACancelDelete ''a'', ALoad ''a'']"

definition stalled :: "opSys \<Rightarrow> bool" where
  "stalled c = (q_ids (sys_q c) \<noteq> [] \<and> sys_execs c = 0 \<and> sys_gors c = [] \<and> q_running (sys_q c) = []
     \<and> (\<forall>i \<in> set (q_ids (sys_q c)). case fqLoad i (sys_q c) of None \<Rightarrow> False
          | Some t \<Rightarrow> \<not> snd (buildFileNotifyTask i t (sys_q c))))"


text \<open>
  C27. A worker that finishes after the poller has retired its task by size stores the task again: the entry stays in
  \<open>FileQueue\<close> with its id out of the queue, so the periodic notify loop, which ends when \<open>FileQueue\<close> is empty,
  keeps running without ever visiting it.
\<close>

definition ghostRun :: "act list" where
  "ghostRun = [ASubmit ''a'' (demoTask ''/s/x''), ADispatch, ALoad ''a'', ABegin ''a'' (demoTask ''/s/x''),
     AProgress ''a'' 8, APoll ''a'', APollDequeue ''a'', AFinish ''a'' (demoTask ''/s/x'') (Some 0) False, AMark ''a'' False,
     AEnding ''a'', ADispatch]"

theorem retired_task_resurrected:
  "\<exists>es c. fileRun initSys es c \<and> sys_execs c = 0 \<and> sys_gors c = [] \<and> q_ids (sys_q c) = []
     \<and> fqLoad ''a'' (sys_q c) \<noteq> None \<and> notifyRound (sys_q c) = Some ([], 0, sys_q c)"
proof -
  have "(case actRun ghostRun initSys of None \<Rightarrow> False | Some (es, c) \<Rightarrow>
     sys_execs c = 0 \<and> sys_gors c = [] \<and> q_ids (sys_q c) = [] \<and> fqLoad ''a'' (sys_q c) \<noteq> None)"
    by code_simp
  then obtain es c where r: "fileRun initSys es c" "sys_execs c = 0" "sys_gors c = []" "q_ids (sys_q c) = []"
    "fqLoad ''a'' (sys_q c) \<noteq> None"
    by (auto split: option.splits dest!: actRun_sound)
  then have "notifyRound (sys_q c) = Some ([], 0, sys_q c)" by (auto simp: notifyRound_def PeekOps_def fqLoad_def)
  then show ?thesis using r by blast
qed

end
