(* ===== verification/PathAcl.thy ===== *)
theory PathAcl
  imports PathUtils
begin

text \<open>
  Path access control: \<^verbatim>\<open>pkg/utils/path_acl.go\<close> (the base rule with its cached view of the
  system disk), \<^verbatim>\<open>service/user.go\<close> (folder grants with a 30-second cache), the gate
  \<^verbatim>\<open>checkPathAccess\<close> and the guard \<^verbatim>\<open>isAncestorOfSystemPath\<close> of \<^verbatim>\<open>route/v1/file.go\<close>, and
  the path configuration of \<^verbatim>\<open>service/migrate.go\<close> that the guard consults. The clock and the
  contents of \<^verbatim>\<open>/proc/mounts\<close> are arguments (times in seconds, one reading per call); the
  caches are state, passed and returned.
\<close>

section \<open>System disk (path\_acl.go)\<close>

definition dataAllowedPrefixes :: "string list" where
  "dataAllowedPrefixes = [''/DATA'', ''/mnt'', ''/media'']"

definition isDigit :: "char \<Rightarrow> bool" where
  "isDigit c = (let n = (of_char c :: nat) in 48 \<le> n \<and> n \<le> 57)"

definition isLetter :: "char \<Rightarrow> bool" where
  "isLetter c = (let n = (of_char c :: nat) in (65 \<le> n \<and> n \<le> 90) \<or> (97 \<le> n \<and> n \<le> 122))"

text \<open>One or more digits at the front of a string.\<close>

definition digits1 :: "string \<Rightarrow> (string \<times> string) option" where
  "digits1 s = (let d = takeWhile isDigit s in if d = [] then None else Some (d, drop (length d) s))"

definition lit :: "string \<Rightarrow> string \<Rightarrow> string option" where
  "lit l s = (if prefix l s then Some (drop (length l) s) else None)"

text \<open>The suffix \<^verbatim>\<open>p\d+$\<close> of the first regular expression.\<close>

definition partSuffix :: "string \<Rightarrow> bool" where
  "partSuffix s = (case lit ''p'' s of None \<Rightarrow> False
     | Some r \<Rightarrow> (case digits1 r of Some (d, []) \<Rightarrow> True | _ \<Rightarrow> False))"

text \<open>\<^verbatim>\<open>^(nvme\d+n\d+|mmcblk\d+)p\d+$\<close>: the first submatch.\<close>

definition nvmeBase :: "string \<Rightarrow> string option" where
  "nvmeBase b =
     (case lit ''nvme'' b of None \<Rightarrow> None | Some r1 \<Rightarrow>
     (case digits1 r1 of None \<Rightarrow> None | Some (d1, r2) \<Rightarrow>
     (case lit ''n'' r2 of None \<Rightarrow> None | Some r3 \<Rightarrow>
     (case digits1 r3 of None \<Rightarrow> None | Some (d2, r4) \<Rightarrow>
        if partSuffix r4 then Some (''nvme'' @ d1 @ ''n'' @ d2) else None))))"

definition mmcBase :: "string \<Rightarrow> string option" where
  "mmcBase b =
     (case lit ''mmcblk'' b of None \<Rightarrow> None | Some r1 \<Rightarrow>
     (case digits1 r1 of None \<Rightarrow> None | Some (d1, r2) \<Rightarrow>
        if partSuffix r2 then Some (''mmcblk'' @ d1) else None))"

text \<open>\<^verbatim>\<open>^([a-zA-Z]+)\d+$\<close>: the first submatch.\<close>

definition sdBase :: "string \<Rightarrow> string option" where
  "sdBase b =
     (let l = takeWhile isLetter b in
      if l = [] then None
      else (case digits1 (drop (length l) b) of Some (d, []) \<Rightarrow> Some l | _ \<Rightarrow> None))"

definition aclDiskBase :: "string \<Rightarrow> string" where
  "aclDiskBase device =
     (let dir = Dir device; base = Base device in
      case nvmeBase base of Some b \<Rightarrow> Join [dir, b]
      | None \<Rightarrow> (case mmcBase base of Some b \<Rightarrow> Join [dir, b]
      | None \<Rightarrow> (case sdBase base of Some b \<Rightarrow> Join [dir, b] | None \<Rightarrow> device)))"

text \<open>
  \<^verbatim>\<open>parseSystemDiskPaths\<close> on the contents of \<^verbatim>\<open>/proc/mounts\<close> (\<open>None\<close>: unreadable). The Go
  map with empty values is the list of its keys.
\<close>

definition rootDevOf :: "string list \<Rightarrow> string" where
  "rootDevOf lines =
     (case find (\<lambda>f. 2 \<le> length f \<and> f ! 1 = ''/'' \<and> HasPrefix (f ! 0) ''/dev/'') (map Fields lines) of
        Some f \<Rightarrow> f ! 0 | None \<Rightarrow> [])"

definition parseSystemDiskPaths :: "string option \<Rightarrow> string list" where
  "parseSystemDiskPaths raw =
     (case raw of None \<Rightarrow> [''/'']
      | Some txt \<Rightarrow>
         (let lines = Split (CHR 0x0A) (TrimSpace txt); rootDev = rootDevOf lines in
          if rootDev = [] then [''/'']
          else ''/'' # [f ! 1. f \<leftarrow> map Fields lines,
                  2 \<le> length f \<and> HasPrefix (f ! 0) ''/dev/'' \<and> aclDiskBase (f ! 0) = aclDiskBase rootDev]))"

record systemDiskCache =
  sd_paths :: "string list"
  sd_refreshAt :: int

definition refreshSystemDiskCache :: "int \<Rightarrow> string option \<Rightarrow> systemDiskCache \<Rightarrow> systemDiskCache" where
  "refreshSystemDiskCache now raw c =
     (if now < sd_refreshAt c then c
      else \<lparr>sd_paths = parseSystemDiskPaths raw, sd_refreshAt = now + 60\<rparr>)"

definition SystemDiskMountPoints :: "int \<Rightarrow> string option \<Rightarrow> systemDiskCache \<Rightarrow> string list \<times> systemDiskCache" where
  "SystemDiskMountPoints now raw c =
     (let c' = refreshSystemDiskCache now raw c in (sd_paths c', c'))"

definition isOnSystemDisk :: "int \<Rightarrow> string option \<Rightarrow> systemDiskCache \<Rightarrow> string \<Rightarrow> bool \<times> systemDiskCache" where
  "isOnSystemDisk now raw c clean =
     (let c' = refreshSystemDiskCache now raw c
      in (list_ex (\<lambda>mp. clean = mp \<or> HasPrefix clean (mp @ ''/'')) (sd_paths c'), c'))"

definition IsPathAllowed :: "int \<Rightarrow> string option \<Rightarrow> systemDiskCache \<Rightarrow> string \<Rightarrow> bool \<Rightarrow> bool \<times> systemDiskCache" where
  "IsPathAllowed now raw c path isAdmin =
     (if path = [] then (False, c)
      else let clean = Clean path in
      if isAdmin then (True, c)
      else if \<not> list_ex (\<lambda>pre. clean = pre \<or> HasPrefix clean (pre @ ''/'')) dataAllowedPrefixes then (False, c)
      else case isOnSystemDisk now raw c clean of (on, c') \<Rightarrow> (\<not> on, c'))"

section \<open>Folder grants (user.go)\<close>

record userFolderPermission =
  up_UserId :: int
  up_Path :: string

record grantCacheEntry =
  gc_paths :: "string list"
  gc_expiresAt :: int

type_synonym grantCache = "int \<rightharpoonup> grantCacheEntry"

text \<open>
  \<open>rows\<close> is the table the query reads; a failing query leaves the slice empty, so it is the
  empty table.
\<close>

definition grantedPaths :: "int \<Rightarrow> userFolderPermission list \<Rightarrow> grantCache \<Rightarrow> int \<Rightarrow> string list \<times> grantCache" where
  "grantedPaths now rows cache userID =
     (let paths = map up_Path (filter (\<lambda>p. up_UserId p = userID) rows);
          refreshed = (paths, cache(userID \<mapsto> \<lparr>gc_paths = paths, gc_expiresAt = now + 30\<rparr>))
      in case cache userID of
           Some e \<Rightarrow> (if now < gc_expiresAt e then (gc_paths e, cache) else refreshed)
         | None \<Rightarrow> refreshed)"

text \<open>\<open>db\<close> is \<open>None\<close> when \<^verbatim>\<open>user.db\<close> could not be opened.\<close>

definition IsPathGranted :: "int \<Rightarrow> userFolderPermission list option \<Rightarrow> grantCache \<Rightarrow> int \<Rightarrow> string \<Rightarrow> bool \<times> grantCache" where
  "IsPathGranted now db cache userID cleanPath =
     (case db of None \<Rightarrow> (False, cache)
      | Some rows \<Rightarrow>
         (case grantedPaths now rows cache userID of (paths, cache') \<Rightarrow>
            (list_ex (\<lambda>granted. let g = Clean granted
                       in cleanPath = g \<or> HasPrefix cleanPath (g @ ''/'')) paths, cache')))"

text \<open>\<^verbatim>\<open>GetUserRoleByID\<close>: the first matching row of \<^verbatim>\<open>o_users\<close>, an empty role reads as user.\<close>

definition GetUserRoleByID :: "(int \<times> string) list option \<Rightarrow> (int \<times> string) list option \<Rightarrow> int \<Rightarrow> string option" where
  "GetUserRoleByID userDB mainDB i =
     (case (case userDB of None \<Rightarrow> mainDB | Some t \<Rightarrow> Some t) of
        None \<Rightarrow> None
      | Some t \<Rightarrow> (let role = (case find (\<lambda>r. fst r = i) t of Some r \<Rightarrow> snd r | None \<Rightarrow> [])
                   in Some (if role = [] then ''user'' else role)))"

section \<open>The gate of the v1 file API\<close>

text \<open>\<^verbatim>\<open>strconv.Atoi\<close> on a 64-bit machine.\<close>

definition atoiDigits :: "string \<Rightarrow> int option" where
  "atoiDigits s = (if s = [] \<or> \<not> list_all isDigit s then None
     else Some (foldl (\<lambda>a c. 10 * a + (int (of_char c) - 48)) 0 s))"

definition Atoi :: "string \<Rightarrow> int option" where
  "Atoi s =
     (let neg = HasPrefix s ''-''; body = (if neg \<or> HasPrefix s ''+'' then tl s else s)
      in case atoiDigits body of None \<Rightarrow> None
         | Some n \<Rightarrow> (let v = (if neg then - n else n)
                      in if - (2 ^ 63) \<le> v \<and> v < 2 ^ 63 then Some v else None))"

record requestCtx =
  rq_role :: string
  rq_userID :: string

record aclState =
  acl_disk :: systemDiskCache
  acl_grants :: grantCache

text \<open>Everything outside the process that the gate reads: the clock, the mount table, \<^verbatim>\<open>user.db\<close>.\<close>

record aclEnv =
  env_now :: int
  env_mounts :: "string option"
  env_userDB :: "userFolderPermission list option"

text \<open>\<open>True\<close> is the nil error, \<open>False\<close> the 403 response.\<close>

definition checkPathAccess :: "aclEnv \<Rightarrow> aclState \<Rightarrow> requestCtx \<Rightarrow> string \<Rightarrow> bool \<times> aclState" where
  "checkPathAccess env st ctx path =
     (let role = rq_role ctx; userID = rq_userID ctx in
      if role = [] \<and> userID = [] then (True, st)
      else
        (let isSuperAdmin = (userID = ''1''); cleanPath = Clean path in
         if isSuperAdmin then (True, st)
         else case IsPathAllowed (env_now env) (env_mounts env) (acl_disk st) cleanPath False of
           (allowed, disk) \<Rightarrow>
             (let st1 = st\<lparr>acl_disk := disk\<rparr> in
              if allowed then (True, st1)
              else if userID \<noteq> [] then
                (case Atoi userID of
                   None \<Rightarrow> (False, st1)
                 | Some uid \<Rightarrow>
                    (case IsPathGranted (env_now env) (env_userDB env) (acl_grants st1) uid cleanPath of
                       (granted, g) \<Rightarrow> (granted, st1\<lparr>acl_grants := g\<rparr>)))
              else (False, st1))))"

section \<open>Path configuration and the system-path guard\<close>

record PathConfig =
  pc_AppData :: string
  pc_Images :: string
  pc_UserData :: string
  pc_Photos :: string

definition DefaultAppDataPath :: string where "DefaultAppDataPath = ''/DATA/AppData''"
definition DefaultImagesPath :: string where "DefaultImagesPath = ''/DATA/.system_data/.docker''"
definition DefaultUserDataPath :: string where "DefaultUserDataPath = ''/DATA''"
definition DefaultPhotosPath :: string where "DefaultPhotosPath = ''/DATA/.system_data/photos''"

text \<open>\<open>stored\<close> is the decoded configuration file, \<open>None\<close> if it cannot be read or decoded.\<close>

definition LoadPathConfig :: "PathConfig option \<Rightarrow> PathConfig" where
  "LoadPathConfig stored =
     (let def = (\<lambda>v d. if v = [] then d else v) in
      case stored of
        None \<Rightarrow> \<lparr>pc_AppData = DefaultAppDataPath, pc_Images = DefaultImagesPath,
                  pc_UserData = DefaultUserDataPath, pc_Photos = DefaultPhotosPath\<rparr>
      | Some s \<Rightarrow> \<lparr>pc_AppData = def (pc_AppData s) DefaultAppDataPath,
                    pc_Images = def (pc_Images s) DefaultImagesPath,
                    pc_UserData = def (pc_UserData s) DefaultUserDataPath,
                    pc_Photos = def (pc_Photos s) DefaultPhotosPath\<rparr>)"

text \<open>What the resolver asks the file system: \<^verbatim>\<open>os.Stat\<close> succeeds, it is a directory, \<^verbatim>\<open>EvalSymlinks\<close>.\<close>

record fsView =
  fv_stat :: "string \<Rightarrow> bool"
  fv_isDir :: "string \<Rightarrow> bool"
  fv_eval :: "string \<Rightarrow> string option"

definition resolveReal :: "fsView \<Rightarrow> string \<Rightarrow> string \<Rightarrow> string \<times> bool" where
  "resolveReal fs configuredPath legacyPath =
     (if fv_stat fs configuredPath then (configuredPath, False)
      else case fv_eval fs legacyPath of
             Some r \<Rightarrow> (if fv_stat fs r then (r, True) else (configuredPath, False))
           | None \<Rightarrow> (configuredPath, False))"

definition resolveAnchor :: "fsView \<Rightarrow> string \<Rightarrow> string \<Rightarrow> string \<times> bool" where
  "resolveAnchor fs current anchor =
     (case fv_eval fs anchor of Some r \<Rightarrow> (r, current \<noteq> r) | None \<Rightarrow> (anchor, False))"

text \<open>Returns the configuration and, when it was corrected, what is written back.\<close>

definition ResolveActivePaths :: "fsView \<Rightarrow> PathConfig option \<Rightarrow> PathConfig \<times> PathConfig option" where
  "ResolveActivePaths fs stored =
     (let cfg = LoadPathConfig stored;
          (app, ch1) = resolveReal fs (pc_AppData cfg) DefaultAppDataPath;
          (img, ch2) = resolveAnchor fs (pc_Images cfg) DefaultImagesPath;
          (pho, ch3) = resolveAnchor fs (pc_Photos cfg) DefaultPhotosPath;
          (usr, ch4) = (if fv_stat fs (pc_UserData cfg) then (pc_UserData cfg, False)
                        else case fv_eval fs DefaultUserDataPath of
                               Some r \<Rightarrow> (if fv_stat fs r \<and> fv_isDir fs r then (r, True)
                                          else (pc_UserData cfg, False))
                             | None \<Rightarrow> (pc_UserData cfg, False));
          cfg' = \<lparr>pc_AppData = app, pc_Images = img, pc_UserData = usr, pc_Photos = pho\<rparr>
      in (cfg', if ch1 \<or> ch2 \<or> ch3 \<or> ch4 then Some cfg' else None))"

definition systemPaths :: "PathConfig \<Rightarrow> string list" where
  "systemPaths cfg =
     [pc_AppData cfg, pc_Images cfg, Join [pc_UserData cfg, ''Documents''],
      Join [pc_UserData cfg, ''Downloads''], Join [pc_UserData cfg, ''Gallery''],
      Join [pc_UserData cfg, ''Media'']]"

definition isAncestorOfSystemPath :: "PathConfig \<Rightarrow> string \<Rightarrow> bool" where
  "isAncestorOfSystemPath cfg targetPath =
     (let clean = Clean targetPath in
      list_ex (\<lambda>sp. sp \<noteq> [] \<and> sp \<noteq> ''/'' \<and>
                 HasPrefix (Clean sp @ ''/'') (clean @ ''/'') \<and> clean \<noteq> Clean sp) (systemPaths cfg))"

section \<open>Time-to-live caches\<close>

text \<open>
  The two caches share a contract: a value younger than its time to live is served from the
  cache, anything else is read from the source and kept. \<open>entry\<close> shows a cached value with
  its expiry, \<open>read\<close> is what the source holds for a key.
\<close>

locale ttl_cache =
  fixes get :: "int \<Rightarrow> 'src \<Rightarrow> 'c \<Rightarrow> 'k \<Rightarrow> 'v \<times> 'c"
    and entry :: "'c \<Rightarrow> 'k \<Rightarrow> ('v \<times> int) option"
    and read :: "'src \<Rightarrow> 'k \<Rightarrow> 'v"
    and ttl :: int
  assumes hit: "entry c k = Some (v, e) \<Longrightarrow> now < e \<Longrightarrow> get now s c k = (v, c)"
    and miss_value: "(\<And>v e. entry c k = Some (v, e) \<Longrightarrow> e \<le> now) \<Longrightarrow> fst (get now s c k) = read s k"
    and miss_entry: "(\<And>v e. entry c k = Some (v, e) \<Longrightarrow> e \<le> now) \<Longrightarrow>
      entry (snd (get now s c k)) k = Some (read s k, now + ttl)"
    and other_key: "k' \<noteq> k \<Longrightarrow> entry (snd (get now s c k)) k' = entry c k'"
begin

text \<open>Every live entry was read from the source \<open>h\<close> at the time its expiry says.\<close>

definition backed :: "(int \<Rightarrow> 'src) \<Rightarrow> int \<Rightarrow> 'c \<Rightarrow> bool" where
  "backed h now c \<longleftrightarrow> (\<forall>k v e. entry c k = Some (v, e) \<longrightarrow>
     e \<le> now \<or> (\<exists>t \<le> now. v = read (h t) k \<and> e = t + ttl))"

lemma backed_later: "backed h now c \<Longrightarrow> now \<le> now' \<Longrightarrow> backed h now' c"
  unfolding backed_def by (meson order.trans)

lemma get_cases:
  obtains (live) v e where "entry c k = Some (v, e)" "now < e" "get now s c k = (v, c)"
  | (stale) "fst (get now s c k) = read s k" "entry (snd (get now s c k)) k = Some (read s k, now + ttl)"
proof (cases "\<exists>v e. entry c k = Some (v, e) \<and> now < e")
  case True
  then show thesis using that(1) hit by blast
next
  case False
  then have "e \<le> now" if "entry c k = Some (v, e)" for v e using that by (meson not_le)
  then show thesis using that(2) miss_value miss_entry by blast
qed

lemma get_backed:
  assumes "backed h now c" and "now \<le> now'"
  shows "backed h now' (snd (get now' (h now') c k))"
proof (cases rule: get_cases [of c k now' "h now'"])
  case (live v e)
  then show ?thesis using backed_later [OF assms] by simp
next
  case stale
  show ?thesis unfolding backed_def
  proof (intro allI impI)
    fix k' v e
    assume e: "entry (snd (get now' (h now') c k)) k' = Some (v, e)"
    show "e \<le> now' \<or> (\<exists>t\<le>now'. v = read (h t) k' \<and> e = t + ttl)"
    proof (cases "k' = k")
      case True
      then show ?thesis using e stale(2) by auto
    next
      case False
      then show ?thesis using e other_key [of k' k now' "h now'" c] backed_later [OF assms]
        unfolding backed_def by metis
    qed
  qed
qed

lemma get_recent:
  assumes "0 < ttl" and "backed h now c" and "now \<le> now'"
  shows "\<exists>t. now' - ttl < t \<and> t \<le> now' \<and> fst (get now' (h now') c k) = read (h t) k"
proof (cases rule: get_cases [of c k now' "h now'"])
  case (live v e)
  then obtain t where "t \<le> now'" "v = read (h t) k" "e = t + ttl"
    using backed_later [OF assms(2,3)] unfolding backed_def by fastforce
  with live show ?thesis by (intro exI [of _ t]) auto
next
  case stale
  then show ?thesis using assms(1) by (intro exI [of _ now']) auto
qed

text \<open>A run of lookups at growing times keeps the cache backed.\<close>

lemma run_backed:
  assumes "backed h t0 c" and "sorted (t0 # map fst qs)"
  shows "backed h (last (t0 # map fst qs)) (foldl (\<lambda>c (t, k). snd (get t (h t) c k)) c qs)"
  using assms
proof (induction qs arbitrary: t0 c)
  case Nil
  then show ?case by simp
next
  case (Cons q qs)
  obtain t k where q: "q = (t, k)" by force
  have "backed h t (snd (get t (h t) c k))"
    using get_backed Cons.prems q by auto
  then show ?case using Cons.IH [of t] Cons.prems q by auto
qed

end

definition grantEntry :: "grantCache \<Rightarrow> int \<Rightarrow> (string list \<times> int) option" where
  "grantEntry c u = map_option (\<lambda>e. (gc_paths e, gc_expiresAt e)) (c u)"

definition pathsOfUser :: "userFolderPermission list \<Rightarrow> int \<Rightarrow> string list" where
  "pathsOfUser rows u = map up_Path (filter (\<lambda>p. up_UserId p = u) rows)"

interpretation grants: ttl_cache grantedPaths grantEntry pathsOfUser 30
  by unfold_locales
    (auto simp: grantedPaths_def grantEntry_def pathsOfUser_def Let_def split: option.splits if_splits)

definition diskGet :: "int \<Rightarrow> string option \<Rightarrow> systemDiskCache \<Rightarrow> unit \<Rightarrow> string list \<times> systemDiskCache" where
  "diskGet now raw c u = SystemDiskMountPoints now raw c"

interpretation disk: ttl_cache diskGet "\<lambda>c u. Some (sd_paths c, sd_refreshAt c)"
  "\<lambda>raw u. parseSystemDiskPaths raw" 60
  by unfold_locales
    (auto simp: diskGet_def SystemDiskMountPoints_def refreshSystemDiskCache_def Let_def split: if_splits)

section \<open>Properties\<close>

lemma resolve_mem: "w \<in> set (resolve r st ws) \<Longrightarrow> w \<in> set st \<union> set ws"
  by (induction r st ws rule: resolve.induct) (auto split: if_splits list.splits)

lemma Clean_not_rooted:
  assumes "\<not> rooted p"
  shows "\<not> rooted (Clean p)"
proof (cases "resolve False [] (comps p)")
  case Nil
  then show ?thesis using assms by (simp add: Clean_def HasPrefix_def)
next
  case (Cons w ws)
  then have "w \<in> set (comps p)" using resolve_mem [of w False "[]" "comps p"] by simp
  then have "w \<noteq> [] \<and> slash \<notin> set w" using comps_mem [of w p] by simp
  then obtain x xs where "w = x # xs" "x \<noteq> slash" by (cases w) auto
  then show ?thesis using assms Cons by (cases ws) (auto simp: Clean_def HasPrefix_def)
qed

lemma rooted_Clean_iff: "rooted (Clean p) \<longleftrightarrow> rooted p"
  using Clean_not_rooted rooted_Clean by blast

lemma segs_single: "segs (slash # w) = [w]" if "proper w"
  using that by (simp add: segs_def comps_proper_name) (simp add: proper_def)

lemma proper_roots [simp]: "proper ''DATA''" "proper ''mnt''" "proper ''media''"
  by (simp_all add: proper_def)

lemma atOrUnder_single:
  assumes "proper w"
  shows "atOrUnder (slash # w) (Clean p) \<longleftrightarrow> rooted p \<and> prefix [w] (segs p)"
proof (cases "rooted p")
  case True
  have "path_of [w] = slash # w" by (simp add: path_of_def)
  then show ?thesis
    using atOrUnder_path_of [OF segs_proper, of "[w]" p] assms True by (simp add: Clean_rooted)
next
  case False
  then show ?thesis
    using Clean_not_rooted [OF False] by (auto simp: atOrUnder_def HasPrefix_def prefix_def)
qed

lemma IsPathAllowed_sem:
  "fst (IsPathAllowed now raw c path False) \<longleftrightarrow>
     rooted path \<and> list_ex (\<lambda>r. prefix [r] (segs path)) [''DATA'', ''mnt'', ''media''] \<and>
     \<not> list_ex (\<lambda>mp. atOrUnder mp (Clean path)) (sd_paths (refreshSystemDiskCache now raw c))"
proof (cases "path = []")
  case True
  then show ?thesis by (simp add: IsPathAllowed_def HasPrefix_def)
next
  case False
  have pre: "list_ex (\<lambda>d. Clean path = d \<or> HasPrefix (Clean path) (d @ ''/'')) dataAllowedPrefixes \<longleftrightarrow>
      rooted path \<and> list_ex (\<lambda>r. prefix [r] (segs path)) [''DATA'', ''mnt'', ''media'']"
    using atOrUnder_single [of "''DATA''" path] atOrUnder_single [of "''mnt''" path]
      atOrUnder_single [of "''media''" path]
    by (auto simp: dataAllowedPrefixes_def atOrUnder_def)
  show ?thesis
    using False pre
    by (auto simp: IsPathAllowed_def Let_def isOnSystemDisk_def atOrUnder_def list_ex_iff split: prod.splits)
qed


text \<open>The caches a sequence of lookups at the given times leaves behind.\<close>

definition grantRun :: "(int \<Rightarrow> userFolderPermission list) \<Rightarrow> (int \<times> int) list \<Rightarrow> grantCache" where
  "grantRun h qs = foldl (\<lambda>c (t, u). snd (grantedPaths t (h t) c u)) Map.empty qs"

lemma grantRun_recent:
  assumes "sorted (map fst qs @ [now])"
  shows "\<exists>t. now - 30 < t \<and> t \<le> now \<and>
    fst (grantedPaths now (h now) (grantRun h qs) u) = pathsOfUser (h t) u"
proof (cases qs)
  case Nil
  then show ?thesis
    by (intro exI [of _ now]) (simp add: grantRun_def grantedPaths_def pathsOfUser_def Let_def)
next
  case (Cons q qs')
  have "grants.backed h (fst q) Map.empty" by (simp add: grants.backed_def grantEntry_def)
  from grants.run_backed [OF this, of qs] have "grants.backed h (last (map fst qs)) (grantRun h qs)"
    using assms Cons by (auto simp: grantRun_def sorted_append)
  moreover have "last (map fst qs) \<le> now"
    using assms last_in_set [of "map fst qs"] Cons by (auto simp: sorted_append simp del: last.simps)
  ultimately show ?thesis by (intro grants.get_recent) auto
qed

text \<open>
  Revocation takes effect within the time to live: after any sequence of grant lookups
  at growing times, a path is reported as granted only if some row of the permission table,
  as it stood less than 30 seconds ago, belongs to that user and covers the path.
\<close>

theorem IsPathGranted_recent:
  assumes "sorted (map fst qs @ [now])"
    and "fst (IsPathGranted now (Some (h now)) (grantRun h qs) u p)"
  shows "\<exists>t row. now - 30 < t \<and> t \<le> now \<and> row \<in> set (h t) \<and> up_UserId row = u \<and>
    atOrUnder (Clean (up_Path row)) p"
proof -
  obtain t where t: "now - 30 < t" "t \<le> now"
      "fst (grantedPaths now (h now) (grantRun h qs) u) = pathsOfUser (h t) u"
    using grantRun_recent [OF assms(1)] by blast
  from assms(2) obtain g where g: "g \<in> set (fst (grantedPaths now (h now) (grantRun h qs) u))"
      "atOrUnder (Clean g) p"
    by (auto simp: IsPathGranted_def Let_def list_ex_iff atOrUnder_def split: prod.splits)
  then show ?thesis using t by (auto simp: pathsOfUser_def)
qed

theorem IsPathGranted_recent_witness:
  "\<exists>t row. 20 - 30 < t \<and> t \<le> (20::int) \<and>
     row \<in> set (if t < 5 then [\<lparr>up_UserId = 2, up_Path = ''/srv''\<rparr>] else []) \<and>
     up_UserId row = 2 \<and> atOrUnder (Clean (up_Path row)) ''/srv/a''"
proof -
  let ?h = "\<lambda>t::int. if t < 5 then [\<lparr>up_UserId = 2, up_Path = ''/srv''\<rparr>] else []"
  have 1: "sorted (map fst [(3::int, 2::int)] @ [20])" by simp
  have 2: "fst (IsPathGranted 20 (Some (?h 20)) (grantRun ?h [(3, 2)]) 2 ''/srv/a'')"
    by (simp add: IsPathGranted_def grantRun_def grantedPaths_def Let_def Clean_def HasPrefix_def comps_def)
  show ?thesis using IsPathGranted_recent [OF 1 2] by simp
qed


definition demoAclEnv :: aclEnv where
  "demoAclEnv = \<lparr>env_now = 100, env_mounts = None, env_userDB = Some [\<lparr>up_UserId = 7, up_Path = ''/srv/x/''\<rparr>]\<rparr>"

definition demoAclState :: aclState where
  "demoAclState = \<lparr>acl_disk = \<lparr>sd_paths = [], sd_refreshAt = 0\<rparr>, acl_grants = Map.empty\<rparr>"

definition demoCtx :: requestCtx where
  "demoCtx = \<lparr>rq_role = ''user'', rq_userID = ''7''\<rparr>"


text \<open>
  System-path guard: for an absolute target other than the root directory,
  \<^verbatim>\<open>isAncestorOfSystemPath\<close> holds exactly when the target is a strict ancestor of one of the
  six configured system paths (all of them absolute and below root).
\<close>

theorem isAncestorOfSystemPath_iff:
  assumes "rooted target" and "segs target \<noteq> []"
    and "\<And>sp. sp \<in> set (systemPaths cfg) \<Longrightarrow> rooted sp"
  shows "isAncestorOfSystemPath cfg target \<longleftrightarrow>
    (\<exists>sp \<in> set (systemPaths cfg). sp \<noteq> ''/'' \<and> strict_prefix (segs target) (segs sp))"
proof -
  have eq: "HasPrefix (Clean sp @ ''/'') (Clean target @ ''/'') \<and> Clean target \<noteq> Clean sp \<longleftrightarrow>
      strict_prefix (segs target) (segs sp)" if "sp \<in> set (systemPaths cfg)" for sp
  proof -
    have "Clean sp = path_of (segs sp)" "Clean target = path_of (segs target)"
      using assms(1) assms(3) [OF that] by (simp_all add: Clean_rooted)
    then show ?thesis
      using HasPrefix_path_of [OF segs_proper segs_proper assms(2), of sp]
        path_of_inj [OF segs_proper segs_proper, of target sp]
      by (auto simp: HasPrefix_def strict_prefix_def)
  qed
  have "sp \<noteq> []" if "sp \<in> set (systemPaths cfg)" for sp
    using assms(3) [OF that] by (rule rooted_not_Nil)
  with eq show ?thesis
    unfolding isAncestorOfSystemPath_def Let_def list_ex_iff
    by (intro bex_cong [OF refl]) simp
qed

definition defaultPathConfig :: PathConfig where
  "defaultPathConfig = LoadPathConfig None"

lemma systemPaths_default:
  "systemPaths defaultPathConfig = [''/DATA/AppData'', ''/DATA/.system_data/.docker'',
     ''/DATA/Documents'', ''/DATA/Downloads'', ''/DATA/Gallery'', ''/DATA/Media'']"
  by (simp add: systemPaths_def defaultPathConfig_def LoadPathConfig_def Let_def DefaultAppDataPath_def
      DefaultImagesPath_def DefaultUserDataPath_def Clean_def HasPrefix_def comps_def Join.simps)

theorem isAncestorOfSystemPath_iff_witness:
  "isAncestorOfSystemPath defaultPathConfig ''/DATA/'' \<longleftrightarrow>
     (\<exists>sp \<in> set (systemPaths defaultPathConfig). sp \<noteq> ''/'' \<and> strict_prefix (segs ''/DATA/'') (segs sp))"
proof (rule isAncestorOfSystemPath_iff)
  show "rooted ''/DATA/''" by (simp add: HasPrefix_def)
  show "segs ''/DATA/'' \<noteq> []" by (simp add: segs_def comps_def)
  show "rooted sp" if "sp \<in> set (systemPaths defaultPathConfig)" for sp
    using that by (auto simp: systemPaths_default HasPrefix_def)
qed

text \<open>
  The root directory slips through the guard: \<^verbatim>\<open>isAncestorOfSystemPath\<close>
  is false of root under every configuration of absolute paths, although root contains every
  system path, because the test compares with two slashes.
\<close>

theorem isAncestorOfSystemPath_root:
  assumes "\<And>sp. sp \<in> set (systemPaths cfg) \<Longrightarrow> rooted sp"
  shows "\<not> isAncestorOfSystemPath cfg ''/''"
proof -
  have "\<not> HasPrefix (Clean sp @ ''/'') (Clean ''/'' @ ''/'') \<or> Clean ''/'' = Clean sp"
    if "sp \<in> set (systemPaths cfg)" for sp
  proof -
    have c: "Clean ''/'' = ''/''" by (simp add: Clean_def comps_def)
    have s: "Clean sp = path_of (segs sp)" using assms [OF that] by (rule Clean_rooted)
    show ?thesis
    proof (cases "segs sp = []")
      case False
      then have "HasPrefix (path_of (segs sp) @ ''/'') ''//'' \<longleftrightarrow> HasPrefix (path_of (segs sp)) ''//''"
        using path_of_snoc_slash [of "segs sp" "[[]]"] segs_proper [of sp]
        by (cases "segs sp"; cases "hd (segs sp)")
           (auto simp: HasPrefix_def path_of_def proper_def StrJoin_Cons split: list.splits)
      then show ?thesis using path_of_no_double_slash [OF segs_proper, of sp] by (simp add: c s)
    qed (simp add: c s)
  qed
  then show ?thesis by (auto simp: isAncestorOfSystemPath_def Let_def list_ex_iff)
qed

theorem isAncestorOfSystemPath_root_witness:
  "list_all rooted (systemPaths defaultPathConfig) \<and> \<not> isAncestorOfSystemPath defaultPathConfig ''/''"
proof -
  have "list_all rooted (systemPaths defaultPathConfig)" by (simp add: systemPaths_default HasPrefix_def)
  then show ?thesis using isAncestorOfSystemPath_root [of defaultPathConfig] by (simp add: list_all_iff)
qed

end
