(* ===== verification/FileTree.thy ===== *)
theory FileTree
  imports FileSys
begin

text \<open>
  Whole trees in the file system: removal and renaming of a directory with everything under it, and the frame
  condition \<open>outside\<close> that says which paths an operation leaves alone.
\<close>

section \<open>Trees\<close>

definition sameTree :: "fs \<Rightarrow> string list \<Rightarrow> fs \<Rightarrow> string list \<Rightarrow> bool" where
  "sameTree f p g q = (\<forall>r. fsGet f (p @ r) = fsGet g (q @ r))"

text \<open>Paths at or under none of the listed ones keep their node.\<close>

definition outside :: "string list set \<Rightarrow> fs \<Rightarrow> fs \<Rightarrow> bool" where
  "outside ps f g = (\<forall>r. (\<forall>p \<in> ps. \<not> prefix p r) \<longrightarrow> fsGet g r = fsGet f r)"

definition disjoint :: "string list \<Rightarrow> string list \<Rightarrow> bool" where
  "disjoint p q = (\<not> prefix p q \<and> \<not> prefix q p)"

lemma outside_refl: "outside ps f f"
  by (simp add: outside_def)

lemma outside_trans: "outside ps f g \<Longrightarrow> outside ps g h \<Longrightarrow> outside ps f h"
  by (simp add: outside_def)

lemma outside_mono: "outside ps f g \<Longrightarrow> ps \<subseteq> qs \<Longrightarrow> outside qs f g"
  by (auto simp: outside_def)

lemma outside_under: "outside {q} f g \<Longrightarrow> prefix p q \<Longrightarrow> outside {p} f g"
  unfolding outside_def by (metis prefix_order.trans singletonD singletonI)

lemma disjoint_sym: "disjoint p q \<Longrightarrow> disjoint q p"
  by (simp add: disjoint_def)

lemma disjoint_ext: "disjoint p q \<Longrightarrow> disjoint (p @ r) (q @ s)"
  by (metis disjoint_def append_prefixD prefix_same_cases prefixI)

lemma disjoint_not_prefix: "disjoint p q \<Longrightarrow> \<not> prefix q (p @ r)"
  by (metis disjoint_def prefix_same_cases prefixI)

lemma outside_tree: "outside ps f g \<Longrightarrow> (\<And>q. q \<in> ps \<Longrightarrow> disjoint p q) \<Longrightarrow> sameTree f p g p"
  by (auto simp: outside_def sameTree_def disjoint_not_prefix)

lemma sameTree_refl: "sameTree f p f p"
  by (simp add: sameTree_def)

lemma sameTree_sym: "sameTree f p g q \<Longrightarrow> sameTree g q f p"
  by (simp add: sameTree_def)

lemma sameTree_trans: "sameTree f p g q \<Longrightarrow> sameTree g q h r \<Longrightarrow> sameTree f p h r"
  by (simp add: sameTree_def)

lemma wf_under_none:
  assumes "fsWF f" "fsGet f q = None" shows "fsGet f (q @ r) = None"
proof (rule ccontr)
  assume "fsGet f (q @ r) \<noteq> None"
  moreover have "r \<noteq> []" using assms(2) calculation by auto
  ultimately have "fsGet f q = Some Directory" by (intro wf_ancestor [OF assms(1)]) (auto simp: strict_prefix_def)
  then show False using assms(2) by simp
qed

lemma fsWF_I:
  assumes "distinct (map fst f)" "[] \<notin> fst ` set f"
    and "\<And>p. p \<noteq> [] \<Longrightarrow> fsGet f p \<noteq> None \<Longrightarrow> fsGet f (butlast p) = Some Directory"
  shows "fsWF f"
  using assms by (simp add: fsWF_sem)

section \<open>Removing a tree\<close>

lemma fsRemoveAll_get:
  "p \<noteq> [] \<Longrightarrow> fsGet (fsRemoveAll f p) r = (if prefix p r then None else fsGet f r)"
  using fsGet_filter [of "\<lambda>q. \<not> prefix p q" f r] by (auto simp: fsRemoveAll_def)

lemma fsRemoveAll_wf:
  assumes "fsWF f" "p \<noteq> []" shows "fsWF (fsRemoveAll f p)"
proof (rule fsWF_I)
  show "distinct (map fst (fsRemoveAll f p))" "[] \<notin> fst ` set (fsRemoveAll f p)"
    using assms(1) by (auto simp: fsRemoveAll_def fsWF_sem distinct_map_filter)
  fix r :: "string list" assume r: "r \<noteq> []" "fsGet (fsRemoveAll f p) r \<noteq> None"
  then have "\<not> prefix p r" "fsGet f (butlast r) = Some Directory"
    using assms wf_parent by (auto simp: fsRemoveAll_get split: if_splits)
  then show "fsGet (fsRemoveAll f p) (butlast r) = Some Directory"
    using assms(2) prefix_order.trans [OF _ prefixeq_butlast] by (auto simp: fsRemoveAll_get)
qed

lemma fsRemoveAll_outside: "p \<noteq> [] \<Longrightarrow> outside {p} f (fsRemoveAll f p)"
  by (simp add: outside_def fsRemoveAll_get)

section \<open>Renaming a tree to a free path\<close>

lemma map_of_move_tree:
  assumes "\<forall>e \<in> set f. \<not> prefix q (fst e)" "\<not> prefix p q"
  shows "map_of (map (\<lambda>e. (moveKey p q (fst e), snd e)) f) r =
    (if prefix q r then map_of f (p @ drop (length q) r) else if prefix p r then None else map_of f r)"
  using assms(1)
proof (induction f)
  case (Cons e f)
  have e: "\<not> prefix q (fst e)" using Cons.prems by simp
  have "moveKey p q (fst e) = r \<longleftrightarrow>
      (if prefix q r then fst e = p @ drop (length q) r else \<not> prefix p r \<and> fst e = r)"
    using e assms(2) by (auto simp: moveKey_def prefix_def)
  note K = this
  have "map_of (map (\<lambda>e. (moveKey p q (fst e), snd e)) (e # f)) r =
      (if moveKey p q (fst e) = r then Some (snd e) else map_of (map (\<lambda>e. (moveKey p q (fst e), snd e)) f) r)" by simp
  also have "\<dots> = (if (if prefix q r then fst e = p @ drop (length q) r else \<not> prefix p r \<and> fst e = r) then Some (snd e)
       else map_of (map (\<lambda>e. (moveKey p q (fst e), snd e)) f) r)" by (simp only: K)
  also have "\<dots> = (if prefix q r then map_of (e # f) (p @ drop (length q) r) else if prefix p r then None else map_of (e # f) r)"
    using Cons.IH Cons.prems by (cases e) simp
  finally show ?case .
qed simp

lemma fsRename_free:
  assumes wf: "fsWF f" and run: "fsRename f p q = Inr f'" and free: "fsGet f q = None"
  shows "f' = map (\<lambda>e. (moveKey p q (fst e), snd e)) f" and "\<forall>e \<in> set f. \<not> prefix q (fst e)"
    and "p \<noteq> []" "q \<noteq> []" "disjoint p q" "fsGet f p \<noteq> None" "fsGet f (butlast q) = Some Directory"
proof -
  obtain n where ex: "fsGet f p = Some n" using run by (cases "fsGet f p") (auto simp: fsRename_def)
  have q: "q \<noteq> []" using free by auto
  have pne: "p \<noteq> []" and dirs: "fsGet f (butlast q) = Some Directory" and pq: "\<not> prefix p q"
    and f': "f' = map (\<lambda>e. (moveKey p q (fst e), snd e)) (filter (\<lambda>e. fst e \<noteq> q) f)"
    using run free ex by (simp_all add: fsRename_def split: if_splits)
  show none: "\<forall>e \<in> set f. \<not> prefix q (fst e)"
  proof
    fix e assume e: "e \<in> set f"
    then have "fsGet f (fst e) \<noteq> None" using wf fsGet_key [of "fst e" f] by (cases "fst e = []") (auto simp: fsWF_sem)
    then show "\<not> prefix q (fst e)" using wf_under_none [OF wf free] by (auto simp: prefix_def)
  qed
  then have "filter (\<lambda>e. fst e \<noteq> q) f = f" by (auto simp: filter_id_conv)
  then show "f' = map (\<lambda>e. (moveKey p q (fst e), snd e)) f" using f' by simp
  show "p \<noteq> []" "q \<noteq> []" "fsGet f (butlast q) = Some Directory" by fact+
  show "fsGet f p \<noteq> None" using ex by simp
  show "disjoint p q" using pq ex wf_under_none [OF wf free] by (auto simp: disjoint_def prefix_def)
qed

lemma fsRename_tree:
  assumes wf: "fsWF f" and run: "fsRename f p q = Inr f'" and free: "fsGet f q = None"
  shows "fsGet f' r = (if prefix q r then fsGet f (p @ drop (length q) r) else if prefix p r then None else fsGet f r)"
proof -
  note F = fsRename_free [OF assms]
  have "\<not> prefix p q" using F(5) by (simp add: disjoint_def)
  from map_of_move_tree [OF F(2) this, of r] show ?thesis using F(3,4) by (auto simp: F(1) fsGet_def)
qed

lemma fsRename_tree_wf:
  assumes wf: "fsWF f" and run: "fsRename f p q = Inr f'" and free: "fsGet f q = None"
  shows "fsWF f'"
proof (rule fsWF_I)
  note F = fsRename_free [OF assms]
  note T = fsRename_tree [OF assms]
  have pp: "p @ s \<in> fst ` set f \<Longrightarrow> \<not> prefix q (p @ s)" for s using F(2) by auto
  have inj: "inj_on (moveKey p q) (fst ` set f)"
  proof (rule inj_onI)
    fix k l assume k: "k \<in> fst ` set f" and l: "l \<in> fst ` set f" and e: "moveKey p q k = moveKey p q l"
    then have "\<not> prefix q k" "\<not> prefix q l" using F(2) by auto
    with e show "k = l" by (auto simp: moveKey_def prefix_def split: if_splits)
  qed
  have "map fst f' = map (moveKey p q) (map fst f)" by (simp add: F(1))
  moreover have "distinct (map fst f)" "[] \<notin> fst ` set f" using wf by (simp_all add: fsWF_sem)
  ultimately show "distinct (map fst f')" using inj by (simp only: distinct_map [of "moveKey p q"] set_map)
  have "moveKey p q k \<noteq> []" if "k \<in> fst ` set f" for k
    using that F(4) \<open>[] \<notin> fst ` set f\<close> by (cases "k = []") (auto simp: moveKey_def simp del: image_iff)
  then show "[] \<notin> fst ` set f'" unfolding F(1) by (metis (no_types, lifting) fst_conv image_iff image_set)
  fix r :: "string list" assume r: "r \<noteq> []" "fsGet f' r \<noteq> None"
  show "fsGet f' (butlast r) = Some Directory"
  proof (cases "prefix q r")
    case True
    then obtain s where s: "r = q @ s" by (auto simp: prefix_def)
    show ?thesis
    proof (cases "s = []")
      case True
      have "\<not> prefix q (butlast q)" using F(4) by (metis append_butlast_last_id not_Cons_self2 append_self_conv prefix_order.eq_iff prefixI)
      moreover have "\<not> prefix p (butlast q)"
        using F(5) by (metis disjoint_def prefix_order.trans prefixeq_butlast)
      ultimately show ?thesis using s True F(7) by (simp add: T)
    next
      case False
      then have "fsGet f (p @ s) \<noteq> None" using r s by (simp add: T)
      then have "fsGet f (p @ butlast s) = Some Directory" using wf_parent [OF wf, of "p @ s"] False by (simp add: butlast_append)
      then show ?thesis using s False by (simp add: T butlast_append)
    qed
  next
    case False
    then have np: "\<not> prefix p r" "fsGet f r \<noteq> None" using r T [of r] by (auto split: if_splits)
    moreover have "\<not> prefix q (butlast r)" "\<not> prefix p (butlast r)"
      using False np(1) by (metis prefix_order.trans prefixeq_butlast)+
    ultimately show ?thesis using wf_parent [OF wf r(1)] by (simp add: T)
  qed
qed

lemma fsRename_tree_same:
  assumes "fsWF f" "fsRename f p q = Inr f'" "fsGet f q = None"
  shows "sameTree f p f' q" "outside {p, q} f f'" "fsGet f' p = None"
  using fsRename_tree [OF assms] fsRename_free(5) [OF assms] by (auto simp: sameTree_def outside_def disjoint_def)

text \<open>Renaming onto a free path or onto a regular file.\<close>

lemma fsRename_any:
  assumes wf: "fsWF f" and run: "fsRename f p q = Inr f'" and ne: "p \<noteq> q"
  shows "sameTree f p f' q" "outside {p, q} f f'" "fsWF f'"
proof -
  have "sameTree f p f' q \<and> outside {p, q} f f' \<and> fsWF f'"
  proof (cases "fsGet f q")
    case None
    then show ?thesis using fsRename_tree_same [OF wf run None] fsRename_tree_wf [OF wf run None] by blast
  next
    case (Some n)
    then obtain c where c: "fsGet f p = Some (RegularFile c)"
      using run ne by (cases "fsGet f p"; cases "the (fsGet f p)") (auto simp: fsRename_def split: if_splits)
    note get = fsRename_file_get [OF wf c run] and wf' = fsRename_wf [OF wf c run]
    have "fsGet f' (q @ r) = None" if "r \<noteq> []" for r
    proof (rule ccontr)
      assume "fsGet f' (q @ r) \<noteq> None"
      then have "fsGet f' q = Some Directory" using wf_ancestor [OF wf', of "q @ r" q] that by (simp add: strict_prefix_def)
      then show False using get [of q] by simp
    qed
    moreover have "fsGet f (p @ r) = None" if "r \<noteq> []" for r
    proof (rule ccontr)
      assume "fsGet f (p @ r) \<noteq> None"
      then have "fsGet f p = Some Directory" using wf_ancestor [OF wf, of "p @ r" p] that by (simp add: strict_prefix_def)
      then show False using c by simp
    qed
    ultimately have "sameTree f p f' q" unfolding sameTree_def using get c by (metis append_Nil2)
    moreover have "outside {p, q} f f'" by (auto simp: outside_def get)
    ultimately show ?thesis using wf' by blast
  qed
  then show "sameTree f p f' q" "outside {p, q} f f'" "fsWF f'" by auto
qed

end
