(* ===== verification/FileCopy.thy ===== *)
theory FileCopy
  imports FileTree "HOL-Library.List_Lexorder" "HOL-Library.Char_ord"
begin

text \<open>
  The copy routines of \<^verbatim>\<open>pkg/utils/file/file.go\<close> as the file-operation worker runs them. A path is the list
  of its components. The state is the file system, a script of injected faults and a script of the
  answers of \<^verbatim>\<open>ctx.Err()\<close>; a cancelled context stays cancelled. The external \<^verbatim>\<open>cp\<close> process is the parameter
  \<open>e_cp\<close>, and \<open>e_rm\<close> is what a failing \<^verbatim>\<open>os.RemoveAll\<close> leaves behind. \<open>None\<close> is a call that does not return.
\<close>

section \<open>Worker state\<close>

record ows =
  w_fs :: fs
  w_faults :: "bool list"
  w_ctx :: "bool list"

record env =
  e_cp :: "fs \<Rightarrow> string list \<Rightarrow> string list \<Rightarrow> bool \<times> fs"
  e_rm :: "fs \<Rightarrow> string list \<Rightarrow> fs"
  e_xdev :: "string list \<Rightarrow> string list \<Rightarrow> bool"
  e_thumb :: "fs \<Rightarrow> string \<Rightarrow> string"

datatype operr = OsErr fserr | EXDEV | Cancelled | CopyPhase operr | StatSource operr | SizeMismatch int int
  | StageAside operr | NoRenameTarget

type_synonym 'a wm = "ows \<Rightarrow> ((operr, 'a) result \<times> ows) option"

definition wReturn :: "'a \<Rightarrow> 'a wm" where
  "wReturn x s = Some (Inr x, s)"

definition wThrow :: "operr \<Rightarrow> 'a wm" where
  "wThrow e s = Some (Inl e, s)"

definition wBind :: "'a wm \<Rightarrow> ('a \<Rightarrow> 'b wm) \<Rightarrow> 'b wm" where
  "wBind m k s = (case m s of None \<Rightarrow> None | Some (Inl e, s') \<Rightarrow> Some (Inl e, s') | Some (Inr x, s') \<Rightarrow> k x s')"

definition wTry :: "'a wm \<Rightarrow> (operr, 'a) result wm" where
  "wTry m s = (case m s of None \<Rightarrow> None | Some (r, s') \<Rightarrow> Some (Inr r, s'))"

definition wFs :: "fs wm" where
  "wFs s = Some (Inr (w_fs s), s)"

definition wCtxErr :: "bool wm" where
  "wCtxErr s = (case w_ctx s of [] \<Rightarrow> Some (Inr False, s)
     | c # cs \<Rightarrow> Some (Inr c, if c then s else s\<lparr>w_ctx := cs\<rparr>))"

definition wDo :: "(fs \<Rightarrow> (fserr, fs) result) \<Rightarrow> unit wm" where
  "wDo g s =
     (let s1 = s\<lparr>w_faults := tl (w_faults s)\<rparr> in
      if w_faults s \<noteq> [] \<and> hd (w_faults s) then Some (Inl (OsErr EIO), s1)
      else (case g (w_fs s) of Inl e \<Rightarrow> Some (Inl (OsErr e), s1) | Inr f \<Rightarrow> Some (Inr (), s1\<lparr>w_fs := f\<rparr>)))"

definition wGet :: "(fs \<Rightarrow> (fserr, 'a) result) \<Rightarrow> 'a wm" where
  "wGet g s =
     (let s1 = s\<lparr>w_faults := tl (w_faults s)\<rparr> in
      if w_faults s \<noteq> [] \<and> hd (w_faults s) then Some (Inl (OsErr EIO), s1)
      else (case g (w_fs s) of Inl e \<Rightarrow> Some (Inl (OsErr e), s1) | Inr x \<Rightarrow> Some (Inr x, s1)))"

definition wRemoveAll :: "env \<Rightarrow> string list \<Rightarrow> unit wm" where
  "wRemoveAll E p s =
     (let s1 = s\<lparr>w_faults := tl (w_faults s)\<rparr> in
      if w_faults s \<noteq> [] \<and> hd (w_faults s) then Some (Inl (OsErr EIO), s1\<lparr>w_fs := e_rm E (w_fs s) p\<rparr>)
      else Some (Inr (), s1\<lparr>w_fs := fsRemoveAll (w_fs s) p\<rparr>))"

definition wRename :: "env \<Rightarrow> string list \<Rightarrow> string list \<Rightarrow> unit wm" where
  "wRename E p q s = (if e_xdev E p q then Some (Inl EXDEV, s) else wDo (\<lambda>f. fsRename f p q) s)"

definition RunCopyCommand :: "env \<Rightarrow> string list \<Rightarrow> string list \<Rightarrow> bool wm" where
  "RunCopyCommand E src dst s = (case e_cp E (w_fs s) src dst of (ok, f) \<Rightarrow> Some (Inr ok, s\<lparr>w_fs := f\<rparr>))"

section \<open>Copying\<close>

definition Exists :: "fs \<Rightarrow> string list \<Rightarrow> bool" where
  "Exists f p = (fsGet f p \<noteq> None)"

definition CheckNotExist :: "fs \<Rightarrow> string list \<Rightarrow> bool" where
  "CheckNotExist f p = notExist f p"

definition chmodLike :: "string list \<Rightarrow> fs \<Rightarrow> (fserr, fs) result" where
  "chmodLike p f = (if Exists f p then Inr f else Inl ENOENT)"

definition CopyFile :: "env \<Rightarrow> string list \<Rightarrow> string list \<Rightarrow> string \<Rightarrow> unit wm" where
  "CopyFile E src dst style =
     wBind wFs (\<lambda>f.
     if Exists f dst \<and> style = ''skip'' then wReturn ()
     else wBind wCtxErr (\<lambda>c.
     if c then wThrow Cancelled
     else wBind (RunCopyCommand E src dst) (\<lambda>ok.
     if ok then wReturn ()
     else wBind wCtxErr (\<lambda>c.
     if c then wThrow Cancelled
     else wBind (wGet (\<lambda>f. fsRead f src)) (\<lambda>content.
          wBind (wDo (\<lambda>f. fsCreate f dst [])) (\<lambda>_.
          wBind (wDo (\<lambda>f. fsCreate f dst content)) (\<lambda>_.
          wBind (wGet (\<lambda>f. fsRead f src)) (\<lambda>_.
          wDo (chmodLike dst)))))))))"

text \<open>The entries of a directory in the order of \<^verbatim>\<open>ioutil.ReadDir\<close>, with \<^verbatim>\<open>IsDir\<close>.\<close>

definition dirNames :: "fs \<Rightarrow> string list \<Rightarrow> string list" where
  "dirNames f p = sort (map (\<lambda>e. last (fst e)) (filter (\<lambda>e. fst e \<noteq> [] \<and> butlast (fst e) = p) f))"

definition ReadDir :: "string list \<Rightarrow> fs \<Rightarrow> (fserr, (string \<times> bool) list) result" where
  "ReadDir p f =
     (case fsGet f p of
        None \<Rightarrow> Inl (if blocked f p then ENOTDIR else ENOENT)
      | Some (RegularFile _) \<Rightarrow> Inl ENOTDIR
      | Some Directory \<Rightarrow> Inr (map (\<lambda>x. (x, fsGet f (p @ [x]) = Some Directory)) (dirNames f p)))"

fun copyEntries :: "(string \<Rightarrow> bool \<Rightarrow> unit wm) \<Rightarrow> (string \<times> bool) list \<Rightarrow> unit wm" where
  "copyEntries step [] = wReturn ()"
| "copyEntries step ((x, isDir) # es) =
     wBind wCtxErr (\<lambda>c. if c then wThrow Cancelled else wBind (step x isDir) (\<lambda>_. copyEntries step es))"

primrec CopyDirContents :: "nat \<Rightarrow> env \<Rightarrow> string list \<Rightarrow> string list \<Rightarrow> string \<Rightarrow> unit wm" where
  "CopyDirContents 0 E src dst style = (\<lambda>s. None)"
| "CopyDirContents (Suc n) E src dst style =
     wBind wFs (\<lambda>f.
     case fsGet f src of
       None \<Rightarrow> wThrow (OsErr (if blocked f src then ENOTDIR else ENOENT))
     | Some (RegularFile _) \<Rightarrow> CopyFile E src dst style
     | Some Directory \<Rightarrow>
         if Exists f dst \<and> style = ''skip'' then wReturn ()
         else wBind wCtxErr (\<lambda>c.
         if c then wThrow Cancelled
         else wBind (RunCopyCommand E src dst) (\<lambda>ok.
         if ok then wReturn ()
         else wBind wCtxErr (\<lambda>c.
         if c then wThrow Cancelled
         else wBind (wDo (\<lambda>f. fsMkdirAll f dst)) (\<lambda>_.
              wBind (wGet (ReadDir src)) (\<lambda>fds.
              copyEntries (\<lambda>x isDir. if isDir then CopyDirContents n E (src @ [x]) (dst @ [x]) style
                                     else CopyFile E (src @ [x]) (dst @ [x]) style) fds))))))"

text \<open>\<^verbatim>\<open>filepath.Base\<close> of a path with components is its last one.\<close>

definition CopyDir :: "nat \<Rightarrow> env \<Rightarrow> string list \<Rightarrow> string list \<Rightarrow> string \<Rightarrow> unit wm" where
  "CopyDir n E src dst style = CopyDirContents n E src (if src = [] then dst else dst @ [last src]) style"

definition DirSizeB :: "fs \<Rightarrow> string list \<Rightarrow> int" where
  "DirSizeB f p = sum_list (map (\<lambda>e. case snd e of RegularFile c \<Rightarrow> int (length c) | Directory \<Rightarrow> 0)
     (filter (\<lambda>e. prefix p (fst e)) f))"

definition GetFileOrDirSize :: "string list \<Rightarrow> fs \<Rightarrow> (fserr, int) result" where
  "GetFileOrDirSize p f =
     (case fsGet f p of
        None \<Rightarrow> Inl (if blocked f p then ENOTDIR else ENOENT)
      | Some (RegularFile c) \<Rightarrow> Inr (int (length c))
      | Some Directory \<Rightarrow> Inr (DirSizeB f p))"

section \<open>What a copy does\<close>

text \<open>Every node under \<open>dst\<close> has a counterpart of the same kind under \<open>src\<close>.\<close>

definition kindSub :: "fs \<Rightarrow> string list \<Rightarrow> string list \<Rightarrow> bool" where
  "kindSub f dst src = (\<forall>r n. fsGet f (dst @ r) = Some n \<longrightarrow>
     (\<exists>m. fsGet f (src @ r) = Some m \<and> (n = Directory \<longleftrightarrow> m = Directory)))"

definition copyPre :: "string list \<Rightarrow> string list \<Rightarrow> fs \<Rightarrow> bool" where
  "copyPre src dst f = (fsWF f \<and> disjoint src dst \<and> fsGet f src \<noteq> None \<and> fsGet f (butlast dst) = Some Directory
     \<and> kindSub f dst src)"

definition copyStep :: "string list \<Rightarrow> string list \<Rightarrow> fs \<Rightarrow> fs \<Rightarrow> bool" where
  "copyStep src dst f g = (copyPre src dst g \<and> outside {dst} f g)"

text \<open>
  The documented behaviour of \<^verbatim>\<open>cp\<close> that the routines rely on: it writes nothing outside its target, what it
  leaves there mirrors the source in kind even when it fails, and exit status 0 means a complete copy.
\<close>

definition cpSpec :: "env \<Rightarrow> bool" where
  "cpSpec E = (\<forall>f src dst. copyPre src dst f \<longrightarrow> copyStep src dst f (snd (e_cp E f src dst))
     \<and> (fst (e_cp E f src dst) \<longrightarrow> sameTree f src (snd (e_cp E f src dst)) dst))"

lemma copyStep_refl: "copyPre src dst f \<Longrightarrow> copyStep src dst f f"
  by (simp add: copyStep_def outside_refl)

lemma copyStep_trans: "copyStep src dst f g \<Longrightarrow> copyStep src dst g h \<Longrightarrow> copyStep src dst f h"
  by (auto simp: copyStep_def intro: outside_trans)

lemma copyStep_src: "disjoint src dst \<Longrightarrow> copyStep src dst f g \<Longrightarrow> fsGet g (src @ r) = fsGet f (src @ r)"
  by (simp add: copyStep_def outside_def disjoint_not_prefix)

lemma copyPre_ne: "copyPre src dst f \<Longrightarrow> dst \<noteq> []"
  by (auto simp: copyPre_def disjoint_def)

lemma not_prefix_butlast: "p \<noteq> [] \<Longrightarrow> \<not> prefix p (butlast p)"
  by (metis append_butlast_last_id not_Cons_self2 append_self_conv prefix_order.eq_iff prefixI)

lemma copyStep_create:
  assumes pre: "copyPre src dst g" and fl: "fsGet g src = Some (RegularFile c0)" and run: "fsCreate g dst c = Inr h"
  shows "copyStep src dst g h" "fsGet h dst = Some (RegularFile c)"
proof -
  have get: "fsGet h q = (if q = dst then Some (RegularFile c) else fsGet g q)" for q
    using fsCreate_get [OF run] by simp
  have ne: "src @ r \<noteq> dst" for r using pre disjoint_not_prefix [of src dst r] by (auto simp: copyPre_def)
  have bl: "butlast dst \<noteq> dst" using not_prefix_butlast copyPre_ne [OF pre] by (metis prefix_order.refl)
  have "kindSub h dst src" using pre fl ne by (fastforce simp: copyPre_def kindSub_def get split: if_splits)
  moreover have "fsGet h src \<noteq> None" using fl ne [of "[]"] by (simp add: get)
  moreover have "fsWF h" using pre fsCreate_wf [OF _ run] by (simp add: copyPre_def)
  ultimately show "copyStep src dst g h"
    using pre bl by (auto simp: copyStep_def copyPre_def outside_def get)
  show "fsGet h dst = Some (RegularFile c)" by (simp add: get)
qed

lemma wDo_cases:
  assumes "wDo g s = Some (r, s')"
  obtains f where "r = Inr ()" "g (w_fs s) = Inr f" "w_fs s' = f"
  | e where "r = Inl e" "w_fs s' = w_fs s"
  using assms by (auto simp: wDo_def Let_def split: if_splits sum.splits)

lemma wGet_cases:
  assumes "wGet g s = Some (r, s')"
  obtains x where "r = Inr x" "g (w_fs s) = Inr x" "w_fs s' = w_fs s"
  | e where "r = Inl e" "w_fs s' = w_fs s"
  using assms by (auto simp: wGet_def Let_def split: if_splits sum.splits)

lemma wBind_cases:
  assumes "wBind m k s = Some (r, s')"
  obtains e where "m s = Some (Inl e, s')" "r = Inl e"
  | x t where "m s = Some (Inr x, t)" "k x t = Some (r, s')"
  using assms by (auto simp: wBind_def split: option.splits prod.splits sum.splits)

lemma wCtxErr_some: "wCtxErr s = Some (r, s') \<Longrightarrow> w_fs s' = w_fs s \<and> (\<exists>c. r = Inr c)"
  by (auto simp: wCtxErr_def split: list.splits if_splits)

lemma wFs_some: "wFs s = Some (r, s') \<longleftrightarrow> r = Inr (w_fs s) \<and> s' = s"
  by (auto simp: wFs_def)

lemma wRet_some: "wReturn x s = Some (r, s') \<longleftrightarrow> r = Inr x \<and> s' = s" "wThrow e s = Some (q, s') \<longleftrightarrow> q = Inl e \<and> s' = s"
  by (auto simp: wReturn_def wThrow_def)

lemma RunCopy_some: "RunCopyCommand E src dst s = Some (r, s') \<Longrightarrow>
   r = Inr (fst (e_cp E (w_fs s) src dst)) \<and> w_fs s' = snd (e_cp E (w_fs s) src dst)"
  by (auto simp: RunCopyCommand_def split: prod.splits)

text \<open>A tree at \<open>dst\<close> that is one regular file, in a well-formed table.\<close>

lemma sameTree_file:
  assumes "fsWF f" "fsWF g" "fsGet f src = Some (RegularFile c)" "fsGet g dst = Some (RegularFile c)"
  shows "sameTree f src g dst"
proof -
  have leaf: "fsGet h (p @ r) = None" if "fsWF h" "fsGet h p = Some (RegularFile c)" "r \<noteq> []" for h p r
  proof (rule ccontr)
    assume "fsGet h (p @ r) \<noteq> None"
    then have "fsGet h p = Some Directory" using wf_ancestor [OF that(1), of "p @ r" p] that(3) by (simp add: strict_prefix_def)
    with that(2) show False by simp
  qed
  show ?thesis unfolding sameTree_def
  proof
    fix r show "fsGet f (src @ r) = fsGet g (dst @ r)" using assms leaf by (cases "r = []") auto
  qed
qed

text \<open>What a copy routine guarantees: it only writes at its target and a success is a complete copy.\<close>

definition copies :: "string list \<Rightarrow> string list \<Rightarrow> string \<Rightarrow> ows \<Rightarrow> (operr, unit) result \<Rightarrow> ows \<Rightarrow> bool" where
  "copies src dst style s r s' = (copyStep src dst (w_fs s) (w_fs s')
     \<and> (r = Inr () \<longrightarrow> style \<noteq> ''skip'' \<longrightarrow> sameTree (w_fs s) src (w_fs s') dst))"

lemma copies_Inl: "copyStep src dst (w_fs s) (w_fs s') \<Longrightarrow> copies src dst style s (Inl e) s'"
  by (simp add: copies_def)

lemma CopyFile_fallback:
  assumes pre: "copyPre src dst (w_fs s)" and fl: "fsGet (w_fs s) src = Some (RegularFile c)"
    and run: "wBind (wGet (\<lambda>f. fsRead f src)) (\<lambda>content.
          wBind (wDo (\<lambda>f. fsCreate f dst [])) (\<lambda>_.
          wBind (wDo (\<lambda>f. fsCreate f dst content)) (\<lambda>_.
          wBind (wGet (\<lambda>f. fsRead f src)) (\<lambda>_.
          wDo (chmodLike dst))))) s = Some (r, s')"
  shows "copies src dst style s r s'"
proof -
  have dj: "disjoint src dst" and wf: "fsWF (w_fs s)" using pre by (auto simp: copyPre_def)
  note refl = copyStep_refl [OF pre]
  from run show ?thesis
  proof (cases rule: wBind_cases)
    case (1 e) then show ?thesis using refl by (auto elim!: wGet_cases intro: copies_Inl)
  next
    case (2 x s1)
    then have x: "x = c" "w_fs s1 = w_fs s" using fl by (auto elim!: wGet_cases simp: fsRead_def)
    from 2(2) show ?thesis
    proof (cases rule: wBind_cases)
      case (1 e) then show ?thesis using refl x by (auto elim!: wDo_cases intro: copies_Inl)
    next
      case (2 u s2)
      then have "fsCreate (w_fs s) dst [] = Inr (w_fs s2)" using x by (auto elim!: wDo_cases)
      note C1 = copyStep_create [OF pre fl this]
      then have pre2: "copyPre src dst (w_fs s2)" by (simp add: copyStep_def)
      have file2: "fsGet (w_fs s2) src = Some (RegularFile c)" using copyStep_src [OF dj C1(1), of "[]"] fl by simp
      from 2(2) show ?thesis
      proof (cases rule: wBind_cases)
        case (1 e) then show ?thesis using C1 by (auto elim!: wDo_cases intro: copies_Inl)
      next
        case (2 v s3)
        then have "fsCreate (w_fs s2) dst c = Inr (w_fs s3)" using x by (auto elim!: wDo_cases)
        note C2 = copyStep_create [OF pre2 file2 this]
        have st: "copyStep src dst (w_fs s) (w_fs s3)" by (rule copyStep_trans [OF C1(1) C2(1)])
        have fs': "w_fs s' = w_fs s3"
          using 2(2) by (elim wBind_cases wGet_cases wDo_cases) (auto simp: chmodLike_def split: if_splits)
        have "fsWF (w_fs s3)" using st by (simp add: copyStep_def copyPre_def)
        then have "sameTree (w_fs s) src (w_fs s3) dst" using sameTree_file [OF wf _ fl C2(2)] by simp
        then show ?thesis using st fs' by (simp add: copies_def)
      qed
    qed
  qed
qed

text \<open>The attempt with \<^verbatim>\<open>cp\<close> that both routines make before their fallback \<open>tail\<close>.\<close>

lemma cpFirst_copies:
  assumes cp: "cpSpec E" and pre: "copyPre src dst (w_fs s)"
    and tail: "\<And>t. \<lbrakk>w_fs t = snd (e_cp E (w_fs s) src dst); copyPre src dst (w_fs t); fsGet (w_fs t) src = fsGet (w_fs s) src;
        tail t = Some (r, s')\<rbrakk> \<Longrightarrow> copies src dst style t r s'"
    and run: "(if Exists (w_fs s) dst \<and> style = ''skip'' then wReturn ()
       else wBind wCtxErr (\<lambda>c. if c then wThrow Cancelled
       else wBind (RunCopyCommand E src dst) (\<lambda>ok. if ok then wReturn ()
       else wBind wCtxErr (\<lambda>c. if c then wThrow Cancelled else tail)))) s = Some (r, s')"
  shows "copies src dst style s r s'"
proof -
  let ?g = "snd (e_cp E (w_fs s) src dst)"
  have st: "copyStep src dst (w_fs s) ?g" using cp pre by (simp add: cpSpec_def)
  have dj: "disjoint src dst" using pre by (simp add: copyPre_def)
  have preg: "copyPre src dst ?g" and srcg: "fsGet ?g src = fsGet (w_fs s) src"
    using st copyStep_src [OF dj st, of "[]"] by (auto simp: copyStep_def)
  note refl = copyStep_refl [OF pre]
  have trans: "copies src dst style s r s'" if "w_fs t = ?g" "tail t = Some (r, s')" for t
  proof -
    have "sameTree (w_fs s) src ?g src" using st dj by (auto simp: copyStep_def intro: outside_tree)
    then show ?thesis using that st tail [of t] preg srcg by (auto simp: copies_def intro: copyStep_trans sameTree_trans)
  qed
  from run show ?thesis
    apply (simp split: if_splits)
    subgoal using refl by (simp add: wRet_some copies_def)
    apply (elim wBind_cases)
     apply (auto dest: wCtxErr_some)[1]
    apply (drule wCtxErr_some, clarsimp split: if_splits)
    subgoal using refl by (simp add: wRet_some copies_def)
    apply (elim wBind_cases)
     apply (auto dest: RunCopy_some)[1]
    apply (drule RunCopy_some, clarsimp split: if_splits)
    subgoal using st cp pre by (simp add: wRet_some copies_def cpSpec_def)
    apply (elim wBind_cases)
     apply (auto dest: wCtxErr_some)[1]
    apply (drule wCtxErr_some, clarsimp split: if_splits)
    subgoal using st by (simp add: wRet_some copies_def)
    by (rule trans [rotated], assumption, simp)
qed

lemma CopyFile_copies:
  assumes cp: "cpSpec E" and pre: "copyPre src dst (w_fs s)" and fl: "fsGet (w_fs s) src = Some (RegularFile c)"
    and run: "CopyFile E src dst style s = Some (r, s')"
  shows "copies src dst style s r s'"
proof (rule cpFirst_copies [OF cp pre])
  show "(if Exists (w_fs s) dst \<and> style = ''skip'' then wReturn ()
     else wBind wCtxErr (\<lambda>c. if c then wThrow Cancelled
     else wBind (RunCopyCommand E src dst) (\<lambda>ok. if ok then wReturn ()
     else wBind wCtxErr (\<lambda>c. if c then wThrow Cancelled else
       wBind (wGet (\<lambda>f. fsRead f src)) (\<lambda>content. wBind (wDo (\<lambda>f. fsCreate f dst [])) (\<lambda>_.
       wBind (wDo (\<lambda>f. fsCreate f dst content)) (\<lambda>_. wBind (wGet (\<lambda>f. fsRead f src)) (\<lambda>_. wDo (chmodLike dst))))))))) s = Some (r, s')"
    using run by (simp add: CopyFile_def wBind_def [of wFs] wFs_def)
qed (use fl in \<open>auto intro: CopyFile_fallback\<close>)

lemma copyPre_child:
  assumes "copyPre src dst f" "fsGet f dst = Some Directory" "fsGet f (src @ [x]) \<noteq> None"
  shows "copyPre (src @ [x]) (dst @ [x]) f"
  using assms disjoint_ext [of src dst "[x]" "[x]"] by (simp add: copyPre_def kindSub_def)

lemma copyStep_child:
  assumes pre: "copyPre src dst f" and dir: "fsGet f dst = Some Directory"
    and st: "copyStep (src @ [x]) (dst @ [x]) f g"
  shows "copyStep src dst f g" "fsGet g dst = Some Directory"
proof -
  have dj: "disjoint src dst" using pre by (simp add: copyPre_def)
  have out: "\<not> prefix (dst @ [x]) q \<Longrightarrow> fsGet g q = fsGet f q" for q using st by (auto simp: copyStep_def outside_def)
  have sr: "fsGet g (src @ r) = fsGet f (src @ r)" for r
    using out disjoint_not_prefix [OF disjoint_ext [OF dj, of "[]" "[x]"], of r] by simp
  show d: "fsGet g dst = Some Directory" using out [of dst] dir by simp
  have "fsGet g (butlast dst) = fsGet f (butlast dst)"
    using out [of "butlast dst"] not_prefix_butlast [of "dst @ [x]"] by (metis butlast_snoc prefix_order.trans prefixeq_butlast not_prefix_butlast append_prefixD copyPre_ne pre)
  moreover have "kindSub g dst src" unfolding kindSub_def
  proof (intro allI impI)
    fix r n assume n: "fsGet g (dst @ r) = Some n"
    show "\<exists>m. fsGet g (src @ r) = Some m \<and> (n = Directory \<longleftrightarrow> m = Directory)"
    proof (cases "prefix [x] r")
      case True
      then obtain r' where "r = x # r'" by (auto simp: prefix_def)
      then show ?thesis using n st by (auto simp: copyStep_def copyPre_def kindSub_def)
    next
      case False
      then have "\<not> prefix (dst @ [x]) (dst @ r)" by simp
      then show ?thesis using n out [of "dst @ r"] pre by (simp add: copyPre_def kindSub_def sr)
    qed
  qed
  ultimately have "copyPre src dst g"
    using pre st sr [of "[]"] by (simp add: copyPre_def copyStep_def)
  moreover have "outside {dst} f g" using st by (auto simp: copyStep_def intro: outside_under)
  ultimately show "copyStep src dst f g" by (simp add: copyStep_def)
qed

lemma mem_dirNames:
  assumes "fsWF f" shows "x \<in> set (dirNames f p) \<longleftrightarrow> fsGet f (p @ [x]) \<noteq> None"
proof -
  have "x \<in> set (dirNames f p) \<longleftrightarrow> p @ [x] \<in> fst ` set f"
    by (force simp: dirNames_def image_iff)
  then show ?thesis using fsGet_key [of "p @ [x]" f] by simp
qed

definition stepCopies :: "string list \<Rightarrow> string list \<Rightarrow> string \<Rightarrow> (string \<Rightarrow> bool \<Rightarrow> unit wm) \<Rightarrow> bool" where
  "stepCopies src dst style step = (\<forall>x d s r s'. step x d s = Some (r, s') \<longrightarrow> copyPre (src @ [x]) (dst @ [x]) (w_fs s)
     \<longrightarrow> d = (fsGet (w_fs s) (src @ [x]) = Some Directory) \<longrightarrow> copies (src @ [x]) (dst @ [x]) style s r s')"

lemma stepCopiesD:
  "\<lbrakk>stepCopies src dst style step; step x d s = Some (r, s'); copyPre (src @ [x]) (dst @ [x]) (w_fs s);
    d = (fsGet (w_fs s) (src @ [x]) = Some Directory)\<rbrakk> \<Longrightarrow> copies (src @ [x]) (dst @ [x]) style s r s'"
  unfolding stepCopies_def by blast

lemma copyEntries_copies:
  assumes step: "stepCopies src dst style step"
    and run: "copyEntries step es s = Some (r, s')"
    and pre: "copyPre src dst (w_fs s)" "fsGet (w_fs s) dst = Some Directory"
    and es: "\<And>x d. (x, d) \<in> set es \<Longrightarrow> fsGet (w_fs s) (src @ [x]) \<noteq> None \<and> d = (fsGet (w_fs s) (src @ [x]) = Some Directory)"
  shows "copyStep src dst (w_fs s) (w_fs s') \<and> fsGet (w_fs s') dst = Some Directory
    \<and> outside ((\<lambda>e. dst @ [fst e]) ` set es) (w_fs s) (w_fs s')
    \<and> (r = Inr () \<longrightarrow> style \<noteq> ''skip'' \<longrightarrow> (\<forall>e \<in> set es. sameTree (w_fs s) (src @ [fst e]) (w_fs s') (dst @ [fst e])))"
  using run pre es
proof (induction es arbitrary: s)
  case Nil
  then show ?case by (simp add: wRet_some copyStep_refl outside_refl)
next
  case (Cons e es)
  obtain x d where e: "e = (x, d)" by (cases e)
  have x: "fsGet (w_fs s) (src @ [x]) \<noteq> None" "d = (fsGet (w_fs s) (src @ [x]) = Some Directory)" using Cons.prems(4) e by auto
  have prex: "copyPre (src @ [x]) (dst @ [x]) (w_fs s)" by (rule copyPre_child [OF Cons.prems(2,3) x(1)])
  have dj: "disjoint src dst" using Cons.prems(2) by (simp add: copyPre_def)
  have thrown: ?case if "w_fs s' = w_fs s" "r \<noteq> Inr ()"
    using that Cons.prems(2,3) by (simp add: copyStep_refl outside_refl)
  from Cons.prems(1) obtain c s1 where c: "wCtxErr s = Some (Inr c, s1)" "w_fs s1 = w_fs s"
    and k: "(if c then wThrow Cancelled else wBind (step x d) (\<lambda>_. copyEntries step es)) s1 = Some (r, s')"
    by (auto simp: e elim!: wBind_cases dest: wCtxErr_some)
  show ?case
  proof (cases c)
    case True
    then show ?thesis using k c(2) thrown by (simp add: wRet_some)
  next
    case False
    then have "wBind (step x d) (\<lambda>_. copyEntries step es) s1 = Some (r, s')" using k by simp
    then show ?thesis
    proof (cases rule: wBind_cases)
      case (1 err)
      have "copies (src @ [x]) (dst @ [x]) style s1 (Inl err) s'" using stepCopiesD [OF step 1(1)] prex x(2) c(2) by simp
      then have st: "copyStep (src @ [x]) (dst @ [x]) (w_fs s) (w_fs s')" using c(2) by (simp add: copies_def)
      then have "outside {dst @ [x]} (w_fs s) (w_fs s')" by (simp add: copyStep_def)
      then show ?thesis using copyStep_child [OF Cons.prems(2,3) st] 1(2) by (auto simp: e intro: outside_mono)
    next
      case (2 u s2)
      have cp: "copies (src @ [x]) (dst @ [x]) style s1 (Inr u) s2" using stepCopiesD [OF step 2(1)] prex x(2) c(2) by simp
      then have st: "copyStep (src @ [x]) (dst @ [x]) (w_fs s) (w_fs s2)" using c(2) by (simp add: copies_def)
      note ch = copyStep_child [OF Cons.prems(2,3) st]
      have src: "fsGet (w_fs s2) (src @ q) = fsGet (w_fs s) (src @ q)" for q by (rule copyStep_src [OF dj ch(1)])
      have "copyPre src dst (w_fs s2)" using ch(1) by (simp add: copyStep_def)
      note ih = Cons.IH [OF 2(2) this ch(2)]
      have rest: "copyStep src dst (w_fs s2) (w_fs s')" "fsGet (w_fs s') dst = Some Directory"
        "outside ((\<lambda>e. dst @ [fst e]) ` set es) (w_fs s2) (w_fs s')"
        "r = Inr () \<longrightarrow> style \<noteq> ''skip'' \<longrightarrow> (\<forall>e \<in> set es. sameTree (w_fs s2) (src @ [fst e]) (w_fs s') (dst @ [fst e]))"
        using ih Cons.prems(4) src by auto
      have out: "outside ((\<lambda>e. dst @ [fst e]) ` set (e # es)) (w_fs s) (w_fs s')"
      proof (rule outside_trans)
        show "outside ((\<lambda>e. dst @ [fst e]) ` set (e # es)) (w_fs s) (w_fs s2)"
          using st by (auto simp: copyStep_def e intro: outside_mono)
        show "outside ((\<lambda>e. dst @ [fst e]) ` set (e # es)) (w_fs s2) (w_fs s')"
          using rest(3) by (auto intro: outside_mono)
      qed
      have "\<forall>e' \<in> set (e # es). sameTree (w_fs s) (src @ [fst e']) (w_fs s') (dst @ [fst e'])"
        if ok: "r = Inr ()" "style \<noteq> ''skip''"
      proof
        fix e' assume e': "e' \<in> set (e # es)"
        show "sameTree (w_fs s) (src @ [fst e']) (w_fs s') (dst @ [fst e'])"
        proof (cases "\<exists>e'' \<in> set es. fst e'' = fst e'")
          case True
          then show ?thesis using rest(4) ok src by (auto simp: sameTree_def)
        next
          case False
          then have "fst e' = x" using e' e by auto
          moreover have "sameTree (w_fs s) (src @ [x]) (w_fs s2) (dst @ [x])" using cp ok c(2) by (simp add: copies_def)
          moreover have "sameTree (w_fs s2) (dst @ [x]) (w_fs s') (dst @ [x])"
            using rest(3) False \<open>fst e' = x\<close> by (intro outside_tree) (auto simp: disjoint_def)
          ultimately show ?thesis by (auto intro: sameTree_trans)
        qed
      qed
      then show ?thesis using out rest(2) copyStep_trans [OF ch(1) rest(1)] by blast
    qed
  qed
qed

lemma copyStep_mkdir:
  assumes pre: "copyPre src dst f" and dir: "fsGet f src = Some Directory" and run: "fsMkdirAll f dst = Inr g"
  shows "copyStep src dst f g" "fsGet g dst = Some Directory"
proof -
  have wf: "fsWF f" and dj: "disjoint src dst" using pre by (auto simp: copyPre_def)
  show d: "fsGet g dst = Some Directory" using fsMkdirAll_dir [OF run] by simp
  have anc: "fsGet f q = Some Directory" if "strict_prefix q dst" for q
  proof -
    have "prefix q (butlast dst)" using that copyPre_ne [OF pre] by (metis prefix_snoc append_butlast_last_id strict_prefix_def)
    then show ?thesis using pre wf_ancestor [OF wf, of "butlast dst" q]
      by (cases "q = butlast dst") (auto simp: copyPre_def strict_prefix_def)
  qed
  have get: "fsGet g q = (if q = dst then Some Directory else fsGet f q)" for q
    using fsMkdirAll_get [OF run, of q] d anc [of q] by (auto simp: strict_prefix_def split: if_splits)
  have ne: "src @ r \<noteq> dst" for r using disjoint_not_prefix [OF dj, of r] by auto
  have "kindSub g dst src" using pre dir ne by (fastforce simp: copyPre_def kindSub_def get split: if_splits)
  moreover have "butlast dst \<noteq> dst" using not_prefix_butlast copyPre_ne [OF pre] by (metis prefix_order.refl)
  ultimately show "copyStep src dst f g"
    using pre dir ne [of "[]"] fsMkdirAll_wf [OF wf run] by (auto simp: copyStep_def copyPre_def outside_def get)
qed

text \<open>A directory whose children are copied is copied.\<close>

lemma sameTree_dir:
  assumes wf: "fsWF f" "fsWF g" and dirs: "fsGet f src = Some Directory" "fsGet g dst = Some Directory"
    and kids: "\<And>x. fsGet f (src @ [x]) \<noteq> None \<Longrightarrow> sameTree f (src @ [x]) g (dst @ [x])"
    and none: "\<And>x. fsGet f (src @ [x]) = None \<Longrightarrow> fsGet g (dst @ [x]) = None"
  shows "sameTree f src g dst"
  unfolding sameTree_def
proof
  fix r show "fsGet f (src @ r) = fsGet g (dst @ r)"
  proof (cases r)
    case (Cons x r')
    then show ?thesis
    proof (cases "fsGet f (src @ [x]) = None")
      case True
      then show ?thesis using none [of x] wf_under_none [OF wf(1), of "src @ [x]" r'] wf_under_none [OF wf(2), of "dst @ [x]" r'] Cons by simp
    next
      case False
      then show ?thesis using kids [of x] Cons by (simp add: sameTree_def)
    qed
  qed (use dirs in simp)
qed

lemma copyDir_loop:
  assumes step: "stepCopies src dst style step"
    and pre: "copyPre src dst (w_fs s)" and dir: "fsGet (w_fs s) src = Some Directory"
    and run: "wBind (wDo (\<lambda>f. fsMkdirAll f dst)) (\<lambda>_. wBind (wGet (ReadDir src)) (\<lambda>fds. copyEntries step fds)) s = Some (r, s')"
  shows "copies src dst style s r s'"
proof -
  have dj: "disjoint src dst" and wf: "fsWF (w_fs s)" using pre by (auto simp: copyPre_def)
  from run show ?thesis
  proof (cases rule: wBind_cases)
    case (1 e) then show ?thesis using copyStep_refl [OF pre] by (auto elim!: wDo_cases simp: copies_def)
  next
    case (2 u s1)
    then have "fsMkdirAll (w_fs s) dst = Inr (w_fs s1)" by (auto elim!: wDo_cases)
    note mk = copyStep_mkdir [OF pre dir this]
    have pre1: "copyPre src dst (w_fs s1)" using mk(1) by (simp add: copyStep_def)
    have src: "fsGet (w_fs s1) (src @ q) = fsGet (w_fs s) (src @ q)" for q by (rule copyStep_src [OF dj mk(1)])
    from 2(2) show ?thesis
    proof (cases rule: wBind_cases)
      case (1 e) then show ?thesis using mk(1) by (auto elim!: wGet_cases simp: copies_def)
    next
      case (2 fds s2)
      then have s2: "w_fs s2 = w_fs s1" and fds: "fds = map (\<lambda>x. (x, fsGet (w_fs s1) (src @ [x]) = Some Directory)) (dirNames (w_fs s1) src)"
        using dir src [of "[]"] by (auto elim!: wGet_cases simp: ReadDir_def)
      have wf1: "fsWF (w_fs s1)" using pre1 by (simp add: copyPre_def)
      have ent: "fsGet (w_fs s2) (src @ [x]) \<noteq> None \<and> d = (fsGet (w_fs s2) (src @ [x]) = Some Directory)" if "(x, d) \<in> set fds" for x d
        using that mem_dirNames [OF wf1] by (auto simp: fds s2)
      note loop = copyEntries_copies [OF step 2(2), unfolded s2, OF pre1 mk(2) ent [unfolded s2]]
      have st: "copyStep src dst (w_fs s) (w_fs s')" using copyStep_trans [OF mk(1)] loop by blast
      have "sameTree (w_fs s1) src (w_fs s') dst" if ok: "r = Inr ()" "style \<noteq> ''skip''"
      proof (rule sameTree_dir)
        show "fsWF (w_fs s1)" "fsWF (w_fs s')" using wf1 st by (simp_all add: copyStep_def copyPre_def)
        show "fsGet (w_fs s1) src = Some Directory" "fsGet (w_fs s') dst = Some Directory" using dir src [of "[]"] loop by auto
        show "sameTree (w_fs s1) (src @ [x]) (w_fs s') (dst @ [x])" if "fsGet (w_fs s1) (src @ [x]) \<noteq> None" for x
          using loop ok that mem_dirNames [OF wf1, of x src] by (auto simp: fds)
        show "fsGet (w_fs s') (dst @ [x]) = None" if "fsGet (w_fs s1) (src @ [x]) = None" for x
        proof -
          have "fsGet (w_fs s') (src @ [x]) = None" using that copyStep_src [OF dj st, of "[x]"] src [of "[x]"] by simp
          moreover have "kindSub (w_fs s') dst src" using st by (simp add: copyStep_def copyPre_def)
          ultimately show ?thesis unfolding kindSub_def by (cases "fsGet (w_fs s') (dst @ [x])") (use option.distinct(1) in metis)+
        qed
      qed
      then have "r = Inr () \<longrightarrow> style \<noteq> ''skip'' \<longrightarrow> sameTree (w_fs s) src (w_fs s') dst" using src by (simp add: sameTree_def)
      then show ?thesis using st by (simp add: copies_def)
    qed
  qed
qed

lemma copyDir_stepI:
  assumes cp: "cpSpec E"
    and ih: "\<And>src dst s r s'. copyPre src dst (w_fs s) \<Longrightarrow> CopyDirContents n E src dst style s = Some (r, s') \<Longrightarrow> copies src dst style s r s'"
  shows "stepCopies src dst style (\<lambda>x isDir. if isDir then CopyDirContents n E (src @ [x]) (dst @ [x]) style
           else CopyFile E (src @ [x]) (dst @ [x]) style)"
  unfolding stepCopies_def
proof (intro allI impI)
  fix x d t q t'
  assume t: "(if d then CopyDirContents n E (src @ [x]) (dst @ [x]) style else CopyFile E (src @ [x]) (dst @ [x]) style) t = Some (q, t')"
    "copyPre (src @ [x]) (dst @ [x]) (w_fs t)" "d = (fsGet (w_fs t) (src @ [x]) = Some Directory)"
  show "copies (src @ [x]) (dst @ [x]) style t q t'"
  proof (cases d)
    case True then show ?thesis using ih [OF t(2)] t(1) by simp
  next
    case False
    then obtain c where "fsGet (w_fs t) (src @ [x]) = Some (RegularFile c)"
      using t(2,3) by (cases "fsGet (w_fs t) (src @ [x])"; cases "the (fsGet (w_fs t) (src @ [x]))") (auto simp: copyPre_def)
    then show ?thesis using CopyFile_copies [OF cp t(2)] t(1) False by simp
  qed
qed

lemma CopyDirContents_copies:
  assumes cp: "cpSpec E"
  shows "copyPre src dst (w_fs s) \<Longrightarrow> CopyDirContents n E src dst style s = Some (r, s') \<Longrightarrow> copies src dst style s r s'"
proof (induction n arbitrary: src dst s r s')
  case (Suc n)
  note pre = Suc.prems(1)
  let ?g = "snd (e_cp E (w_fs s) src dst)"
  let ?step = "\<lambda>x isDir. if isDir then CopyDirContents n E (src @ [x]) (dst @ [x]) style else CopyFile E (src @ [x]) (dst @ [x]) style"
  have dj: "disjoint src dst" using pre by (simp add: copyPre_def)
  have step: "stepCopies src dst style ?step" by (rule copyDir_stepI [OF cp Suc.IH])
  show ?case
  proof (cases "fsGet (w_fs s) src")
    case None then show ?thesis using pre by (simp add: copyPre_def)
  next
    case (Some nd)
    show ?thesis
    proof (cases nd)
      case (RegularFile c)
      then have "CopyFile E src dst style s = Some (r, s')" using Suc.prems(2) Some by (simp add: wBind_def wFs_def)
      then show ?thesis using CopyFile_copies [OF cp pre] Some RegularFile by simp
    next
      case Directory
      show ?thesis
        by (rule cpFirst_copies [OF cp pre, where tail = "wBind (wDo (\<lambda>f. fsMkdirAll f dst)) (\<lambda>_. wBind (wGet (ReadDir src)) (copyEntries ?step))"])
           (use Suc.prems(2) Some Directory in \<open>auto simp: wBind_def [of wFs] wFs_def intro: copyDir_loop [OF step]\<close>)
    qed
  qed
qed simp

section \<open>Termination\<close>

definition returnsW :: "'a wm \<Rightarrow> ows \<Rightarrow> bool" where
  "returnsW m s = (m s \<noteq> None)"

lemma returns_bind:
  "returnsW m s \<Longrightarrow> (\<And>x t. m s = Some (Inr x, t) \<Longrightarrow> returnsW (k x) t) \<Longrightarrow> returnsW (wBind m k) s"
  by (auto simp: returnsW_def wBind_def split: option.splits prod.splits sum.splits)

lemma returns_if: "(P \<Longrightarrow> returnsW m s) \<Longrightarrow> (\<not> P \<Longrightarrow> returnsW k s) \<Longrightarrow> returnsW (if P then m else k) s"
  by simp

lemma returns_prim:
  "returnsW (wDo g) s" "returnsW (wGet h) s" "returnsW wCtxErr s" "returnsW (wReturn x) s" "returnsW (wThrow e) s"
  "returnsW (RunCopyCommand E src dst) s" "returnsW wFs s" "returnsW (wRemoveAll E p) s" "returnsW (wRename E p q) s"
  by (auto simp: returnsW_def wDo_def wGet_def wCtxErr_def wReturn_def wThrow_def RunCopyCommand_def wFs_def wRemoveAll_def
      wRename_def Let_def split: sum.split list.split prod.split)

lemma returns_try: "returnsW m s \<Longrightarrow> returnsW (wTry m) s"
  by (auto simp: returnsW_def wTry_def split: option.splits)

lemmas returns_intros = returns_bind returns_if returns_prim returns_try

lemma CopyFile_returns: "returnsW (CopyFile E src dst style) s"
  unfolding CopyFile_def by (intro returns_intros)

lemma copyEntries_returns:
  assumes step: "stepCopies src dst style step"
    and ret: "\<And>x d t. \<lbrakk>(x, d) \<in> set es; copyPre src dst (w_fs t); fsGet (w_fs t) dst = Some Directory;
        \<And>q. fsGet (w_fs t) (src @ q) = fsGet f (src @ q)\<rbrakk> \<Longrightarrow> returnsW (step x d) t"
    and pre: "copyPre src dst (w_fs s)" "fsGet (w_fs s) dst = Some Directory"
    and src: "\<And>q. fsGet (w_fs s) (src @ q) = fsGet f (src @ q)"
    and es: "\<And>x d. (x, d) \<in> set es \<Longrightarrow> fsGet f (src @ [x]) \<noteq> None \<and> d = (fsGet f (src @ [x]) = Some Directory)"
  shows "returnsW (copyEntries step es) s"
  using ret pre src es
proof (induction es arbitrary: s)
  case (Cons e es)
  obtain x d where e: "e = (x, d)" by (cases e)
  have rest: "returnsW (copyEntries step es) t"
    if "w_fs s1 = w_fs s" "step x d s1 = Some (Inr u, t)" for s1 u t
  proof -
    have x: "fsGet (w_fs s) (src @ [x]) \<noteq> None" "d = (fsGet (w_fs s) (src @ [x]) = Some Directory)"
      using Cons.prems(4,5) e by auto
    have "copies (src @ [x]) (dst @ [x]) style s1 (Inr u) t"
      using stepCopiesD [OF step that(2)] copyPre_child [OF Cons.prems(2,3) x(1)] x(2) that(1) by simp
    then have "copyStep (src @ [x]) (dst @ [x]) (w_fs s) (w_fs t)" using that(1) by (simp add: copies_def)
    note ch = copyStep_child [OF Cons.prems(2,3) this]
    have "disjoint src dst" using Cons.prems(2) by (simp add: copyPre_def)
    note sr = copyStep_src [OF this ch(1)]
    show ?thesis
    proof (rule Cons.IH)
      show "returnsW (step y c) t'" if "(y, c) \<in> set es" "copyPre src dst (w_fs t')" "fsGet (w_fs t') dst = Some Directory"
        "\<And>q. fsGet (w_fs t') (src @ q) = fsGet f (src @ q)" for y c t'
        using Cons.prems(1) [of y c t'] that by simp
      show "fsGet f (src @ [y]) \<noteq> None \<and> c = (fsGet f (src @ [y]) = Some Directory)" if "(y, c) \<in> set es" for y c
        using Cons.prems(5) [of y c] that by simp
    qed (use ch sr Cons.prems(4) in \<open>simp_all add: copyStep_def\<close>)
  qed
  have one: "returnsW (step x d) s1" if "w_fs s1 = w_fs s" for s1 using Cons.prems(1) [of x d s1] Cons.prems(2-4) e that by auto
  show ?case unfolding e copyEntries.simps
    by (intro returns_intros one rest) (auto dest: wCtxErr_some)
qed (simp add: returns_prim)

lemma CopyDirContents_returns:
  assumes cp: "cpSpec E"
  shows "copyPre src dst (w_fs s) \<Longrightarrow> (\<And>q. fsGet (w_fs s) (src @ q) \<noteq> None \<Longrightarrow> length q < n)
    \<Longrightarrow> returnsW (CopyDirContents n E src dst style) s"
proof (induction n arbitrary: src dst s)
  case 0
  then show ?case using 0(2) [of "[]"] by (simp add: copyPre_def)
next
  case (Suc n)
  let ?step = "\<lambda>x isDir. if isDir then CopyDirContents n E (src @ [x]) (dst @ [x]) style else CopyFile E (src @ [x]) (dst @ [x]) style"
  note pre = Suc.prems(1)
  have dj: "disjoint src dst" using pre by (simp add: copyPre_def)
  have step: "stepCopies src dst style ?step" by (rule copyDir_stepI [OF cp CopyDirContents_copies [OF cp]])
  have loop: "returnsW (copyEntries ?step fds) t2"
    if t: "w_fs t = snd (e_cp E (w_fs s) src dst)" "wDo (\<lambda>f. fsMkdirAll f dst) t = Some (Inr u, t1)" "wGet (ReadDir src) t1 = Some (Inr fds, t2)"
      and dir: "fsGet (w_fs s) src = Some Directory" for t u t1 fds t2
  proof -
    have st: "copyStep src dst (w_fs s) (w_fs t)" using cp pre t(1) by (simp add: cpSpec_def)
    then have pt: "copyPre src dst (w_fs t)" "fsGet (w_fs t) src = Some Directory"
      using copyStep_src [OF dj st, of "[]"] dir by (auto simp: copyStep_def)
    have "fsMkdirAll (w_fs t) dst = Inr (w_fs t1)" using t(2) by (auto elim!: wDo_cases)
    note mk = copyStep_mkdir [OF pt this]
    have p1: "copyPre src dst (w_fs t1)" using mk(1) by (simp add: copyStep_def)
    have sr: "fsGet (w_fs t1) (src @ q) = fsGet (w_fs s) (src @ q)" for q
      using copyStep_src [OF dj copyStep_trans [OF st mk(1)]] .
    have t2: "w_fs t2 = w_fs t1" "fds = map (\<lambda>x. (x, fsGet (w_fs t1) (src @ [x]) = Some Directory)) (dirNames (w_fs t1) src)"
      using t(3) sr [of "[]"] dir by (auto elim!: wGet_cases simp: ReadDir_def)
    show ?thesis
    proof (rule copyEntries_returns [OF step, where f = "w_fs s"])
      fix x d and t' :: ows assume a: "(x, d) \<in> set fds" "copyPre src dst (w_fs t')" "fsGet (w_fs t') dst = Some Directory"
        "\<And>q. fsGet (w_fs t') (src @ q) = fsGet (w_fs s) (src @ q)"
      have x: "fsGet (w_fs t') (src @ [x]) \<noteq> None"
        using a(1) a(4) [of "[x]"] sr [of "[x]"] mem_dirNames [of "w_fs t1" x src] p1 by (auto simp: t2 copyPre_def)
      have "returnsW (CopyDirContents n E (src @ [x]) (dst @ [x]) style) t'"
      proof (rule Suc.IH [OF copyPre_child [OF a(2,3) x]])
        fix q assume "fsGet (w_fs t') ((src @ [x]) @ q) \<noteq> None"
        then show "length q < n" using Suc.prems(2) [of "x # q"] a(4) [of "x # q"] by simp
      qed
      then show "returnsW (?step x d) t'" using CopyFile_returns by simp
    qed (use p1 mk(2) sr t2 mem_dirNames [of "w_fs t1" _ src] in \<open>auto simp: copyPre_def\<close>)
  qed
  show ?case
  proof (cases "fsGet (w_fs s) src")
    case None then show ?thesis using pre by (simp add: copyPre_def)
  next
    case (Some nd)
    show ?thesis
    proof (cases nd)
      case (RegularFile c)
      then show ?thesis using CopyFile_returns Some by (auto intro!: returns_intros simp: wFs_some)
    next
      case Directory
      have tail: "returnsW (wBind (wDo (\<lambda>f. fsMkdirAll f dst)) (\<lambda>_. wBind (wGet (ReadDir src)) (copyEntries ?step))) t"
        if "w_fs t = snd (e_cp E (w_fs s) src dst)" for t
        using loop [OF that] Some Directory by (intro returns_intros) auto
      show ?thesis unfolding CopyDirContents.simps
        by (intro returns_bind returns_prim)
           (auto simp: wFs_some Some Directory intro!: returns_if returns_bind returns_prim tail dest!: wCtxErr_some RunCopy_some)
    qed
  qed
qed

end
