(* ===== verification/FileOps.thy ===== *)
theory FileOps
  imports FileCopy FileQueue TusIngest
begin

text \<open>
  The worker of file operations (\<^verbatim>\<open>service/file.go\<close>): moving with its cross-device fallback, replacing with a
  staged-aside destination, keep-both renaming and the item loop of \<^verbatim>\<open>FileOperate\<close>.
\<close>

section \<open>Definitions\<close>

definition wIgnore :: "'a wm \<Rightarrow> unit wm" where
  "wIgnore m = wBind (wTry m) (\<lambda>_. wReturn ())"

definition opDestPath :: "string \<Rightarrow> string \<Rightarrow> string" where
  "opDestPath from to' = Join [to', Base from]"

definition isCrossDevice :: "operr \<Rightarrow> bool" where
  "isCrossDevice e = (e = EXDEV)"

text \<open>\<^verbatim>\<open>file.PurgeThumbCacheEntry\<close> in the worker's state.\<close>

definition purgeThumb :: "env \<Rightarrow> string \<Rightarrow> unit wm" where
  "purgeThumb E path =
     wBind wFs (\<lambda>f.
     if \<not> isFile (fsGet f (segs path)) then wReturn ()
     else wBind (wIgnore (wDo (\<lambda>g. fsRemove g (segs (thumbCachePath (e_thumb E f path)))))) (\<lambda>_.
          wIgnore (wDo (\<lambda>g. fsRemove g (segs (thumbNegativePath (e_thumb E f path)))))))"

definition moveItem :: "nat \<Rightarrow> env \<Rightarrow> string \<Rightarrow> string \<Rightarrow> string \<Rightarrow> bool wm" where
  "moveItem n E from dst style =
     wBind (purgeThumb E from) (\<lambda>_.
     wBind (wTry (wRename E (segs from) (segs dst))) (\<lambda>rErr.
     case rErr of
       Inr _ \<Rightarrow> wReturn True
     | Inl e \<Rightarrow>
         if \<not> isCrossDevice e then wThrow e
         else wBind (wTry (CopyDirContents n E (segs from) (segs dst) style)) (\<lambda>cErr.
         case cErr of
           Inl e \<Rightarrow> wBind wCtxErr (\<lambda>c. wBind (if c then wIgnore (wRemoveAll E (segs dst)) else wReturn ()) (\<lambda>_. wThrow (CopyPhase e)))
         | Inr _ \<Rightarrow> wBind (wTry (wGet (GetFileOrDirSize (segs from)))) (\<lambda>srcSize.
             case srcSize of
               Inl e \<Rightarrow> wBind (wIgnore (wRemoveAll E (segs dst))) (\<lambda>_. wThrow (StatSource e))
             | Inr sz \<Rightarrow> wBind (wTry (wGet (GetFileOrDirSize (segs dst)))) (\<lambda>dstSize.
                 case dstSize of
                   Inl e \<Rightarrow> wBind (wIgnore (wRemoveAll E (segs dst))) (\<lambda>_. wThrow (SizeMismatch sz 0))
                 | Inr dz \<Rightarrow> if dz \<noteq> sz then wBind (wIgnore (wRemoveAll E (segs dst))) (\<lambda>_. wThrow (SizeMismatch sz dz))
                             else wBind (wIgnore (wRemoveAll E (segs from))) (\<lambda>_. wReturn False))))))"

text \<open>Returns the parked path (empty in every other case) and the outcome; \<open>uid\<close> is the start of a fresh uuid.\<close>

definition replaceTmp :: "string \<Rightarrow> string \<Rightarrow> string" where
  "replaceTmp dst uid = dst @ ''.nimoos-replacing-'' @ uid"

definition replaceConflict :: "env \<Rightarrow> string \<Rightarrow> string \<Rightarrow> 'a wm \<Rightarrow> (string \<times> (operr, 'a) result) wm" where
  "replaceConflict E uid dst doOp =
     (let tmp = replaceTmp dst uid in
      wBind (wTry (wRename E (segs dst) (segs tmp))) (\<lambda>st.
      case st of
        Inl e \<Rightarrow> wReturn ([], Inl (StageAside e))
      | Inr _ \<Rightarrow> wBind (wTry doOp) (\<lambda>r.
          case r of
            Inl e \<Rightarrow> wBind (wIgnore (wRemoveAll E (segs dst))) (\<lambda>_.
                     wBind (wTry (wRename E (segs tmp) (segs dst))) (\<lambda>back.
                     case back of Inl _ \<Rightarrow> wReturn (tmp, Inl e) | Inr _ \<Rightarrow> wReturn ([], Inl e)))
          | Inr x \<Rightarrow> wBind (wIgnore (wRemoveAll E (segs tmp))) (\<lambda>_. wReturn ([], Inr x)))))"

partial_function (option) noDupFrom :: "fs \<Rightarrow> string \<Rightarrow> string \<Rightarrow> string \<Rightarrow> nat \<Rightarrow> string \<Rightarrow> string option" where
  "noDupFrom f dir stem ext i full =
     (if Exists f (segs full) then noDupFrom f dir stem ext (Suc i) (Join [dir, stem @ ''('' @ Itoa (Suc i) @ '')'' @ ext])
      else Some full)"

declare noDupFrom.simps [code]

definition GetNoDuplicateFileName :: "fs \<Rightarrow> string \<Rightarrow> string option" where
  "GetNoDuplicateFileName f full =
     (case PathSplit full of (dir, name) \<Rightarrow> noDupFrom f dir (TrimSuffix name (Ext name)) (Ext name) 0 full)"

fun resolveLoop :: "nat \<Rightarrow> fs \<Rightarrow> string \<Rightarrow> (operr, string) result option" where
  "resolveLoop 0 f dst = Some (Inl NoRenameTarget)"
| "resolveLoop (Suc k) f dst =
     (case GetNoDuplicateFileName f dst of
        None \<Rightarrow> None
      | Some cand \<Rightarrow> if CheckNotExist f (segs cand) then Some (Inr cand) else resolveLoop k f dst)"

definition maxRenameCandidateAttempts :: nat where "maxRenameCandidateAttempts = 1000"

definition resolveRenameTarget :: "fs \<Rightarrow> string \<Rightarrow> (operr, string) result option" where
  "resolveRenameTarget f dst = resolveLoop maxRenameCandidateAttempts f dst"

text \<open>What one item of the loop leaves: the item, what it created, what it moved, and whether the loop stops cancelled.\<close>

record itemOut =
  io_item :: FileItem
  io_created :: "string option"
  io_moved :: "(string \<times> string) option"
  io_cancelled :: bool

definition keepItem :: "FileItem \<Rightarrow> itemOut" where
  "keepItem v = \<lparr>io_item = v, io_created = None, io_moved = None, io_cancelled = False\<rparr>"

definition failItem :: "FileItem \<Rightarrow> itemOut wm" where
  "failItem v = wBind wCtxErr (\<lambda>c. wReturn ((keepItem v)\<lparr>io_cancelled := c\<rparr>))"

definition movedItem :: "FileItem \<Rightarrow> string \<Rightarrow> bool \<Rightarrow> itemOut" where
  "movedItem v dst usedRename =
     \<lparr>io_item = (if usedRename then v\<lparr>fi_Finished := True, fi_ProcessedSize := fi_Size v\<rparr> else v),
      io_created = Some dst, io_moved = Some (fi_From v, dst), io_cancelled = False\<rparr>"

definition copiedItem :: "FileItem \<Rightarrow> string \<Rightarrow> itemOut" where
  "copiedItem v dst = (keepItem v)\<lparr>io_created := Some dst\<rparr>"

definition moveTo :: "nat \<Rightarrow> env \<Rightarrow> FileItem \<Rightarrow> string \<Rightarrow> string \<Rightarrow> itemOut wm" where
  "moveTo n E v dst style =
     wBind (wTry (moveItem n E (fi_From v) dst style)) (\<lambda>r.
     case r of Inl e \<Rightarrow> failItem v | Inr u \<Rightarrow> wReturn (movedItem v dst u))"

definition parkItem :: "FileItem \<Rightarrow> string \<Rightarrow> FileItem" where
  "parkItem v parked = (if parked \<noteq> [] then v\<lparr>fi_ParkedPath := parked\<rparr> else v)"

definition operateMove :: "nat \<Rightarrow> env \<Rightarrow> string \<Rightarrow> string \<Rightarrow> string \<Rightarrow> FileItem \<Rightarrow> itemOut wm" where
  "operateMove n E uid to' style v =
     (let dst = opDestPath (fi_From v) to' in
      wBind wFs (\<lambda>f.
      if CheckNotExist f (segs dst) then moveTo n E v dst style
      else if style = ''skip'' then wReturn (keepItem (v\<lparr>fi_Finished := True\<rparr>))
      else if style = ''replace'' \<or> style = ''overwrite'' then
        wBind (replaceConflict E uid dst (moveItem n E (fi_From v) dst style)) (\<lambda>(parked, r).
        case r of Inl e \<Rightarrow> failItem (parkItem v parked) | Inr u \<Rightarrow> wReturn (movedItem v dst u))
      else if style = ''rename'' then
        (case resolveRenameTarget f dst of
           None \<Rightarrow> (\<lambda>_. None)
         | Some (Inl e) \<Rightarrow> wReturn (keepItem v)
         | Some (Inr renameDst) \<Rightarrow> moveTo n E v renameDst style)
      else wReturn (keepItem (v\<lparr>fi_Finished := True\<rparr>))))"

definition copyTo :: "env \<Rightarrow> FileItem \<Rightarrow> string \<Rightarrow> unit wm \<Rightarrow> itemOut wm" where
  "copyTo E v dst copy =
     wBind (wTry copy) (\<lambda>r.
     case r of
       Inl e \<Rightarrow> wBind wCtxErr (\<lambda>c. if c then wBind (wIgnore (wRemoveAll E (segs dst))) (\<lambda>_. wReturn ((keepItem v)\<lparr>io_cancelled := True\<rparr>))
                                   else wReturn (keepItem v))
     | Inr _ \<Rightarrow> wReturn (copiedItem v dst))"

definition operateCopy :: "nat \<Rightarrow> env \<Rightarrow> string \<Rightarrow> string \<Rightarrow> string \<Rightarrow> FileItem \<Rightarrow> itemOut wm" where
  "operateCopy n E uid to' style v =
     (let dst = opDestPath (fi_From v) to' in
      wBind wFs (\<lambda>f.
      if CheckNotExist f (segs dst) then copyTo E v dst (CopyDir n E (segs (fi_From v)) (segs to') style)
      else if style = ''skip'' then wReturn (keepItem v)
      else if style = ''replace'' \<or> style = ''overwrite'' then
        wBind (replaceConflict E uid dst (CopyDir n E (segs (fi_From v)) (segs to') style)) (\<lambda>(parked, r).
        case r of Inl e \<Rightarrow> failItem (parkItem v parked) | Inr u \<Rightarrow> wReturn (copiedItem v dst))
      else if style = ''rename'' then
        (case resolveRenameTarget f dst of
           None \<Rightarrow> (\<lambda>_. None)
         | Some (Inl e) \<Rightarrow> wReturn (keepItem v)
         | Some (Inr renameDst) \<Rightarrow> copyTo E v renameDst (CopyDirContents n E (segs (fi_From v)) (segs renameDst) style))
      else wReturn (keepItem v)))"

definition operateItem :: "nat \<Rightarrow> env \<Rightarrow> string \<Rightarrow> FileOperate \<Rightarrow> FileItem \<Rightarrow> itemOut wm" where
  "operateItem n E uid t v =
     (if fo_Type t = ''move'' then operateMove n E uid (fo_To t) (fo_Style t) v
      else if fo_Type t = ''copy'' then operateCopy n E uid (fo_To t) (fo_Style t) v
      else wReturn (keepItem v))"

text \<open>The item loop: the items afterwards, the created paths, the moved pairs and the cancellation flag.\<close>

fun itemsLoop :: "nat \<Rightarrow> env \<Rightarrow> string list \<Rightarrow> FileOperate \<Rightarrow> FileItem list
    \<Rightarrow> (FileItem list \<times> string list \<times> (string \<times> string) list \<times> bool) wm" where
  "itemsLoop n E uids t [] = wReturn ([], [], [], False)"
| "itemsLoop n E uids t (v # vs) =
     wBind wCtxErr (\<lambda>c.
     if c then wReturn (v # vs, [], [], True)
     else wBind (operateItem n E (hd uids) t v) (\<lambda>out.
       if io_cancelled out then wReturn (io_item out # vs, [], [], True)
       else wBind (itemsLoop n E (tl uids) t vs) (\<lambda>(ws, cs, ms, b).
            wReturn (io_item out # ws, (case io_created out of None \<Rightarrow> cs | Some p \<Rightarrow> p # cs),
                     (case io_moved out of None \<Rightarrow> ms | Some m \<Rightarrow> m # ms), b))))"

section \<open>Reasoning about the worker\<close>

text \<open>\<open>hoare P m Q\<close>: from a file system with \<open>P\<close>, whenever \<open>m\<close> returns, result and file system satisfy \<open>Q\<close>.\<close>

definition hoare :: "(fs \<Rightarrow> bool) \<Rightarrow> 'a wm \<Rightarrow> ((operr, 'a) result \<Rightarrow> fs \<Rightarrow> bool) \<Rightarrow> bool" where
  "hoare P m Q = (\<forall>s r s'. P (w_fs s) \<longrightarrow> m s = Some (r, s') \<longrightarrow> Q r (w_fs s'))"

lemma hoareD: "hoare P m Q \<Longrightarrow> P (w_fs s) \<Longrightarrow> m s = Some (r, s') \<Longrightarrow> Q r (w_fs s')"
  by (simp add: hoare_def)

lemma hoare_bind:
  assumes "hoare P m Q" "\<And>x. hoare (Q (Inr x)) (k x) R" "\<And>e f. Q (Inl e) f \<Longrightarrow> R (Inl e) f"
  shows "hoare P (wBind m k) R"
  unfolding hoare_def
proof (intro allI impI)
  fix s r s' assume "P (w_fs s)" "wBind m k s = Some (r, s')"
  then show "R r (w_fs s')" using assms by (elim wBind_cases) (auto simp: hoare_def)
qed

lemma hoare_weaken: "hoare P m Q \<Longrightarrow> (\<And>f. P' f \<Longrightarrow> P f) \<Longrightarrow> (\<And>r f. Q r f \<Longrightarrow> Q' r f) \<Longrightarrow> hoare P' m Q'"
  unfolding hoare_def by blast

lemma hoare_try: "hoare P m (\<lambda>r f. Q (Inr r) f) \<Longrightarrow> hoare P (wTry m) Q"
  unfolding hoare_def wTry_def by (auto split: option.splits)

lemma hoare_return: "(\<And>f. P f \<Longrightarrow> Q (Inr x) f) \<Longrightarrow> hoare P (wReturn x) Q"
  by (simp add: hoare_def wRet_some)

lemma hoare_throw: "(\<And>f. P f \<Longrightarrow> Q (Inl e) f) \<Longrightarrow> hoare P (wThrow e) Q"
  by (simp add: hoare_def wRet_some)

lemma hoare_if: "(b \<Longrightarrow> hoare P m Q) \<Longrightarrow> (\<not> b \<Longrightarrow> hoare P k Q) \<Longrightarrow> hoare P (if b then m else k) Q"
  by simp

lemma hoare_ctx: "(\<And>c f. P f \<Longrightarrow> Q (Inr c) f) \<Longrightarrow> hoare P wCtxErr Q"
  by (auto simp: hoare_def dest!: wCtxErr_some)

lemma hoare_fs: "(\<And>f. P f \<Longrightarrow> Q (Inr f) f) \<Longrightarrow> hoare P wFs Q"
  by (auto simp: hoare_def wFs_some)

lemma hoare_get: "(\<And>r f. P f \<Longrightarrow> Q r f) \<Longrightarrow> hoare P (wGet g) Q"
  by (auto simp: hoare_def elim!: wGet_cases)

lemma hoare_do:
  "(\<And>f g. P f \<Longrightarrow> h f = Inr g \<Longrightarrow> Q (Inr ()) g) \<Longrightarrow> (\<And>e f. P f \<Longrightarrow> Q (Inl e) f) \<Longrightarrow> hoare P (wDo h) Q"
  by (auto simp: hoare_def elim!: wDo_cases)

lemma hoare_diverge: "hoare P (\<lambda>_. None) Q"
  by (simp add: hoare_def)

lemma hoare_ignore: "hoare P m (\<lambda>_ f. Q (Inr ()) f) \<Longrightarrow> hoare P (wIgnore m) Q"
  unfolding wIgnore_def by (rule hoare_bind [where Q = "\<lambda>r f. Q (Inr ()) f \<and> (\<exists>x. r = Inr x)"])
    (auto simp: hoare_def wTry_def wRet_some split: option.splits)

section \<open>Specifications\<close>

text \<open>A failing \<^verbatim>\<open>os.RemoveAll\<close> removes nothing outside its tree; a cache key is a file name.\<close>

definition envSpec :: "env \<Rightarrow> bool" where
  "envSpec E = (cpSpec E \<and> (\<forall>f p. fsWF f \<longrightarrow> p \<noteq> [] \<longrightarrow> fsWF (e_rm E f p) \<and> outside {p} f (e_rm E f p))
     \<and> (\<forall>f p. slash \<notin> set (e_thumb E f p)))"

text \<open>Well-formed and unchanged outside the given paths.\<close>

definition framed :: "fs \<Rightarrow> string list set \<Rightarrow> fs \<Rightarrow> bool" where
  "framed f0 K f = (fsWF f \<and> outside K f0 f)"

lemma framed_wf: "framed f0 K f \<Longrightarrow> fsWF f"
  by (simp add: framed_def)

lemma framed_mono: "framed f0 K f \<Longrightarrow> K \<subseteq> L \<Longrightarrow> framed f0 L f"
  by (auto simp: framed_def intro: outside_mono)

lemma framed_step: "framed f0 K f \<Longrightarrow> fsWF g \<Longrightarrow> outside K f g \<Longrightarrow> framed f0 K g"
  by (auto simp: framed_def intro: outside_trans)

lemma framed_tree: "framed f0 K f \<Longrightarrow> (\<And>q. q \<in> K \<Longrightarrow> disjoint p q) \<Longrightarrow> sameTree f0 p f p"
  by (auto simp: framed_def intro: outside_tree)

lemma removeAll_step:
  assumes "envSpec E" "wRemoveAll E p s = Some (r, s')" "p \<noteq> []" "fsWF (w_fs s)"
  shows "fsWF (w_fs s') \<and> outside {p} (w_fs s) (w_fs s')"
  using assms by (auto simp: wRemoveAll_def Let_def envSpec_def fsRemoveAll_wf fsRemoveAll_outside split: if_splits)

lemma hoare_removeAll:
  assumes "envSpec E" "p \<noteq> []" "\<And>f. P f \<Longrightarrow> fsWF f"
    and "\<And>r f g. P f \<Longrightarrow> fsWF g \<Longrightarrow> outside {p} f g \<Longrightarrow> Q r g"
  shows "hoare P (wRemoveAll E p) Q"
  using assms removeAll_step [OF assms(1)] by (auto simp: hoare_def)

lemma hoare_rename:
  assumes "p \<noteq> q" "\<And>f. P f \<Longrightarrow> fsWF f"
    and "\<And>f g. P f \<Longrightarrow> fsWF g \<Longrightarrow> outside {p, q} f g \<Longrightarrow> sameTree f p g q \<Longrightarrow> Q (Inr ()) g"
    and "\<And>e f. P f \<Longrightarrow> Q (Inl e) f"
  shows "hoare P (wRename E p q) Q"
  using assms fsRename_any [OF _ _ assms(1)] unfolding hoare_def wRename_def
  by (auto split: if_splits elim!: wDo_cases) blast

abbreviation thumbDir :: "string list" where
  "thumbDir \<equiv> segs ThumbCacheDir"

lemma hoare_purge:
  assumes E: "envSpec E" and "\<And>f. P f \<Longrightarrow> framed f0 K f" "\<And>r f. framed f0 (insert thumbDir K) f \<Longrightarrow> Q r f"
  shows "hoare P (purgeThumb E path) Q"
proof -
  have rm: "hoare (framed f0 (insert thumbDir K)) (wIgnore (wDo (\<lambda>g. fsRemove g p))) (\<lambda>_. framed f0 (insert thumbDir K))"
    if p: "p \<in> thumbArea" for p
  proof (intro hoare_ignore hoare_do)
    fix f g assume f: "framed f0 (insert thumbDir K) f" "fsRemove f p = Inr g"
    have "outside (insert thumbDir K) f g"
      using fsRemove_get [OF f(2)] p by (auto simp: outside_def thumbArea_def)
    moreover have "fsWF g" using f fsRemove_wf [of f p g] by (simp add: framed_def)
    ultimately show "framed f0 (insert thumbDir K) g" using framed_step [OF f(1)] by blast
  qed
  have key: "segs (thumbCachePath (e_thumb E f path)) \<in> thumbArea" "segs (thumbNegativePath (e_thumb E f path)) \<in> thumbArea" for f
    using E thumb_in_area by (auto simp: envSpec_def)
  show ?thesis unfolding purgeThumb_def
  proof (rule hoare_bind [where Q = "\<lambda>r f. framed f0 (insert thumbDir K) f \<and> (\<exists>g. r = Inr g)"])
    show "hoare P wFs (\<lambda>r f. framed f0 (insert thumbDir K) f \<and> (\<exists>g. r = Inr g))"
      using assms(2) by (intro hoare_fs) (auto intro: framed_mono)
    fix g show "hoare (\<lambda>f. framed f0 (insert thumbDir K) f \<and> (\<exists>g'. Inr g = (Inr g' :: (operr, fs) result)))
      (if \<not> isFile (fsGet g (segs path)) then wReturn ()
       else wBind (wIgnore (wDo (\<lambda>ga. fsRemove ga (segs (thumbCachePath (e_thumb E g path))))))
             (\<lambda>_. wIgnore (wDo (\<lambda>ga. fsRemove ga (segs (thumbNegativePath (e_thumb E g path))))))) Q"
      using assms(3)
      by (intro hoare_if hoare_return hoare_bind [where Q = "\<lambda>_. framed f0 (insert thumbDir K)"]
          hoare_weaken [OF rm [OF key(1)]] hoare_weaken [OF rm [OF key(2)]]) auto
  qed auto
qed

text \<open>The situation in which an item is moved or copied to a free destination.\<close>

definition opPre :: "string list \<Rightarrow> string list \<Rightarrow> fs \<Rightarrow> bool" where
  "opPre src dst f = (fsWF f \<and> disjoint src dst \<and> fsGet f src \<noteq> None \<and> fsGet f dst = None \<and> fsGet f (butlast dst) = Some Directory
     \<and> disjoint src thumbDir \<and> disjoint dst thumbDir)"

text \<open>What a move or copy leaves: a complete copy on success, the source on failure, and the rest unchanged.\<close>

definition opPost :: "bool \<Rightarrow> string list \<Rightarrow> string list \<Rightarrow> string \<Rightarrow> fs \<Rightarrow> (operr, 'a) result \<Rightarrow> fs \<Rightarrow> bool" where
  "opPost keep src dst style f0 r f = (framed f0 {src, dst, thumbDir} f \<and>
     (case r of Inr _ \<Rightarrow> (style \<noteq> ''skip'' \<longrightarrow> sameTree f0 src f dst) \<and> (keep \<longrightarrow> sameTree f0 src f src)
      | Inl _ \<Rightarrow> sameTree f0 src f src))"

lemma opPre_copyPre:
  assumes "opPre src dst f0" "framed f0 {thumbDir} f"
  shows "copyPre src dst f" "sameTree f0 src f src"
proof -
  have pre: "disjoint src dst" "fsWF f" "disjoint src thumbDir" "disjoint dst thumbDir" "fsGet f0 dst = None"
    "fsGet f0 src \<noteq> None" "fsGet f0 (butlast dst) = Some Directory" using assms by (simp_all add: opPre_def framed_def)
  show same: "sameTree f0 src f src" using assms(2) pre(3) by (auto intro: framed_tree)
  have "sameTree f0 dst f dst" using assms(2) pre(4) by (auto intro: framed_tree)
  then have none: "fsGet f dst = None" using pre(5) by (metis sameTree_def append_Nil2)
  have "\<not> prefix thumbDir (butlast dst)" using pre(4) by (metis disjoint_def prefix_order.trans prefixeq_butlast)
  then have "fsGet f (butlast dst) = Some Directory" using assms(2) pre(7) by (simp add: framed_def outside_def)
  moreover have "fsGet f src \<noteq> None" using same pre(6) by (metis sameTree_def append_Nil2)
  moreover have "kindSub f dst src" using wf_under_none [OF pre(2) none] by (simp add: kindSub_def)
  ultimately show "copyPre src dst f" using pre by (simp add: copyPre_def)
qed

lemma hoare_copy:
  assumes E: "envSpec E" and pre: "opPre src dst f0"
  shows "hoare (framed f0 {thumbDir}) (CopyDirContents n E src dst style)
    (\<lambda>r f. framed f0 {dst, thumbDir} f \<and> (r = Inr () \<longrightarrow> style \<noteq> ''skip'' \<longrightarrow> sameTree f0 src f dst))"
  unfolding hoare_def
proof (intro allI impI)
  fix s r s' assume fr: "framed f0 {thumbDir} (w_fs s)" and run: "CopyDirContents n E src dst style s = Some (r, s')"
  note cp = opPre_copyPre [OF pre fr]
  have c: "copies src dst style s r s'" using CopyDirContents_copies [OF _ cp(1) run] E by (simp add: envSpec_def)
  then have "fsWF (w_fs s')" "outside {dst} (w_fs s) (w_fs s')" by (simp_all add: copies_def copyStep_def copyPre_def)
  then have "framed f0 {dst, thumbDir} (w_fs s')"
    using framed_step [OF framed_mono [OF fr, of "{dst, thumbDir}"]] by (auto intro: outside_mono)
  moreover have "r = Inr () \<longrightarrow> style \<noteq> ''skip'' \<longrightarrow> sameTree f0 src (w_fs s') dst"
    using c cp(2) by (auto simp: copies_def intro: sameTree_trans)
  ultimately show "framed f0 {dst, thumbDir} (w_fs s') \<and> (r = Inr () \<longrightarrow> style \<noteq> ''skip'' \<longrightarrow> sameTree f0 src (w_fs s') dst)" ..
qed

lemma opPre_src:
  "opPre src dst f0 \<Longrightarrow> framed f0 {dst, thumbDir} f \<Longrightarrow> sameTree f0 src f src"
  by (rule framed_tree [of f0 "{dst, thumbDir}"]) (auto simp: opPre_def)

lemma framed_removed:
  "framed f0 {dst, thumbDir} f \<Longrightarrow> fsWF g \<Longrightarrow> outside {dst} f g \<Longrightarrow> framed f0 {dst, thumbDir} g"
  by (rule framed_step) (auto intro: outside_mono)

lemma moveItem_spec:
  assumes E: "envSpec E" and pre: "opPre (segs from) (segs dst) f0"
  shows "hoare (\<lambda>f. f = f0) (moveItem n E from dst style) (opPost False (segs from) (segs dst) style f0)"
proof -
  let ?p = "segs from" and ?q = "segs dst"
  let ?D = "framed f0 {?q, thumbDir}"
  have ne: "?p \<noteq> ?q" "?q \<noteq> []" "?p \<noteq> []" and dj: "disjoint ?p ?q" "disjoint ?p thumbDir" using pre by (auto simp: opPre_def disjoint_def)
  have fin: "opPost False ?p ?q style f0 (Inl e :: (operr, bool) result) f" if "?D f" for e f
    using that opPre_src [OF pre that] by (auto simp: opPost_def intro: framed_mono)
  have clean: "hoare ?D (wIgnore (wRemoveAll E ?q)) (\<lambda>_. ?D)"
    by (intro hoare_ignore hoare_removeAll [OF E ne(2)]) (auto intro: framed_removed framed_wf)
  have drop: "hoare ?D (wBind (wIgnore (wRemoveAll E ?q)) (\<lambda>_. wThrow e)) (opPost False ?p ?q style f0 :: (operr, bool) result \<Rightarrow> fs \<Rightarrow> bool)" for e
    by (rule hoare_bind [OF clean hoare_throw]) (auto intro: fin)
  have verify: "hoare (\<lambda>f. ?D f \<and> (style \<noteq> ''skip'' \<longrightarrow> sameTree f0 ?p f ?q))
      (wBind (wTry (wGet (GetFileOrDirSize ?p))) (\<lambda>srcSize. case srcSize of
         Inl e \<Rightarrow> wBind (wIgnore (wRemoveAll E ?q)) (\<lambda>_. wThrow (StatSource e))
       | Inr sz \<Rightarrow> wBind (wTry (wGet (GetFileOrDirSize ?q))) (\<lambda>dstSize. case dstSize of
           Inl e \<Rightarrow> wBind (wIgnore (wRemoveAll E ?q)) (\<lambda>_. wThrow (SizeMismatch sz 0))
         | Inr dz \<Rightarrow> if dz \<noteq> sz then wBind (wIgnore (wRemoveAll E ?q)) (\<lambda>_. wThrow (SizeMismatch sz dz))
                     else wBind (wIgnore (wRemoveAll E ?p)) (\<lambda>_. wReturn False)))) (opPost False ?p ?q style f0)"
    (is "hoare ?V _ _")
  proof -
    have done': "hoare ?V (wBind (wIgnore (wRemoveAll E ?p)) (\<lambda>_. wReturn False)) (opPost False ?p ?q style f0)"
    proof (rule hoare_bind [where Q = "\<lambda>r f. r = Inr () \<and> opPost False ?p ?q style f0 (Inr False) f"])
      show "hoare ?V (wIgnore (wRemoveAll E ?p)) (\<lambda>r f. r = Inr () \<and> opPost False ?p ?q style f0 (Inr False) f)"
      proof (intro hoare_ignore hoare_removeAll [OF E ne(3)])
        fix f g assume f: "?V f" and g: "fsWF g" "outside {?p} f g"
        have "framed f0 {?p, ?q, thumbDir} g"
          using f g framed_step [OF framed_mono [of f0 "{?q, thumbDir}" f "{?p, ?q, thumbDir}"]] by (auto intro: outside_mono)
        moreover have "sameTree f ?q g ?q" using outside_tree [OF g(2), of ?q] dj(1) by (auto intro: disjoint_sym)
        ultimately show "Inr () = (Inr () :: (operr, unit) result) \<and> opPost False ?p ?q style f0 (Inr False) g"
          using f by (auto simp: opPost_def intro: sameTree_trans)
      qed (simp add: framed_def)
    qed (auto intro: hoare_return simp: opPost_def hoare_def wRet_some)
    have weak: "hoare ?V (wBind (wIgnore (wRemoveAll E ?q)) (\<lambda>_. wThrow e)) (opPost False ?p ?q style f0 :: (operr, bool) result \<Rightarrow> fs \<Rightarrow> bool)" for e
      by (rule hoare_weaken [OF drop]) auto
    show ?thesis
      by (rule hoare_bind [where Q = "\<lambda>r f. ?V f \<and> (\<exists>x. r = Inr x)"])
         (auto intro!: hoare_try hoare_get weak done' hoare_if hoare_bind [where Q = "\<lambda>r f. ?V f \<and> (\<exists>x. r = Inr x)"] split: sum.split)
  qed
  have cancelClean: "hoare ?D (wBind wCtxErr (\<lambda>c. wBind (if c then wIgnore (wRemoveAll E ?q) else wReturn ()) (\<lambda>_. wThrow e)))
      (opPost False ?p ?q style f0 :: (operr, bool) result \<Rightarrow> fs \<Rightarrow> bool)" for e
    by (rule hoare_bind [where Q = "\<lambda>_. ?D"], rule hoare_ctx, assumption,
        rule hoare_bind [where Q = "\<lambda>_. ?D"]) (auto intro!: clean hoare_return hoare_throw intro: fin)
  let ?V = "\<lambda>f. ?D f \<and> (style \<noteq> ''skip'' \<longrightarrow> sameTree f0 ?p f ?q)"
  have cp: "hoare (framed f0 {thumbDir}) (wTry (CopyDirContents n E ?p ?q style))
      (\<lambda>r f. case r of Inr (Inr _) \<Rightarrow> ?V f | Inr (Inl _) \<Rightarrow> ?D f | Inl _ \<Rightarrow> False)"
    by (rule hoare_try, rule hoare_weaken [OF hoare_copy [OF E pre]]) (auto split: sum.splits)
  have ren: "hoare (framed f0 {thumbDir}) (wTry (wRename E ?p ?q))
      (\<lambda>r f. case r of Inr (Inr _) \<Rightarrow> opPost False ?p ?q style f0 (Inr True) f | Inr (Inl _) \<Rightarrow> framed f0 {thumbDir} f | Inl _ \<Rightarrow> False)"
  proof (rule hoare_try, rule hoare_rename [OF ne(1)])
    fix f g assume f: "framed f0 {thumbDir} f" and g: "fsWF g" "outside {?p, ?q} f g" "sameTree f ?p g ?q"
    have "framed f0 {?p, ?q, thumbDir} g"
      using f g framed_step [OF framed_mono [of f0 "{thumbDir}" f "{?p, ?q, thumbDir}"]] by (auto intro: outside_mono)
    moreover have "sameTree f0 ?p f ?p" using f dj(2) by (auto intro: framed_tree)
    ultimately show "case Inr (Inr ()) of Inr (Inr _) \<Rightarrow> opPost False ?p ?q style f0 (Inr True) g
        | Inr (Inl _) \<Rightarrow> framed f0 {thumbDir} g | Inl _ \<Rightarrow> False"
      using g(3) by (auto simp: opPost_def intro: sameTree_trans)
  qed (auto simp: framed_def)
  show ?thesis unfolding moveItem_def
  proof (rule hoare_bind [where Q = "\<lambda>_. framed f0 {thumbDir}"])
    show "hoare (\<lambda>f. f = f0) (purgeThumb E from) (\<lambda>_. framed f0 {thumbDir})"
      by (rule hoare_purge [OF E, of _ f0 "{}"]) (use pre in \<open>auto simp: opPre_def framed_def outside_refl\<close>)
    fix x :: unit
    show "hoare (framed f0 {thumbDir}) (wBind (wTry (wRename E ?p ?q)) (\<lambda>rErr. case rErr of Inr _ \<Rightarrow> wReturn True
      | Inl e \<Rightarrow> if \<not> isCrossDevice e then wThrow e
         else wBind (wTry (CopyDirContents n E ?p ?q style)) (\<lambda>cErr. case cErr of
           Inl e \<Rightarrow> wBind wCtxErr (\<lambda>c. wBind (if c then wIgnore (wRemoveAll E ?q) else wReturn ()) (\<lambda>_. wThrow (CopyPhase e)))
         | Inr _ \<Rightarrow> wBind (wTry (wGet (GetFileOrDirSize ?p))) (\<lambda>srcSize. case srcSize of
             Inl e \<Rightarrow> wBind (wIgnore (wRemoveAll E ?q)) (\<lambda>_. wThrow (StatSource e))
           | Inr sz \<Rightarrow> wBind (wTry (wGet (GetFileOrDirSize ?q))) (\<lambda>dstSize. case dstSize of
               Inl e \<Rightarrow> wBind (wIgnore (wRemoveAll E ?q)) (\<lambda>_. wThrow (SizeMismatch sz 0))
             | Inr dz \<Rightarrow> if dz \<noteq> sz then wBind (wIgnore (wRemoveAll E ?q)) (\<lambda>_. wThrow (SizeMismatch sz dz))
                         else wBind (wIgnore (wRemoveAll E ?p)) (\<lambda>_. wReturn False)))))) (opPost False ?p ?q style f0)"
    proof (rule hoare_bind [OF ren], goal_cases)
      case (1 rErr)
      have thr: "hoare (framed f0 {thumbDir}) (wThrow e) (opPost False ?p ?q style f0 :: (operr, bool) result \<Rightarrow> fs \<Rightarrow> bool)" for e
        by (intro hoare_throw fin) (auto intro: framed_mono)
      show ?case
        by (cases rErr) (auto intro!: hoare_return thr hoare_bind [OF cp] cancelClean verify split: sum.split)
    qed simp
  qed (auto intro!: fin intro: framed_mono)
qed

text \<open>The situation of a replacement: \<open>dst\<close> exists and its staging name \<open>tmp\<close> is free.\<close>

definition replPre :: "string list \<Rightarrow> string list \<Rightarrow> string list \<Rightarrow> fs \<Rightarrow> bool" where
  "replPre src dst tmp f = (fsWF f \<and> fsGet f src \<noteq> None \<and> fsGet f dst \<noteq> None \<and> fsGet f tmp = None
     \<and> disjoint src dst \<and> disjoint src tmp \<and> disjoint dst tmp
     \<and> disjoint src thumbDir \<and> disjoint dst thumbDir \<and> disjoint tmp thumbDir)"

definition replPost :: "bool \<Rightarrow> string list \<Rightarrow> string list \<Rightarrow> string list \<Rightarrow> string \<Rightarrow> string \<Rightarrow> fs \<Rightarrow> string \<times> (operr, 'a) result \<Rightarrow> fs \<Rightarrow> bool" where
  "replPost keep src dst tmp tmpName style f0 out f = (framed f0 {src, dst, tmp, thumbDir} f \<and>
     (case snd out of
        Inl _ \<Rightarrow> sameTree f0 src f src \<and> (sameTree f0 dst f dst \<or> fst out = tmpName \<and> sameTree f0 dst f tmp)
      | Inr _ \<Rightarrow> fst out = [] \<and> (style \<noteq> ''skip'' \<longrightarrow> sameTree f0 src f dst) \<and> (keep \<longrightarrow> sameTree f0 src f src)))"

text \<open>After staging aside: the old destination is at \<open>tmp\<close>, the source is untouched.\<close>

definition staged :: "string list \<Rightarrow> string list \<Rightarrow> string list \<Rightarrow> fs \<Rightarrow> fs \<Rightarrow> bool" where
  "staged src dst tmp f0 f = (framed f0 {src, dst, tmp, thumbDir} f \<and> sameTree f0 dst f tmp \<and> sameTree f0 src f src)"

lemma staged_step:
  assumes "staged src dst tmp f0 f" "replPre src dst tmp f0" "fsWF g" "outside {dst} f g"
  shows "staged src dst tmp f0 g"
proof -
  have "sameTree f tmp g tmp" "sameTree f src g src"
    using outside_tree [OF assms(4), of tmp] outside_tree [OF assms(4), of src] assms(2) by (auto simp: replPre_def intro: disjoint_sym)
  moreover have "framed f0 {src, dst, tmp, thumbDir} g"
    using assms framed_step [of f0 "{src, dst, tmp, thumbDir}" f g] by (auto simp: staged_def intro: outside_mono)
  ultimately show ?thesis using assms(1) by (auto simp: staged_def intro: sameTree_trans)
qed

lemma staged_wf: "staged src dst tmp f0 f \<Longrightarrow> fsWF f"
  by (simp add: staged_def framed_def)

lemma hoare_stage:
  assumes pre: "replPre src dst tmp f0"
  shows "hoare (\<lambda>f. f = f0) (wRename E dst tmp) (\<lambda>r f. case r of Inr _ \<Rightarrow> staged src dst tmp f0 f \<and> opPre src dst f | Inl _ \<Rightarrow> f = f0)"
proof -
  have wf: "fsWF f0" and free: "fsGet f0 tmp = None" using pre by (auto simp: replPre_def)
  have ok: "staged src dst tmp f0 g \<and> opPre src dst g" if run: "fsRename f0 dst tmp = Inr g" for g
  proof -
    note R = fsRename_tree_same [OF wf run free] fsRename_tree_wf [OF wf run free]
    have "dst \<noteq> []" "fsGet f0 dst \<noteq> None" using pre by (auto simp: replPre_def disjoint_def)
    then have par: "fsGet f0 (butlast dst) = Some Directory" by (rule wf_parent [OF wf])
    have "sameTree f0 src g src" using pre by (intro outside_tree [OF R(2)]) (auto simp: replPre_def)
    moreover have "framed f0 {src, dst, tmp, thumbDir} g" using R(2,4) by (auto simp: framed_def intro: outside_mono)
    moreover have "fsGet g (butlast dst) = Some Directory"
    proof -
      have "dst \<noteq> []" "\<not> prefix tmp dst" using pre by (auto simp: replPre_def disjoint_def)
      then have "\<not> prefix dst (butlast dst)" "\<not> prefix tmp (butlast dst)"
        using not_prefix_butlast [of dst] by (auto dest: prefix_order.trans [OF _ prefixeq_butlast])
      then show ?thesis using R(2) par by (auto simp: outside_def)
    qed
    moreover have "fsGet g src \<noteq> None" using calculation(1) pre by (metis sameTree_def append_Nil2 replPre_def)
    ultimately show ?thesis using R pre by (auto simp: staged_def opPre_def replPre_def)
  qed
  show ?thesis using ok unfolding hoare_def wRename_def by (auto split: if_splits elim!: wDo_cases)
qed

lemma hoare_rollback:
  assumes E: "envSpec E" and pre: "replPre src dst tmp f0"
  shows "hoare (staged src dst tmp f0) (wBind (wIgnore (wRemoveAll E dst)) (\<lambda>_.
      wBind (wTry (wRename E tmp dst)) (\<lambda>back. case back of Inl _ \<Rightarrow> wReturn (tmpName, Inl e) | Inr _ \<Rightarrow> wReturn ([], Inl e))))
      (\<lambda>r f. \<exists>out. r = Inr out \<and> replPost keep src dst tmp tmpName style f0 (out :: string \<times> (operr, 'a) result) f)"
proof (rule hoare_bind [where Q = "\<lambda>r f. staged src dst tmp f0 f \<and> r = Inr ()"])
  have ne: "dst \<noteq> []" "tmp \<noteq> dst" using pre by (auto simp: replPre_def disjoint_def)
  show "hoare (staged src dst tmp f0) (wIgnore (wRemoveAll E dst)) (\<lambda>r f. staged src dst tmp f0 f \<and> r = Inr ())"
    by (intro hoare_ignore hoare_removeAll [OF E ne(1)]) (auto intro: staged_step [OF _ pre] staged_wf)
  have undo: "hoare (staged src dst tmp f0) (wTry (wRename E tmp dst)) (\<lambda>r f. case r of
      Inr (Inr _) \<Rightarrow> framed f0 {src, dst, tmp, thumbDir} f \<and> sameTree f0 src f src \<and> sameTree f0 dst f dst
    | Inr (Inl _) \<Rightarrow> staged src dst tmp f0 f | Inl _ \<Rightarrow> False)"
  proof (rule hoare_try, rule hoare_rename [OF ne(2)])
    fix f g assume f: "staged src dst tmp f0 f" and g: "fsWF g" "outside {tmp, dst} f g" "sameTree f tmp g dst"
    have "framed f0 {src, dst, tmp, thumbDir} g"
      using f g framed_step [of f0 "{src, dst, tmp, thumbDir}" f g] by (auto simp: staged_def intro: outside_mono)
    moreover have "sameTree f src g src" using pre by (intro outside_tree [OF g(2)]) (auto simp: replPre_def)
    ultimately show "case Inr (Inr ()) of
      Inr (Inr _) \<Rightarrow> framed f0 {src, dst, tmp, thumbDir} g \<and> sameTree f0 src g src \<and> sameTree f0 dst g dst
    | Inr (Inl _) \<Rightarrow> staged src dst tmp f0 g | Inl _ \<Rightarrow> False"
      using f g(3) by (auto simp: staged_def intro: sameTree_trans)
  qed (auto simp: staged_def framed_def)
  fix u :: unit
  show "hoare (\<lambda>f. staged src dst tmp f0 f \<and> Inr u = (Inr () :: (operr, unit) result))
     (wBind (wTry (wRename E tmp dst)) (\<lambda>back. case back of Inl _ \<Rightarrow> wReturn (tmpName, Inl e) | Inr _ \<Rightarrow> wReturn ([], Inl e)))
     (\<lambda>r f. \<exists>out. r = Inr out \<and> replPost keep src dst tmp tmpName style f0 (out :: string \<times> (operr, 'a) result) f)"
    by (rule hoare_bind, rule hoare_weaken [OF undo], blast, assumption)
       (auto intro!: hoare_return simp: replPost_def staged_def split: sum.splits)
qed auto

lemma hoare_commit:
  assumes E: "envSpec E" and pre: "replPre src dst tmp f0"
  shows "hoare (\<lambda>f. framed f0 {src, dst, tmp, thumbDir} f \<and> (style \<noteq> ''skip'' \<longrightarrow> sameTree f0 src f dst) \<and> (keep \<longrightarrow> sameTree f0 src f src))
      (wBind (wIgnore (wRemoveAll E tmp)) (\<lambda>_. wReturn ([], Inr x)))
      (\<lambda>r f. \<exists>out. r = Inr out \<and> replPost keep src dst tmp tmpName style f0 out f)"
    (is "hoare ?P _ ?Q")
proof (rule hoare_bind [where Q = "\<lambda>r f. ?P f \<and> r = Inr ()"])
  have ne: "tmp \<noteq> []" and dj: "disjoint dst tmp" using pre by (auto simp: replPre_def disjoint_def)
  show "hoare ?P (wIgnore (wRemoveAll E tmp)) (\<lambda>r f. ?P f \<and> r = Inr ())"
  proof (intro hoare_ignore hoare_removeAll [OF E ne])
    fix f g assume f: "?P f" and g: "fsWF g" "outside {tmp} f g"
    have "framed f0 {src, dst, tmp, thumbDir} g"
      using f g framed_step [of f0 "{src, dst, tmp, thumbDir}" f g] by (auto intro: outside_mono)
    moreover have "sameTree f dst g dst" "sameTree f src g src"
      using dj pre by (auto intro: outside_tree [OF g(2)] simp: replPre_def)
    ultimately show "?P g \<and> Inr () = (Inr () :: (operr, unit) result)" using f by (auto intro: sameTree_trans)
  qed (simp add: framed_def)
qed (auto intro!: hoare_return simp: replPost_def)

lemma replaceConflict_spec:
  assumes E: "envSpec E" and pre: "replPre src (segs dst) (segs (replaceTmp dst uid)) f0"
    and op: "\<And>f1. opPre src (segs dst) f1 \<Longrightarrow> hoare (\<lambda>f. f = f1) doOp (opPost keep src (segs dst) style f1)"
  shows "hoare (\<lambda>f. f = f0) (replaceConflict E uid dst doOp)
    (\<lambda>r f. \<exists>out. r = Inr out \<and> replPost keep src (segs dst) (segs (replaceTmp dst uid)) (replaceTmp dst uid) style f0 out f)"
    (is "hoare _ _ ?Q")
proof -
  let ?d = "segs dst" and ?t = "segs (replaceTmp dst uid)"
  let ?S = "staged src ?d ?t f0" and ?F = "framed f0 {src, ?d, ?t, thumbDir}"
  have dj: "disjoint src ?t" "disjoint ?d ?t" "disjoint ?t thumbDir" using pre by (auto simp: replPre_def)
  have run: "hoare (\<lambda>f. ?S f \<and> opPre src ?d f) (wTry doOp)
      (\<lambda>r f. case r of Inr (Inr _) \<Rightarrow> ?F f \<and> (style \<noteq> ''skip'' \<longrightarrow> sameTree f0 src f ?d) \<and> (keep \<longrightarrow> sameTree f0 src f src) | Inr (Inl _) \<Rightarrow> ?S f | Inl _ \<Rightarrow> False)"
  proof (rule hoare_try)
    show "hoare (\<lambda>f. ?S f \<and> opPre src ?d f) doOp (\<lambda>r f. case Inr r of
        Inr (Inr _) \<Rightarrow> ?F f \<and> (style \<noteq> ''skip'' \<longrightarrow> sameTree f0 src f ?d) \<and> (keep \<longrightarrow> sameTree f0 src f src) | Inr (Inl _) \<Rightarrow> ?S f | Inl _ \<Rightarrow> False)"
      unfolding hoare_def
    proof (intro allI impI)
      fix s r s' assume s: "?S (w_fs s) \<and> opPre src ?d (w_fs s)" and d: "doOp s = Some (r, s')"
      have post: "opPost keep src ?d style (w_fs s) r (w_fs s')" using hoareD [OF op _ d] s by blast
      then have fr: "framed (w_fs s) {src, ?d, thumbDir} (w_fs s')" by (simp add: opPost_def)
      have "?F (w_fs s')" using s fr framed_step [of f0 "{src, ?d, ?t, thumbDir}" "w_fs s" "w_fs s'"]
        by (auto simp: staged_def framed_def intro: outside_mono)
      moreover have "sameTree (w_fs s) ?t (w_fs s') ?t" using dj by (intro framed_tree [OF fr]) (auto intro: disjoint_sym)
      ultimately show "case Inr r of Inr (Inr _) \<Rightarrow> ?F (w_fs s') \<and> (style \<noteq> ''skip'' \<longrightarrow> sameTree f0 src (w_fs s') ?d) \<and> (keep \<longrightarrow> sameTree f0 src (w_fs s') src)
          | Inr (Inl _) \<Rightarrow> ?S (w_fs s') | Inl _ \<Rightarrow> False"
        using s post by (auto simp: staged_def opPost_def intro: sameTree_trans split: sum.splits)
    qed
  qed
  have stage: "hoare (\<lambda>f. f = f0) (wTry (wRename E ?d ?t)) (\<lambda>r f. case r of
      Inr (Inr _) \<Rightarrow> ?S f \<and> opPre src ?d f | Inr (Inl _) \<Rightarrow> f = f0 | Inl _ \<Rightarrow> False)"
    by (rule hoare_try, rule hoare_weaken [OF hoare_stage [OF pre]]) (auto split: sum.splits)
  have wf: "?F f0" using pre by (simp add: replPre_def framed_def outside_refl)
  show ?thesis unfolding replaceConflict_def Let_def
  proof (rule hoare_bind [OF stage], goal_cases)
    case (1 st)
    then show ?case
    proof (cases st)
      case (Inl e)
      then show ?thesis using wf by (auto intro!: hoare_return simp: replPost_def sameTree_refl)
    next
      case (Inr u)
      then show ?thesis
        by (auto intro!: hoare_bind [OF run] hoare_rollback [OF E pre] hoare_commit [OF E pre] simp del: split_paired_Ex split: sum.split)
    qed
  qed simp
qed

end
