(* ===== verification/FileOpsProps.thy ===== *)
theory FileOpsProps
  imports FileOps
begin

text \<open>
  Properties of the file-operation worker: keep-both names, and what one item of a move or copy batch
  does to its source, to an existing destination and to everything else, under every fault and cancellation.
\<close>

section \<open>Keep-both names\<close>

lemma Join_name:
  assumes "rooted a" "segs a = ts" "list_all proper ts" "proper w"
  shows "Join [a, w] = path_of (ts @ [w])"
proof -
  have "segs (Join [a, w]) = ts @ [w]" using segs_Join2 [OF assms(1), of w] comps_proper_name [OF assms(4)] assms by simp
  then show ?thesis using Clean_Join2 [OF assms(1), of w] Clean_rooted [OF rooted_Join2 [OF assms(1), of w]] by simp
qed

lemma segs_dirPrefix: "list_all proper ts \<Longrightarrow> segs (dirPrefix ts) = ts" "rooted (dirPrefix ts)"
proof -
  show "rooted (dirPrefix ts)" using rooted_path_of [of "[]"] rooted_append [OF rooted_path_of [of ts]] by (simp add: dirPrefix_def)
  assume "list_all proper ts"
  then show "segs (dirPrefix ts) = ts"
    using segs_append_slash [of "path_of ts" "[]"] segs_path_of [of ts] by (cases "ts = []") (simp_all add: dirPrefix_def)
qed

lemma noDupFrom_some:
  "noDupFrom f dir stem ext i full = Some p \<Longrightarrow> \<not> Exists f (segs p) \<and> (p = full \<or> (\<exists>k. p = Join [dir, candName stem ext k]))"
proof (erule noDupFrom.raw_induct [rotated])
  fix noDup f dir stem ext i full p
  assume ih: "\<And>f dir stem ext i full p. noDup f dir stem ext i full = Some p
      \<Longrightarrow> \<not> Exists f (segs p) \<and> (p = full \<or> (\<exists>k. p = Join [dir, candName stem ext k]))"
    and run: "(if Exists f (segs full) then noDup f dir stem ext (Suc i) (Join [dir, stem @ ''('' @ Itoa (Suc i) @ '')'' @ ext])
      else Some full) = Some p"
  show "\<not> Exists f (segs p) \<and> (p = full \<or> (\<exists>k. p = Join [dir, candName stem ext k]))"
  proof (cases "Exists f (segs full)")
    case True
    then have "noDup f dir stem ext (Suc i) (Join [dir, stem @ ''('' @ Itoa (Suc i) @ '')'' @ ext]) = Some p" using run by simp
    from ih [OF this] show ?thesis by (auto simp: candName_def)
  qed (use run in simp)
qed

lemma resolveLoop_some:
  "resolveLoop k f dst = Some (Inr p) \<Longrightarrow> CheckNotExist f (segs p) \<and> GetNoDuplicateFileName f dst = Some p"
  by (induction k) (auto split: option.splits if_splits)

lemma resolveRenameTarget_some:
  assumes "list_all proper (ts @ [b])" "resolveRenameTarget f (path_of (ts @ [b])) = Some (Inr p)"
  shows "\<exists>w. proper w \<and> p = path_of (ts @ [w]) \<and> fsGet f (ts @ [w]) = None"
proof -
  have pr: "list_all proper ts" "proper b" "slash \<notin> set b" using assms(1) by (auto simp: proper_def)
  have r: "CheckNotExist f (segs p)" "GetNoDuplicateFileName f (path_of (ts @ [b])) = Some p"
    using resolveLoop_some [OF assms(2) [unfolded resolveRenameTarget_def]] by auto
  have nd: "noDupFrom f (dirPrefix ts) (TrimSuffix b (Ext b)) (Ext b) 0 (path_of (ts @ [b])) = Some p"
    using r(2) by (simp add: GetNoDuplicateFileName_def PathSplit_snoc [OF pr(3)])
  have cand: "proper (candName (TrimSuffix b (Ext b)) (Ext b) k)" for k using base_split [OF pr(3)] by (intro candName_proper) auto
  consider "p = path_of (ts @ [b])" | k where "p = Join [dirPrefix ts, candName (TrimSuffix b (Ext b)) (Ext b) k]"
    using noDupFrom_some [OF nd] by blast
  then obtain w where w: "proper w" "p = path_of (ts @ [w])"
    using pr(1,2) cand Join_name [OF segs_dirPrefix(2) segs_dirPrefix(1) pr(1)] by cases blast+
  then have "segs p = ts @ [w]" using pr(1) by simp
  then show ?thesis using w r(1) by (auto simp: CheckNotExist_def notExist_def)
qed

lemma replaceTmp_path: "replaceTmp (path_of (ts @ [b])) uid = path_of (ts @ [b @ ''.nimoos-replacing-'' @ uid])"
  using path_of_under [of "[b]" ts] path_of_under [of "[b @ ''.nimoos-replacing-'' @ uid]" ts] by (simp add: replaceTmp_def)

lemma replaceTmp_proper: "proper b \<Longrightarrow> slash \<notin> set uid \<Longrightarrow> proper (b @ ''.nimoos-replacing-'' @ uid)"
  by (auto simp: proper_def Cons_eq_append_conv append_eq_Cons_conv)

lemma opDestPath_path:
  assumes "list_all proper (as @ [b])" "list_all proper ts"
  shows "opDestPath (path_of (as @ [b])) (path_of ts) = path_of (ts @ [b])"
  using assms Base_path_of [of b as] Join_name [of "path_of ts" ts b] by (simp add: opDestPath_def)

section \<open>One item\<close>

text \<open>
  The setting of an item: an existing source \<open>as/b\<close>, a target directory \<open>ts\<close> that is not inside it, the thumbnail
  cache elsewhere, and a staging name that nothing uses.
\<close>

definition itemPre :: "string list \<Rightarrow> string \<Rightarrow> string list \<Rightarrow> string \<Rightarrow> fs \<Rightarrow> bool" where
  "itemPre as b ts uid f = (fsWF f \<and> list_all proper (as @ [b]) \<and> list_all proper ts \<and> slash \<notin> set uid
     \<and> fsGet f (as @ [b]) \<noteq> None \<and> fsGet f ts = Some Directory \<and> fsGet f thumbDir \<noteq> None
     \<and> \<not> prefix (as @ [b]) ts \<and> \<not> prefix thumbDir ts \<and> disjoint (as @ [b]) thumbDir
     \<and> disjoint (as @ [b]) (ts @ [b]) \<and> disjoint (ts @ [b]) thumbDir
     \<and> fsGet f (ts @ [b @ ''.nimoos-replacing-'' @ uid]) = None)"

lemma itemPre_free:
  assumes "itemPre as b ts uid f" "fsGet f (ts @ [w]) = None"
  shows "opPre (as @ [b]) (ts @ [w]) f" "disjoint (as @ [b]) (ts @ [w])" "disjoint (ts @ [w]) thumbDir"
proof -
  have wf: "fsWF f" and ex: "fsGet f (as @ [b]) \<noteq> None" "fsGet f thumbDir \<noteq> None" using assms(1) by (auto simp: itemPre_def)
  have up: "\<not> prefix (ts @ [w]) q" if "fsGet f q \<noteq> None" for q
    using that wf_under_none [OF wf assms(2)] by (auto simp: prefix_def)
  have dn: "\<not> prefix q (ts @ [w])" if "fsGet f q \<noteq> None" "\<not> prefix q ts" for q
    using that assms(2) by (auto simp: prefix_snoc)
  show d: "disjoint (as @ [b]) (ts @ [w])" "disjoint (ts @ [w]) thumbDir"
    using up [OF ex(1)] up [OF ex(2)] dn [OF ex(1)] dn [OF ex(2)] assms(1) by (auto simp: disjoint_def itemPre_def)
  show "opPre (as @ [b]) (ts @ [w]) f" using d assms by (simp add: opPre_def itemPre_def)
qed

lemma itemPre_repl:
  assumes "itemPre as b ts uid f" "fsGet f (ts @ [b]) \<noteq> None"
  shows "replPre (as @ [b]) (ts @ [b]) (ts @ [b @ ''.nimoos-replacing-'' @ uid]) f"
  using itemPre_free(2,3) [OF assms(1), of "b @ ''.nimoos-replacing-'' @ uid"] assms
  by (auto simp: replPre_def itemPre_def disjoint_def)

text \<open>
  What an item leaves. Its source is intact or was moved to the recorded path; a created path holds a complete
  copy of the source; an existing destination is intact, or was replaced by a completed item, or is at the
  recorded parked path; every other existing path is unchanged.
\<close>

definition itemPost :: "string list \<Rightarrow> string list \<Rightarrow> string \<Rightarrow> fs \<Rightarrow> itemOut \<Rightarrow> fs \<Rightarrow> bool" where
  "itemPost src dst style f0 out f = (fsWF f
     \<and> (sameTree f0 src f src \<or> (\<exists>x p. io_moved out = Some (x, p) \<and> io_created out = Some p))
     \<and> (\<forall>p. io_created out = Some p \<longrightarrow> style \<noteq> ''skip'' \<longrightarrow> sameTree f0 src f (segs p))
     \<and> (fsGet f0 dst = None \<or> sameTree f0 dst f dst
        \<or> (\<exists>p. io_created out = Some p \<and> segs p = dst \<and> (style = ''replace'' \<or> style = ''overwrite''))
        \<or> (fi_ParkedPath (io_item out) \<noteq> [] \<and> sameTree f0 dst f (segs (fi_ParkedPath (io_item out)))))
     \<and> (\<forall>q. fsGet f0 q \<noteq> None \<longrightarrow> \<not> prefix src q \<longrightarrow> \<not> prefix dst q \<longrightarrow> \<not> prefix thumbDir q \<longrightarrow> fsGet f q = fsGet f0 q))"

lemma itemPost_keep:
  "fsWF f0 \<Longrightarrow> itemPost src dst style f0 (keepItem v) f0"
  by (simp add: itemPost_def keepItem_def sameTree_refl)

lemma framed_existing:
  assumes "framed f0 K f" "\<And>p. p \<in> K \<Longrightarrow> fsGet f0 p = None \<or> p = src \<or> p = dst \<or> p = thumbDir" "fsWF f0"
    "fsGet f0 q \<noteq> None" "\<not> prefix src q" "\<not> prefix dst q" "\<not> prefix thumbDir q"
  shows "fsGet f q = fsGet f0 q"
proof -
  have "\<not> prefix p q" if "p \<in> K" for p
    using assms(2) [OF that] assms(4-7) wf_under_none [OF assms(3), of p] by (auto simp: prefix_def)
  then show ?thesis using assms(1) by (simp add: framed_def outside_def)
qed

text \<open>A completed or failed move or copy to a free path is a correct item outcome.\<close>

lemma itemPost_free:
  assumes wf: "fsWF f0" and free: "fsGet f0 p = None" and fr: "framed f0 {src, p, thumbDir} f"
    and dst: "fsGet f0 dst = None \<or> disjoint src dst \<and> disjoint dst thumbDir \<and> disjoint dst p"
    and src: "sameTree f0 src f src \<or> (\<exists>x y. io_moved out = Some (x, y) \<and> io_created out = Some y)"
    and new: "\<And>y. io_created out = Some y \<Longrightarrow> style \<noteq> ''skip'' \<Longrightarrow> sameTree f0 src f (segs y)"
  shows "itemPost src dst style f0 out f"
proof -
  have "sameTree f0 dst f dst" if ex: "fsGet f0 dst \<noteq> None"
    using dst ex by (intro framed_tree [OF fr]) (auto intro: disjoint_sym)
  then show ?thesis
    using framed_existing [OF fr, of src dst] wf free src new fr unfolding itemPost_def framed_def by blast
qed

text \<open>The setting of a move or copy to the free path \<open>y\<close> for a destination \<open>dst\<close>.\<close>

definition freeFor :: "string list \<Rightarrow> string list \<Rightarrow> string \<Rightarrow> fs \<Rightarrow> bool" where
  "freeFor src dst y f = (opPre src (segs y) f
     \<and> (fsGet f dst = None \<or> disjoint src dst \<and> disjoint dst thumbDir \<and> disjoint dst (segs y)))"

definition itemOk :: "string list \<Rightarrow> string list \<Rightarrow> string \<Rightarrow> fs \<Rightarrow> (operr, itemOut) result \<Rightarrow> fs \<Rightarrow> bool" where
  "itemOk src dst style f0 r f = (\<exists>out. r = Inr out \<and> itemPost src dst style f0 out f)"

lemma failItem_ok:
  assumes "\<And>f c. P f \<Longrightarrow> itemPost src dst style f0 ((keepItem v)\<lparr>io_cancelled := c\<rparr>) f"
  shows "hoare P (failItem v) (itemOk src dst style f0)"
  unfolding failItem_def
  by (rule hoare_bind [where Q = "\<lambda>r f. P f \<and> (\<exists>c. r = Inr c)"]) (auto intro!: hoare_ctx hoare_return simp: itemOk_def assms)

lemma moveTo_ok:
  assumes E: "envSpec E" and pre: "freeFor src dst y f0" and v: "segs (fi_From v) = src"
  shows "hoare (\<lambda>f. f = f0) (moveTo n E v y style) (itemOk src dst style f0)"
  unfolding moveTo_def
proof (rule hoare_bind)
  have op: "opPre src (segs y) f0" using pre by (simp add: freeFor_def)
  show "hoare (\<lambda>f. f = f0) (wTry (moveItem n E (fi_From v) y style))
      (\<lambda>r f. \<exists>q. r = Inr q \<and> opPost False src (segs y) style f0 q f)"
    by (rule hoare_try, rule hoare_weaken [OF moveItem_spec [OF E, of "fi_From v" y f0 n style]]) (auto simp: v op)
  fix r :: "(operr, bool) result"
  have post: "itemPost src dst style f0 out f"
    if p: "opPost False src (segs y) style f0 r f" and o: "case r of Inr u \<Rightarrow> out = movedItem v y u | Inl _ \<Rightarrow> \<exists>c. out = (keepItem v)\<lparr>io_cancelled := c\<rparr>" for out f
    by (rule itemPost_free [of _ "segs y"])
       (use p o op pre in \<open>auto simp: opPost_def opPre_def freeFor_def movedItem_def keepItem_def split: sum.splits\<close>)
  show "hoare (\<lambda>f. \<exists>q. Inr r = Inr q \<and> opPost False src (segs y) style f0 q f)
     (case r of Inl e \<Rightarrow> failItem v | Inr u \<Rightarrow> wReturn (movedItem v y u)) (itemOk src dst style f0)"
    by (cases r) (auto intro!: failItem_ok hoare_return post simp: itemOk_def)
qed auto

lemma copyTo_ok:
  assumes E: "envSpec E" and pre: "freeFor src dst y f0"
    and cp: "copy = CopyDirContents n E src (segs y) style"
  shows "hoare (\<lambda>f. f = f0) (copyTo E v y copy) (itemOk src dst style f0)"
  unfolding copyTo_def
proof (rule hoare_bind)
  let ?D = "framed f0 {segs y, thumbDir}"
  have op: "opPre src (segs y) f0" using pre by (simp add: freeFor_def)
  have ne: "segs y \<noteq> []" using op by (auto simp: opPre_def disjoint_def)
  show "hoare (\<lambda>f. f = f0) (wTry copy)
      (\<lambda>r f. \<exists>q. r = Inr q \<and> ?D f \<and> (q = Inr () \<longrightarrow> style \<noteq> ''skip'' \<longrightarrow> sameTree f0 src f (segs y)))"
    unfolding cp
    by (rule hoare_try, rule hoare_weaken [OF hoare_copy [OF E op]]) (use op in \<open>auto simp: opPre_def framed_def outside_refl\<close>)
  have post: "itemPost src dst style f0 out f"
    if "?D f" "io_created out = None \<or> io_created out = Some y \<and> (style \<noteq> ''skip'' \<longrightarrow> sameTree f0 src f (segs y))" for out f
    by (rule itemPost_free [of _ "segs y"])
       (use that op pre opPre_src [OF op] in \<open>auto simp: opPre_def freeFor_def intro: framed_mono\<close>)
  have clean: "hoare ?D (wIgnore (wRemoveAll E (segs y))) (\<lambda>r f. ?D f \<and> r = Inr ())"
    by (intro hoare_ignore hoare_removeAll [OF E ne]) (auto intro: framed_removed framed_wf)
  have fail: "hoare ?D (wBind wCtxErr (\<lambda>c. if c then wBind (wIgnore (wRemoveAll E (segs y))) (\<lambda>_. wReturn ((keepItem v)\<lparr>io_cancelled := True\<rparr>))
      else wReturn (keepItem v))) (itemOk src dst style f0)"
  proof (rule hoare_bind [where Q = "\<lambda>r f. ?D f \<and> (\<exists>c. r = Inr c)"])
    have "hoare ?D (wBind (wIgnore (wRemoveAll E (segs y))) (\<lambda>_. wReturn ((keepItem v)\<lparr>io_cancelled := True\<rparr>))) (itemOk src dst style f0)"
      by (rule hoare_bind [OF clean]) (auto intro!: hoare_return post simp: itemOk_def keepItem_def)
    then show "hoare (\<lambda>f. ?D f \<and> (\<exists>d. Inr c = (Inr d :: (operr, bool) result)))
        (if c then wBind (wIgnore (wRemoveAll E (segs y))) (\<lambda>_. wReturn ((keepItem v)\<lparr>io_cancelled := True\<rparr>))
         else wReturn (keepItem v)) (itemOk src dst style f0)" for c
      by (auto intro!: hoare_return post simp: itemOk_def keepItem_def)
  qed (auto intro!: hoare_ctx)
  fix r :: "(operr, unit) result"
  show "hoare (\<lambda>f. \<exists>q. Inr r = Inr q \<and> ?D f \<and> (q = Inr () \<longrightarrow> style \<noteq> ''skip'' \<longrightarrow> sameTree f0 src f (segs y)))
     (case r of Inl e \<Rightarrow> wBind wCtxErr (\<lambda>c. if c then wBind (wIgnore (wRemoveAll E (segs y))) (\<lambda>_. wReturn ((keepItem v)\<lparr>io_cancelled := True\<rparr>))
                                   else wReturn (keepItem v))
      | Inr _ \<Rightarrow> wReturn (copiedItem v y)) (itemOk src dst style f0)"
  proof (cases r)
    case (Inl e) then show ?thesis by (auto intro: hoare_weaken [OF fail])
  next
    case (Inr u)
    have "itemOk src dst style f0 (Inr (copiedItem v y)) f" if "?D f" "style \<noteq> ''skip'' \<longrightarrow> sameTree f0 src f (segs y)" for f
      using post [OF that(1), of "copiedItem v y"] that(2) by (simp add: itemOk_def copiedItem_def)
    then show ?thesis using Inr by (auto intro!: hoare_return)
  qed
qed auto

lemma replace_ok:
  assumes E: "envSpec E" and pre: "itemPre as b ts uid f0" "fsGet f0 (ts @ [b]) \<noteq> None"
    and op: "\<And>f1. opPre (as @ [b]) (ts @ [b]) f1 \<Longrightarrow> hoare (\<lambda>f. f = f1) doOp (opPost keep (as @ [b]) (ts @ [b]) style f1)"
    and st: "style = ''replace'' \<or> style = ''overwrite''"
    and k: "\<And>u. io_created (k u) = Some (path_of (ts @ [b]))"
      "\<And>u. keep \<or> (\<exists>x. io_moved (k u) = Some (x, path_of (ts @ [b])))"
  shows "hoare (\<lambda>f. f = f0) (wBind (replaceConflict E uid (path_of (ts @ [b])) doOp) (\<lambda>(parked, r).
      case r of Inl e \<Rightarrow> failItem (parkItem v parked) | Inr u \<Rightarrow> wReturn (k u)))
    (itemOk (as @ [b]) (ts @ [b]) style f0)"
proof -
  let ?s = "as @ [b]" and ?d = "ts @ [b]" and ?t = "ts @ [b @ ''.nimoos-replacing-'' @ uid]"
  have pr: "list_all proper ts" "proper b" "slash \<notin> set uid" "fsWF f0" using pre(1) by (auto simp: itemPre_def)
  have sg: "segs (path_of ?d) = ?d" "segs (path_of ?t) = ?t" using pr replaceTmp_proper [of b uid] by simp_all
  have tp: "path_of ?t \<noteq> []" by (simp add: path_of_def)
  have rp: "replPre ?s ?d ?t f0" by (rule itemPre_repl [OF pre])
  have free: "fsGet f0 ?t = None" using rp by (simp add: replPre_def)
  have post: "itemPost ?s ?d style f0 out f"
    if p: "replPost keep ?s ?d ?t (path_of ?t) style f0 (pk, r) f"
      and o: "case r of Inl _ \<Rightarrow> \<exists>c. out = (keepItem (parkItem v pk))\<lparr>io_cancelled := c\<rparr> | Inr u \<Rightarrow> out = k u" for pk r out f
  proof -
    have fr: "framed f0 {?s, ?d, ?t, thumbDir} f" using p by (simp add: replPost_def)
    have ex: "fsGet f q = fsGet f0 q" if "fsGet f0 q \<noteq> None" "\<not> prefix ?s q" "\<not> prefix ?d q" "\<not> prefix thumbDir q" for q
      by (rule framed_existing [OF fr, of ?s ?d]) (use free that pr in auto)
    show ?thesis
    proof (cases r)
      case (Inl e)
      then have s: "sameTree f0 ?s f ?s" "sameTree f0 ?d f ?d \<or> pk = path_of ?t \<and> sameTree f0 ?d f ?t"
        using p by (auto simp: replPost_def)
      have "io_created out = None" "pk = path_of ?t \<Longrightarrow> fi_ParkedPath (io_item out) = path_of ?t"
        using o Inl tp by (auto simp: keepItem_def parkItem_def)
      then show ?thesis using s ex framed_wf [OF fr] sg(2) tp unfolding itemPost_def by auto
    next
      case (Inr u)
      then show ?thesis using p o ex framed_wf [OF fr] sg(1) k st unfolding itemPost_def replPost_def by force
    qed
  qed
  show ?thesis
  proof (rule hoare_bind)
    show "hoare (\<lambda>f. f = f0) (replaceConflict E uid (path_of ?d) doOp)
        (\<lambda>r f. \<exists>out. r = Inr out \<and> replPost keep ?s ?d ?t (path_of ?t) style f0 out f)"
      using replaceConflict_spec [OF E, of ?s "path_of ?d" uid f0 doOp keep style, unfolded replaceTmp_path sg] rp op by blast
    fix out
    show "hoare (\<lambda>f. \<exists>o'. Inr out = (Inr o' :: (operr, string \<times> (operr, 'a) result) result) \<and> replPost keep ?s ?d ?t (path_of ?t) style f0 o' f)
      (case out of (parked, r) \<Rightarrow> case r of Inl e \<Rightarrow> failItem (parkItem v parked) | Inr u \<Rightarrow> wReturn (k u)) (itemOk ?s ?d style f0)"
      by (cases out, cases "snd out") (auto intro!: failItem_ok hoare_return post simp: itemOk_def)
  qed auto
qed

lemma itemPre_freeFor:
  assumes pre: "itemPre as b ts uid f0" and w: "proper w" "fsGet f0 (ts @ [w]) = None"
  shows "freeFor (as @ [b]) (ts @ [b]) (path_of (ts @ [w])) f0"
proof -
  have "segs (path_of (ts @ [w])) = ts @ [w]" using pre w by (simp add: itemPre_def)
  moreover have "disjoint (ts @ [b]) (ts @ [w])" if "fsGet f0 (ts @ [b]) \<noteq> None" using that w(2) by (auto simp: disjoint_def)
  ultimately show ?thesis using itemPre_free [OF pre w(2)] pre
    by (cases "fsGet f0 (ts @ [b]) = None") (simp_all add: freeFor_def itemPre_def)
qed

lemma hoare_copy_post:
  assumes E: "envSpec E" and pre: "opPre src dst f1"
  shows "hoare (\<lambda>f. f = f1) (CopyDirContents n E src dst style) (opPost True src dst style f1)"
proof (rule hoare_weaken [OF hoare_copy [OF E pre]])
  show "framed f1 {thumbDir} f" if "f = f1" for f using that pre by (simp add: framed_def opPre_def outside_refl)
  show "opPost True src dst style f1 r f"
    if "framed f1 {dst, thumbDir} f \<and> (r = Inr () \<longrightarrow> style \<noteq> ''skip'' \<longrightarrow> sameTree f1 src f dst)" for r f
    using that opPre_src [OF pre] by (auto simp: opPost_def intro: framed_mono split: sum.splits)
qed

lemma free_sibling:
  assumes wf: "fsWF f" and dir: "fsGet f ts = Some Directory"
  shows "\<not> blocked f (ts @ [w])"
proof
  assume "blocked f (ts @ [w])"
  then obtain q where q: "strict_prefix q (ts @ [w])" "isFile (fsGet f q)" by (auto simp: blocked_iff)
  then have "prefix q ts" by (auto simp: strict_prefix_def prefix_snoc)
  then have "fsGet f q = Some Directory" using wf_ancestor [OF wf, of ts q] dir by (cases "q = ts") (auto simp: strict_prefix_def)
  then show False using q(2) by simp
qed

lemma notExist_dst:
  "itemPre as b ts uid f0 \<Longrightarrow> CheckNotExist f0 (ts @ [b]) \<longleftrightarrow> fsGet f0 (ts @ [b]) = None"
  using free_sibling [of f0 ts b] by (simp add: CheckNotExist_def notExist_def itemPre_def)

lemma operateMove_ok:
  assumes E: "envSpec E" and pre: "itemPre as b ts uid f0" and v: "fi_From v = path_of (as @ [b])"
  shows "hoare (\<lambda>f. f = f0) (operateMove n E uid (path_of ts) style v) (itemOk (as @ [b]) (ts @ [b]) style f0)"
proof -
  let ?s = "as @ [b]" and ?d = "ts @ [b]"
  have pr: "list_all proper ?s" "list_all proper ts" "proper b" "fsWF f0" "list_all proper ?d" using pre by (auto simp: itemPre_def)
  have sg: "segs (path_of ?s) = ?s" "segs (path_of ?d) = ?d" using pr by simp_all
  have dst: "opDestPath (fi_From v) (path_of ts) = path_of ?d" using opDestPath_path pr v by simp
  have keep: "itemOk ?s ?d st f0 (Inr (keepItem v')) f0" for st v' using itemPost_keep [OF pr(4)] by (auto simp: itemOk_def)
  have move: "hoare (\<lambda>f. f = f0) (moveTo n E v (path_of (ts @ [w])) style) (itemOk ?s ?d style f0)"
    if "proper w" "fsGet f0 (ts @ [w]) = None" for w
    by (rule moveTo_ok [OF E itemPre_freeFor [OF pre that]]) (simp add: v sg)
  have repl: "hoare (\<lambda>f. f = f0) (wBind (replaceConflict E uid (path_of ?d) (moveItem n E (fi_From v) (path_of ?d) style)) (\<lambda>(parked, r).
        case r of Inl e \<Rightarrow> failItem (parkItem v parked) | Inr u \<Rightarrow> wReturn (movedItem v (path_of ?d) u))) (itemOk ?s ?d style f0)"
    if ex: "fsGet f0 ?d \<noteq> None" and st: "style = ''replace'' \<or> style = ''overwrite''"
    by (rule replace_ok [OF E pre ex _ st, where keep = False])
       (use moveItem_spec [OF E, of "fi_From v" "path_of ?d"] in \<open>auto simp: v sg movedItem_def\<close>)
  have ren: "hoare (\<lambda>f. f = f0) (case resolveRenameTarget f0 (path_of ?d) of None \<Rightarrow> (\<lambda>_. None)
      | Some (Inl e) \<Rightarrow> wReturn (keepItem v) | Some (Inr p) \<Rightarrow> moveTo n E v p style) (itemOk ?s ?d style f0)"
    by (auto intro!: hoare_diverge hoare_return keep split: option.split sum.split dest!: resolveRenameTarget_some [OF pr(5)] intro: move)
  show ?thesis unfolding operateMove_def dst Let_def
  proof (rule hoare_bind [where Q = "\<lambda>r f. r = Inr f0 \<and> f = f0"])
    show "hoare (\<lambda>f. f = f0) wFs (\<lambda>r f. r = Inr f0 \<and> f = f0)" by (rule hoare_fs) simp
    show "hoare (\<lambda>f. Inr x = (Inr f0 :: (operr, fs) result) \<and> f = f0)
      (if CheckNotExist x (segs (path_of ?d)) then moveTo n E v (path_of ?d) style
       else if style = ''skip'' then wReturn (keepItem (v\<lparr>fi_Finished := True\<rparr>))
       else if style = ''replace'' \<or> style = ''overwrite''
       then wBind (replaceConflict E uid (path_of ?d) (moveItem n E (fi_From v) (path_of ?d) style))
             (\<lambda>(parked, r). case r of Inl e \<Rightarrow> failItem (parkItem v parked) | Inr u \<Rightarrow> wReturn (movedItem v (path_of ?d) u))
       else if style = ''rename''
       then case resolveRenameTarget x (path_of ?d) of None \<Rightarrow> \<lambda>_. None | Some (Inl e) \<Rightarrow> wReturn (keepItem v)
             | Some (Inr p) \<Rightarrow> moveTo n E v p style
       else wReturn (keepItem (v\<lparr>fi_Finished := True\<rparr>))) (itemOk ?s ?d style f0)" for x
    proof (cases "x = f0")
      case True
      have 1: "hoare (\<lambda>f. f = f0) (moveTo n E v (path_of ?d) style) (itemOk ?s ?d style f0)" if "CheckNotExist f0 ?d"
        using move pr(3) that notExist_dst [OF pre] by simp
      have 2: "fsGet f0 ?d \<noteq> None" if "\<not> CheckNotExist f0 ?d" using that notExist_dst [OF pre] by simp
      show ?thesis unfolding True sg
        by (intro hoare_if; (rule hoare_weaken [OF 1] | rule hoare_weaken [OF repl] | rule hoare_weaken [OF ren] | rule hoare_return)) (auto simp: 2 keep)
    qed (simp add: hoare_def)
  qed auto
qed

lemma operateCopy_ok:
  assumes E: "envSpec E" and pre: "itemPre as b ts uid f0" and v: "fi_From v = path_of (as @ [b])"
  shows "hoare (\<lambda>f. f = f0) (operateCopy n E uid (path_of ts) style v) (itemOk (as @ [b]) (ts @ [b]) style f0)"
proof -
  let ?s = "as @ [b]" and ?d = "ts @ [b]"
  have pr: "list_all proper ?s" "list_all proper ts" "proper b" "fsWF f0" "list_all proper ?d" using pre by (auto simp: itemPre_def)
  have sg: "segs (path_of ?s) = ?s" "segs (path_of ?d) = ?d" "segs (path_of ts) = ts" using pr by simp_all
  have dst: "opDestPath (fi_From v) (path_of ts) = path_of ?d" using opDestPath_path pr v by simp
  have cd: "CopyDir n E (segs (fi_From v)) (segs (path_of ts)) style = CopyDirContents n E ?s ?d style" by (simp add: CopyDir_def v sg)
  have keep: "itemOk ?s ?d st f0 (Inr (keepItem v')) f0" for st v' using itemPost_keep [OF pr(4)] by (auto simp: itemOk_def)
  have cp: "hoare (\<lambda>f. f = f0) (copyTo E v (path_of (ts @ [w])) (CopyDirContents n E ?s (segs (path_of (ts @ [w]))) style)) (itemOk ?s ?d style f0)"
    if "proper w" "fsGet f0 (ts @ [w]) = None" for w
    by (rule copyTo_ok [OF E itemPre_freeFor [OF pre that] refl])
  have repl: "hoare (\<lambda>f. f = f0) (wBind (replaceConflict E uid (path_of ?d) (CopyDirContents n E ?s ?d style)) (\<lambda>(parked, r).
        case r of Inl e \<Rightarrow> failItem (parkItem v parked) | Inr u \<Rightarrow> wReturn (copiedItem v (path_of ?d)))) (itemOk ?s ?d style f0)"
    if ex: "fsGet f0 ?d \<noteq> None" and st: "style = ''replace'' \<or> style = ''overwrite''"
    by (rule replace_ok [OF E pre ex _ st, where keep = True]) (auto intro: hoare_copy_post [OF E] simp: copiedItem_def)
  have ren: "hoare (\<lambda>f. f = f0) (case resolveRenameTarget f0 (path_of ?d) of None \<Rightarrow> (\<lambda>_. None)
      | Some (Inl e) \<Rightarrow> wReturn (keepItem v)
      | Some (Inr p) \<Rightarrow> copyTo E v p (CopyDirContents n E (segs (fi_From v)) (segs p) style)) (itemOk ?s ?d style f0)"
    unfolding v sg
    by (auto intro!: hoare_diverge hoare_return keep split: option.split sum.split dest!: resolveRenameTarget_some [OF pr(5)] intro: cp)
  show ?thesis unfolding operateCopy_def dst Let_def cd
  proof (rule hoare_bind [where Q = "\<lambda>r f. r = Inr f0 \<and> f = f0"])
    show "hoare (\<lambda>f. f = f0) wFs (\<lambda>r f. r = Inr f0 \<and> f = f0)" by (rule hoare_fs) simp
    show "hoare (\<lambda>f. Inr x = (Inr f0 :: (operr, fs) result) \<and> f = f0)
      (if CheckNotExist x (segs (path_of ?d)) then copyTo E v (path_of ?d) (CopyDirContents n E ?s ?d style)
       else if style = ''skip'' then wReturn (keepItem v)
       else if style = ''replace'' \<or> style = ''overwrite''
       then wBind (replaceConflict E uid (path_of ?d) (CopyDirContents n E ?s ?d style))
             (\<lambda>(parked, r). case r of Inl e \<Rightarrow> failItem (parkItem v parked) | Inr u \<Rightarrow> wReturn (copiedItem v (path_of ?d)))
       else if style = ''rename''
       then case resolveRenameTarget x (path_of ?d) of None \<Rightarrow> \<lambda>_. None | Some (Inl e) \<Rightarrow> wReturn (keepItem v)
             | Some (Inr p) \<Rightarrow> copyTo E v p (CopyDirContents n E (segs (fi_From v)) (segs p) style)
       else wReturn (keepItem v)) (itemOk ?s ?d style f0)" for x
    proof (cases "x = f0")
      case True
      have 1: "hoare (\<lambda>f. f = f0) (copyTo E v (path_of ?d) (CopyDirContents n E ?s ?d style)) (itemOk ?s ?d style f0)" if "CheckNotExist f0 ?d"
        using cp [of b] pr(3) that notExist_dst [OF pre] sg(2) by simp
      have 2: "fsGet f0 ?d \<noteq> None" if "\<not> CheckNotExist f0 ?d" using that notExist_dst [OF pre] by simp
      show ?thesis unfolding True sg
        by (intro hoare_if; (rule hoare_weaken [OF 1] | rule hoare_weaken [OF repl] | rule hoare_weaken [OF ren] | rule hoare_return)) (auto simp: 2 keep)
    qed (simp add: hoare_def)
  qed auto
qed


lemma run_Inr:
  "(case m of Some (Inr x, s) \<Rightarrow> P x s | _ \<Rightarrow> False) \<Longrightarrow> \<exists>x s. m = Some (Inr x, s) \<and> P x s"
  by (cases m; cases "fst (the m)") (auto split: prod.splits)

text \<open>A machine without \<^verbatim>\<open>cp\<close>, with one file system per top-level directory.\<close>

definition demoEnv :: env where
  "demoEnv = \<lparr>e_cp = \<lambda>f src dst. (False, f), e_rm = \<lambda>f p. f, e_xdev = \<lambda>p q. take 1 p \<noteq> take 1 q, e_thumb = \<lambda>f p. ''k''\<rparr>"

lemma demoEnv_ok: "envSpec demoEnv" "cpSpec demoEnv"
  by (simp_all add: envSpec_def cpSpec_def demoEnv_def copyStep_refl outside_refl)

definition demoFs :: fs where
  "demoFs = [([''DATA''], Directory), ([''DATA'', ''.system_data''], Directory), ([''DATA'', ''.system_data'', ''thumb-cache''], Directory),
     ([''s''], Directory), ([''s'', ''x''], Directory), ([''s'', ''x'', ''f''], RegularFile ''new''),
     ([''d''], Directory), ([''d'', ''x''], RegularFile ''old'')]"

definition demoWorker :: ows where
  "demoWorker = \<lparr>w_fs = demoFs, w_faults = [], w_ctx = []\<rparr>"

definition demoOverwrite :: FileOperate where
  "demoOverwrite = \<lparr>fo_Type = ''move'', fo_Item = [\<lparr>fi_From = ''/s/x'', fi_Finished = False, fi_Size = 3, fi_ProcessedSize = 0, fi_ParkedPath = []\<rparr>],
     fo_TotalSize = 3, fo_ProcessedSize = 0, fo_To = ''/d'', fo_Style = ''overwrite'', fo_Finished = False, fo_Cancelled = False\<rparr>"

lemma demo_itemPre: "itemPre [''s''] ''x'' [''d''] ''1'' demoFs"
  unfolding itemPre_def disjoint_def by (intro conjI) code_simp+


section \<open>Copies end and are complete\<close>


lemma demo_copyPre: "copyPre [''s'', ''x''] [''d'', ''y''] demoFs"
proof -
  have a: "fsWF demoFs" "disjoint [''s'', ''x''] [''d'', ''y'']" "fsGet demoFs [''d'', ''y''] = None"
    "fsGet demoFs [''s'', ''x''] = Some Directory" "fsGet demoFs [''d''] = Some Directory" unfolding disjoint_def by code_simp+
  then show ?thesis using wf_under_none [OF a(1,3)] by (simp add: copyPre_def kindSub_def)
qed

lemma depth_bound:
  assumes "fsWF f" "list_all (\<lambda>e. length (fst e) < length src + n) f" "0 < n" "src \<noteq> []"
  shows "\<forall>q. fsGet f (src @ q) \<noteq> None \<longrightarrow> length q < n"
proof (intro allI impI)
  fix q assume "fsGet f (src @ q) \<noteq> None"
  then obtain x where "(src @ q, x) \<in> set f" using assms(4) by (auto simp: fsGet_def dest: map_of_SomeD)
  then show "length q < n" using assms(2) by (auto simp: list_all_iff)
qed


text \<open>A file system whose only entries form a chain of directories named \<open>a\<close>.\<close>

definition onlyChain :: "nat \<Rightarrow> fs \<Rightarrow> bool" where
  "onlyChain k f = (fsWF f \<and> (\<forall>q. fsGet f q = (if \<exists>j \<le> k. q = replicate j ''a'' then Some Directory else None)))"

lemma dirNames_distinct: "fsWF f \<Longrightarrow> distinct (dirNames f p)"
proof -
  assume "fsWF f"
  then have d: "distinct (map fst (filter (\<lambda>e. fst e \<noteq> [] \<and> butlast (fst e) = p) f))"
    by (simp add: fsWF_sem distinct_map_filter)
  moreover have "inj_on last {k. k \<noteq> [] \<and> butlast k = p}"
    by (auto simp: inj_on_def) (metis append_butlast_last_id)
  ultimately have "distinct (map last (map fst (filter (\<lambda>e. fst e \<noteq> [] \<and> butlast (fst e) = p) f)))"
    by (subst distinct_map) (auto intro: inj_on_subset)
  then show ?thesis by (simp add: dirNames_def comp_def)
qed

lemma onlyChain_names:
  assumes "onlyChain (Suc k) f" shows "dirNames f (replicate k ''a'') = [''a'']"
proof -
  have wf: "fsWF f" using assms by (simp add: onlyChain_def)
  have "x \<in> set (dirNames f (replicate k ''a'')) \<longleftrightarrow> x = ''a''" for x
  proof -
    have "(\<exists>j \<le> Suc k. replicate k ''a'' @ [x] = replicate j ''a'') \<longleftrightarrow> x = ''a''"
    proof
      assume "\<exists>j \<le> Suc k. replicate k ''a'' @ [x] = replicate j ''a''"
      then obtain j where "replicate k ''a'' @ [x] = replicate j ''a''" by blast
      then have "x \<in> set (replicate j ''a'')" by (metis in_set_conv_decomp)
      then show "x = ''a''" by auto
    next
      assume "x = ''a''"
      then have "replicate k ''a'' @ [x] = replicate (Suc k) ''a''" by (simp add: replicate_append_same)
      then show "\<exists>j \<le> Suc k. replicate k ''a'' @ [x] = replicate j ''a''" by blast
    qed
    then show ?thesis using mem_dirNames [OF wf] assms by (simp add: onlyChain_def)
  qed
  then have "set (dirNames f (replicate k ''a'')) = {''a''}" by blast
  with dirNames_distinct [OF wf, of "replicate k ''a''"] show ?thesis
    by (cases "dirNames f (replicate k ''a'')"; cases "tl (dirNames f (replicate k ''a''))") auto
qed

lemma onlyChain_mkdir:
  assumes c: "onlyChain k f"
  shows "\<exists>g. fsMkdirAll f (replicate (Suc k) ''a'') = Inr g \<and> onlyChain (Suc k) g"
proof -
  have wf: "fsWF f" using c by (simp add: onlyChain_def)
  have nofile: "\<not> isFile (fsGet f q)" for q using c by (auto simp: onlyChain_def isFile_def)
  then obtain g where g: "fsMkdirAll f (replicate (Suc k) ''a'') = Inr g" by (auto simp: fsMkdirAll_def blocked_iff)
  have pre: "prefix q (replicate (Suc k) ''a'') \<longleftrightarrow> (\<exists>j \<le> Suc k. q = replicate j ''a'')" for q
  proof
    assume "prefix q (replicate (Suc k) ''a'')"
    then obtain r where r: "replicate (Suc k) ''a'' = q @ r" by (auto simp: prefix_def simp del: replicate_Suc)
    have len: "length q \<le> Suc k" using arg_cong [OF r, of length] by simp
    have "q = take (length q) (q @ r)" by simp
    also have "\<dots> = replicate (length q) ''a''" unfolding r [symmetric] using len by (simp only: take_replicate min_absorb1)
    finally show "\<exists>j \<le> Suc k. q = replicate j ''a''" using len by blast
  next
    assume "\<exists>j \<le> Suc k. q = replicate j ''a''"
    then obtain j where "j \<le> Suc k" "q = replicate j ''a''" by blast
    then have "replicate (Suc k) ''a'' = q @ replicate (Suc k - j) ''a''" by (metis le_add_diff_inverse replicate_add)
    then show "prefix q (replicate (Suc k) ''a'')" by (metis prefixI)
  qed
  have "fsGet g q = (if \<exists>j \<le> Suc k. q = replicate j ''a'' then Some Directory else None)" for q
    using fsMkdirAll_get [OF g, of q] c unfolding onlyChain_def pre by (auto simp: le_Suc_eq)
  then have "onlyChain (Suc k) g" using fsMkdirAll_wf [OF wf g] by (simp add: onlyChain_def)
  then show ?thesis using g by blast
qed

lemma copy_descends:
  "onlyChain k (w_fs s) \<Longrightarrow> w_faults s = [] \<Longrightarrow> w_ctx s = [] \<Longrightarrow>
   style \<noteq> ''skip'' \<Longrightarrow> CopyDirContents n demoEnv (replicate k ''a'') (replicate (Suc k) ''a'') style s = None"
proof (induction n arbitrary: k s)
  case (Suc n)
  obtain g where g: "fsMkdirAll (w_fs s) (replicate (Suc k) ''a'') = Inr g" "onlyChain (Suc k) g"
    using onlyChain_mkdir [OF Suc.prems(1)] by blast
  have src: "fsGet (w_fs s) (replicate k ''a'') = Some Directory" using Suc.prems(1) by (auto simp: onlyChain_def)
  have srcg: "fsGet g (replicate k ''a'') = Some Directory" using g(2) by (auto simp: onlyChain_def)
  have child: "fsGet g (replicate k ''a'' @ [''a'']) = Some Directory"
    using g(2) unfolding onlyChain_def by (auto simp: replicate_append_same intro!: exI [of _ "Suc k"])
  let ?s1 = "s\<lparr>w_fs := g, w_faults := []\<rparr>"
  have rd: "ReadDir (replicate k ''a'') g = Inr [(''a'', True)]"
    using onlyChain_names [OF g(2)] child srcg by (simp add: ReadDir_def)
  have "CopyDirContents n demoEnv (replicate (Suc k) ''a'') (replicate (Suc (Suc k)) ''a'') style ?s1 = None"
    using Suc.IH [of "Suc k" ?s1] g(2) Suc.prems by simp
  then show ?case
    using Suc.prems g(1) src rd
    by (simp add: wBind_def wFs_def wCtxErr_def RunCopyCommand_def demoEnv_def wDo_def wGet_def Let_def replicate_append_same
        flip: replicate_Suc)
qed simp

text \<open>
  Copying a directory into itself never returns once \<^verbatim>\<open>cp\<close> has refused it: the fallback creates the target inside the
  directory it is about to list and descends into it for ever, for every amount of fuel.
\<close>

theorem copy_into_itself_never_returns:
  "\<forall>n. CopyDir n demoEnv [''a''] [''a''] ''overwrite'' \<lparr>w_fs = [([''a''], Directory)], w_faults = [], w_ctx = []\<rparr> = None"
proof
  fix n
  let ?s = "\<lparr>w_fs = [([''a''], Directory)], w_faults = [], w_ctx = []\<rparr> :: ows"
  have "onlyChain 1 [([''a''], Directory)]"
  proof -
    have "(\<exists>j \<le> (1 :: nat). q = replicate j ''a'') \<longleftrightarrow> q = [] \<or> q = [''a'']" for q
      by (auto simp: le_Suc_eq intro: exI [of _ "0 :: nat"] exI [of _ "1 :: nat"])
    then show ?thesis unfolding onlyChain_def by (auto simp: fsGet_def fsWF_def)
  qed
  then have "CopyDirContents n demoEnv (replicate 1 ''a'') (replicate (Suc 1) ''a'') ''overwrite'' ?s = None"
    by (intro copy_descends) simp_all
  then show "CopyDir n demoEnv [''a''] [''a''] ''overwrite'' ?s = None" by (simp add: CopyDir_def)
qed

text \<open>An environment whose \<^verbatim>\<open>cp\<close> breaks off after the first byte, and a copy with style \<open>skip\<close>.\<close>

definition brokenCp :: env where
  "brokenCp = demoEnv\<lparr>e_cp := \<lambda>f src dst. (False,
     if isFile (fsGet f (src @ [''f''])) then fsPut (fsPut f dst Directory) (dst @ [''f'']) (RegularFile ''n'') else f)\<rparr>"

definition demoCopySkip :: FileOperate where
  "demoCopySkip = demoOverwrite\<lparr>fo_Type := ''copy'', fo_Style := ''skip'', fo_To := ''/DATA''\<rparr>"

text \<open>
  With the style \<open>skip\<close>, a copy whose \<^verbatim>\<open>cp\<close> process breaks off after creating a file is reported as created although
  that file is truncated: the fallback skips what the process left behind.
\<close>

theorem skip_copy_incomplete:
  "\<exists>out s'. operateItem 3 brokenCp ''1'' demoCopySkip (hd (fo_Item demoCopySkip)) demoWorker = Some (Inr out, s')
     \<and> io_created out = Some ''/DATA/x'' \<and> fsGet (w_fs demoWorker) [''s'', ''x'', ''f''] = Some (RegularFile ''new'')
     \<and> fsGet (w_fs s') [''DATA'', ''x'', ''f''] = Some (RegularFile ''n'')"
proof -
  have "(case operateItem 3 brokenCp ''1'' demoCopySkip (hd (fo_Item demoCopySkip)) demoWorker of Some (Inr out, s') \<Rightarrow>
      io_created out = Some ''/DATA/x'' \<and> fsGet (w_fs demoWorker) [''s'', ''x'', ''f''] = Some (RegularFile ''new'')
      \<and> fsGet (w_fs s') [''DATA'', ''x'', ''f''] = Some (RegularFile ''n'') | _ \<Rightarrow> False)" by code_simp
  from run_Inr [OF this] show ?thesis by blast
qed

lemma noDupFrom_returns:
  assumes "\<not> Exists f (segs (Join [dir, candName stem ext j]))" "i < j"
  shows "\<exists>p. noDupFrom f dir stem ext i full = Some p"
  using assms(2)
proof (induction "j - i" arbitrary: i full)
  case (Suc d)
  let ?next = "Join [dir, stem @ ''('' @ Itoa (Suc i) @ '')'' @ ext]"
  have step: "noDupFrom f dir stem ext i full = (if Exists f (segs full) then noDupFrom f dir stem ext (Suc i) ?next else Some full)"
    by (subst noDupFrom.simps) simp
  have "\<exists>p. noDupFrom f dir stem ext (Suc i) ?next = Some p"
  proof (cases "Suc i = j")
    case True
    then show ?thesis using assms(1) by (subst noDupFrom.simps) (simp add: candName_def)
  next
    case False
    then show ?thesis using Suc by simp
  qed
  then show ?case using step by simp
qed simp

text \<open>
  C39. The keep-both name is always found, at the first attempt: in a directory that exists, the search returns a free
  path in that same directory.
\<close>

theorem resolveRenameTarget_total:
  assumes wf: "fsWF f" and ps: "list_all proper (ts @ [b])" and dir: "fsGet f ts = Some Directory"
  shows "\<exists>w. proper w \<and> resolveRenameTarget f (path_of (ts @ [b])) = Some (Inr (path_of (ts @ [w]))) \<and> fsGet f (ts @ [w]) = None"
proof -
  have pr: "list_all proper ts" "proper b" "slash \<notin> set b" using ps by (auto simp: proper_def)
  let ?stem = "TrimSuffix b (Ext b)" and ?ext = "Ext b"
  have ns: "slash \<notin> set ?stem" "slash \<notin> set ?ext" using base_split [OF pr(3)] by auto
  obtain j where j: "j \<ge> 1" "notExist f (segs (Join [path_of ts, candName ?stem ?ext j]))"
    using free_candidate [OF wf pr(1) dir ns] by blast
  have "Join [path_of ts, candName ?stem ?ext j] = Join [dirPrefix ts, candName ?stem ?ext j]"
    using Join_name [OF rooted_path_of segs_path_of [OF pr(1)] pr(1)] Join_name [OF segs_dirPrefix(2) segs_dirPrefix(1) pr(1)] pr(1)
      candName_proper [OF ns] by simp
  then have "\<not> Exists f (segs (Join [dirPrefix ts, candName ?stem ?ext j]))" using j(2) by (simp add: notExist_def Exists_def)
  then obtain p where p: "noDupFrom f (dirPrefix ts) ?stem ?ext 0 (path_of (ts @ [b])) = Some p"
    using noDupFrom_returns [of f "dirPrefix ts" ?stem ?ext j 0] j(1) by auto
  then have nd: "GetNoDuplicateFileName f (path_of (ts @ [b])) = Some p"
    by (simp add: GetNoDuplicateFileName_def PathSplit_snoc [OF pr(3)])
  obtain w where w: "proper w" "p = path_of (ts @ [w])"
    using noDupFrom_some [OF p] pr candName_proper [OF ns] Join_name [OF segs_dirPrefix(2) segs_dirPrefix(1) pr(1)] by blast
  have sg: "segs p = ts @ [w]" using w pr by simp
  have none: "fsGet f (ts @ [w]) = None" using noDupFrom_some [OF p] sg by (simp add: Exists_def)
  have "CheckNotExist f (segs p)" using none sg free_sibling [OF wf dir] by (simp add: CheckNotExist_def notExist_def)
  then have "resolveRenameTarget f (path_of (ts @ [b])) = Some (Inr p)"
    using nd by (simp add: resolveRenameTarget_def maxRenameCandidateAttempts_def numeral_eq_Suc)
  then show ?thesis using w none by blast
qed

theorem resolveRenameTarget_total_witness:
  "\<exists>w. proper w \<and> resolveRenameTarget demoFs ''/d/x'' = Some (Inr (path_of [''d'', w])) \<and> fsGet demoFs [''d'', w] = None"
proof -
  have "fsWF demoFs" "list_all proper ([''d''] @ [''x''])" "fsGet demoFs [''d''] = Some Directory" by code_simp+
  from resolveRenameTarget_total [OF this] show ?thesis by (simp add: path_of_def)
qed

end
