(* ===== verification/Shares.thy ===== *)
theory Shares
  imports FileSys
begin

text \<open>
  Samba shares (\<^verbatim>\<open>service/shares.go\<close>) with the share handlers of \<^verbatim>\<open>route/v1/samba.go\<close>: the table of shares, its
  clean-up and rewriting when directories are deleted or moved, and the generated configuration. The code drops
  every error of the database: a failing query reads as empty and a failing statement changes nothing;
  \<open>ss_faults\<close> says which ones fail. Parameters of the model are the engine's \<^verbatim>\<open>LIKE\<close> with a backslash as
  its escape character (pattern, then text) and its comparison of the id column with a text.
\<close>

section \<open>State\<close>

record SharesDBModel =
  sh_ID :: nat
  sh_Anonymous :: bool
  sh_Path :: string
  sh_Name :: string
  sh_Username :: string
  sh_Updated :: int
  sh_Created :: int

text \<open>The table, the two configuration files, the number of restarts of the server, the clock and the faults.\<close>

record sharesState =
  ss_rows :: "SharesDBModel list"
  ss_next :: nat
  ss_global :: string
  ss_conf :: string
  ss_restarts :: nat
  ss_now :: int
  ss_faults :: "bool list"

definition dbFails :: "sharesState \<Rightarrow> bool" where
  "dbFails s = (ss_faults s \<noteq> [] \<and> hd (ss_faults s))"

definition dbNext :: "sharesState \<Rightarrow> sharesState" where
  "dbNext s = s\<lparr>ss_faults := tl (ss_faults s)\<rparr>"

definition findRows :: "(SharesDBModel \<Rightarrow> bool) \<Rightarrow> sharesState \<Rightarrow> SharesDBModel list \<times> sharesState" where
  "findRows P s = (if dbFails s then [] else filter P (ss_rows s), dbNext s)"

definition changeRows :: "(SharesDBModel list \<Rightarrow> SharesDBModel list) \<Rightarrow> sharesState \<Rightarrow> sharesState" where
  "changeRows f s = (dbNext s)\<lparr>ss_rows := (if dbFails s then ss_rows s else f (ss_rows s))\<rparr>"

section \<open>Configuration files\<close>

definition nl :: string where "nl = [CHR 0x0A]"

text \<open>The banner's backslashes are written \<^verbatim>\<open>~\<close> here and put back.\<close>

definition globalSmbConf :: string where
  "globalSmbConf = ReplaceByte (StrJoin [
      ''# Managed by NimoOS (NimoTech). Do not edit this file manually.'',
      ''#'',
      ''#'',
      ''#                          ______     _______'',
      ''#                        (  __  ~   (  ___  )'',
      ''#                        | (  ~  )  | (   ) |'',
      ''#                        | |   ) |  | |   | |'',
      ''#                        | |   | |  | |   | |'',
      ''#                        | |   ) |  | |   | |'',
      ''#                        | (__/  )  | (___) |'',
      ''#                        (______/   (_______)'',
      ''#'',
      ''#                   _          _______   _________'',
      ''#                  ( (    /|  (  ___  )  ~__   __/'',
      ''#                  |  ~  ( |  | (   ) |     ) ('',
      ''#                  |   ~ | |  | |   | |     | |'',
      ''#                  | (~ ~) |  | |   | |     | |'',
      ''#                  | | ~   |  | |   | |     | |'',
      ''#                  | )  ~  |  | (___) |     | |'',
      ''#                  |/    )_)  (_______)     )_('',
      ''#'',
      ''#   _______    _______    ______    _________   _______'',
      ''#  (       )  (  ___  )  (  __  ~   ~__   __/  (  ____ ~  |~     /|'',
      ''#  | () () |  | (   ) |  | (  ~  )     ) (     | (    ~/  ( ~   / )'',
      ''#  | || || |  | |   | |  | |   ) |     | |     | (__       ~ (_) /'',
      ''#  | |(_)| |  | |   | |  | |   | |     | |     |  __)       ~   /'',
      ''#  | |   | |  | |   | |  | |   ) |     | |     | (           ) ('',
      ''#  | |   | |  | (___) |  | (__/  )  ___) (___  | )           | |'',
      ''#  |/     ~|  (_______)  (______/   ~_______/  |/            ~_/'',
      ''#'',
      ''#'',
      ''# IMPORTANT: NimoOS will not provide technical support for any issues'',
      ''#            caused by unauthorized modification to the configuration.'',
      '''',
      ''[global]'',
      ''   workgroup = WORKGROUP'',
      ''   netbios name = NIMOOS'',
      ''   server string = NimoOS'',
      ''   security = user'',
      ''   passdb backend = tdbsam'',
      ''   access based share enum = yes'',
      ''   min protocol = SMB2'',
      ''   ntlm auth = ntlmv2-only'',
      ''   ea support = yes'',
      ''   fruit:metadata = stream'',
      ''   fruit:model = Macmini'',
      ''   fruit:veto_appledouble = no'',
      ''   fruit:posix_rename = yes'',
      ''   fruit:zero_file_id = yes'',
      ''   fruit:wipe_intentionally_left_blank_rfork = yes'',
      ''   fruit:delete_empty_adfiles = yes'',
      ''   include=/etc/samba/smb.casa.conf''] nl) (CHR ''~'') [CHR 0x5C]"

definition validUsersOf :: "SharesDBModel \<Rightarrow> string" where
  "validUsersOf share = (if sh_Username share = [] then ''@users'' else sh_Username share)"

definition shareSection :: "SharesDBModel \<Rightarrow> string" where
  "shareSection share =
     (let dirName = Base (sh_Path share) in
      nl @ ''['' @ dirName @ '']'' @ nl @ ''comment = NimoOS share '' @ dirName @ nl @ ''path = '' @ sh_Path share @ nl
      @ ''browseable = Yes'' @ nl @ ''read only = No'' @ nl @ ''valid users = '' @ validUsersOf share @ nl
      @ ''create mask = 0777'' @ nl @ ''directory mask = 0777'' @ nl @ ''force user = root'' @ nl @ nl)"

definition renderShares :: "SharesDBModel list \<Rightarrow> string" where
  "renderShares rows = concat (map shareSection rows)"

definition UpdateConfigFile :: "sharesState \<Rightarrow> sharesState" where
  "UpdateConfigFile s =
     (case findRows (\<lambda>_. True) (s\<lparr>ss_global := globalSmbConf\<rparr>) of
        (shares, s1) \<Rightarrow> s1\<lparr>ss_conf := renderShares shares, ss_restarts := Suc (ss_restarts s1)\<rparr>)"

section \<open>Service operations\<close>

definition likeEscape :: "string \<Rightarrow> string" where
  "likeEscape s = concat (map (\<lambda>c. if c \<in> {CHR 0x5C, CHR ''%'', CHR ''_''} then [CHR 0x5C, c] else [c]) s)"

definition sharePathScope :: "string \<Rightarrow> string \<times> string" where
  "sharePathScope path =
     (let exact = (if TrimRight path slash = [] then ''/'' else TrimRight path slash) in
      if exact = ''/'' then (exact, ''/%'') else (exact, likeEscape exact @ ''/%''))"

definition inScope :: "(string \<Rightarrow> string \<Rightarrow> bool) \<Rightarrow> string \<Rightarrow> SharesDBModel \<Rightarrow> bool" where
  "inScope like path r = (case sharePathScope path of (exact, subtree) \<Rightarrow> sh_Path r = exact \<or> like subtree (sh_Path r))"

definition DeleteShareByPath :: "(string \<Rightarrow> string \<Rightarrow> bool) \<Rightarrow> string \<Rightarrow> sharesState \<Rightarrow> sharesState" where
  "DeleteShareByPath like path s = UpdateConfigFile (changeRows (filter (\<lambda>r. \<not> inScope like path r)) s)"

definition rewriteSharePath :: "string \<Rightarrow> string \<Rightarrow> string \<Rightarrow> string" where
  "rewriteSharePath sharePath oldExact newExact =
     (if sharePath = oldExact then newExact
      else if HasPrefix sharePath (oldExact @ ''/'') then newExact @ drop (length oldExact) sharePath
      else sharePath)"

definition updateShare :: "nat \<Rightarrow> string \<Rightarrow> sharesState \<Rightarrow> sharesState" where
  "updateShare i newSharePath s =
     changeRows (map (\<lambda>r. if sh_ID r = i then r\<lparr>sh_Path := newSharePath, sh_Name := Base newSharePath, sh_Updated := ss_now s\<rparr> else r)) s"

fun rewriteRows :: "string \<Rightarrow> string \<Rightarrow> SharesDBModel list \<Rightarrow> nat \<Rightarrow> sharesState \<Rightarrow> nat \<times> sharesState" where
  "rewriteRows oldExact newExact [] count s = (count, s)"
| "rewriteRows oldExact newExact (row # rows) count s =
     (let newSharePath = rewriteSharePath (sh_Path row) oldExact newExact in
      if newSharePath = sh_Path row then rewriteRows oldExact newExact rows count s
      else rewriteRows oldExact newExact rows (Suc count) (updateShare (sh_ID row) newSharePath s))"

definition RewriteSharePathPrefix :: "(string \<Rightarrow> string \<Rightarrow> bool) \<Rightarrow> string \<Rightarrow> string \<Rightarrow> sharesState \<Rightarrow> nat \<times> sharesState" where
  "RewriteSharePathPrefix like oldPath newPath s =
     (let oldExact = fst (sharePathScope oldPath); newExact = TrimRight newPath slash in
      case findRows (inScope like oldPath) s of
        (rows, s1) \<Rightarrow>
          (case rewriteRows oldExact newExact rows 0 s1 of
             (count, s2) \<Rightarrow> (count, if count > 0 then UpdateConfigFile s2 else s2)))"

definition GetSharesByPath :: "string \<Rightarrow> sharesState \<Rightarrow> SharesDBModel list \<times> sharesState" where
  "GetSharesByPath path s = findRows (\<lambda>r. sh_Path r = path) s"

definition GetSharesByName :: "string \<Rightarrow> sharesState \<Rightarrow> SharesDBModel list \<times> sharesState" where
  "GetSharesByName name s = findRows (\<lambda>r. sh_Name r = name) s"

definition GetSharesList :: "sharesState \<Rightarrow> SharesDBModel list \<times> sharesState" where
  "GetSharesList s = findRows (\<lambda>_. True) s"

text \<open>Inserting a row whose id is zero draws a fresh id and stamps the times.\<close>

definition CreateShare :: "SharesDBModel \<Rightarrow> sharesState \<Rightarrow> sharesState" where
  "CreateShare share s =
     UpdateConfigFile (if dbFails s then dbNext s
       else (dbNext s)\<lparr>ss_rows := ss_rows s @ [share\<lparr>sh_ID := ss_next s, sh_Updated := ss_now s, sh_Created := ss_now s\<rparr>],
                       ss_next := Suc (ss_next s)\<rparr>)"

definition DeleteShare :: "(string \<Rightarrow> nat \<Rightarrow> bool) \<Rightarrow> string \<Rightarrow> sharesState \<Rightarrow> sharesState" where
  "DeleteShare idEq i s = UpdateConfigFile (changeRows (filter (\<lambda>r. \<not> idEq i (sh_ID r))) s)"

section \<open>Handlers\<close>

datatype shareReply = ShareOK | NoPath | DirNotExists | ShareExists | ShareNameExists

fun checkShares :: "fs \<Rightarrow> string list \<Rightarrow> sharesState \<Rightarrow> shareReply \<times> sharesState" where
  "checkShares f [] s = (ShareOK, s)"
| "checkShares f (p # ps) s =
     (if p = [] then (NoPath, s)
      else if fsGet f (segs p) = None then (DirNotExists, s)
      else (case GetSharesByPath p s of
        (byPath, s1) \<Rightarrow>
          if byPath \<noteq> [] then (ShareExists, s1)
          else (case GetSharesByPath (Base p) s1 of
            (byName, s2) \<Rightarrow> if byName \<noteq> [] then (ShareNameExists, s2) else checkShares f ps s2)))"

definition newShare :: "string \<Rightarrow> string \<Rightarrow> SharesDBModel" where
  "newShare username p = \<lparr>sh_ID = 0, sh_Anonymous = (username = []), sh_Path = p, sh_Name = Base p, sh_Username = username,
     sh_Updated = 0, sh_Created = 0\<rparr>"

definition PostSambaSharesCreate :: "fs \<Rightarrow> string \<Rightarrow> string list \<Rightarrow> sharesState \<Rightarrow> shareReply \<times> sharesState" where
  "PostSambaSharesCreate f username paths s =
     (case checkShares f paths s of
        (ShareOK, s1) \<Rightarrow> (ShareOK, fold (\<lambda>p. CreateShare (newShare username p)) paths s1)
      | (r, s1) \<Rightarrow> (r, s1))"

definition DeleteSambaShares :: "(string \<Rightarrow> nat \<Rightarrow> bool) \<Rightarrow> string \<Rightarrow> sharesState \<Rightarrow> shareReply \<times> sharesState" where
  "DeleteSambaShares idEq i s = (if i = [] then (NoPath, s) else (ShareOK, DeleteShare idEq i s))"

text \<open>The first line of the global configuration decides whether the server still has to be initialised.\<close>

definition GetSambaStatus_needInit :: "string option \<Rightarrow> bool" where
  "GetSambaStatus_needInit conf = (case conf of None \<Rightarrow> True
     | Some txt \<Rightarrow> let str = hd (Split (CHR 0x0A) txt) in
         \<not> (Contains str ''# Managed by NimoOS (NimoTech). Do not edit this file manually.''
            \<or> Contains str ''# Copyright (c) 2021-2022 NimoOS Inc. All rights reserved.''))"

section \<open>What the engine promises\<close>

text \<open>
  Documented behaviour of \<^verbatim>\<open>LIKE\<close> that the code uses: an escaped literal followed by a per cent sign matches the texts that
  start with the literal, upper and lower case of ASCII letters being the same.
\<close>

definition likeSpec :: "(string \<Rightarrow> string \<Rightarrow> bool) \<Rightarrow> bool" where
  "likeSpec like = (\<forall>lit t. like (likeEscape lit @ ''%'') t = prefix (ToLower lit) (ToLower t))"

fun unescape :: "string \<Rightarrow> string" where
  "unescape [] = []"
| "unescape [c] = [c]"
| "unescape (c # d # cs) = (if c = CHR 0x5C then d # unescape cs else c # unescape (d # cs))"

definition prefixLike :: "string \<Rightarrow> string \<Rightarrow> bool" where
  "prefixLike pat t = prefix (ToLower (unescape (butlast pat))) (ToLower t)"

lemma unescape_Cons: "c \<noteq> CHR 0x5C \<Longrightarrow> unescape (c # cs) = c # unescape cs"
  by (cases cs) simp_all

lemma likeEscape_Cons:
  "likeEscape (c # s) = (if c \<in> {CHR 0x5C, CHR ''%'', CHR ''_''} then [CHR 0x5C, c] else [c]) @ likeEscape s"
  by (simp only: likeEscape_def list.map concat.simps)

lemma unescape_escape: "unescape (likeEscape s) = s"
proof (induction s)
  case Nil
  show ?case by (simp add: likeEscape_def)
next
  case (Cons c s)
  show ?case
  proof (cases "c \<in> {CHR 0x5C, CHR ''%'', CHR ''_''}")
    case True
    then show ?thesis by (simp only: likeEscape_Cons simp_thms if_True append.simps unescape.simps Cons.IH)
  next
    case False
    then have "c \<noteq> CHR 0x5C" by simp
    then show ?thesis using False by (simp only: likeEscape_Cons simp_thms if_False append.simps unescape_Cons Cons.IH)
  qed
qed

lemma prefixLike_spec: "likeSpec prefixLike"
  by (simp add: likeSpec_def prefixLike_def butlast_append unescape_escape)


section \<open>Scope\<close>

lemma likeEscape_append: "likeEscape (s @ t) = likeEscape s @ likeEscape t"
  by (simp add: likeEscape_def)

lemma likeEscape_slash: "likeEscape ''/'' = ''/''"
  by code_simp

lemma TrimRight_last: "TrimRight s c = [] \<or> last (TrimRight s c) \<noteq> c"
  using hd_dropWhile[of "\<lambda>x. x = c" "rev s"] by (auto simp: TrimRight_def last_rev)

lemma scope_exact:
  assumes "TrimRight path slash = e" "e \<noteq> []"
  shows "sharePathScope path = (e, likeEscape (e @ ''/'') @ ''%'')"
proof -
  have "e \<noteq> ''/''" using TrimRight_last[of path slash] assms by auto
  then show ?thesis using assms by (simp add: sharePathScope_def likeEscape_append likeEscape_slash)
qed

lemma inScope_iff:
  assumes "likeSpec like" "TrimRight path slash = e" "e \<noteq> []"
  shows "inScope like path r \<longleftrightarrow> sh_Path r = e \<or> prefix (ToLower (e @ ''/'')) (ToLower (sh_Path r))"
proof -
  have "like (likeEscape (e @ ''/'') @ ''%'') (sh_Path r) = prefix (ToLower (e @ ''/'')) (ToLower (sh_Path r))"
    using assms(1) unfolding likeSpec_def by blast
  then show ?thesis unfolding inScope_def scope_exact[OF assms(2,3)] prod.case by simp
qed

lemma prefix_ToLower: "prefix u v \<Longrightarrow> prefix (ToLower u) (ToLower v)"
  by (auto simp: ToLower_def prefix_def)

lemma atOrUnder_inScope:
  assumes "likeSpec like" "TrimRight path slash = e" "e \<noteq> []" "atOrUnder e (sh_Path r)"
  shows "inScope like path r"
  using assms(4) prefix_ToLower[of "e @ ''/''" "sh_Path r"]
  by (auto simp: inScope_iff[OF assms(1-3)] atOrUnder_def HasPrefix_def)

section \<open>Rewriting\<close>

definition movedShare :: "string \<Rightarrow> string \<Rightarrow> int \<Rightarrow> SharesDBModel \<Rightarrow> SharesDBModel" where
  "movedShare old new now r =
     (if atOrUnder old (sh_Path r)
      then r\<lparr>sh_Path := new @ drop (length old) (sh_Path r), sh_Name := Base (new @ drop (length old) (sh_Path r)), sh_Updated := now\<rparr>
      else r)"

lemma rewriteSharePath_eq:
  "rewriteSharePath q old new = (if atOrUnder old q then new @ drop (length old) q else q)"
  by (auto simp: rewriteSharePath_def atOrUnder_def)

lemma rewriteSharePath_fixed: "old \<noteq> new \<Longrightarrow> rewriteSharePath q old new = q \<longleftrightarrow> \<not> atOrUnder old q"
proof -
  assume "old \<noteq> new"
  moreover have "new @ drop (length old) q = q \<longleftrightarrow> new = old" if "atOrUnder old q"
  proof -
    have "prefix old q" using that append_prefixD[of old] by (auto simp: atOrUnder_def HasPrefix_def)
    then obtain u where "q = old @ u" by (auto simp: prefix_def)
    then show ?thesis by simp
  qed
  ultimately show ?thesis by (auto simp: rewriteSharePath_eq)
qed

lemma movedShare_ID [simp]: "sh_ID (movedShare old new now r) = sh_ID r"
  by (simp add: movedShare_def)

lemma no_faults [simp]:
  "ss_faults s = [] \<Longrightarrow> \<not> dbFails s" "ss_faults s = [] \<Longrightarrow> dbNext s = s"
  by (simp_all add: dbFails_def dbNext_def)

lemma updateShare_moved:
  assumes "ss_faults s = []" "distinct (map sh_ID (ss_rows s))" "row \<in> set (ss_rows s)" "atOrUnder old (sh_Path row)"
  shows "updateShare (sh_ID row) (rewriteSharePath (sh_Path row) old new) s =
    s\<lparr>ss_rows := map (\<lambda>r. if r = row then movedShare old new (ss_now s) r else r) (ss_rows s)\<rparr>"
proof -
  have "sh_ID r = sh_ID row \<longleftrightarrow> r = row" if "r \<in> set (ss_rows s)" for r
    using assms(2,3) that by (auto simp: distinct_map inj_on_def)
  then show ?thesis
    using assms by (auto simp: updateShare_def changeRows_def movedShare_def rewriteSharePath_eq intro!: map_cong)
qed

lemma rewriteRows_eq:
  assumes "ss_faults s = []" "distinct (map sh_ID (ss_rows s))" "set sel \<subseteq> set (ss_rows s)" "distinct (map sh_ID sel)" "old \<noteq> new"
  shows "rewriteRows old new sel c s = (c + length (filter (\<lambda>r. atOrUnder old (sh_Path r)) sel),
    s\<lparr>ss_rows := map (\<lambda>r. if r \<in> set sel then movedShare old new (ss_now s) r else r) (ss_rows s)\<rparr>)"
  using assms
proof (induction sel arbitrary: c s)
  case Nil
  then show ?case by simp
next
  case (Cons row sel)
  show ?case
  proof (cases "atOrUnder old (sh_Path row)")
    case False
    have "movedShare old new (ss_now s) row = row" using False by (simp add: movedShare_def)
    then have "(if r = row \<or> r \<in> set sel then movedShare old new (ss_now s) r else r)
        = (if r \<in> set sel then movedShare old new (ss_now s) r else r)" for r by auto
    then show ?thesis using Cons False rewriteSharePath_fixed[of old new "sh_Path row"] by simp
  next
    case True
    let ?mv = "movedShare old new (ss_now s)"
    let ?s1 = "s\<lparr>ss_rows := map (\<lambda>r. if r = row then ?mv r else r) (ss_rows s)\<rparr>"
    have id: "sh_ID x \<noteq> sh_ID row" if "x \<in> set sel" for x
      using Cons.prems(4) imageI[OF that, of sh_ID] by auto
    have other: "x \<noteq> row" "x \<noteq> ?mv row" if "x \<in> set sel" for x
      using id[OF that] by auto
    have ids: "map sh_ID (ss_rows ?s1) = map sh_ID (ss_rows s)" by (simp add: comp_def if_distrib[of sh_ID] cong: if_cong)
    have d1: "distinct (map sh_ID (ss_rows ?s1))" unfolding ids by (rule Cons.prems(2))
    have "set sel \<subseteq> set (ss_rows ?s1)" using Cons.prems(3) other(1) by (force simp: image_iff)
    then have "rewriteRows old new sel (Suc c) ?s1 = (Suc c + length (filter (\<lambda>r. atOrUnder old (sh_Path r)) sel),
        ?s1\<lparr>ss_rows := map (\<lambda>r. if r \<in> set sel then ?mv r else r) (ss_rows ?s1)\<rparr>)"
      using Cons.IH[OF _ d1 _ _ Cons.prems(5), of "Suc c"] Cons.prems(1,4) by simp
    moreover have "map (\<lambda>r. if r \<in> set sel then ?mv r else r) (ss_rows ?s1)
        = map (\<lambda>r. if r \<in> set (row # sel) then ?mv r else r) (ss_rows s)"
      using other by auto
    moreover have "rewriteSharePath (sh_Path row) old new \<noteq> sh_Path row"
      using True rewriteSharePath_fixed[OF Cons.prems(5), of "sh_Path row"] by simp
    ultimately show ?thesis
      using True Cons.prems updateShare_moved[of s row old new] by simp
  qed
qed


lemma UpdateConfigFile_fields [simp]:
  "ss_rows (UpdateConfigFile s) = ss_rows s" "ss_next (UpdateConfigFile s) = ss_next s" "ss_now (UpdateConfigFile s) = ss_now s"
  "ss_faults s = [] \<Longrightarrow> ss_faults (UpdateConfigFile s) = []"
  "ss_faults s = [] \<Longrightarrow> ss_conf (UpdateConfigFile s) = renderShares (ss_rows s)"
  by (simp_all add: UpdateConfigFile_def findRows_def dbNext_def dbFails_def)

lemma TrimRight_path_of:
  assumes "list_all proper ds" "ds \<noteq> []"
  shows "TrimRight (path_of ds) slash = path_of ds" "path_of ds \<noteq> []"
proof -
  obtain ys d where "ds = ys @ [d]" using assms(2) by (metis rev_exhaust)
  then show "TrimRight (path_of ds) slash = path_of ds"
    using assms(1) Base_path_of[of d ys] path_of_under[of "[d]" ys]
    by (intro TrimRight_no_trailing) (auto simp: proper_def dest: last_in_set)
  show "path_of ds \<noteq> []" by (simp add: path_of_def)
qed

lemma RewriteSharePathPrefix_rows:
  assumes "likeSpec like" "ss_faults s = []" "distinct (map sh_ID (ss_rows s))"
    and "list_all proper ds" "ds \<noteq> []" "list_all proper es" "es \<noteq> []" "ds \<noteq> es"
    and "RewriteSharePathPrefix like (path_of ds) (path_of es) s = (n, s')"
  shows "ss_rows s' = map (movedShare (path_of ds) (path_of es) (ss_now s)) (ss_rows s)
    \<and> n = length (filter (\<lambda>r. atOrUnder (path_of ds) (sh_Path r)) (ss_rows s))"
proof -
  let ?old = "path_of ds" and ?new = "path_of es"
  note trim = TrimRight_path_of[OF assms(4,5)] TrimRight_path_of[OF assms(6,7)]
  have ne: "?old \<noteq> ?new" using path_of_inj assms(4,6,8) by blast
  let ?sel = "filter (inScope like ?old) (ss_rows s)"
  have sub: "atOrUnder ?old (sh_Path r) \<Longrightarrow> inScope like ?old r" for r
    by (rule atOrUnder_inScope[OF assms(1) trim(1,2)])
  have "rewriteRows ?old ?new ?sel 0 s = (length (filter (\<lambda>r. atOrUnder ?old (sh_Path r)) ?sel),
      s\<lparr>ss_rows := map (\<lambda>r. if r \<in> set ?sel then movedShare ?old ?new (ss_now s) r else r) (ss_rows s)\<rparr>)"
    using rewriteRows_eq[OF assms(2,3) _ _ ne, of ?sel 0] assms(3) by (simp add: distinct_map_filter)
  moreover have "map (\<lambda>r. if r \<in> set ?sel then movedShare ?old ?new (ss_now s) r else r) (ss_rows s)
      = map (movedShare ?old ?new (ss_now s)) (ss_rows s)"
    using sub by (auto simp: movedShare_def)
  moreover have "filter (\<lambda>r. atOrUnder ?old (sh_Path r)) ?sel = filter (\<lambda>r. atOrUnder ?old (sh_Path r)) (ss_rows s)"
    using sub by (auto intro: filter_cong)
  ultimately show ?thesis
    using assms(2,9) trim scope_exact[OF trim(1,2)]
    by (auto simp: RewriteSharePathPrefix_def findRows_def split: prod.splits if_splits)
qed


text \<open>
  Shares follow a moved directory exactly: when the database works, rewriting after a move of \<open>ds\<close> to \<open>es\<close> gives every share at or
  under \<open>ds\<close> the corresponding path under \<open>es\<close> (with its base name as the new share name), leaves every other share as it
  is, and reports the number of shares moved. The engine's case-blind matching has no effect here.
\<close>

theorem RewriteSharePathPrefix_exact:
  assumes "likeSpec like" "ss_faults s = []" "distinct (map sh_ID (ss_rows s))"
    and "list_all proper ds" "ds \<noteq> []" "list_all proper es" "es \<noteq> []" "ds \<noteq> es"
    and "RewriteSharePathPrefix like (path_of ds) (path_of es) s = (n, s')"
  shows "ss_rows s' = map (movedShare (path_of ds) (path_of es) (ss_now s)) (ss_rows s)
    \<and> n = length (filter (\<lambda>r. atOrUnder (path_of ds) (sh_Path r)) (ss_rows s))"
  by (rule RewriteSharePathPrefix_rows[OF assms])

text \<open>Two shares, one in the subtree of \<^verbatim>\<open>/DATA/a\<close> and one in a sibling with the same textual prefix.\<close>

definition demoShare :: "nat \<Rightarrow> string \<Rightarrow> SharesDBModel" where
  "demoShare i p = (newShare [] p)\<lparr>sh_ID := i\<rparr>"

definition demoShares :: "string list \<Rightarrow> sharesState" where
  "demoShares ps = \<lparr>ss_rows = map (\<lambda>(i, p). demoShare i p) (enumerate 1 ps), ss_next = Suc (length ps), ss_global = [], ss_conf = [],
     ss_restarts = 0, ss_now = 7, ss_faults = []\<rparr>"

lemma proper_ab [simp]: "proper ''a''" "proper ''b''" "proper ''Media''" "proper ''DATA''"
  by (simp_all add: proper_def)

theorem RewriteSharePathPrefix_exact_witness:
  "map sh_Path (ss_rows (snd (RewriteSharePathPrefix prefixLike ''/DATA/a'' ''/DATA/b'' (demoShares [''/DATA/a/x'', ''/DATA/ab'']))))
     = [''/DATA/b/x'', ''/DATA/ab'']
   \<and> fst (RewriteSharePathPrefix prefixLike ''/DATA/a'' ''/DATA/b'' (demoShares [''/DATA/a/x'', ''/DATA/ab''])) = 1"
proof -
  let ?s = "demoShares [''/DATA/a/x'', ''/DATA/ab'']"
  have p: "path_of [''DATA'', ''a''] = ''/DATA/a''" "path_of [''DATA'', ''b''] = ''/DATA/b''" by (simp_all add: path_of_def)
  obtain n s' where r: "RewriteSharePathPrefix prefixLike (path_of [''DATA'', ''a'']) (path_of [''DATA'', ''b'']) ?s = (n, s')" by force
  have "ss_faults ?s = []" "distinct (map sh_ID (ss_rows ?s))" by (simp_all add: demoShares_def demoShare_def)
  from RewriteSharePathPrefix_exact[OF prefixLike_spec this _ _ _ _ _ r]
  have "ss_rows s' = map (movedShare ''/DATA/a'' ''/DATA/b'' (ss_now ?s)) (ss_rows ?s)
      \<and> n = length (filter (\<lambda>r. atOrUnder ''/DATA/a'' (sh_Path r)) (ss_rows ?s))"
    by (simp add: p)
  moreover have "map (\<lambda>r. sh_Path (movedShare ''/DATA/a'' ''/DATA/b'' (ss_now ?s) r)) (ss_rows ?s) = [''/DATA/b/x'', ''/DATA/ab'']"
    "length (filter (\<lambda>r. atOrUnder ''/DATA/a'' (sh_Path r)) (ss_rows ?s)) = 1" by code_simp+
  ultimately show ?thesis using r by (simp add: p comp_def)
qed

section \<open>The configuration follows the table\<close>

datatype shareOp = OpCreate "string \<times> string" | OpDelete string | OpDeletePath string | OpRewrite string string

definition shareStep :: "(string \<Rightarrow> string \<Rightarrow> bool) \<Rightarrow> (string \<Rightarrow> nat \<Rightarrow> bool) \<Rightarrow> shareOp \<Rightarrow> sharesState \<Rightarrow> sharesState" where
  "shareStep like idEq op s = (case op of OpCreate (u, p) \<Rightarrow> CreateShare (newShare u p) s | OpDelete i \<Rightarrow> DeleteShare idEq i s
     | OpDeletePath p \<Rightarrow> DeleteShareByPath like p s | OpRewrite a b \<Rightarrow> snd (RewriteSharePathPrefix like a b s))"

definition shareInv :: "sharesState \<Rightarrow> bool" where
  "shareInv s = (ss_conf s = renderShares (ss_rows s) \<and> distinct (map sh_ID (ss_rows s)) \<and> (\<forall>i \<in> set (map sh_ID (ss_rows s)). i < ss_next s))"

lemma changeRows_no_faults: "ss_faults s = [] \<Longrightarrow> changeRows f s = s\<lparr>ss_rows := f (ss_rows s)\<rparr>"
  by (simp add: changeRows_def)

lemma rewriteRows_keeps:
  assumes "rewriteRows old new sel c s = (n, s')" "ss_faults s = []"
  shows "ss_faults s' = [] \<and> ss_next s' = ss_next s \<and> map sh_ID (ss_rows s') = map sh_ID (ss_rows s)
    \<and> c \<le> n \<and> (n = c \<longrightarrow> s' = s)"
  using assms
proof (induction sel arbitrary: c s)
  case (Cons row sel)
  let ?s1 = "updateShare (sh_ID row) (rewriteSharePath (sh_Path row) old new) s"
  have up: "ss_faults ?s1 = []" "ss_next ?s1 = ss_next s" "map sh_ID (ss_rows ?s1) = map sh_ID (ss_rows s)"
    using Cons.prems(2) by (simp_all add: updateShare_def changeRows_no_faults comp_def)
  show ?case
  proof (cases "rewriteSharePath (sh_Path row) old new = sh_Path row")
    case True
    then show ?thesis using Cons.IH[of c s] Cons.prems by simp
  next
    case False
    then show ?thesis using Cons.IH[of "Suc c" ?s1] Cons.prems up by auto
  qed
qed simp

lemma shareStep_inv:
  assumes "ss_faults s = []" "shareInv s"
  shows "ss_faults (shareStep like idEq op s) = [] \<and> shareInv (shareStep like idEq op s)"
proof (cases op)
  case (OpRewrite a b)
  obtain rows s1 where f: "findRows (inScope like a) s = (rows, s1)" by force
  have s1: "s1 = s" using f assms(1) by (simp add: findRows_def)
  obtain n s2 where r: "rewriteRows (fst (sharePathScope a)) (TrimRight b slash) rows 0 s = (n, s2)" by force
  have k: "ss_faults s2 = []" "ss_next s2 = ss_next s" "map sh_ID (ss_rows s2) = map sh_ID (ss_rows s)" "n = 0 \<Longrightarrow> s2 = s"
    using rewriteRows_keeps[OF r assms(1)] by auto
  show ?thesis
    using OpRewrite assms k f s1 r by (cases "n = 0") (simp_all del: set_map add: shareStep_def RewriteSharePathPrefix_def shareInv_def)
qed (use assms in \<open>auto simp: shareStep_def shareInv_def CreateShare_def DeleteShare_def DeleteShareByPath_def
      changeRows_no_faults distinct_map_filter less_SucI split: prod.splits\<close>)

text \<open>
  C16. The Samba configuration stays in step with the share table: while the database works, after any sequence of share
  creations, deletions, directory deletions and directory moves the per-share file is the rendering of exactly the rows of the
  table, even though a move that touches no share does not rewrite it, and share ids stay unique.
\<close>

theorem shares_config_in_sync:
  assumes "ss_faults s = []" "shareInv s"
  shows "shareInv (fold (shareStep like idEq) ops s)"
proof -
  have "ss_faults (fold (shareStep like idEq) ops s) = [] \<and> shareInv (fold (shareStep like idEq) ops s)"
    using assms by (induction ops arbitrary: s) (simp_all add: shareStep_inv)
  then show ?thesis by simp
qed

theorem shares_config_in_sync_witness:
  "shareInv (fold (shareStep prefixLike (\<lambda>i n. Itoa n = i)) [OpCreate (''u'', ''/DATA/a''), OpRewrite ''/DATA'' ''/mnt'', OpDelete ''1''] (demoShares []))"
  by (rule shares_config_in_sync) (simp_all add: demoShares_def shareInv_def renderShares_def)


section \<open>Deleting\<close>

lemma DeleteShareByPath_rows:
  assumes "likeSpec like" "ss_faults s = []" "list_all proper ds" "ds \<noteq> []"
  shows "ss_rows (DeleteShareByPath like (path_of ds) s) =
    filter (\<lambda>r. \<not> (sh_Path r = path_of ds \<or> prefix (ToLower (path_of ds @ ''/'')) (ToLower (sh_Path r)))) (ss_rows s)"
  using assms inScope_iff[OF assms(1) TrimRight_path_of[OF assms(3,4)]]
  by (simp add: DeleteShareByPath_def changeRows_no_faults)

lemma DeleteShareByPath_gone:
  assumes "likeSpec like" "ss_faults s = []" "list_all proper ds" "ds \<noteq> []"
    and "r \<in> set (ss_rows (DeleteShareByPath like (path_of ds) s))"
  shows "r \<in> set (ss_rows s)" "\<not> atOrUnder (path_of ds) (sh_Path r)"
  using assms(5) prefix_ToLower[of "path_of ds @ ''/''" "sh_Path r"]
  by (auto simp: DeleteShareByPath_rows[OF assms(1-4)] atOrUnder_def HasPrefix_def)

text \<open>
  Deleting a directory removes the shares of other directories: the engine's \<^verbatim>\<open>LIKE\<close> ignores the case of ASCII letters, so
  when \<^verbatim>\<open>/DATA/a\<close> is deleted, the share of the existing directory \<^verbatim>\<open>/DATA/A/x\<close> disappears too, for every engine with the
  documented behaviour, although the subtree test is meant to leave other directories alone.
\<close>

theorem DeleteShareByPath_other_case:
  assumes "likeSpec like"
  shows "map sh_Path (ss_rows (DeleteShareByPath like ''/DATA/a'' (demoShares [''/DATA/A/x'', ''/DATA/ab'']))) = [''/DATA/ab'']"
proof -
  have p: "path_of [''DATA'', ''a''] = ''/DATA/a''" by (simp add: path_of_def)
  let ?s = "demoShares [''/DATA/A/x'', ''/DATA/ab'']"
  have "ss_rows (DeleteShareByPath like ''/DATA/a'' ?s)
      = filter (\<lambda>r. \<not> (sh_Path r = ''/DATA/a'' \<or> prefix (ToLower (''/DATA/a'' @ ''/'')) (ToLower (sh_Path r)))) (ss_rows ?s)"
    using DeleteShareByPath_rows[OF assms, of ?s "[''DATA'', ''a'']"] by (simp add: p) (simp add: demoShares_def)
  moreover have "map sh_Path (filter (\<lambda>r. \<not> (sh_Path r = ''/DATA/a'' \<or> prefix (ToLower (''/DATA/a'' @ ''/'')) (ToLower (sh_Path r)))) (ss_rows ?s))
      = [''/DATA/ab'']" by code_simp
  ultimately show ?thesis by simp
qed

theorem DeleteShareByPath_other_case_witness:
  "map sh_Path (ss_rows (DeleteShareByPath prefixLike ''/DATA/a'' (demoShares [''/DATA/A/x'', ''/DATA/ab'']))) = [''/DATA/ab'']"
  by (rule DeleteShareByPath_other_case) (rule prefixLike_spec)

section \<open>Creating\<close>

definition twoMedia :: fs where
  "twoMedia = [([''DATA''], Directory), ([''DATA'', ''Media''], Directory), ([''mnt''], Directory), ([''mnt'', ''Media''], Directory)]"

text \<open>
  Share names are not kept unique: the handler looks a new share's name up among the paths, so two directories of the same
  name are both accepted, get the same share name, and the configuration has two sections of that name.
\<close>

theorem share_names_collide:
  "let (r1, s1) = PostSambaSharesCreate twoMedia ''u'' [''/DATA/Media''] (demoShares []);
       (r2, s2) = PostSambaSharesCreate twoMedia ''u'' [''/mnt/Media''] s1
   in r1 = ShareOK \<and> r2 = ShareOK \<and> map sh_Name (ss_rows s2) = [''Media'', ''Media''] \<and> ss_conf s2 = renderShares (ss_rows s2)"
proof -
  have b: "Base ''/DATA/Media'' = ''Media''" "Base ''/mnt/Media'' = ''Media''"
    "fsGet twoMedia (segs ''/DATA/Media'') \<noteq> None" "fsGet twoMedia (segs ''/mnt/Media'') \<noteq> None" by code_simp+
  show ?thesis
    by (simp add: PostSambaSharesCreate_def b newShare_def CreateShare_def GetSharesByPath_def findRows_def demoShares_def)
qed

text \<open>A written configuration is recognised as initialised.\<close>

lemma ReplaceByte_append: "ReplaceByte (u @ v) c r = ReplaceByte u c r @ ReplaceByte v c r"
  by (simp add: ReplaceByte_def)

lemma globalSmbConf_banner:
  "\<exists>rest. globalSmbConf = ''# Managed by NimoOS (NimoTech). Do not edit this file manually.'' @ CHR 0x0A # rest"
proof -
  have b: "ReplaceByte ''# Managed by NimoOS (NimoTech). Do not edit this file manually.'' (CHR ''~'') [CHR 0x5C]
      = ''# Managed by NimoOS (NimoTech). Do not edit this file manually.''" "ReplaceByte nl (CHR ''~'') [CHR 0x5C] = [CHR 0x0A]"
    by code_simp+
  show ?thesis
    unfolding globalSmbConf_def
      StrJoin.simps(3)[of "''# Managed by NimoOS (NimoTech). Do not edit this file manually.''"] ReplaceByte_append b
    by (rule exI) (simp only: append.simps)
qed

lemma UpdateConfigFile_initialised: "\<not> GetSambaStatus_needInit (Some (ss_global (UpdateConfigFile s)))"
proof -
  let ?b = "''# Managed by NimoOS (NimoTech). Do not edit this file manually.''"
  have "ss_global (UpdateConfigFile s) = globalSmbConf"
    by (simp add: UpdateConfigFile_def findRows_def dbNext_def)
  moreover obtain rest where r: "globalSmbConf = ?b @ CHR 0x0A # rest" using globalSmbConf_banner by blast
  moreover have n: "CHR 0x0A \<notin> set ?b" by code_simp
  ultimately have "ss_global (UpdateConfigFile s) = ?b @ CHR 0x0A # rest" by (simp only:)
  then have "hd (Split (CHR 0x0A) (ss_global (UpdateConfigFile s))) = ?b"
    by (simp only: Split_append_sep[OF n] list.sel)
  moreover have "Contains ?b ?b" by (simp only: Contains_iff_sublist sublist_order.order_refl)
  ultimately show ?thesis by (simp only: GetSambaStatus_needInit_def option.case Let_def simp_thms)
qed

end
