(* ===== verification/FileApi.thy ===== *)
theory FileApi
  imports PathAcl FileOpsProps Shares
begin

text \<open>
  The handlers of the v1 file API that change files (\<^verbatim>\<open>route/v1/file.go\<close>): rename, delete, and the submission of move and
  copy batches, on top of the access checks, the worker's file system, the operation queue and the shares. A handler
  runs without interference; the lock it takes around a removal is in \<^verbatim>\<open>PathLock\<close>. Paths are resolved by their components.
  Parameters are the mount table, the configured path anchors, the clock and the user database.
\<close>

section \<open>State and environment\<close>

record apiState =
  as_acl :: aclState
  as_stored :: "PathConfig option"
  as_w :: ows
  as_shares :: sharesState
  as_queue :: opState
  as_deleted :: "string list list"

record apiEnv =
  ae_acl :: aclEnv
  ae_view :: fsView
  ae_env :: env
  ae_mounted :: "string \<Rightarrow> bool"
  ae_connections :: "string list"
  ae_like :: "string \<Rightarrow> string \<Rightarrow> bool"

datatype fileReply = Done | Renamed nat | Queued bool | InvalidParams | ProtectedName string | SystemCritical string
  | AccessDenied | MountedDirectories | FileDoesNotExist | ServiceError | FileDeleteError | SourceDesSame
  | DuplicateOperation | Panic

definition IsMounted :: "apiEnv \<Rightarrow> string \<Rightarrow> bool" where
  "IsMounted A path = (ae_mounted A path \<or> path \<in> set (ae_connections A))"

text \<open>\<^verbatim>\<open>HasChildMounts\<close> on the mount points of the mount table (\<open>None\<close>: unreadable).\<close>

definition HasChildMounts :: "string list option \<Rightarrow> string \<Rightarrow> bool" where
  "HasChildMounts mounts path =
     (case mounts of None \<Rightarrow> False | Some ms \<Rightarrow> list_ex (\<lambda>m. atOrUnder (Clean path) (Clean m)) ms)"

definition access :: "apiEnv \<Rightarrow> requestCtx \<Rightarrow> string \<Rightarrow> apiState \<Rightarrow> bool \<times> apiState" where
  "access A rq p st = (case checkPathAccess (ae_acl A) (as_acl st) rq p of (ok, acl) \<Rightarrow> (ok, st\<lparr>as_acl := acl\<rparr>))"

definition systemGuard :: "apiEnv \<Rightarrow> string \<Rightarrow> apiState \<Rightarrow> bool \<times> apiState" where
  "systemGuard A p st =
     (case ResolveActivePaths (ae_view A) (as_stored st) of
        (cfg, corrected) \<Rightarrow> (isAncestorOfSystemPath cfg p,
          st\<lparr>as_stored := (case corrected of None \<Rightarrow> as_stored st | Some c \<Rightarrow> Some c)\<rparr>))"

text \<open>A call on the file system; the calls used here always return.\<close>

definition runW :: "'a wm \<Rightarrow> apiState \<Rightarrow> (operr, 'a) result \<times> apiState" where
  "runW m st = (case m (as_w st) of None \<Rightarrow> (Inl Cancelled, st) | Some (r, w) \<Rightarrow> (r, st\<lparr>as_w := w\<rparr>))"

abbreviation apiFs :: "apiState \<Rightarrow> fs" where "apiFs st \<equiv> w_fs (as_w st)"

section \<open>Renaming\<close>

definition RenameFile :: "env \<Rightarrow> string \<Rightarrow> string \<Rightarrow> apiState \<Rightarrow> nat \<times> apiState" where
  "RenameFile E oldF newF st =
     (if fsGet (apiFs st) (segs newF) \<noteq> None then (20001, st)
      else if notExist (apiFs st) (segs newF) then
        (case runW (wRename E (segs oldF) (segs newF)) st of (Inl _, st1) \<Rightarrow> (500, st1) | (Inr _, st1) \<Rightarrow> (200, st1))
      else (500, st))"

definition RenamePath :: "apiEnv \<Rightarrow> requestCtx \<Rightarrow> string \<Rightarrow> string \<Rightarrow> apiState \<Rightarrow> fileReply \<times> apiState" where
  "RenamePath A rq op np st =
     (if op = [] \<or> np = [] then (InvalidParams, st)
      else if isProtectedName (Base op) then (ProtectedName (Base op), st)
      else if isProtectedName (Base np) then (ProtectedName (Base np), st)
      else (case access A rq op st of (ok1, st1) \<Rightarrow>
        if \<not> ok1 then (AccessDenied, st1)
        else (case access A rq np st1 of (ok2, st2) \<Rightarrow>
          if \<not> ok2 then (AccessDenied, st2)
          else if IsMounted A op then (MountedDirectories, st2)
          else (let st3 = snd (runW (purgeThumb (ae_env A) op) st2) in
            case RenameFile (ae_env A) op np st3 of (code, st4) \<Rightarrow>
              (Renamed code, if code = 200
                 then st4\<lparr>as_shares := snd (RewriteSharePathPrefix (ae_like A) op np (as_shares st4))\<rparr> else st4)))))"

section \<open>Submitting a batch\<close>

definition parentText :: "string \<Rightarrow> string option" where
  "parentText from = (if slash \<in> set from then Some (rev (tl (dropWhile (\<lambda>c. c \<noteq> slash) (rev from)))) else None)"

fun operateGuards :: "apiEnv \<Rightarrow> requestCtx \<Rightarrow> FileItem list \<Rightarrow> apiState \<Rightarrow> fileReply option \<times> apiState" where
  "operateGuards A rq [] st = (None, st)"
| "operateGuards A rq (v # vs) st =
     (case access A rq (fi_From v) st of (ok, st1) \<Rightarrow>
        if \<not> ok then (Some AccessDenied, st1)
        else if isProtectedName (Base (fi_From v)) then (Some (ProtectedName (Base (fi_From v))), st1)
        else (case systemGuard A (fi_From v) st1 of (crit, st2) \<Rightarrow>
          if crit then (Some (SystemCritical (Base (fi_From v))), st2) else operateGuards A rq vs st2))"

text \<open>Measuring the items: \<open>None\<close> when a mounted directory is to be moved.\<close>

fun measureItems :: "apiEnv \<Rightarrow> fs \<Rightarrow> string \<Rightarrow> FileItem list \<Rightarrow> (FileItem list \<times> int) option" where
  "measureItems A f ty [] = Some ([], 0)"
| "measureItems A f ty (v # vs) =
     (case GetFileOrDirSize (segs (fi_From v)) f of
        Inl _ \<Rightarrow> map_option (\<lambda>(ws, n). (v # ws, n)) (measureItems A f ty vs)
      | Inr sz \<Rightarrow>
          if ty = ''move'' \<and> IsMounted A (fi_From v) then None
          else map_option (\<lambda>(ws, n). (v\<lparr>fi_Size := sz\<rparr> # ws, sz + n)) (measureItems A f ty vs))"

definition PostOperateFileOrDir :: "apiEnv \<Rightarrow> requestCtx \<Rightarrow> string \<Rightarrow> FileOperate \<Rightarrow> apiState \<Rightarrow> fileReply \<times> apiState" where
  "PostOperateFileOrDir A rq uid t st =
     (if fo_Item t = [] then (InvalidParams, st)
      else (case access A rq (fo_To t) st of (ok, st1) \<Rightarrow>
        if \<not> ok then (AccessDenied, st1)
        else (case operateGuards A rq (fo_Item t) st1 of
          (Some r, st2) \<Rightarrow> (r, st2)
        | (None, st2) \<Rightarrow>
          (case parentText (fi_From (hd (fo_Item t))) of
             None \<Rightarrow> (Panic, st2)
           | Some parent \<Rightarrow>
             if fo_To t = parent then (SourceDesSame, st2)
             else (case measureItems A (apiFs st2) (fo_Type t) (fo_Item t) of
               None \<Rightarrow> (MountedDirectories, st2)
             | Some (items, tot) \<Rightarrow>
               (case EnqueueOp uid (t\<lparr>fo_Item := items, fo_TotalSize := tot, fo_ProcessedSize := 0\<rparr>) (as_queue st2) of
                  ((isFirst, duplicate), q) \<Rightarrow>
                    if duplicate then (DuplicateOperation, st2\<lparr>as_queue := q\<rparr>)
                    else (Queued isFirst, st2\<lparr>as_queue := q\<rparr>)))))))"

section \<open>Deleting\<close>

text \<open>The length of the rune at the head of a text, 0 when its first byte does not start a valid one.\<close>

definition byteIn :: "nat \<Rightarrow> nat \<Rightarrow> char \<Rightarrow> bool" where
  "byteIn lo hi c = (lo \<le> of_char c \<and> of_char c \<le> hi)"

definition runeLen :: "string \<Rightarrow> nat" where
  "runeLen s =
     (case s of
        [] \<Rightarrow> 0
      | a # t \<Rightarrow>
          if byteIn 0 0x7F a then 1
          else if byteIn 0xC2 0xDF a then (case t of b # _ \<Rightarrow> if byteIn 0x80 0xBF b then 2 else 0 | [] \<Rightarrow> 0)
          else if byteIn 0xE0 0xEF a then
            (case t of b # c # _ \<Rightarrow>
               if byteIn (if of_char a = (0xE0::nat) then 0xA0 else 0x80) (if of_char a = (0xED::nat) then 0x9F else 0xBF) b \<and> byteIn 0x80 0xBF c
               then 3 else 0 | _ \<Rightarrow> 0)
          else if byteIn 0xF0 0xF4 a then
            (case t of b # c # d # _ \<Rightarrow>
               if byteIn (if of_char a = (0xF0::nat) then 0x90 else 0x80) (if of_char a = (0xF4::nat) then 0x8F else 0xBF) b
                  \<and> byteIn 0x80 0xBF c \<and> byteIn 0x80 0xBF d then 4 else 0 | _ \<Rightarrow> 0)
          else 0)"

function ValidString :: "string \<Rightarrow> bool" where
  "ValidString s = (if s = [] then True else if runeLen s = 0 then False else ValidString (drop (runeLen s) s))"
  by pat_completeness auto
termination by (relation "measure length") (auto simp: length_greater_0_conv)

definition replacementRune :: string where "replacementRune = [CHR 0xEF, CHR 0xBF, CHR 0xBD]"

function mangleLoop :: "string \<Rightarrow> string" where
  "mangleLoop s =
     (if s = [] then []
      else if runeLen s = 0 then replacementRune @ mangleLoop (tl s)
      else take (runeLen s) s @ mangleLoop (drop (runeLen s) s))"
  by pat_completeness auto
termination by (relation "measure length") (auto simp: length_greater_0_conv)

declare ValidString.simps [simp del] mangleLoop.simps [simp del]

definition jsonMangledName :: "string \<Rightarrow> string" where
  "jsonMangledName name = (if ValidString name then name else mangleLoop name)"

definition resolveDeletePath :: "fs \<Rightarrow> string \<Rightarrow> (fileReply, string) result" where
  "resolveDeletePath f p =
     (if fsGet f (segs p) \<noteq> None then Inr p
      else if blocked f (segs p) then Inl ServiceError
      else (case ReadDir (segs (Dir p)) f of
        Inl _ \<Rightarrow> Inl FileDoesNotExist
      | Inr entries \<Rightarrow>
          (case filter (\<lambda>x. jsonMangledName x = Base p) (map fst entries) of
             [] \<Rightarrow> Inl FileDoesNotExist
           | [x] \<Rightarrow> Inr (Join [Dir p, x])
           | _ \<Rightarrow> Inl ServiceError)))"

fun deleteGuards :: "apiEnv \<Rightarrow> requestCtx \<Rightarrow> string list \<Rightarrow> apiState \<Rightarrow> fileReply option \<times> apiState" where
  "deleteGuards A rq [] st = (None, st)"
| "deleteGuards A rq (p # ps) st =
     (case access A rq p st of (ok, st1) \<Rightarrow>
        if \<not> ok then (Some AccessDenied, st1)
        else if isProtectedName (Base p) then (Some (ProtectedName (Base p)), st1)
        else (case systemGuard A p st1 of (crit, st2) \<Rightarrow>
          if crit then (Some (SystemCritical (Base p)), st2) else deleteGuards A rq ps st2))"

fun resolvePaths :: "apiEnv \<Rightarrow> string list \<Rightarrow> apiState \<Rightarrow> (fileReply, string list) result \<times> apiState" where
  "resolvePaths A [] st = (Inr [], st)"
| "resolvePaths A (p # ps) st =
     (case resolveDeletePath (apiFs st) p of
        Inl r \<Rightarrow> (Inl r, st)
      | Inr resolved \<Rightarrow>
          if resolved \<noteq> p \<and> isProtectedName (Base resolved) then (Inl (ProtectedName (Base resolved)), st)
          else (case (if resolved \<noteq> p then systemGuard A resolved st else (False, st)) of (crit, st1) \<Rightarrow>
            if crit then (Inl (SystemCritical (Base resolved)), st1)
            else (case resolvePaths A ps st1 of
                    (Inl r, st2) \<Rightarrow> (Inl r, st2)
                  | (Inr rs, st2) \<Rightarrow> (Inr (resolved # rs), st2))))"

fun deleteLoop :: "apiEnv \<Rightarrow> string list \<Rightarrow> apiState \<Rightarrow> bool \<times> apiState" where
  "deleteLoop A [] st = (True, st)"
| "deleteLoop A (v # vs) st =
     (let st1 = snd (runW (purgeThumb (ae_env A) v) st) in
      case runW (wRemoveAll (ae_env A) (segs v)) st1 of
        (Inl _, st2) \<Rightarrow> (False, st2)
      | (Inr _, st2) \<Rightarrow> deleteLoop A vs (st2\<lparr>as_shares := DeleteShareByPath (ae_like A) v (as_shares st2)\<rparr>))"

definition deletedMediaExts :: "string list" where
  "deletedMediaExts = [''.jpg'', ''.jpeg'', ''.png'', ''.heic'', ''.webp'', ''.gif'', ''.bmp'', ''.tiff'', ''.tif'', ''.avif'',
     ''.mp4'', ''.mov'', ''.mkv'', ''.avi'', ''.webm'', ''.m4v'', ''.3gp'']"

text \<open>What is published about the deleted paths; an empty list is not published.\<close>

definition deletedMedia :: "string list \<Rightarrow> string list" where
  "deletedMedia paths = filter (\<lambda>p. let ext = ToLower (Ext (Base p)) in ext = [] \<or> ext \<in> set deletedMediaExts) paths"

definition DeleteFile :: "apiEnv \<Rightarrow> requestCtx \<Rightarrow> string list \<Rightarrow> apiState \<Rightarrow> fileReply \<times> apiState" where
  "DeleteFile A rq paths st =
     (if paths = [] then (InvalidParams, st)
      else (case deleteGuards A rq paths st of
        (Some r, st1) \<Rightarrow> (r, st1)
      | (None, st1) \<Rightarrow>
        (case resolvePaths A paths st1 of
           (Inl r, st2) \<Rightarrow> (r, st2)
         | (Inr rs, st2) \<Rightarrow>
           if list_ex (IsMounted A) rs then (MountedDirectories, st2)
           else (case deleteLoop A rs st2 of
             (False, st3) \<Rightarrow> (FileDeleteError, st3)
           | (True, st3) \<Rightarrow> (Done, if deletedMedia rs = [] then st3
                                   else st3\<lparr>as_deleted := as_deleted st3 @ [deletedMedia rs]\<rparr>)))))"


section \<open>Guards\<close>

text \<open>Within one request the caches answer every check as they would have at its start.\<close>

lemma refresh_idem: "refreshSystemDiskCache now raw (refreshSystemDiskCache now raw c) = refreshSystemDiskCache now raw c"
  by (simp add: refreshSystemDiskCache_def)

lemma IsPathAllowed_cache:
  "snd (IsPathAllowed now raw c p adm) = c \<or> snd (IsPathAllowed now raw c p adm) = refreshSystemDiskCache now raw c"
  by (auto simp: IsPathAllowed_def isOnSystemDisk_def Let_def)

lemma IsPathAllowed_refreshed:
  "fst (IsPathAllowed now raw (refreshSystemDiskCache now raw c) p adm) = fst (IsPathAllowed now raw c p adm)"
  by (auto simp: IsPathAllowed_def isOnSystemDisk_def Let_def refresh_idem)

lemma grantedPaths_again:
  "fst (grantedPaths now rows (snd (grantedPaths now rows c u)) u) = fst (grantedPaths now rows c u)"
  by (auto simp: grantedPaths_def Let_def split: option.splits)

lemma IsPathGranted_again:
  "fst (IsPathGranted now db (snd (IsPathGranted now db c u q)) u p) = fst (IsPathGranted now db c u p)"
proof (cases db)
  case (Some rows)
  then show ?thesis
    using grantedPaths_again[of now rows c u]
    by (auto simp: IsPathGranted_def split: prod.splits)
qed (simp add: IsPathGranted_def)


lemma checkPathAccess_parts:
  "fst (checkPathAccess env st ctx p) \<longleftrightarrow>
     rq_role ctx = [] \<and> rq_userID ctx = [] \<or> rq_userID ctx = ''1''
     \<or> fst (IsPathAllowed (env_now env) (env_mounts env) (acl_disk st) (Clean p) False)
     \<or> rq_userID ctx \<noteq> [] \<and> (\<exists>u. Atoi (rq_userID ctx) = Some u
         \<and> fst (IsPathGranted (env_now env) (env_userDB env) (acl_grants st) u (Clean p)))"
  by (auto simp: checkPathAccess_def Let_def split: prod.splits option.splits)

lemma checkPathAccess_caches:
  "acl_disk (snd (checkPathAccess env st ctx q)) = acl_disk st
    \<or> acl_disk (snd (checkPathAccess env st ctx q)) = refreshSystemDiskCache (env_now env) (env_mounts env) (acl_disk st)"
  "acl_grants (snd (checkPathAccess env st ctx q)) = acl_grants st
    \<or> (\<exists>u. Atoi (rq_userID ctx) = Some u \<and> acl_grants (snd (checkPathAccess env st ctx q)) =
          snd (IsPathGranted (env_now env) (env_userDB env) (acl_grants st) u (Clean q)))"
  using IsPathAllowed_cache[of "env_now env" "env_mounts env" "acl_disk st" "Clean q" False]
  by (auto simp: checkPathAccess_def Let_def split: prod.splits option.splits)

lemma checkPathAccess_again:
  "fst (checkPathAccess env (snd (checkPathAccess env st ctx q)) ctx p) = fst (checkPathAccess env st ctx p)"
proof -
  let ?st = "snd (checkPathAccess env st ctx q)"
  have "fst (IsPathAllowed (env_now env) (env_mounts env) (acl_disk ?st) (Clean p) False)
      = fst (IsPathAllowed (env_now env) (env_mounts env) (acl_disk st) (Clean p) False)"
    using checkPathAccess_caches(1)[of env st ctx q] IsPathAllowed_refreshed by metis
  moreover have "fst (IsPathGranted (env_now env) (env_userDB env) (acl_grants ?st) u (Clean p))
      = fst (IsPathGranted (env_now env) (env_userDB env) (acl_grants st) u (Clean p))" if "Atoi (rq_userID ctx) = Some u" for u
    using checkPathAccess_caches(2)[of env st ctx q] that IsPathGranted_again by (metis option.inject)
  ultimately show ?thesis unfolding checkPathAccess_parts[of env ?st] checkPathAccess_parts[of env st] by auto
qed

text \<open>The answers a state gives to access and system-path checks; the checks themselves do not change them.\<close>

definition sameChecks :: "apiEnv \<Rightarrow> requestCtx \<Rightarrow> apiState \<Rightarrow> apiState \<Rightarrow> bool" where
  "sameChecks A rq st st' = ((\<forall>p. fst (checkPathAccess (ae_acl A) (as_acl st') rq p) = fst (checkPathAccess (ae_acl A) (as_acl st) rq p))
     \<and> as_stored st' = as_stored st \<and> as_w st' = as_w st \<and> as_shares st' = as_shares st \<and> as_queue st' = as_queue st
     \<and> as_deleted st' = as_deleted st)"

lemma sameChecks_refl: "sameChecks A rq st st"
  by (simp add: sameChecks_def)

lemma sameChecks_trans: "sameChecks A rq st st' \<Longrightarrow> sameChecks A rq st' st'' \<Longrightarrow> sameChecks A rq st st''"
  by (simp add: sameChecks_def)

lemma access_same: "access A rq p st = (ok, st') \<Longrightarrow> sameChecks A rq st st' \<and> ok = fst (checkPathAccess (ae_acl A) (as_acl st) rq p)"
  using checkPathAccess_again[of "ae_acl A" "as_acl st" rq p] by (auto simp: access_def sameChecks_def split: prod.splits)

text \<open>The stored configuration needs no correction.\<close>

definition cfgCurrent :: "apiEnv \<Rightarrow> apiState \<Rightarrow> bool" where
  "cfgCurrent A st = (snd (ResolveActivePaths (ae_view A) (as_stored st)) = None)"

definition critical :: "apiEnv \<Rightarrow> apiState \<Rightarrow> string \<Rightarrow> bool" where
  "critical A st p = isAncestorOfSystemPath (fst (ResolveActivePaths (ae_view A) (as_stored st))) p"

lemma systemGuard_current: "cfgCurrent A st \<Longrightarrow> systemGuard A p st = (critical A st p, st)"
  by (auto simp: systemGuard_def cfgCurrent_def critical_def split: prod.splits)

lemma sameChecks_cfg: "sameChecks A rq st st' \<Longrightarrow> cfgCurrent A st' = cfgCurrent A st \<and> critical A st' = critical A st"
  by (simp add: sameChecks_def cfgCurrent_def critical_def fun_eq_iff)

lemma deleteGuards_ok:
  assumes "deleteGuards A rq ps st = (r, st')" "cfgCurrent A st"
  shows "sameChecks A rq st st'"
    and "r = None \<Longrightarrow> \<forall>p \<in> set ps. fst (checkPathAccess (ae_acl A) (as_acl st) rq p) \<and> \<not> isProtectedName (Base p) \<and> \<not> critical A st p"
    and "r \<noteq> Some Done" "r \<noteq> Some FileDeleteError"
proof -
  have "sameChecks A rq st st' \<and> (r = None \<longrightarrow> (\<forall>p \<in> set ps. fst (checkPathAccess (ae_acl A) (as_acl st) rq p)
      \<and> \<not> isProtectedName (Base p) \<and> \<not> critical A st p)) \<and> r \<noteq> Some Done \<and> r \<noteq> Some FileDeleteError"
    using assms
  proof (induction ps arbitrary: st)
    case Nil
    then show ?case by (simp add: sameChecks_refl)
  next
    case (Cons p ps)
    obtain ok st1 where a: "access A rq p st = (ok, st1)" by force
    note s1 = access_same[OF a]
    have cfg: "cfgCurrent A st1" "critical A st1 = critical A st" using sameChecks_cfg[of A rq st st1] s1 Cons.prems(2) by auto
    show ?case
    proof (cases "ok \<and> \<not> isProtectedName (Base p) \<and> \<not> critical A st p")
      case True
      then have "deleteGuards A rq ps st1 = (r, st')"
        using Cons.prems(1) a systemGuard_current[OF cfg(1), of p] cfg(2) by simp
      from Cons.IH[OF this cfg(1)] show ?thesis
        using s1 True cfg(2) sameChecks_trans[of A rq st st1 st'] by (auto simp: sameChecks_def)
    next
      case False
      then show ?thesis
        using Cons.prems(1) a systemGuard_current[OF cfg(1), of p] cfg(2) s1 by (auto split: if_splits)
    qed
  qed
  then show "sameChecks A rq st st'" "r \<noteq> Some Done" "r \<noteq> Some FileDeleteError"
    "r = None \<Longrightarrow> \<forall>p \<in> set ps. fst (checkPathAccess (ae_acl A) (as_acl st) rq p) \<and> \<not> isProtectedName (Base p) \<and> \<not> critical A st p"
    by blast+
qed


lemma resolveDeletePath_reply: "resolveDeletePath f p = Inl r \<Longrightarrow> r \<noteq> Done \<and> r \<noteq> FileDeleteError"
  by (auto simp: resolveDeletePath_def split: if_splits sum.splits list.splits)

lemma list_all2_left: "list_all2 P xs ys \<Longrightarrow> x \<in> set xs \<Longrightarrow> \<exists>y \<in> set ys. P x y"
  by (induction rule: list_all2_induct) auto

lemma list_all2_right: "list_all2 P xs ys \<Longrightarrow> y \<in> set ys \<Longrightarrow> \<exists>x \<in> set xs. P x y"
  by (induction rule: list_all2_induct) auto

lemma resolvePaths_ok:
  assumes "resolvePaths A ps st = (res, st')" "cfgCurrent A st"
  shows "st' = st \<and> (case res of Inl r \<Rightarrow> r \<noteq> Done \<and> r \<noteq> FileDeleteError
    | Inr rs \<Rightarrow> list_all2 (\<lambda>p t. resolveDeletePath (apiFs st) p = Inr t \<and> (t \<noteq> p \<longrightarrow> \<not> isProtectedName (Base t) \<and> \<not> critical A st t)) ps rs)"
  using assms(1)
proof (induction ps arbitrary: res st')
  case (Cons p ps)
  obtain res1 st1 where r1: "resolvePaths A ps st = (res1, st1)" by force
  from Cons.IH[OF r1] Cons.prems r1 show ?case
    by (auto simp: systemGuard_current[OF assms(2)] dest: resolveDeletePath_reply
        split: sum.splits if_splits prod.splits)
qed simp

lemma DeleteFile_checks:
  assumes "cfgCurrent A st" "DeleteFile A rq paths st = (reply, st')"
  shows "if reply = Done \<or> reply = FileDeleteError
    then list_all (\<lambda>p. fst (checkPathAccess (ae_acl A) (as_acl st) rq p)
           \<and> (\<exists>t. resolveDeletePath (apiFs st) p = Inr t \<and> \<not> isProtectedName (Base t) \<and> \<not> critical A st t \<and> \<not> IsMounted A t)) paths
    else as_w st' = as_w st \<and> as_shares st' = as_shares st \<and> as_deleted st' = as_deleted st"
proof (cases "paths = []")
  case True
  then show ?thesis using assms(2) by (simp add: DeleteFile_def)
next
  case False
  obtain r1 st1 where g: "deleteGuards A rq paths st = (r1, st1)" by force
  note G = deleteGuards_ok[OF g assms(1)]
  show ?thesis
  proof (cases r1)
    case (Some r)
    then show ?thesis using assms(2) g False G by (auto simp: DeleteFile_def sameChecks_def)
  next
    case None
    have cfg: "cfgCurrent A st1" "critical A st1 = critical A st" using sameChecks_cfg[OF G(1)] assms(1) by auto
    obtain res st2 where r2: "resolvePaths A paths st1 = (res, st2)" by force
    note R = resolvePaths_ok[OF r2 cfg(1)]
    show ?thesis
    proof (cases "\<exists>rs. res = Inr rs \<and> \<not> list_ex (IsMounted A) rs")
      case False
      then show ?thesis
        using assms(2) g None r2 R G(1) \<open>paths \<noteq> []\<close> by (auto simp: DeleteFile_def sameChecks_def split: sum.splits if_splits)
    next
      case True
      then obtain rs where rs: "res = Inr rs" "\<not> list_ex (IsMounted A) rs" by blast
      have fs: "apiFs st1 = apiFs st" using G(1) by (simp add: sameChecks_def)
      have "\<exists>t. resolveDeletePath (apiFs st) p = Inr t \<and> \<not> isProtectedName (Base t) \<and> \<not> critical A st t \<and> \<not> IsMounted A t"
        if p: "p \<in> set paths" for p
      proof -
        obtain t where "t \<in> set rs" "resolveDeletePath (apiFs st) p = Inr t"
            "t \<noteq> p \<longrightarrow> \<not> isProtectedName (Base t) \<and> \<not> critical A st t"
          using list_all2_left[OF _ p] R rs(1) fs cfg(2) by fastforce
        then show ?thesis using G(2)[OF None] p rs(2) by (cases "t = p") (auto simp: list_ex_iff)
      qed
      moreover have "reply = Done \<or> reply = FileDeleteError"
        using assms(2) g None r2 rs False by (auto simp: DeleteFile_def split: prod.splits bool.splits if_splits)
      ultimately show ?thesis using G(2)[OF None] by (simp add: list_all_iff)
    qed
  qed
qed


text \<open>
  C9. The delete handler touches nothing before every path of the request has passed every check: files and shares change
  only when each requested path is accessible to the requester, it or the entry it stands for exists, and that entry is neither
  a protected folder, nor above a system directory, nor mounted. On every other reply files, shares and
  notifications are as before.
\<close>

theorem DeleteFile_guarded:
  assumes "cfgCurrent A st" "DeleteFile A rq paths st = (reply, st')"
  shows "if reply = Done \<or> reply = FileDeleteError
    then list_all (\<lambda>p. fst (checkPathAccess (ae_acl A) (as_acl st) rq p)
           \<and> (\<exists>t. resolveDeletePath (apiFs st) p = Inr t \<and> \<not> isProtectedName (Base t) \<and> \<not> critical A st t \<and> \<not> IsMounted A t)) paths
    else as_w st' = as_w st \<and> as_shares st' = as_shares st \<and> as_deleted st' = as_deleted st"
  by (rule DeleteFile_checks[OF assms])

section \<open>What a deletion leaves\<close>

text \<open>Nodes only disappear.\<close>

definition shrinks :: "fs \<Rightarrow> fs \<Rightarrow> bool" where
  "shrinks f g = (\<forall>q. fsGet g q = None \<or> fsGet g q = fsGet f q)"

lemma shrinks_refl: "shrinks f f"
  by (simp add: shrinks_def)

lemma shrinks_trans: "shrinks f g \<Longrightarrow> shrinks g h \<Longrightarrow> shrinks f h"
  by (metis shrinks_def)

lemma shrinks_none: "shrinks f g \<Longrightarrow> fsGet f q = None \<Longrightarrow> fsGet g q = None"
  by (metis shrinks_def)

lemma shrinks_removeAll: "p \<noteq> [] \<Longrightarrow> shrinks f (fsRemoveAll f p)"
  by (simp add: shrinks_def fsRemoveAll_get)

lemma shrinks_remove: "fsRemove f p = Inr g \<Longrightarrow> shrinks f g"
  using fsRemove_get[of f p g] by (auto simp: shrinks_def)

lemma hoare_purge_shrinks: "hoare (shrinks f0) (purgeThumb E path) (\<lambda>_. shrinks f0)"
proof -
  have rm: "hoare (shrinks f0) (wIgnore (wDo (\<lambda>g. fsRemove g p))) (\<lambda>_. shrinks f0)" for p
    by (intro hoare_ignore hoare_do) (auto intro: shrinks_trans shrinks_remove)
  show ?thesis unfolding purgeThumb_def
    by (rule hoare_bind[where Q = "\<lambda>_. shrinks f0"], rule hoare_fs, assumption)
      (auto intro!: hoare_if hoare_return hoare_bind[where Q = "\<lambda>_. shrinks f0"] rm)
qed

lemma purge_returns: "\<exists>w'. purgeThumb E path w = Some (Inr (), w')"
  by (auto simp: purgeThumb_def wBind_def wFs_def wReturn_def wIgnore_def wTry_def wDo_def Let_def split: sum.splits)

lemma runW_purge:
  assumes "runW (purgeThumb E path) st = (r, st1)" "envSpec E" "framed f0 (insert thumbDir K) (apiFs st)"
  shows "framed f0 (insert thumbDir K) (apiFs st1)" "shrinks (apiFs st) (apiFs st1)" "as_shares st1 = as_shares st"
proof -
  obtain w where w: "purgeThumb E path (as_w st) = Some (Inr (), w)" using purge_returns by blast
  have st1: "st1 = st\<lparr>as_w := w\<rparr>" using assms(1) w by (simp add: runW_def)
  have "hoare (framed f0 (insert thumbDir K)) (purgeThumb E path) (\<lambda>_. framed f0 (insert thumbDir K))"
    by (rule hoare_purge[OF assms(2), where K = "insert thumbDir K"]) simp_all
  from hoareD[OF this assms(3) w] show "framed f0 (insert thumbDir K) (apiFs st1)" by (simp add: st1)
  from hoareD[OF hoare_purge_shrinks shrinks_refl w] show "shrinks (apiFs st) (apiFs st1)" by (simp add: st1)
  show "as_shares st1 = as_shares st" by (simp add: st1)
qed

lemma runW_removeAll:
  assumes "runW (wRemoveAll E p) st = (r, st1)" "envSpec E" "framed f0 K (apiFs st)" "p \<in> K" "p \<noteq> []"
  shows "framed f0 K (apiFs st1)" "as_shares st1 = as_shares st"
    "r = Inr () \<Longrightarrow> apiFs st1 = fsRemoveAll (apiFs st) p"
proof -
  obtain w where w: "wRemoveAll E p (as_w st) = Some (r, w)" "st1 = st\<lparr>as_w := w\<rparr>"
    using assms(1) by (auto simp: runW_def wRemoveAll_def Let_def split: if_splits)
  have "fsWF (w_fs w) \<and> outside {p} (apiFs st) (w_fs w)"
    using removeAll_step[OF assms(2) w(1) assms(5)] framed_wf[OF assms(3)] by simp
  then show "framed f0 K (apiFs st1)"
    using framed_step[OF assms(3)] assms(4) outside_mono[of "{p}" "apiFs st" "w_fs w" K] w(2) by simp
  show "as_shares st1 = as_shares st" by (simp add: w(2))
  show "r = Inr () \<Longrightarrow> apiFs st1 = fsRemoveAll (apiFs st) p"
    using w by (auto simp: wRemoveAll_def Let_def split: if_splits)
qed

definition cleanPath :: "string \<Rightarrow> bool" where
  "cleanPath v = (v = path_of (segs v) \<and> segs v \<noteq> [])"

lemma DeleteShareByPath_faults: "ss_faults s = [] \<Longrightarrow> ss_faults (DeleteShareByPath like p s) = []"
  by (simp add: DeleteShareByPath_def changeRows_no_faults)

lemma deleteLoop_spec:
  assumes "envSpec (ae_env A)" "likeSpec (ae_like A)" "deleteLoop A vs st = (ok, st')"
    and "framed f0 (insert thumbDir K) (apiFs st)" "list_all cleanPath vs" "segs ` set vs \<subseteq> K" "ss_faults (as_shares st) = []"
  shows "framed f0 (insert thumbDir K) (apiFs st') \<and> set (ss_rows (as_shares st')) \<subseteq> set (ss_rows (as_shares st))
    \<and> (ok \<longrightarrow> shrinks (apiFs st) (apiFs st') \<and> (\<forall>v \<in> set vs. fsGet (apiFs st') (segs v) = None
        \<and> (\<forall>r \<in> set (ss_rows (as_shares st')). \<not> atOrUnder v (sh_Path r))))"
  using assms(3-7)
proof (induction vs arbitrary: st)
  case Nil
  then show ?case by (simp add: shrinks_refl)
next
  case (Cons v vs)
  have v: "v = path_of (segs v)" "segs v \<noteq> []" using Cons.prems(3) by (auto simp: cleanPath_def)
  obtain r1 st1 where p: "runW (purgeThumb (ae_env A) v) st = (r1, st1)" by force
  note P = runW_purge[OF p assms(1) Cons.prems(2)]
  obtain r2 st2 where m: "runW (wRemoveAll (ae_env A) (segs v)) st1 = (r2, st2)" by force
  have "segs v \<in> insert thumbDir K" using Cons.prems(4) by auto
  note R = runW_removeAll[OF m assms(1) P(1) this v(2)]
  show ?case
  proof (cases r2)
    case (Inl e)
    then show ?thesis using Cons.prems(1) p m P R by simp
  next
    case (Inr u)
    let ?sh = "DeleteShareByPath (ae_like A) v (as_shares st2)"
    let ?st3 = "st2\<lparr>as_shares := ?sh\<rparr>"
    have f2: "ss_faults (as_shares st2) = []" using P R Cons.prems(5) by simp
    have gone: "r \<in> set (ss_rows (as_shares st))" "\<not> atOrUnder v (sh_Path r)" if "r \<in> set (ss_rows ?sh)" for r
      using DeleteShareByPath_gone[OF assms(2) f2 segs_proper[of v] v(2), folded v(1), of r] that P(3) R(2) by simp_all
    have fs2: "apiFs st2 = fsRemoveAll (apiFs st1) (segs v)" using R(3) Inr by simp
    have IH: "framed f0 (insert thumbDir K) (apiFs st') \<and> set (ss_rows (as_shares st')) \<subseteq> set (ss_rows ?sh)
      \<and> (ok \<longrightarrow> shrinks (apiFs st2) (apiFs st') \<and> (\<forall>v \<in> set vs. fsGet (apiFs st') (segs v) = None
          \<and> (\<forall>r \<in> set (ss_rows (as_shares st')). \<not> atOrUnder v (sh_Path r))))"
      using Cons.IH[of ?st3] Cons.prems p m Inr R(1) DeleteShareByPath_faults[OF f2] by simp
    have sh: "shrinks (apiFs st) (apiFs st2)"
      using P(2) shrinks_removeAll[OF v(2), of "apiFs st1"] fs2 shrinks_trans by metis
    have none: "fsGet (apiFs st2) (segs v) = None" by (simp add: fs2 fsRemoveAll_get v(2))
    have "fsGet (apiFs st') (segs v) = None" "shrinks (apiFs st) (apiFs st')" if ok
      using IH that none sh shrinks_none shrinks_trans by blast+
    then show ?thesis using IH gone unfolding set_simps ball_simps by blast
  qed
qed


definition properNames :: "fs \<Rightarrow> bool" where
  "properNames f = list_all (\<lambda>e. list_all proper (fst e)) f"

lemma dirNames_proper:
  assumes "properNames f" "x \<in> set (dirNames f as)"
  shows "proper x \<and> fsGet f (as @ [x]) \<noteq> None"
proof -
  obtain e where e: "e \<in> set f" "fst e \<noteq> []" "butlast (fst e) = as" "x = last (fst e)"
    using assms(2) by (auto simp: dirNames_def)
  have k: "fst e = as @ [x]" using e(2-4) by (metis append_butlast_last_id)
  then have "proper x" using assms(1) e(1) by (auto simp: properNames_def list_all_iff)
  moreover have "map_of f (as @ [x]) \<noteq> None" using e(1) k by (metis map_of_eq_None_iff image_eqI)
  ultimately show ?thesis by (simp add: fsGet_def)
qed

lemma resolveDeletePath_clean:
  assumes "properNames f" "cleanPath p" "resolveDeletePath f p = Inr t"
  shows "cleanPath t \<and> fsGet f (segs t) \<noteq> None \<and> butlast (segs t) = butlast (segs p)"
proof (cases "fsGet f (segs p) = None")
  case False
  then show ?thesis using assms by (simp add: resolveDeletePath_def)
next
  case True
  obtain as b where ab: "segs p = as @ [b]" using assms(2) by (metis cleanPath_def rev_exhaust)
  have pr: "list_all proper as" "proper b" using segs_proper[of p] by (auto simp: ab)
  have p: "p = path_of (as @ [b])" using assms(2) by (simp add: cleanPath_def ab)
  have dir: "Dir p = path_of as" "segs (Dir p) = as" using Dir_path_of[OF pr] p pr by simp_all
  obtain es where es: "ReadDir as f = Inr es" using assms(3) True dir by (auto simp: resolveDeletePath_def split: if_splits sum.splits)
  then have names: "map fst es = dirNames f as"
    by (auto simp: ReadDir_def comp_def split: option.splits node.splits)
  obtain x where flt: "filter (\<lambda>x. jsonMangledName x = Base p) (dirNames f as) = [x]" and x2: "t = Join [path_of as, x]"
    using assms(3) True dir es names by (auto simp: resolveDeletePath_def split: if_splits list.splits)
  have "x \<in> set (filter (\<lambda>x. jsonMangledName x = Base p) (dirNames f as))" by (simp only: flt list.set_intros)
  then have x: "x \<in> set (dirNames f as)" "t = Join [path_of as, x]" using x2 by auto
  note X = dirNames_proper[OF assms(1) x(1)]
  have "t = path_of (as @ [x])" using x(2) X pr Join2_rooted[of "path_of as" x] by (simp add: comps_proper_name proper_def)
  then show ?thesis using X pr ab by (simp add: cleanPath_def)
qed


definition deleteTargets :: "fs \<Rightarrow> string list \<Rightarrow> string list set" where
  "deleteTargets f paths = {segs t |p t. p \<in> set paths \<and> resolveDeletePath f p = Inr t}"



section \<open>Renaming keeps shares alive\<close>

lemma movedShare_under:
  assumes "list_all proper ds" "ds \<noteq> []" "list_all proper qs" "es \<noteq> []" "sh_Path r = path_of (ds @ qs)"
  shows "sh_Path (movedShare (path_of ds) (path_of es) now r) = path_of (es @ qs)"
proof (cases "qs = []")
  case True
  then show ?thesis using assms(5) by (simp add: movedShare_def atOrUnder_def)
next
  case False
  have "atOrUnder (path_of ds) (path_of (ds @ qs))" using assms by (subst atOrUnder_path_of) auto
  then show ?thesis using assms False by (simp add: movedShare_def path_of_append)
qed

lemma movedShare_elsewhere:
  assumes "list_all proper ds" "ds \<noteq> []" "cleanPath (sh_Path r)" "\<not> prefix ds (segs (sh_Path r))"
  shows "movedShare (path_of ds) new now r = r"
  using assms atOrUnder_path_of[OF segs_proper[of "sh_Path r"] assms(1,2)] by (simp add: movedShare_def cleanPath_def)

lemma RenameFile_200:
  assumes "RenameFile E oldF newF st = (200, st')" "fsWF (apiFs st)"
  shows "fsRename (apiFs st) (segs oldF) (segs newF) = Inr (apiFs st') \<and> fsGet (apiFs st) (segs newF) = None
    \<and> as_shares st' = as_shares st"
  using assms by (auto simp: RenameFile_def runW_def wRename_def elim!: wDo_cases split: if_splits prod.splits sum.splits option.splits)

lemma RenamePath_200:
  assumes "RenamePath A rq op np st = (Renamed 200, st')"
  obtains st2 r st3 st4 where "as_w st2 = as_w st" "as_shares st2 = as_shares st"
    "runW (purgeThumb (ae_env A) op) st2 = (r, st3)" "RenameFile (ae_env A) op np st3 = (200, st4)" "apiFs st' = apiFs st4"
    "as_shares st' = snd (RewriteSharePathPrefix (ae_like A) op np (as_shares st4))"
proof -
  obtain ok1 st1 where a1: "access A rq op st = (ok1, st1)" by force
  obtain ok2 st2 where a2: "access A rq np st1 = (ok2, st2)" by force
  obtain r st3 where p: "runW (purgeThumb (ae_env A) op) st2 = (r, st3)" by force
  obtain code st4 where n: "RenameFile (ae_env A) op np st3 = (code, st4)" by force
  have "sameChecks A rq st st2" using access_same[OF a1] access_same[OF a2] sameChecks_trans by blast
  then have "as_w st2 = as_w st" "as_shares st2 = as_shares st" by (simp_all add: sameChecks_def)
  then show thesis
    using assms a1 a2 p n by (intro that[of st2 r st3 st4]) (auto simp: RenamePath_def Let_def split: if_splits)
qed

text \<open>
  C11. Renaming never leaves a share dangling: when the handler renames a directory, every share of a path in it is redirected to the
  same path under the new name, no other share changes, and each share that pointed to an existing file or directory points to
  that same node afterwards.
\<close>

theorem RenamePath_shares:
  assumes "envSpec (ae_env A)" "likeSpec (ae_like A)" "fsWF (apiFs st)" "ss_faults (as_shares st) = []"
    and "distinct (map sh_ID (ss_rows (as_shares st)))" "cleanPath op" "cleanPath np"
    and "RenamePath A rq op np st = (Renamed 200, st')"
  shows "ss_rows (as_shares st') = map (movedShare op np (ss_now (as_shares st))) (ss_rows (as_shares st))
    \<and> list_all (\<lambda>r. cleanPath (sh_Path r) \<and> fsGet (apiFs st) (segs (sh_Path r)) \<noteq> None \<and> \<not> prefix thumbDir (segs (sh_Path r))
         \<longrightarrow> fsGet (apiFs st') (segs (sh_Path (movedShare op np (ss_now (as_shares st)) r))) = fsGet (apiFs st) (segs (sh_Path r)))
       (ss_rows (as_shares st))"
proof -
  define mv where "mv = movedShare op np (ss_now (as_shares st))"
  obtain st2 u st3 st4 where S: "as_w st2 = as_w st" "as_shares st2 = as_shares st"
    "runW (purgeThumb (ae_env A) op) st2 = (u, st3)" "RenameFile (ae_env A) op np st3 = (200, st4)" "apiFs st' = apiFs st4"
    "as_shares st' = snd (RewriteSharePathPrefix (ae_like A) op np (as_shares st4))"
    using RenamePath_200[OF assms(8)] by blast
  let ?ds = "segs op" and ?es = "segs np" and ?f = "apiFs st" and ?g = "apiFs st3" and ?h = "apiFs st'"
  have op: "op = path_of ?ds" "?ds \<noteq> []" and np: "np = path_of ?es" "?es \<noteq> []" using assms(6,7) by (simp_all add: cleanPath_def)
  have fr0: "framed ?f (insert thumbDir {}) (apiFs st2)" using S(1) assms(3) by (simp add: framed_def outside_refl)
  note P = runW_purge[OF S(3) assms(1) fr0]
  have R: "fsRename ?g ?ds ?es = Inr ?h" "fsGet ?g ?es = None" "as_shares st4 = as_shares st"
    using RenameFile_200[OF S(4)] P(1,3) S(2,5) by (auto simp: framed_def)
  have wf: "fsWF ?g" using P(1) by (simp add: framed_def)
  note T = fsRename_tree[OF wf R(1,2)] and F = fsRename_free[OF wf R(1,2)]
  have ne: "?ds \<noteq> ?es" using F(5) by (auto simp: disjoint_def)
  obtain n s' where rw: "RewriteSharePathPrefix (ae_like A) op np (as_shares st) = (n, s')" by force
  have rows: "ss_rows (as_shares st') = map mv (ss_rows (as_shares st))"
    using RewriteSharePathPrefix_rows[OF assms(2,4,5) segs_proper op(2) segs_proper np(2) ne] rw S(6) R(3) op(1) np(1)
    by (metis mv_def snd_conv)
  have keep: "fsGet ?g q = fsGet ?f q" if "\<not> prefix thumbDir q" for q using P(1) that by (simp add: framed_def outside_def)
  have "fsGet ?h (segs (sh_Path (mv r))) = fsGet ?f (segs (sh_Path r))"
    if r: "cleanPath (sh_Path r)" "fsGet ?f (segs (sh_Path r)) \<noteq> None" "\<not> prefix thumbDir (segs (sh_Path r))" for r
  proof (cases "prefix ?ds (segs (sh_Path r))")
    case True
    then obtain qs where qs: "segs (sh_Path r) = ?ds @ qs" by (auto simp: prefix_def)
    have pq: "list_all proper qs" using segs_proper[of "sh_Path r"] by (simp add: qs)
    have "sh_Path r = path_of (?ds @ qs)" using r(1) by (simp add: cleanPath_def qs)
    then have "sh_Path (mv r) = path_of (?es @ qs)"
      using movedShare_under[OF segs_proper op(2) pq np(2)] op(1) np(1) by (metis mv_def)
    then show ?thesis using T[of "?es @ qs"] keep r(3) pq segs_proper[of np] by (simp add: qs)
  next
    case False
    have "mv r = r" using movedShare_elsewhere[OF segs_proper op(2) r(1) False, folded op(1)] by (simp add: mv_def)
    moreover have "\<not> prefix ?es (segs (sh_Path r))"
      using wf_under_none[OF wf R(2)] r keep[OF r(3)] by (auto simp: prefix_def)
    ultimately show ?thesis using T[of "segs (sh_Path r)"] False keep r(3) by simp
  qed
  then show ?thesis using rows by (simp add: list_all_iff mv_def)
qed


section \<open>Admission of batches\<close>

lemma operateGuards_eq: "operateGuards A rq vs st = deleteGuards A rq (map fi_From vs) st"
  by (induction vs arbitrary: st) (simp_all split: prod.splits)

definition sizeOr0 :: "fs \<Rightarrow> FileItem \<Rightarrow> int" where
  "sizeOr0 f v = (case GetFileOrDirSize (segs (fi_From v)) f of Inl _ \<Rightarrow> 0 | Inr n \<Rightarrow> n)"

definition sizedItem :: "fs \<Rightarrow> FileItem \<Rightarrow> FileItem" where
  "sizedItem f v = (case GetFileOrDirSize (segs (fi_From v)) f of Inl _ \<Rightarrow> v | Inr n \<Rightarrow> v\<lparr>fi_Size := n\<rparr>)"

lemma sizeOf_exists:
  "GetFileOrDirSize p f = Inl e \<Longrightarrow> fsGet f p = None" "GetFileOrDirSize p f = Inr n \<Longrightarrow> fsGet f p \<noteq> None"
  by (auto simp: GetFileOrDirSize_def split: option.splits node.splits)

lemma deleteGuards_reply:
  "deleteGuards A rq ps st = (Some x, st') \<Longrightarrow> x = AccessDenied \<or> (\<exists>n. x = ProtectedName n) \<or> (\<exists>n. x = SystemCritical n)"
  by (induction ps arbitrary: st) (auto split: prod.splits if_splits)

lemma measureItems_eq:
  "measureItems A f ty vs = (if ty = ''move'' \<and> list_ex (\<lambda>v. fsGet f (segs (fi_From v)) \<noteq> None \<and> IsMounted A (fi_From v)) vs then None
     else Some (map (sizedItem f) vs, sum_list (map (sizeOr0 f) vs)))"
proof (induction vs)
  case (Cons v vs)
  then show ?case
    by (cases "GetFileOrDirSize (segs (fi_From v)) f")
      (auto simp: sizedItem_def[of f v] sizeOr0_def[of f v] dest!: sizeOf_exists)
qed simp



section \<open>Witnesses\<close>

definition demoApi :: apiEnv where
  "demoApi = \<lparr>ae_acl = demoAclEnv, ae_view = \<lparr>fv_stat = \<lambda>_. True, fv_isDir = \<lambda>_. True, fv_eval = Some\<rparr>, ae_env = demoEnv,
     ae_mounted = \<lambda>_. False, ae_connections = [], ae_like = prefixLike\<rparr>"

definition demoApiState :: apiState where
  "demoApiState = \<lparr>as_acl = demoAclState, as_stored = None, as_w = demoWorker, as_shares = demoShares [''/s/x'', ''/d''],
     as_queue = emptyQueue, as_deleted = []\<rparr>"

definition rootCtx :: requestCtx where
  "rootCtx = \<lparr>rq_role = ''admin'', rq_userID = ''1''\<rparr>"

lemma demoApi_ok:
  "envSpec (ae_env demoApi)" "likeSpec (ae_like demoApi)" "cfgCurrent demoApi demoApiState" "fsWF (apiFs demoApiState)"
  "properNames (apiFs demoApiState)" "ss_faults (as_shares demoApiState) = []" "distinct (map sh_ID (ss_rows (as_shares demoApiState)))"
  "cleanPath ''/s/x''" "cleanPath ''/s/y''" "list_all cleanPath [''/s/x'']"
proof -
  show "envSpec (ae_env demoApi)" "likeSpec (ae_like demoApi)" by (simp_all add: demoApi_def demoEnv_ok prefixLike_spec)
  show "ss_faults (as_shares demoApiState) = []" "distinct (map sh_ID (ss_rows (as_shares demoApiState)))"
    by (simp_all add: demoApiState_def demoShares_def demoShare_def)
  show "cfgCurrent demoApi demoApiState" "fsWF (apiFs demoApiState)" "properNames (apiFs demoApiState)"
    "cleanPath ''/s/x''" "cleanPath ''/s/y''" "list_all cleanPath [''/s/x'']" by code_simp+
qed

text \<open>Without faults of the file system every resolved path is removed.\<close>

lemma runW_no_faults:
  assumes "w_faults (as_w st) = []"
  shows "w_faults (as_w (snd (runW (purgeThumb E p) st))) = []" "\<exists>st'. runW (wRemoveAll E q) st = (Inr (), st') \<and> w_faults (as_w st') = []"
  using assms
  by (auto simp: runW_def purgeThumb_def wBind_def wFs_def wReturn_def wIgnore_def wTry_def wDo_def wRemoveAll_def Let_def split: sum.splits)

lemma deleteLoop_no_faults: "w_faults (as_w st) = [] \<Longrightarrow> fst (deleteLoop A vs st)"
proof (induction vs arbitrary: st)
  case (Cons v vs)
  let ?st1 = "snd (runW (purgeThumb (ae_env A) v) st)"
  obtain st2 where "runW (wRemoveAll (ae_env A) (segs v)) ?st1 = (Inr (), st2)" "w_faults (as_w st2) = []"
    using runW_no_faults(2)[OF runW_no_faults(1)[OF Cons.prems]] by blast
  then show ?case using Cons.IH[of "st2\<lparr>as_shares := DeleteShareByPath (ae_like A) v (as_shares st2)\<rparr>"] by simp
qed simp

lemma DeleteFile_done:
  assumes "paths \<noteq> []" "deleteGuards A rq paths st = (None, st1)" "resolvePaths A paths st1 = (Inr rs, st2)"
    and "\<not> list_ex (IsMounted A) rs" "w_faults (as_w st2) = []"
  shows "fst (DeleteFile A rq paths st) = Done"
  using assms deleteLoop_no_faults[OF assms(5), of A rs] by (cases "deleteLoop A rs st2") (auto simp: DeleteFile_def)

lemma demo_access: "access A rootCtx p st = (True, st)"
  by (simp add: access_def checkPathAccess_def rootCtx_def)

lemma demo_paths:
  "\<not> critical demoApi demoApiState ''/s/x''" "Base ''/s/x'' = ''x''" "Base ''/s/y'' = ''y''" "segs ''/s/x'' = [''s'', ''x'']"
  "segs ''/s/y'' = [''s'', ''y'']" "segs ''/d'' = [''d'']" "\<not> isProtectedName ''x''" "\<not> isProtectedName ''y''"
  "resolveDeletePath (apiFs demoApiState) ''/s/x'' = Inr ''/s/x''"
  by code_simp+

lemma demo_DeleteFile: "fst (DeleteFile demoApi rootCtx [''/s/x''] demoApiState) = Done"
proof (rule DeleteFile_done)
  show "deleteGuards demoApi rootCtx [''/s/x''] demoApiState = (None, demoApiState)"
    by (simp add: demo_access demo_paths systemGuard_current[OF demoApi_ok(3)])
  show "resolvePaths demoApi [''/s/x''] demoApiState = (Inr [''/s/x''], demoApiState)" by (simp add: demo_paths)
  show "\<not> list_ex (IsMounted demoApi) [''/s/x'']" "w_faults (as_w demoApiState) = []"
    by (simp_all add: IsMounted_def demoApi_def demoApiState_def demoWorker_def)
qed simp

theorem DeleteFile_guarded_witness:
  "fst (DeleteFile demoApi rootCtx [''/s/x''] demoApiState) = Done
   \<and> fst (checkPathAccess (ae_acl demoApi) (as_acl demoApiState) rootCtx ''/s/x'')
   \<and> (\<exists>t. resolveDeletePath (apiFs demoApiState) ''/s/x'' = Inr t \<and> \<not> IsMounted demoApi t)"
  using DeleteFile_guarded[OF demoApi_ok(3), of rootCtx "[''/s/x'']" Done "snd (DeleteFile demoApi rootCtx [''/s/x''] demoApiState)"]
    demo_DeleteFile by (auto simp: prod_eq_iff)


lemma demo_RenamePath: "fst (RenamePath demoApi rootCtx ''/s/x'' ''/s/y'' demoApiState) = Renamed 200"
proof -
  have "fst (RenameFile demoEnv ''/s/x'' ''/s/y'' (snd (runW (purgeThumb demoEnv ''/s/x'') demoApiState))) = 200" by code_simp
  then show ?thesis
    by (auto simp: RenamePath_def demo_access demo_paths IsMounted_def demoApi_def Let_def split: prod.splits)
qed

theorem RenamePath_shares_witness:
  "fst (RenamePath demoApi rootCtx ''/s/x'' ''/s/y'' demoApiState) = Renamed 200
   \<and> map sh_Path (ss_rows (as_shares (snd (RenamePath demoApi rootCtx ''/s/x'' ''/s/y'' demoApiState)))) = [''/s/y'', ''/d'']
   \<and> fsGet (apiFs (snd (RenamePath demoApi rootCtx ''/s/x'' ''/s/y'' demoApiState))) (segs ''/s/y'') = Some Directory"
proof -
  let ?st' = "snd (RenamePath demoApi rootCtx ''/s/x'' ''/s/y'' demoApiState)"
  have run: "RenamePath demoApi rootCtx ''/s/x'' ''/s/y'' demoApiState = (Renamed 200, ?st')" using demo_RenamePath by (simp add: prod_eq_iff)
  note R = RenamePath_shares[OF demoApi_ok(1,2,4,6,7,8,9) run]
  let ?mv = "movedShare ''/s/x'' ''/s/y'' (ss_now (as_shares demoApiState))"
  have rows: "ss_rows (as_shares demoApiState) = [demoShare 1 ''/s/x'', demoShare 2 ''/d'']"
    by (simp add: demoApiState_def demoShares_def numeral_2_eq_2)
  have mv: "sh_Path (?mv (demoShare 1 ''/s/x'')) = ''/s/y''" "sh_Path (?mv (demoShare 2 ''/d'')) = ''/d''" by code_simp+
  have p: "sh_Path (demoShare 1 ''/s/x'') = ''/s/x''" by (simp add: demoShare_def newShare_def)
  have "fsGet (apiFs demoApiState) (segs ''/s/x'') = Some Directory" "\<not> prefix thumbDir (segs ''/s/x'')" by code_simp+
  then show ?thesis using R mv p demoApi_ok(8) demo_RenamePath by (simp add: rows)
qed

definition demoBatch :: FileOperate where
  "demoBatch = demoOverwrite\<lparr>fo_TotalSize := 0\<rparr>"


text \<open>
  The name checks look at the text of the path, not at the directory it denotes: a path that ends in dot-dot passes them although
  it denotes a protected folder.
\<close>

lemma protected_name_bypass:
  "fst (deleteGuards demoApi rootCtx [''/DATA/Documents/x/..''] demoApiState) = None
   \<and> segs ''/DATA/Documents/x/..'' = segs ''/DATA/Documents'' \<and> isProtectedName (Base ''/DATA/Documents'')"
proof -
  have "\<not> critical demoApi demoApiState ''/DATA/Documents/x/..''" "\<not> isProtectedName (Base ''/DATA/Documents/x/..'')"
    "segs ''/DATA/Documents/x/..'' = segs ''/DATA/Documents''" "isProtectedName (Base ''/DATA/Documents'')" by code_simp+
  then show ?thesis by (simp add: demo_access systemGuard_current[OF demoApi_ok(3)])
qed

end
