(* ===== verification/PathLock.thy ===== *)
theory PathLock
  imports GoPath "HOL-Library.Multiset"
begin

text \<open>
  Per-path locks (\<^verbatim>\<open>service/pathlock/pathlock.go\<close>): entries that exist only while a goroutine holds or waits for them, each
  with a read-write mutex and a reference count. A goroutine takes its locks one after the other, as
  \<^verbatim>\<open>FileOperate\<close> does for its sources and its destination, and gives them back in the same order.
  One step is one section under the manager's mutex or one operation on a read-write mutex.
\<close>

section \<open>Definitions\<close>

record entry =
  rw_writer :: bool
  rw_readers :: nat
  waiters :: int

record manager =
  locks :: "(string \<times> nat) list"
  heap :: "nat \<Rightarrow> entry"
  next_entry :: nat

definition newEntry :: entry where
  "newEntry = \<lparr>rw_writer = False, rw_readers = 0, waiters = 0\<rparr>"

definition emptyManager :: manager where
  "emptyManager = \<lparr>locks = [], heap = \<lambda>_. newEntry, next_entry = 0\<rparr>"

definition addWaiter :: "nat \<Rightarrow> int \<Rightarrow> manager \<Rightarrow> manager" where
  "addWaiter e d m = m\<lparr>heap := (heap m)(e := (heap m e)\<lparr>waiters := waiters (heap m e) + d\<rparr>)\<rparr>"

definition acquire :: "string \<Rightarrow> manager \<Rightarrow> nat \<times> manager" where
  "acquire path m =
     (case map_of (locks m) (Clean path) of
        Some e \<Rightarrow> (e, addWaiter e 1 m)
      | None \<Rightarrow> (next_entry m,
          addWaiter (next_entry m) 1 (m\<lparr>locks := (Clean path, next_entry m) # locks m,
            heap := (heap m)(next_entry m := newEntry), next_entry := Suc (next_entry m)\<rparr>)))"

definition release :: "string \<Rightarrow> nat \<Rightarrow> manager \<Rightarrow> manager" where
  "release path e m =
     (let m1 = addWaiter e (- 1) m
      in if waiters (heap m1 e) = 0 then m1\<lparr>locks := filter (\<lambda>x. fst x \<noteq> Clean path) (locks m1)\<rparr> else m1)"

text \<open>The read-write mutex: \<open>None\<close> when the call has to wait; \<open>w\<close> tells a write lock from a read lock.\<close>

definition rwLock :: "bool \<Rightarrow> nat \<Rightarrow> manager \<Rightarrow> manager option" where
  "rwLock w e m =
     (if w then (if rw_writer (heap m e) \<or> rw_readers (heap m e) \<noteq> 0 then None
                 else Some (m\<lparr>heap := (heap m)(e := (heap m e)\<lparr>rw_writer := True\<rparr>)\<rparr>))
      else (if rw_writer (heap m e) then None
            else Some (m\<lparr>heap := (heap m)(e := (heap m e)\<lparr>rw_readers := Suc (rw_readers (heap m e))\<rparr>)\<rparr>)))"

definition rwUnlock :: "bool \<Rightarrow> nat \<Rightarrow> manager \<Rightarrow> manager" where
  "rwUnlock w e m =
     m\<lparr>heap := (heap m)(e := (if w then (heap m e)\<lparr>rw_writer := False\<rparr>
                               else (heap m e)\<lparr>rw_readers := rw_readers (heap m e) - 1\<rparr>))\<rparr>"

text \<open>A goroutine: the locks it still has to take, the one it waits for, those it holds, and one it is releasing.\<close>

type_synonym lockRef = "bool \<times> string \<times> nat"

record goroutine =
  g_todo :: "(bool \<times> string) list"
  g_wait :: "lockRef option"
  g_held :: "lockRef list"
  g_rel :: "(string \<times> nat) option"

definition LockWrite :: "string \<Rightarrow> goroutine" where
  "LockWrite path = \<lparr>g_todo = [(True, path)], g_wait = None, g_held = [], g_rel = None\<rparr>"

definition LockRead :: "string \<Rightarrow> goroutine" where
  "LockRead path = \<lparr>g_todo = [(False, path)], g_wait = None, g_held = [], g_rel = None\<rparr>"

text \<open>The locks of a file operation: every source, then the destination unless it is empty.\<close>

definition lockBatch :: "string list \<Rightarrow> string \<Rightarrow> goroutine" where
  "lockBatch froms dest = \<lparr>g_todo = map (\<lambda>p. (True, p)) froms @ (if dest \<noteq> [] then [(True, dest)] else []),
     g_wait = None, g_held = [], g_rel = None\<rparr>"

inductive lockStep :: "manager \<times> goroutine multiset \<Rightarrow> manager \<times> goroutine multiset \<Rightarrow> bool" where
  spawn: "g_wait g = None \<Longrightarrow> g_held g = [] \<Longrightarrow> g_rel g = None \<Longrightarrow> lockStep (m, G) (m, add_mset g G)"
| request: "\<lbrakk>g_todo g = (w, p) # rest; g_wait g = None; g_rel g = None; acquire p m = (e, m')\<rbrakk>
     \<Longrightarrow> lockStep (m, add_mset g G) (m', add_mset (g\<lparr>g_todo := rest, g_wait := Some (w, p, e)\<rparr>) G)"
| enter: "\<lbrakk>g_wait g = Some (w, p, e); rwLock w e m = Some m'\<rbrakk>
     \<Longrightarrow> lockStep (m, add_mset g G) (m', add_mset (g\<lparr>g_wait := None, g_held := g_held g @ [(w, p, e)]\<rparr>) G)"
| unlock: "\<lbrakk>g_todo g = []; g_wait g = None; g_rel g = None; g_held g = (w, p, e) # rest\<rbrakk>
     \<Longrightarrow> lockStep (m, add_mset g G) (rwUnlock w e m, add_mset (g\<lparr>g_held := rest, g_rel := Some (p, e)\<rparr>) G)"
| giveBack: "g_rel g = Some (p, e)
     \<Longrightarrow> lockStep (m, add_mset g G) (release p e m, add_mset (g\<lparr>g_rel := None\<rparr>) G)"

inductive lockRun :: "manager \<times> goroutine multiset \<Rightarrow> bool" where
  init: "lockRun (emptyManager, {#})"
| step: "lockRun c \<Longrightarrow> lockStep c c' \<Longrightarrow> lockRun c'"

section \<open>Invariant\<close>

definition gRefs :: "goroutine \<Rightarrow> (string \<times> nat) multiset" where
  "gRefs g = mset (map snd (g_held g)) + (case g_wait g of None \<Rightarrow> {#} | Some x \<Rightarrow> {#snd x#})
     + (case g_rel g of None \<Rightarrow> {#} | Some x \<Rightarrow> {#x#})"

definition refs :: "goroutine multiset \<Rightarrow> (string \<times> nat) multiset" where
  "refs G = sum_mset (image_mset gRefs G)"

definition held :: "goroutine multiset \<Rightarrow> lockRef multiset" where
  "held G = sum_mset (image_mset (\<lambda>g. mset (g_held g)) G)"

definition onEntry :: "nat \<Rightarrow> bool \<Rightarrow> goroutine multiset \<Rightarrow> nat" where
  "onEntry e w G = size {#x \<in># held G. fst x = w \<and> snd (snd x) = e#}"

definition rwInv :: "manager \<Rightarrow> goroutine multiset \<Rightarrow> bool" where
  "rwInv m G = (\<forall>e. onEntry e True G = (if rw_writer (heap m e) then 1 else 0) \<and> onEntry e False G = rw_readers (heap m e)
     \<and> \<not> (rw_writer (heap m e) \<and> rw_readers (heap m e) > 0))"

definition refCount :: "nat \<Rightarrow> goroutine multiset \<Rightarrow> nat" where
  "refCount e G = size {#r \<in># refs G. snd r = e#}"

definition tableInv :: "manager \<Rightarrow> goroutine multiset \<Rightarrow> bool" where
  "tableInv m G = ((\<forall>r \<in># refs G. map_of (locks m) (Clean (fst r)) = Some (snd r))
     \<and> (\<forall>x \<in> set (locks m). snd x < next_entry m \<and> refCount (snd x) G > 0)
     \<and> distinct (map fst (locks m)) \<and> distinct (map snd (locks m)))"

definition refInv :: "manager \<Rightarrow> goroutine multiset \<Rightarrow> bool" where
  "refInv m G = (tableInv m G \<and> (\<forall>e. waiters (heap m e) = int (refCount e G)))"

lemma refs_simps [simp]: "refs {#} = {#}" "refs (add_mset g G) = gRefs g + refs G"
  "held {#} = {#}" "held (add_mset g G) = mset (g_held g) + held G"
  by (simp_all add: refs_def held_def)

lemma held_refs: "(w, p, e) \<in># held G \<Longrightarrow> (p, e) \<in># refs G"
  by (induction G) (force simp: gRefs_def)+


lemma filter_mset_empty_iff: "filter_mset P M = {#} \<longleftrightarrow> (\<forall>x \<in># M. \<not> P x)"
  by (induction M) auto

lemma refCount_iff: "0 < refCount e G \<longleftrightarrow> (\<exists>r \<in># refs G. snd r = e)"
  by (force simp: refCount_def filter_mset_empty_iff simp flip: nonempty_has_size)

lemma refCount_pos: "(p, e) \<in># refs G \<Longrightarrow> 0 < refCount e G"
  by (force simp: refCount_iff)

lemma refCount_zero: "refCount e G = 0 \<Longrightarrow> r \<in># refs G \<Longrightarrow> snd r \<noteq> e"
  using refCount_pos[of "fst r" e G] by auto

lemma tableInv_below: "tableInv m G \<Longrightarrow> r \<in># refs G \<Longrightarrow> snd r < next_entry m"
  unfolding tableInv_def by (metis map_of_SomeD snd_conv)

lemma onEntry_fresh: "tableInv m G \<Longrightarrow> next_entry m \<le> e \<Longrightarrow> onEntry e w G = 0"
  unfolding onEntry_def
  by (auto simp: filter_mset_eq_conv dest!: held_refs tableInv_below)

lemma refCount_fresh: "tableInv m G \<Longrightarrow> next_entry m \<le> e \<Longrightarrow> refCount e G = 0"
  unfolding refCount_def by (auto simp: filter_mset_eq_conv dest!: tableInv_below)

lemma onEntry_add: "onEntry e w (add_mset g G) =
    size (filter_mset (\<lambda>x. fst x = w \<and> snd (snd x) = e) (mset (g_held g))) + onEntry e w G"
  by (simp add: onEntry_def)

text \<open>Both invariants depend on the goroutines only through their references and the locks they hold.\<close>

lemma refInv_keeps:
  assumes "refInv m G" "refs G' = refs G" "locks m' = locks m" "next_entry m' = next_entry m"
    "\<And>x. waiters (heap m' x) = waiters (heap m x)"
  shows "refInv m' G'"
  using assms by (simp add: refInv_def tableInv_def refCount_def)

lemma rwInv_keeps:
  assumes "rwInv m G" "held G' = held G"
    "\<And>x. rw_writer (heap m' x) = rw_writer (heap m x)" "\<And>x. rw_readers (heap m' x) = rw_readers (heap m x)"
  shows "rwInv m' G'"
  using assms by (simp add: rwInv_def onEntry_def)

lemma rwLock_keeps:
  assumes "rwLock w e m = Some m'"
  shows "locks m' = locks m" "next_entry m' = next_entry m" "waiters (heap m' x) = waiters (heap m x)"
  using assms by (auto simp: rwLock_def split: if_splits)

lemma rwUnlock_keeps:
  shows "locks (rwUnlock w e m) = locks m" "next_entry (rwUnlock w e m) = next_entry m"
    "waiters (heap (rwUnlock w e m) x) = waiters (heap m x)"
  by (auto simp: rwUnlock_def)

text \<open>Adding a reference to an entry, known or new.\<close>

lemma refCount_ref: "refs G' = add_mset (p, e) (refs G) \<Longrightarrow> refCount x G' = (if x = e then 1 else 0) + refCount x G"
  by (simp add: refCount_def)

lemma acquire_old:
  assumes "refInv m G" "map_of (locks m) (Clean p) = Some e" "refs G' = add_mset (p, e) (refs G)"
  shows "refInv (addWaiter e 1 m) G'"
  using assms by (auto simp: refInv_def tableInv_def addWaiter_def refCount_ref[OF assms(3)])

lemma acquire_new:
  assumes inv: "refInv m G" and new: "map_of (locks m) (Clean p) = None"
    and refs: "refs G' = add_mset (p, next_entry m) (refs G)"
  shows "refInv (addWaiter (next_entry m) 1 (m\<lparr>locks := (Clean p, next_entry m) # locks m,
            heap := (heap m)(next_entry m := newEntry), next_entry := Suc (next_entry m)\<rparr>)) G'"
proof -
  have tab: "tableInv m G" using inv by (simp add: refInv_def)
  have other: "Clean (fst r) \<noteq> Clean p" if "r \<in># refs G" for r
    using that tab new by (auto simp: tableInv_def)
  have fresh: "(x, next_entry m) \<notin> set (locks m)" for x using tab by (auto simp: tableInv_def)
  show ?thesis
    using inv new tab refCount_fresh[OF tab, of "next_entry m"] fresh
    by (auto simp: refInv_def tableInv_def addWaiter_def newEntry_def refCount_ref[OF refs] refs map_of_eq_None_iff
        less_Suc_eq other image_iff dest: other)
qed

lemma acquire_refInv:
  assumes "refInv m G" "acquire p m = (e, m')" "refs G' = add_mset (p, e) (refs G)"
  shows "refInv m' G'"
  using assms acquire_old[OF assms(1)] acquire_new[OF assms(1)]
  by (auto simp: acquire_def split: option.splits)

lemma acquire_rwInv:
  assumes "tableInv m G" "rwInv m G" "acquire p m = (e, m')" "held G' = held G"
  shows "rwInv m' G'"
proof (rule rwInv_keeps[OF assms(2,4)])
  have "rw_writer (heap m (next_entry m)) = False" "rw_readers (heap m (next_entry m)) = 0"
    using spec[OF assms(2)[unfolded rwInv_def], of "next_entry m"] onEntry_fresh[OF assms(1), of "next_entry m"]
    by (simp_all split: if_splits)
  then show "rw_writer (heap m' x) = rw_writer (heap m x)" "rw_readers (heap m' x) = rw_readers (heap m x)" for x
    using assms(3) by (cases "x = e"; auto simp: acquire_def addWaiter_def newEntry_def split: option.splits)+
qed


lemma release_refInv:
  assumes inv: "refInv m G" and refs: "refs G = add_mset (p, e) (refs G')"
  shows "refInv (release p e m) G'"
proof -
  have cnt: "refCount x G = (if x = e then 1 else 0) + refCount x G'" for x by (rule refCount_ref[OF refs])
  have tab: "tableInv m G" and wait: "waiters (heap m x) = int (refCount x G)" for x
    using inv by (auto simp: refInv_def)
  have key: "map_of (locks m) (Clean p) = Some e" using tab refs by (simp add: tableInv_def)
  show ?thesis
  proof (cases "refCount e G' = 0")
    case True
    have gone: "Clean (fst r) \<noteq> Clean p" if "r \<in># refs G'" for r
      using refCount_zero[OF True that] tab key that refs by (auto simp: tableInv_def)
    have only: "fst x = Clean p" if "x \<in> set (locks m)" "snd x = e" for x
      using inj_onD[of snd "set (locks m)" x "(Clean p, e)"] that tab map_of_SomeD[OF key]
      by (simp add: tableInv_def distinct_map)
    have pos: "refCount (snd x) G' > 0" if "x \<in> set (locks m)" "fst x \<noteq> Clean p" for x
    proof -
      have "refCount (snd x) G > 0" using tab that(1) by (simp add: tableInv_def)
      then show ?thesis using only[OF that(1)] that(2) cnt[of "snd x"] by (cases "snd x = e") auto
    qed
    have "tableInv (release p e m) G'"
      using tab gone wait True pos
      by (auto simp: tableInv_def release_def addWaiter_def cnt refs map_of_filter_neq distinct_map_filter)
    then show ?thesis
      using wait by (simp add: refInv_def release_def addWaiter_def cnt Let_def)
  next
    case False
    then show ?thesis
      using tab wait by (auto simp: refInv_def tableInv_def release_def addWaiter_def cnt refs split: if_splits)
  qed
qed

lemma release_keeps:
  "rw_writer (heap (release p e m) x) = rw_writer (heap m x)"
  "rw_readers (heap (release p e m) x) = rw_readers (heap m x)"
  by (auto simp: release_def addWaiter_def Let_def)

lemma rwLock_rwInv:
  assumes "rwInv m G" "rwLock w e m = Some m'" "held G' = add_mset (w, p, e) (held G)"
  shows "rwInv m' G'"
  using assms by (auto simp: rwInv_def onEntry_def rwLock_def split: if_splits)

lemma rwUnlock_rwInv:
  assumes "rwInv m G" "held G = add_mset (w, p, e) (held G')"
  shows "rwInv (rwUnlock w e m) G'"
  unfolding rwInv_def
proof
  fix x
  show "onEntry x True G' = (if rw_writer (heap (rwUnlock w e m) x) then 1 else 0)
      \<and> onEntry x False G' = rw_readers (heap (rwUnlock w e m) x)
      \<and> \<not> (rw_writer (heap (rwUnlock w e m) x) \<and> rw_readers (heap (rwUnlock w e m) x) > 0)"
    using spec[OF assms(1)[unfolded rwInv_def], of x] assms(2)
    by (cases w; cases "x = e") (auto simp: onEntry_def rwUnlock_def split: if_splits)
qed

lemma lockStep_inv:
  assumes "lockStep c c'" "refInv (fst c) (snd c)" "rwInv (fst c) (snd c)"
  shows "refInv (fst c') (snd c') \<and> rwInv (fst c') (snd c')"
  using assms
proof (induction rule: lockStep.induct)
  case (spawn g m G)
  then show ?case by (auto simp: gRefs_def elim!: refInv_keeps rwInv_keeps)
next
  case (request g w p rest m e m' G)
  then show ?case
    using acquire_refInv[of m "add_mset g G" p e m' "add_mset (g\<lparr>g_todo := rest, g_wait := Some (w, p, e)\<rparr>) G"]
      acquire_rwInv[of m "add_mset g G" p e m' "add_mset (g\<lparr>g_todo := rest, g_wait := Some (w, p, e)\<rparr>) G"]
    by (simp add: gRefs_def refInv_def[of m])
next
  case (enter g w p e m m' G)
  then show ?case
    by (auto simp: gRefs_def rwLock_keeps elim!: refInv_keeps rwLock_rwInv[rotated])
next
  case (unlock g w p e rest m G)
  then show ?case
    by (auto simp: gRefs_def rwUnlock_keeps elim!: refInv_keeps rwUnlock_rwInv)
next
  case (giveBack g p e m G)
  then show ?case
    by (auto simp: gRefs_def release_keeps elim!: rwInv_keeps release_refInv)
qed

lemma lockRun_inv: "lockRun c \<Longrightarrow> refInv (fst c) (snd c) \<and> rwInv (fst c) (snd c)"
proof (induction rule: lockRun.induct)
  case init
  show ?case by (simp add: refInv_def tableInv_def rwInv_def emptyManager_def newEntry_def onEntry_def refCount_def)
next
  case step
  then show ?case using lockStep_inv by blast
qed


section \<open>Exclusion and self-deadlock\<close>

lemma size_filter_le: "(\<And>x. x \<in># M \<Longrightarrow> P x \<Longrightarrow> Q x) \<Longrightarrow> size (filter_mset P M) \<le> size (filter_mset Q M)"
  by (induction M) (auto simp: le_SucI)

lemma size_le_1_eq: "size M \<le> 1 \<Longrightarrow> x \<in># M \<Longrightarrow> M = {#x#}"
  by (auto dest!: multi_member_split)

lemma lockRun_key:
  assumes "lockRun (m, G)" "(w, p, e) \<in># held G"
  shows "map_of (locks m) (Clean p) = Some e"
  using lockRun_inv[OF assms(1)] held_refs[OF assms(2)] by (fastforce simp: refInv_def tableInv_def)

lemma lockRun_writer:
  assumes "lockRun (m, G)" "(True, p, e) \<in># held G"
  shows "rw_writer (heap m e) \<and> rw_readers (heap m e) = 0"
proof -
  have "onEntry e True G \<noteq> 0" using assms(2) by (auto simp: onEntry_def filter_mset_empty_iff)
  then show ?thesis using lockRun_inv[OF assms(1)] by (auto simp: rwInv_def split: if_splits)
qed

lemma lockRun_table:
  assumes "lockRun (m, G)"
  shows "fst ` set (locks m) = Clean ` fst ` set_mset (refs G)"
proof -
  have tab: "tableInv m G" using lockRun_inv[OF assms] by (simp add: refInv_def)
  have "fst x \<in> Clean ` fst ` set_mset (refs G)" if "x \<in> set (locks m)" for x
  proof -
    obtain r where r: "r \<in># refs G" "snd r = snd x"
      using tab \<open>x \<in> set (locks m)\<close> by (auto simp: tableInv_def refCount_iff)
    have "(Clean (fst r), snd r) \<in> set (locks m)" using tab r(1) by (auto simp: tableInv_def dest: map_of_SomeD)
    then have "(Clean (fst r), snd r) = x"
      using inj_onD[of snd "set (locks m)"] tab that r(2) by (simp add: tableInv_def distinct_map)
    then show ?thesis using r(1) by (auto intro!: image_eqI[of _ _ "fst r"])
  qed
  moreover have "Clean (fst r) \<in> fst ` set (locks m)" if "r \<in># refs G" for r
    using tab that by (force simp: tableInv_def dest: map_of_SomeD)
  ultimately show ?thesis by auto
qed


text \<open>C13. In every interleaving of goroutines that take and give back path locks, a goroutine that holds a write lock on a
  path is the only holder of any lock on it (paths being compared after cleaning), and the lock table has an entry for exactly
  the paths some goroutine holds, waits for or is about to give back, so entries are neither lost nor leaked.\<close>

theorem pathLock_exclusive:
  assumes "lockRun (m, G)"
  shows "(\<forall>p e. (True, p, e) \<in># held G \<longrightarrow> {#x \<in># held G. Clean (fst (snd x)) = Clean p#} = {#(True, p, e)#})
    \<and> fst ` set (locks m) = Clean ` fst ` set_mset (refs G)"
proof (rule conjI)
  show "\<forall>p e. (True, p, e) \<in># held G \<longrightarrow> {#x \<in># held G. Clean (fst (snd x)) = Clean p#} = {#(True, p, e)#}"
  proof (intro allI impI)
    fix p e assume h: "(True, p, e) \<in># held G"
    have rw: "onEntry e True G = 1" "onEntry e False G = 0"
      using lockRun_inv[OF assms] lockRun_writer[OF assms h] by (auto simp: rwInv_def)
    have same: "snd (snd x) = e" if "x \<in># held G" "Clean (fst (snd x)) = Clean p" for x
      using lockRun_key[OF assms, of "fst x" "fst (snd x)" "snd (snd x)"] lockRun_key[OF assms h] that by simp
    have w: "fst x" if "x \<in># held G" "snd (snd x) = e" for x
      using rw(2) that by (cases x) (auto simp: onEntry_def filter_mset_empty_iff)
    have "size {#x \<in># held G. Clean (fst (snd x)) = Clean p#} \<le> onEntry e True G"
      unfolding onEntry_def using same w by (intro size_filter_le) auto
    then have "size {#x \<in># held G. Clean (fst (snd x)) = Clean p#} \<le> 1" using rw(1) by simp
    moreover have "(True, p, e) \<in># {#x \<in># held G. Clean (fst (snd x)) = Clean p#}" using h by simp
    ultimately show "{#x \<in># held G. Clean (fst (snd x)) = Clean p#} = {#(True, p, e)#}" by (rule size_le_1_eq)
  qed
  show "fst ` set (locks m) = Clean ` fst ` set_mset (refs G)" by (rule lockRun_table[OF assms])
qed

text \<open>Two goroutines: one holds the write lock on a path, the other waits for it under another spelling.\<close>

definition lockScene :: "manager \<times> goroutine multiset" where
  "lockScene = (let (e, m1) = acquire ''/a'' emptyManager; (e2, m3) = acquire ''/a/'' (the (rwLock True e m1)) in (m3,
     {#\<lparr>g_todo = [], g_wait = Some (True, ''/a/'', e2), g_held = [], g_rel = None\<rparr>,
       \<lparr>g_todo = [], g_wait = None, g_held = [(True, ''/a'', e)], g_rel = None\<rparr>#}))"

lemma Clean_a: "Clean ''/a'' = ''/a''" "Clean ''/a/'' = ''/a''"
  by code_simp+

lemma lockScene_reachable: "lockRun lockScene"
proof -
  note defs = lockScene_def acquire_def addWaiter_def rwLock_def emptyManager_def newEntry_def LockWrite_def Clean_a
  let ?m1 = "snd (acquire ''/a'' emptyManager)"
  have "lockRun (emptyManager, {#LockWrite ''/a''#})"
    by (rule lockRun.step[OF lockRun.init lockStep.spawn]) (simp_all add: LockWrite_def)
  then have "lockRun (?m1, {#LockWrite ''/a''\<lparr>g_todo := [], g_wait := Some (True, ''/a'', 0)\<rparr>#})"
    by (rule lockRun.step[OF _ lockStep.request[where w = True and p = "''/a''"]]) (simp_all add: defs)
  then have "lockRun (the (rwLock True 0 ?m1), {#\<lparr>g_todo = [], g_wait = None, g_held = [(True, ''/a'', 0)], g_rel = None\<rparr>#})"
    by (rule lockRun.step[OF _ back_subst[of "lockStep _", OF lockStep.enter[where w = True and p = "''/a''" and e = 0]]])
      (simp_all add: defs)
  from lockRun.step[OF this lockStep.spawn[of "LockWrite ''/a/''"]]
  have "lockRun (the (rwLock True 0 ?m1), {#LockWrite ''/a/'', \<lparr>g_todo = [], g_wait = None, g_held = [(True, ''/a'', 0)], g_rel = None\<rparr>#})"
    by (simp add: LockWrite_def)
  then show ?thesis
    by (rule lockRun.step[OF _ back_subst[of "lockStep _", OF lockStep.request[where w = True and p = "''/a/''"]]])
      (simp_all add: defs)
qed


theorem pathLock_exclusive_witness:
  "lockRun lockScene \<and> {#x \<in># held (snd lockScene). Clean (fst (snd x)) = ''/a''#} = {#(True, ''/a'', 0)#}
    \<and> fst ` set (locks (fst lockScene)) = {''/a''}"
proof -
  note defs = lockScene_def acquire_def addWaiter_def rwLock_def emptyManager_def newEntry_def Clean_a gRefs_def
  have "lockRun (fst lockScene, snd lockScene)" using lockScene_reachable by simp
  from pathLock_exclusive[OF this] lockScene_reachable show ?thesis by (simp add: defs)
qed

lemma lockRun_phase: "lockRun c \<Longrightarrow> \<forall>g \<in># snd c. g_wait g = None \<or> g_rel g = None"
proof (induction rule: lockRun.induct)
  case (step c c')
  from step(2,3) show ?case by (induction rule: lockStep.induct) auto
qed simp

lemma lockRun_blocked:
  assumes run: "lockRun (m, G)" and g: "g \<in># G" "g_wait g = Some (w, p, e)"
    and hold: "(True, q, f) \<in> set (g_held g)" "Clean q = Clean p"
  shows "rwLock w e m = None"
proof -
  obtain G' where G: "G = add_mset g G'" using g(1) by (metis multi_member_split)
  have "map_of (locks m) (Clean p) = Some e"
    using lockRun_inv[OF run] g(2) by (auto simp: G refInv_def tableInv_def gRefs_def)
  moreover have h: "(True, q, f) \<in># held G" using hold(1) by (simp add: G)
  ultimately have "f = e" using lockRun_key[OF run h] hold(2) by simp
  then show ?thesis using lockRun_writer[OF run h] by (cases w) (auto simp: rwLock_def)
qed

lemma lockStep_keeps_waiting:
  assumes "lockStep c c'" "g \<in># snd c" "g_wait g = Some (w, p, e)" "g_rel g = None" "rwLock w e (fst c) = None"
  shows "g \<in># snd c'"
  using assms by (induction rule: lockStep.induct) auto

text \<open>C40. The read-write mutex is not re-entrant: in every reachable state, a goroutine that waits for a lock on a path on which it
  already holds the write lock waits for ever, whatever the other goroutines do. So a file operation whose sources and destination
  name one path twice, such as a move of a folder to itself, never gets its locks and never returns.\<close>

theorem pathLock_self_deadlock:
  assumes "lockRun (m, G)" "g \<in># G" "g_wait g = Some (w, p, e)" "(True, q, f) \<in> set (g_held g)" "Clean q = Clean p"
  shows "\<forall>c. lockStep\<^sup>*\<^sup>* (m, G) c \<longrightarrow> lockRun c \<and> g \<in># snd c \<and> rwLock w e (fst c) = None"
proof (intro allI impI)
  fix c assume "lockStep\<^sup>*\<^sup>* (m, G) c"
  then show "lockRun c \<and> g \<in># snd c \<and> rwLock w e (fst c) = None"
  proof (induction rule: rtranclp_induct)
    case base
    then show ?case using assms lockRun_blocked[OF assms] by simp
  next
    case (step c c')
    have "g_rel g = None" using lockRun_phase[of c] step(3) assms(3) by auto
    then have "lockRun c'" "g \<in># snd c'"
      using step(2,3) assms(3) lockStep_keeps_waiting lockRun.step by blast+
    then show ?case using lockRun_blocked[of "fst c'" "snd c'" g w p e q f] assms(3-5) by simp
  qed
qed

text \<open>The batch that locks \<^verbatim>\<open>/a\<close> as its source and again as its destination.\<close>

definition selfScene :: "manager \<times> goroutine multiset" where
  "selfScene = (let (e, m1) = acquire ''/a'' emptyManager; (e2, m3) = acquire ''/a'' (the (rwLock True e m1)) in (m3,
     {#\<lparr>g_todo = [], g_wait = Some (True, ''/a'', e2), g_held = [(True, ''/a'', e)], g_rel = None\<rparr>#}))"

lemma selfScene_reachable: "lockStep\<^sup>*\<^sup>* (emptyManager, {#lockBatch [''/a''] ''/a''#}) selfScene" "lockRun selfScene"
proof -
  note defs = selfScene_def acquire_def addWaiter_def rwLock_def emptyManager_def newEntry_def lockBatch_def Clean_a
  let ?m1 = "snd (acquire ''/a'' emptyManager)" and ?g = "lockBatch [''/a''] ''/a''"
  let ?c1 = "(?m1, {#?g\<lparr>g_todo := [(True, ''/a'')], g_wait := Some (True, ''/a'', 0)\<rparr>#})"
  let ?c2 = "(the (rwLock True 0 ?m1), {#?g\<lparr>g_todo := [(True, ''/a'')], g_held := [(True, ''/a'', 0)]\<rparr>#})"
  have "lockStep (emptyManager, {#?g#}) ?c1"
    by (rule lockStep.request[where w = True and p = "''/a''"]) (simp_all add: defs)
  moreover have "lockStep ?c1 ?c2"
    by (rule back_subst[of "lockStep _", OF lockStep.enter[where w = True and p = "''/a''" and e = 0]]) (simp_all add: defs)
  moreover have "lockStep ?c2 selfScene"
    by (rule back_subst[of "lockStep _", OF lockStep.request[where w = True and p = "''/a''"]]) (simp_all add: defs)
  ultimately have *: "lockStep\<^sup>*\<^sup>* (emptyManager, {#?g#}) selfScene"
    by (rule converse_rtranclp_into_rtranclp[OF _ converse_rtranclp_into_rtranclp[OF _ r_into_rtranclp]])
  then show "lockStep\<^sup>*\<^sup>* (emptyManager, {#?g#}) selfScene" .
  have "lockRun (emptyManager, {#?g#})"
    by (rule lockRun.step[OF lockRun.init lockStep.spawn]) (simp_all add: lockBatch_def)
  with * show "lockRun selfScene"
    by (induction rule: rtranclp_induct) (auto intro: lockRun.step)
qed

theorem pathLock_self_deadlock_witness:
  "lockStep\<^sup>*\<^sup>* (emptyManager, {#lockBatch [''/a''] ''/a''#}) selfScene
   \<and> Collect (lockStep\<^sup>*\<^sup>* selfScene) \<subseteq> {c. \<lparr>g_todo = [], g_wait = Some (True, ''/a'', 0),
        g_held = [(True, ''/a'', 0)], g_rel = None\<rparr> \<in># snd c \<and> rwLock True 0 (fst c) = None}"
proof -
  let ?g = "\<lparr>g_todo = [], g_wait = Some (True, ''/a'', 0), g_held = [(True, ''/a'', 0)], g_rel = None\<rparr>"
  note defs = selfScene_def acquire_def addWaiter_def rwLock_def emptyManager_def newEntry_def Clean_a
  have "lockRun (fst selfScene, snd selfScene)" "?g \<in># snd selfScene"
    using selfScene_reachable(2) by (simp_all add: defs)
  then have "\<forall>c. lockStep\<^sup>*\<^sup>* selfScene c \<longrightarrow> ?g \<in># snd c \<and> rwLock True 0 (fst c) = None"
    using pathLock_self_deadlock[of "fst selfScene" "snd selfScene" ?g True "''/a''" 0 "''/a''" 0] by simp
  then show ?thesis using selfScene_reachable(1) by auto
qed

end
