(* ===== verification/Simulation.thy ===== *)
theory Simulation
  imports Prelude
begin

text \<open>
  Refinement of an abstract data type: an implementation with an invariant and an abstraction function simulates its specification
  when every operation gives the same answer and leads to related states; then every sequence of operations does.
\<close>

primrec runOps :: "('op \<Rightarrow> 's \<Rightarrow> 'o \<times> 's) \<Rightarrow> 'op list \<Rightarrow> 's \<Rightarrow> 'o list \<times> 's" where
  "runOps step [] s = ([], s)"
| "runOps step (x # xs) s = (case step x s of (o1, s1) \<Rightarrow> (case runOps step xs s1 of (os, s2) \<Rightarrow> (o1 # os, s2)))"

locale simulation =
  fixes inv :: "'s \<Rightarrow> bool" and abs :: "'s \<Rightarrow> 'a"
    and step :: "'op \<Rightarrow> 's \<Rightarrow> 'o \<times> 's" and spec :: "'op \<Rightarrow> 'a \<Rightarrow> 'o \<times> 'a"
  assumes step_inv: "inv s \<Longrightarrow> inv (snd (step x s))"
    and step_spec: "inv s \<Longrightarrow> spec x (abs s) = (fst (step x s), abs (snd (step x s)))"
begin

lemma sim_run_inv: "inv s \<Longrightarrow> inv (snd (runOps step xs s))"
proof (induction xs arbitrary: s)
  case (Cons x xs)
  then show ?case using step_inv [of s x] by (auto split: prod.splits) (metis snd_conv)
qed simp

lemma sim_run_spec: "inv s \<Longrightarrow> runOps spec xs (abs s) = (fst (runOps step xs s), abs (snd (runOps step xs s)))"
proof (induction xs arbitrary: s)
  case (Cons x xs)
  obtain o1 s1 where x: "step x s = (o1, s1)" by force
  have "inv s1" "spec x (abs s) = (o1, abs s1)" using step_inv [OF Cons.prems, of x] step_spec [OF Cons.prems, of x] x by simp_all
  then show ?case using Cons.IH [of s1] x by (auto split: prod.splits)
qed simp

end

end
