(* ===== verification/SyncMap.thy ===== *)
theory SyncMap
  imports Simulation "HOL-Library.AList"
begin

text \<open>
  The two-level map of \<^verbatim>\<open>pkg/generic_sync/generic_sync.go\<close>: a read-only table and a dirty table that share entries, where an entry is
  a pointer to a value, nil, or the expunged mark. Entries are numbered cells. Each operation is its fast path followed by its
  section under the mutex, which looks everything up again; an operation runs without interference.
\<close>

section \<open>State\<close>

datatype 'v cell = CNil | CExpunged | CVal 'v

record ('k, 'v) MapOf =
  rd :: "('k \<times> nat) list"
  amended :: bool
  dirty :: "('k \<times> nat) list option"
  misses :: nat
  cells :: "nat \<Rightarrow> 'v cell"
  nextE :: nat

definition zeroMap :: "('k, 'v) MapOf" where
  "zeroMap = \<lparr>rd = [], amended = False, dirty = None, misses = 0, cells = \<lambda>_. CNil, nextE = 0\<rparr>"

text \<open>Reading the nil map and taking its length are as for the empty map.\<close>

definition dirtyList :: "('k, 'v) MapOf \<Rightarrow> ('k \<times> nat) list" where
  "dirtyList m = (case dirty m of None \<Rightarrow> [] | Some d \<Rightarrow> d)"

definition setCell :: "nat \<Rightarrow> 'v cell \<Rightarrow> ('k, 'v) MapOf \<Rightarrow> ('k, 'v) MapOf" where
  "setCell e c m = m\<lparr>cells := (cells m)(e := c)\<rparr>"

section \<open>Entries\<close>

definition loadE :: "nat \<Rightarrow> ('k, 'v) MapOf \<Rightarrow> 'v option" where
  "loadE e m = (case cells m e of CVal v \<Rightarrow> Some v | _ \<Rightarrow> None)"

definition tryStore :: "nat \<Rightarrow> 'v \<Rightarrow> ('k, 'v) MapOf \<Rightarrow> bool \<times> ('k, 'v) MapOf" where
  "tryStore e v m = (case cells m e of CExpunged \<Rightarrow> (False, m) | _ \<Rightarrow> (True, setCell e (CVal v) m))"

definition unexpungeLocked :: "nat \<Rightarrow> ('k, 'v) MapOf \<Rightarrow> bool \<times> ('k, 'v) MapOf" where
  "unexpungeLocked e m = (case cells m e of CExpunged \<Rightarrow> (True, setCell e CNil m) | _ \<Rightarrow> (False, m))"

definition storeLocked :: "nat \<Rightarrow> 'v \<Rightarrow> ('k, 'v) MapOf \<Rightarrow> ('k, 'v) MapOf" where
  "storeLocked e v m = setCell e (CVal v) m"

text \<open>\<open>None\<close> when the entry is expunged, otherwise the actual value and whether it was loaded.\<close>

definition tryLoadOrStore :: "nat \<Rightarrow> 'v \<Rightarrow> ('k, 'v) MapOf \<Rightarrow> ('v \<times> bool) option \<times> ('k, 'v) MapOf" where
  "tryLoadOrStore e v m =
     (case cells m e of
        CExpunged \<Rightarrow> (None, m)
      | CVal w \<Rightarrow> (Some (w, True), m)
      | CNil \<Rightarrow> (Some (v, False), setCell e (CVal v) m))"

definition deleteE :: "nat \<Rightarrow> ('k, 'v) MapOf \<Rightarrow> ('k, 'v) MapOf" where
  "deleteE e m = (case cells m e of CVal _ \<Rightarrow> setCell e CNil m | _ \<Rightarrow> m)"

definition tryExpungeLocked :: "nat \<Rightarrow> ('k, 'v) MapOf \<Rightarrow> bool \<times> ('k, 'v) MapOf" where
  "tryExpungeLocked e m = (case cells m e of CNil \<Rightarrow> (True, setCell e CExpunged m) | CExpunged \<Rightarrow> (True, m) | CVal _ \<Rightarrow> (False, m))"

section \<open>Moving between the tables\<close>

definition promote :: "('k, 'v) MapOf \<Rightarrow> ('k, 'v) MapOf" where
  "promote m = m\<lparr>rd := dirtyList m, amended := False, dirty := None, misses := 0\<rparr>"

definition missLocked :: "('k, 'v) MapOf \<Rightarrow> ('k, 'v) MapOf" where
  "missLocked m = (let m1 = m\<lparr>misses := Suc (misses m)\<rparr> in if misses m1 < length (dirtyList m1) then m1 else promote m1)"

fun copyRead :: "('k \<times> nat) list \<Rightarrow> ('k \<times> nat) list \<Rightarrow> ('k, 'v) MapOf \<Rightarrow> ('k, 'v) MapOf" where
  "copyRead [] d m = m\<lparr>dirty := Some d\<rparr>"
| "copyRead ((k, e) # es) d m =
     (case tryExpungeLocked e m of (gone, m1) \<Rightarrow> copyRead es (if gone then d else AList.update k e d) m1)"

definition dirtyLocked :: "('k, 'v) MapOf \<Rightarrow> ('k, 'v) MapOf" where
  "dirtyLocked m = (if dirty m \<noteq> None then m else copyRead (rd m) [] m)"

definition dirtyPut :: "'k \<Rightarrow> nat \<Rightarrow> ('k, 'v) MapOf \<Rightarrow> ('k, 'v) MapOf" where
  "dirtyPut k e m = m\<lparr>dirty := Some (AList.update k e (dirtyList m))\<rparr>"

text \<open>A new key goes to the dirty table, which is created from the read table when it does not exist.\<close>

definition addNew :: "'k \<Rightarrow> 'v \<Rightarrow> ('k, 'v) MapOf \<Rightarrow> ('k, 'v) MapOf" where
  "addNew k v m =
     (let m1 = (if \<not> amended m then (dirtyLocked m)\<lparr>amended := True\<rparr> else m); e = nextE m1
      in dirtyPut k e ((setCell e (CVal v) m1)\<lparr>nextE := Suc e\<rparr>))"

section \<open>Operations\<close>

definition lockedLoad :: "'k \<Rightarrow> ('k, 'v) MapOf \<Rightarrow> 'v option \<times> ('k, 'v) MapOf" where
  "lockedLoad k m =
     (case map_of (rd m) k of
        Some e \<Rightarrow> (loadE e m, m)
      | None \<Rightarrow>
          if amended m
          then (let found = map_of (dirtyList m) k; m1 = missLocked m
                in (case found of None \<Rightarrow> (None, m1) | Some e \<Rightarrow> (loadE e m1, m1)))
          else (None, m))"

definition Load :: "'k \<Rightarrow> ('k, 'v) MapOf \<Rightarrow> 'v option \<times> ('k, 'v) MapOf" where
  "Load k m =
     (case map_of (rd m) k of
        Some e \<Rightarrow> (loadE e m, m)
      | None \<Rightarrow> if amended m then lockedLoad k m else (None, m))"

definition Has :: "'k \<Rightarrow> ('k, 'v) MapOf \<Rightarrow> bool \<times> ('k, 'v) MapOf" where
  "Has k m = (case Load k m of (r, m1) \<Rightarrow> (r \<noteq> None, m1))"

definition lockedStore :: "'k \<Rightarrow> 'v \<Rightarrow> ('k, 'v) MapOf \<Rightarrow> ('k, 'v) MapOf" where
  "lockedStore k v m =
     (case map_of (rd m) k of
        Some e \<Rightarrow> (case unexpungeLocked e m of
                    (was, m1) \<Rightarrow> storeLocked e v (if was then dirtyPut k e m1 else m1))
      | None \<Rightarrow>
          (case map_of (dirtyList m) k of
             Some e \<Rightarrow> storeLocked e v m
           | None \<Rightarrow> addNew k v m))"

definition Store :: "'k \<Rightarrow> 'v \<Rightarrow> ('k, 'v) MapOf \<Rightarrow> ('k, 'v) MapOf" where
  "Store k v m =
     (case map_of (rd m) k of
        Some e \<Rightarrow> (case tryStore e v m of (True, m1) \<Rightarrow> m1 | (False, m1) \<Rightarrow> lockedStore k v m1)
      | None \<Rightarrow> lockedStore k v m)"

text \<open>Under the mutex the entry is not expunged, so the attempt succeeds.\<close>

definition lockedLoadOrStore :: "'k \<Rightarrow> 'v \<Rightarrow> ('k, 'v) MapOf \<Rightarrow> ('v \<times> bool) option \<times> ('k, 'v) MapOf" where
  "lockedLoadOrStore k v m =
     (case map_of (rd m) k of
        Some e \<Rightarrow> (case unexpungeLocked e m of
                    (was, m1) \<Rightarrow> tryLoadOrStore e v (if was then dirtyPut k e m1 else m1))
      | None \<Rightarrow>
          (case map_of (dirtyList m) k of
             Some e \<Rightarrow> (case tryLoadOrStore e v m of (r, m1) \<Rightarrow> (r, missLocked m1))
           | None \<Rightarrow> (Some (v, False), addNew k v m)))"

definition LoadOrStore :: "'k \<Rightarrow> 'v \<Rightarrow> ('k, 'v) MapOf \<Rightarrow> ('v \<times> bool) option \<times> ('k, 'v) MapOf" where
  "LoadOrStore k v m =
     (case map_of (rd m) k of
        Some e \<Rightarrow> (case tryLoadOrStore e v m of (Some r, m1) \<Rightarrow> (Some r, m1) | (None, m1) \<Rightarrow> lockedLoadOrStore k v m1)
      | None \<Rightarrow> lockedLoadOrStore k v m)"

definition lockedDelete :: "'k \<Rightarrow> ('k, 'v) MapOf \<Rightarrow> ('k, 'v) MapOf" where
  "lockedDelete k m =
     (case map_of (rd m) k of
        Some e \<Rightarrow> deleteE e m
      | None \<Rightarrow> if amended m then m\<lparr>dirty := map_option (filter (\<lambda>x. fst x \<noteq> k)) (dirty m)\<rparr> else m)"

definition Delete :: "'k \<Rightarrow> ('k, 'v) MapOf \<Rightarrow> ('k, 'v) MapOf" where
  "Delete k m =
     (case map_of (rd m) k of
        Some e \<Rightarrow> deleteE e m
      | None \<Rightarrow> if amended m then lockedDelete k m else m)"

text \<open>The loop of \<^verbatim>\<open>Range\<close> over the entries of the read table; the callback may change the map and answers whether to go on.\<close>

fun rangeLoop :: "('k \<Rightarrow> 'v \<Rightarrow> 'a \<times> ('k, 'v) MapOf \<Rightarrow> bool \<times> 'a \<times> ('k, 'v) MapOf) \<Rightarrow> ('k \<times> nat) list
    \<Rightarrow> 'a \<times> ('k, 'v) MapOf \<Rightarrow> 'a \<times> ('k, 'v) MapOf" where
  "rangeLoop f [] s = s"
| "rangeLoop f ((k, e) # es) s =
     (case loadE e (snd s) of
        None \<Rightarrow> rangeLoop f es s
      | Some v \<Rightarrow> (case f k v s of (goOn, s1) \<Rightarrow> if goOn then rangeLoop f es s1 else s1))"

definition Range :: "('k \<Rightarrow> 'v \<Rightarrow> 'a \<times> ('k, 'v) MapOf \<Rightarrow> bool \<times> 'a \<times> ('k, 'v) MapOf) \<Rightarrow> 'a \<Rightarrow> ('k, 'v) MapOf \<Rightarrow> 'a \<times> ('k, 'v) MapOf" where
  "Range f a m = (let m1 = (if amended m then promote m else m) in rangeLoop f (rd m1) (a, m1))"

definition Values :: "('k, 'v) MapOf \<Rightarrow> 'v list \<times> ('k, 'v) MapOf" where
  "Values m = Range (\<lambda>k v (vs, m). (True, vs @ [v], m)) [] m"

definition ToMap :: "('k, 'v) MapOf \<Rightarrow> ('k \<times> 'v) list \<times> ('k, 'v) MapOf" where
  "ToMap m = Range (\<lambda>k v (kvs, m). (True, AList.update k v kvs, m)) [] m"

definition Clear :: "('k, 'v) MapOf \<Rightarrow> ('k, 'v) MapOf" where
  "Clear m = snd (Range (\<lambda>k v (u, m). (True, u, Delete k m)) () m)"

definition Count :: "('k, 'v) MapOf \<Rightarrow> nat" where
  "Count m = length (dirtyList m)"

definition Empty :: "('k, 'v) MapOf \<Rightarrow> bool" where
  "Empty m = (Count m = 0)"


section \<open>Invariant and abstraction\<close>

definition lookupE :: "('k, 'v) MapOf \<Rightarrow> 'k \<Rightarrow> nat option" where
  "lookupE m k = (case map_of (rd m) k of Some e \<Rightarrow> Some e | None \<Rightarrow> map_of (dirtyList m) k)"

definition absMap :: "('k, 'v) MapOf \<Rightarrow> 'k \<Rightarrow> 'v option" where
  "absMap m k = (case lookupE m k of None \<Rightarrow> None | Some e \<Rightarrow> loadE e m)"

definition refE :: "('k, 'v) MapOf \<Rightarrow> 'k \<Rightarrow> nat \<Rightarrow> bool" where
  "refE m k e = (map_of (rd m) k = Some e \<or> map_of (dirtyList m) k = Some e)"

text \<open>
  The dirty table exists exactly when the read table is amended; it then holds the entries of the read table that are not expunged;
  without it nothing is expunged; an entry belongs to one key.
\<close>

definition smInv :: "('k, 'v) MapOf \<Rightarrow> bool" where
  "smInv m = ((amended m = (dirty m \<noteq> None))
     \<and> distinct (map fst (rd m)) \<and> distinct (map fst (dirtyList m))
     \<and> (\<forall>k e. map_of (rd m) k = Some e \<longrightarrow> map_of (dirtyList m) k = (if amended m \<and> cells m e \<noteq> CExpunged then Some e else None))
     \<and> (\<forall>k e. map_of (rd m) k = Some e \<longrightarrow> \<not> amended m \<longrightarrow> cells m e \<noteq> CExpunged)
     \<and> (\<forall>k e. map_of (dirtyList m) k = Some e \<longrightarrow> cells m e \<noteq> CExpunged)
     \<and> (\<forall>k k' e. refE m k e \<longrightarrow> refE m k' e \<longrightarrow> k = k')
     \<and> (\<forall>k e. refE m k e \<longrightarrow> e < nextE m))"

lemma smInvD:
  assumes "smInv m"
  shows "amended m = (dirty m \<noteq> None)" "distinct (map fst (rd m))" "distinct (map fst (dirtyList m))"
    "map_of (rd m) k = Some e \<Longrightarrow> map_of (dirtyList m) k = (if amended m \<and> cells m e \<noteq> CExpunged then Some e else None)"
    "map_of (rd m) k = Some e \<Longrightarrow> \<not> amended m \<Longrightarrow> cells m e \<noteq> CExpunged"
    "map_of (dirtyList m) k = Some e \<Longrightarrow> cells m e \<noteq> CExpunged"
    "refE m k e \<Longrightarrow> refE m k' e \<Longrightarrow> k = k'" "refE m k e \<Longrightarrow> e < nextE m"
  using assms unfolding smInv_def by blast+

lemma smInv_zero: "smInv zeroMap" "absMap zeroMap = Map.empty"
  by (simp_all add: smInv_def zeroMap_def dirtyList_def refE_def absMap_def lookupE_def fun_eq_iff)

lemma lookupE_ref: "lookupE m k = Some e \<Longrightarrow> refE m k e"
  by (auto simp: lookupE_def refE_def split: option.splits)

lemma dirtyList_upd [simp]:
  "dirtyList (m\<lparr>cells := c\<rparr>) = dirtyList m" "dirtyList (m\<lparr>misses := n\<rparr>) = dirtyList m" "dirtyList (m\<lparr>nextE := n\<rparr>) = dirtyList m"
  "dirtyList (m\<lparr>amended := b\<rparr>) = dirtyList m" "dirtyList (m\<lparr>dirty := Some d\<rparr>) = d" "dirtyList (m\<lparr>dirty := None\<rparr>) = []"
  by (simp_all add: dirtyList_def)

lemma setCell_fields [simp]:
  "rd (setCell e c m) = rd m" "amended (setCell e c m) = amended m" "dirty (setCell e c m) = dirty m" "misses (setCell e c m) = misses m"
  "nextE (setCell e c m) = nextE m" "cells (setCell e c m) = (cells m)(e := c)" "dirtyList (setCell e c m) = dirtyList m"
  "lookupE (setCell e c m) = lookupE m" "refE (setCell e c m) = refE m"
  by (simp_all add: setCell_def lookupE_def refE_def fun_eq_iff cong: option.case_cong)

definition cellVal :: "'v cell \<Rightarrow> 'v option" where
  "cellVal c = (case c of CVal v \<Rightarrow> Some v | _ \<Rightarrow> None)"

lemma loadE_cellVal: "loadE e m = cellVal (cells m e)"
  by (simp add: loadE_def cellVal_def split: cell.splits)

lemma cellVal_simps [simp]: "cellVal CNil = None" "cellVal CExpunged = None" "cellVal (CVal v) = Some v"
  by (simp_all add: cellVal_def)

text \<open>Writing an entry that is not expunged changes its own key only.\<close>

lemma setCell_abs:
  assumes "smInv m" "lookupE m k = Some e"
  shows "absMap (setCell e c m) = (absMap m)(k := cellVal c)"
proof
  fix k'
  show "absMap (setCell e c m) k' = ((absMap m)(k := cellVal c)) k'"
  proof (cases "k' = k")
    case True
    then show ?thesis using assms by (simp add: absMap_def loadE_cellVal)
  next
    case False
    then have "lookupE m k' \<noteq> Some e" using smInvD(7)[OF assms(1), of k e k'] lookupE_ref assms(2) by metis
    then show ?thesis using False by (auto simp: absMap_def loadE_cellVal split: option.splits)
  qed
qed

lemma setCell_inv:
  assumes "smInv m" "cells m e \<noteq> CExpunged" "c \<noteq> CExpunged"
  shows "smInv (setCell e c m)"
  using assms unfolding smInv_def by auto

lemma absMap_same:
  assumes "\<And>k. map_of (rd m') k = map_of (rd m) k" "dirtyList m' = dirtyList m" "cells m' = cells m"
  shows "absMap m' = absMap m"
  using assms by (auto simp: absMap_def lookupE_def loadE_def fun_eq_iff split: option.splits)

section \<open>Moving between the tables keeps the contents\<close>

lemma promote_inv:
  assumes "smInv m" "amended m"
  shows "smInv (promote m)" "absMap (promote m) = absMap m"
proof -
  have f: "rd (promote m) = dirtyList m" "dirtyList (promote m) = []" "cells (promote m) = cells m" "\<not> amended (promote m)"
    "dirty (promote m) = None" "nextE (promote m) = nextE m"
    by (simp_all add: promote_def dirtyList_def)
  have r: "refE (promote m) k e \<Longrightarrow> refE m k e" for k e by (simp add: refE_def f)
  show "smInv (promote m)"
    unfolding smInv_def
    using f smInvD(3)[OF assms(1)] smInvD(6)[OF assms(1)] smInvD(7,8)[OF assms(1) r] r
    by (simp del: map_of_eq_Some_iff)
  show "absMap (promote m) = absMap m"
  proof
    fix k
    show "absMap (promote m) k = absMap m k"
      using smInvD(4)[OF assms(1), of k] assms(2)
      by (cases "map_of (rd m) k") (auto simp: absMap_def lookupE_def f loadE_cellVal split: option.splits)
  qed
qed

lemma missLocked_inv:
  assumes "smInv m" "amended m"
  shows "smInv (missLocked m)" "absMap (missLocked m) = absMap m"
proof -
  let ?m1 = "m\<lparr>misses := Suc (misses m)\<rparr>"
  have d: "dirtyList ?m1 = dirtyList m" by (simp add: dirtyList_def)
  have 1: "smInv ?m1" using assms(1) by (simp add: smInv_def refE_def d)
  have 2: "absMap ?m1 = absMap m" by (rule absMap_same) (simp_all add: d)
  have "amended ?m1" using assms(2) by simp
  note P = promote_inv[OF 1 this]
  show "smInv (missLocked m)" "absMap (missLocked m) = absMap m" using 1 2 P by (simp_all add: missLocked_def Let_def)
qed

lemma missLocked_cells [simp]: "cells (missLocked m) = cells m"
  by (simp add: missLocked_def promote_def Let_def)

lemma copyRead_spec:
  assumes "distinct (map fst es)" "distinct (map fst d)"
  shows "\<exists>d'. copyRead es d m = m\<lparr>dirty := Some d', cells := \<lambda>e. if e \<in> snd ` set es \<and> cells m e = CNil then CExpunged else cells m e\<rparr>
    \<and> distinct (map fst d')
    \<and> (\<forall>k. map_of d' k = (case map_of es k of Some e \<Rightarrow> if cellVal (cells m e) \<noteq> None then Some e else map_of d k | None \<Rightarrow> map_of d k))"
  using assms
proof (induction es d m rule: copyRead.induct)
  case (1 d m)
  then show ?case by (intro exI[of _ d]) simp
next
  case (2 k e es d m)
  obtain gone m1 where x: "tryExpungeLocked e m = (gone, m1)" by force
  have m1: "m1 = m\<lparr>cells := (cells m)(e := (if cells m e = CNil then CExpunged else cells m e))\<rparr>" "gone = (cellVal (cells m e) = None)"
    using x by (auto simp: tryExpungeLocked_def setCell_def split: cell.splits)
  let ?d = "if gone then d else AList.update k e d"
  have "distinct (map fst ?d)" using "2.prems" by (simp add: distinct_update)
  with 2 x obtain d' where d': "copyRead es ?d m1 = m1\<lparr>dirty := Some d', cells := \<lambda>e. if e \<in> snd ` set es \<and> cells m1 e = CNil then CExpunged else cells m1 e\<rparr>"
    "distinct (map fst d')"
    "\<forall>k. map_of d' k = (case map_of es k of Some e \<Rightarrow> if cellVal (cells m1 e) \<noteq> None then Some e else map_of ?d k | None \<Rightarrow> map_of ?d k)"
    by auto
  have val: "cellVal (cells m1 x) = cellVal (cells m x)" for x using m1(1) by simp
  have "copyRead ((k, e) # es) d m = m\<lparr>dirty := Some d', cells := \<lambda>x. if x \<in> snd ` set ((k, e) # es) \<and> cells m x = CNil then CExpunged else cells m x\<rparr>"
    using x d'(1) m1(1) by (auto simp: fun_eq_iff)
  moreover have "map_of d' q = (case map_of ((k, e) # es) q of Some e \<Rightarrow> if cellVal (cells m e) \<noteq> None then Some e else map_of d q | None \<Rightarrow> map_of d q)" for q
  proof (cases "q = k")
    case True
    then have "map_of es q = None" using "2.prems"(1) by (simp add: map_of_eq_None_iff)
    then show ?thesis using d'(3) True m1(2) by (simp add: update_conv')
  next
    case False
    then show ?thesis using d'(3) val by (simp add: update_conv' split: option.splits)
  qed
  ultimately show ?case using d'(2) by blast
qed


definition amend :: "('k, 'v) MapOf \<Rightarrow> ('k, 'v) MapOf" where
  "amend m = (if \<not> amended m then (dirtyLocked m)\<lparr>amended := True\<rparr> else m)"

text \<open>Creating the dirty table marks the deleted entries as expunged and keeps the contents.\<close>

lemma amend_inv:
  assumes inv: "smInv m"
  shows "smInv (amend m) \<and> absMap (amend m) = absMap m \<and> amended (amend m) \<and> rd (amend m) = rd m
    \<and> (lookupE m k = None \<longrightarrow> lookupE (amend m) k = None)"
proof (cases "amended m")
  case True
  then show ?thesis using inv by (simp add: amend_def)
next
  case False
  note I = smInvD[OF inv]
  have none: "dirty m = None" "dirtyList m = []" using False I(1) by (auto simp: dirtyList_def)
  obtain d' where c: "copyRead (rd m) [] m = m\<lparr>dirty := Some d',
      cells := \<lambda>e. if e \<in> snd ` set (rd m) \<and> cells m e = CNil then CExpunged else cells m e\<rparr>"
    and d1: "distinct (map fst d')"
    and d2: "\<forall>k. map_of d' k = (case map_of (rd m) k of Some e \<Rightarrow> if cellVal (cells m e) \<noteq> None then Some e else map_of [] k | None \<Rightarrow> map_of [] k)"
    using copyRead_spec[OF I(2), of "[]" m] by (metis distinct.simps(1) list.simps(8))
  have d': "distinct (map fst d')"
    "\<forall>k. map_of d' k = (case map_of (rd m) k of Some e \<Rightarrow> if cellVal (cells m e) \<noteq> None then Some e else None | None \<Rightarrow> None)"
    using d1 d2 by (simp_all cong: option.case_cong if_cong)
  let ?a = "amend m"
  have a: "?a = m\<lparr>dirty := Some d', cells := \<lambda>e. if e \<in> snd ` set (rd m) \<and> cells m e = CNil then CExpunged else cells m e, amended := True\<rparr>"
    using False none(1) c by (simp add: amend_def dirtyLocked_def)
  have f: "rd ?a = rd m" "dirtyList ?a = d'" "amended ?a" "dirty ?a = Some d'" "nextE ?a = nextE m" by (simp_all add: a dirtyList_def)
  have cell: "cells ?a e = (if cells m e = CNil then CExpunged else cells m e)" if "map_of (rd m) k = Some e" for k e
    using map_of_SomeD[OF that] by (force simp: a)
  have notex: "cells m e \<noteq> CExpunged" if "map_of (rd m) k = Some e" for k e using I(5)[OF that False] .
  have ex: "cells ?a e = CExpunged \<longleftrightarrow> cellVal (cells m e) = None" if "map_of (rd m) k = Some e" for k e
    using cell[OF that] notex[OF that] by (cases "cells m e") simp_all
  have dm: "map_of d' k = Some e \<longleftrightarrow> map_of (rd m) k = Some e \<and> cellVal (cells m e) \<noteq> None" for k e
    using d'(2) by (auto split: option.splits if_splits)
  have r: "refE ?a k e \<Longrightarrow> refE m k e" for k e using dm by (auto simp: refE_def f)
  have "smInv ?a"
    unfolding smInv_def
  proof (intro conjI allI impI)
    show "map_of (dirtyList ?a) k = (if amended ?a \<and> cells ?a e \<noteq> CExpunged then Some e else None)" if "map_of (rd ?a) k = Some e" for k e
      using that ex[of k e] d'(2) by (simp add: f)
    show "cells ?a e \<noteq> CExpunged" if "map_of (dirtyList ?a) k = Some e" for k e using that ex[of k e] dm[of k e] by (simp add: f)
    show "k = k'" if "refE ?a k e" "refE ?a k' e" for k k' e using I(7) r that by blast
    show "e < nextE ?a" if "refE ?a k e" for k e using I(8) r that f by metis
  qed (use f I(2) d'(1) in simp_all)
  moreover have "absMap ?a = absMap m"
  proof
    fix k
    show "absMap ?a k = absMap m k"
    proof (cases "map_of (rd m) k")
      case None
      then show ?thesis using d'(2) by (simp add: absMap_def lookupE_def f none)
    next
      case (Some e)
      then show ?thesis using cell[OF Some] by (simp add: absMap_def lookupE_def f loadE_cellVal)
    qed
  qed
  moreover have "lookupE m k = None \<longrightarrow> lookupE ?a k = None" using d'(2) by (auto simp: lookupE_def f none split: option.splits)
  ultimately show ?thesis by (simp add: f)
qed

lemma addNew_amend: "addNew k v m = dirtyPut k (nextE (amend m)) ((setCell (nextE (amend m)) (CVal v) (amend m))\<lparr>nextE := Suc (nextE (amend m))\<rparr>)"
  by (simp add: addNew_def amend_def Let_def)

lemma addNew_inv:
  assumes inv: "smInv m" and new: "lookupE m k = None"
  shows "smInv (addNew k v m) \<and> absMap (addNew k v m) = (absMap m)(k \<mapsto> v)"
proof -
  let ?a = "amend m" and ?e = "nextE (amend m)" and ?n = "addNew k v m"
  have A: "smInv ?a" "absMap ?a = absMap m" "amended ?a" "lookupE ?a k = None" using amend_inv[OF inv, of k] new by auto
  note I = smInvD[OF A(1)]
  have f: "rd ?n = rd ?a" "dirtyList ?n = AList.update k ?e (dirtyList ?a)" "amended ?n" "dirty ?n \<noteq> None" "nextE ?n = Suc ?e"
    "cells ?n = (cells ?a)(?e := CVal v)"
    using A(3) by (simp_all add: addNew_amend dirtyPut_def)
  have newk: "map_of (rd ?a) k = None" "map_of (dirtyList ?a) k = None" using A(4) by (auto simp: lookupE_def split: option.splits)
  have ne: "e \<noteq> ?e" if "refE ?a q e" for q e using I(8)[OF that] by simp
  have r: "refE ?n q e \<longleftrightarrow> refE ?a q e \<or> q = k \<and> e = ?e" for q e using newk by (auto simp: refE_def f(1,2) update_conv')
  have "smInv ?n"
    unfolding smInv_def
  proof (intro conjI allI impI)
    show "map_of (dirtyList ?n) q = (if amended ?n \<and> cells ?n e \<noteq> CExpunged then Some e else None)" if "map_of (rd ?n) q = Some e" for q e
    proof -
      have q: "map_of (rd ?a) q = Some e" "q \<noteq> k" using that newk f(1) by auto
      then have "e \<noteq> ?e" using ne[of q e] by (simp add: refE_def)
      then show ?thesis using I(4)[OF q(1)] q(2) A(3) by (simp add: f update_conv')
    qed
    show "cells ?n e \<noteq> CExpunged" if "map_of (dirtyList ?n) q = Some e" for q e
      using that I(6)[of q e] by (auto simp: f update_conv' split: if_splits)
    show "q = q'" if "refE ?n q e" "refE ?n q' e" for q q' e using that I(7) ne r by metis
    show "e < nextE ?n" if "refE ?n q e" for q e using that I(8) r f(5) by (metis less_Suc_eq)
  qed (use f I(2,3) in \<open>simp_all add: distinct_update\<close>)
  moreover have "absMap ?n = (absMap m)(k \<mapsto> v)"
  proof
    fix q
    have "cells ?n e = cells ?a e" if "lookupE ?a q = Some e" for e using ne[OF lookupE_ref[OF that]] by (simp add: f)
    then have "absMap ?n q = absMap ?a q" if "q \<noteq> k"
      using that newk by (auto simp: absMap_def lookupE_def f(1,2) update_conv' loadE_cellVal split: option.splits)
    moreover have "absMap ?n k = Some v" using newk by (simp add: absMap_def lookupE_def f update_conv' loadE_cellVal)
    ultimately show "absMap ?n q = ((absMap m)(k \<mapsto> v)) q" using A(2) by simp
  qed
  ultimately show ?thesis ..
qed


section \<open>The operations refine a map\<close>

text \<open>Reviving an expunged entry puts it back into the dirty table.\<close>

lemma revive_inv:
  assumes inv: "smInv m" and k: "map_of (rd m) k = Some e" and ex: "cells m e = CExpunged" and c: "c \<noteq> CExpunged"
  shows "smInv (dirtyPut k e (setCell e c m)) \<and> absMap (dirtyPut k e (setCell e c m)) = (absMap m)(k := cellVal c)
    \<and> lookupE (dirtyPut k e (setCell e c m)) k = Some e"
proof -
  note I = smInvD[OF inv]
  let ?n = "dirtyPut k e (setCell e c m)"
  have am: "amended m" using I(5)[OF k] ex by blast
  have f: "rd ?n = rd m" "dirtyList ?n = AList.update k e (dirtyList m)" "amended ?n = amended m" "dirty ?n \<noteq> None" "nextE ?n = nextE m"
    "cells ?n = (cells m)(e := c)" by (simp_all add: dirtyPut_def)
  have ke: "refE m k e" using k by (simp add: refE_def)
  have r: "refE ?n q x \<Longrightarrow> refE m q x" for q x using k by (auto simp: refE_def f(1,2) update_conv' split: if_splits)
  have own: "x \<noteq> e" if "refE m q x" "q \<noteq> k" for q x using I(7)[OF _ ke, of q] that by blast
  have "smInv ?n"
    unfolding smInv_def
  proof (intro conjI allI impI)
    show "map_of (dirtyList ?n) q = (if amended ?n \<and> cells ?n x \<noteq> CExpunged then Some x else None)" if q: "map_of (rd ?n) q = Some x" for q x
    proof (cases "q = k")
      case True
      then show ?thesis using q k am c by (auto simp: dirtyPut_def update_conv')
    next
      case False
      then have "x \<noteq> e" using own[of q x] q by (simp add: f refE_def)
      then show ?thesis using I(4)[of q x] q False by (simp add: f update_conv')
    qed
    show "cells ?n x \<noteq> CExpunged" if "map_of (dirtyList ?n) q = Some x" for q x
      using that I(6)[of q x] c by (auto simp: f update_conv' split: if_splits)
    show "q = q'" if "refE ?n q x" "refE ?n q' x" for q q' x using I(7) r that by blast
    show "x < nextE ?n" if "refE ?n q x" for q x using I(8) r that f(5) by metis
  qed (use f am I(2,3) in \<open>simp_all add: distinct_update\<close>)
  moreover have "absMap ?n q = ((absMap m)(k := cellVal c)) q" for q
  proof (cases "q = k")
    case True
    then show ?thesis using k by (simp add: absMap_def lookupE_def f loadE_cellVal)
  next
    case False
    have "cells ?n x = cells m x" if "lookupE m q = Some x" for x using own[OF lookupE_ref[OF that] False] by (simp add: f)
    then show ?thesis using False by (auto simp: absMap_def lookupE_def f(1,2) update_conv' loadE_cellVal split: option.splits)
  qed
  ultimately show ?thesis using k by (simp add: fun_eq_iff lookupE_def f(1))
qed

lemma Load_refines:
  assumes "smInv m" "Load k m = (r, m')"
  shows "r = absMap m k \<and> smInv m' \<and> absMap m' = absMap m"
proof (cases "map_of (rd m) k")
  case (Some e)
  then show ?thesis using assms by (auto simp: Load_def absMap_def lookupE_def)
next
  case None
  show ?thesis
  proof (cases "amended m")
    case True
    then show ?thesis
      using assms None missLocked_inv[OF assms(1) True]
      by (auto simp: Load_def lockedLoad_def absMap_def lookupE_def Let_def loadE_def split: option.splits)
  next
    case False
    then have "dirtyList m = []" using smInvD(1)[OF assms(1)] by (simp add: dirtyList_def)
    then show ?thesis using assms None False by (simp add: Load_def absMap_def lookupE_def)
  qed
qed

lemma Store_refines:
  assumes inv: "smInv m"
  shows "smInv (Store k v m) \<and> absMap (Store k v m) = (absMap m)(k \<mapsto> v)"
proof (cases "map_of (rd m) k")
  case (Some e)
  have l: "lookupE m k = Some e" using Some by (simp add: lookupE_def)
  show ?thesis
  proof (cases "cells m e = CExpunged")
    case True
    have "Store k v m = setCell e (CVal v) (dirtyPut k e (setCell e CNil m))"
      using Some True by (simp add: Store_def tryStore_def lockedStore_def unexpungeLocked_def storeLocked_def)
    moreover note R = revive_inv[OF inv Some True, of CNil, simplified]
    ultimately show ?thesis
      using setCell_abs[of "dirtyPut k e (setCell e CNil m)" k e "CVal v"] setCell_inv[of "dirtyPut k e (setCell e CNil m)" e "CVal v"]
      by (simp add: dirtyPut_def)
  next
    case False
    then have "Store k v m = setCell e (CVal v) m" using Some by (auto simp: Store_def tryStore_def split: cell.splits)
    then show ?thesis using setCell_abs[OF inv l] setCell_inv[OF inv False] by simp
  qed
next
  case None
  show ?thesis
  proof (cases "map_of (dirtyList m) k")
    case (Some e)
    have l: "lookupE m k = Some e" using None Some by (simp add: lookupE_def)
    have "Store k v m = setCell e (CVal v) m" using None Some by (simp add: Store_def lockedStore_def storeLocked_def)
    then show ?thesis using setCell_abs[OF inv l] setCell_inv[OF inv smInvD(6)[OF inv Some]] by simp
  next
    case d: None
    then show ?thesis using None addNew_inv[OF inv, of k v] by (simp add: Store_def lockedStore_def lookupE_def)
  qed
qed


text \<open>The attempt on an entry that is not expunged loads or stores.\<close>

lemma tryLoadOrStore_abs:
  assumes "smInv m" "lookupE m k = Some e" "cells m e \<noteq> CExpunged" "tryLoadOrStore e v m = (r, m')"
  shows "r = Some (case absMap m k of Some w \<Rightarrow> (w, True) | None \<Rightarrow> (v, False)) \<and> smInv m'
    \<and> absMap m' = (absMap m)(k := Some (case absMap m k of Some w \<Rightarrow> w | None \<Rightarrow> v)) \<and> amended m' = amended m"
proof -
  have a: "absMap m k = cellVal (cells m e)" using assms(2) by (simp add: absMap_def loadE_cellVal)
  show ?thesis
  proof (cases "cells m e")
    case (CVal w)
    then show ?thesis using assms a by (auto simp: tryLoadOrStore_def fun_eq_iff)
  next
    case CNil
    then show ?thesis using assms a setCell_abs[OF assms(1,2)] setCell_inv[OF assms(1,3)] by (auto simp: tryLoadOrStore_def)
  qed (use assms in simp)
qed

lemma LoadOrStore_refines:
  assumes inv: "smInv m" and run: "LoadOrStore k v m = (r, m')"
  shows "r = Some (case absMap m k of Some w \<Rightarrow> (w, True) | None \<Rightarrow> (v, False)) \<and> smInv m'
    \<and> absMap m' = (absMap m)(k := Some (case absMap m k of Some w \<Rightarrow> w | None \<Rightarrow> v))"
proof (cases "map_of (rd m) k")
  case (Some e)
  have l: "lookupE m k = Some e" using Some by (simp add: lookupE_def)
  show ?thesis
  proof (cases "cells m e = CExpunged")
    case True
    note R = revive_inv[OF inv Some True, of CNil, simplified]
    have "tryLoadOrStore e v (dirtyPut k e (setCell e CNil m)) = (r, m')"
      using run Some True by (simp add: LoadOrStore_def tryLoadOrStore_def lockedLoadOrStore_def unexpungeLocked_def cong: cell.case_cong)
    moreover have "absMap m k = None" using l True by (simp add: absMap_def loadE_cellVal)
    ultimately show ?thesis
      using tryLoadOrStore_abs[of "dirtyPut k e (setCell e CNil m)" k e v r m'] R by (simp add: dirtyPut_def)
  next
    case False
    obtain r1 m1 where t: "tryLoadOrStore e v m = (r1, m1)" by force
    note T = tryLoadOrStore_abs[OF inv l False t]
    then show ?thesis using run Some t by (auto simp: LoadOrStore_def)
  qed
next
  case None
  show ?thesis
  proof (cases "map_of (dirtyList m) k")
    case (Some e)
    have l: "lookupE m k = Some e" using None Some by (simp add: lookupE_def)
    have am: "amended m" using Some smInvD(1)[OF inv] by (auto simp: dirtyList_def)
    obtain r1 m1 where t: "tryLoadOrStore e v m = (r1, m1)" by force
    note T = tryLoadOrStore_abs[OF inv l smInvD(6)[OF inv Some] t]
    have "r = r1" "m' = missLocked m1" using run None Some t by (simp_all add: LoadOrStore_def lockedLoadOrStore_def)
    then show ?thesis using T am missLocked_inv[of m1] by simp
  next
    case d: None
    then have "absMap m k = None" using None by (simp add: absMap_def lookupE_def)
    then show ?thesis using run None d addNew_inv[OF inv, of k v] by (auto simp: LoadOrStore_def lockedLoadOrStore_def lookupE_def)
  qed
qed

lemma Delete_refines:
  assumes inv: "smInv m"
  shows "smInv (Delete k m) \<and> absMap (Delete k m) = (absMap m)(k := None)"
proof (cases "map_of (rd m) k")
  case (Some e)
  have l: "lookupE m k = Some e" using Some by (simp add: lookupE_def)
  show ?thesis
  proof (cases "cells m e")
    case (CVal w)
    then show ?thesis using Some setCell_abs[OF inv l, of CNil] setCell_inv[OF inv, of e CNil] by (simp add: Delete_def deleteE_def)
  qed (use Some l inv in \<open>auto simp: Delete_def deleteE_def absMap_def loadE_cellVal fun_eq_iff\<close>)
next
  case None
  show ?thesis
  proof (cases "amended m")
    case False
    then have "dirtyList m = []" using smInvD(1)[OF inv] by (simp add: dirtyList_def)
    then show ?thesis using None False inv by (auto simp: Delete_def absMap_def lookupE_def fun_eq_iff)
  next
    case True
    let ?n = "Delete k m"
    have "dirty m = Some (dirtyList m)" using True smInvD(1)[OF inv] by (auto simp: dirtyList_def)
    then have n: "?n = m\<lparr>dirty := Some (filter (\<lambda>x. fst x \<noteq> k) (dirtyList m))\<rparr>"
      using None True by (simp add: Delete_def lockedDelete_def)
    have f: "rd ?n = rd m" "cells ?n = cells m" "amended ?n" "dirty ?n \<noteq> None" "nextE ?n = nextE m" "distinct (map fst (dirtyList ?n))"
      "map_of (dirtyList ?n) q = (if q = k then None else map_of (dirtyList m) q)" for q
      using True smInvD(3)[OF inv] by (simp_all add: n map_of_filter_neq distinct_map_filter)
    have r: "refE ?n q e \<Longrightarrow> refE m q e" for q e by (auto simp: refE_def f split: if_splits)
    have "smInv ?n"
      unfolding smInv_def
    proof (intro conjI allI impI)
      show "map_of (dirtyList ?n) q = (if amended ?n \<and> cells ?n e \<noteq> CExpunged then Some e else None)" if "map_of (rd ?n) q = Some e" for q e
        using that None smInvD(4)[OF inv, of q e] True f(1) by (auto simp: f(2,3,7))
      show "cells ?n e \<noteq> CExpunged" if "map_of (dirtyList ?n) q = Some e" for q e
        using that smInvD(6)[OF inv, of q e] by (auto simp: f(2,7) split: if_splits)
      show "q = q'" if "refE ?n q e" "refE ?n q' e" for q q' e using smInvD(7)[OF inv] r that by blast
      show "e < nextE ?n" if "refE ?n q e" for q e using smInvD(8)[OF inv] r that f(5) by metis
    qed (use f smInvD(2)[OF inv] in simp_all)
    moreover have "absMap ?n = (absMap m)(k := None)"
      using None by (auto simp: absMap_def lookupE_def f loadE_cellVal fun_eq_iff split: option.splits)
    ultimately show ?thesis ..
  qed
qed


section \<open>Iteration\<close>

definition settled :: "('k, 'v) MapOf \<Rightarrow> ('k, 'v) MapOf" where
  "settled m = (if amended m then promote m else m)"

lemma settled_inv:
  assumes "smInv m"
  shows "smInv (settled m)" "absMap (settled m) = absMap m" "\<not> amended (settled m)"
    "absMap m k = (case map_of (rd (settled m)) k of None \<Rightarrow> None | Some e \<Rightarrow> loadE e (settled m))"
proof -
  show s: "smInv (settled m)" "absMap (settled m) = absMap m" "\<not> amended (settled m)"
    using assms promote_inv[OF assms] by (auto simp: settled_def) (simp add: promote_def)
  have "dirtyList (settled m) = []" using smInvD(1)[OF s(1)] s(3) by (simp add: dirtyList_def)
  then have "lookupE (settled m) k = map_of (rd (settled m)) k" by (simp add: lookupE_def split: option.splits)
  then show "absMap m k = (case map_of (rd (settled m)) k of None \<Rightarrow> None | Some e \<Rightarrow> loadE e (settled m))"
    unfolding s(2)[symmetric] by (simp add: absMap_def)
qed

lemma Range_settled: "Range f a m = rangeLoop f (rd (settled m)) (a, settled m)"
  by (simp add: Range_def settled_def Let_def)

lemma rangeLoop_values:
  "rangeLoop (\<lambda>k v (vs, m). (True, vs @ [v], m)) es (vs, m) =
     (vs @ map (\<lambda>(k, e). the (loadE e m)) (filter (\<lambda>(k, e). loadE e m \<noteq> None) es), m)"
  by (induction es arbitrary: vs) (auto split: option.splits)

lemma in_fst_image: "k \<in> fst ` A \<longleftrightarrow> (\<exists>e. (k, e) \<in> A)"
  by force

lemma Values_refines:
  assumes "smInv m"
  shows "\<exists>ks. distinct ks \<and> set ks = dom (absMap m) \<and> fst (Values m) = map (\<lambda>k. the (absMap m k)) ks"
    "smInv (snd (Values m))" "absMap (snd (Values m)) = absMap m"
proof -
  let ?s = "settled m"
  let ?es = "filter (\<lambda>(k, e). loadE e ?s \<noteq> None) (rd ?s)"
  note S = settled_inv[OF assms]
  have dis: "distinct (map fst (rd ?s))" using smInvD(2)[OF S(1)] .
  have mem: "map_of (rd ?s) k = Some e" if "(k, e) \<in> set (rd ?s)" for k e using that dis by simp
  have v: "Values m = (map (\<lambda>(k, e). the (loadE e ?s)) ?es, ?s)" by (simp add: Values_def Range_settled rangeLoop_values)
  have "distinct (map fst ?es)" using dis by (rule distinct_map_filter)
  moreover have "set (map fst ?es) = dom (absMap m)"
  proof -
    have "k \<in> dom (absMap m) \<longleftrightarrow> (\<exists>e. (k, e) \<in> set ?es)" for k
    proof (cases "map_of (rd ?s) k")
      case None
      then have "(k, e) \<notin> set (rd ?s)" for e using mem[of k e] by auto
      then show ?thesis using S(4)[of k] None by (simp add: domIff)
    next
      case (Some e)
      then have "(k, e') \<in> set (rd ?s) \<longleftrightarrow> e' = e" for e' using mem[of k e'] map_of_SomeD[OF Some] by auto
      then show ?thesis using S(4)[of k] Some by (simp add: domIff)
    qed
    then show ?thesis by (intro set_eqI) (simp only: set_map in_fst_image)
  qed
  moreover have "fst (Values m) = map (\<lambda>k. the (absMap m k)) (map fst ?es)"
  proof -
    have "absMap m k = loadE e ?s" if "(k, e) \<in> set ?es" for k e
    proof -
      have "(k, e) \<in> set (rd ?s)" using that by simp
      from mem[OF this] show ?thesis using S(4)[of k] by simp
    qed
    then have "(case x of (k, e) \<Rightarrow> the (loadE e ?s)) = the (absMap m (fst x))" if "x \<in> set ?es" for x
      using that by (cases x) (simp only: prod.case fst_conv)
    then have "map (\<lambda>(k, e). the (loadE e ?s)) ?es = map (\<lambda>x. the (absMap m (fst x))) ?es" by (rule map_cong[OF refl])
    then show ?thesis by (simp only: v fst_conv map_map o_def)
  qed
  ultimately show "\<exists>ks. distinct ks \<and> set ks = dom (absMap m) \<and> fst (Values m) = map (\<lambda>k. the (absMap m k)) ks" by blast
  show "smInv (snd (Values m))" "absMap (snd (Values m)) = absMap m" using S v by simp_all
qed

lemma rangeLoop_toMap:
  assumes "distinct (map fst es)"
  shows "snd (rangeLoop (\<lambda>k v (kvs, m). (True, AList.update k v kvs, m)) es (a, m)) = m
    \<and> map_of (fst (rangeLoop (\<lambda>k v (kvs, m). (True, AList.update k v kvs, m)) es (a, m))) k
      = (case map_of es k of None \<Rightarrow> map_of a k | Some e \<Rightarrow> (case loadE e m of None \<Rightarrow> map_of a k | Some v \<Rightarrow> Some v))"
  using assms
proof (induction es arbitrary: a)
  case (Cons x es)
  obtain q e where x: "x = (q, e)" by force
  have q: "map_of es q = None" "distinct (map fst es)" using Cons.prems x by (simp_all add: map_of_eq_None_iff)
  show ?case
  proof (cases "loadE e m")
    case None
    then show ?thesis using Cons.IH[OF q(2), of a] q(1) by (cases "q = k") (simp_all add: x)
  next
    case (Some v)
    then show ?thesis using Cons.IH[OF q(2), of "AList.update q v a"] q(1)
      by (cases "q = k") (simp_all add: x update_conv' del: map_of_eq_Some_iff cong: option.case_cong)
  qed
qed simp

lemma ToMap_refines:
  assumes "smInv m"
  shows "map_of (fst (ToMap m)) = absMap m" "smInv (snd (ToMap m))" "absMap (snd (ToMap m)) = absMap m"
proof -
  note S = settled_inv[OF assms]
  note R = rangeLoop_toMap[OF smInvD(2)[OF S(1)], of "[]" "settled m"]
  show "map_of (fst (ToMap m)) = absMap m"
    using R S(4) by (auto simp: ToMap_def Range_settled fun_eq_iff split: option.splits)
  show "smInv (snd (ToMap m))" "absMap (snd (ToMap m)) = absMap m" using R S by (simp_all add: ToMap_def Range_settled)
qed

lemma Delete_read: "map_of (rd m) k = Some e \<Longrightarrow> rd (Delete k m) = rd m"
  by (simp add: Delete_def deleteE_def split: cell.splits)

lemma rangeLoop_clear:
  assumes "smInv m" "\<And>k e. (k, e) \<in> set es \<Longrightarrow> map_of (rd m) k = Some e"
  shows "smInv (snd (rangeLoop (\<lambda>k v (u, m). (True, u, Delete k m)) es (u, m)))
    \<and> absMap (snd (rangeLoop (\<lambda>k v (u, m). (True, u, Delete k m)) es (u, m))) = (\<lambda>k. if k \<in> fst ` set es then None else absMap m k)"
  using assms
proof (induction es arbitrary: m)
  case (Cons x es)
  obtain k e where x: "x = (k, e)" by force
  have k: "map_of (rd m) k = Some e" using Cons.prems(2) x by simp
  show ?case
  proof (cases "loadE e m")
    case None
    then have "absMap m k = None" using k by (simp add: absMap_def lookupE_def)
    then show ?thesis using Cons.IH[OF Cons.prems(1)] Cons.prems(2) None x by (auto simp: fun_eq_iff)
  next
    case (Some v)
    note D = Delete_refines[OF Cons.prems(1), of k]
    have "map_of (rd (Delete k m)) q = Some f" if "(q, f) \<in> set es" for q f using Cons.prems(2)[of q f] that Delete_read[OF k] by simp
    then show ?thesis using Cons.IH[of "Delete k m"] D Some x by (auto simp: fun_eq_iff)
  qed
qed simp

lemma Clear_refines:
  assumes "smInv m"
  shows "smInv (Clear m)" "absMap (Clear m) = Map.empty"
proof -
  note S = settled_inv[OF assms]
  have mem: "map_of (rd (settled m)) k = Some e" if "(k, e) \<in> set (rd (settled m))" for k e
    using that smInvD(2)[OF S(1)] by simp
  note C = rangeLoop_clear[OF S(1) mem, of "rd (settled m)" "()"]
  show "smInv (Clear m)" using C by (simp add: Clear_def Range_settled)
  have "absMap m k = None" if "k \<notin> fst ` set (rd (settled m))" for k
    using S(4)[of k] that by (simp add: map_of_eq_None_iff[THEN iffD2])
  then show "absMap (Clear m) = Map.empty" using C S(2) by (auto simp: Clear_def Range_settled fun_eq_iff)
qed

section \<open>The map implements a partial function\<close>

datatype ('k, 'v) mapOp = OpLoad 'k | OpHas 'k | OpStore 'k 'v | OpLoadOrStore 'k 'v | OpDelete 'k | OpToMap | OpClear

datatype ('k, 'v) mapOut = RNone | RLoad "'v option" | RHas bool | RActual 'v bool | RMap "'k \<Rightarrow> 'v option" | RFail

text \<open>One call of the two-level map; \<open>RFail\<close> stands for a load-or-store whose last attempt meets an expunged entry.\<close>

fun mapStep :: "('k, 'v) mapOp \<Rightarrow> ('k, 'v) MapOf \<Rightarrow> ('k, 'v) mapOut \<times> ('k, 'v) MapOf" where
  "mapStep (OpLoad k) m = (case Load k m of (r, m1) \<Rightarrow> (RLoad r, m1))"
| "mapStep (OpHas k) m = (case Has k m of (b, m1) \<Rightarrow> (RHas b, m1))"
| "mapStep (OpStore k v) m = (RNone, Store k v m)"
| "mapStep (OpLoadOrStore k v) m =
     (case LoadOrStore k v m of (Some (w, loaded), m1) \<Rightarrow> (RActual w loaded, m1) | (None, m1) \<Rightarrow> (RFail, m1))"
| "mapStep (OpDelete k) m = (RNone, Delete k m)"
| "mapStep OpToMap m = (case ToMap m of (kvs, m1) \<Rightarrow> (RMap (map_of kvs), m1))"
| "mapStep OpClear m = (RNone, Clear m)"

text \<open>The specification: the same call on a partial function.\<close>

fun specStep :: "('k, 'v) mapOp \<Rightarrow> ('k \<Rightarrow> 'v option) \<Rightarrow> ('k, 'v) mapOut \<times> ('k \<Rightarrow> 'v option)" where
  "specStep (OpLoad k) f = (RLoad (f k), f)"
| "specStep (OpHas k) f = (RHas (f k \<noteq> None), f)"
| "specStep (OpStore k v) f = (RNone, f(k \<mapsto> v))"
| "specStep (OpLoadOrStore k v) f = (case f k of Some w \<Rightarrow> (RActual w True, f) | None \<Rightarrow> (RActual v False, f(k \<mapsto> v)))"
| "specStep (OpDelete k) f = (RNone, f(k := None))"
| "specStep OpToMap f = (RMap f, f)"
| "specStep OpClear f = (RNone, Map.empty)"

lemma mapStep_refines:
  assumes "smInv m"
  shows "smInv (snd (mapStep x m))" "specStep x (absMap m) = (fst (mapStep x m), absMap (snd (mapStep x m)))"
proof -
  have "smInv (snd (mapStep x m)) \<and> specStep x (absMap m) = (fst (mapStep x m), absMap (snd (mapStep x m)))"
  proof (cases x)
    case (OpLoad k)
    then show ?thesis using Load_refines[OF assms, of k] by (auto split: prod.splits)
  next
    case (OpHas k)
    then show ?thesis using Load_refines[OF assms, of k] by (auto simp: Has_def split: prod.splits)
  next
    case (OpStore k v)
    then show ?thesis using Store_refines[OF assms] by simp
  next
    case (OpLoadOrStore k v)
    obtain r m1 where e: "LoadOrStore k v m = (r, m1)" by force
    note R = LoadOrStore_refines[OF assms e]
    show ?thesis
      using R OpLoadOrStore e by (cases "absMap m k") (simp_all add: fun_upd_idem)
  next
    case (OpDelete k)
    then show ?thesis using Delete_refines[OF assms] by simp
  next
    case OpToMap
    then show ?thesis using ToMap_refines[OF assms] by (cases "ToMap m") simp
  next
    case OpClear
    then show ?thesis using Clear_refines[OF assms] by simp
  qed
  then show "smInv (snd (mapStep x m))" "specStep x (absMap m) = (fst (mapStep x m), absMap (snd (mapStep x m)))" by auto
qed

interpretation sm: simulation smInv absMap mapStep specStep
  by unfold_locales (rule mapStep_refines, assumption)+


lemma ToMap_promotes: "smInv m \<Longrightarrow> Empty (snd (ToMap m))"
  using settled_inv(1,3)[of m] smInvD(1,2)[of "settled m"] rangeLoop_toMap[of "rd (settled m)" "[]" "settled m"]
  by (simp add: Empty_def Count_def ToMap_def Range_settled dirtyList_def)

lemma runOps_append:
  "runOps f (xs @ ys) s = (case runOps f xs s of (os, s1) \<Rightarrow> case runOps f ys s1 of (os', s2) \<Rightarrow> (os @ os', s2))"
  by (induction xs arbitrary: s) (auto split: prod.splits)

text \<open>
  The size of the map is the length of the dirty table, so it is not the number of keys: after any history a snapshot moves
  every entry to the read table, and the map then calls itself empty whatever it holds.
\<close>

theorem Empty_after_snapshot:
  "Empty (snd (runOps mapStep (ops @ [OpToMap]) zeroMap))
   \<and> absMap (snd (runOps mapStep (ops @ [OpToMap]) zeroMap)) = snd (runOps specStep ops Map.empty)"
proof -
  let ?m = "snd (runOps mapStep ops zeroMap)"
  have i: "smInv ?m" using sm.sim_run_inv[OF smInv_zero(1)] .
  have "snd (runOps mapStep (ops @ [OpToMap]) zeroMap) = snd (ToMap ?m)"
    by (cases "runOps mapStep ops zeroMap") (simp add: runOps_append case_prod_beta)
  moreover have "snd (runOps specStep ops Map.empty) = absMap ?m"
    using sm.sim_run_spec[OF smInv_zero(1), of ops] by (simp add: smInv_zero)
  ultimately show ?thesis using ToMap_promotes[OF i] ToMap_refines(3)[OF i] by simp
qed

end
