(* ===== verification/RootGrants.thy ===== *)
theory RootGrants
  imports Simulation "HOL-Library.List_Lexorder" "HOL-Library.Char_ord"
begin

text \<open>
  The table of search roots (\<^verbatim>\<open>service/rootgrants.go\<close>, \<^verbatim>\<open>service/model/o_root_grant.go\<close>), its handlers
  (\<^verbatim>\<open>route/v1/rootgrants.go\<close>) and their routes with the loopback check (\<^verbatim>\<open>route/rootgrants_wiring.go\<close>,
  \<^verbatim>\<open>route/loopback.go\<close>). Every statement may fail: \<open>gs_faults\<close> says which ones do. The specification is a partial
  function from root ids to grants.
\<close>

section \<open>Table\<close>

record RootGrant =
  g_RootID :: string
  g_Path :: string
  g_Enabled :: bool
  g_Source :: string
  g_UpdatedAt :: int

record grantDB =
  gs_rows :: "RootGrant list"
  gs_now :: int
  gs_faults :: "bool list"

text \<open>One statement, with whether it succeeded.\<close>

definition gStmt :: "(RootGrant list \<Rightarrow> RootGrant list) \<Rightarrow> grantDB \<Rightarrow> bool \<times> grantDB" where
  "gStmt f s =
     (let s1 = s\<lparr>gs_faults := tl (gs_faults s)\<rparr> in
      if gs_faults s \<noteq> [] \<and> hd (gs_faults s) then (False, s1) else (True, s1\<lparr>gs_rows := f (gs_rows s)\<rparr>))"

definition gThen :: "bool \<times> grantDB \<Rightarrow> (grantDB \<Rightarrow> bool \<times> grantDB) \<Rightarrow> bool \<times> grantDB" where
  "gThen r k = (case r of (True, s) \<Rightarrow> k s | (False, s) \<Rightarrow> (False, s))"

text \<open>\<^verbatim>\<open>db.Transaction\<close>: begin, body, commit; a failure restores the rows.\<close>

definition gTransaction :: "(grantDB \<Rightarrow> bool \<times> grantDB) \<Rightarrow> grantDB \<Rightarrow> bool \<times> grantDB" where
  "gTransaction body s =
     (case gThen (gThen (gStmt id s) body) (gStmt id) of
        (True, s1) \<Rightarrow> (True, s1)
      | (False, s1) \<Rightarrow> (False, s1\<lparr>gs_rows := gs_rows s\<rparr>))"

text \<open>Insertion that updates every other column on a conflict of the primary key.\<close>

definition upsertRow :: "RootGrant \<Rightarrow> RootGrant list \<Rightarrow> RootGrant list" where
  "upsertRow row rows =
     (if g_RootID row \<in> g_RootID ` set rows
      then map (\<lambda>r. if g_RootID r = g_RootID row
                    then r\<lparr>g_Path := g_Path row, g_Enabled := g_Enabled row, g_Source := g_Source row, g_UpdatedAt := g_UpdatedAt row\<rparr>
                    else r) rows
      else rows @ [row])"

section \<open>Repository\<close>

definition upsert :: "RootGrant \<Rightarrow> grantDB \<Rightarrow> bool \<times> grantDB" where
  "upsert row = gStmt (upsertRow row)"

definition UpsertGrant :: "string \<Rightarrow> string \<Rightarrow> bool \<Rightarrow> string \<Rightarrow> grantDB \<Rightarrow> bool \<times> grantDB" where
  "UpsertGrant rootID path enabled source s =
     upsert \<lparr>g_RootID = rootID, g_Path = path, g_Enabled = enabled, g_Source = source, g_UpdatedAt = gs_now s\<rparr> s"

definition DeleteGrant :: "string \<Rightarrow> grantDB \<Rightarrow> bool \<times> grantDB" where
  "DeleteGrant rootID = gStmt (filter (\<lambda>r. g_RootID r \<noteq> rootID))"

definition EnabledRoots :: "grantDB \<Rightarrow> RootGrant list option \<times> grantDB" where
  "EnabledRoots s =
     (case gStmt id s of
        (False, s1) \<Rightarrow> (None, s1)
      | (True, s1) \<Rightarrow> (Some (sort_key g_RootID (filter g_Enabled (gs_rows s))), s1))"

definition EnabledRootIDs :: "grantDB \<Rightarrow> string list option \<times> grantDB" where
  "EnabledRootIDs s =
     (case gStmt id s of
        (False, s1) \<Rightarrow> (None, s1)
      | (True, s1) \<Rightarrow> (Some (map g_RootID (filter g_Enabled (gs_rows s))), s1))"

definition wikiRow :: "int \<Rightarrow> RootGrant \<Rightarrow> RootGrant" where
  "wikiRow now g = \<lparr>g_RootID = g_RootID g, g_Path = g_Path g, g_Enabled = g_Enabled g, g_Source = ''wiki'', g_UpdatedAt = now\<rparr>"

fun reconcileLoop :: "int \<Rightarrow> RootGrant list \<Rightarrow> grantDB \<Rightarrow> bool \<times> grantDB" where
  "reconcileLoop now [] s = (True, s)"
| "reconcileLoop now (g # gs) s = gThen (gStmt (upsertRow (wikiRow now g)) s) (reconcileLoop now gs)"

definition ReconcileWiki :: "RootGrant list \<Rightarrow> grantDB \<Rightarrow> bool \<times> grantDB" where
  "ReconcileWiki grants =
     gTransaction (\<lambda>s.
       (let ids = map g_RootID grants in
        gThen (if length ids = 0
               then gStmt (filter (\<lambda>r. \<not> g_Source r = ''wiki'')) s
               else gStmt (filter (\<lambda>r. \<not> (g_Source r = ''wiki'' \<and> g_RootID r \<notin> set ids))) s)
              (\<lambda>s1. reconcileLoop (gs_now s1) grants s1)))"

definition SeedVirtual :: "string \<Rightarrow> grantDB \<Rightarrow> bool \<times> grantDB" where
  "SeedVirtual rootID s =
     upsert \<lparr>g_RootID = rootID, g_Path = [], g_Enabled = True, g_Source = ''virtual'', g_UpdatedAt = gs_now s\<rparr> s"

section \<open>Handlers\<close>

datatype grantReply = ReplyRoots "string list" "(string \<times> string) list" | ReplyOk | ReplyBadRequest | ReplyInternal | ReplyForbidden

definition SearchRoots :: "grantDB \<Rightarrow> grantReply \<times> grantDB" where
  "SearchRoots s =
     (case EnabledRoots s of
        (None, s1) \<Rightarrow> (ReplyInternal, s1)
      | (Some grants, s1) \<Rightarrow> (ReplyRoots (map g_RootID grants) (map (\<lambda>g. (g_RootID g, g_Path g)) grants), s1))"

definition okOrInternal :: "bool \<times> grantDB \<Rightarrow> grantReply \<times> grantDB" where
  "okOrInternal r = (if fst r then ReplyOk else ReplyInternal, snd r)"

text \<open>A body that does not bind is \<open>None\<close>.\<close>

definition UpsertGrant_handler :: "string \<Rightarrow> (string \<times> bool) option \<Rightarrow> grantDB \<Rightarrow> grantReply \<times> grantDB" where
  "UpsertGrant_handler rootID body s =
     (case body of
        None \<Rightarrow> (ReplyBadRequest, s)
      | Some (path, enabled) \<Rightarrow> okOrInternal (UpsertGrant rootID path enabled ''wiki'' s))"

definition DeleteGrant_handler :: "string \<Rightarrow> grantDB \<Rightarrow> grantReply \<times> grantDB" where
  "DeleteGrant_handler rootID s = okOrInternal (DeleteGrant rootID s)"

definition ReconcileGrants :: "(string \<times> string \<times> bool) list option \<Rightarrow> grantDB \<Rightarrow> grantReply \<times> grantDB" where
  "ReconcileGrants body s =
     (case body of
        None \<Rightarrow> (ReplyBadRequest, s)
      | Some gs \<Rightarrow>
          okOrInternal (ReconcileWiki
            (map (\<lambda>(rootID, path, enabled).
                    \<lparr>g_RootID = rootID, g_Path = path, g_Enabled = enabled, g_Source = [], g_UpdatedAt = 0\<rparr>) gs) s))"

section \<open>Routes\<close>

definition loopbackOnly :: "string \<Rightarrow> (grantDB \<Rightarrow> grantReply \<times> grantDB) \<Rightarrow> grantDB \<Rightarrow> grantReply \<times> grantDB" where
  "loopbackOnly ip nxt s = (if ip = ''::1'' \<or> ip = ''127.0.0.1'' then nxt s else (ReplyForbidden, s))"

datatype grantRoute =
    GetSearchRoots
  | PutGrant string "(string \<times> bool) option"
  | RemoveGrant string
  | PostReconcile "(string \<times> string \<times> bool) list option"

fun registerRootGrantRoutes :: "grantRoute \<Rightarrow> string \<Rightarrow> grantDB \<Rightarrow> grantReply \<times> grantDB" where
  "registerRootGrantRoutes GetSearchRoots ip = SearchRoots"
| "registerRootGrantRoutes (PutGrant rootID body) ip = loopbackOnly ip (UpsertGrant_handler rootID body)"
| "registerRootGrantRoutes (RemoveGrant rootID) ip = loopbackOnly ip (DeleteGrant_handler rootID)"
| "registerRootGrantRoutes (PostReconcile body) ip = loopbackOnly ip (ReconcileGrants body)"

text \<open>A request with its peer address, the clock and the statements that fail during it.\<close>

record grantRequest =
  gr_route :: grantRoute
  gr_ip :: string
  gr_now :: int
  gr_faults :: "bool list"

definition grantStep :: "grantRequest \<Rightarrow> grantDB \<Rightarrow> grantReply \<times> grantDB" where
  "grantStep q s = registerRootGrantRoutes (gr_route q) (gr_ip q) (s\<lparr>gs_now := gr_now q, gs_faults := gr_faults q\<rparr>)"

section \<open>Specification\<close>

type_synonym grants = "string \<Rightarrow> RootGrant option"

definition anyFault :: "nat \<Rightarrow> grantRequest \<Rightarrow> bool" where
  "anyFault n q = list_ex id (take n (gr_faults q))"

definition isLoopback :: "string \<Rightarrow> bool" where
  "isLoopback ip = (ip = ''::1'' \<or> ip = ''127.0.0.1'')"

definition grantOf :: "int \<Rightarrow> string \<times> string \<times> bool \<Rightarrow> RootGrant" where
  "grantOf now g = \<lparr>g_RootID = fst g, g_Path = fst (snd g), g_Enabled = snd (snd g), g_Source = ''wiki'', g_UpdatedAt = now\<rparr>"

text \<open>The last entry for an id wins; other rows of the wiki go; rows of another source stay.\<close>

definition reconciled :: "int \<Rightarrow> (string \<times> string \<times> bool) list \<Rightarrow> grants \<Rightarrow> grants" where
  "reconciled now gs f = (\<lambda>k.
     case map_of (rev gs) k of
       Some pe \<Rightarrow> Some (grantOf now (k, pe))
     | None \<Rightarrow> (case f k of None \<Rightarrow> None | Some r \<Rightarrow> if g_Source r = ''wiki'' then None else Some r))"

definition enabledIDs :: "grants \<Rightarrow> string list" where
  "enabledIDs f = sorted_list_of_set {k. \<exists>r. f k = Some r \<and> g_Enabled r}"

fun specRoute :: "grantRoute \<Rightarrow> grantRequest \<Rightarrow> grants \<Rightarrow> grantReply \<times> grants" where
  "specRoute GetSearchRoots q f =
     (if anyFault 1 q then (ReplyInternal, f)
      else (ReplyRoots (enabledIDs f) (map (\<lambda>k. (k, g_Path (the (f k)))) (enabledIDs f)), f))"
| "specRoute (PutGrant k body) q f =
     (case body of None \<Rightarrow> (ReplyBadRequest, f)
      | Some pe \<Rightarrow> if anyFault 1 q then (ReplyInternal, f) else (ReplyOk, f(k \<mapsto> grantOf (gr_now q) (k, pe))))"
| "specRoute (RemoveGrant k) q f = (if anyFault 1 q then (ReplyInternal, f) else (ReplyOk, f(k := None)))"
| "specRoute (PostReconcile body) q f =
     (case body of None \<Rightarrow> (ReplyBadRequest, f)
      | Some gs \<Rightarrow> if anyFault (length gs + 3) q then (ReplyInternal, f) else (ReplyOk, reconciled (gr_now q) gs f))"

definition specGrant :: "grantRequest \<Rightarrow> grants \<Rightarrow> grantReply \<times> grants" where
  "specGrant q f =
     (if gr_route q = GetSearchRoots \<or> isLoopback (gr_ip q) then specRoute (gr_route q) q f else (ReplyForbidden, f))"

section \<open>Tables as partial functions\<close>

definition rowMap :: "RootGrant list \<Rightarrow> grants" where
  "rowMap rows = map_of (map (\<lambda>r. (g_RootID r, r)) rows)"

definition grantInv :: "grantDB \<Rightarrow> bool" where
  "grantInv s = distinct (map g_RootID (gs_rows s))"

definition absGrants :: "grantDB \<Rightarrow> grants" where
  "absGrants s = rowMap (gs_rows s)"

lemma rowMap_simps [simp]: "rowMap [] = Map.empty" "rowMap (r # rows) = (rowMap rows)(g_RootID r \<mapsto> r)"
  by (simp_all add: rowMap_def)

lemma rowMap_dom: "dom (rowMap rows) = g_RootID ` set rows"
  by (induction rows) (auto simp: dom_def)

lemma rowMap_id: "rowMap rows k = Some r \<Longrightarrow> r \<in> set rows \<and> g_RootID r = k"
  by (induction rows) (auto split: if_splits)

lemma rowMap_Some: "distinct (map g_RootID rows) \<Longrightarrow> rowMap rows k = Some r \<longleftrightarrow> r \<in> set rows \<and> g_RootID r = k"
  by (induction rows) (auto simp: image_iff)

lemma rowMap_filter:
  "distinct (map g_RootID rows) \<Longrightarrow>
   rowMap (filter P rows) k = (case rowMap rows k of None \<Rightarrow> None | Some r \<Rightarrow> if P r then Some r else None)"
proof (induction rows)
  case (Cons r rows)
  then have "rowMap rows (g_RootID r) = None" using rowMap_dom[of rows] by (auto simp: domIff)
  then show ?case using Cons by (auto split: option.splits)
qed simp

lemma upsertRow_ids: "distinct (map g_RootID rows) \<Longrightarrow> distinct (map g_RootID (upsertRow row rows))"
proof -
  have "map g_RootID (map (\<lambda>r. if g_RootID r = g_RootID row
      then r\<lparr>g_Path := g_Path row, g_Enabled := g_Enabled row, g_Source := g_Source row, g_UpdatedAt := g_UpdatedAt row\<rparr> else r) rows) = map g_RootID rows"
    by (induction rows) auto
  then show "distinct (map g_RootID rows) \<Longrightarrow> distinct (map g_RootID (upsertRow row rows))" by (auto simp: upsertRow_def simp del: map_map)
qed

lemma upsertRow_map:
  assumes "distinct (map g_RootID rows)"
  shows "rowMap (upsertRow row rows) = (rowMap rows)(g_RootID row \<mapsto> row)"
proof -
  let ?u = "\<lambda>r. if g_RootID r = g_RootID row
      then r\<lparr>g_Path := g_Path row, g_Enabled := g_Enabled row, g_Source := g_Source row, g_UpdatedAt := g_UpdatedAt row\<rparr> else r"
  have u: "?u r = (if g_RootID r = g_RootID row then row else r)" for r by (cases r; cases row) simp
  have "g_RootID row \<notin> g_RootID ` set rows \<Longrightarrow> rowMap (rows @ [row]) = (rowMap rows)(g_RootID row \<mapsto> row)"
    by (induction rows) (auto simp: fun_upd_twist)
  moreover have "g_RootID row \<in> g_RootID ` set rows \<Longrightarrow> rowMap (map ?u rows) = (rowMap rows)(g_RootID row \<mapsto> row)"
    using assms unfolding u
  proof (induction rows)
    case (Cons r rows)
    show ?case
    proof (cases "g_RootID r = g_RootID row")
      case True
      then have "map (\<lambda>r. if g_RootID r = g_RootID row then row else r) rows = rows"
        using Cons.prems(2) by (intro map_idI) (auto simp: image_iff)
      then show ?thesis using True by (auto simp: fun_eq_iff)
    next
      case False
      then show ?thesis using Cons by (auto simp: fun_upd_twist)
    qed
  qed simp
  ultimately show ?thesis by (simp add: upsertRow_def)
qed

section \<open>Statements and transactions\<close>

definition faulty :: "nat \<Rightarrow> grantDB \<Rightarrow> bool" where
  "faulty n s = list_ex id (take n (gs_faults s))"

lemma faulty_0 [simp]: "\<not> faulty 0 s"
  by (simp add: faulty_def)

lemma gStmt_eq:
  "gStmt f s = (\<not> faulty 1 s, s\<lparr>gs_faults := tl (gs_faults s), gs_rows := (if faulty 1 s then gs_rows s else f (gs_rows s))\<rparr>)"
  by (cases "gs_faults s") (simp_all add: gStmt_def faulty_def Let_def)

lemma faulty_Suc: "faulty (Suc n) s \<longleftrightarrow> faulty 1 s \<or> faulty n (s\<lparr>gs_faults := tl (gs_faults s), gs_rows := rows\<rparr>)"
  by (cases "gs_faults s") (simp_all add: faulty_def)

lemma gThen_eq: "gThen r k = (if fst r then k (snd r) else (False, snd r))"
  by (simp add: gThen_def case_prod_beta split: bool.splits)

lemma reconcileLoop_eq:
  "fst (reconcileLoop now gs s) = (\<not> faulty (length gs) s)
   \<and> (\<not> faulty (length gs) s \<longrightarrow>
        snd (reconcileLoop now gs s) = s\<lparr>gs_faults := drop (length gs) (gs_faults s), gs_rows := fold (\<lambda>g. upsertRow (wikiRow now g)) gs (gs_rows s)\<rparr>)"
proof (induction gs arbitrary: s)
  case (Cons g gs)
  show ?case
    using Cons[of "s\<lparr>gs_faults := tl (gs_faults s), gs_rows := upsertRow (wikiRow now g) (gs_rows s)\<rparr>"]
      faulty_Suc[of "length gs" s "upsertRow (wikiRow now g) (gs_rows s)"]
    by (auto simp: gThen_eq gStmt_eq drop_Suc)
qed simp

lemma fold_upsert:
  assumes "distinct (map g_RootID rows)"
  shows "distinct (map g_RootID (fold (\<lambda>g. upsertRow (wikiRow now g)) gs rows))"
    "rowMap (fold (\<lambda>g. upsertRow (wikiRow now g)) gs rows) k =
       (case map_of (rev (map (\<lambda>g. (g_RootID g, g)) gs)) k of None \<Rightarrow> rowMap rows k | Some g \<Rightarrow> Some (wikiRow now g))"
proof -
  have "distinct (map g_RootID (fold (\<lambda>g. upsertRow (wikiRow now g)) gs rows)) \<and>
    rowMap (fold (\<lambda>g. upsertRow (wikiRow now g)) gs rows) k =
       (case map_of (rev (map (\<lambda>g. (g_RootID g, g)) gs)) k of None \<Rightarrow> rowMap rows k | Some g \<Rightarrow> Some (wikiRow now g))"
    using assms
  proof (induction gs rule: rev_induct)
    case (snoc g gs)
    then have d: "distinct (map g_RootID (fold (\<lambda>g. upsertRow (wikiRow now g)) gs rows))" by blast
    show ?case using upsertRow_map[OF d, of "wikiRow now g"] upsertRow_ids[OF d] snoc by (simp add: wikiRow_def)
  qed simp
  then show "distinct (map g_RootID (fold (\<lambda>g. upsertRow (wikiRow now g)) gs rows))"
    "rowMap (fold (\<lambda>g. upsertRow (wikiRow now g)) gs rows) k =
       (case map_of (rev (map (\<lambda>g. (g_RootID g, g)) gs)) k of None \<Rightarrow> rowMap rows k | Some g \<Rightarrow> Some (wikiRow now g))"
    by blast+
qed

lemma faulty_add: "faulty (m + n) s \<longleftrightarrow> faulty m s \<or> faulty n (s\<lparr>gs_faults := drop m (gs_faults s), gs_rows := rows\<rparr>)"
  by (simp add: faulty_def take_add)

lemma faulty_rows [simp]: "faulty n (s\<lparr>gs_rows := rows\<rparr>) = faulty n s"
  by (simp add: faulty_def)

lemma ReconcileWiki_eq:
  fixes s :: grantDB and gs :: "RootGrant list"
  defines "kept \<equiv> filter (\<lambda>r. \<not> (g_Source r = ''wiki'' \<and> g_RootID r \<notin> g_RootID ` set gs)) (gs_rows s)"
  shows "fst (ReconcileWiki gs s) = (\<not> faulty (length gs + 3) s)"
    "gs_rows (snd (ReconcileWiki gs s)) =
       (if faulty (length gs + 3) s then gs_rows s else fold (\<lambda>g. upsertRow (wikiRow (gs_now s) g)) gs kept)"
proof -
  let ?s1 = "s\<lparr>gs_faults := drop 1 (gs_faults s), gs_rows := gs_rows s\<rparr>"
  let ?s2 = "s\<lparr>gs_faults := drop 2 (gs_faults s), gs_rows := kept\<rparr>"
  let ?rows = "fold (\<lambda>g. upsertRow (wikiRow (gs_now s) g)) gs kept"
  let ?s3 = "s\<lparr>gs_faults := drop (length gs + 2) (gs_faults s), gs_rows := ?rows\<rparr>"
  have f: "faulty (length gs + 3) s \<longleftrightarrow> faulty 1 s \<or> faulty 1 ?s1 \<or> faulty (length gs) ?s2 \<or> faulty 1 ?s3"
    using faulty_add[of 1 "1 + (length gs + 1)" s "gs_rows s"] faulty_add[of 1 "length gs + 1" ?s1 kept] faulty_add[of "length gs" 1 ?s2 ?rows]
    by (simp add: numeral_3_eq_3 numeral_2_eq_2 ac_simps)
  have del: "(if length (map g_RootID gs) = 0 then gStmt (filter (\<lambda>r. \<not> g_Source r = ''wiki'')) ?s1
      else gStmt (filter (\<lambda>r. \<not> (g_Source r = ''wiki'' \<and> g_RootID r \<notin> set (map g_RootID gs)))) ?s1)
    = (\<not> faulty 1 ?s1, if faulty 1 ?s1 then ?s2\<lparr>gs_rows := gs_rows s\<rparr> else ?s2)"
    by (cases gs) (simp_all add: gStmt_eq kept_def drop_Suc numeral_2_eq_2)
  have begin_: "gStmt id s = (\<not> faulty 1 s, ?s1)" by (simp add: gStmt_eq drop_Suc)
  have commit: "gStmt id ?s3 = (\<not> faulty 1 ?s3, ?s3\<lparr>gs_faults := tl (gs_faults ?s3)\<rparr>)" by (simp add: gStmt_eq)
  note loop = reconcileLoop_eq[of "gs_now s" gs ?s2]
  have l3: "\<not> faulty (length gs) ?s2 \<Longrightarrow> snd (reconcileLoop (gs_now s) gs ?s2) = ?s3" using loop by (simp add: add.commute)
  show "fst (ReconcileWiki gs s) = (\<not> faulty (length gs + 3) s)"
    "gs_rows (snd (ReconcileWiki gs s)) =
       (if faulty (length gs + 3) s then gs_rows s else fold (\<lambda>g. upsertRow (wikiRow (gs_now s) g)) gs kept)"
    unfolding f ReconcileWiki_def gTransaction_def begin_ gThen_eq fst_conv snd_conv Let_def del
    using loop l3 commit by (auto split: prod.splits bool.splits)
qed

section \<open>The handlers implement the specification\<close>

lemma enabledIDs_rows:
  assumes "distinct (map g_RootID rows)"
  shows "map g_RootID (sort_key g_RootID (filter g_Enabled rows)) = enabledIDs (rowMap rows)"
proof -
  let ?xs = "map g_RootID (sort_key g_RootID (filter g_Enabled rows))"
  have "set ?xs = {k. \<exists>r. rowMap rows k = Some r \<and> g_Enabled r}" using rowMap_Some[OF assms] by auto
  moreover have "sorted ?xs" "distinct ?xs"
    using distinct_map_filter[OF assms] by (simp_all add: distinct_map)
  ultimately show ?thesis unfolding enabledIDs_def by (metis sorted_list_of_set.idem_if_sorted_distinct)
qed

lemma enabled_paths:
  assumes "distinct (map g_RootID rows)"
  shows "map (\<lambda>g. (g_RootID g, g_Path g)) (sort_key g_RootID (filter g_Enabled rows)) =
    map (\<lambda>k. (k, g_Path (the (rowMap rows k)))) (enabledIDs (rowMap rows))"
proof -
  have "rowMap rows (g_RootID g) = Some g" if "g \<in> set rows" for g using rowMap_Some[OF assms] that by simp
  then show ?thesis unfolding enabledIDs_rows[OF assms, symmetric] by simp
qed

lemma reconcile_rows:
  assumes "distinct (map g_RootID rows)"
  defines "row g \<equiv> \<lparr>g_RootID = fst g, g_Path = fst (snd g), g_Enabled = snd (snd g), g_Source = [], g_UpdatedAt = 0\<rparr>"
  shows "rowMap (fold (\<lambda>g. upsertRow (wikiRow now g)) (map row gs)
      (filter (\<lambda>r. \<not> (g_Source r = ''wiki'' \<and> g_RootID r \<notin> g_RootID ` set (map row gs))) rows)) = reconciled now gs (rowMap rows)"
proof
  fix k
  have m: "map_of (rev (map (\<lambda>g. (g_RootID g, g)) (map row gs))) k = map_option (\<lambda>pe. row (k, pe)) (map_of (rev gs) k)"
  proof -
    have "map_of (map (\<lambda>g. (g_RootID (row g), row g)) xs) k = map_option (\<lambda>pe. row (k, pe)) (map_of xs k)" for xs
      by (induction xs) (auto simp: row_def)
    then show ?thesis by (simp add: rev_map o_def)
  qed
  have n: "map_of (rev gs) k = None \<Longrightarrow> k \<notin> g_RootID ` set (map row gs)"
    by (auto simp: map_of_eq_None_iff row_def image_iff)
  have d: "distinct (map g_RootID (filter P rows))" for P using distinct_map_filter[OF assms(1)] .
  show "rowMap (fold (\<lambda>g. upsertRow (wikiRow now g)) (map row gs)
      (filter (\<lambda>r. \<not> (g_Source r = ''wiki'' \<and> g_RootID r \<notin> g_RootID ` set (map row gs))) rows)) k = reconciled now gs (rowMap rows) k"
    unfolding fold_upsert(2)[OF d] m using n
    by (cases "map_of (rev gs) k")
      (auto simp: reconciled_def rowMap_filter[OF assms(1)] wikiRow_def grantOf_def row_def split: option.splits dest: rowMap_id)
qed

lemma loopback_eq: "loopbackOnly ip nxt s = (if isLoopback ip then nxt s else (ReplyForbidden, s))"
  by (simp add: loopbackOnly_def isLoopback_def)

lemma grantStep_refines:
  assumes "grantInv s"
  shows "grantInv (snd (grantStep q s)) \<and> specGrant q (absGrants s) = (fst (grantStep q s), absGrants (snd (grantStep q s)))"
proof -
  have d: "distinct (map g_RootID (gs_rows s))" using assms by (simp add: grantInv_def)
  let ?s = "s\<lparr>gs_now := gr_now q, gs_faults := gr_faults q\<rparr>"
  have a: "anyFault n q = faulty n ?s" for n by (simp add: anyFault_def faulty_def)
  note defs = grantStep_def specGrant_def grantInv_def absGrants_def a okOrInternal_def
  show ?thesis
  proof (cases "gr_route q")
    case GetSearchRoots
    then show ?thesis using d
      by (simp add: defs SearchRoots_def EnabledRoots_def gStmt_eq enabledIDs_rows[OF d] enabled_paths[OF d])
  next
    case (PutGrant k body)
    show ?thesis
    proof (cases body)
      case None
      then show ?thesis using d PutGrant by (simp add: defs loopback_eq UpsertGrant_handler_def)
    next
      case (Some pe)
      then show ?thesis using d PutGrant
        by (simp add: defs loopback_eq UpsertGrant_handler_def UpsertGrant_def upsert_def gStmt_eq upsertRow_map[OF d] upsertRow_ids[OF d]
            grantOf_def case_prod_beta)
    qed
  next
    case (RemoveGrant k)
    have "rowMap (filter (\<lambda>r. g_RootID r \<noteq> k) (gs_rows s)) = (rowMap (gs_rows s))(k := None)"
      by (auto simp: fun_eq_iff rowMap_filter[OF d] split: option.splits dest: rowMap_id)
    then show ?thesis using d RemoveGrant distinct_map_filter[OF d]
      by (simp add: defs loopback_eq DeleteGrant_handler_def DeleteGrant_def gStmt_eq)
  next
    case (PostReconcile body)
    show ?thesis
    proof (cases body)
      case None
      then show ?thesis using d PostReconcile by (simp add: defs loopback_eq ReconcileGrants_def)
    next
      case (Some gs)
      let ?row = "\<lambda>g. \<lparr>g_RootID = fst g, g_Path = fst (snd g), g_Enabled = snd (snd g), g_Source = [], g_UpdatedAt = 0\<rparr>"
      have r: "(\<lambda>(rootID, path, enabled). \<lparr>g_RootID = rootID, g_Path = path, g_Enabled = enabled, g_Source = [], g_UpdatedAt = 0\<rparr>) = ?row"
        by (simp add: fun_eq_iff)
      show ?thesis
        using d PostReconcile Some ReconcileWiki_eq[of "map ?row gs" ?s] reconcile_rows[OF d, of "gr_now q" gs]
          fold_upsert(1)[OF distinct_map_filter[OF d]]
        by (simp add: defs loopback_eq ReconcileGrants_def r)
    qed
  qed
qed

interpretation rg: simulation grantInv absGrants grantStep specGrant
  by unfold_locales (use grantStep_refines in auto)

definition grantDB0 :: grantDB where
  "grantDB0 = \<lparr>gs_rows = [], gs_now = 0, gs_faults = []\<rparr>"

lemma seeded_inv: "grantInv (snd (SeedVirtual k grantDB0))"
  "absGrants (snd (SeedVirtual k grantDB0)) =
     [k \<mapsto> \<lparr>g_RootID = k, g_Path = [], g_Enabled = True, g_Source = ''virtual'', g_UpdatedAt = 0\<rparr>]"
  by (simp_all add: SeedVirtual_def upsert_def gStmt_def upsertRow_def grantDB0_def grantInv_def absGrants_def)

text \<open>
  C25. The table of search roots implements a partial function from ids to grants: for every sequence of requests, from any peer and
  with any failing statements, every reply is that of the specification. A reconciliation takes effect as a whole or not at all and
  leaves exactly the given wiki grants, the search endpoint answers the enabled roots in order of their ids, and a peer that is not
  local changes nothing.
\<close>

theorem RootGrants_refine:
  "runOps specGrant qs (absGrants (snd (SeedVirtual k grantDB0)))
   = (fst (runOps grantStep qs (snd (SeedVirtual k grantDB0))), absGrants (snd (runOps grantStep qs (snd (SeedVirtual k grantDB0)))))
   \<and> grantInv (snd (runOps grantStep qs (snd (SeedVirtual k grantDB0))))"
  using rg.sim_run_spec[OF seeded_inv(1)] rg.sim_run_inv[OF seeded_inv(1)] by blast

text \<open>The ids a request names.\<close>

fun namedIDs :: "grantRoute \<Rightarrow> string set" where
  "namedIDs GetSearchRoots = {}"
| "namedIDs (PutGrant k _) = {k}"
| "namedIDs (RemoveGrant k) = {k}"
| "namedIDs (PostReconcile body) = (case body of None \<Rightarrow> {} | Some gs \<Rightarrow> fst ` set gs)"

lemma spec_keeps_virtual:
  assumes "f k = Some r" "g_Source r \<noteq> ''wiki''" "k \<notin> namedIDs (gr_route q) \<or> \<not> isLoopback (gr_ip q)"
  shows "snd (specGrant q f) k = Some r"
proof (cases "gr_route q")
  case (PostReconcile body)
  have "k \<notin> fst ` set gs \<Longrightarrow> map_of (rev gs) k = None" for gs :: "(string \<times> string \<times> bool) list" by (simp add: map_of_eq_None_iff)
  then show ?thesis using assms PostReconcile by (auto simp: specGrant_def reconciled_def split: option.splits)
qed (use assms in \<open>auto simp: specGrant_def split: option.splits\<close>)

lemma run_keeps_virtual:
  assumes "f k = Some r" "g_Source r \<noteq> ''wiki''" "list_all (\<lambda>q. k \<notin> namedIDs (gr_route q) \<or> \<not> isLoopback (gr_ip q)) qs"
  shows "snd (runOps specGrant qs f) k = Some r"
  using assms
proof (induction qs arbitrary: f)
  case (Cons q qs)
  then have "snd (specGrant q f) k = Some r" using spec_keeps_virtual by auto
  then show ?case using Cons.IH[of "snd (specGrant q f)"] Cons.prems by (simp add: case_prod_beta)
qed simp

text \<open>
  A seeded virtual root stays enabled and searchable through every sequence of requests in which no local request names its id:
  reconciliations of the wiki never touch it.
\<close>

theorem virtual_root_kept:
  assumes "list_all (\<lambda>q. k \<notin> namedIDs (gr_route q) \<or> \<not> isLoopback (gr_ip q)) qs"
    and "runOps grantStep qs (snd (SeedVirtual k grantDB0)) = (replies, s)"
  shows "\<exists>r \<in> set (gs_rows s). g_RootID r = k \<and> g_Enabled r \<and> g_Source r = ''virtual''"
proof -
  have "absGrants s k = Some \<lparr>g_RootID = k, g_Path = [], g_Enabled = True, g_Source = ''virtual'', g_UpdatedAt = 0\<rparr>"
    using run_keeps_virtual[OF _ _ assms(1), of "absGrants (snd (SeedVirtual k grantDB0))"] rg.sim_run_spec[OF seeded_inv(1), of qs k] assms(2)
    by (simp add: seeded_inv)
  then show ?thesis using rowMap_id unfolding absGrants_def by fastforce
qed

theorem virtual_root_kept_witness:
  "\<exists>r \<in> set (gs_rows (snd (runOps grantStep
      [\<lparr>gr_route = PostReconcile (Some [(''a1'', ''/DATA/Docs'', True)]), gr_ip = ''::1'', gr_now = 5, gr_faults = []\<rparr>,
       \<lparr>gr_route = RemoveGrant ''photos'', gr_ip = ''10.0.0.9'', gr_now = 6, gr_faults = []\<rparr>]
      (snd (SeedVirtual ''photos'' grantDB0))))). g_RootID r = ''photos'' \<and> g_Enabled r \<and> g_Source r = ''virtual''"
  by (rule virtual_root_kept [OF _ prod.collapse [symmetric]]) (simp add: isLoopback_def)

end
