(* ===== verification/LinkSys.thy ===== *)
theory LinkSys
  imports FileTree
begin

text \<open>
  A file system with symbolic links, for the code that moves whole directories and leaves links behind. A link holds the components of
  an absolute path. Calls follow links the way the kernel does: in every component for \<^verbatim>\<open>Stat\<close> and \<^verbatim>\<open>EvalSymlinks\<close>, in all but the
  last one for the calls that create, rename or remove an entry.
\<close>

section \<open>Nodes and resolution\<close>

datatype lnode = LFile string | LDir | LLink "string list"

type_synonym lfs = "(string list \<times> lnode) list"

datatype lerr = NoEnt | NotDir | LinkLoop

definition lGet :: "lfs \<Rightarrow> string list \<Rightarrow> lnode option" where
  "lGet f p = (if p = [] then Some LDir else map_of f p)"

text \<open>\<open>n\<close> bounds the links that are followed; \<open>d\<close> is the resolved part, a directory.\<close>

function walk :: "nat \<Rightarrow> lfs \<Rightarrow> string list \<Rightarrow> string list \<Rightarrow> (lerr, string list) result" where
  "walk n f d [] = Inr d"
| "walk n f d (w # ws) =
     (case lGet f (d @ [w]) of
        None \<Rightarrow> Inl NoEnt
      | Some LDir \<Rightarrow> walk n f (d @ [w]) ws
      | Some (LFile _) \<Rightarrow> if ws = [] then Inr (d @ [w]) else Inl NotDir
      | Some (LLink t) \<Rightarrow> (case n of 0 \<Rightarrow> Inl LinkLoop | Suc k \<Rightarrow> walk k f [] (t @ ws)))"
  by pat_completeness auto
termination by (relation "measures [\<lambda>(n, _, _, _). n, \<lambda>(_, _, _, ws). length ws]") auto

definition EvalSymlinks :: "lfs \<Rightarrow> string list \<Rightarrow> (lerr, string list) result" where
  "EvalSymlinks f p = walk 255 f [] p"

definition lStat :: "lfs \<Rightarrow> string list \<Rightarrow> (lerr, lnode) result" where
  "lStat f p =
     (case walk 40 f [] p of Inl e \<Rightarrow> Inl e | Inr r \<Rightarrow> (case lGet f r of None \<Rightarrow> Inl NoEnt | Some n \<Rightarrow> Inr n))"

definition statOk :: "lfs \<Rightarrow> string list \<Rightarrow> bool" where
  "statOk f p = (case lStat f p of Inr _ \<Rightarrow> True | Inl _ \<Rightarrow> False)"

definition isDirL :: "lfs \<Rightarrow> string list \<Rightarrow> bool" where
  "isDirL f p = (lStat f p = Inr LDir)"

text \<open>The entry a path names: its directory is resolved, its last component is not.\<close>

definition lWhere :: "lfs \<Rightarrow> string list \<Rightarrow> string list option" where
  "lWhere f p =
     (if p = [] then Some []
      else case walk 40 f [] (butlast p) of
             Inl _ \<Rightarrow> None
           | Inr d \<Rightarrow> if lGet f d = Some LDir then Some (d @ [last p]) else None)"

definition lLstat :: "lfs \<Rightarrow> string list \<Rightarrow> lnode option" where
  "lLstat f p = (case lWhere f p of None \<Rightarrow> None | Some q \<Rightarrow> lGet f q)"

definition isLink :: "lnode option \<Rightarrow> bool" where
  "isLink n = (case n of Some (LLink _) \<Rightarrow> True | _ \<Rightarrow> False)"

section \<open>Calls that change entries\<close>

definition lRemoveAll :: "lfs \<Rightarrow> string list \<Rightarrow> lfs" where
  "lRemoveAll f p = (case lWhere f p of None \<Rightarrow> f | Some q \<Rightarrow> filter (\<lambda>e. \<not> prefix q (fst e)) f)"

definition lRemove :: "lfs \<Rightarrow> string list \<Rightarrow> lfs option" where
  "lRemove f p =
     (case lWhere f p of
        None \<Rightarrow> None
      | Some q \<Rightarrow>
          if q = [] \<or> lGet f q = None \<or> (lGet f q = Some LDir \<and> list_ex (\<lambda>e. strict_prefix q (fst e)) f) then None
          else Some (filter (\<lambda>e. fst e \<noteq> q) f))"

text \<open>Go refuses to rename onto a directory.\<close>

definition lRename :: "lfs \<Rightarrow> string list \<Rightarrow> string list \<Rightarrow> lfs option" where
  "lRename f old new =
     (case (lWhere f old, lWhere f new) of
        (Some p, Some q) \<Rightarrow>
          if p = [] \<or> q = [] \<or> lGet f p = None \<or> lGet f q = Some LDir then None
          else if p = q then Some f
          else if lGet f p = Some LDir \<and> lGet f q \<noteq> None then None
          else if prefix p q then None
          else Some (map (\<lambda>e. (moveKey p q (fst e), snd e)) (filter (\<lambda>e. \<not> prefix q (fst e)) f))
      | _ \<Rightarrow> None)"

definition lSymlink :: "lfs \<Rightarrow> string list \<Rightarrow> string list \<Rightarrow> lfs option" where
  "lSymlink f target p =
     (case lWhere f p of
        None \<Rightarrow> None
      | Some q \<Rightarrow> if lGet f q \<noteq> None then None else Some ((q, LLink target) # f))"

function lMkdirAll :: "lfs \<Rightarrow> string list \<Rightarrow> lfs option" where
  "lMkdirAll f p =
     (case lStat f p of
        Inr LDir \<Rightarrow> Some f
      | Inr _ \<Rightarrow> None
      | Inl _ \<Rightarrow>
          if p = [] then None
          else (case lMkdirAll f (butlast p) of
                  None \<Rightarrow> None
                | Some g \<Rightarrow> (case lWhere g p of
                               None \<Rightarrow> None
                             | Some q \<Rightarrow> if lGet g q \<noteq> None then None else Some ((q, LDir) # g))))"
  by pat_completeness auto
termination by (relation "measure (\<lambda>(_, p). length p)") auto

declare lMkdirAll.simps [simp del]

text \<open>\<open>mix\<close> is what an interrupted call leaves: the entries in \<open>done\<close> are as after it, the others as before.\<close>

definition mix :: "(string list \<Rightarrow> bool) \<Rightarrow> lfs \<Rightarrow> lfs \<Rightarrow> lfs" where
  "mix done f g = filter (\<lambda>e. done (fst e)) g @ filter (\<lambda>e. \<not> done (fst e)) f"

text \<open>Bytes under a path, links counted with the length of their text.\<close>

definition treeSize :: "lfs \<Rightarrow> string list \<Rightarrow> int" where
  "treeSize f p = sum_list (map (\<lambda>e. case snd e of LFile c \<Rightarrow> int (length c) | LDir \<Rightarrow> 0 | LLink t \<Rightarrow> int (length (path_of t)))
     (filter (\<lambda>e. prefix p (fst e)) f))"

text \<open>\<^verbatim>\<open>GetFileOrDirSize\<close> of \<^verbatim>\<open>pkg/utils/file/file.go\<close> follows the top-level link.\<close>

definition linkedSize :: "lfs \<Rightarrow> string list \<Rightarrow> int" where
  "linkedSize f p =
     (case walk 40 f [] p of
        Inl _ \<Rightarrow> 0
      | Inr r \<Rightarrow> (case lGet f r of None \<Rightarrow> 0 | Some (LFile c) \<Rightarrow> int (length c) | Some _ \<Rightarrow> treeSize f r))"

section \<open>Laws\<close>

lemma lGet_Nil [simp]: "lGet f [] = Some LDir"
  by (simp add: lGet_def)

lemma map_of_filter_not_key: "map_of (filter (\<lambda>e. \<not> P (fst e)) f) r = (if P r then None else map_of f r)"
  by (induction f) auto

lemma lGet_mix [simp]: "lGet (mix done f g) r = (if done r then lGet g r else lGet f r)"
  by (auto simp: lGet_def mix_def map_of_filter_key map_of_filter_not_key map_add_def split: option.splits)

text \<open>A path is physical when everything above it is a directory.\<close>

definition phys :: "lfs \<Rightarrow> string list \<Rightarrow> bool" where
  "phys f p = (p \<noteq> [] \<and> (\<forall>q. strict_prefix q p \<longrightarrow> lGet f q = Some LDir))"

lemma walk_dirs:
  "(\<And>q. prefix q ws \<Longrightarrow> lGet f (d @ q) = Some LDir) \<Longrightarrow> walk n f d ws = Inr (d @ ws)"
proof (induction ws arbitrary: d)
  case (Cons w ws)
  have "lGet f (d @ [w]) = Some LDir" using Cons.prems[of "[w]"] by simp
  moreover have "lGet f ((d @ [w]) @ q) = Some LDir" if "prefix q ws" for q using Cons.prems[of "w # q"] that by simp
  ultimately show ?case using Cons.IH[of "d @ [w]"] by simp
qed simp

lemma walk_phys_append:
  "(\<And>q. strict_prefix q ws \<Longrightarrow> lGet f (d @ q) = Some LDir) \<Longrightarrow> ws \<noteq> [] \<Longrightarrow> walk n f d ws = walk n f (d @ butlast ws) [last ws]"
proof (induction ws arbitrary: d)
  case (Cons w ws)
  show ?case
  proof (cases "ws = []")
    case False
    have "lGet f (d @ [w]) = Some LDir" using Cons.prems(1)[of "[w]"] False by (simp add: strict_prefix_def)
    moreover have "lGet f ((d @ [w]) @ q) = Some LDir" if "strict_prefix q ws" for q
      using Cons.prems(1)[of "w # q"] that by (simp add: strict_prefix_def)
    ultimately show ?thesis using Cons.IH[of "d @ [w]"] False by simp
  qed simp
qed simp

lemma phys_butlast: "phys f p \<Longrightarrow> prefix q (butlast p) \<Longrightarrow> lGet f q = Some LDir"
  unfolding phys_def by (metis append_butlast_last_id not_Cons_self2 prefixI prefix_order.dual_order.strict_trans1 prefix_order.le_neq_trans self_append_conv)

lemma lWhere_phys: "phys f p \<Longrightarrow> lWhere f p = Some p"
  using walk_dirs[of "butlast p" f "[]" 40] phys_butlast[of f p] by (auto simp: lWhere_def phys_def)

lemma lLstat_phys: "phys f p \<Longrightarrow> lLstat f p = lGet f p"
  by (simp add: lLstat_def lWhere_phys)

lemma lGet_RemoveAll: "phys f p \<Longrightarrow> lGet (lRemoveAll f p) r = (if prefix p r then None else lGet f r)"
  by (auto simp: lRemoveAll_def lWhere_phys lGet_def map_of_filter_not_key phys_def)

lemma lGet_Remove:
  "phys f p \<Longrightarrow> lRemove f p = Some g \<Longrightarrow> lGet g r = (if r = p then None else lGet f r) \<and> lGet f p \<noteq> None"
  using map_of_filter_key[of "\<lambda>q. q \<noteq> p" f r] by (auto simp: lRemove_def lWhere_phys lGet_def phys_def split: if_splits)

lemma lGet_Rename:
  assumes "phys f p" "phys f q" "disjoint p q" "lRename f p q = Some g"
  shows "lGet g r = (if prefix q r then lGet f (p @ drop (length q) r) else if prefix p r then None else lGet f r)"
    "lGet f p \<noteq> None" "lGet f q \<noteq> Some LDir"
proof -
  have ne: "p \<noteq> []" "q \<noteq> []" "\<not> prefix p q" "p \<noteq> q" using assms(1-3) by (auto simp: phys_def disjoint_def)
  have g: "g = map (\<lambda>e. (moveKey p q (fst e), snd e)) (filter (\<lambda>e. \<not> prefix q (fst e)) f)"
    and "lGet f p \<noteq> None" "lGet f q \<noteq> Some LDir"
    using assms(4) ne by (auto simp: lRename_def lWhere_phys[OF assms(1)] lWhere_phys[OF assms(2)] split: if_splits)
  then show "lGet f p \<noteq> None" "lGet f q \<noteq> Some LDir" by simp_all
  have n: "\<not> prefix q (p @ s)" for s using disjoint_not_prefix[OF assms(3)] .
  have "map_of g r = (if prefix q r then map_of (filter (\<lambda>e. \<not> prefix q (fst e)) f) (p @ drop (length q) r)
      else if prefix p r then None else map_of (filter (\<lambda>e. \<not> prefix q (fst e)) f) r)"
    unfolding g by (rule map_of_move_tree) (use ne in auto)
  then show "lGet g r = (if prefix q r then lGet f (p @ drop (length q) r) else if prefix p r then None else lGet f r)"
    using ne n by (auto simp: lGet_def map_of_filter_not_key)
qed

lemma lGet_Symlink:
  assumes "phys f p" "lSymlink f t p = Some g"
  shows "lGet g r = (if r = p then Some (LLink t) else lGet f r)" "lGet f p = None"
  using assms by (auto simp: lSymlink_def lWhere_phys phys_def lGet_def split: if_splits)

lemma walk_result:
  "walk n f d ws = Inr r \<Longrightarrow> lGet f d = Some LDir \<Longrightarrow> (\<And>q. prefix q d \<Longrightarrow> lGet f q = Some LDir) \<Longrightarrow>
   r = [] \<or> (phys f r \<and> (lGet f r = Some LDir \<or> (\<exists>c. lGet f r = Some (LFile c))))"
proof (induction n f d ws rule: walk.induct)
  case (1 n f d)
  then show ?case by (auto simp: phys_def strict_prefix_def)
next
  case (2 n f d w ws)
  have p: "phys f (d @ [w])" using "2.prems"(3) by (auto simp: phys_def strict_prefix_def)
  show ?case
  proof (cases "lGet f (d @ [w])")
    case (Some nd)
    show ?thesis
    proof (cases nd)
      case (LFile c)
      then show ?thesis using "2.prems" Some p by (auto split: if_splits)
    next
      case LDir
      have "lGet f q = Some LDir" if "prefix q (d @ [w])" for q using that "2.prems"(3)[of q] Some LDir by auto
      then show ?thesis using "2.IH"(1)[OF Some LDir] "2.prems" Some LDir by simp
    next
      case (LLink t)
      then obtain k where k: "n = Suc k" using "2.prems" Some by (cases n) auto
      show ?thesis by (rule "2.IH"(2)[OF Some LLink k]) (use "2.prems" Some LLink k in auto)
    qed
  qed (use "2.prems" in simp)
qed

lemma EvalSymlinks_phys:
  assumes "EvalSymlinks f p = Inr r"
  shows "r = [] \<or> (phys f r \<and> (lGet f r = Some LDir \<or> (\<exists>c. lGet f r = Some (LFile c))))"
  using assms walk_result[of 255 f "[]" p r] by (simp add: EvalSymlinks_def)

text \<open>Resolving a physical path looks at its last entry only.\<close>

lemma walk_phys:
  assumes "phys f p"
  shows "walk n f [] p =
    (case lGet f p of None \<Rightarrow> Inl NoEnt | Some (LLink t) \<Rightarrow> (case n of 0 \<Rightarrow> Inl LinkLoop | Suc k \<Rightarrow> walk k f [] t) | Some _ \<Rightarrow> Inr p)"
proof -
  have "walk n f [] p = walk n f (butlast p) [last p]" using walk_phys_append[of p f "[]" n] assms by (simp add: phys_def)
  moreover have "butlast p @ [last p] = p" using assms by (simp add: phys_def)
  ultimately show ?thesis by (simp split: option.splits lnode.splits nat.splits)
qed

end
