(* ===== verification/Migrate.thy ===== *)
theory Migrate
  imports LinkSys PathAcl
begin

text \<open>
  Migration of data directories between disks (\<^verbatim>\<open>service/migrate.go\<close>, \<^verbatim>\<open>service/migrate_photos.go\<close>): each unit is copied beside
  its destination, promoted, and its anchor replaced by a link, with roll-back of everything on failure. A path is the list of its
  components. A call on the file system may fail, and the process may be told to stop before or during any call; the script
  \<open>ms_ticks\<close> says what happens at each one. Stopping runs \<^verbatim>\<open>CleanupActiveMigration\<close>. Parameters are \<^verbatim>\<open>rsync\<close>, \<^verbatim>\<open>statfs\<close>, the running
  containers and the text of \<^verbatim>\<open>photos.conf\<close>.
\<close>

section \<open>State\<close>

definition MigrateTypeAppData :: string where "MigrateTypeAppData = ''app_data''"
definition MigrateTypeImages :: string where "MigrateTypeImages = ''images''"
definition MigrateTypeUserData :: string where "MigrateTypeUserData = ''database''"
definition MigrateTypePhotos :: string where "MigrateTypePhotos = ''photos_data''"

record MigrateStatus =
  st_ID :: string
  st_Type :: string
  st_Status :: string
  st_Phase :: string
  st_StoppingApps :: int
  st_Progress :: int
  st_ProcessedSize :: int
  st_TotalSize :: int
  st_NewPath :: string
  st_Failed :: bool

record migrateUnit =
  mu_anchor :: "string list"
  mu_src :: "string list"
  mu_dst :: "string list"

text \<open>\<open>mc_restore\<close> holds the anchor and the source of the link to put back, if any.\<close>

record migrationCleanup =
  mc_path :: "string list"
  mc_restore :: "(string list \<times> string list) option"

text \<open>What happens at a call: it runs, it fails, or the process is stopped; the last two with the entries already worked on.\<close>

datatype tick = Run | Fault "string list \<Rightarrow> bool" | Kill "string list \<Rightarrow> bool"

record migState =
  ms_fs :: lfs
  ms_ticks :: "tick list"
  ms_cleanups :: "migrationCleanup list"
  ms_lockFile :: bool
  ms_docker :: bool
  ms_photos :: bool
  ms_started :: "string list"
  ms_dockerRoot :: "string list option"
  ms_containerdRoot :: "string list option"
  ms_jobs :: "string \<Rightarrow> MigrateStatus option"
  ms_config :: "PathConfig option"

record migEnv =
  mv_rsync :: "string \<Rightarrow> string list \<Rightarrow> string list \<Rightarrow> lfs \<Rightarrow> bool \<times> lfs"
  mv_statfs :: "string list \<Rightarrow> lfs \<Rightarrow> int option"
  mv_containers :: "string list option"
  mv_photosConf :: "string option"

section \<open>Calls\<close>

text \<open>\<open>None\<close>: the process was stopped.\<close>

type_synonym 'a mg = "migState \<Rightarrow> 'a option \<times> migState"

definition mReturn :: "'a \<Rightarrow> 'a mg" where
  "mReturn x s = (Some x, s)"

definition mBind :: "'a mg \<Rightarrow> ('a \<Rightarrow> 'b mg) \<Rightarrow> 'b mg" where
  "mBind m k s = (case m s of (None, s1) \<Rightarrow> (None, s1) | (Some x, s1) \<Rightarrow> k x s1)"

definition mGet :: "(migState \<Rightarrow> 'a) \<Rightarrow> 'a mg" where
  "mGet h s = (Some (h s), s)"

definition mModify :: "(migState \<Rightarrow> migState) \<Rightarrow> unit mg" where
  "mModify h s = (Some (), h s)"

definition curTick :: "migState \<Rightarrow> tick" where
  "curTick s = (case ms_ticks s of [] \<Rightarrow> Run | t # _ \<Rightarrow> t)"

definition nextTick :: "migState \<Rightarrow> migState" where
  "nextTick s = s\<lparr>ms_ticks := tl (ms_ticks s)\<rparr>"

text \<open>A call that happens at once or not at all.\<close>

definition mCall :: "(lfs \<Rightarrow> lfs option) \<Rightarrow> bool mg" where
  "mCall h s =
     (case curTick s of
        Run \<Rightarrow> (case h (ms_fs s) of None \<Rightarrow> (Some False, nextTick s) | Some g \<Rightarrow> (Some True, (nextTick s)\<lparr>ms_fs := g\<rparr>))
      | Fault _ \<Rightarrow> (Some False, nextTick s)
      | Kill _ \<Rightarrow> (None, nextTick s))"

text \<open>A call that works through a tree and may stop half-way.\<close>

definition mTree :: "(lfs \<Rightarrow> bool \<times> lfs) \<Rightarrow> bool mg" where
  "mTree h s =
     (case h (ms_fs s) of (ok, g) \<Rightarrow>
       (case curTick s of
          Run \<Rightarrow> (Some ok, (nextTick s)\<lparr>ms_fs := g\<rparr>)
        | Fault done \<Rightarrow> (Some False, (nextTick s)\<lparr>ms_fs := mix done (ms_fs s) g\<rparr>)
        | Kill done \<Rightarrow> (None, (nextTick s)\<lparr>ms_fs := mix done (ms_fs s) g\<rparr>)))"

definition RemoveAll :: "string list \<Rightarrow> bool mg" where
  "RemoveAll p = mTree (\<lambda>f. (True, lRemoveAll f p))"

definition osRemoveEntry :: "string list \<Rightarrow> bool mg" where
  "osRemoveEntry p = mCall (\<lambda>f. lRemove f p)"

definition osRename :: "string list \<Rightarrow> string list \<Rightarrow> bool mg" where
  "osRename p q = mCall (\<lambda>f. lRename f p q)"

definition osSymlink :: "string list \<Rightarrow> string list \<Rightarrow> bool mg" where
  "osSymlink target p = mCall (\<lambda>f. lSymlink f target p)"

definition osMkdirAll :: "string list \<Rightarrow> bool mg" where
  "osMkdirAll p = mCall (\<lambda>f. lMkdirAll f p)"

text \<open>The process can also be stopped between calls.\<close>

definition checkpoint :: "unit mg" where
  "checkpoint = mBind (mCall Some) (\<lambda>_. mReturn ())"

section \<open>Jobs and configuration\<close>

definition updateJob :: "string \<Rightarrow> (MigrateStatus \<Rightarrow> MigrateStatus) \<Rightarrow> unit mg" where
  "updateJob jobID h = mModify (\<lambda>s. s\<lparr>ms_jobs := (case ms_jobs s jobID of None \<Rightarrow> ms_jobs s | Some st \<Rightarrow> (ms_jobs s)(jobID \<mapsto> h st))\<rparr>)"

definition updateProgress :: "string \<Rightarrow> int \<Rightarrow> int \<Rightarrow> int \<Rightarrow> unit mg" where
  "updateProgress jobID pct processed sz =
     updateJob jobID (\<lambda>st. st\<lparr>st_Progress := pct, st_ProcessedSize := processed, st_TotalSize := sz\<rparr>)"

definition setPhase :: "string \<Rightarrow> string \<Rightarrow> unit mg" where
  "setPhase jobID phase = updateJob jobID (\<lambda>st. st\<lparr>st_Phase := phase\<rparr>)"

definition setStoppingApps :: "string \<Rightarrow> int \<Rightarrow> unit mg" where
  "setStoppingApps jobID count = updateJob jobID (\<lambda>st. st\<lparr>st_StoppingApps := count\<rparr>)"

definition GetMigrationStatus :: "string \<Rightarrow> migState \<Rightarrow> MigrateStatus option" where
  "GetMigrationStatus jobID s = ms_jobs s jobID"

definition SavePathConfig :: "PathConfig \<Rightarrow> unit mg" where
  "SavePathConfig cfg =
     mBind (mCall Some) (\<lambda>ok. mModify (\<lambda>s. if ok then s\<lparr>ms_config := Some cfg\<rparr> else s))"

definition viewOf :: "lfs \<Rightarrow> fsView" where
  "viewOf f =
     \<lparr>fv_stat = (\<lambda>p. statOk f (segs p)), fv_isDir = (\<lambda>p. isDirL f (segs p)),
      fv_eval = (\<lambda>p. case EvalSymlinks f (segs p) of Inl _ \<Rightarrow> None | Inr r \<Rightarrow> Some (path_of r))\<rparr>"

definition activePaths :: "PathConfig mg" where
  "activePaths =
     mBind (mGet (\<lambda>s. ResolveActivePaths (viewOf (ms_fs s)) (ms_config s))) (\<lambda>r.
     mBind (case snd r of None \<Rightarrow> mReturn () | Some c \<Rightarrow> SavePathConfig c) (\<lambda>_. mReturn (fst r)))"

text \<open>The lines of \<^verbatim>\<open>photos.conf\<close>.\<close>

fun confLines :: "string list \<Rightarrow> string option" where
  "confLines [] = None"
| "confLines (l # ls) =
     (let line = TrimSpace l in
      if HasPrefix line ''#'' \<or> HasPrefix line '';'' then confLines ls
      else case IndexByte line (CHR ''='') of
             None \<Rightarrow> confLines ls
           | Some i \<Rightarrow> if ToLower (TrimSpace (take i line)) = ''datapath'' then Some (TrimSpace (drop (Suc i) line)) else confLines ls)"

definition photosConfDataPath :: "string option \<Rightarrow> string option" where
  "photosConfDataPath data = (case data of None \<Rightarrow> None | Some t \<Rightarrow> confLines (Split (CHR 0x0A) t))"

section \<open>Plan\<close>

datatype migErr = UnknownType | CustomPhotosPath | TargetDirFailed | BrokenAnchor | NoSpace | CopyFailed | SourceMissing | SwapFailed

definition isSystemRestore :: "string \<Rightarrow> bool" where
  "isSystemRestore target = (target = ''/'' \<or> target = ''/DATA'')"

definition mkUnit :: "string \<Rightarrow> string list \<Rightarrow> string list \<Rightarrow> lfs \<Rightarrow> migrateUnit" where
  "mkUnit target anchor names f =
     \<lparr>mu_anchor = anchor,
      mu_src = (case EvalSymlinks f anchor of Inl _ \<Rightarrow> anchor | Inr r \<Rightarrow> r),
      mu_dst = (if isSystemRestore target then anchor else segs (Join (target # names)))\<rparr>"

text \<open>The anchors of a migration type with the names below the target.\<close>

definition anchorsOf :: "string \<Rightarrow> (string list \<times> string list) list" where
  "anchorsOf ty =
     (if ty = MigrateTypeAppData then [([''DATA'', ''AppData''], [''AppData''])]
      else if ty = MigrateTypeImages then map (\<lambda>n. ([''DATA'', ''.system_data'', n], [n])) [''.docker'', ''.containerd'']
      else if ty = MigrateTypeUserData then map (\<lambda>n. ([''DATA'', n], [n])) [''Documents'', ''Downloads'', ''Gallery'', ''Media'']
      else if ty = MigrateTypePhotos then [(segs DefaultPhotosPath, [''.system_data'', ''photos''])]
      else [])"

definition newPathOf :: "string \<Rightarrow> string \<Rightarrow> string" where
  "newPathOf ty target =
     (if ty = MigrateTypeAppData then ''/DATA/AppData''
      else if ty = MigrateTypeImages then ''/DATA/.system_data/.docker''
      else if ty = MigrateTypeUserData then (if isSystemRestore target then ''/DATA'' else target)
      else DefaultPhotosPath)"

definition unitsOf :: "string \<Rightarrow> string \<Rightarrow> lfs \<Rightarrow> migrateUnit list" where
  "unitsOf ty target f = map (\<lambda>(a, ns). mkUnit target a ns f) (anchorsOf ty)"

text \<open>For photos the directory above the destination is created first.\<close>

definition planUnits :: "migEnv \<Rightarrow> string \<Rightarrow> string \<Rightarrow> (migErr, migrateUnit list) result mg" where
  "planUnits E ty target =
     (if ty \<notin> {MigrateTypeAppData, MigrateTypeImages, MigrateTypeUserData, MigrateTypePhotos} then mReturn (Inl UnknownType)
      else mBind (mGet (\<lambda>s. unitsOf ty target (ms_fs s))) (\<lambda>units.
        if ty = MigrateTypePhotos \<and> photosConfDataPath (mv_photosConf E) \<notin> {None, Some [], Some DefaultPhotosPath}
        then mReturn (Inl CustomPhotosPath)
        else if ty = MigrateTypePhotos \<and> \<not> isSystemRestore target
        then mBind (osMkdirAll (segs (Join [target, ''.system_data'']))) (\<lambda>ok.
             mReturn (if ok then Inr units else Inl TargetDirFailed))
        else mReturn (Inr units)))"

definition brokenAnchor :: "migrateUnit list \<Rightarrow> lfs \<Rightarrow> bool" where
  "brokenAnchor units f = list_ex (\<lambda>u. mu_src u = mu_anchor u \<and> isLink (lLstat f (mu_anchor u))) units"

text \<open>Nothing to copy: the destination is the source or inside it.\<close>

definition skipUnit :: "migrateUnit \<Rightarrow> bool" where
  "skipUnit u = (mu_src u = mu_dst u \<or> strict_prefix (mu_src u) (mu_dst u))"

definition sfx :: "string list \<Rightarrow> string \<Rightarrow> string list" where
  "sfx p x = (if p = [] then [x] else butlast p @ [last p @ x])"

abbreviation staging :: "migrateUnit \<Rightarrow> string list" where "staging u \<equiv> sfx (mu_dst u) ''.migrating''"
abbreviation dstOld :: "migrateUnit \<Rightarrow> string list" where "dstOld u \<equiv> sfx (mu_dst u) ''.old''"
abbreviation backupAnchor :: "migrateUnit \<Rightarrow> string list" where "backupAnchor u \<equiv> sfx (mu_anchor u) ''.bak''"

fun climb :: "lfs \<Rightarrow> string list \<Rightarrow> string list" where
  "climb f [] = []"
| "climb f (w # rest) =
     (let p = rev (w # rest) in
      if lLstat f p \<noteq> None \<and> \<not> isLink (lLstat f p) then p else climb f rest)"

definition probeDirForStatfs :: "lfs \<Rightarrow> string list \<Rightarrow> string list" where
  "probeDirForStatfs f p = climb f (rev p)"

definition checkTargetFreeSpace :: "migEnv \<Rightarrow> string list \<Rightarrow> int \<Rightarrow> lfs \<Rightarrow> bool" where
  "checkTargetFreeSpace E probe need f =
     (if need \<le> 0 then True
      else case mv_statfs E (probeDirForStatfs f probe) f of
             None \<Rightarrow> False
           | Some free \<Rightarrow> need + need div 20 + 2 ^ 30 \<le> free)"

section \<open>Copying\<close>

text \<open>The first registered clean-up of a path is replaced.\<close>

fun replaceCleanup :: "string list \<Rightarrow> migrationCleanup \<Rightarrow> migrationCleanup list \<Rightarrow> migrationCleanup list" where
  "replaceCleanup p c [] = []"
| "replaceCleanup p c (x # xs) = (if mc_path x = p then c # xs else x # replaceCleanup p c xs)"

definition promoteCleanup :: "string list \<Rightarrow> migrationCleanup \<Rightarrow> unit mg" where
  "promoteCleanup p c = mBind checkpoint (\<lambda>_. mModify (\<lambda>s. s\<lparr>ms_cleanups := replaceCleanup p c (ms_cleanups s)\<rparr>))"

definition restartStoppedServices :: "string \<Rightarrow> unit mg" where
  "restartStoppedServices ty = mModify (\<lambda>s.
     if ty \<in> {MigrateTypeImages, MigrateTypeAppData, MigrateTypeUserData, MigrateTypePhotos}
     then (if ty = MigrateTypePhotos then s\<lparr>ms_docker := True, ms_photos := True\<rparr> else s\<lparr>ms_docker := True\<rparr>)
     else s)"

definition rollbackCopy :: "bool \<Rightarrow> migrateUnit \<Rightarrow> unit mg" where
  "rollbackCopy restore u =
     mBind (RemoveAll (mu_dst u)) (\<lambda>ok.
     if \<not> ok then mReturn ()
     else mBind (mGet (\<lambda>s. \<not> restore \<and> statOk (ms_fs s) (dstOld u))) (\<lambda>old.
          mBind (if old then osRename (dstOld u) (mu_dst u) else mReturn True) (\<lambda>_.
          mBind (if restore \<and> mu_dst u = mu_anchor u then osSymlink (mu_src u) (mu_anchor u) else mReturn True) (\<lambda>_. mReturn ()))))"

text \<open>\<^verbatim>\<open>rollbackCopies\<close> runs over the processed units, last one first.\<close>

fun rollbackCopies :: "bool \<Rightarrow> migrateUnit list \<Rightarrow> unit mg" where
  "rollbackCopies restore [] = mReturn ()"
| "rollbackCopies restore (u # us) = mBind (rollbackCopy restore u) (\<lambda>_. rollbackCopies restore us)"

definition failCopy :: "string \<Rightarrow> bool \<Rightarrow> migrateUnit list \<Rightarrow> (migErr, 'a) result mg" where
  "failCopy ty restore processed =
     mBind (rollbackCopies restore (rev processed)) (\<lambda>_.
     mBind (restartStoppedServices ty) (\<lambda>_. mReturn (Inl CopyFailed)))"

text \<open>Copy into the staging directory; \<open>False\<close> after cleaning up a failed copy.\<close>

definition stageUnit :: "migEnv \<Rightarrow> string \<Rightarrow> migrateUnit \<Rightarrow> bool mg" where
  "stageUnit E ty u =
     mBind (RemoveAll (staging u)) (\<lambda>_.
     mBind (osMkdirAll (staging u)) (\<lambda>ok.
     if \<not> ok then mReturn False
     else mBind (mTree (mv_rsync E ty (mu_src u) (staging u))) (\<lambda>ok2.
          if ok2 then mReturn True else mBind (RemoveAll (staging u)) (\<lambda>_. mReturn False))))"

text \<open>Promotion of a restored unit: the link at the anchor gives way to the data.\<close>

definition promoteRestore :: "migrateUnit \<Rightarrow> bool mg" where
  "promoteRestore u =
     mBind (osRemoveEntry (mu_anchor u)) (\<lambda>ok.
     if \<not> ok then mBind (RemoveAll (staging u)) (\<lambda>_. mReturn False)
     else mBind (osRename (staging u) (mu_anchor u)) (\<lambda>ok2.
          if ok2 then mBind (promoteCleanup (staging u) \<lparr>mc_path = mu_anchor u, mc_restore = Some (mu_anchor u, mu_src u)\<rparr>) (\<lambda>_. mReturn True)
          else mBind (osSymlink (mu_src u) (mu_anchor u)) (\<lambda>_.
               mBind (RemoveAll (staging u)) (\<lambda>_. mReturn False))))"

text \<open>Promotion to an external disk: an existing destination is moved aside.\<close>

definition promoteExternal :: "migrateUnit \<Rightarrow> bool mg" where
  "promoteExternal u =
     mBind (RemoveAll (dstOld u)) (\<lambda>_.
     mBind (mGet (\<lambda>s. statOk (ms_fs s) (mu_dst u))) (\<lambda>ex.
     mBind (if ex then osRename (mu_dst u) (dstOld u) else mReturn True) (\<lambda>aside.
     if \<not> aside then mBind (RemoveAll (staging u)) (\<lambda>_. mReturn False)
     else mBind (osRename (staging u) (mu_dst u)) (\<lambda>ok.
          if ok then mBind (promoteCleanup (staging u) \<lparr>mc_path = mu_dst u, mc_restore = None\<rparr>) (\<lambda>_. mReturn True)
          else mBind (osRename (dstOld u) (mu_dst u)) (\<lambda>_.
               mBind (RemoveAll (staging u)) (\<lambda>_. mReturn False))))))"

definition copyUnit :: "migEnv \<Rightarrow> string \<Rightarrow> bool \<Rightarrow> migrateUnit \<Rightarrow> bool mg" where
  "copyUnit E ty restore u =
     mBind (stageUnit E ty u) (\<lambda>ok.
     if \<not> ok then mReturn False
     else if restore \<and> mu_dst u = mu_anchor u then promoteRestore u else promoteExternal u)"

definition inPlace :: "migrateUnit \<Rightarrow> lfs \<Rightarrow> bool" where
  "inPlace u f = (EvalSymlinks f (mu_anchor u) = Inr (mu_dst u))"

text \<open>The loop over the units; the result is the list of processed units.\<close>

fun copyLoop :: "migEnv \<Rightarrow> string \<Rightarrow> bool \<Rightarrow> migrateUnit list \<Rightarrow> migrateUnit list \<Rightarrow> (migErr, migrateUnit list) result mg" where
  "copyLoop E ty restore processed [] = mReturn (Inr processed)"
| "copyLoop E ty restore processed (u # us) =
     (if skipUnit u then copyLoop E ty restore processed us
      else mBind (mGet ms_fs) (\<lambda>f.
        if inPlace u f then copyLoop E ty restore processed us
        else if lStat f (mu_src u) = Inl NoEnt then
          (if restore
           then mBind (if ty \<in> {MigrateTypeImages, MigrateTypePhotos} then restartStoppedServices ty else mReturn ()) (\<lambda>_.
                mReturn (Inl SourceMissing))
           else copyLoop E ty restore processed us)
        else mBind (copyUnit E ty restore u) (\<lambda>ok.
             if ok then copyLoop E ty restore (processed @ [u]) us else failCopy ty restore processed)))"

section \<open>Anchors\<close>

definition needsAnchorWork :: "migrateUnit \<Rightarrow> lfs \<Rightarrow> bool" where
  "needsAnchorWork u f = (\<not> skipUnit u \<and> \<not> inPlace u f)"

fun rollbackSwaps :: "migrateUnit list \<Rightarrow> unit mg" where
  "rollbackSwaps [] = mReturn ()"
| "rollbackSwaps (u # us) =
     mBind (osRemoveEntry (mu_anchor u)) (\<lambda>_. mBind (osRename (backupAnchor u) (mu_anchor u)) (\<lambda>_. rollbackSwaps us))"

definition failSwap :: "string \<Rightarrow> migrateUnit list \<Rightarrow> migrateUnit list \<Rightarrow> (migErr, 'a) result mg" where
  "failSwap ty processed swapped =
     mBind (rollbackSwaps (rev swapped)) (\<lambda>_.
     mBind (rollbackCopies False (rev processed)) (\<lambda>_.
     mBind (restartStoppedServices ty) (\<lambda>_. mReturn (Inl SwapFailed))))"

fun swapLoop :: "string \<Rightarrow> migrateUnit list \<Rightarrow> migrateUnit list \<Rightarrow> migrateUnit list \<Rightarrow> (migErr, migrateUnit list) result mg" where
  "swapLoop ty processed swapped [] = mReturn (Inr swapped)"
| "swapLoop ty processed swapped (u # us) =
     mBind (mGet (\<lambda>s. needsAnchorWork u (ms_fs s))) (\<lambda>work.
     if \<not> work then swapLoop ty processed swapped us
     else mBind (RemoveAll (backupAnchor u)) (\<lambda>_.
          mBind (osRename (mu_anchor u) (backupAnchor u)) (\<lambda>ok.
          if \<not> ok then failSwap ty processed swapped
          else mBind (osSymlink (mu_dst u) (mu_anchor u)) (\<lambda>ok2.
               if ok2 then swapLoop ty processed (swapped @ [u]) us
               else mBind (osRename (backupAnchor u) (mu_anchor u)) (\<lambda>_. failSwap ty processed swapped)))))"

fun deleteOld :: "migrateUnit list \<Rightarrow> unit mg" where
  "deleteOld [] = mReturn ()"
| "deleteOld (u # us) =
     mBind (mGet (\<lambda>s. isLink (lLstat (ms_fs s) (backupAnchor u)))) (\<lambda>wasSymlink.
     mBind (if wasSymlink then RemoveAll (mu_src u) else mReturn True) (\<lambda>_.
     mBind (RemoveAll (backupAnchor u)) (\<lambda>_.
     mBind (RemoveAll (dstOld u)) (\<lambda>_. deleteOld us))))"

fun deleteSources :: "migrateUnit list \<Rightarrow> unit mg" where
  "deleteSources [] = mReturn ()"
| "deleteSources (u # us) =
     mBind (if mu_src u \<noteq> mu_anchor u then RemoveAll (mu_src u) else mReturn True) (\<lambda>_. deleteSources us)"

definition clearCleanups :: "unit mg" where
  "clearCleanups = mModify (\<lambda>s. s\<lparr>ms_cleanups := []\<rparr>)"

definition anchorPhase :: "string \<Rightarrow> bool \<Rightarrow> migrateUnit list \<Rightarrow> migrateUnit list \<Rightarrow> (migErr, unit) result mg" where
  "anchorPhase ty restore units processed =
     mBind clearCleanups (\<lambda>_.
     if restore then mBind (deleteSources units) (\<lambda>_. mReturn (Inr ()))
     else mBind (swapLoop ty processed [] units) (\<lambda>r.
          case r of
            Inl e \<Rightarrow> mReturn (Inl e)
          | Inr swapped \<Rightarrow> mBind (deleteOld swapped) (\<lambda>_. mReturn (Inr ()))))"

section \<open>The whole migration\<close>

definition stopServices :: "migEnv \<Rightarrow> string \<Rightarrow> string \<Rightarrow> string list mg" where
  "stopServices E jobID ty =
     mBind (setPhase jobID ''stopping_services'') (\<lambda>_.
     (let ids = (case mv_containers E of None \<Rightarrow> [] | Some c \<Rightarrow> c) in
      mBind (if ids \<noteq> [] then setStoppingApps jobID (int (length ids)) else mReturn ()) (\<lambda>_.
      mBind (mModify (\<lambda>s. if ty = MigrateTypePhotos then s\<lparr>ms_photos := False, ms_docker := False\<rparr> else s\<lparr>ms_docker := False\<rparr>)) (\<lambda>_.
      mBind (setStoppingApps jobID 0) (\<lambda>_. mReturn ids)))))"

definition movingUnits :: "migrateUnit list \<Rightarrow> migrateUnit list" where
  "movingUnits units = filter (\<lambda>u. \<not> skipUnit u) units"

definition totalSize :: "migrateUnit list \<Rightarrow> lfs \<Rightarrow> int" where
  "totalSize units f = sum_list (map (\<lambda>u. linkedSize f (mu_src u)) (movingUnits units))"

definition spaceOk :: "migEnv \<Rightarrow> migrateUnit list \<Rightarrow> lfs \<Rightarrow> bool" where
  "spaceOk E units f =
     (case movingUnits units of [] \<Rightarrow> True | u # _ \<Rightarrow> checkTargetFreeSpace E (mu_dst u) (totalSize units f) f)"

text \<open>A link of an old migration under \<^verbatim>\<open>/var/lib\<close> becomes a directory again.\<close>

definition dropLegacyLink :: "string \<Rightarrow> unit mg" where
  "dropLegacyLink name =
     (let p = [''var'', ''lib'', name] in
      mBind (mGet (\<lambda>s. isLink (lLstat (ms_fs s) p))) (\<lambda>link.
      if link then mBind (osRemoveEntry p) (\<lambda>_. mBind (osMkdirAll p) (\<lambda>_. mReturn ())) else mReturn ()))"

text \<open>The data root in \<^verbatim>\<open>daemon.json\<close> and the root in \<^verbatim>\<open>config.toml\<close>; the rest of these files stays as it is.\<close>

definition updateDockerConfig :: "string list \<Rightarrow> unit mg" where
  "updateDockerConfig dataRoot = mBind (mCall Some) (\<lambda>ok. mModify (\<lambda>s. if ok then s\<lparr>ms_dockerRoot := Some dataRoot\<rparr> else s))"

definition updateContainerdConfig :: "string list \<Rightarrow> unit mg" where
  "updateContainerdConfig rootPath = mBind (mCall Some) (\<lambda>ok. mModify (\<lambda>s. if ok then s\<lparr>ms_containerdRoot := Some rootPath\<rparr> else s))"

definition imageRoot :: "string \<Rightarrow> bool \<Rightarrow> migrateUnit list \<Rightarrow> string list" where
  "imageRoot name restore units =
     (if restore then [''DATA'', ''.system_data'', name]
      else fold (\<lambda>u d. if mu_anchor u \<noteq> [] \<and> last (mu_anchor u) = name then mu_dst u else d) units [''DATA'', ''.system_data'', name])"

definition startContainersAfterMigration :: "string list \<Rightarrow> unit mg" where
  "startContainersAfterMigration ids = mModify (\<lambda>s. if ids = [] then s else s\<lparr>ms_started := ids\<rparr>)"

definition finalize :: "string \<Rightarrow> string \<Rightarrow> bool \<Rightarrow> migrateUnit list \<Rightarrow> PathConfig \<Rightarrow> string list \<Rightarrow> unit mg" where
  "finalize ty newPath restore units cfg ids =
     (let cfg1 = (if ty = MigrateTypeAppData then cfg\<lparr>pc_AppData := newPath\<rparr>
                  else if ty = MigrateTypeImages then cfg\<lparr>pc_Images := newPath\<rparr>
                  else if ty = MigrateTypeUserData then cfg\<lparr>pc_UserData := newPath\<rparr>
                  else cfg\<lparr>pc_Photos := newPath\<rparr>) in
      mBind (if ty = MigrateTypeImages
             then mBind (dropLegacyLink ''docker'') (\<lambda>_. mBind (dropLegacyLink ''containerd'') (\<lambda>_.
                  mBind (updateDockerConfig (imageRoot ''.docker'' restore units)) (\<lambda>_.
                  updateContainerdConfig (imageRoot ''.containerd'' restore units))))
             else mReturn ()) (\<lambda>_.
      mBind (mModify (\<lambda>s. s\<lparr>ms_docker := True\<rparr>)) (\<lambda>_.
      mBind (startContainersAfterMigration ids) (\<lambda>_.
      mBind (mModify (\<lambda>s. if ty = MigrateTypePhotos then s\<lparr>ms_photos := True\<rparr> else s)) (\<lambda>_.
      SavePathConfig cfg1)))))"

definition migrateBody :: "migEnv \<Rightarrow> string \<Rightarrow> string \<Rightarrow> string \<Rightarrow> PathConfig \<Rightarrow> migrateUnit list \<Rightarrow> (migErr, string) result mg" where
  "migrateBody E jobID ty target cfg units =
     (let restore = isSystemRestore target; newPath = newPathOf ty target in
      mBind (stopServices E jobID ty) (\<lambda>ids.
      mBind (mGet (\<lambda>s. spaceOk E units (ms_fs s))) (\<lambda>fits.
      if \<not> fits then mBind (restartStoppedServices ty) (\<lambda>_. mReturn (Inl NoSpace))
      else mBind (mGet (\<lambda>s. totalSize units (ms_fs s))) (\<lambda>sz.
           mBind (setPhase jobID ''copying'') (\<lambda>_.
           mBind (updateProgress jobID 1 0 sz) (\<lambda>_.
           mBind (copyLoop E ty restore [] units) (\<lambda>r.
           case r of
             Inl e \<Rightarrow> mReturn (Inl e)
           | Inr processed \<Rightarrow>
               mBind (setPhase jobID ''starting_services'') (\<lambda>_.
               mBind (updateProgress jobID 95 sz sz) (\<lambda>_.
               mBind (anchorPhase ty restore units processed) (\<lambda>r2.
               case r2 of
                 Inl e \<Rightarrow> mReturn (Inl e)
               | Inr _ \<Rightarrow> mBind (finalize ty newPath restore units cfg ids) (\<lambda>_. mReturn (Inr newPath))))))))))))"

definition executeMigration :: "migEnv \<Rightarrow> string \<Rightarrow> string \<Rightarrow> string \<Rightarrow> (migErr, string) result mg" where
  "executeMigration E jobID ty target =
     mBind activePaths (\<lambda>cfg.
     mBind (planUnits E ty target) (\<lambda>r.
     case r of
       Inl e \<Rightarrow> mReturn (Inl e)
     | Inr units \<Rightarrow>
         mBind (mGet (\<lambda>s. isSystemRestore target \<and> brokenAnchor units (ms_fs s))) (\<lambda>broken.
         if broken then mReturn (Inl BrokenAnchor)
         else mBind (mModify (\<lambda>s. s\<lparr>ms_lockFile := True,
                ms_cleanups := map (\<lambda>u. \<lparr>mc_path = staging u, mc_restore = None\<rparr>) (movingUnits units)\<rparr>)) (\<lambda>_.
              mBind (migrateBody E jobID ty target cfg units) (\<lambda>res.
              mBind (mModify (\<lambda>s. s\<lparr>ms_lockFile := False, ms_cleanups := []\<rparr>)) (\<lambda>_. mReturn res))))))"

text \<open>The handler of the stop signal.\<close>

fun cleanupLoop :: "migrationCleanup list \<Rightarrow> unit mg" where
  "cleanupLoop [] = mReturn ()"
| "cleanupLoop (c # cs) =
     mBind (RemoveAll (mc_path c)) (\<lambda>_.
     mBind (case mc_restore c of None \<Rightarrow> mReturn True | Some (anchor, src) \<Rightarrow> osSymlink src anchor) (\<lambda>_. cleanupLoop cs))"

definition CleanupActiveMigration :: "unit mg" where
  "CleanupActiveMigration = mBind (mGet ms_cleanups) cleanupLoop"

definition StartMigration :: "migEnv \<Rightarrow> string \<Rightarrow> string \<Rightarrow> string \<Rightarrow> migState \<Rightarrow> migState" where
  "StartMigration E jobID ty target s0 =
     (let st = \<lparr>st_ID = jobID, st_Type = ty, st_Status = ''running'', st_Phase = [], st_StoppingApps = 0, st_Progress = 0,
                st_ProcessedSize = 0, st_TotalSize = 0, st_NewPath = [], st_Failed = False\<rparr> in
      case executeMigration E jobID ty target (s0\<lparr>ms_jobs := (ms_jobs s0)(jobID \<mapsto> st)\<rparr>) of
        (None, s1) \<Rightarrow> snd (CleanupActiveMigration s1)
      | (Some (Inl _), s1) \<Rightarrow> snd (updateJob jobID (\<lambda>st. st\<lparr>st_Status := ''error'', st_Failed := True\<rparr>) s1)
      | (Some (Inr newPath), s1) \<Rightarrow>
          snd (updateJob jobID (\<lambda>st. st\<lparr>st_Status := ''done'', st_Progress := 100, st_NewPath := newPath\<rparr>) s1))"

end
