(* ===== verification/MigrateSafe.thy ===== *)
theory MigrateSafe
  imports Migrate
begin

text \<open>
  The copy phase of a migration: what each call may write, the places of the units, and that copying writes only beside the
  destinations and leaves every processed unit completely at its destination.
\<close>

section \<open>What calls write\<close>

definition agree :: "string list set \<Rightarrow> lfs \<Rightarrow> lfs \<Rightarrow> bool" where
  "agree W f g = (\<forall>r. (\<forall>p \<in> W. \<not> prefix p r) \<longrightarrow> lGet g r = lGet f r)"

definition sameAt :: "lfs \<Rightarrow> string list \<Rightarrow> lfs \<Rightarrow> string list \<Rightarrow> bool" where
  "sameAt f p g q = (\<forall>r. lGet g (q @ r) = lGet f (p @ r))"

lemma agree_refl: "agree W f f"
  by (simp add: agree_def)

lemma agree_trans: "agree W f g \<Longrightarrow> agree W g h \<Longrightarrow> agree W f h"
  by (simp add: agree_def)

lemma agree_mono: "agree W f g \<Longrightarrow> W \<subseteq> W' \<Longrightarrow> agree W' f g"
  by (auto simp: agree_def)

lemma agree_mix: "agree W f g \<Longrightarrow> agree W f (mix D f g)"
  by (simp add: agree_def)

lemma agree_sameAt: "agree W f g \<Longrightarrow> (\<And>q. q \<in> W \<Longrightarrow> disjoint p q) \<Longrightarrow> sameAt f p g p"
  by (auto simp: agree_def sameAt_def disjoint_not_prefix)

lemma sameAt_trans: "sameAt f p g q \<Longrightarrow> sameAt g q h r \<Longrightarrow> sameAt f p h r"
  by (simp add: sameAt_def)

lemma sameAt_refl: "sameAt f p f p"
  by (simp add: sameAt_def)

lemma sameAt_get: "sameAt f p g q \<Longrightarrow> lGet g q = lGet f p"
  unfolding sameAt_def by (metis append_Nil2)

text \<open>The places of a migration: pairwise equal or disjoint, so no place lies above another.\<close>

definition apart :: "string list set \<Rightarrow> bool" where
  "apart R = (\<forall>p \<in> R. \<forall>q \<in> R. p = q \<or> disjoint p q)"

lemma phys_agree:
  assumes "apart R" "W \<subseteq> R" "agree W f g" "p \<in> R" "phys f p"
  shows "phys g p"
proof -
  have "lGet g q = lGet f q" if "strict_prefix q p" for q
  proof -
    have "\<not> prefix w q" if "w \<in> W" for w
    proof
      assume "prefix w q"
      then have "strict_prefix w p" using \<open>strict_prefix q p\<close> by (rule prefix_order.le_less_trans)
      moreover have "w = p \<or> disjoint w p" using assms(1,2,4) that by (auto simp: apart_def)
      ultimately show False by (auto simp: disjoint_def strict_prefix_def)
    qed
    then show ?thesis using assms(3) by (simp add: agree_def)
  qed
  then show ?thesis using assms(5) by (simp add: phys_def)
qed

lemma agree_RemoveAll: "phys f p \<Longrightarrow> agree {p} f (lRemoveAll f p)"
  by (simp add: agree_def lGet_RemoveAll)

lemma agree_Remove: "phys f p \<Longrightarrow> lRemove f p = Some g \<Longrightarrow> agree {p} f g"
  using lGet_Remove[of f p g] by (auto simp: agree_def)

lemma agree_Rename: "phys f p \<Longrightarrow> phys f q \<Longrightarrow> disjoint p q \<Longrightarrow> lRename f p q = Some g \<Longrightarrow> agree {p, q} f g"
  by (simp add: agree_def lGet_Rename(1))

lemma agree_Symlink: "phys f p \<Longrightarrow> lSymlink f t p = Some g \<Longrightarrow> agree {p} f g"
  using lGet_Symlink(1)[of f p t g] by (auto simp: agree_def)

lemma lStat_parent: "phys f p \<Longrightarrow> lStat f (butlast p) = Inr LDir"
  using walk_dirs[of "butlast p" f "[]" 40] phys_butlast[of f p] by (simp add: lStat_def)

lemma MkdirAll_phys:
  assumes "phys f p" "lMkdirAll f p = Some g"
  shows "lStat f p = Inr LDir \<and> g = f \<or> lGet f p = None \<and> g = (p, LDir) # f"
proof -
  have p: "p \<noteq> []" using assms(1) by (simp add: phys_def)
  have b: "lMkdirAll f (butlast p) = Some f" using lStat_parent[OF assms(1)] by (simp add: lMkdirAll.simps)
  show ?thesis using assms(2) p
    by (subst (asm) lMkdirAll.simps) (auto simp: b lWhere_phys[OF assms(1)] split: sum.splits lnode.splits if_splits)
qed

lemma agree_MkdirAll: "phys f p \<Longrightarrow> lMkdirAll f p = Some g \<Longrightarrow> agree {p} f g"
  using MkdirAll_phys[of f p g] by (auto simp: agree_def lGet_def phys_def)

section \<open>Relations that a migration respects\<close>

locale mg_relation =
  fixes rel :: "migState \<Rightarrow> migState \<Rightarrow> bool"
  assumes rel_refl: "rel s s" and rel_trans: "rel s t \<Longrightarrow> rel t v \<Longrightarrow> rel s v"
begin

definition keeps :: "'a mg \<Rightarrow> bool" where
  "keeps m = (\<forall>s. rel s (snd (m s)))"

lemma keeps_bind: "keeps m \<Longrightarrow> (\<And>x. keeps (k x)) \<Longrightarrow> keeps (mBind m k)"
  unfolding keeps_def mBind_def using rel_trans by (auto split: prod.splits option.splits) (metis snd_conv)+

lemma keeps_return: "keeps (mReturn x)"
  by (simp add: keeps_def mReturn_def rel_refl)

lemma keeps_get: "keeps (mGet h)"
  by (simp add: keeps_def mGet_def rel_refl)

lemma keeps_run: "keeps m \<Longrightarrow> m s = (r, s') \<Longrightarrow> rel s s'"
  unfolding keeps_def by (metis snd_conv)

end

text \<open>
  \<open>R\<close> are the places of the migration, all physical; the registered clean-ups stay within \<open>C\<close>; only entries at or under \<open>W\<close> change.
\<close>

definition good :: "string list set \<Rightarrow> string list set \<Rightarrow> migState \<Rightarrow> bool" where
  "good R C s = (apart R \<and> C \<subseteq> R \<and> (\<forall>p \<in> R. phys (ms_fs s) p)
     \<and> (\<forall>c \<in> set (ms_cleanups s). mc_path c \<in> C \<and> (\<forall>a b. mc_restore c = Some (a, b) \<longrightarrow> a \<in> C)))"

definition within :: "string list set \<Rightarrow> string list set \<Rightarrow> string list set \<Rightarrow> migState \<Rightarrow> migState \<Rightarrow> bool" where
  "within R C W s t = (good R C s \<longrightarrow> good R C t \<and> agree W (ms_fs s) (ms_fs t))"

interpretation wi: mg_relation "within R C W" for R C W
  by unfold_locales (auto simp: within_def agree_refl intro: agree_trans)

lemma good_disjoint: "good R C s \<Longrightarrow> p \<in> R \<Longrightarrow> q \<in> R \<Longrightarrow> p \<noteq> q \<Longrightarrow> disjoint p q"
  by (auto simp: good_def apart_def)

lemma good_agree:
  assumes "good R C s" "agree W (ms_fs s) g" "W \<subseteq> R"
  shows "good R C ((nextTick s)\<lparr>ms_fs := g\<rparr>)" "good R C (nextTick s)"
  using assms phys_agree[of R W "ms_fs s" g] by (auto simp: good_def nextTick_def)

lemma within_call:
  assumes "W \<subseteq> R" "\<And>f g. (\<forall>p \<in> R. phys f p) \<Longrightarrow> apart R \<Longrightarrow> h f = Some g \<Longrightarrow> agree W f g"
  shows "wi.keeps R C W (mCall h)"
proof -
  have "within R C W s (snd (mCall h s))" for s
  proof (cases "curTick s")
    case Run
    show ?thesis
    proof (cases "h (ms_fs s)")
      case (Some g)
      then have "good R C s \<Longrightarrow> agree W (ms_fs s) g" using assms(2) by (auto simp: good_def)
      then show ?thesis using Run Some good_agree[OF _ _ assms(1)] by (auto simp: within_def mCall_def)
    qed (use Run in \<open>auto simp: within_def mCall_def nextTick_def good_def agree_refl\<close>)
  qed (auto simp: within_def mCall_def nextTick_def good_def agree_refl)
  then show ?thesis by (simp add: wi.keeps_def)
qed

lemma within_tree:
  assumes "W \<subseteq> R" "\<And>f. (\<forall>p \<in> R. phys f p) \<Longrightarrow> apart R \<Longrightarrow> agree W f (snd (h f))"
  shows "wi.keeps R C W (mTree h)"
proof -
  have "within R C W s (snd (mTree h s))" for s
  proof (cases "h (ms_fs s)")
    case (Pair ok g)
    then have "good R C s \<Longrightarrow> agree W (ms_fs s) g" using assms(2)[of "ms_fs s"] by (auto simp: good_def)
    then show ?thesis using good_agree[OF _ _ assms(1)] agree_mix
      by (cases "curTick s") (auto simp: within_def mTree_def Pair)
  qed
  then show ?thesis by (simp add: wi.keeps_def)
qed

lemma within_modify: "(\<And>s. ms_fs (h s) = ms_fs s \<and> (good R C s \<longrightarrow> good R C (h s))) \<Longrightarrow> wi.keeps R C W (mModify h)"
  by (auto simp: wi.keeps_def within_def mModify_def agree_refl)

lemma within_RemoveAll: "p \<in> W \<Longrightarrow> W \<subseteq> R \<Longrightarrow> wi.keeps R C W (RemoveAll p)"
  unfolding RemoveAll_def by (rule within_tree) (auto intro!: agree_mono[OF agree_RemoveAll])

lemma within_Remove: "p \<in> W \<Longrightarrow> W \<subseteq> R \<Longrightarrow> wi.keeps R C W (osRemoveEntry p)"
  unfolding osRemoveEntry_def by (rule within_call) (auto intro!: agree_mono[OF agree_Remove])

lemma within_Rename: "{p, q} \<subseteq> W \<Longrightarrow> p \<noteq> q \<Longrightarrow> W \<subseteq> R \<Longrightarrow> wi.keeps R C W (osRename p q)"
  unfolding osRename_def by (rule within_call) (auto simp: apart_def intro!: agree_mono[OF agree_Rename, of _ p q])

lemma within_Symlink: "p \<in> W \<Longrightarrow> W \<subseteq> R \<Longrightarrow> wi.keeps R C W (osSymlink t p)"
  unfolding osSymlink_def by (rule within_call) (auto intro!: agree_mono[OF agree_Symlink])

lemma within_MkdirAll: "p \<in> W \<Longrightarrow> W \<subseteq> R \<Longrightarrow> wi.keeps R C W (osMkdirAll p)"
  unfolding osMkdirAll_def by (rule within_call) (auto intro!: agree_mono[OF agree_MkdirAll])

lemma within_checkpoint: "W \<subseteq> R \<Longrightarrow> wi.keeps R C W checkpoint"
  unfolding checkpoint_def by (intro wi.keeps_bind wi.keeps_return within_call) (auto simp: agree_refl)

lemma within_updateJob: "wi.keeps R C W (updateJob j h)"
  unfolding updateJob_def by (rule within_modify) (simp add: good_def)

lemma within_restart: "wi.keeps R C W (restartStoppedServices ty)"
  unfolding restartStoppedServices_def by (rule within_modify) (simp add: good_def)

lemma within_save: "W \<subseteq> R \<Longrightarrow> wi.keeps R C W (SavePathConfig cfg)"
  unfolding SavePathConfig_def by (intro wi.keeps_bind within_call within_modify) (auto simp: agree_refl good_def)

lemmas within_calls = wi.keeps_bind wi.keeps_return wi.keeps_get within_RemoveAll within_Remove within_Rename within_Symlink
  within_MkdirAll within_checkpoint within_updateJob within_restart within_save

section \<open>Places of the units\<close>

text \<open>Where a unit is copied to, and all its places.\<close>

definition tgt :: "migrateUnit \<Rightarrow> string list set" where
  "tgt u = {mu_dst u, staging u, dstOld u}"

definition places :: "migrateUnit \<Rightarrow> string list set" where
  "places u = tgt u \<union> {mu_anchor u, backupAnchor u, mu_src u}"

definition copyPlaces :: "migrateUnit list \<Rightarrow> string list set" where
  "copyPlaces units = (\<Union>u \<in> {u \<in> set units. \<not> skipUnit u}. tgt u)"

definition allPlaces :: "migrateUnit list \<Rightarrow> string list set" where
  "allPlaces units = (\<Union>u \<in> set units. places u)"

text \<open>Where old migrations left links.\<close>

definition legacyPlaces :: "string list set" where
  "legacyPlaces = {[''var'', ''lib'', ''docker''], [''var'', ''lib'', ''containerd'']}"

text \<open>
  The units do not get in each other's way: every place is physical, places of different units are disjoint, those of one unit are
  equal or disjoint, the working names are new names, and nothing that looks like a leftover link is at the staging place. Restoring
  means that the destination is the anchor.
\<close>

definition separate :: "bool \<Rightarrow> migrateUnit list \<Rightarrow> bool" where
  "separate restore units =
     (distinct units \<and> apart (allPlaces units \<union> legacyPlaces) \<and> allPlaces units \<inter> legacyPlaces = {}
      \<and> (\<forall>u \<in> set units. \<forall>v \<in> set units. u = v \<or> places u \<inter> places v = {})
      \<and> (\<forall>u \<in> set units. distinct [mu_anchor u, backupAnchor u, staging u, dstOld u]
            \<and> mu_src u \<notin> {backupAnchor u, staging u, dstOld u} \<and> mu_dst u \<notin> {backupAnchor u, staging u, dstOld u}
            \<and> (mu_dst u = mu_anchor u) = restore))"

definition wellPlaced :: "migrateUnit list \<Rightarrow> lfs \<Rightarrow> bool" where
  "wellPlaced units f =
     ((\<forall>p \<in> legacyPlaces. phys f p) \<and> (\<forall>u \<in> set units. (\<forall>p \<in> places u. phys f p) \<and> \<not> isLink (lGet f (staging u))
        \<and> (\<forall>r. EvalSymlinks f (mu_anchor u) = Inr r \<longrightarrow> mu_src u = r \<and> lGet f (mu_anchor u) \<in> {Some LDir, Some (LLink r)})))"

text \<open>A unit with data: its anchor is a directory, or a link to one.\<close>

definition present :: "lfs \<Rightarrow> migrateUnit \<Rightarrow> bool" where
  "present f u = (EvalSymlinks f (mu_anchor u) = Inr (mu_src u))"

lemma places_all: "u \<in> set units \<Longrightarrow> places u \<subseteq> allPlaces units"
  by (auto simp: allPlaces_def)

lemma tgt_places: "tgt u \<subseteq> places u"
  by (auto simp: places_def)

lemma copyPlaces_all: "copyPlaces units \<subseteq> allPlaces units"
  by (auto simp: copyPlaces_def allPlaces_def places_def)

lemma tgt_copyPlaces: "u \<in> set units \<Longrightarrow> \<not> skipUnit u \<Longrightarrow> tgt u \<subseteq> copyPlaces units"
  by (auto simp: copyPlaces_def)

lemma separate_disjoint:
  assumes "separate restore units" "u \<in> set units" "v \<in> set units" "p \<in> places u" "q \<in> places v" "u \<noteq> v \<or> p \<noteq> q"
  shows "disjoint p q"
proof -
  have "p \<noteq> q" using assms by (auto simp: separate_def)
  then show ?thesis using assms by (auto simp: separate_def apart_def allPlaces_def)
qed

lemma in_places [simp]:
  "mu_dst u \<in> places u" "staging u \<in> places u" "dstOld u \<in> places u" "mu_anchor u \<in> places u" "backupAnchor u \<in> places u" "mu_src u \<in> places u"
  "mu_dst u \<in> tgt u" "staging u \<in> tgt u" "dstOld u \<in> tgt u"
  by (simp_all add: places_def tgt_def)

text \<open>Copies never touch a source: the source of a unit that moves is not its destination.\<close>

lemma src_disjoint_tgt:
  assumes "separate restore units" "u \<in> set units" "v \<in> set units" "\<not> skipUnit v" "q \<in> tgt v"
  shows "disjoint (mu_src u) q"
proof (rule separate_disjoint[OF assms(1,2,3)])
  show "u \<noteq> v \<or> mu_src u \<noteq> q"
    using assms by (auto simp: separate_def tgt_def skipUnit_def)
qed (use assms(5) tgt_places in auto)

lemma src_kept_by_copies:
  assumes "separate restore units" "u \<in> set units" "agree (copyPlaces units) f g"
  shows "sameAt f (mu_src u) g (mu_src u)"
  using src_disjoint_tgt[OF assms(1,2)] by (intro agree_sameAt[OF assms(3)]) (auto simp: copyPlaces_def)

section \<open>The copy phase writes only its own places\<close>

definition rsyncOk :: "migEnv \<Rightarrow> (string \<Rightarrow> string list \<Rightarrow> string list \<Rightarrow> bool) \<Rightarrow> bool" where
  "rsyncOk E leaves = (\<forall>ty p q f. lGet f q = Some LDir \<longrightarrow> disjoint p q \<longrightarrow>
     agree {q} f (snd (mv_rsync E ty p q f))
     \<and> (fst (mv_rsync E ty p q f) \<longrightarrow>
          (\<forall>r n. lGet f (p @ r) = Some n \<longrightarrow> \<not> leaves ty p r \<longrightarrow> lGet (snd (mv_rsync E ty p q f)) (q @ r) = Some n)))"

lemma within_promoteCleanup:
  assumes "mc_path c \<in> C" "\<And>a b. mc_restore c = Some (a, b) \<Longrightarrow> a \<in> C" "W \<subseteq> R"
  shows "wi.keeps R C W (promoteCleanup p c)"
proof -
  have "set (replaceCleanup p c cs) \<subseteq> insert c (set cs)" for cs by (induction cs) auto
  then show ?thesis unfolding promoteCleanup_def using assms
    by (intro wi.keeps_bind within_checkpoint within_modify) (fastforce simp: good_def)+
qed

lemma within_rollbackCopy:
  assumes "tgt u \<subseteq> W" "W \<subseteq> R" "dstOld u \<noteq> mu_dst u"
  shows "wi.keeps R C W (rollbackCopy restore u)"
proof -
  have "mu_dst u \<in> W" "dstOld u \<in> W" using assms(1) by (auto simp: tgt_def)
  then show ?thesis unfolding rollbackCopy_def using assms(2,3)
    by (cases "mu_dst u = mu_anchor u") (intro within_calls; auto intro!: within_calls)+
qed

lemma within_rollbackCopies:
  assumes "\<And>u. u \<in> set us \<Longrightarrow> tgt u \<subseteq> W \<and> dstOld u \<noteq> mu_dst u" "W \<subseteq> R"
  shows "wi.keeps R C W (rollbackCopies restore us)"
  using assms(1) by (induction us) (auto intro!: within_calls within_rollbackCopy assms(2))

lemma mBind_runE:
  assumes "mBind m k s = (r, t)"
  obtains (stopped) "m s = (None, t)" "r = None" | (goes) x s1 where "m s = (Some x, s1)" "k x s1 = (r, t)"
  using assms by (auto simp: mBind_def split: prod.splits option.splits)

lemma mBind_now [simp]: "mBind (mModify h) k s = k () (h s)" "mBind (mGet h2) k2 s = k2 (h2 s) s" "mBind (mReturn x) k3 s = k3 x s"
  by (simp_all add: mBind_def mModify_def mGet_def mReturn_def)

lemma mReturn_run: "mReturn x s = (r, t) \<longleftrightarrow> r = Some x \<and> t = s"
  by (auto simp: mReturn_def)

lemma mGet_run: "mGet h s = (r, t) \<longleftrightarrow> r = Some (h s) \<and> t = s"
  by (auto simp: mGet_def)

lemma mCall_True: "mCall h s = (Some True, t) \<Longrightarrow> h (ms_fs s) = Some (ms_fs t)"
  by (auto simp: mCall_def nextTick_def split: tick.splits option.splits)

lemma mCall_not_True: "mCall h s = (r, t) \<Longrightarrow> r \<noteq> Some True \<Longrightarrow> ms_fs t = ms_fs s"
  by (auto simp: mCall_def nextTick_def split: tick.splits option.splits)

lemma RemoveAll_run:
  assumes "good R C s" "p \<in> R" "RemoveAll p s = (r, t)"
  shows "good R C t" "agree {p} (ms_fs s) (ms_fs t)" "lGet (ms_fs t) q = lGet (ms_fs s) q \<or> prefix p q \<and> lGet (ms_fs t) q = None"
    "r = Some True \<Longrightarrow> prefix p q \<Longrightarrow> lGet (ms_fs t) q = None"
proof -
  show "good R C t" "agree {p} (ms_fs s) (ms_fs t)"
    using wi.keeps_run[OF within_RemoveAll assms(3), of "{p}" R C] assms(1,2) by (simp_all add: within_def)
  have p: "phys (ms_fs s) p" using assms(1,2) by (simp add: good_def)
  show "lGet (ms_fs t) q = lGet (ms_fs s) q \<or> prefix p q \<and> lGet (ms_fs t) q = None"
    using assms(3) lGet_RemoveAll[OF p, of q] by (auto simp: RemoveAll_def mTree_def nextTick_def split: tick.splits if_splits)
  show "r = Some True \<Longrightarrow> prefix p q \<Longrightarrow> lGet (ms_fs t) q = None"
    using assms(3) lGet_RemoveAll[OF p, of q] by (auto simp: RemoveAll_def mTree_def nextTick_def split: tick.splits if_splits)
qed

lemma MkdirAll_run:
  assumes "good R C s" "p \<in> R" "osMkdirAll p s = (r, t)" "\<not> isLink (lGet (ms_fs s) p)"
  shows "good R C t" "agree {p} (ms_fs s) (ms_fs t)" "r = Some True \<Longrightarrow> lGet (ms_fs t) p = Some LDir"
proof -
  show "good R C t" "agree {p} (ms_fs s) (ms_fs t)"
    using wi.keeps_run[OF within_MkdirAll assms(3), of "{p}" R C] assms(1,2) by (simp_all add: within_def)
  have p: "phys (ms_fs s) p" using assms(1,2) by (simp add: good_def)
  assume r: "r = Some True"
  then have "lMkdirAll (ms_fs s) p = Some (ms_fs t)" using assms(3) mCall_True unfolding osMkdirAll_def by blast
  from MkdirAll_phys[OF p this] show "lGet (ms_fs t) p = Some LDir"
  proof
    assume a: "lStat (ms_fs s) p = Inr LDir \<and> ms_fs t = ms_fs s"
    then show ?thesis using assms(4) by (auto simp: lStat_def walk_phys[OF p] isLink_def split: option.splits lnode.splits)
  next
    assume "lGet (ms_fs s) p = None \<and> ms_fs t = (p, LDir) # ms_fs s"
    then show ?thesis by (simp add: lGet_def)
  qed
qed

lemma within_rsync_run:
  assumes "rsyncOk E leaves" "good R C s" "q \<in> R" "disjoint p q" "lGet (ms_fs s) q = Some LDir"
    and run: "mTree (mv_rsync E ty p q) s = (r, t)"
  shows "good R C t" "agree {q} (ms_fs s) (ms_fs t)"
    "r = Some True \<Longrightarrow> lGet (ms_fs s) (p @ x) = Some n \<Longrightarrow> \<not> leaves ty p x \<Longrightarrow> lGet (ms_fs t) (q @ x) = Some n"
proof -
  let ?g = "snd (mv_rsync E ty p q (ms_fs s))"
  have a: "agree {q} (ms_fs s) ?g" using assms(1,4,5) by (simp add: rsyncOk_def)
  have m: "agree {q} (ms_fs s) (mix D (ms_fs s) ?g)" for D using agree_mix[OF a] .
  show "good R C t" "agree {q} (ms_fs s) (ms_fs t)"
    using run good_agree[OF assms(2) a] good_agree[OF assms(2) m] assms(3) a m
    by (auto simp: mTree_def case_prod_beta split: tick.splits)
  assume "r = Some True" "lGet (ms_fs s) (p @ x) = Some n" "\<not> leaves ty p x"
  moreover from this have "ms_fs t = ?g" "fst (mv_rsync E ty p q (ms_fs s))"
    using run by (auto simp: mTree_def nextTick_def case_prod_beta split: tick.splits)
  ultimately show "lGet (ms_fs t) (q @ x) = Some n" using assms(1,4,5) by (simp add: rsyncOk_def)
qed

text \<open>Staging writes only the staging place, and on success holds what \<^verbatim>\<open>rsync\<close> does not leave out.\<close>

definition copied :: "(string \<Rightarrow> string list \<Rightarrow> string list \<Rightarrow> bool) \<Rightarrow> string \<Rightarrow> lfs \<Rightarrow> string list \<Rightarrow> lfs \<Rightarrow> string list \<Rightarrow> bool" where
  "copied leaves ty f p g q = (\<forall>x n. lGet f (p @ x) = Some n \<longrightarrow> \<not> leaves ty p x \<longrightarrow> lGet g (q @ x) = Some n)"

lemma stageUnit_run:
  assumes E: "rsyncOk E leaves" and g: "good R C s" and R: "staging u \<in> R" "disjoint (mu_src u) (staging u)"
    and nl: "\<not> isLink (lGet (ms_fs s) (staging u))" and run: "stageUnit E ty u s = (r, t)"
  shows "good R C t \<and> agree {staging u} (ms_fs s) (ms_fs t) \<and> (r = Some True \<longrightarrow> copied leaves ty (ms_fs s) (mu_src u) (ms_fs t) (staging u))"
  using run unfolding stageUnit_def
proof (cases rule: mBind_runE)
  case stopped
  then show ?thesis using RemoveAll_run[OF g R(1)] by blast
next
  case (goes x1 s1)
  note 1 = RemoveAll_run[OF g R(1) goes(1)]
  have nl1: "\<not> isLink (lGet (ms_fs s1) (staging u))" using 1(3)[of "staging u"] nl by (auto simp: isLink_def)
  from goes(2) show ?thesis
  proof (cases rule: mBind_runE)
    case stopped
    then show ?thesis using MkdirAll_run[OF 1(1) R(1) _ nl1] 1(2) agree_trans by blast
  next
    case (goes x2 s2)
    note 2 = MkdirAll_run[OF 1(1) R(1) goes(1) nl1]
    have a2: "agree {staging u} (ms_fs s) (ms_fs s2)" using 1(2) 2(2) by (rule agree_trans)
    show ?thesis
    proof (cases x2)
      case False
      then show ?thesis using goes(2) 2(1) a2 by (simp add: mReturn_run)
    next
      case True
      then have d: "lGet (ms_fs s2) (staging u) = Some LDir" using 2(3) by simp
      have src: "sameAt (ms_fs s) (mu_src u) (ms_fs s2) (mu_src u)" using agree_sameAt[OF a2] R(2) by simp
      note rs = within_rsync_run[OF E 2(1) R(1) R(2) d]
      from goes(2) True have "mBind (mTree (mv_rsync E ty (mu_src u) (staging u)))
        (\<lambda>ok2. if ok2 then mReturn True else mBind (RemoveAll (staging u)) (\<lambda>_. mReturn False)) s2 = (r, t)" by simp
      then show ?thesis
      proof (cases rule: mBind_runE)
        case stopped
        then show ?thesis using rs(1,2) agree_trans[OF a2] by blast
      next
        case (goes x3 s3)
        note 3 = rs(1,2)[OF goes(1)]
        have a3: "agree {staging u} (ms_fs s) (ms_fs s3)" using a2 3(2) by (rule agree_trans)
        show ?thesis
        proof (cases x3)
          case True
          then have "copied leaves ty (ms_fs s) (mu_src u) (ms_fs s3) (staging u)"
            using rs(3)[OF goes(1)] src by (simp add: copied_def sameAt_def)
          then show ?thesis using goes(2) True 3(1) a3 by (simp add: mReturn_run)
        next
          case False
          with goes(2) have "mBind (RemoveAll (staging u)) (\<lambda>_. mReturn False) s3 = (r, t)" by simp
          then show ?thesis
            by (cases rule: mBind_runE) (use RemoveAll_run(1,2)[OF 3(1) R(1)] agree_trans[OF a3] in \<open>auto simp: mReturn_run\<close>)
        qed
      qed
    qed
  qed
qed

text \<open>Promotion puts the staged copy at the destination and writes nothing else.\<close>

lemma within_promoteExternal:
  assumes "tgt u \<subseteq> W" "W \<subseteq> R" "tgt u \<subseteq> C" "distinct [mu_dst u, staging u, dstOld u]"
  shows "wi.keeps R C W (promoteExternal u)"
proof -
  have m: "mu_dst u \<in> W" "dstOld u \<in> W" "staging u \<in> W" "mu_dst u \<in> C" using assms(1,3) by (auto simp: tgt_def)
  show ?thesis unfolding promoteExternal_def
    by (intro wi.keeps_bind within_RemoveAll wi.keeps_get)
      (use m assms(2,4) in \<open>auto intro!: within_calls within_promoteCleanup\<close>)
qed

lemma within_promoteRestore:
  assumes "tgt u \<subseteq> W" "W \<subseteq> R" "tgt u \<subseteq> C" "mu_anchor u = mu_dst u" "staging u \<noteq> mu_dst u"
  shows "wi.keeps R C W (promoteRestore u)"
proof -
  have m: "mu_anchor u \<in> W" "staging u \<in> W" "mu_anchor u \<in> C" using assms(1,3,4) by (auto simp: tgt_def)
  show ?thesis unfolding promoteRestore_def
    by (intro wi.keeps_bind within_Remove) (use m assms(2,4,5) in \<open>auto intro!: within_calls within_promoteCleanup\<close>)
qed

lemma promoteCleanup_fs: "promoteCleanup p c s = (r, t) \<Longrightarrow> ms_fs t = ms_fs s"
  by (auto simp: promoteCleanup_def checkpoint_def mBind_def mReturn_def mModify_def mCall_def nextTick_def
      split: tick.splits prod.splits option.splits)

lemma Rename_run:
  assumes "good R C s" "{p, q} \<subseteq> R" "p \<noteq> q" "osRename p q s = (r, t)"
  shows "good R C t" "agree {p, q} (ms_fs s) (ms_fs t)" "r = Some True \<Longrightarrow> sameAt (ms_fs s) p (ms_fs t) q"
    "r \<noteq> Some True \<Longrightarrow> ms_fs t = ms_fs s"
proof -
  show "good R C t" "agree {p, q} (ms_fs s) (ms_fs t)"
    using wi.keeps_run[OF within_Rename assms(4), of "{p, q}" R C] assms(1-3) by (simp_all add: within_def)
  show "r \<noteq> Some True \<Longrightarrow> ms_fs t = ms_fs s" using assms(4) mCall_not_True unfolding osRename_def by blast
  assume "r = Some True"
  then have "lRename (ms_fs s) p q = Some (ms_fs t)" using assms(4) mCall_True unfolding osRename_def by blast
  from lGet_Rename(1)[OF _ _ _ this] show "sameAt (ms_fs s) p (ms_fs t) q"
    using assms(1-3) good_disjoint[OF assms(1), of p q] by (simp add: sameAt_def good_def)
qed

lemma promoteExternal_True:
  assumes g: "good R C s" "tgt u \<subseteq> R" "distinct [mu_dst u, staging u, dstOld u]" and run: "promoteExternal u s = (Some True, t)"
  shows "sameAt (ms_fs s) (staging u) (ms_fs t) (mu_dst u)"
proof -
  have R: "mu_dst u \<in> R" "staging u \<in> R" "dstOld u \<in> R" using g(2) by (auto simp: tgt_def)
  have D: "disjoint (staging u) (dstOld u)" "disjoint (staging u) (mu_dst u)" using g(3) by (intro good_disjoint[OF g(1)] R; auto)+
  from run show ?thesis unfolding promoteExternal_def
  proof (cases rule: mBind_runE)
    case (goes x1 s1)
    note 1 = RemoveAll_run(1,2)[OF g(1) R(3) goes(1)]
    have e1: "sameAt (ms_fs s) (staging u) (ms_fs s1) (staging u)" using agree_sameAt[OF 1(2)] D by auto
    from goes(2) have b: "mBind (if statOk (ms_fs s1) (mu_dst u) then osRename (mu_dst u) (dstOld u) else mReturn True) (\<lambda>aside.
       if \<not> aside then mBind (RemoveAll (staging u)) (\<lambda>_. mReturn False)
       else mBind (osRename (staging u) (mu_dst u)) (\<lambda>ok.
          if ok then mBind (promoteCleanup (staging u) \<lparr>mc_path = mu_dst u, mc_restore = None\<rparr>) (\<lambda>_. mReturn True)
          else mBind (osRename (dstOld u) (mu_dst u)) (\<lambda>_. mBind (RemoveAll (staging u)) (\<lambda>_. mReturn False)))) s1 = (Some True, t)"
      by simp
    then show ?thesis
    proof (cases rule: mBind_runE)
      case (goes x2 s2)
      have 2: "good R C s2 \<and> agree {mu_dst u, dstOld u} (ms_fs s1) (ms_fs s2)"
        using goes(1) Rename_run(1,2)[OF 1(1), of "mu_dst u" "dstOld u"] R g(3) 1(1)
        by (cases "statOk (ms_fs s1) (mu_dst u)") (auto simp: mReturn_run agree_refl)
      have e2: "sameAt (ms_fs s) (staging u) (ms_fs s2) (staging u)"
        using sameAt_trans[OF e1 agree_sameAt[OF conjunct2[OF 2]]] D by auto
      have x2 using goes(2) by (cases x2) (auto simp: mBind_def mReturn_def split: prod.splits option.splits)
      with goes(2) have "mBind (osRename (staging u) (mu_dst u)) (\<lambda>ok.
          if ok then mBind (promoteCleanup (staging u) \<lparr>mc_path = mu_dst u, mc_restore = None\<rparr>) (\<lambda>_. mReturn True)
          else mBind (osRename (dstOld u) (mu_dst u)) (\<lambda>_. mBind (RemoveAll (staging u)) (\<lambda>_. mReturn False))) s2 = (Some True, t)"
        by simp
      then show ?thesis
      proof (cases rule: mBind_runE)
        case (goes x3 s3)
        have x3 using goes(2) by (cases x3) (auto simp: mBind_def mReturn_def split: prod.splits option.splits)
        with goes(2) have "ms_fs t = ms_fs s3"
          by (auto simp: mReturn_run elim!: mBind_runE dest: promoteCleanup_fs)
        moreover have "sameAt (ms_fs s2) (staging u) (ms_fs s3) (mu_dst u)"
          using Rename_run(3)[OF conjunct1[OF 2] _ _ goes(1)] R g(3) \<open>x3\<close> by auto
        ultimately show ?thesis using sameAt_trans[OF e2] by simp
      qed simp
    qed simp
  qed simp
qed

lemma promoteRestore_True:
  assumes g: "good R C s" "tgt u \<subseteq> R" "mu_anchor u = mu_dst u" "staging u \<noteq> mu_dst u" and run: "promoteRestore u s = (Some True, t)"
  shows "sameAt (ms_fs s) (staging u) (ms_fs t) (mu_dst u)"
proof -
  have R: "mu_anchor u \<in> R" "staging u \<in> R" using g(2,3) by (auto simp: tgt_def)
  have D: "disjoint (staging u) (mu_anchor u)" using g(3,4) by (intro good_disjoint[OF g(1)] R) auto
  from run show ?thesis unfolding promoteRestore_def
  proof (cases rule: mBind_runE)
    case (goes x1 s1)
    have 1: "good R C s1" "agree {mu_anchor u} (ms_fs s) (ms_fs s1)"
      using wi.keeps_run[OF within_Remove goes(1), of "{mu_anchor u}" R C] g(1) R by (simp_all add: within_def)
    have e1: "sameAt (ms_fs s) (staging u) (ms_fs s1) (staging u)" using agree_sameAt[OF 1(2)] D by auto
    have x1 using goes(2) by (cases x1) (auto simp: mBind_def mReturn_def split: prod.splits option.splits)
    with goes(2) have "mBind (osRename (staging u) (mu_anchor u)) (\<lambda>ok2.
        if ok2 then mBind (promoteCleanup (staging u) \<lparr>mc_path = mu_anchor u, mc_restore = Some (mu_anchor u, mu_src u)\<rparr>) (\<lambda>_. mReturn True)
        else mBind (osSymlink (mu_src u) (mu_anchor u)) (\<lambda>_. mBind (RemoveAll (staging u)) (\<lambda>_. mReturn False))) s1 = (Some True, t)" by simp
    then show ?thesis
    proof (cases rule: mBind_runE)
      case (goes x2 s2)
      have x2 using goes(2) by (cases x2) (auto simp: mBind_def mReturn_def split: prod.splits option.splits)
      with goes(2) have "ms_fs t = ms_fs s2" by (auto simp: mReturn_run elim!: mBind_runE dest: promoteCleanup_fs)
      moreover have "sameAt (ms_fs s1) (staging u) (ms_fs s2) (mu_anchor u)"
        using Rename_run(3)[OF 1(1) _ _ goes(1)] R g(3,4) \<open>x2\<close> by auto
      ultimately show ?thesis using sameAt_trans[OF e1] g(3) by simp
    qed simp
  qed simp
qed

section \<open>The copy phase\<close>

lemma separateD:
  assumes "separate restore units" "u \<in> set units"
  shows "distinct [mu_dst u, staging u, dstOld u]" "mu_src u \<noteq> staging u" "(mu_dst u = mu_anchor u) = restore"
    "mu_anchor u \<noteq> backupAnchor u" "backupAnchor u \<notin> tgt u" "\<not> restore \<Longrightarrow> mu_anchor u \<notin> tgt u" "mu_src u \<noteq> backupAnchor u"
    "mu_src u \<noteq> dstOld u"
  using assms by (auto simp: separate_def tgt_def)

lemma copyUnit_run:
  assumes sep: "separate restore units" and u: "u \<in> set units" "\<not> skipUnit u" and E: "rsyncOk E leaves"
    and g: "good (allPlaces units) (copyPlaces units) s" and nl: "\<not> isLink (lGet (ms_fs s) (staging u))"
    and run: "copyUnit E ty restore u s = (r, t)"
  shows "good (allPlaces units) (copyPlaces units) t \<and> agree (tgt u) (ms_fs s) (ms_fs t)
    \<and> (r = Some True \<longrightarrow> copied leaves ty (ms_fs s) (mu_src u) (ms_fs t) (mu_dst u))"
proof -
  note P = places_all[OF u(1)] and T = tgt_copyPlaces[OF u] and D = separateD[OF sep u(1)]
  have TR: "tgt u \<subseteq> allPlaces units" using P tgt_places by blast
  have st: "staging u \<in> allPlaces units" "mu_src u \<in> allPlaces units" using P by (auto simp: places_def tgt_def)
  have dis: "disjoint (mu_src u) (staging u)" using src_disjoint_tgt[OF sep u(1,1,2)] by simp
  have up: "agree {staging u} (ms_fs s) h \<Longrightarrow> agree (tgt u) (ms_fs s) h" for h by (erule agree_mono) simp
  let ?promote = "if restore \<and> mu_dst u = mu_anchor u then promoteRestore u else promoteExternal u"
  have w: "wi.keeps (allPlaces units) (copyPlaces units) (tgt u) ?promote"
    using within_promoteRestore[OF order_refl TR T] within_promoteExternal[OF order_refl TR T] D(1,3) by auto
  from run show ?thesis unfolding copyUnit_def
  proof (cases rule: mBind_runE)
    case stopped
    then show ?thesis using stageUnit_run[OF E g st(1) dis nl] up by blast
  next
    case (goes x s1)
    note 1 = stageUnit_run[OF E g st(1) dis nl goes(1)]
    have a1: "agree (tgt u) (ms_fs s) (ms_fs s1)" using 1 up by blast
    show ?thesis
    proof (cases x)
      case False
      then show ?thesis using goes(2) 1 a1 by (simp add: mReturn_run)
    next
      case True
      then have run2: "?promote s1 = (r, t)" using goes(2) by (simp split: if_splits)
      have "within (allPlaces units) (copyPlaces units) (tgt u) s1 t" using wi.keeps_run[OF w run2] .
      then have 2: "good (allPlaces units) (copyPlaces units) t" "agree (tgt u) (ms_fs s) (ms_fs t)"
        using 1 agree_trans[OF a1] by (auto simp: within_def)
      have "r = Some True \<Longrightarrow> sameAt (ms_fs s1) (staging u) (ms_fs t) (mu_dst u)"
        using promoteRestore_True[OF conjunct1[OF 1] TR] promoteExternal_True[OF conjunct1[OF 1] TR] run2 D(1,3) by (auto split: if_splits)
      then show ?thesis using 1 2 True by (auto simp: copied_def sameAt_def)
    qed
  qed
qed

lemma present_resolves:
  assumes "wellPlaced units f" "u \<in> set units" "present f u" "phys g (mu_anchor u)" "phys g (mu_src u)"
    and "sameAt f (mu_anchor u) g (mu_anchor u)" "sameAt f (mu_src u) g (mu_src u)"
  shows "EvalSymlinks g (mu_anchor u) = Inr (mu_src u)" "\<exists>n. lStat g (mu_src u) = Inr n"
proof -
  have r: "EvalSymlinks f (mu_anchor u) = Inr (mu_src u)" using assms(3) by (simp add: present_def)
  have a: "lGet f (mu_anchor u) \<in> {Some LDir, Some (LLink (mu_src u))}" using assms(1,2) r unfolding wellPlaced_def by blast
  have ph: "phys f (mu_anchor u)" "phys f (mu_src u)" using assms(1,2) by (simp_all add: wellPlaced_def)
  have "mu_src u \<noteq> []" using ph(2) by (simp add: phys_def)
  then have n: "lGet f (mu_src u) = Some LDir \<or> (\<exists>c. lGet f (mu_src u) = Some (LFile c))" using EvalSymlinks_phys[OF r] by simp
  have e: "lGet g (mu_anchor u) = lGet f (mu_anchor u)" "lGet g (mu_src u) = lGet f (mu_src u)" using sameAt_get assms(6,7) by blast+
  show "EvalSymlinks g (mu_anchor u) = Inr (mu_src u)"
  proof (cases "lGet f (mu_anchor u) = Some LDir")
    case True
    then have "mu_src u = mu_anchor u" using r walk_phys[OF ph(1), of 255] by (simp add: EvalSymlinks_def)
    then show ?thesis using True e walk_phys[OF assms(4), of 255] by (simp add: EvalSymlinks_def)
  next
    case False
    then have "lGet g (mu_anchor u) = Some (LLink (mu_src u))" using a e by simp
    then show ?thesis using walk_phys[OF assms(4), of "Suc 254"] walk_phys[OF assms(5), of 254] n e by (auto simp: EvalSymlinks_def)
  qed
  show "\<exists>n. lStat g (mu_src u) = Inr n" using walk_phys[OF assms(5), of 40] n e by (auto simp: lStat_def)
qed

definition untouched :: "lfs \<Rightarrow> migrateUnit \<Rightarrow> lfs \<Rightarrow> bool" where
  "untouched f u g = (\<forall>p \<in> places u. sameAt f p g p)"

lemma untouched_other:
  assumes "separate restore units" "u \<in> set units" "v \<in> set units" "u \<noteq> v" "W \<subseteq> places u" "agree W g h" "untouched f v g"
  shows "untouched f v h"
  unfolding untouched_def
proof
  fix p assume p: "p \<in> places v"
  have "sameAt g p h p" using separate_disjoint[OF assms(1,3,2) p] assms(4,5) by (intro agree_sameAt[OF assms(6)]) auto
  then show "sameAt f p h p" using assms(7) p sameAt_trans unfolding untouched_def by blast
qed

definition copyDone :: "(string \<Rightarrow> string list \<Rightarrow> string list \<Rightarrow> bool) \<Rightarrow> string \<Rightarrow> lfs \<Rightarrow> migrateUnit list \<Rightarrow> lfs \<Rightarrow> bool" where
  "copyDone leaves ty f us g = (\<forall>v \<in> set us. copied leaves ty f (mu_src v) g (mu_dst v))"

lemma copyLoop_run:
  assumes sep: "separate restore units" and E: "rsyncOk E leaves" and wp: "wellPlaced units f"
    and "set processed \<subseteq> {u \<in> set units. \<not> skipUnit u}" "set us \<subseteq> set units" "distinct us" "set processed \<inter> set us = {}"
    and "good (allPlaces units) (copyPlaces units) s" "\<forall>v \<in> set us. untouched f v (ms_fs s)" "copyDone leaves ty f processed (ms_fs s)"
    and "copyLoop E ty restore processed us s = (r, t)"
  shows "good (allPlaces units) (copyPlaces units) t \<and> agree (copyPlaces units) (ms_fs s) (ms_fs t)
    \<and> (\<forall>pr. r = Some (Inr pr) \<longrightarrow> set pr \<subseteq> {u \<in> set units. \<not> skipUnit u} \<and> set processed \<subseteq> set pr \<and> copyDone leaves ty f pr (ms_fs t)
          \<and> (\<forall>v \<in> set us. present f v \<longrightarrow> \<not> skipUnit v \<longrightarrow> v \<in> set pr))"
  using assms(4-)
proof (induction us arbitrary: processed s)
  case Nil
  then show ?case by (auto simp: mReturn_run agree_refl)
next
  case (Cons u us)
  let ?R = "allPlaces units" and ?C = "copyPlaces units"
  have u: "u \<in> set units" using Cons.prems(2) by simp
  have tail: "set us \<subseteq> set units" "distinct us" "set processed \<inter> set us = {}" "\<forall>v \<in> set us. untouched f v (ms_fs s)"
    using Cons.prems(2,3,4,6) by auto
  note skip = Cons.IH[OF Cons.prems(1) tail(1,2,3) Cons.prems(5) tail(4) Cons.prems(7)]
  show ?case
  proof (cases "skipUnit u")
    case True
    then show ?thesis using skip Cons.prems(8) by simp
  next
    case ns: False
    have un: "untouched f u (ms_fs s)" using Cons.prems(6) by simp
    have ph: "phys (ms_fs s) (mu_anchor u)" "phys (ms_fs s) (mu_src u)" using Cons.prems(5) places_all[OF u] by (auto simp: good_def places_def)
    have res: "\<not> inPlace u (ms_fs s) \<and> lStat (ms_fs s) (mu_src u) \<noteq> Inl NoEnt" if "present f u"
      using present_resolves[OF wp u that ph] un ns by (auto simp: untouched_def inPlace_def skipUnit_def)
    have run: "(if inPlace u (ms_fs s) then copyLoop E ty restore processed us
        else if lStat (ms_fs s) (mu_src u) = Inl NoEnt then
          (if restore
           then mBind (if ty \<in> {MigrateTypeImages, MigrateTypePhotos} then restartStoppedServices ty else mReturn ()) (\<lambda>_.
                mReturn (Inl SourceMissing))
           else copyLoop E ty restore processed us)
        else mBind (copyUnit E ty restore u) (\<lambda>ok.
             if ok then copyLoop E ty restore (processed @ [u]) us else failCopy ty restore processed)) s = (r, t)"
      using Cons.prems(8) ns by simp
    show ?thesis
    proof (cases "inPlace u (ms_fs s) \<or> lStat (ms_fs s) (mu_src u) = Inl NoEnt")
      case gone: True
      then have "\<not> present f u" using res by blast
      show ?thesis
      proof (cases "inPlace u (ms_fs s) \<or> \<not> restore")
        case True
        then have "copyLoop E ty restore processed us s = (r, t)" using run gone by (auto split: if_splits)
        then show ?thesis using skip \<open>\<not> present f u\<close> by simp
      next
        case False
        then have m: "mBind (if ty \<in> {MigrateTypeImages, MigrateTypePhotos} then restartStoppedServices ty else mReturn ()) (\<lambda>_.
                mReturn (Inl SourceMissing)) s = (r, t)" using run gone by (simp split: if_splits)
        have "wi.keeps ?R ?C ?C (mBind (if ty \<in> {MigrateTypeImages, MigrateTypePhotos} then restartStoppedServices ty else mReturn ()) (\<lambda>_.
                mReturn (Inl SourceMissing :: (migErr, migrateUnit list) result)))" by (auto intro!: within_calls)
        from wi.keeps_run[OF this m] show ?thesis
          using Cons.prems(5) m by (auto simp: within_def mReturn_run elim!: mBind_runE)
      qed
    next
      case False
      with run have run2: "mBind (copyUnit E ty restore u) (\<lambda>ok.
             if ok then copyLoop E ty restore (processed @ [u]) us else failCopy ty restore processed) s = (r, t)" by simp
      have nl: "\<not> isLink (lGet (ms_fs s) (staging u))"
        using un wp u sameAt_get[of f "staging u" "ms_fs s" "staging u"] by (simp add: untouched_def wellPlaced_def)
      note cu = copyUnit_run[OF sep u ns E Cons.prems(5) nl]
      from run2 show ?thesis
      proof (cases rule: mBind_runE)
        case stopped
        then show ?thesis using cu agree_mono[OF _ tgt_copyPlaces[OF u ns]] by blast
      next
        case (goes x s1)
        note 1 = cu[OF goes(1)]
        have a1: "agree ?C (ms_fs s) (ms_fs s1)" using 1 agree_mono[OF _ tgt_copyPlaces[OF u ns]] by blast
        show ?thesis
        proof (cases x)
          case True
          have oth: "\<forall>v \<in> set us. untouched f v (ms_fs s1)"
            using untouched_other[OF sep u _ _ tgt_places] tail(1,4) 1 Cons.prems(3) by (metis distinct.simps(2) subsetD)
          have "copied leaves ty f (mu_src u) (ms_fs s1) (mu_dst u)"
            using 1 goes(1) True un by (auto simp: copied_def untouched_def sameAt_def)
          moreover have "copied leaves ty f (mu_src v) (ms_fs s1) (mu_dst v)" if v: "v \<in> set processed" for v
          proof -
            have "v \<in> set units" "v \<noteq> u" using Cons.prems(1,4) v by auto
            then have "sameAt (ms_fs s) (mu_dst v) (ms_fs s1) (mu_dst v)"
              using separate_disjoint[OF sep \<open>v \<in> set units\<close> u, of "mu_dst v"] tgt_places 1 by (intro agree_sameAt[of "tgt u"]) auto
            then show ?thesis using Cons.prems(7) v by (auto simp: copyDone_def copied_def sameAt_def)
          qed
          ultimately have "copyDone leaves ty f (processed @ [u]) (ms_fs s1)" by (auto simp: copyDone_def)
          moreover have "set (processed @ [u]) \<subseteq> {u \<in> set units. \<not> skipUnit u}" "set (processed @ [u]) \<inter> set us = {}"
            using Cons.prems(1,3,4) u ns by auto
          moreover have "copyLoop E ty restore (processed @ [u]) us s1 = (r, t)" using goes(2) True by simp
          ultimately have ih: "good ?R ?C t" "agree ?C (ms_fs s1) (ms_fs t)"
            "\<And>pr. r = Some (Inr pr) \<Longrightarrow> set pr \<subseteq> {u \<in> set units. \<not> skipUnit u} \<and> set (processed @ [u]) \<subseteq> set pr
               \<and> copyDone leaves ty f pr (ms_fs t) \<and> (\<forall>v \<in> set us. present f v \<longrightarrow> \<not> skipUnit v \<longrightarrow> v \<in> set pr)"
            using Cons.IH[OF _ tail(1,2) _ conjunct1[OF 1] oth] by blast+
          have "agree ?C (ms_fs s) (ms_fs t)" using a1 ih(2) by (rule agree_trans)
          then show ?thesis using ih(1,3) by simp
        next
          case False
          have rb: "tgt v \<subseteq> ?C \<and> dstOld v \<noteq> mu_dst v" if "v \<in> set processed" for v
          proof -
            have v: "v \<in> set units" "\<not> skipUnit v" using Cons.prems(1) that by auto
            show ?thesis using tgt_copyPlaces[OF v] separateD(1)[OF sep v(1)] by auto
          qed
          have "wi.keeps ?R ?C ?C (failCopy ty restore processed :: (migErr, migrateUnit list) result mg)" unfolding failCopy_def
            using rb copyPlaces_all by (intro wi.keeps_bind within_rollbackCopies within_restart wi.keeps_return) auto
          moreover have f2: "failCopy ty restore processed s1 = (r, t)" using goes(2) False by simp
          ultimately have "within ?R ?C ?C s1 t" by (rule wi.keeps_run)
          moreover have "r \<noteq> Some (Inr pr)" for pr using f2 by (auto simp: failCopy_def mReturn_run elim!: mBind_runE)
          ultimately show ?thesis using 1 agree_trans[OF a1] by (auto simp: within_def)
        qed
      qed
    qed
  qed
qed

end
