(* ===== verification/MigrateSwap.thy ===== *)
theory MigrateSwap
  imports MigrateSafe
begin

text \<open>
  A migration does not lose data: the anchors are exchanged so that in every outcome (success, failure with roll-back, stop at any
  call) the data of every unit is at its source, at the backup of its anchor, or completely at its destination.
\<close>

section \<open>Swapping the anchors\<close>

definition recoverable :: "lfs \<Rightarrow> migrateUnit \<Rightarrow> lfs \<Rightarrow> bool" where
  "recoverable f u g =
     (if mu_src u = mu_anchor u
      then sameAt f (mu_anchor u) g (mu_anchor u) \<or> sameAt f (mu_anchor u) g (backupAnchor u)
      else sameAt f (mu_src u) g (mu_src u))"

abbreviation atBak :: "lfs \<Rightarrow> migrateUnit \<Rightarrow> lfs \<Rightarrow> bool" where
  "atBak f u g \<equiv> sameAt f (mu_anchor u) g (backupAnchor u)"

lemma untouched_agree:
  "separate restore units \<Longrightarrow> u \<in> set units \<Longrightarrow> v \<in> set units \<Longrightarrow> u \<noteq> v \<Longrightarrow> W \<subseteq> places u \<Longrightarrow> agree W g h \<Longrightarrow> untouched g v h"
  by (rule untouched_other[of restore units u v W g h g]) (auto simp: untouched_def sameAt_refl)

lemma recoverable_untouched: "untouched g v h \<Longrightarrow> recoverable f v g \<Longrightarrow> recoverable f v h"
  unfolding recoverable_def untouched_def using sameAt_trans[of f _ g _ h] by (auto split: if_splits)

lemma atBak_untouched: "untouched g v h \<Longrightarrow> atBak f v g \<Longrightarrow> atBak f v h"
  unfolding untouched_def using sameAt_trans[of f _ g _ h] by auto

text \<open>A step on the anchor of one unit leaves the other units alone.\<close>

lemma recoverable_step:
  assumes "separate restore units" "u \<in> set units" "W \<subseteq> places u" "agree W g h" "\<forall>v \<in> set units. recoverable f v g" "recoverable f u h"
  shows "\<forall>v \<in> set units. recoverable f v h"
proof
  fix v assume "v \<in> set units"
  then show "recoverable f v h"
    using untouched_agree[OF assms(1,2) _ _ assms(3,4), of v] recoverable_untouched[of g v h f] assms(5,6) by (cases "v = u") auto
qed

lemma atBak_step:
  assumes "separate restore units" "u \<in> set units" "W \<subseteq> places u" "agree W g h" "set us \<subseteq> set units" "u \<notin> set us" "\<forall>v \<in> set us. atBak f v g"
  shows "\<forall>v \<in> set us. atBak f v h"
proof
  fix v assume v: "v \<in> set us"
  then have "untouched g v h" using untouched_agree[OF assms(1,2) _ _ assms(3,4), of v] assms(5,6) by auto
  then show "atBak f v h" using atBak_untouched assms(7) v by blast
qed

lemma agree_anchor_src:
  assumes "separate restore units" "u \<in> set units" "mu_src u \<noteq> mu_anchor u" "W \<subseteq> {mu_anchor u, backupAnchor u}" "agree W g h"
  shows "sameAt g (mu_src u) h (mu_src u)"
  using assms separate_disjoint[OF assms(1,2,2), of "mu_src u"] by (intro agree_sameAt[OF assms(5)]) (auto simp: separate_def)

lemma rollbackSwaps_run:
  assumes sep: "separate restore units" and "set us \<subseteq> set units" "distinct us" "good (allPlaces units) C s"
    and "\<forall>v \<in> set us. atBak f v (ms_fs s)" "\<forall>v \<in> set units. recoverable f v (ms_fs s)" "rollbackSwaps us s = (r, t)"
  shows "good (allPlaces units) C t \<and> (\<forall>v \<in> set units. recoverable f v (ms_fs t))"
  using assms(2-)
proof (induction us arbitrary: s)
  case Nil
  then show ?case by (simp add: mReturn_run)
next
  case (Cons u us)
  let ?R = "allPlaces units"
  have u: "u \<in> set units" using Cons.prems(1) by simp
  have R: "mu_anchor u \<in> ?R" "backupAnchor u \<in> ?R" using places_all[OF u] by auto
  have ne: "backupAnchor u \<noteq> mu_anchor u" using separateD(4)[OF sep u] by simp
  have rem: "good ?R C t1 \<and> atBak f u (ms_fs t1) \<and> (\<forall>v \<in> set us. atBak f v (ms_fs t1)) \<and> (\<forall>v \<in> set units. recoverable f v (ms_fs t1))"
    if "osRemoveEntry (mu_anchor u) s = (x, t1)" for x t1
  proof -
    have g1: "good ?R C t1" "agree {mu_anchor u} (ms_fs s) (ms_fs t1)"
      using wi.keeps_run[OF within_Remove that, of "{mu_anchor u}" ?R C] Cons.prems(3) R by (simp_all add: within_def)
    have "sameAt (ms_fs s) (backupAnchor u) (ms_fs t1) (backupAnchor u)"
      using good_disjoint[OF Cons.prems(3) R(2,1) ne] by (intro agree_sameAt[OF g1(2)]) simp
    then have b: "atBak f u (ms_fs t1)" using Cons.prems(4) sameAt_trans by auto
    have "sameAt f (mu_src u) (ms_fs t1) (mu_src u)" if "mu_src u \<noteq> mu_anchor u"
      using agree_anchor_src[OF sep u that _ g1(2)] Cons.prems(5) u that sameAt_trans[of f _ "ms_fs s"] by (auto simp: recoverable_def)
    with b have "recoverable f u (ms_fs t1)" by (simp add: recoverable_def)
    then have "\<forall>v \<in> set units. recoverable f v (ms_fs t1)"
      using recoverable_step[OF sep u _ g1(2) Cons.prems(5)] by simp
    moreover have "\<forall>v \<in> set us. atBak f v (ms_fs t1)"
      using Cons.prems(1,2,4) by (intro atBak_step[OF sep u _ g1(2)]) auto
    ultimately show ?thesis using g1 b by simp
  qed
  from Cons.prems(6) have "mBind (osRemoveEntry (mu_anchor u)) (\<lambda>_. mBind (osRename (backupAnchor u) (mu_anchor u)) (\<lambda>_. rollbackSwaps us)) s = (r, t)"
    by simp
  then show ?case
  proof (cases rule: mBind_runE)
    case stopped
    then show ?thesis using rem by blast
  next
    case (goes x s1)
    note 1 = rem[OF goes(1)]
    have ren: "good ?R C t1 \<and> (\<forall>v \<in> set us. atBak f v (ms_fs t1)) \<and> (\<forall>v \<in> set units. recoverable f v (ms_fs t1))"
      if run: "osRename (backupAnchor u) (mu_anchor u) s1 = (y, t1)" for y t1
    proof -
      note g1 = Rename_run[OF conjunct1[OF 1] _ ne run]
      have g2: "good ?R C t1" "agree {backupAnchor u, mu_anchor u} (ms_fs s1) (ms_fs t1)" using g1 R by simp_all
      have "sameAt f (mu_src u) (ms_fs t1) (mu_src u)" if "mu_src u \<noteq> mu_anchor u"
        using agree_anchor_src[OF sep u that _ g2(2)] 1 u that sameAt_trans[of f _ "ms_fs s1"] by (auto simp: recoverable_def)
      moreover have "sameAt f (mu_anchor u) (ms_fs t1) (mu_anchor u) \<or> atBak f u (ms_fs t1)"
        using g1(3,4) R 1 sameAt_trans[of f _ "ms_fs s1"] by (cases "y = Some True") auto
      ultimately have "recoverable f u (ms_fs t1)" by (auto simp: recoverable_def)
      then have "\<forall>v \<in> set units. recoverable f v (ms_fs t1)"
        using recoverable_step[OF sep u _ g2(2)] 1 by simp
      moreover have "\<forall>v \<in> set us. atBak f v (ms_fs t1)"
        using Cons.prems(1,2) 1 by (intro atBak_step[OF sep u _ g2(2)]) auto
      ultimately show ?thesis using g2 by simp
    qed
    from goes(2) show ?thesis
    proof (cases rule: mBind_runE)
      case stopped
      then show ?thesis using ren by blast
    next
      case (goes y s2)
      show ?thesis using Cons.IH[OF _ _ _ _ _ goes(2)] ren[OF goes(1)] Cons.prems(1,2) by simp
    qed
  qed
qed

text \<open>Undoing the copies touches no anchor, backup or source.\<close>

lemma copies_disjoint:
  assumes "separate False units" "v \<in> set units" "p \<in> {mu_anchor v, backupAnchor v, mu_src v}" "q \<in> copyPlaces units"
  shows "disjoint p q"
proof -
  obtain w where w: "w \<in> set units" "\<not> skipUnit w" "q \<in> tgt w" using assms(4) by (auto simp: copyPlaces_def)
  show ?thesis
  proof (cases "p = mu_src v")
    case True
    then show ?thesis using src_disjoint_tgt[OF assms(1,2) w] by simp
  next
    case False
    then show ?thesis using assms(3) w separateD(5,6)[OF assms(1) w(1)] tgt_places
      by (intro separate_disjoint[OF assms(1,2) w(1)]) auto
  qed
qed

lemma recoverable_copies:
  assumes "separate False units" "v \<in> set units" "agree (copyPlaces units) g h" "recoverable f v g"
  shows "recoverable f v h"
proof -
  have "sameAt g p h p" if "p \<in> {mu_anchor v, backupAnchor v, mu_src v}" for p
    using copies_disjoint[OF assms(1,2) that] by (intro agree_sameAt[OF assms(3)])
  then show ?thesis using assms(4) sameAt_trans[of f _ g _ h] by (auto simp: recoverable_def split: if_splits)
qed

lemma failSwap_run:
  assumes sep: "separate False units" and sw: "set sw \<subseteq> set units" "distinct sw" and pr: "set pr \<subseteq> {u \<in> set units. \<not> skipUnit u}"
    and g: "good (allPlaces units) (copyPlaces units) s" and b: "\<forall>v \<in> set sw. atBak f v (ms_fs s)" "\<forall>v \<in> set units. recoverable f v (ms_fs s)"
    and run: "failSwap ty pr sw s = (r, t)"
  shows "good (allPlaces units) (copyPlaces units) t \<and> (\<forall>v \<in> set units. recoverable f v (ms_fs t)) \<and> (\<forall>x. r \<noteq> Some (Inr x))"
proof -
  let ?R = "allPlaces units" and ?C = "copyPlaces units"
  have rs: "good ?R ?C t1 \<and> (\<forall>v \<in> set units. recoverable f v (ms_fs t1))" if "rollbackSwaps (rev sw) s = (x, t1)" for x t1
    using rollbackSwaps_run[OF sep _ _ g _ b(2) that] sw b(1) by simp
  have nr: "\<forall>x. r \<noteq> Some (Inr x)" using run by (auto simp: failSwap_def mReturn_run elim!: mBind_runE)
  from run show ?thesis unfolding failSwap_def
  proof (cases rule: mBind_runE)
    case stopped
    then show ?thesis using rs nr by blast
  next
    case (goes x s1)
    have rb: "tgt v \<subseteq> ?C \<and> dstOld v \<noteq> mu_dst v" if "v \<in> set (rev pr)" for v
    proof -
      have v: "v \<in> set units" "\<not> skipUnit v" using pr that by auto
      show ?thesis using tgt_copyPlaces[OF v] separateD(1)[OF sep v(1)] by auto
    qed
    have "wi.keeps ?R ?C ?C (mBind (rollbackCopies False (rev pr)) (\<lambda>_.
        mBind (restartStoppedServices ty) (\<lambda>_. mReturn (Inl SwapFailed :: (migErr, 'b) result))))"
      using rb copyPlaces_all by (intro wi.keeps_bind within_rollbackCopies within_restart wi.keeps_return) auto
    from wi.keeps_run[OF this goes(2)] rs[OF goes(1)] show ?thesis
      using recoverable_copies[OF sep] nr by (auto simp: within_def)
  qed
qed

definition swapState :: "(string \<Rightarrow> string list \<Rightarrow> string list \<Rightarrow> bool) \<Rightarrow> string \<Rightarrow> lfs \<Rightarrow> migrateUnit list \<Rightarrow> migrateUnit list
    \<Rightarrow> migrateUnit list \<Rightarrow> migrateUnit list \<Rightarrow> migState \<Rightarrow> bool" where
  "swapState leaves ty f units pr sw us s =
     (good (allPlaces units) (copyPlaces units) s \<and> (\<forall>v \<in> set units. recoverable f v (ms_fs s))
      \<and> (\<forall>v \<in> set sw. atBak f v (ms_fs s)) \<and> (\<forall>v \<in> set sw. lGet (ms_fs s) (mu_anchor v) = Some (LLink (mu_dst v)))
      \<and> (\<forall>v \<in> set us. sameAt f (mu_anchor v) (ms_fs s) (mu_anchor v)) \<and> copyDone leaves ty f pr (ms_fs s))"

text \<open>One step on the anchor or the backup of \<open>u\<close> keeps everything that is said of the other units.\<close>

lemma swapState_step:
  assumes sep: "separate False units" and u: "u \<in> set units" "u \<notin> set sw" "u \<notin> set us"
    and sub: "set sw \<subseteq> set units" "set us \<subseteq> set units" "set pr \<subseteq> set units"
    and st: "swapState leaves ty f units pr sw (u # us) s \<or> swapState leaves ty f units pr sw us s"
    and W: "W \<subseteq> {mu_anchor u, backupAnchor u}" "agree W (ms_fs s) (ms_fs t)" and g: "good (allPlaces units) (copyPlaces units) t"
    and r: "recoverable f u (ms_fs t)"
  shows "swapState leaves ty f units pr sw us t"
proof -
  have st': "swapState leaves ty f units pr sw us s" using st by (auto simp: swapState_def)
  have Wp: "W \<subseteq> places u" using W(1) by auto
  have un: "untouched (ms_fs s) v (ms_fs t)" if "v \<in> set units" "v \<noteq> u" for v
    using untouched_agree[OF sep u(1) that(1) _ Wp W(2)] that(2) by simp
  have "\<forall>v \<in> set sw. lGet (ms_fs t) (mu_anchor v) = Some (LLink (mu_dst v))"
  proof
    fix v assume v: "v \<in> set sw"
    then have "untouched (ms_fs s) v (ms_fs t)" using un sub(1) u(2) by auto
    then have "lGet (ms_fs t) (mu_anchor v) = lGet (ms_fs s) (mu_anchor v)" using sameAt_get by (auto simp: untouched_def)
    then show "lGet (ms_fs t) (mu_anchor v) = Some (LLink (mu_dst v))" using st' v by (simp add: swapState_def)
  qed
  moreover have "\<forall>v \<in> set us. sameAt f (mu_anchor v) (ms_fs t) (mu_anchor v)"
  proof
    fix v assume v: "v \<in> set us"
    then have "untouched (ms_fs s) v (ms_fs t)" using un sub(2) u(3) by auto
    then show "sameAt f (mu_anchor v) (ms_fs t) (mu_anchor v)" using st' v sameAt_trans by (auto simp: swapState_def untouched_def)
  qed
  moreover have "copyDone leaves ty f pr (ms_fs t)"
  proof -
    have "sameAt (ms_fs s) (mu_dst v) (ms_fs t) (mu_dst v)" if v: "v \<in> set pr" for v
    proof (rule agree_sameAt[OF W(2)])
      fix q assume q: "q \<in> W"
      have "v \<in> set units" using sub(3) v by auto
      then show "disjoint (mu_dst v) q" using q W(1) separateD(3)[OF sep u(1)] separateD(5)[OF sep u(1)]
        by (intro separate_disjoint[OF sep _ u(1)]) (auto simp: tgt_def)
    qed
    then show ?thesis using st' by (auto simp: swapState_def copyDone_def copied_def sameAt_def)
  qed
  ultimately show ?thesis
    using st' g recoverable_step[OF sep u(1) Wp W(2) _ r] atBak_step[OF sep u(1) Wp W(2) sub(1) u(2)] by (simp add: swapState_def)
qed

lemma Symlink_run:
  assumes "good R C s" "p \<in> R" "osSymlink x p s = (r, t)"
  shows "good R C t" "agree {p} (ms_fs s) (ms_fs t)" "r = Some True \<Longrightarrow> lGet (ms_fs t) p = Some (LLink x)" "r \<noteq> Some True \<Longrightarrow> ms_fs t = ms_fs s"
proof -
  show "good R C t" "agree {p} (ms_fs s) (ms_fs t)"
    using wi.keeps_run[OF within_Symlink assms(3), of "{p}" R C] assms(1,2) by (simp_all add: within_def)
  show "r \<noteq> Some True \<Longrightarrow> ms_fs t = ms_fs s" using assms(3) mCall_not_True unfolding osSymlink_def by blast
  assume "r = Some True"
  then have "lSymlink (ms_fs s) x p = Some (ms_fs t)" using assms(3) mCall_True unfolding osSymlink_def by blast
  then show "lGet (ms_fs t) p = Some (LLink x)" using assms(1,2) lGet_Symlink(1)[of "ms_fs s" p x "ms_fs t" p] by (simp add: good_def)
qed

lemma swapState_good: "swapState leaves ty f units pr sw us s \<Longrightarrow> good (allPlaces units) (copyPlaces units) s"
  by (simp add: swapState_def)

text \<open>
  Moving one anchor aside and linking it: after each call the data of the unit is at its anchor or at the backup; at the end
  the link is in place, or the anchor was put back as far as possible.
\<close>

lemma swapOne_run:
  assumes sep: "separate False units" and u: "u \<in> set units" "u \<notin> set sw" "u \<notin> set us"
    and sub: "set sw \<subseteq> set units" "set us \<subseteq> set units" "set pr \<subseteq> {u \<in> set units. \<not> skipUnit u}" "distinct sw"
    and st: "swapState leaves ty f units pr sw (u # us) s"
    and run: "mBind (RemoveAll (backupAnchor u)) (\<lambda>_.
          mBind (osRename (mu_anchor u) (backupAnchor u)) (\<lambda>ok.
          if \<not> ok then failSwap ty pr sw
          else mBind (osSymlink (mu_dst u) (mu_anchor u)) (\<lambda>ok2.
               if ok2 then goOn
               else mBind (osRename (backupAnchor u) (mu_anchor u)) (\<lambda>_. failSwap ty pr sw)))) s = (r, t)"
  obtains (ended) "good (allPlaces units) (copyPlaces units) t" "\<forall>v \<in> set units. recoverable f v (ms_fs t)" "\<And>x. r \<noteq> Some (Inr x)"
    | (swapped) s' where "swapState leaves ty f units pr (sw @ [u]) us s'" "goOn s' = (r, t)"
proof -
  let ?R = "allPlaces units" and ?C = "copyPlaces units" and ?a = "mu_anchor u" and ?b = "backupAnchor u"
  have R: "?a \<in> ?R" "?b \<in> ?R" using places_all[OF u(1)] by auto
  have ne: "?a \<noteq> ?b" using separateD(4)[OF sep u(1)] .
  have pr: "set pr \<subseteq> set units" using sub(3) by auto
  note step = swapState_step[OF sep u sub(1,2) pr]
  have dab: "disjoint ?a ?b" using good_disjoint[OF swapState_good[OF st] R ne] .
  have keepSrc: "sameAt f (mu_src u) g (mu_src u)"
    if "agree {?a, ?b} (ms_fs s') g" "recoverable f u (ms_fs s')" "mu_src u \<noteq> ?a" for s' g
    using agree_anchor_src[OF sep u(1) that(3) order_refl that(1)] that(2,3) sameAt_trans by (auto simp: recoverable_def)
  have fin: "(good ?R ?C t \<and> (\<forall>v \<in> set units. recoverable f v (ms_fs t)) \<and> (\<forall>x. r \<noteq> Some (Inr x)))
      \<or> (\<exists>s'. swapState leaves ty f units pr (sw @ [u]) us s' \<and> goOn s' = (r, t))"
    using run
  proof (cases rule: mBind_runE)
    case stopped
    note k = RemoveAll_run(1,2)[OF swapState_good[OF st] R(2) stopped(1)]
    have "sameAt f ?a (ms_fs t) ?a"
      using st agree_sameAt[OF k(2), of ?a] dab sameAt_trans[of f ?a "ms_fs s" ?a] by (auto simp: swapState_def)
    moreover have "mu_src u \<noteq> ?a \<Longrightarrow> sameAt f (mu_src u) (ms_fs t) (mu_src u)"
      using keepSrc[of s] st u(1) agree_mono[OF k(2), of "{?a, ?b}"] by (auto simp: swapState_def)
    ultimately have "recoverable f u (ms_fs t)" by (simp add: recoverable_def)
    from step[OF disjI1[OF st] _ k(2,1) this] show ?thesis using stopped(2) by (simp add: swapState_def)
  next
    case (goes x s1)
    note k = RemoveAll_run(1,2)[OF swapState_good[OF st] R(2) goes(1)]
    have a1: "sameAt f ?a (ms_fs s1) ?a"
      using st agree_sameAt[OF k(2), of ?a] dab sameAt_trans[of f ?a "ms_fs s" ?a] by (auto simp: swapState_def)
    moreover have "mu_src u \<noteq> ?a \<Longrightarrow> sameAt f (mu_src u) (ms_fs s1) (mu_src u)"
      using keepSrc[of s] st u(1) agree_mono[OF k(2), of "{?a, ?b}"] by (auto simp: swapState_def)
    ultimately have r1: "recoverable f u (ms_fs s1)" by (simp add: recoverable_def)
    have st1: "swapState leaves ty f units pr sw us s1" using step[OF disjI1[OF st] _ k(2,1) r1] by simp
    have ren: "swapState leaves ty f units pr sw us s2 \<and> recoverable f u (ms_fs s2) \<and> (y = Some True \<longrightarrow> atBak f u (ms_fs s2))"
      if run: "osRename ?a ?b s1 = (y, s2)" for y s2
    proof -
      note q = Rename_run[OF k(1) _ ne run]
      have "sameAt f ?a (ms_fs s2) ?a \<or> atBak f u (ms_fs s2)" "y = Some True \<longrightarrow> atBak f u (ms_fs s2)"
        using q(3,4) R a1 sameAt_trans[of f ?a "ms_fs s1"] by (cases "y = Some True"; auto)+
      moreover have "mu_src u \<noteq> ?a \<Longrightarrow> sameAt f (mu_src u) (ms_fs s2) (mu_src u)" using keepSrc[of s1] q(2) R r1 by simp
      ultimately have "recoverable f u (ms_fs s2)" "y = Some True \<longrightarrow> atBak f u (ms_fs s2)" by (auto simp: recoverable_def)
      then show ?thesis using step[OF disjI2[OF st1] _ q(2,1)] R by auto
    qed
    from goes(2) show ?thesis
    proof (cases rule: mBind_runE)
      case stopped
      then show ?thesis using ren by (auto simp: swapState_def)
    next
      case (goes y s2)
      note 2 = ren[OF goes(1)]
      have fs: "good ?R ?C t' \<and> (\<forall>v \<in> set units. recoverable f v (ms_fs t')) \<and> (\<forall>x. r' \<noteq> Some (Inr x))"
        if "swapState leaves ty f units pr sw us s3" "failSwap ty pr sw s3 = (r', t')" for s3 t' and r' :: "(migErr, 'b) result option"
        using failSwap_run[OF sep sub(1,4,3) _ _ _ that(2), of f] that(1) by (simp add: swapState_def)
      show ?thesis
      proof (cases y)
        case False
        then show ?thesis using goes(2) fs[of s2 r t] 2 by simp
      next
        case True
        then have b2: "atBak f u (ms_fs s2)" using 2 by simp
        have g2: "good ?R ?C s2" using 2 by (simp add: swapState_def)
        from goes(2) True have "mBind (osSymlink (mu_dst u) ?a) (\<lambda>ok2. if ok2 then goOn
               else mBind (osRename ?b ?a) (\<lambda>_. failSwap ty pr sw)) s2 = (r, t)" by simp
        then show ?thesis
        proof (cases rule: mBind_runE)
          case stopped
          have "ms_fs t = ms_fs s2" "good ?R ?C t" using Symlink_run(1,4)[OF g2 R(1) stopped(1)] by auto
          then show ?thesis using 2 stopped(2) by (simp add: swapState_def)
        next
          case (goes z s3)
          note k3 = Symlink_run[OF g2 R(1) goes(1)]
          show ?thesis
          proof (cases z)
            case True
            have b3: "atBak f u (ms_fs s3)"
              using b2 agree_sameAt[OF k3(2), of ?b] dab sameAt_trans[of f ?a "ms_fs s2"] by (auto simp: disjoint_def)
            moreover have "mu_src u \<noteq> ?a \<Longrightarrow> sameAt f (mu_src u) (ms_fs s3) (mu_src u)"
              using keepSrc[of s2] 2 agree_mono[OF k3(2), of "{?a, ?b}"] by simp
            ultimately have "recoverable f u (ms_fs s3)" by (simp add: recoverable_def)
            then have "swapState leaves ty f units pr sw us s3" using step[OF disjI2 _ k3(2,1)] 2 by blast
            then have "swapState leaves ty f units pr (sw @ [u]) us s3" using b3 k3(3) True by (auto simp: swapState_def)
            then show ?thesis using goes(2) True by auto
          next
            case False
            have st3: "swapState leaves ty f units pr sw us s3" "atBak f u (ms_fs s3)" "recoverable f u (ms_fs s3)"
              using 2 b2 k3(1,4) False by (auto simp: swapState_def)
            have put: "swapState leaves ty f units pr sw us s4" if run: "osRename ?b ?a s3 = (y, s4)" for y s4
            proof -
              note q = Rename_run[OF k3(1) _ _ run]
              have "sameAt f ?a (ms_fs s4) ?a \<or> atBak f u (ms_fs s4)"
                using q(3,4) R ne st3(2) sameAt_trans[of f ?a "ms_fs s3"] by (cases "y = Some True") auto
              moreover have "mu_src u \<noteq> ?a \<Longrightarrow> sameAt f (mu_src u) (ms_fs s4) (mu_src u)"
                using keepSrc[of s3] q(2) R ne st3(3) by (simp add: insert_commute)
              ultimately have "recoverable f u (ms_fs s4)" by (auto simp: recoverable_def)
              then show ?thesis using step[OF disjI2[OF st3(1)] _ q(2,1)] R ne by auto
            qed
            from goes(2) False have "mBind (osRename ?b ?a) (\<lambda>_. failSwap ty pr sw) s3 = (r, t)" by simp
            then show ?thesis
            proof (cases rule: mBind_runE)
              case stopped
              then show ?thesis using put[OF stopped(1)] by (simp add: swapState_def)
            next
              case (goes y s4)
              then show ?thesis using fs[OF put[OF goes(1)] goes(2)] by blast
            qed
          qed
        qed
      qed
    qed
  qed
  then show ?thesis using ended swapped by blast
qed

lemma swapLoop_run:
  assumes sep: "separate False units" and wp: "wellPlaced units f" and pr: "set pr \<subseteq> {u \<in> set units. \<not> skipUnit u}"
    and "set sw \<subseteq> {u \<in> set units. \<not> skipUnit u}" "set us \<subseteq> set units" "distinct (sw @ us)" "swapState leaves ty f units pr sw us s" "swapLoop ty pr sw us s = (r, t)"
  shows "good (allPlaces units) (copyPlaces units) t \<and> (\<forall>v \<in> set units. recoverable f v (ms_fs t))
    \<and> (\<forall>sw'. r = Some (Inr sw') \<longrightarrow> swapState leaves ty f units pr sw' [] t \<and> set sw' \<subseteq> {u \<in> set units. \<not> skipUnit u} \<and> distinct sw' \<and> set sw \<subseteq> set sw'
          \<and> (\<forall>v \<in> set us. present f v \<longrightarrow> \<not> skipUnit v \<longrightarrow> v \<in> set sw'))"
  using assms(4-)
proof (induction us arbitrary: sw s)
  case Nil
  then show ?case by (auto simp: mReturn_run swapState_def)
next
  case (Cons u us)
  have u: "u \<in> set units" "u \<notin> set sw" "u \<notin> set us" using Cons.prems(2,3) by auto
  show ?case
  proof (cases "needsAnchorWork u (ms_fs s)")
    case False
    have st: "swapState leaves ty f units pr sw us s" "swapLoop ty pr sw us s = (r, t)"
      using Cons.prems(4,5) False by (auto simp: swapState_def)
    have pu: "present f u \<Longrightarrow> skipUnit u"
    proof (rule ccontr)
      assume p: "present f u" "\<not> skipUnit u"
      have ph: "phys (ms_fs s) (mu_anchor u)" "phys (ms_fs s) (mu_src u)"
        using swapState_good[OF Cons.prems(4)] places_all[OF u(1)] by (auto simp: good_def places_def)
      have "sameAt f (mu_anchor u) (ms_fs s) (mu_anchor u)" "sameAt f (mu_src u) (ms_fs s) (mu_src u)"
        using Cons.prems(4) u(1) by (auto simp: swapState_def recoverable_def split: if_splits)
      from present_resolves(1)[OF wp u(1) p(1) ph this] show False using False p(2) by (auto simp: needsAnchorWork_def inPlace_def skipUnit_def)
    qed
    have d: "set us \<subseteq> set units" "distinct (sw @ us)" using Cons.prems(2,3) by auto
    show ?thesis using Cons.IH[OF Cons.prems(1) d st] pu by simp
  next
    case True
    then have ns: "\<not> skipUnit u" by (simp add: needsAnchorWork_def)
    have run: "mBind (RemoveAll (backupAnchor u)) (\<lambda>_.
          mBind (osRename (mu_anchor u) (backupAnchor u)) (\<lambda>ok.
          if \<not> ok then failSwap ty pr sw
          else mBind (osSymlink (mu_dst u) (mu_anchor u)) (\<lambda>ok2.
               if ok2 then swapLoop ty pr (sw @ [u]) us
               else mBind (osRename (backupAnchor u) (mu_anchor u)) (\<lambda>_. failSwap ty pr sw)))) s = (r, t)"
      using Cons.prems(5) True by simp
    have sub: "set sw \<subseteq> set units" "set us \<subseteq> set units" "distinct sw" using Cons.prems(1-3) by auto
    show ?thesis
    proof (rule swapOne_run[OF sep u sub(1,2) pr sub(3) Cons.prems(4) run], goal_cases)
      case 1
      then show ?case by blast
    next
      case (2 s')
      have ih: "set (sw @ [u]) \<subseteq> {u \<in> set units. \<not> skipUnit u}" "distinct ((sw @ [u]) @ us)" using Cons.prems(1,3) u ns by auto
      from Cons.IH[OF ih(1) sub(2) ih(2) 2] show ?case by auto
    qed
  qed
qed

section \<open>Deleting the old data\<close>

text \<open>A unit has arrived: its anchor is a link to the destination, or the destination itself, which holds the copied data.\<close>

definition arrived :: "(string \<Rightarrow> string list \<Rightarrow> string list \<Rightarrow> bool) \<Rightarrow> string \<Rightarrow> lfs \<Rightarrow> migrateUnit \<Rightarrow> lfs \<Rightarrow> bool" where
  "arrived leaves ty f u g =
     (copied leaves ty f (mu_src u) g (mu_dst u) \<and> (mu_dst u = mu_anchor u \<or> lGet g (mu_anchor u) = Some (LLink (mu_dst u))))"

lemma arrived_same:
  assumes "sameAt g (mu_dst u) h (mu_dst u)" "sameAt g (mu_anchor u) h (mu_anchor u)" "arrived leaves ty f u g"
  shows "arrived leaves ty f u h"
  using assms sameAt_get[OF assms(2)] by (auto simp: arrived_def copied_def sameAt_def)

text \<open>Data that stays where it is, or has arrived.\<close>

definition delivered :: "(string \<Rightarrow> string list \<Rightarrow> string list \<Rightarrow> bool) \<Rightarrow> string \<Rightarrow> lfs \<Rightarrow> migrateUnit \<Rightarrow> lfs \<Rightarrow> bool" where
  "delivered leaves ty f u g =
     (if skipUnit u then sameAt f (mu_src u) g (mu_src u) else arrived leaves ty f u g)"

lemma delivered_untouched: "untouched g u h \<Longrightarrow> delivered leaves ty f u g \<Longrightarrow> delivered leaves ty f u h"
  using arrived_same[of g u h] sameAt_trans[of f _ g _ h] by (auto simp: delivered_def untouched_def)

lemma delivered_step:
  assumes sep: "separate restore units" and u: "u \<in> set units" and W: "W \<subseteq> places u" "agree W g h"
    and own: "present f u \<Longrightarrow> \<forall>q \<in> W. q \<notin> {mu_dst u, mu_anchor u}" and ns: "\<not> skipUnit u \<or> (\<forall>q \<in> W. q \<noteq> mu_src u)"
    and d: "\<forall>v \<in> set units. present f v \<longrightarrow> delivered leaves ty f v g"
  shows "\<forall>v \<in> set units. present f v \<longrightarrow> delivered leaves ty f v h"
proof (intro ballI impI)
  fix v assume v: "v \<in> set units" "present f v"
  show "delivered leaves ty f v h"
  proof (cases "v = u")
    case False
    then show ?thesis using untouched_agree[OF sep u v(1) _ W] delivered_untouched d v by blast
  next
    case True
    have q: "disjoint p q" if "p \<in> places u" "q \<in> W" "p \<noteq> q" for p q using separate_disjoint[OF sep u u] that W(1) by blast
    have "sameAt g (mu_dst u) h (mu_dst u)" "sameAt g (mu_anchor u) h (mu_anchor u)"
      using own v(2) True q by (intro agree_sameAt[OF W(2)]; auto)+
    moreover have "skipUnit u \<Longrightarrow> sameAt g (mu_src u) h (mu_src u)" using ns q by (intro agree_sameAt[OF W(2)]) auto
    ultimately show ?thesis using d v True arrived_same[of g u h] sameAt_trans[of f _ g] by (auto simp: delivered_def)
  qed
qed

text \<open>What holds while old data is deleted: the units still to do have their old anchor at the backup, and all data is delivered.\<close>

definition tidyState :: "(string \<Rightarrow> string list \<Rightarrow> string list \<Rightarrow> bool) \<Rightarrow> string \<Rightarrow> lfs \<Rightarrow> migrateUnit list \<Rightarrow> migrateUnit list \<Rightarrow> migState \<Rightarrow> bool" where
  "tidyState leaves ty f units us s =
     (good (allPlaces units) (copyPlaces units) s \<and> (\<forall>v \<in> set us. atBak f v (ms_fs s))
      \<and> (\<forall>v \<in> set units. present f v \<longrightarrow> delivered leaves ty f v (ms_fs s)))"

lemma tidy_RemoveAll:
  assumes sep: "separate restore units" and u: "u \<in> set units" "u \<notin> set us" "set us \<subseteq> set units"
    and q: "q \<in> places u" "present f u \<Longrightarrow> q \<notin> {mu_dst u, mu_anchor u}" "\<not> skipUnit u \<or> q \<noteq> mu_src u"
    and st: "tidyState leaves ty f units us s" and run: "RemoveAll q s = (r, t)"
  shows "tidyState leaves ty f units us t"
proof -
  have "q \<in> allPlaces units" using places_all[OF u(1)] q(1) by auto
  note k = RemoveAll_run(1,2)[OF _ this run]
  have W: "{q} \<subseteq> places u" using q(1) by simp
  have g: "good (allPlaces units) (copyPlaces units) s" using st by (simp add: tidyState_def)
  have "\<forall>v \<in> set us. atBak f v (ms_fs t)" using st by (intro atBak_step[OF sep u(1) W k(2)[OF g] u(3,2)]) (simp add: tidyState_def)
  moreover have "\<forall>v \<in> set units. present f v \<longrightarrow> delivered leaves ty f v (ms_fs t)"
    using st q by (intro delivered_step[OF sep u(1) W k(2)[OF g]]) (auto simp: tidyState_def)
  ultimately show ?thesis using k(1)[OF g] by (simp add: tidyState_def)
qed

lemma present_link_src:
  assumes "wellPlaced units f" "u \<in> set units" "present f u" "isLink (lGet f (mu_anchor u))"
  shows "mu_src u \<noteq> mu_anchor u"
proof -
  have "mu_src u \<noteq> []" using assms(1,2) by (auto simp: wellPlaced_def phys_def)
  then have "lGet f (mu_src u) = Some LDir \<or> (\<exists>c. lGet f (mu_src u) = Some (LFile c))"
    using EvalSymlinks_phys[of f "mu_anchor u" "mu_src u"] assms(3) by (simp add: present_def)
  then show ?thesis using assms(4) by (auto simp: isLink_def)
qed

lemma deleteOld_run:
  assumes sep: "separate False units" and wp: "wellPlaced units f"
    and "set us \<subseteq> {u \<in> set units. \<not> skipUnit u}" "distinct us" "tidyState leaves ty f units us s" "deleteOld us s = (r, t)"
  shows "tidyState leaves ty f units [] t"
  using assms(3-)
proof (induction us arbitrary: s)
  case Nil
  then show ?case by (simp add: mReturn_run)
next
  case (Cons u us)
  have u: "u \<in> set units" "\<not> skipUnit u" "u \<notin> set us" and us: "set us \<subseteq> set units" "set us \<subseteq> {u \<in> set units. \<not> skipUnit u}" "distinct us"
    using Cons.prems(1,2) by auto
  have weaken: "tidyState leaves ty f units [] s'" if "tidyState leaves ty f units us s'" for s' using that by (simp add: tidyState_def)
  have st: "tidyState leaves ty f units us s" using Cons.prems(3) by (simp add: tidyState_def)
  have "phys (ms_fs s) (backupAnchor u)" using Cons.prems(3) places_all[OF u(1)] by (auto simp: tidyState_def good_def places_def)
  then have "lLstat (ms_fs s) (backupAnchor u) = lGet f (mu_anchor u)"
    using Cons.prems(3) sameAt_get[of f "mu_anchor u" "ms_fs s"] by (simp add: lLstat_phys tidyState_def)
  then have run: "mBind (if isLink (lGet f (mu_anchor u)) then RemoveAll (mu_src u) else mReturn True) (\<lambda>_.
     mBind (RemoveAll (backupAnchor u)) (\<lambda>_. mBind (RemoveAll (dstOld u)) (\<lambda>_. deleteOld us))) s = (r, t)"
    using Cons.prems(4) by simp
  have 1: "tidyState leaves ty f units us s1" if "(if isLink (lGet f (mu_anchor u)) then RemoveAll (mu_src u) else mReturn True) s = (x, s1)" for x s1
  proof (cases "isLink (lGet f (mu_anchor u))")
    case True
    then show ?thesis using that tidy_RemoveAll[OF sep u(1,3) us(1) _ _ _ st, of "mu_src u"] present_link_src[OF wp u(1)] u(2)
      by (auto simp: skipUnit_def)
  qed (use that st in \<open>simp add: mReturn_run\<close>)
  have bak: "backupAnchor u \<notin> {mu_dst u, mu_anchor u}" "dstOld u \<notin> {mu_dst u, mu_anchor u}"
    using separateD[OF sep u(1)] by (auto simp: tgt_def)
  note 2 = tidy_RemoveAll[OF sep u(1,3) us(1) in_places(5) bak(1)] and 3 = tidy_RemoveAll[OF sep u(1,3) us(1) in_places(3) bak(2)]
  from run show ?case
  proof (cases rule: mBind_runE)
    case stopped
    then show ?thesis using 1 weaken by blast
  next
    case (goes x s1)
    note s1 = 1[OF goes(1)]
    from goes(2) show ?thesis
    proof (cases rule: mBind_runE)
      case stopped
      then show ?thesis using 2 s1 u(2) weaken by blast
    next
      case (goes y s2)
      have s2: "tidyState leaves ty f units us s2" using 2 s1 u(2) goes(1) by blast
      from goes(2) show ?thesis
      proof (cases rule: mBind_runE)
        case stopped
        then show ?thesis using 3 s2 u(2) weaken by blast
      next
        case (goes z s3)
        have "tidyState leaves ty f units us s3" using 3 s2 u(2) goes(1) by blast
        then show ?thesis using Cons.IH[OF us(2,3) _ goes(2)] by simp
      qed
    qed
  qed
qed

lemma deleteSources_run:
  assumes sep: "separate True units" and "set us \<subseteq> set units" "tidyState leaves ty f units [] s" "deleteSources us s = (r, t)"
  shows "tidyState leaves ty f units [] t"
  using assms(2-)
proof (induction us arbitrary: s)
  case Nil
  then show ?case by (simp add: mReturn_run)
next
  case (Cons u us)
  have u: "u \<in> set units" and us: "set us \<subseteq> set units" using Cons.prems(1) by auto
  have da: "mu_dst u = mu_anchor u" using separateD(3)[OF sep u] by simp
  have 1: "tidyState leaves ty f units [] s1" if "(if mu_src u \<noteq> mu_anchor u then RemoveAll (mu_src u) else mReturn True) s = (x, s1)" for x s1
  proof (cases "mu_src u = mu_anchor u")
    case False
    have "disjoint (mu_src u) (mu_dst u)" using separate_disjoint[OF sep u u, of "mu_src u" "mu_dst u"] False da by simp
    then have "\<not> skipUnit u" using False da by (auto simp: skipUnit_def disjoint_def strict_prefix_def)
    then show ?thesis using that False da tidy_RemoveAll[OF sep u _ _ _ _ _ Cons.prems(2), of "mu_src u"] by simp
  qed (use that Cons.prems(2) in \<open>simp add: mReturn_run\<close>)
  from Cons.prems(3) have "mBind (if mu_src u \<noteq> mu_anchor u then RemoveAll (mu_src u) else mReturn True) (\<lambda>_. deleteSources us) s = (r, t)" by simp
  then show ?case
  proof (cases rule: mBind_runE)
    case (goes x s1)
    then show ?thesis using Cons.IH[OF us 1[OF goes(1)] goes(2)] by simp
  qed (use 1 in blast)
qed

section \<open>The anchor phase\<close>

interpretation cu: mg_relation "\<lambda>s t. ms_cleanups s = [] \<longrightarrow> ms_cleanups t = []"
  by unfold_locales auto

lemma clean_calls:
  "cu.keeps (mCall h)" "cu.keeps (mTree h2)" "cu.keeps (RemoveAll p)" "cu.keeps (osRemoveEntry p)" "cu.keeps (osRename p q)"
  "cu.keeps (osSymlink p q)" "cu.keeps (osMkdirAll p)" "cu.keeps (updateJob j k)" "cu.keeps (restartStoppedServices ty)"
  by (auto simp: cu.keeps_def mCall_def mTree_def RemoveAll_def osRemoveEntry_def osRename_def osSymlink_def osMkdirAll_def nextTick_def
      updateJob_def restartStoppedServices_def mModify_def split: tick.splits option.splits prod.splits)

lemmas clean_intros = cu.keeps_bind cu.keeps_return cu.keeps_get clean_calls

lemma clean_rollbacks: "cu.keeps (rollbackCopies restore us)" "cu.keeps (rollbackSwaps us)"
proof -
  show "cu.keeps (rollbackCopies restore us)"
    by (induction us) (auto simp: rollbackCopy_def intro!: clean_intros)
  show "cu.keeps (rollbackSwaps us)" by (induction us) (auto intro!: clean_intros)
qed

lemma clean_failSwap: "cu.keeps (failSwap ty pr sw)"
  unfolding failSwap_def by (intro clean_intros clean_rollbacks)

lemma clean_swapLoop: "cu.keeps (swapLoop ty pr sw us)"
  by (induction us arbitrary: sw) (auto intro!: clean_intros clean_failSwap)

lemma clean_deletes: "cu.keeps (deleteOld us)" "cu.keeps (deleteSources us)"
  by (induction us) (auto intro!: clean_intros)

lemma clean_anchorPhase: "cu.keeps (anchorPhase ty restore units pr)"
proof -
  have "cu.keeps clearCleanups" by (simp add: cu.keeps_def clearCleanups_def mModify_def)
  then show ?thesis unfolding anchorPhase_def
    by (auto intro!: cu.keeps_bind clean_deletes clean_swapLoop cu.keeps_return split: sum.splits)
qed

text \<open>All phases write only places of the units.\<close>

lemma within_swaps:
  assumes sep: "separate False units" and pr: "set pr \<subseteq> {u \<in> set units. \<not> skipUnit u}"
  shows "set us \<subseteq> set units \<Longrightarrow> set sw \<subseteq> set units \<Longrightarrow> wi.keeps (allPlaces units) C (allPlaces units) (swapLoop ty pr sw us)"
proof (induction us arbitrary: sw)
  case Nil
  then show ?case by (simp add: wi.keeps_return)
next
  case (Cons u us)
  let ?R = "allPlaces units"
  have u: "mu_anchor u \<in> ?R" "backupAnchor u \<in> ?R" "mu_anchor u \<noteq> backupAnchor u"
    using Cons.prems(1) places_all[of u units] separateD(4)[OF sep, of u] by auto
  have "wi.keeps ?R C ?R (rollbackSwaps vs)" if "set vs \<subseteq> set units" for vs
    using that
  proof (induction vs)
    case (Cons v vs)
    have "mu_anchor v \<in> ?R" "backupAnchor v \<in> ?R" "mu_anchor v \<noteq> backupAnchor v"
      using Cons.prems places_all[of v units] separateD(4)[OF sep, of v] by auto
    then show ?case using Cons by (auto intro!: within_calls)
  qed (simp add: wi.keeps_return)
  moreover have "tgt v \<subseteq> ?R \<and> dstOld v \<noteq> mu_dst v" if "v \<in> set (rev pr)" for v
  proof -
    have "v \<in> set units" using pr that by auto
    then show ?thesis using places_all[of v units] tgt_places[of v] separateD(1)[OF sep, of v] by auto
  qed
  ultimately have "wi.keeps ?R C ?R (failSwap ty pr sw :: (migErr, migrateUnit list) result mg)"
    unfolding failSwap_def using Cons.prems(2) by (intro wi.keeps_bind within_rollbackCopies within_restart wi.keeps_return) auto
  then show ?case using Cons u by (auto intro!: within_calls simp del: mBind_now)
qed

lemma within_deletes:
  assumes "set us \<subseteq> set units"
  shows "wi.keeps (allPlaces units) C (allPlaces units) (deleteOld us)" "wi.keeps (allPlaces units) C (allPlaces units) (deleteSources us)"
proof -
  have "mu_src u \<in> allPlaces units" "backupAnchor u \<in> allPlaces units" "dstOld u \<in> allPlaces units" if "u \<in> set us" for u
    using places_all[of u units] that assms by (auto simp: places_def tgt_def)
  then show "wi.keeps (allPlaces units) C (allPlaces units) (deleteOld us)" "wi.keeps (allPlaces units) C (allPlaces units) (deleteSources us)"
    using assms by (induction us) (auto intro!: within_calls)
qed

end
