(* ===== verification/MigrateProps.thy ===== *)
theory MigrateProps
  imports MigrateSwap
begin

text \<open>
  The properties of a whole migration: no data is lost in any outcome, a successful migration delivers every unit, and histories in
  which the code leaves a working system in a worse state.
\<close>

section \<open>The phases together\<close>

text \<open>The data of a unit is at its source, at the backup of its anchor, or has arrived.\<close>

definition safe :: "(string \<Rightarrow> string list \<Rightarrow> string list \<Rightarrow> bool) \<Rightarrow> string \<Rightarrow> lfs \<Rightarrow> migrateUnit \<Rightarrow> lfs \<Rightarrow> bool" where
  "safe leaves ty f u g =
     (sameAt f (mu_src u) g (mu_src u) \<or> (mu_src u = mu_anchor u \<and> sameAt f (mu_src u) g (backupAnchor u)) \<or> arrived leaves ty f u g)"

lemma recoverable_safe: "recoverable f u g \<Longrightarrow> safe leaves ty f u g"
  by (auto simp: recoverable_def safe_def split: if_splits)

lemma delivered_safe: "delivered leaves ty f u g \<Longrightarrow> safe leaves ty f u g"
  by (auto simp: delivered_def safe_def split: if_splits)

definition allSafe :: "(string \<Rightarrow> string list \<Rightarrow> string list \<Rightarrow> bool) \<Rightarrow> string \<Rightarrow> lfs \<Rightarrow> migrateUnit list \<Rightarrow> lfs \<Rightarrow> bool" where
  "allSafe leaves ty f units g = (\<forall>v \<in> set units. present f v \<longrightarrow> safe leaves ty f v g)"

definition allDelivered :: "(string \<Rightarrow> string list \<Rightarrow> string list \<Rightarrow> bool) \<Rightarrow> string \<Rightarrow> lfs \<Rightarrow> migrateUnit list \<Rightarrow> lfs \<Rightarrow> bool" where
  "allDelivered leaves ty f units g = (\<forall>v \<in> set units. present f v \<longrightarrow> delivered leaves ty f v g)"

lemma allDelivered_safe: "allDelivered leaves ty f units g \<Longrightarrow> allSafe leaves ty f units g"
  by (simp add: allDelivered_def allSafe_def delivered_safe)

lemma copies_safe:
  "separate restore units \<Longrightarrow> agree (copyPlaces units) f g \<Longrightarrow> allSafe leaves ty f units g"
  by (simp add: allSafe_def safe_def src_kept_by_copies)

lemma skip_is_same:
  assumes "separate False units" "u \<in> set units" "skipUnit u"
  shows "mu_src u = mu_dst u" "mu_src u \<noteq> mu_anchor u"
proof -
  have "mu_src u = mu_dst u \<or> disjoint (mu_src u) (mu_dst u)" using separate_disjoint[OF assms(1,2,2), of "mu_src u" "mu_dst u"] by auto
  then show e: "mu_src u = mu_dst u" using assms(3) by (auto simp: skipUnit_def disjoint_def strict_prefix_def)
  show "mu_src u \<noteq> mu_anchor u" using separateD(3)[OF assms(1,2)] e by simp
qed

lemma anchorPhase_run:
  assumes sep: "separate restore units" and wp: "wellPlaced units f" and pr: "set pr \<subseteq> {u \<in> set units. \<not> skipUnit u}"
    and done0: "\<forall>v \<in> set units. present f v \<longrightarrow> \<not> skipUnit v \<longrightarrow> v \<in> set pr" "copyDone leaves ty f pr (ms_fs s)"
    and g: "good (allPlaces units) (copyPlaces units) s" "agree (copyPlaces units) f (ms_fs s)"
    and run: "anchorPhase ty restore units pr s = (r, t)"
  shows "ms_cleanups t = [] \<and> good (allPlaces units) (copyPlaces units) t \<and> agree (allPlaces units) f (ms_fs t) \<and> allSafe leaves ty f units (ms_fs t)
    \<and> (r = Some (Inr ()) \<longrightarrow> allDelivered leaves ty f units (ms_fs t))"
proof -
  let ?R = "allPlaces units" and ?C = "copyPlaces units" and ?s = "s\<lparr>ms_cleanups := []\<rparr>"
  let ?rest = "if restore then mBind (deleteSources units) (\<lambda>_. mReturn (Inr ()))
     else mBind (swapLoop ty pr [] units) (\<lambda>r. case r of Inl e \<Rightarrow> mReturn (Inl e)
            | Inr swapped \<Rightarrow> mBind (deleteOld swapped) (\<lambda>_. mReturn (Inr ())))"
  have rest: "?rest ?s = (r, t)" using run by (simp add: anchorPhase_def clearCleanups_def split: if_splits)
  have g': "good ?R ?C ?s" using g(1) by (simp add: good_def)
  have cl: "ms_cleanups t = []"
  proof -
    have "cu.keeps ?rest" by (auto intro!: cu.keeps_bind clean_deletes clean_swapLoop cu.keeps_return split: sum.splits)
    from cu.keeps_run[OF this rest] show ?thesis by simp
  qed
  show ?thesis
  proof (cases restore)
    case True
    have sepT: "separate True units" using sep True by simp
    have "delivered leaves ty f v (ms_fs s)" if v: "v \<in> set units" "present f v" for v
    proof (cases "skipUnit v")
      case True
      then show ?thesis using src_kept_by_copies[OF sepT v(1) g(2)] by (simp add: delivered_def)
    next
      case False
      then have "copied leaves ty f (mu_src v) (ms_fs s) (mu_dst v)" using done0 v by (simp add: copyDone_def)
      then show ?thesis using False separateD(3)[OF sepT v(1)] by (simp add: delivered_def arrived_def)
    qed
    then have ti: "tidyState leaves ty f units [] ?s" using g' by (simp add: tidyState_def)
    have "wi.keeps ?R ?C ?R (mBind (deleteSources units) (\<lambda>_. mReturn (Inr () :: (migErr, unit) result)))"
      by (intro wi.keeps_bind wi.keeps_return within_deletes) simp
    then have "within ?R ?C ?R ?s t" by (rule wi.keeps_run) (use rest True in simp)
    then have "agree ?R (ms_fs ?s) (ms_fs t)" using g' by (simp add: within_def)
    then have a: "agree ?R f (ms_fs t)" using agree_trans[OF agree_mono[OF g(2) copyPlaces_all]] by simp
    have "\<exists>r'. deleteSources units ?s = (r', t)"
      using rest True by (auto simp: mReturn_run elim!: mBind_runE)
    then have "tidyState leaves ty f units [] t" using deleteSources_run[OF sepT order_refl ti] by blast
    then show ?thesis using a cl allDelivered_safe by (auto simp: tidyState_def allDelivered_def)
  next
    case False
    have sepF: "separate False units" using sep False by simp
    have rc: "recoverable f v f" for v by (simp add: recoverable_def sameAt_refl)
    have an: "sameAt f (mu_anchor v) (ms_fs s) (mu_anchor v)" if "v \<in> set units" for v
      using copies_disjoint[OF sepF that, of "mu_anchor v"] by (intro agree_sameAt[OF g(2)]) simp
    have st: "swapState leaves ty f units pr [] units ?s"
      using g' recoverable_copies[OF sepF _ g(2) rc] an done0(2) by (simp add: swapState_def)
    have rest': "mBind (swapLoop ty pr [] units) (\<lambda>r. case r of Inl e \<Rightarrow> mReturn (Inl e)
            | Inr swapped \<Rightarrow> mBind (deleteOld swapped) (\<lambda>_. mReturn (Inr ()))) ?s = (r, t)" using rest False by simp
    have sl: "good ?R ?C s1 \<and> agree ?R f (ms_fs s1) \<and> (\<forall>v \<in> set units. recoverable f v (ms_fs s1))
        \<and> (\<forall>sw. x = Some (Inr sw) \<longrightarrow> set sw \<subseteq> {u \<in> set units. \<not> skipUnit u} \<and> distinct sw \<and> tidyState leaves ty f units sw s1)"
      if "swapLoop ty pr [] units ?s = (x, s1)" for x s1
    proof -
      have ds: "distinct ([] @ units)" using sepF by (simp add: separate_def)
      note S = swapLoop_run[OF sepF wp pr _ order_refl ds st that]
      have "within ?R ?C ?R ?s s1" by (rule wi.keeps_run[OF within_swaps[OF sepF pr order_refl] that]) simp
      then have "agree ?R f (ms_fs s1)" using g' agree_trans[OF agree_mono[OF g(2) copyPlaces_all]] by (simp add: within_def)
      moreover have "tidyState leaves ty f units sw s1" if x: "x = Some (Inr sw)" for sw
      proof -
        have sw: "swapState leaves ty f units pr sw [] s1" "\<forall>v \<in> set units. present f v \<longrightarrow> \<not> skipUnit v \<longrightarrow> v \<in> set sw" using S x by auto
        have "delivered leaves ty f v (ms_fs s1)" if v: "v \<in> set units" "present f v" for v
          using sw v done0(1) skip_is_same[OF sepF v(1)]
          by (auto simp: delivered_def arrived_def copyDone_def swapState_def recoverable_def split: if_splits)
        then show ?thesis using sw(1) by (simp add: tidyState_def swapState_def)
      qed
      ultimately show ?thesis using S by simp
    qed
    from rest' show ?thesis
    proof (cases rule: mBind_runE)
      case stopped
      then show ?thesis using sl[OF stopped(1)] cl recoverable_safe by (auto simp: allSafe_def)
    next
      case (goes x s1)
      note 1 = sl[OF goes(1)]
      show ?thesis
      proof (cases x)
        case (Inl e)
        then show ?thesis using 1 goes(2) cl recoverable_safe by (auto simp: allSafe_def mReturn_run)
      next
        case (Inr sw)
        then obtain r' where d: "deleteOld sw s1 = (r', t)" using goes(2) by (auto simp: mReturn_run elim!: mBind_runE)
        have "tidyState leaves ty f units [] t" using deleteOld_run[OF sepF wp _ _ _ d] 1 Inr by blast
        moreover have "within ?R ?C ?R s1 t" by (rule wi.keeps_run[OF within_deletes(1) d]) (use 1 Inr in auto)
        ultimately show ?thesis using 1 cl agree_trans[of ?R f "ms_fs s1"] allDelivered_safe
          by (auto simp: tidyState_def within_def allDelivered_def)
      qed
    qed
  qed
qed

lemma finalize_run:
  assumes sep: "separate restore units" and wp: "wellPlaced units f" and g: "good (allPlaces units) (copyPlaces units) s"
    and a: "agree (allPlaces units) f (ms_fs s)" and c: "ms_cleanups s = []" and d: "allDelivered leaves ty f units (ms_fs s)"
    and run: "finalize ty newPath restore units cfg ids s = (r, t)"
  shows "ms_cleanups t = [] \<and> allDelivered leaves ty f units (ms_fs t)"
proof -
  let ?R = "allPlaces units \<union> legacyPlaces"
  have ap: "apart ?R" "allPlaces units \<inter> legacyPlaces = {}" using sep by (auto simp: separate_def)
  have ph: "phys (ms_fs s) p" if "p \<in> ?R" for p
  proof -
    have "phys f p" using wp that by (auto simp: wellPlaced_def allPlaces_def)
    then show ?thesis using phys_agree[OF ap(1) _ a that] by simp
  qed
  have g': "good ?R (copyPlaces units) s" using g ap(1) ph by (auto simp: good_def)
  have "wi.keeps ?R (copyPlaces units) legacyPlaces (finalize ty newPath restore units cfg ids)"
    unfolding finalize_def dropLegacyLink_def Let_def updateDockerConfig_def updateContainerdConfig_def startContainersAfterMigration_def
    by (auto intro!: within_calls within_call within_modify simp: legacyPlaces_def good_def agree_refl simp del: mBind_now)
  from wi.keeps_run[OF this run] have ag: "agree legacyPlaces (ms_fs s) (ms_fs t)" using g' by (simp add: within_def)
  have "untouched (ms_fs s) v (ms_fs t)" if "v \<in> set units" for v
    unfolding untouched_def
  proof
    fix p assume "p \<in> places v"
    then have "p \<in> allPlaces units" using places_all[OF that] by auto
    then have "disjoint p q" if "q \<in> legacyPlaces" for q
    proof -
      have "p \<noteq> q" using \<open>p \<in> allPlaces units\<close> that ap(2) by (metis disjoint_iff)
      then show ?thesis using \<open>p \<in> allPlaces units\<close> that ap(1) unfolding apart_def by (meson UnI1 UnI2)
    qed
    then show "sameAt (ms_fs s) p (ms_fs t) p" by (rule agree_sameAt[OF ag])
  qed
  then have "allDelivered leaves ty f units (ms_fs t)" using d delivered_untouched unfolding allDelivered_def by blast
  moreover have ck: "cu.keeps (finalize ty newPath restore units cfg ids)"
    unfolding finalize_def dropLegacyLink_def Let_def SavePathConfig_def updateDockerConfig_def updateContainerdConfig_def startContainersAfterMigration_def
    by (auto intro!: clean_intros simp: cu.keeps_def[of "mModify _"] mModify_def simp del: mBind_now)
  then have "ms_cleanups t = []" using cu.keeps_run[OF ck run] c by blast
  ultimately show ?thesis by simp
qed

text \<open>What a run of the migration proper guarantees, by outcome.\<close>

definition outcomeOk :: "(string \<Rightarrow> string list \<Rightarrow> string list \<Rightarrow> bool) \<Rightarrow> string \<Rightarrow> lfs \<Rightarrow> migrateUnit list
    \<Rightarrow> (migErr, string) result option \<Rightarrow> migState \<Rightarrow> bool" where
  "outcomeOk leaves ty f units r t =
     (case r of
        None \<Rightarrow> (good (allPlaces units) (copyPlaces units) t \<and> agree (copyPlaces units) f (ms_fs t))
               \<or> (ms_cleanups t = [] \<and> allSafe leaves ty f units (ms_fs t))
      | Some (Inl _) \<Rightarrow> allSafe leaves ty f units (ms_fs t)
      | Some (Inr _) \<Rightarrow> allDelivered leaves ty f units (ms_fs t))"

lemma mBind_jobs [simp]:
  "mBind (setPhase j p) k s = k () (snd (setPhase j p s))" "mBind (updateProgress j a b c) k s = k () (snd (updateProgress j a b c s))"
  "mBind (setStoppingApps j n) k s = k () (snd (setStoppingApps j n s))" "mBind (restartStoppedServices ty) k s = k () (snd (restartStoppedServices ty s))"
  by (simp_all add: mBind_def setPhase_def updateProgress_def setStoppingApps_def updateJob_def restartStoppedServices_def mModify_def)

lemma jobs_keep [simp]:
  "ms_fs (snd (setPhase j p s)) = ms_fs s" "ms_fs (snd (updateProgress j a b c s)) = ms_fs s" "ms_fs (snd (setStoppingApps j n s)) = ms_fs s"
  "ms_fs (snd (restartStoppedServices ty s)) = ms_fs s"
  "good R C (snd (setPhase j p s)) = good R C s" "good R C (snd (updateProgress j a b c s)) = good R C s"
  "good R C (snd (setStoppingApps j n s)) = good R C s"
  "ms_cleanups (snd (setPhase j p s)) = ms_cleanups s" "ms_cleanups (snd (setStoppingApps j n s)) = ms_cleanups s"
  by (simp_all add: setPhase_def updateProgress_def setStoppingApps_def updateJob_def restartStoppedServices_def mModify_def good_def)

lemma services_run: "\<exists>ids t. stopServices E jobID ty s = (Some ids, t) \<and> ms_fs t = ms_fs s \<and> (good R C s \<longrightarrow> good R C t)"
  by (auto simp: stopServices_def mReturn_def Let_def) (simp_all add: good_def)

text \<open>From the end of the copy loop on.\<close>

lemma afterCopy_run:
  assumes sep: "separate restore units" and wp: "wellPlaced units f" and E: "rsyncOk E leaves"
    and g: "good (allPlaces units) (copyPlaces units) s" "ms_fs s = f"
    and run: "mBind (copyLoop E ty restore [] units) (\<lambda>r.
         case r of Inl e \<Rightarrow> mReturn (Inl e)
         | Inr processed \<Rightarrow>
             mBind (setPhase jobID ''starting_services'') (\<lambda>_.
             mBind (updateProgress jobID 95 sz sz) (\<lambda>_.
             mBind (anchorPhase ty restore units processed) (\<lambda>r2.
             case r2 of Inl e \<Rightarrow> mReturn (Inl e)
             | Inr _ \<Rightarrow> mBind (finalize ty newPath restore units cfg ids) (\<lambda>_. mReturn (Inr newPath)))))) s = (r, t)"
  shows "outcomeOk leaves ty f units r t"
proof -
  let ?R = "allPlaces units" and ?C = "copyPlaces units"
  have ds: "distinct units" using sep by (simp add: separate_def)
  have un: "\<forall>v \<in> set units. untouched f v (ms_fs s)" using g(2) by (simp add: untouched_def sameAt_refl)
  have nil: "set [] \<subseteq> {u \<in> set units. \<not> skipUnit u}" "set [] \<inter> set units = {}" "copyDone leaves ty f [] (ms_fs s)" by (simp_all add: copyDone_def)
  note cl = copyLoop_run[OF sep E wp nil(1) order_refl ds nil(2) g(1) un nil(3)]
  from run show ?thesis
  proof (cases rule: mBind_runE)
    case stopped
    then show ?thesis using cl[OF stopped(1)] g(2) by (simp add: outcomeOk_def)
  next
    case (goes x s1)
    note 1 = cl[OF goes(1)]
    show ?thesis
    proof (cases x)
      case (Inl e)
      then show ?thesis using goes(2) 1 g(2) copies_safe[OF sep] by (auto simp: outcomeOk_def mReturn_run)
    next
      case (Inr pr)
      define s2 where "s2 = snd (updateProgress jobID 95 sz sz (snd (setPhase jobID ''starting_services'' s1)))"
      have 2: "ms_fs s2 = ms_fs s1" "good ?R ?C s2" using 1 by (simp_all add: s2_def)
      have run2: "mBind (anchorPhase ty restore units pr) (\<lambda>r2. case r2 of Inl e \<Rightarrow> mReturn (Inl e)
             | Inr _ \<Rightarrow> mBind (finalize ty newPath restore units cfg ids) (\<lambda>_. mReturn (Inr newPath))) s2 = (r, t)"
        using goes(2) Inr by (simp add: s2_def)
      have P: "set pr \<subseteq> {u \<in> set units. \<not> skipUnit u}" "\<forall>v \<in> set units. present f v \<longrightarrow> \<not> skipUnit v \<longrightarrow> v \<in> set pr"
        "copyDone leaves ty f pr (ms_fs s2)" "agree ?C f (ms_fs s2)" using 1 2 g(2) Inr by auto
      note ap = anchorPhase_run[OF sep wp P(1,2,3) 2(2) P(4)]
      from run2 show ?thesis
      proof (cases rule: mBind_runE)
        case stopped
        then show ?thesis using ap by (simp add: outcomeOk_def)
      next
        case (goes y s3)
        note 3 = ap[OF goes(1)]
        show ?thesis
        proof (cases y)
          case (Inl e)
          then show ?thesis using goes(2) 3 by (simp add: outcomeOk_def mReturn_run)
        next
          case (Inr z)
          have fr: "ms_cleanups t' = [] \<and> allDelivered leaves ty f units (ms_fs t')" if "finalize ty newPath restore units cfg ids s3 = (r', t')" for r' t'
            using finalize_run[OF sep wp _ _ _ _ that, of leaves] 3 Inr by simp
          from goes(2) Inr have "mBind (finalize ty newPath restore units cfg ids) (\<lambda>_. mReturn (Inr newPath)) s3 = (r, t)" by simp
          then show ?thesis
            by (cases rule: mBind_runE) (use fr allDelivered_safe in \<open>auto simp: outcomeOk_def mReturn_run\<close>)
        qed
      qed
    qed
  qed
qed

lemma migrateBody_run:
  assumes sep: "separate (isSystemRestore target) units" and wp: "wellPlaced units (ms_fs s)" and E: "rsyncOk E leaves"
    and g: "good (allPlaces units) (copyPlaces units) s" and run: "migrateBody E jobID ty target cfg units s = (r, t)"
  shows "outcomeOk leaves ty (ms_fs s) units r t"
proof -
  obtain ids s1 where s1: "stopServices E jobID ty s = (Some ids, s1)" "ms_fs s1 = ms_fs s" "good (allPlaces units) (copyPlaces units) s1"
    using services_run[of E jobID ty s "allPlaces units" "copyPlaces units"] g by blast
  define s2 where "s2 = snd (updateProgress jobID 1 0 (totalSize units (ms_fs s)) (snd (setPhase jobID ''copying'' s1)))"
  have 2: "ms_fs s2 = ms_fs s" "good (allPlaces units) (copyPlaces units) s2" using s1 by (simp_all add: s2_def)
  show ?thesis
  proof (cases "spaceOk E units (ms_fs s)")
    case False
    then have "r = Some (Inl NoSpace)" "ms_fs t = ms_fs s"
      using run s1 by (auto simp: migrateBody_def Let_def mBind_def[of "stopServices _ _ _"] mReturn_run)
    then show ?thesis by (simp add: outcomeOk_def allSafe_def safe_def sameAt_refl)
  next
    case True
    show ?thesis
      by (rule afterCopy_run[OF sep wp E 2(2,1)])
        (use run True s1 in \<open>simp add: migrateBody_def Let_def mBind_def[of "stopServices _ _ _"] s2_def\<close>)
  qed
qed

text \<open>The clean-up of a stopped migration writes only its own places.\<close>

lemma cleanup_run:
  assumes "good R C s"
  shows "agree C (ms_fs s) (ms_fs (snd (CleanupActiveMigration s)))" "ms_cleanups s = [] \<Longrightarrow> ms_fs (snd (CleanupActiveMigration s)) = ms_fs s"
proof -
  have R: "C \<subseteq> R" using assms by (simp add: good_def)
  have "wi.keeps R C C (cleanupLoop cs)" if "\<forall>c \<in> set cs. mc_path c \<in> C \<and> (\<forall>a b. mc_restore c = Some (a, b) \<longrightarrow> a \<in> C)" for cs
    using that by (induction cs) (auto intro!: within_calls R split: option.splits simp del: mBind_now)
  then have "within R C C s (snd (cleanupLoop (ms_cleanups s) s))" using assms by (simp add: wi.keeps_def good_def)
  then show "agree C (ms_fs s) (ms_fs (snd (CleanupActiveMigration s)))" using assms by (simp add: CleanupActiveMigration_def within_def)
  show "ms_cleanups s = [] \<Longrightarrow> ms_fs (snd (CleanupActiveMigration s)) = ms_fs s" by (simp add: CleanupActiveMigration_def mReturn_def)
qed

section \<open>The whole run\<close>

text \<open>
  What is assumed of the start: the units of the migration are separate and in place, the directory above the photos destination
  exists, nothing is registered for clean-up.
\<close>

definition migrationReady :: "string \<Rightarrow> string \<Rightarrow> migState \<Rightarrow> bool" where
  "migrationReady ty target s =
     (separate (isSystemRestore target) (unitsOf ty target (ms_fs s)) \<and> wellPlaced (unitsOf ty target (ms_fs s)) (ms_fs s)
      \<and> (ty = MigrateTypePhotos \<longrightarrow> isDirL (ms_fs s) (segs (Join [target, ''.system_data'']))) \<and> ms_cleanups s = [])"

lemma SavePathConfig_run: "SavePathConfig cfg s = (r, t) \<Longrightarrow> ms_fs t = ms_fs s \<and> ms_cleanups t = ms_cleanups s"
  by (auto simp: SavePathConfig_def mBind_def mCall_def mModify_def nextTick_def split: tick.splits option.splits prod.splits)

lemma activePaths_run: "activePaths s = (r, t) \<Longrightarrow> ms_fs t = ms_fs s \<and> ms_cleanups t = ms_cleanups s"
  unfolding activePaths_def by (auto simp: mReturn_run elim!: mBind_runE dest: SavePathConfig_run split: option.splits)

lemma planUnits_run:
  assumes "migrationReady ty target s" "planUnits E ty target s = (r, t)"
  shows "ms_fs t = ms_fs s \<and> ms_cleanups t = ms_cleanups s \<and> (\<forall>units. r = Some (Inr units) \<longrightarrow> units = unitsOf ty target (ms_fs s))"
proof -
  have "ms_fs t1 = ms_fs s \<and> ms_cleanups t1 = ms_cleanups s"
    if "osMkdirAll (segs (Join [target, ''.system_data''])) s = (x, t1)" "ty = MigrateTypePhotos" for x t1
  proof -
    have "lMkdirAll (ms_fs s) (segs (Join [target, ''.system_data''])) = Some (ms_fs s)"
      using assms(1) that(2) by (subst lMkdirAll.simps) (simp add: migrationReady_def isDirL_def)
    then show ?thesis using that(1) by (auto simp: osMkdirAll_def mCall_def nextTick_def split: tick.splits)
  qed
  then show ?thesis using assms(2)
    by (auto simp: planUnits_def mReturn_run elim!: mBind_runE split: if_splits)
qed

lemma executeMigration_run:
  assumes ready: "migrationReady ty target s" and E: "rsyncOk E leaves" and run: "executeMigration E jobID ty target s = (r, t)"
  shows "outcomeOk leaves ty (ms_fs s) (unitsOf ty target (ms_fs s)) r t"
proof -
  let ?f = "ms_fs s" and ?units = "unitsOf ty target (ms_fs s)"
  have sep: "separate (isSystemRestore target) ?units" and wp: "wellPlaced ?units ?f" and cl: "ms_cleanups s = []"
    using ready by (simp_all add: migrationReady_def)
  have same: "outcomeOk leaves ty ?f ?units r' t'" if "ms_fs t' = ?f" "ms_cleanups t' = []" "\<And>p. r' \<noteq> Some (Inr p)" for r' t'
    using that by (cases r') (auto simp: outcomeOk_def allSafe_def safe_def sameAt_refl split: sum.splits)
  from run show ?thesis unfolding executeMigration_def
  proof (cases rule: mBind_runE)
    case stopped
    then show ?thesis using activePaths_run cl by (intro same) auto
  next
    case (goes cfg s1)
    note 1 = activePaths_run[OF goes(1)]
    have ready1: "migrationReady ty target s1" using ready 1 by (simp add: migrationReady_def)
    from goes(2) show ?thesis
    proof (cases rule: mBind_runE)
      case stopped
      then show ?thesis using planUnits_run[OF ready1] 1 cl by (intro same) auto
    next
      case (goes x s2)
      note 2 = planUnits_run[OF ready1 goes(1)]
      show ?thesis
      proof (cases x)
        case (Inl e)
        then show ?thesis using goes(2) 1 2 cl by (intro same) (auto simp: mReturn_run)
      next
        case (Inr units)
        then have U: "units = ?units" using 1 2 by simp
        let ?s3 = "s2\<lparr>ms_lockFile := True, ms_cleanups := map (\<lambda>u. \<lparr>mc_path = staging u, mc_restore = None\<rparr>) (movingUnits units)\<rparr>"
        show ?thesis
        proof (cases "isSystemRestore target \<and> brokenAnchor units (ms_fs s2)")
          case True
          then show ?thesis using goes(2) Inr 1 2 cl by (intro same) (auto simp: mReturn_run)
        next
          case False
          then have run3: "mBind (migrateBody E jobID ty target cfg units) (\<lambda>res.
              mBind (mModify (\<lambda>s. s\<lparr>ms_lockFile := False, ms_cleanups := []\<rparr>)) (\<lambda>_. mReturn res)) ?s3 = (r, t)"
            using goes(2) Inr by (simp del: mBind_now(3) split: if_splits)
          have "good (allPlaces units) (copyPlaces units) ?s3"
            using sep wp 1 2 unfolding U good_def
            by (auto simp: separate_def apart_def wellPlaced_def allPlaces_def copyPlaces_def movingUnits_def places_def)
          moreover have "wellPlaced units (ms_fs ?s3)" using wp 1 2 U by simp
          ultimately have body: "outcomeOk leaves ty ?f units r' t'" if "migrateBody E jobID ty target cfg units ?s3 = (r', t')" for r' t'
            using migrateBody_run[OF _ _ E _ that] sep 1 2 U by simp
          from run3 show ?thesis
          proof (cases rule: mBind_runE)
            case stopped
            then show ?thesis using body U by simp
          next
            case (goes res s4)
            have "r = Some res" "ms_fs t = ms_fs s4" using goes(2) by (auto simp: mReturn_run)
            then show ?thesis using body[OF goes(1)] U by (simp add: outcomeOk_def split: sum.splits)
          qed
        qed
      qed
    qed
  qed
qed

section \<open>A concrete migration\<close>

text \<open>A copy that leaves nothing out.\<close>

definition plainRsync :: "string \<Rightarrow> string list \<Rightarrow> string list \<Rightarrow> lfs \<Rightarrow> bool \<times> lfs" where
  "plainRsync ty p q f = (True, map (\<lambda>e. (q @ drop (length p) (fst e), snd e)) (filter (\<lambda>e. prefix p (fst e)) f) @ f)"

definition plainEnv :: migEnv where
  "plainEnv = \<lparr>mv_rsync = plainRsync, mv_statfs = \<lambda>_ _. Some (2 ^ 40), mv_containers = None, mv_photosConf = None\<rparr>"

lemma plainRsync_ok: "rsyncOk plainEnv (\<lambda>_ _ _. False)"
proof -
  have m: "map_of (map (\<lambda>e. (q @ drop (length p) (fst e), snd e)) (filter (\<lambda>e. prefix p (fst e)) f)) x =
      (if prefix q x then map_of f (p @ drop (length q) x) else None)" for f :: lfs and p q x :: "string list"
  proof (induction f)
    case (Cons e f)
    then show ?case by (cases e) (auto simp: prefix_def, metis)
  qed simp
  have "agree {q} f (snd (plainRsync ty p q f))" for ty p q f
    by (auto simp: agree_def plainRsync_def lGet_def map_add_def m)
  moreover have "lGet (snd (plainRsync ty p q f)) (q @ r) = Some n" if "lGet f (p @ r) = Some n" "disjoint p q" for ty p q f r n
    using that by (cases "p = []") (auto simp: plainRsync_def lGet_def map_add_def m disjoint_def)
  ultimately show ?thesis by (simp add: rsyncOk_def plainEnv_def)
qed

definition demoDisk :: lfs where
  "demoDisk = [([''DATA''], LDir), ([''DATA'', ''AppData''], LDir), ([''DATA'', ''AppData'', ''a''], LFile ''x''),
     ([''mnt''], LDir), ([''mnt'', ''d''], LDir), ([''mnt'', ''d'', ''AppData''], LDir), ([''mnt'', ''d'', ''AppData'', ''own''], LFile ''y''),
     ([''var''], LDir), ([''var'', ''lib''], LDir)]"

definition demoState :: "tick list \<Rightarrow> migState" where
  "demoState ts = \<lparr>ms_fs = demoDisk, ms_ticks = ts, ms_cleanups = [], ms_lockFile = False, ms_docker = True, ms_photos = True, ms_started = [],
     ms_dockerRoot = None, ms_containerdRoot = None, ms_jobs = Map.empty, ms_config = None\<rparr>"

definition demoUnit :: migrateUnit where
  "demoUnit = \<lparr>mu_anchor = [''DATA'', ''AppData''], mu_src = [''DATA'', ''AppData''], mu_dst = [''mnt'', ''d'', ''AppData'']\<rparr>"

lemma demo_units: "unitsOf MigrateTypeAppData ''/mnt/d'' demoDisk = [demoUnit]"
  by code_simp

lemma phys_prefixes: "phys f p \<longleftrightarrow> p \<noteq> [] \<and> list_all (\<lambda>n. lGet f (take n p) = Some LDir) [0..<length p]"
proof -
  have "strict_prefix q p \<longleftrightarrow> (\<exists>n < length p. q = take n p)" for q
  proof
    assume "strict_prefix q p"
    then obtain zs where "p = q @ zs" "zs \<noteq> []" by (auto simp: strict_prefix_def prefix_def)
    then show "\<exists>n < length p. q = take n p" by (intro exI[of _ "length q"]) simp
  next
    assume "\<exists>n < length p. q = take n p"
    then show "strict_prefix q p" by (auto simp: strict_prefix_def take_is_prefix dest!: arg_cong[of _ _ length])
  qed
  then have "(\<forall>q. strict_prefix q p \<longrightarrow> lGet f q = Some LDir) \<longleftrightarrow> (\<forall>n < length p. lGet f (take n p) = Some LDir)" by metis
  then show ?thesis by (auto simp: phys_def list_all_iff)
qed

lemma types_distinct: "MigrateTypeAppData \<noteq> MigrateTypePhotos"
  by (simp add: MigrateTypeAppData_def MigrateTypePhotos_def)

lemma demo_ready: "migrationReady MigrateTypeAppData ''/mnt/d'' (demoState ts)"
proof -
  have "separate False [demoUnit]"
    by (simp add: separate_def allPlaces_def places_def tgt_def sfx_def demoUnit_def apart_def disjoint_def legacyPlaces_def)
  moreover have "wellPlaced [demoUnit] demoDisk"
    by (simp add: wellPlaced_def places_def tgt_def sfx_def demoUnit_def phys_prefixes legacyPlaces_def demoDisk_def lGet_def isLink_def
        EvalSymlinks_def upt_rec)
  ultimately show ?thesis
    using types_distinct by (simp add: migrationReady_def demoState_def demo_units isSystemRestore_def)
qed

section \<open>Properties\<close>





text \<open>
  A successful migration destroys what was at the destination: the files the target disk already had under the name of the
  unit are moved aside and then deleted with the old data.
\<close>

theorem migration_erases_destination:
  "lGet demoDisk [''mnt'', ''d'', ''AppData'', ''own''] = Some (LFile ''y'')
   \<and> (case executeMigration plainEnv ''j'' MigrateTypeAppData ''/mnt/d'' (demoState []) of (r, t) \<Rightarrow>
        r = Some (Inr ''/DATA/AppData'') \<and> list_all (\<lambda>e. snd e \<noteq> LFile ''y'') (ms_fs t))"
  by code_simp

text \<open>The anchor links to a disk that is not mounted.\<close>

definition unmountedState :: migState where
  "unmountedState = (demoState [])\<lparr>ms_fs :=
     [([''DATA''], LDir), ([''DATA'', ''AppData''], LLink [''mnt'', ''e'', ''AppData'']), ([''mnt''], LDir), ([''mnt'', ''d''], LDir), ([''mnt'', ''e''], LDir)]\<rparr>"

text \<open>
  Migrating data whose disk is not mounted reports success and removes the anchor: nothing is copied, the new link is deleted
  as the old source, and no link to the old disk remains.
\<close>

theorem migration_drops_unmounted_anchor:
  "case executeMigration plainEnv ''j'' MigrateTypeAppData ''/mnt/d'' unmountedState of (r, t) \<Rightarrow>
     r = Some (Inr ''/DATA/AppData'') \<and> ms_fs t = [([''DATA''], LDir), ([''mnt''], LDir), ([''mnt'', ''d''], LDir), ([''mnt'', ''e''], LDir)]"
  by code_simp

text \<open>One of the four user directories does not exist.\<close>

definition missingFolderState :: migState where
  "missingFolderState = (demoState [])\<lparr>ms_fs :=
     [([''DATA''], LDir), ([''DATA'', ''Documents''], LDir), ([''DATA'', ''Downloads''], LDir), ([''DATA'', ''Media''], LDir), ([''mnt''], LDir), ([''mnt'', ''d''], LDir)]\<rparr>"

text \<open>
  The user data cannot be migrated while one of its directories is missing: the missing one is skipped by the copy and then fails the exchange
  of the anchors.
\<close>

theorem migration_needs_all_folders:
  "fst (executeMigration plainEnv ''j'' MigrateTypeUserData ''/mnt/d'' missingFolderState) = Some (Inl SwapFailed)"
  by code_simp

text \<open>The anchor links to a mounted disk, the data goes back to the system disk, and the signal comes between two calls.\<close>

definition restoreState :: migState where
  "restoreState = (demoState (replicate 4 Run @ [Kill (\<lambda>_. False)]))\<lparr>ms_fs :=
     [([''DATA''], LDir), ([''DATA'', ''AppData''], LLink [''mnt'', ''e'', ''AppData'']), ([''mnt''], LDir), ([''mnt'', ''e''], LDir),
      ([''mnt'', ''e'', ''AppData''], LDir)], ms_config := Some defaultPathConfig\<rparr>"

theorem restore_stopped_without_anchor:
  "lGet (ms_fs (StartMigration plainEnv ''j'' MigrateTypeAppData ''/DATA'' restoreState)) [''DATA'', ''AppData''] = None"
  by code_simp

end
