(* ===== verification/UpgradeVersion.thy ===== *)
theory UpgradeVersion
  imports Prelude "HOL-Library.List_Lexorder"
begin

text \<open>
  The version arithmetic of the update service (\<^verbatim>\<open>service/system.go\<close>): \<^verbatim>\<open>compareVersions\<close>, the compatibility rule of an
  announced version and \<^verbatim>\<open>findHighestCompatibleVersion\<close>. An index out of range is a panic, modelled as \<open>None\<close>. The lemmas
  relate both functions to the lexicographic order on the numeric components.
\<close>

section \<open>Definitions\<close>

text \<open>\<^verbatim>\<open>strconv.Atoi\<close> with its error ignored, as every caller here does: 0 for a malformed number, and the nearest 64-bit
  integer for one out of range. \<open>parseUint\<close> is the loop of \<^verbatim>\<open>strconv.ParseUint\<close> for base 10; its range error carries the value
  \<open>maxUint\<close>.\<close>

definition maxUint :: int where
  "maxUint = 2 ^ 64 - 1"

definition isDigit :: "char \<Rightarrow> bool" where
  "isDigit c = (48 \<le> (of_char c :: int) \<and> (of_char c :: int) \<le> 57)"

fun parseUint :: "int \<Rightarrow> string \<Rightarrow> int option" where
  "parseUint n [] = Some n"
| "parseUint n (c # cs) =
     (if \<not> isDigit c then None
      else if maxUint div 10 + 1 \<le> n then Some maxUint
      else let n1 = n * 10 + (of_char c - 48) in if maxUint < n1 then Some maxUint else parseUint n1 cs)"

definition Atoi :: "string \<Rightarrow> int" where
  "Atoi s =
     (let neg = (s \<noteq> [] \<and> hd s = CHR ''-'');
          r = (if s \<noteq> [] \<and> (hd s = CHR ''-'' \<or> hd s = CHR ''+'') then tl s else s) in
      case (if r = [] then None else parseUint 0 r) of
        None \<Rightarrow> 0
      | Some un \<Rightarrow> if \<not> neg \<and> 2 ^ 63 \<le> un then 2 ^ 63 - 1
                   else if neg \<and> 2 ^ 63 < un then - (2 ^ 63)
                   else if neg then - un else un)"

fun cmpLoop :: "nat list \<Rightarrow> string list \<Rightarrow> string list \<Rightarrow> int option" where
  "cmpLoop [] p1 p2 = Some 0"
| "cmpLoop (i # is) p1 p2 =
     (if i < length p1 \<and> i < length p2
      then (let n1 = Atoi (p1 ! i); n2 = Atoi (p2 ! i) in
            if n2 < n1 then Some 1 else if n1 < n2 then Some (- 1) else cmpLoop is p1 p2)
      else None)"

definition compareVersions :: "string \<Rightarrow> string \<Rightarrow> int option" where
  "compareVersions v1 v2 = cmpLoop [0..<3] (Split CHR ''.'' v1) (Split CHR ''.'' v2)"

record compatibleRule =
  Platform :: "string list"
  RuleHardwareID :: "string list"
  MinVersion :: string
  MaxVersion :: string

record versionInfo =
  Version :: string
  Changelog :: string
  DownloadURL :: string
  SHA256 :: string
  Size :: int
  Compatible :: "compatibleRule option"

fun containsString :: "string list \<Rightarrow> string \<Rightarrow> bool" where
  "containsString [] s = False"
| "containsString (item # slice) s = (if item = s then True else containsString slice s)"

text \<open>The first test that fails decides; a comparison may panic.\<close>

definition isVersionCompatible :: "versionInfo \<Rightarrow> string \<Rightarrow> string \<Rightarrow> string \<Rightarrow> bool option" where
  "isVersionCompatible v currentVersion platform hardwareID =
     (case Compatible v of
        None \<Rightarrow> Some True
      | Some r \<Rightarrow>
          if Platform r \<noteq> [] \<and> \<not> containsString (Platform r) platform then Some False
          else if RuleHardwareID r \<noteq> [] \<and> \<not> containsString (RuleHardwareID r) hardwareID then Some False
          else
            (case (if MinVersion r = [] then Some 0 else compareVersions currentVersion (MinVersion r)) of
               None \<Rightarrow> None
             | Some c1 \<Rightarrow>
                 if c1 < 0 then Some False
                 else (case (if MaxVersion r = [] then Some 0 else compareVersions currentVersion (MaxVersion r)) of
                         None \<Rightarrow> None
                       | Some c2 \<Rightarrow> Some (\<not> 0 < c2))))"

text \<open>The three-element array \<^verbatim>\<open>nums\<close>: a fourth component is written out of range.\<close>

definition versionNums :: "string \<Rightarrow> int list option" where
  "versionNums v =
     (let parts = Split CHR ''.'' v in
      if 3 < length parts then None else Some (map Atoi parts @ replicate (3 - length parts) 0))"

definition higher :: "int list \<Rightarrow> int list \<Rightarrow> bool" where
  "higher nums best =
     (best ! 0 < nums ! 0 \<or> nums ! 0 = best ! 0 \<and> best ! 1 < nums ! 1 \<or>
      nums ! 0 = best ! 0 \<and> nums ! 1 = best ! 1 \<and> best ! 2 < nums ! 2)"

fun bestLoop :: "versionInfo list \<Rightarrow> string \<Rightarrow> string \<Rightarrow> string \<Rightarrow> (versionInfo \<times> int list) option \<Rightarrow> versionInfo option option" where
  "bestLoop [] cur plat hw best = Some (map_option fst best)"
| "bestLoop (v # vs) cur plat hw best =
     (case isVersionCompatible v cur plat hw of
        None \<Rightarrow> None
      | Some False \<Rightarrow> bestLoop vs cur plat hw best
      | Some True \<Rightarrow>
          (case versionNums (Version v) of
             None \<Rightarrow> None
           | Some nums \<Rightarrow>
               bestLoop vs cur plat hw
                 (case best of
                    None \<Rightarrow> Some (v, nums)
                  | Some (b, bestNums) \<Rightarrow> if higher nums bestNums then Some (v, nums) else best)))"

definition findHighestCompatibleVersion :: "versionInfo list \<Rightarrow> string \<Rightarrow> string \<Rightarrow> string \<Rightarrow> versionInfo option option" where
  "findHighestCompatibleVersion versions currentVersion platform hardwareID =
     bestLoop versions currentVersion platform hardwareID None"

section \<open>Comparison is the order on the numeric components\<close>

text \<open>The specification: the first three components as numbers, ordered lexicographically.\<close>

definition vkey :: "string \<Rightarrow> int list" where
  "vkey v = map Atoi (take 3 (Split CHR ''.'' v))"

definition wellVersion :: "string \<Rightarrow> bool" where
  "wellVersion v = (3 \<le> length (Split CHR ''.'' v))"

definition sign3 :: "'a::linorder \<Rightarrow> 'a \<Rightarrow> int" where
  "sign3 x y = (if y < x then 1 else if x < y then - 1 else 0)"

lemma sign3_ge: "0 \<le> sign3 x y \<longleftrightarrow> y \<le> x"
  by (auto simp: sign3_def)

lemma sign3_neg: "sign3 x y < 0 \<longleftrightarrow> x < y"
  by (auto simp: sign3_def)

lemma sign3_le: "sign3 x y \<le> 0 \<longleftrightarrow> x \<le> y"
  by (auto simp: sign3_def)

lemma upto3: "[0..<3] = [0, 1, 2::nat]"
  by (simp add: upt_rec)

lemma take3: "3 \<le> length xs \<Longrightarrow> take 3 xs = [xs ! 0, xs ! 1, xs ! 2]"
  by (cases xs; cases "tl xs"; cases "tl (tl xs)") (auto simp: numeral_3_eq_3)

lemma compareVersions_vkey:
  assumes "wellVersion a" "wellVersion b"
  shows "compareVersions a b = Some (sign3 (vkey a) (vkey b))"
  using assms by (auto simp: compareVersions_def upto3 wellVersion_def vkey_def take3 sign3_def Let_def)

lemma higher_less: "length xs = 3 \<Longrightarrow> length ys = 3 \<Longrightarrow> higher xs ys \<longleftrightarrow> ys < xs"
  by (auto simp: higher_def numeral_3_eq_3 length_Suc_conv)

lemma versionNums_length: "versionNums v = Some ns \<Longrightarrow> length ns = 3"
  by (auto simp: versionNums_def Let_def split: if_splits)

lemma cmpLoop_None:
  "compareVersions a b = None \<longleftrightarrow>
     (\<exists>n < 3. n = min (length (Split CHR ''.'' a)) (length (Split CHR ''.'' b)) \<and> take n (vkey a) = take n (vkey b))"
proof -
  obtain x xs where a: "Split CHR ''.'' a = x # xs" by (cases "Split CHR ''.'' a") auto
  obtain y ys where b: "Split CHR ''.'' b = y # ys" by (cases "Split CHR ''.'' b") auto
  have ex: "(\<exists>n < 3. n = m \<and> P n) \<longleftrightarrow> m < 3 \<and> P m" for m :: nat and P by auto
  show ?thesis
    unfolding compareVersions_def upto3 vkey_def a b ex
    by (cases xs; cases ys; cases "tl xs"; cases "tl ys") (simp_all add: Let_def numeral_3_eq_3 not_less_iff_gr_or_eq)
qed

text \<open>C32. On versions with at least three components \<^verbatim>\<open>compareVersions\<close> is the three-way comparison of their first three
  components, read as numbers, in lexicographic order; and it panics exactly when one of the two versions runs out of components,
  before the third, while the components so far are equal.\<close>

theorem compareVersions_order:
  "(wellVersion a \<and> wellVersion b \<longrightarrow> compareVersions a b = Some (sign3 (vkey a) (vkey b))) \<and>
   (compareVersions a b = None \<longleftrightarrow>
     (\<exists>n < 3. n = min (length (Split CHR ''.'' a)) (length (Split CHR ''.'' b)) \<and> take n (vkey a) = take n (vkey b)))"
  using compareVersions_vkey cmpLoop_None by blast

theorem compareVersions_order_witness:
  "compareVersions ''1.10.0'' ''1.9.3'' = Some 1 \<and> compareVersions ''1.2'' ''1.2.0'' = None"
proof -
  have "wellVersion ''1.10.0''" "wellVersion ''1.9.3''" by (simp_all add: wellVersion_def)
  moreover have "vkey ''1.10.0'' = [1, 10, 0]" "vkey ''1.9.3'' = [1, 9, 3]"
    by (simp_all add: vkey_def Atoi_def isDigit_def maxUint_def Let_def)
  moreover have "vkey ''1.2'' = [1, 2]" "vkey ''1.2.0'' = [1, 2, 0]"
    by (simp_all add: vkey_def Atoi_def isDigit_def maxUint_def Let_def)
  ultimately show ?thesis
    using compareVersions_order [of "''1.10.0''" "''1.9.3''"] compareVersions_order [of "''1.2''" "''1.2.0''"]
    by (simp add: sign3_def)
qed

section \<open>The highest compatible version\<close>

text \<open>The rule of an announced version as its reader understands it.\<close>

definition satisfies :: "versionInfo \<Rightarrow> string \<Rightarrow> string \<Rightarrow> string \<Rightarrow> bool" where
  "satisfies v cur plat hw =
     (\<forall>r. Compatible v = Some r \<longrightarrow>
        (Platform r = [] \<or> plat \<in> set (Platform r)) \<and> (RuleHardwareID r = [] \<or> hw \<in> set (RuleHardwareID r)) \<and>
        (MinVersion r = [] \<or> vkey (MinVersion r) \<le> vkey cur) \<and> (MaxVersion r = [] \<or> vkey cur \<le> vkey (MaxVersion r)))"

definition wellInfo :: "versionInfo \<Rightarrow> bool" where
  "wellInfo v = (length (Split CHR ''.'' (Version v)) = 3 \<and>
     (case Compatible v of None \<Rightarrow> True
      | Some r \<Rightarrow> (MinVersion r = [] \<or> wellVersion (MinVersion r)) \<and> (MaxVersion r = [] \<or> wellVersion (MaxVersion r))))"

lemma containsString_iff: "containsString xs s \<longleftrightarrow> s \<in> set xs"
  by (induction xs) auto

lemma isVersionCompatible_satisfies:
  assumes "wellVersion cur" "wellInfo v"
  shows "isVersionCompatible v cur plat hw = Some (satisfies v cur plat hw)"
proof (cases "Compatible v")
  case None
  then show ?thesis by (simp add: isVersionCompatible_def satisfies_def)
next
  case (Some r)
  have lo: "(if MinVersion r = [] then Some 0 else compareVersions cur (MinVersion r)) =
      Some (if MinVersion r = [] then 0 else sign3 (vkey cur) (vkey (MinVersion r)))"
    and hi: "(if MaxVersion r = [] then Some 0 else compareVersions cur (MaxVersion r)) =
      Some (if MaxVersion r = [] then 0 else sign3 (vkey cur) (vkey (MaxVersion r)))"
    using assms Some by (auto simp: wellInfo_def compareVersions_vkey)
  show ?thesis unfolding isVersionCompatible_def satisfies_def Some option.simps lo hi
    by (auto simp: containsString_iff sign3_ge sign3_neg sign3_le not_less not_le)
qed

lemma versionNums_vkey: "wellInfo v \<Longrightarrow> versionNums (Version v) = Some (vkey (Version v))"
  by (simp add: wellInfo_def versionNums_def vkey_def Let_def)

lemma vkey_length: "wellInfo v \<Longrightarrow> length (vkey (Version v)) = 3"
  by (simp add: wellInfo_def vkey_def)

text \<open>What the loop has found in the versions it has seen: the first of the highest.\<close>

definition isBest :: "(versionInfo \<Rightarrow> bool) \<Rightarrow> versionInfo list \<Rightarrow> versionInfo option \<Rightarrow> bool" where
  "isBest ok seen best =
     (case best of
        None \<Rightarrow> \<forall>w \<in> set seen. \<not> ok w
      | Some v \<Rightarrow> ok v \<and> (\<exists>us ws. seen = us @ v # ws \<and>
                   (\<forall>w \<in> set us. ok w \<longrightarrow> vkey (Version w) < vkey (Version v)) \<and>
                   (\<forall>w \<in> set ws. ok w \<longrightarrow> vkey (Version w) \<le> vkey (Version v))))"

lemma isBest_SomeI:
  assumes "ok v" "seen = us @ v # ws" "\<And>w. w \<in> set us \<Longrightarrow> ok w \<Longrightarrow> vkey (Version w) < vkey (Version v)"
    "\<And>w. w \<in> set ws \<Longrightarrow> ok w \<Longrightarrow> vkey (Version w) \<le> vkey (Version v)"
  shows "isBest ok seen (Some v)"
proof -
  have "\<exists>us ws. seen = us @ v # ws \<and> (\<forall>w \<in> set us. ok w \<longrightarrow> vkey (Version w) < vkey (Version v)) \<and>
      (\<forall>w \<in> set ws. ok w \<longrightarrow> vkey (Version w) \<le> vkey (Version v))"
    using assms by blast
  then show ?thesis using assms(1) by (simp add: isBest_def)
qed

lemma isBest_SomeE:
  assumes "isBest ok seen (Some v)"
  obtains us ws where "ok v" "seen = us @ v # ws" "\<And>w. w \<in> set us \<Longrightarrow> ok w \<Longrightarrow> vkey (Version w) < vkey (Version v)"
    "\<And>w. w \<in> set ws \<Longrightarrow> ok w \<Longrightarrow> vkey (Version w) \<le> vkey (Version v)"
  using assms unfolding isBest_def by auto

lemma isBest_skip:
  assumes "isBest ok seen best" "\<not> ok v"
  shows "isBest ok (seen @ [v]) best"
proof (cases best)
  case None
  then show ?thesis using assms by (simp add: isBest_def)
next
  case (Some b)
  with assms(1) obtain us ws where "ok b" "seen = us @ b # ws" "\<And>w. w \<in> set us \<Longrightarrow> ok w \<Longrightarrow> vkey (Version w) < vkey (Version b)"
    "\<And>w. w \<in> set ws \<Longrightarrow> ok w \<Longrightarrow> vkey (Version w) \<le> vkey (Version b)" by (auto elim!: isBest_SomeE)
  then show ?thesis unfolding Some using assms(2) by (intro isBest_SomeI [where us = us and ws = "ws @ [v]"]) auto
qed

lemma isBest_keep:
  assumes "isBest ok seen (Some b)" "vkey (Version v) \<le> vkey (Version b)"
  shows "isBest ok (seen @ [v]) (Some b)"
proof -
  from assms(1) obtain us ws where "ok b" "seen = us @ b # ws"
    "\<And>w. w \<in> set us \<Longrightarrow> ok w \<Longrightarrow> vkey (Version w) < vkey (Version b)"
    "\<And>w. w \<in> set ws \<Longrightarrow> ok w \<Longrightarrow> vkey (Version w) \<le> vkey (Version b)" by (auto elim!: isBest_SomeE)
  then show ?thesis using assms(2) by (intro isBest_SomeI [where us = us and ws = "ws @ [v]"]) auto
qed

lemma isBest_take:
  assumes "isBest ok seen best" "ok v" "\<And>b. best = Some b \<Longrightarrow> vkey (Version b) < vkey (Version v)"
  shows "isBest ok (seen @ [v]) (Some v)"
proof -
  have "vkey (Version w) < vkey (Version v)" if w: "w \<in> set seen" "ok w" for w
  proof (cases best)
    case None
    then show ?thesis using assms(1) w by (simp add: isBest_def)
  next
    case (Some b)
    then have "vkey (Version w) \<le> vkey (Version b)" using assms(1) w by (fastforce elim!: isBest_SomeE intro: order.strict_implies_order)
    then show ?thesis using assms(3) [OF Some] by simp
  qed
  then show ?thesis using assms(2) by (intro isBest_SomeI [where us = seen and ws = "[]"]) auto
qed

lemma bestLoop_isBest:
  assumes "wellVersion cur" "\<forall>v \<in> set vs. wellInfo v" "isBest (\<lambda>v. satisfies v cur plat hw) seen (map_option fst best)"
    and "\<And>b n. best = Some (b, n) \<Longrightarrow> wellInfo b \<and> n = vkey (Version b)"
  shows "\<exists>r. bestLoop vs cur plat hw best = Some r \<and> isBest (\<lambda>v. satisfies v cur plat hw) (seen @ vs) r"
  using assms
proof (induction vs arbitrary: seen best)
  case Nil
  then show ?case by simp
next
  case (Cons v vs)
  let ?ok = "\<lambda>v. satisfies v cur plat hw"
  have v: "wellInfo v" using Cons.prems(2) by simp
  have next': "\<exists>r. bestLoop vs cur plat hw best' = Some r \<and> isBest ?ok (seen @ v # vs) r"
    if "isBest ?ok (seen @ [v]) (map_option fst best')" "\<And>b n. best' = Some (b, n) \<Longrightarrow> wellInfo b \<and> n = vkey (Version b)" for best'
    using Cons.IH [OF Cons.prems(1) _ that] Cons.prems(2) by simp
  show ?case
  proof (cases "?ok v")
    case False
    then show ?thesis using next' [of best] Cons.prems(3,4) isBest_skip
      by (simp add: isVersionCompatible_satisfies [OF Cons.prems(1) v])
  next
    case True
    define best' where "best' = (case best of None \<Rightarrow> Some (v, vkey (Version v))
      | Some (b, bestNums) \<Rightarrow> if higher (vkey (Version v)) bestNums then Some (v, vkey (Version v)) else best)"
    have step: "bestLoop (v # vs) cur plat hw best = bestLoop vs cur plat hw best'"
      using True by (simp add: isVersionCompatible_satisfies [OF Cons.prems(1) v] versionNums_vkey [OF v] best'_def)
    have b: "higher (vkey (Version v)) n \<longleftrightarrow> vkey (Version b) < vkey (Version v)" if "best = Some (b, n)" for b n
      using Cons.prems(4) [OF that] vkey_length v by (simp add: higher_less)
    have "isBest ?ok (seen @ [v]) (map_option fst best')"
    proof (cases "\<exists>b n. best = Some (b, n) \<and> \<not> higher (vkey (Version v)) n")
      case True
      then show ?thesis using Cons.prems(3) b isBest_keep by (auto simp: best'_def)
    next
      case False
      then have "best' = Some (v, vkey (Version v))" by (auto simp: best'_def split: option.splits)
      moreover have "vkey (Version b') < vkey (Version v)" if "map_option fst best = Some b'" for b' using that False b by auto
      ultimately show ?thesis using isBest_take [OF Cons.prems(3) \<open>?ok v\<close>] by simp
    qed
    moreover have "wellInfo b \<and> n = vkey (Version b)" if "best' = Some (b, n)" for b n
      using that v Cons.prems(4) by (auto simp: best'_def split: option.splits if_splits)
    ultimately show ?thesis unfolding step by (rule next')
  qed
qed

text \<open>When the installed version has three components, and so have the announced ones and the bounds of their rules,
  \<^verbatim>\<open>findHighestCompatibleVersion\<close> never panics and returns the first of the highest versions whose rule the device satisfies; it
  returns nil exactly when the device satisfies none.\<close>

theorem findHighestCompatibleVersion_best:
  assumes "wellVersion cur" "\<forall>v \<in> set vs. wellInfo v"
  shows "\<exists>r. findHighestCompatibleVersion vs cur plat hw = Some r \<and> isBest (\<lambda>v. satisfies v cur plat hw) vs r"
  using bestLoop_isBest [OF assms, of plat hw "[]" None] by (simp add: findHighestCompatibleVersion_def isBest_def)

definition sampleInfo :: "string \<Rightarrow> string \<Rightarrow> versionInfo" where
  "sampleInfo v mx = \<lparr>Version = v, Changelog = [], DownloadURL = [], SHA256 = [], Size = 0,
     Compatible = Some \<lparr>Platform = [''x86''], RuleHardwareID = [], MinVersion = ''1.0.0'', MaxVersion = mx\<rparr>\<rparr>"

theorem findHighestCompatibleVersion_best_witness:
  "\<exists>r. findHighestCompatibleVersion [sampleInfo ''1.9.0'' [], sampleInfo ''1.10.0'' [], sampleInfo ''2.0.0'' ''1.2.0''] ''1.3.0'' ''x86'' [] = Some r \<and>
     isBest (\<lambda>v. satisfies v ''1.3.0'' ''x86'' []) [sampleInfo ''1.9.0'' [], sampleInfo ''1.10.0'' [], sampleInfo ''2.0.0'' ''1.2.0''] r"
  by (rule findHighestCompatibleVersion_best) (simp_all add: wellVersion_def wellInfo_def sampleInfo_def)

end
