(* ===== verification/UpgradeCheck.thy ===== *)
theory UpgradeCheck
  imports UpgradeVersion FileCopy
begin

text \<open>
  The state of the update service (\<^verbatim>\<open>systemService\<close> of \<^verbatim>\<open>service/system.go\<close>), the question to the cloud and the two
  checks for an update, with their caches. Downloads that run at the same time share files, so names and contents are apart: a
  regular file of the table \<open>u_fs\<close> holds the name of its inode and \<open>u_data\<close> the bytes of every inode; an open descriptor keeps
  its inode when the name is removed or moved. The percentage of a download is left out. A panic is \<open>None\<close> in place of the answer.
\<close>

section \<open>State\<close>

record localVersionJSON =
  LocalVersion :: string
  AppVersion :: string
  UpdateServer :: string
  LocalPlatform :: string
  HardwareID :: string
  HardwareName :: string
  DeviceID :: string

record downloaderState =
  dl_status :: string
  dl_version :: string
  dl_cancel :: "nat option"
  dl_dir :: string

record UpgradeCheckResult =
  HasUpdate :: bool
  CurrentVersion :: string
  LatestVersion :: string
  IsDownloaded :: bool
  IsDownloading :: bool
  IsPaused :: bool
  ResultChangelog :: string
  ResultSize :: int

text \<open>The value \<^verbatim>\<open>checkAppCloudUpdate\<close> caches: \<^verbatim>\<open>cacheVal\<close> is declared four times, each time in a block of its own, and the
  four are different types; \<open>cv_type\<close> says which of them, in the order of the source.\<close>

record cacheVal =
  cv_type :: nat
  cv_Has :: bool
  cv_VI :: "versionInfo option"

text \<open>A report to the cloud: kind of update, versions, status, message.\<close>

type_synonym report = "string \<times> string \<times> string \<times> string \<times> string"

text \<open>\<open>u_cancelled\<close> holds the contexts whose cancel function was called; \<open>u_installs\<close> what the install scripts were given: the
  kind, the path of the bundle and its bytes. The two status files in the upgrade directory, which only carry a record across a
  restart, are the fields \<open>u_appStatus\<close> (versions, status, message) and \<open>u_osStatus\<close> (versions).\<close>

record upState =
  u_fs :: fs
  u_data :: "string \<Rightarrow> string"
  u_next :: nat
  u_os :: downloaderState
  u_app :: downloaderState
  u_check :: "UpgradeCheckResult option"
  u_appCheck :: "UpgradeCheckResult option"
  u_cloud :: "(string \<times> cacheVal) list"
  u_cancelled :: "nat list"
  u_nextCtx :: nat
  u_reports :: "report list"
  u_events :: "(string \<times> string) list"
  u_installs :: "(string \<times> string \<times> string) list"
  u_appStatus :: "(string \<times> string \<times> string \<times> string) option"
  u_osStatus :: "(string \<times> string) option"

text \<open>What the world answers to one step: the version file and the machine id, the reply of the cloud, the reply to the download
  request with its status and \<^verbatim>\<open>ContentLength\<close>, what one \<^verbatim>\<open>Read\<close> of its body returns, whether the file call of the step
  fails, whether the cached answers have expired, and the entries a clean-up cannot remove.\<close>

datatype versionFile = VMissing | VUnreadable | VMalformed | VJson localVersionJSON

datatype cloudBody = BodyUnreadable | BodyMalformed | BodyNoVersion | BodyVersion versionInfo

datatype cloudReply = HttpError | HttpReply int cloudBody

datatype readEnd = ReadMore | ReadEOF | ReadFailed

record world =
  w_file :: versionFile
  w_mid :: "string option"
  w_cloud :: cloudReply
  w_http :: "(int \<times> int) option"
  w_chunk :: string
  w_end :: readEnd
  w_fault :: bool
  w_expired :: bool
  w_stuck :: "string list"

section \<open>Files with inodes\<close>

definition fileBytes :: "upState \<Rightarrow> string list \<Rightarrow> string option" where
  "fileBytes s p = (case fsGet (u_fs s) p of Some (RegularFile i) \<Rightarrow> Some (u_data s i) | _ \<Rightarrow> None)"

text \<open>\<^verbatim>\<open>os.OpenFile\<close> with \<^verbatim>\<open>O_CREATE|O_WRONLY\<close> and \<^verbatim>\<open>O_TRUNC\<close> or \<^verbatim>\<open>O_APPEND\<close>: the inode, or an error.\<close>

definition openWrite :: "bool \<Rightarrow> string list \<Rightarrow> upState \<Rightarrow> (fserr, string \<times> upState) result" where
  "openWrite trunc p s =
     (case fsGet (u_fs s) p of
        Some (RegularFile i) \<Rightarrow> Inr (i, if trunc then s\<lparr>u_data := (u_data s)(i := [])\<rparr> else s)
      | _ \<Rightarrow>
          (case fsCreate (u_fs s) p (Itoa (u_next s)) of
             Inl e \<Rightarrow> Inl e
           | Inr f \<Rightarrow> Inr (Itoa (u_next s),
                          s\<lparr>u_fs := f, u_data := (u_data s)(Itoa (u_next s) := []), u_next := Suc (u_next s)\<rparr>)))"

text \<open>A write at an offset; a gap is filled with zero bytes.\<close>

definition writeAt :: "nat \<Rightarrow> string \<Rightarrow> string \<Rightarrow> string" where
  "writeAt off chunk d = take off (d @ replicate (off - length d) (CHR 0x00)) @ chunk @ drop (off + length chunk) d"

definition onFs :: "(fs \<Rightarrow> (fserr, fs) result) \<Rightarrow> upState \<Rightarrow> upState" where
  "onFs g s = (case g (u_fs s) of Inl _ \<Rightarrow> s | Inr f \<Rightarrow> s\<lparr>u_fs := f\<rparr>)"

definition upgradeDir :: string where
  "upgradeDir = ''/var/lib/nimoos_data/upgrade''"

definition osDir :: "string \<Rightarrow> string" where
  "osDir v = upgradeDir @ ''/v'' @ v"

definition appDir :: "string \<Rightarrow> string" where
  "appDir v = upgradeDir @ ''/app_v'' @ v"

definition appBundle :: "string \<Rightarrow> string list" where
  "appBundle v = segs (Join [appDir v, ''bundle.tar.gz''])"

section \<open>Versions of the device and the cloud\<close>

definition readLocalVersionInfo :: "world \<Rightarrow> localVersionJSON option" where
  "readLocalVersionInfo w =
     (case w_file w of
        VJson j \<Rightarrow>
          if LocalVersion j = [] then None
          else Some (if DeviceID j = []
                     then (case w_mid w of Some m \<Rightarrow> j\<lparr>DeviceID := TrimSpace m\<rparr> | None \<Rightarrow> j) else j)
      | _ \<Rightarrow> None)"

definition GetOSVersion :: "string \<Rightarrow> world \<Rightarrow> string" where
  "GetOSVersion VERSION w =
     (case readLocalVersionInfo w of
        Some l \<Rightarrow> if LocalVersion l \<noteq> [] then LocalVersion l else VERSION
      | None \<Rightarrow> VERSION)"

definition currentApp :: "string \<Rightarrow> localVersionJSON \<Rightarrow> string" where
  "currentApp VERSION l = (if AppVersion l \<noteq> [] \<and> AppVersion l \<noteq> ''0.0.0'' then AppVersion l else VERSION)"

definition GetVersion :: "string \<Rightarrow> world \<Rightarrow> string" where
  "GetVersion VERSION w = (case readLocalVersionInfo w of Some l \<Rightarrow> currentApp VERSION l | None \<Rightarrow> VERSION)"

text \<open>\<open>Inl\<close> is an error return; otherwise \<^verbatim>\<open>hasUpdate\<close> and the version.\<close>

definition checkCloudUpdate :: "cloudReply \<Rightarrow> (unit, bool \<times> versionInfo option) result" where
  "checkCloudUpdate reply =
     (case reply of
        HttpError \<Rightarrow> Inl ()
      | HttpReply code body \<Rightarrow>
          if code = 401 \<or> code = 404 \<or> code = 503 then Inr (False, None)
          else if code \<noteq> 200 then Inl ()
          else (case body of
                  BodyUnreadable \<Rightarrow> Inl ()
                | BodyMalformed \<Rightarrow> Inl ()
                | BodyNoVersion \<Rightarrow> Inr (False, None)
                | BodyVersion vi \<Rightarrow> Inr (True, Some (vi\<lparr>Compatible := None\<rparr>))))"

definition setCloud :: "string \<Rightarrow> nat \<Rightarrow> bool \<Rightarrow> versionInfo option \<Rightarrow> upState \<Rightarrow> upState" where
  "setCloud k ty has vi s = s\<lparr>u_cloud := AList.update k \<lparr>cv_type = ty, cv_Has = has, cv_VI = vi\<rparr> (u_cloud s)\<rparr>"

definition checkAppCloudUpdate :: "string \<Rightarrow> world \<Rightarrow> upState \<Rightarrow> (unit, bool \<times> versionInfo option) result \<times> upState" where
  "checkAppCloudUpdate currentAppVersion w s =
     (let cacheKey = ''cloud_update_app_'' @ currentAppVersion;
          fetch = (case w_cloud w of
             HttpError \<Rightarrow> (Inl (), s)
           | HttpReply code body \<Rightarrow>
               if code = 401 then (Inr (False, None), s)
               else if code = 404 then (Inr (False, None), setCloud cacheKey 2 False None s)
               else if code = 503 then (Inr (False, None), s)
               else if code \<noteq> 200 then (Inl (), s)
               else (case body of
                       BodyUnreadable \<Rightarrow> (Inl (), s)
                     | BodyMalformed \<Rightarrow> (Inl (), s)
                     | BodyNoVersion \<Rightarrow> (Inr (False, None), setCloud cacheKey 3 False None s)
                     | BodyVersion vi \<Rightarrow> (Inr (True, Some (vi\<lparr>Compatible := None\<rparr>)),
                                        setCloud cacheKey 4 True (Some (vi\<lparr>Compatible := None\<rparr>)) s))) in
      case (if w_expired w then None else map_of (u_cloud s) cacheKey) of
        Some cv \<Rightarrow> if cv_type cv = 1 then (Inr (cv_Has cv, cv_VI cv), s) else fetch
      | None \<Rightarrow> fetch)"

section \<open>The checks\<close>

text \<open>The entries of a version directory: a bundle ends the loop, a partial one is remembered.\<close>

fun scanBundles :: "(string \<times> bool) list \<Rightarrow> bool \<Rightarrow> bool \<times> bool" where
  "scanBundles [] paused = (False, paused)"
| "scanBundles ((n, isDir) # es) paused =
     (if isDir then scanBundles es paused
      else if Ext n = ''.raucb'' then (True, paused)
      else scanBundles es (paused \<or> Ext n = ''.tmp''))"

definition scanDir :: "upState \<Rightarrow> string \<Rightarrow> bool \<times> bool" where
  "scanDir s d = (case ReadDir (segs d) (u_fs s) of Inl _ \<Rightarrow> (False, False) | Inr es \<Rightarrow> scanBundles es False)"

definition IsUpgradeDownloaded :: "upState \<Rightarrow> string \<Rightarrow> bool" where
  "IsUpgradeDownloaded s version = fst (scanDir s (osDir version))"

definition blankResult :: "string \<Rightarrow> UpgradeCheckResult" where
  "blankResult cur = \<lparr>HasUpdate = False, CurrentVersion = cur, LatestVersion = [], IsDownloaded = False, IsDownloading = False,
     IsPaused = False, ResultChangelog = [], ResultSize = 0\<rparr>"

text \<open>The cached answer, when it may be used, and the cache after the question.\<close>

definition cachedCheck :: "world \<Rightarrow> upState \<Rightarrow> UpgradeCheckResult option \<times> upState" where
  "cachedCheck w s =
     (case (if w_expired w then None else u_check s) of
        None \<Rightarrow> (None, s)
      | Some r \<Rightarrow>
          if dl_status (u_os s) = ''running'' \<or> dl_status (u_os s) = ''completed'' then (None, s\<lparr>u_check := None\<rparr>)
          else if IsDownloaded r
               then (if fst (scanDir s (osDir (LatestVersion r))) then (Some r, s) else (None, s\<lparr>u_check := None\<rparr>))
          else (Some r, s))"

definition CheckUpdate :: "string \<Rightarrow> world \<Rightarrow> upState \<Rightarrow> UpgradeCheckResult option \<times> upState" where
  "CheckUpdate VERSION w s0 =
     (case cachedCheck w s0 of
        (Some r, s) \<Rightarrow> (Some r, s)
      | (None, s) \<Rightarrow>
          (let result = blankResult (GetOSVersion VERSION w); cached = s\<lparr>u_check := Some result\<rparr> in
           case readLocalVersionInfo w of
             None \<Rightarrow> (Some result, cached)
           | Some local \<Rightarrow>
               (case checkCloudUpdate (w_cloud w) of
                  Inl _ \<Rightarrow> (Some result, cached)
                | Inr (_, None) \<Rightarrow> (Some result, cached)
                | Inr (False, _) \<Rightarrow> (Some result, cached)
                | Inr (True, Some best) \<Rightarrow>
                    (let result = result\<lparr>LatestVersion := Version best, ResultSize := Size best, ResultChangelog := Changelog best\<rparr> in
                     case compareVersions (LatestVersion result) (CurrentVersion result) of
                       None \<Rightarrow> (None, s)
                     | Some c \<Rightarrow>
                         if c \<le> 0 then (Some result, s)
                         else
                           (let (downloaded, paused) = scanDir s (osDir (Version best));
                                st = dl_status (u_os s);
                                result = result\<lparr>IsDownloaded := downloaded,
                                  IsDownloading := (st = ''running''),
                                  IsPaused := (if st = ''running'' then False else paused \<or> st = ''paused''),
                                  HasUpdate := True\<rparr> in
                            (Some result, s\<lparr>u_check := Some result\<rparr>))))))"

definition cachedAppCheck :: "world \<Rightarrow> upState \<Rightarrow> UpgradeCheckResult option \<times> upState" where
  "cachedAppCheck w s =
     (case (if w_expired w then None else u_appCheck s) of
        None \<Rightarrow> (None, s)
      | Some r \<Rightarrow>
          if dl_status (u_app s) = ''running'' \<or> dl_status (u_app s) = ''completed'' then (None, s\<lparr>u_appCheck := None\<rparr>)
          else if IsDownloaded r
               then (if notExist (u_fs s) (appBundle (LatestVersion r)) then (None, s\<lparr>u_appCheck := None\<rparr>)
                     else if fileBytes s (appBundle (LatestVersion r)) = Some [] then (None, s\<lparr>u_appCheck := None\<rparr>)
                     else (Some r, s))
          else (Some r, s))"

definition CheckAppUpdate :: "string \<Rightarrow> world \<Rightarrow> upState \<Rightarrow> UpgradeCheckResult option \<times> upState" where
  "CheckAppUpdate VERSION w s0 =
     (case cachedAppCheck w s0 of
        (Some r, s) \<Rightarrow> (Some r, s)
      | (None, s) \<Rightarrow>
          (case readLocalVersionInfo w of
             None \<Rightarrow> (Some (blankResult VERSION), s\<lparr>u_appCheck := Some (blankResult VERSION)\<rparr>)
           | Some local \<Rightarrow>
               (let result = blankResult (currentApp VERSION local) in
                case checkAppCloudUpdate (currentApp VERSION local) w s of
                  (Inl _, s) \<Rightarrow> (Some result, s\<lparr>u_appCheck := Some result\<rparr>)
                | (Inr (_, None), s) \<Rightarrow> (Some result, s\<lparr>u_appCheck := Some result\<rparr>)
                | (Inr (False, _), s) \<Rightarrow> (Some result, s\<lparr>u_appCheck := Some result\<rparr>)
                | (Inr (True, Some best), s) \<Rightarrow>
                    (let result = result\<lparr>LatestVersion := Version best, ResultSize := Size best, ResultChangelog := Changelog best\<rparr> in
                     case compareVersions (LatestVersion result) (CurrentVersion result) of
                       None \<Rightarrow> (None, s)
                     | Some c \<Rightarrow>
                         if c \<le> 0 then (Some result, s\<lparr>u_appCheck := Some result\<rparr>)
                         else
                           (let result = result\<lparr>IsDownloaded := fsGet (u_fs s) (appBundle (Version best)) \<noteq> None,
                                  IsDownloading := (dl_status (u_app s) = ''running''), HasUpdate := True\<rparr> in
                            (Some result, s\<lparr>u_appCheck := Some result\<rparr>))))))"

end
