(* ===== verification/UpgradeDownload.thy ===== *)
theory UpgradeDownload
  imports UpgradeCheck
begin

text \<open>
  The download goroutines \<^verbatim>\<open>runDownload\<close> (system bundle) and \<^verbatim>\<open>runAppDownload\<close> (application bundle) of
  \<^verbatim>\<open>service/system.go\<close>, one step per call that other goroutines can observe: a locked section, a file call, a request, a read
  of the body. A goroutine is a record of its local variables and the point where it stands.
\<close>

section \<open>Downloader state\<close>

definition withStatus :: "string \<Rightarrow> downloaderState \<Rightarrow> downloaderState" where
  "withStatus st d =
     (let d = d\<lparr>dl_status := st\<rparr> in
      if st = ''completed'' \<or> st = ''failed'' \<or> st = ''idle'' then d\<lparr>dl_cancel := None\<rparr> else d)"

definition setDownloaderStatus :: "string \<Rightarrow> upState \<Rightarrow> upState" where
  "setDownloaderStatus st s = s\<lparr>u_os := withStatus st (u_os s)\<rparr>"

definition setAppDownloaderStatus :: "string \<Rightarrow> upState \<Rightarrow> upState" where
  "setAppDownloaderStatus st s = s\<lparr>u_app := withStatus st (u_app s)\<rparr>"

text \<open>Starting a download: the context of the new goroutine, or nothing when one is running.\<close>

definition DownloadUpdate :: "upState \<Rightarrow> nat option \<times> upState" where
  "DownloadUpdate s =
     (if dl_status (u_os s) = ''running'' then (None, s)
      else (Some (u_nextCtx s),
            s\<lparr>u_os := (u_os s)\<lparr>dl_status := ''running'', dl_cancel := Some (u_nextCtx s)\<rparr>, u_nextCtx := Suc (u_nextCtx s)\<rparr>))"

definition DownloadAppUpdate :: "upState \<Rightarrow> nat option \<times> upState" where
  "DownloadAppUpdate s =
     (if dl_status (u_app s) = ''running'' then (None, s)
      else (Some (u_nextCtx s),
            s\<lparr>u_app := (u_app s)\<lparr>dl_status := ''running'', dl_cancel := Some (u_nextCtx s)\<rparr>, u_nextCtx := Suc (u_nextCtx s)\<rparr>))"

definition cancelCtx :: "nat option \<Rightarrow> upState \<Rightarrow> upState" where
  "cancelCtx c s = (case c of None \<Rightarrow> s | Some x \<Rightarrow> s\<lparr>u_cancelled := x # u_cancelled s\<rparr>)"

definition CancelDownload :: "upState \<Rightarrow> upState" where
  "CancelDownload s = (setDownloaderStatus ''idle'' (cancelCtx (dl_cancel (u_os s)) s))\<lparr>u_check := None\<rparr>"

definition CancelAppDownload :: "upState \<Rightarrow> upState" where
  "CancelAppDownload s = (setAppDownloaderStatus ''idle'' (cancelCtx (dl_cancel (u_app s)) s))\<lparr>u_appCheck := None\<rparr>"

definition reportUpgradeResult :: "string \<Rightarrow> string \<Rightarrow> string \<Rightarrow> string \<Rightarrow> string \<Rightarrow> upState \<Rightarrow> upState" where
  "reportUpgradeResult updateType fromVersion toVersion status errorMsg s =
     s\<lparr>u_reports := (updateType, fromVersion, toVersion, status, errorMsg) # u_reports s\<rparr>"

definition publish :: "string \<Rightarrow> string \<Rightarrow> upState \<Rightarrow> upState" where
  "publish event version s = s\<lparr>u_events := (event, version) # u_events s\<rparr>"

definition EqualFold :: "string \<Rightarrow> string \<Rightarrow> bool" where
  "EqualFold a b = (ToLower a = ToLower b)"

section \<open>Goroutines\<close>

datatype pc = PLocal | PCheck | PQuery | PPrepare | PStatFinal | PStatTmp | PRequest | PRefresh | PRetry | POpen | PLoop | PRead | PHash | PRename | PClean | PDone

text \<open>\<open>t_off\<close> is the offset of the descriptor, \<open>t_append\<close> says that every write goes to the end of the file.\<close>

record thread =
  t_app :: bool
  t_ctx :: nat
  t_pc :: pc
  t_local :: localVersionJSON
  t_best :: versionInfo
  t_tmp :: "string list"
  t_final :: "string list"
  t_resume :: nat
  t_code :: int
  t_length :: int
  t_ino :: string
  t_append :: bool
  t_off :: nat
  t_written :: nat

definition noLocal :: localVersionJSON where
  "noLocal = \<lparr>LocalVersion = [], AppVersion = [], UpdateServer = [], LocalPlatform = [], HardwareID = [], HardwareName = [], DeviceID = []\<rparr>"

definition noInfo :: versionInfo where
  "noInfo = \<lparr>Version = [], Changelog = [], DownloadURL = [], SHA256 = [], Size = 0, Compatible = None\<rparr>"

definition newThread :: "bool \<Rightarrow> nat \<Rightarrow> thread" where
  "newThread app ctx = \<lparr>t_app = app, t_ctx = ctx, t_pc = PLocal, t_local = noLocal, t_best = noInfo, t_tmp = [], t_final = [],
     t_resume = 0, t_code = 0, t_length = 0, t_ino = [], t_append = False, t_off = 0, t_written = 0\<rparr>"

datatype outcome = Next thread upState | Exit upState | Panic

definition failOs :: "upState \<Rightarrow> outcome" where
  "failOs s = Exit (setDownloaderStatus ''failed'' s)"

definition failApp :: "upState \<Rightarrow> outcome" where
  "failApp s = Exit (setAppDownloaderStatus ''failed'' s)"

definition removeTmp :: "thread \<Rightarrow> upState \<Rightarrow> upState" where
  "removeTmp t = onFs (\<lambda>f. fsRemove f (t_tmp t))"

text \<open>The bytes a reader of the temporary file gets: a directory opens, and reading it fails at once, which is ignored.\<close>

definition hashInput :: "thread \<Rightarrow> upState \<Rightarrow> string option" where
  "hashInput t s =
     (case fsGet (u_fs s) (t_tmp t) of
        None \<Rightarrow> None
      | Some Directory \<Rightarrow> Some []
      | Some (RegularFile i) \<Rightarrow> Some (u_data s i))"

definition writeChunk :: "thread \<Rightarrow> string \<Rightarrow> upState \<Rightarrow> thread \<times> upState" where
  "writeChunk t chunk s =
     (let off = (if t_append t then length (u_data s (t_ino t)) else t_off t) in
      (t\<lparr>t_off := off + length chunk, t_written := t_written t + length chunk\<rparr>,
       s\<lparr>u_data := (u_data s)(t_ino t := writeAt off chunk (u_data s (t_ino t)))\<rparr>))"

text \<open>Directories of other versions go after a download; an entry that cannot be removed stays.\<close>

definition cleanDirs :: "(string \<Rightarrow> bool) \<Rightarrow> world \<Rightarrow> upState \<Rightarrow> upState" where
  "cleanDirs old w s =
     (case ReadDir (segs upgradeDir) (u_fs s) of
        Inl _ \<Rightarrow> s
      | Inr es \<Rightarrow>
          s\<lparr>u_fs := fold (\<lambda>(n, isDir) f. if isDir \<and> old n \<and> n \<notin> set (w_stuck w)
                                     then fsRemoveAll f (segs upgradeDir @ [n]) else f) es (u_fs s)\<rparr>)"

section \<open>The system bundle: runDownload\<close>

text \<open>Up to the question whether a finished or a partial file is there.\<close>

definition osPrepare :: "string \<Rightarrow> world \<Rightarrow> thread \<Rightarrow> upState \<Rightarrow> outcome" where
  "osPrepare VERSION w t s =
     (case t_pc t of
        PLocal \<Rightarrow>
          (case readLocalVersionInfo w of
             None \<Rightarrow> failOs s
           | Some local \<Rightarrow> Next (t\<lparr>t_local := local, t_pc := PCheck\<rparr>) s)
      | PCheck \<Rightarrow>
          (case CheckUpdate VERSION w s of
             (None, _) \<Rightarrow> Panic
           | (Some check, s) \<Rightarrow>
               if \<not> HasUpdate check then failOs s
               else if IsDownloaded check then Exit (setDownloaderStatus ''completed'' s)
               else Next (t\<lparr>t_pc := PQuery\<rparr>) s)
      | PQuery \<Rightarrow>
          (case checkCloudUpdate (w_cloud w) of
             Inl _ \<Rightarrow> failOs s
           | Inr (True, Some best) \<Rightarrow>
               Next (t\<lparr>t_best := best, t_pc := PPrepare\<rparr>) (s\<lparr>u_os := (u_os s)\<lparr>dl_version := Version best\<rparr>\<rparr>)
           | Inr _ \<Rightarrow> failOs s)
      | PPrepare \<Rightarrow>
          (let v = Version (t_best t); dir = osDir v;
               s = (if w_fault w then s else onFs (\<lambda>f. fsMkdirAll f (segs dir)) s);
               s = s\<lparr>u_os := (u_os s)\<lparr>dl_dir := dir\<rparr>\<rparr>;
               s = reportUpgradeResult ''os'' (LocalVersion (t_local t)) v ''downloading'' [] s in
           Next (t\<lparr>t_tmp := segs (Join [dir, ''nimo_update_'' @ v @ ''.raucb.tmp'']),
                   t_final := segs (Join [dir, ''nimo_update_'' @ v @ ''.raucb'']), t_pc := PStatFinal\<rparr>) s)
      | PStatFinal \<Rightarrow>
          (if fsGet (u_fs s) (t_final t) \<noteq> None
           then Exit (setDownloaderStatus ''completed'' (publish ''nimoos:upgrade:downloaded'' (Version (t_best t)) s))
           else Next (t\<lparr>t_pc := PStatTmp\<rparr>) s)
      | PStatTmp \<Rightarrow>
          Next (t\<lparr>t_resume := (case fileBytes s (t_tmp t) of Some b \<Rightarrow> length b | None \<Rightarrow> 0), t_pc := PRequest\<rparr>) s
      | _ \<Rightarrow> Next t s)"

text \<open>The request, one refreshed retry, and opening the temporary file as the status says. The names of the files are those of the
  version first announced, also when the refresh announces another one.\<close>

definition osRequest :: "world \<Rightarrow> thread \<Rightarrow> upState \<Rightarrow> outcome" where
  "osRequest w t s =
     (case t_pc t of
        PRequest \<Rightarrow>
          (case w_http w of
             None \<Rightarrow> failOs s
           | Some (code, len) \<Rightarrow>
               Next (t\<lparr>t_code := code, t_length := len, t_pc := (if code \<noteq> 200 \<and> code \<noteq> 206 then PRefresh else POpen)\<rparr>) s)
      | PRefresh \<Rightarrow>
          (case checkCloudUpdate (w_cloud w) of
             Inr (True, Some best) \<Rightarrow> Next (t\<lparr>t_best := best, t_pc := PRetry\<rparr>) s
           | _ \<Rightarrow> failOs s)
      | PRetry \<Rightarrow>
          (case w_http w of
             None \<Rightarrow> failOs s
           | Some (code, len) \<Rightarrow>
               if code \<noteq> 200 \<and> code \<noteq> 206 then failOs s
               else Next (t\<lparr>t_code := code, t_length := len, t_pc := POpen\<rparr>) s)
      | POpen \<Rightarrow>
          (let append = (t_code t = 206) in
           case (if w_fault w then Inl EIO else openWrite (\<not> append) (t_tmp t) s) of
             Inl _ \<Rightarrow> failOs s
           | Inr (i, s) \<Rightarrow>
               Next (t\<lparr>t_append := append, t_resume := (if append then t_resume t else 0), t_ino := i, t_off := 0, t_written := 0,
                       t_pc := PLoop\<rparr>) s)
      | _ \<Rightarrow> Next t s)"

text \<open>A round of the loop: the context is looked at, then one read and one write.\<close>

definition osReadEnd :: "world \<Rightarrow> thread \<Rightarrow> upState \<Rightarrow> outcome" where
  "osReadEnd w t s =
     (case w_end w of
        ReadMore \<Rightarrow> Next (t\<lparr>t_pc := PLoop\<rparr>) s
      | ReadEOF \<Rightarrow> Next (t\<lparr>t_pc := PHash\<rparr>) s
      | ReadFailed \<Rightarrow>
          if t_ctx t \<in> set (u_cancelled s) then Exit (setDownloaderStatus ''idle'' (removeTmp t s))
          else Exit (setDownloaderStatus ''paused'' s))"

definition osLoop :: "world \<Rightarrow> thread \<Rightarrow> upState \<Rightarrow> outcome" where
  "osLoop w t s =
     (if t_pc t = PLoop
      then (if t_ctx t \<in> set (u_cancelled s) then Exit (setDownloaderStatus ''idle'' (removeTmp t s))
            else Next (t\<lparr>t_pc := PRead\<rparr>) s)
      else if w_chunk w \<noteq> [] \<and> w_fault w then failOs s
      else
        (case (if w_chunk w \<noteq> [] then writeChunk t (w_chunk w) s else (t, s)) of (t, s) \<Rightarrow> osReadEnd w t s))"

text \<open>Checksum, final name, clean-up.\<close>

definition osFinish :: "(string \<Rightarrow> string) \<Rightarrow> world \<Rightarrow> thread \<Rightarrow> upState \<Rightarrow> outcome" where
  "osFinish sha w t s =
     (case t_pc t of
        PHash \<Rightarrow>
          (case (if w_fault w then None else hashInput t s) of
             None \<Rightarrow> failOs (removeTmp t s)
           | Some bytes \<Rightarrow>
               if \<not> EqualFold (sha bytes) (SHA256 (t_best t))
               then failOs (reportUpgradeResult ''os'' (LocalVersion (t_local t)) (Version (t_best t)) ''failed'' ''sha256_mismatch''
                              (removeTmp t s))
               else Next (t\<lparr>t_pc := PRename\<rparr>) s)
      | PRename \<Rightarrow>
          (case (if w_fault w then Inl EIO else fsRename (u_fs s) (t_tmp t) (t_final t)) of
             Inl _ \<Rightarrow> failOs (removeTmp t s)
           | Inr f \<Rightarrow> Next (t\<lparr>t_pc := PClean\<rparr>) (s\<lparr>u_fs := f\<rparr>))
      | PClean \<Rightarrow> Next (t\<lparr>t_pc := PDone\<rparr>) (cleanDirs (\<lambda>n. n \<noteq> ''v'' @ Version (t_best t)) w s)
      | PDone \<Rightarrow> Exit (setDownloaderStatus ''completed'' (publish ''nimoos:upgrade:downloaded'' (Version (t_best t)) s))
      | _ \<Rightarrow> Next t s)"

definition runDownload :: "string \<Rightarrow> (string \<Rightarrow> string) \<Rightarrow> world \<Rightarrow> thread \<Rightarrow> upState \<Rightarrow> outcome" where
  "runDownload VERSION sha w t s =
     (if t_pc t \<in> {PLocal, PCheck, PQuery, PPrepare, PStatFinal, PStatTmp} then osPrepare VERSION w t s
      else if t_pc t \<in> {PRequest, PRefresh, PRetry, POpen} then osRequest w t s
      else if t_pc t \<in> {PLoop, PRead} then osLoop w t s
      else osFinish sha w t s)"

section \<open>The application bundle: runAppDownload\<close>

definition appPrepare :: "string \<Rightarrow> world \<Rightarrow> thread \<Rightarrow> upState \<Rightarrow> outcome" where
  "appPrepare VERSION w t s =
     (case t_pc t of
        PLocal \<Rightarrow>
          (case readLocalVersionInfo w of
             None \<Rightarrow> failApp s
           | Some local \<Rightarrow> Next (t\<lparr>t_local := local, t_pc := PQuery\<rparr>) s)
      | PQuery \<Rightarrow>
          (case checkAppCloudUpdate (currentApp VERSION (t_local t)) w s of
             (Inr (True, Some best), s) \<Rightarrow>
               Next (t\<lparr>t_best := best, t_pc := PPrepare\<rparr>) (s\<lparr>u_app := (u_app s)\<lparr>dl_version := Version best\<rparr>\<rparr>)
           | (_, s) \<Rightarrow> failApp s)
      | PPrepare \<Rightarrow>
          (let dir = appDir (Version (t_best t));
               s = (if w_fault w then s else onFs (\<lambda>f. fsMkdirAll f (segs dir)) s);
               s = s\<lparr>u_app := (u_app s)\<lparr>dl_dir := dir\<rparr>\<rparr> in
           Next (t\<lparr>t_tmp := segs (Join [dir, ''bundle.tar.gz''] @ ''.tmp''),
                   t_final := appBundle (Version (t_best t)), t_pc := PStatTmp\<rparr>) s)
      | PStatTmp \<Rightarrow> Next (t\<lparr>t_pc := PStatFinal\<rparr>) (if w_fault w then s else removeTmp t s)
      | PStatFinal \<Rightarrow>
          (if fsGet (u_fs s) (t_final t) \<noteq> None then Exit (setAppDownloaderStatus ''completed'' s)
           else Next (t\<lparr>t_pc := PRequest\<rparr>)
             (reportUpgradeResult ''app'' (currentApp VERSION (t_local t)) (Version (t_best t)) ''downloading'' [] s))
      | _ \<Rightarrow> Next t s)"

definition appRequest :: "string \<Rightarrow> world \<Rightarrow> thread \<Rightarrow> upState \<Rightarrow> outcome" where
  "appRequest VERSION w t s =
     (case t_pc t of
        PRequest \<Rightarrow>
          (case w_http w of
             None \<Rightarrow> failApp s
           | Some (code, len) \<Rightarrow> Next (t\<lparr>t_code := code, t_length := len, t_pc := (if code \<noteq> 200 then PRefresh else POpen)\<rparr>) s)
      | PRefresh \<Rightarrow>
          (case checkAppCloudUpdate (currentApp VERSION (t_local t)) w s of
             (Inr (True, Some best), s) \<Rightarrow> Next (t\<lparr>t_best := best, t_pc := PRetry\<rparr>) s
           | (_, s) \<Rightarrow> failApp s)
      | PRetry \<Rightarrow>
          (case w_http w of
             None \<Rightarrow> failApp s
           | Some (code, len) \<Rightarrow>
               if code \<noteq> 200 then failApp s else Next (t\<lparr>t_code := code, t_length := len, t_pc := POpen\<rparr>) s)
      | POpen \<Rightarrow>
          (case (if w_fault w then Inl EIO else openWrite True (t_tmp t) s) of
             Inl _ \<Rightarrow> failApp s
           | Inr (i, s) \<Rightarrow>
               (let total = (if Size (t_best t) = 0 then max 0 (t_length t) else Size (t_best t)) in
                Next (t\<lparr>t_append := False, t_ino := i, t_off := 0, t_written := 0, t_length := total, t_pc := PLoop\<rparr>) s))
      | _ \<Rightarrow> Next t s)"

definition appReadEnd :: "world \<Rightarrow> thread \<Rightarrow> upState \<Rightarrow> outcome" where
  "appReadEnd w t s =
     (case w_end w of
        ReadMore \<Rightarrow> Next (t\<lparr>t_pc := PLoop\<rparr>) s
      | ReadEOF \<Rightarrow> Next (t\<lparr>t_pc := PHash\<rparr>) s
      | ReadFailed \<Rightarrow>
          if t_ctx t \<in> set (u_cancelled s) then Exit (setAppDownloaderStatus ''idle'' (removeTmp t s))
          else failApp s)"

definition appLoop :: "world \<Rightarrow> thread \<Rightarrow> upState \<Rightarrow> outcome" where
  "appLoop w t s =
     (if t_pc t = PLoop
      then (if t_ctx t \<in> set (u_cancelled s) then Exit (setAppDownloaderStatus ''idle'' (removeTmp t s))
            else Next (t\<lparr>t_pc := PRead\<rparr>) s)
      else if w_chunk w \<noteq> [] \<and> w_fault w then failApp s
      else
        (case (if w_chunk w \<noteq> [] then writeChunk t (w_chunk w) s else (t, s)) of (t, s) \<Rightarrow> appReadEnd w t s))"

text \<open>Here a temporary file that cannot be opened is not checked and goes on to its final name.\<close>

definition appFinish :: "string \<Rightarrow> (string \<Rightarrow> string) \<Rightarrow> world \<Rightarrow> thread \<Rightarrow> upState \<Rightarrow> outcome" where
  "appFinish VERSION sha w t s =
     (let failed = (\<lambda>msg. failApp (removeTmp t (reportUpgradeResult ''app'' (currentApp VERSION (t_local t)) (Version (t_best t)) ''failed'' msg s))) in
      case t_pc t of
        PHash \<Rightarrow>
          (if 0 < t_length t \<and> int (t_written t) \<noteq> t_length t then failApp (removeTmp t s)
           else if SHA256 (t_best t) = [] then failed ''sha256_missing''
           else (case (if w_fault w then None else hashInput t s) of
                   None \<Rightarrow> Next (t\<lparr>t_pc := PRename\<rparr>) s
                 | Some bytes \<Rightarrow>
                     if \<not> EqualFold (sha bytes) (SHA256 (t_best t)) then failed ''sha256_mismatch''
                     else Next (t\<lparr>t_pc := PRename\<rparr>) s))
      | PRename \<Rightarrow>
          (case (if w_fault w then Inl EIO else fsRename (u_fs s) (t_tmp t) (t_final t)) of
             Inl _ \<Rightarrow> failApp (removeTmp t s)
           | Inr f \<Rightarrow> Next (t\<lparr>t_pc := PClean\<rparr>) (s\<lparr>u_fs := f\<rparr>))
      | PClean \<Rightarrow>
          Next (t\<lparr>t_pc := PDone\<rparr>)
            (cleanDirs (\<lambda>n. n \<noteq> ''app_v'' @ Version (t_best t) \<and> HasPrefix n ''app_v'') w s)
      | PDone \<Rightarrow> Exit (setAppDownloaderStatus ''completed'' (publish ''nimoos:app:downloaded'' (Version (t_best t)) s))
      | _ \<Rightarrow> Next t s)"

definition runAppDownload :: "string \<Rightarrow> (string \<Rightarrow> string) \<Rightarrow> world \<Rightarrow> thread \<Rightarrow> upState \<Rightarrow> outcome" where
  "runAppDownload VERSION sha w t s =
     (if t_pc t \<in> {PLocal, PQuery, PPrepare, PStatTmp, PStatFinal} then appPrepare VERSION w t s
      else if t_pc t \<in> {PRequest, PRefresh, PRetry, POpen} then appRequest VERSION w t s
      else if t_pc t \<in> {PLoop, PRead} then appLoop w t s
      else appFinish VERSION sha w t s)"

end
