(* ===== verification/UpgradeSystem.thy ===== *)
theory UpgradeSystem
  imports UpgradeDownload
begin

text \<open>
  Installing a downloaded bundle (\<^verbatim>\<open>UpdateSystemVersion\<close>, \<^verbatim>\<open>UpdateAppVersion\<close>), the report after a restart, and the whole
  update service as a transition function: requests, goroutines, the daily check, install scripts and restarts interleave in
  any order.
\<close>

section \<open>Installing\<close>

datatype lockProbe = LockOpenFailed | LockWouldBlock | LockError | LockTaken

definition isFileLocked :: "lockProbe \<Rightarrow> (unit, bool) result" where
  "isFileLocked l = (case l of LockOpenFailed \<Rightarrow> Inl () | LockWouldBlock \<Rightarrow> Inr True | LockError \<Rightarrow> Inl () | LockTaken \<Rightarrow> Inr False)"

text \<open>The two nested loops over the upgrade directory: the last bundle found wins.\<close>

fun lastBundle :: "string \<Rightarrow> (string \<times> bool) list \<Rightarrow> (string \<times> string) option \<Rightarrow> (string \<times> string) option" where
  "lastBundle d [] latest = latest"
| "lastBundle d ((n, isDir) # es) latest =
     lastBundle d es (if \<not> isDir \<and> Ext n = ''.raucb'' then Some (d, n) else latest)"

fun latestBundle :: "upState \<Rightarrow> (string \<times> bool) list \<Rightarrow> (string \<times> string) option \<Rightarrow> (string \<times> string) option" where
  "latestBundle s [] latest = latest"
| "latestBundle s ((d, isDir) # es) latest =
     (if \<not> isDir then latestBundle s es latest
      else latestBundle s es
        (case ReadDir (segs upgradeDir @ [d]) (u_fs s) of Inl _ \<Rightarrow> latest | Inr bs \<Rightarrow> lastBundle d bs latest))"

record installJob =
  j_path :: "string list"
  j_target :: string
  j_from :: string
  j_local :: bool
  j_ran :: bool

definition UpdateSystemVersion :: "string \<Rightarrow> lockProbe \<Rightarrow> world \<Rightarrow> upState \<Rightarrow> (string, installJob) result" where
  "UpdateSystemVersion VERSION lock w s =
     (if isFileLocked lock = Inr True then Inl ''another system upgrade is already running''
      else (case ReadDir (segs upgradeDir) (u_fs s) of
              Inl _ \<Rightarrow> Inl ''upgrade directory not found''
            | Inr entries \<Rightarrow>
                (case latestBundle s entries None of
                   None \<Rightarrow> Inl ''no downloaded upgrade bundle found''
                 | Some (d, n) \<Rightarrow>
                     Inr \<lparr>j_path = segs upgradeDir @ [d, n], j_target = TrimPrefix d ''v'', j_from = GetOSVersion VERSION w,
                          j_local = (readLocalVersionInfo w \<noteq> None), j_ran = False\<rparr>)))"

datatype scriptOutcome = ScriptOk | ScriptFailed | ScriptBusy

definition reportJob :: "installJob \<Rightarrow> string \<Rightarrow> string \<Rightarrow> upState \<Rightarrow> upState" where
  "reportJob j status msg s = (if j_local j then reportUpgradeResult ''os'' (j_from j) (j_target j) status msg s else s)"

text \<open>The goroutine: the script is started on the bundle, then its outcome is handled; after success the machine reboots.\<close>

definition installRun :: "installJob \<Rightarrow> upState \<Rightarrow> upState" where
  "installRun j s =
     (let s = reportJob j ''installing'' [] s in
      case fileBytes s (j_path j) of
        None \<Rightarrow> s
      | Some bytes \<Rightarrow> s\<lparr>u_installs := (''os'', path_of (j_path j), bytes) # u_installs s\<rparr>)"

definition installEnd :: "scriptOutcome \<Rightarrow> world \<Rightarrow> installJob \<Rightarrow> upState \<Rightarrow> bool \<times> upState" where
  "installEnd r w j s =
     (case r of
        ScriptBusy \<Rightarrow> (False, s)
      | ScriptFailed \<Rightarrow> (False, reportJob j ''failed'' ''rauc_install_failed'' s)
      | ScriptOk \<Rightarrow> (True, (cleanDirs (\<lambda>_. True) w s)\<lparr>u_check := None, u_osStatus := Some (j_from j, j_target j)\<rparr>))"

text \<open>\<^verbatim>\<open>UpdateAppVersion\<close> runs in the request: the check (\<open>w1\<close>), the fresh question to the cloud and the directory (\<open>w2\<close>), the
  download request, the file and its body (\<open>w3\<close>), and the start of the script (\<open>w4\<close>).\<close>

definition fetchApp :: "string \<Rightarrow> versionInfo \<Rightarrow> world \<Rightarrow> upState \<Rightarrow> (string, unit) result \<times> upState" where
  "fetchApp cur best w s0 =
     (let s = reportUpgradeResult ''app'' cur (Version best) ''downloading'' [] s0;
          failed = (\<lambda>msg err s. (Inl err, reportUpgradeResult ''app'' cur (Version best) ''failed'' msg s)) in
      case w_http w of
        None \<Rightarrow> failed ''download_failed'' ''failed to download bundle'' s
      | Some (code, _) \<Rightarrow>
          if code \<noteq> 200 then failed (''download_http_'' @ Itoa (nat code)) ''download failed with status'' s
          else (case (if w_fault w then Inl EIO else openWrite True (appBundle (Version best)) s) of
                  Inl _ \<Rightarrow> failed ''create_file_failed'' ''failed to create bundle file'' s
                | Inr (i, s) \<Rightarrow>
                    (let s = s\<lparr>u_data := (u_data s)(i := w_chunk w)\<rparr> in
                     if w_end w = ReadEOF then (Inr (), s) else failed ''save_file_failed'' ''failed to save bundle file'' s)))"

definition launchApp :: "string \<Rightarrow> versionInfo \<Rightarrow> world \<Rightarrow> upState \<Rightarrow> (string, unit) result \<times> upState" where
  "launchApp cur best w s =
     (let s = s\<lparr>u_appStatus := Some (cur, Version best, ''installing'', [])\<rparr>;
          s = reportUpgradeResult ''app'' cur (Version best) ''installing'' [] s in
      if w_fault w
      then (Inl ''failed to start upgrade script'', reportUpgradeResult ''app'' cur (Version best) ''failed'' ''detached_start_failed'' s)
      else (Inr (), case fileBytes s (appBundle (Version best)) of
                      None \<Rightarrow> s
                    | Some bytes \<Rightarrow> s\<lparr>u_installs := (''app'', path_of (appBundle (Version best)), bytes) # u_installs s\<rparr>))"

definition UpdateAppVersion ::
    "string \<Rightarrow> lockProbe \<Rightarrow> world \<Rightarrow> world \<Rightarrow> world \<Rightarrow> world \<Rightarrow> upState \<Rightarrow> (string, unit) result option \<times> upState" where
  "UpdateAppVersion VERSION lock w1 w2 w3 w4 s =
     (if isFileLocked lock = Inr True then (Some (Inl ''another app upgrade is already running''), s)
      else
       (case CheckAppUpdate VERSION w1 s of
          (None, s) \<Rightarrow> (None, s)
        | (Some check, s) \<Rightarrow>
            if \<not> HasUpdate check then (Some (Inl ''no app update available''), s)
            else
             (case readLocalVersionInfo w2 of
                None \<Rightarrow> (Some (Inl ''cannot read local version info''), s)
              | Some local \<Rightarrow>
                  (let cur = currentApp VERSION local;
                       s = s\<lparr>u_cloud := AList.delete (''cloud_update_app_'' @ cur) (u_cloud s)\<rparr> in
                   case checkAppCloudUpdate cur w2 s of
                     (Inr (True, Some best), s) \<Rightarrow>
                       (case (if w_fault w2 then Inl EIO else fsMkdirAll (u_fs s) (segs (appDir (Version best)))) of
                          Inl _ \<Rightarrow> (Some (Inl ''failed to create upgrade dir''),
                                    reportUpgradeResult ''app'' cur (Version best) ''failed'' ''mkdir_failed'' s)
                        | Inr f \<Rightarrow>
                            (let s = s\<lparr>u_fs := f\<rparr> in
                             case (if notExist (u_fs s) (appBundle (Version best)) then fetchApp cur best w3 s else (Inr (), s)) of
                               (Inl e, s) \<Rightarrow> (Some (Inl e), s)
                             | (Inr _, s) \<Rightarrow> (case launchApp cur best w4 s of (r, s) \<Rightarrow> (Some r, s))))
                   | (_, s) \<Rightarrow> (Some (Inl ''failed to get download URL''), s)))))"

section \<open>After a restart\<close>

definition syncApp :: "world \<Rightarrow> upState \<Rightarrow> upState" where
  "syncApp w s =
     (case u_appStatus s of
        None \<Rightarrow> s
      | Some (from, to, status, msg) \<Rightarrow>
          (let s' = (if w_fault w \<or> readLocalVersionInfo w = None then s
                     else if status = ''completed'' then reportUpgradeResult ''app'' from to ''completed'' [] s
                     else if status = ''failed'' then reportUpgradeResult ''app'' from to ''failed'' msg s
                     else s) in
           s'\<lparr>u_appStatus := None\<rparr>))"

definition syncOs :: "string \<Rightarrow> world \<Rightarrow> upState \<Rightarrow> upState" where
  "syncOs VERSION w s =
     (case u_osStatus s of
        None \<Rightarrow> s
      | Some (from, to) \<Rightarrow>
          (let s' = (if w_fault w \<or> readLocalVersionInfo w = None then s
                     else if GetOSVersion VERSION w = to then reportUpgradeResult ''os'' from to ''completed'' [] s
                     else reportUpgradeResult ''os'' from to ''failed'' ''boot_fallback'' s) in
           s'\<lparr>u_osStatus := None\<rparr>))"

definition SyncStartupUpgradeStatus :: "string \<Rightarrow> world \<Rightarrow> upState \<Rightarrow> upState" where
  "SyncStartupUpgradeStatus VERSION w s = syncOs VERSION w (syncApp w s)"

section \<open>The service\<close>

record usys =
  us_up :: upState
  us_threads :: "nat \<Rightarrow> thread option"
  us_jobs :: "installJob list"

definition emptyDownloader :: downloaderState where
  "emptyDownloader = \<lparr>dl_status = [], dl_version = [], dl_cancel = None, dl_dir = []\<rparr>"

text \<open>The process stops and starts again: the disk stays, memory is lost.\<close>

definition reboot :: "usys \<Rightarrow> usys" where
  "reboot y = y\<lparr>us_up := (us_up y)\<lparr>u_os := emptyDownloader, u_app := emptyDownloader, u_check := None, u_appCheck := None,
     u_cloud := [], u_cancelled := []\<rparr>, us_threads := (\<lambda>_. None), us_jobs := []\<rparr>"

definition spawn :: "bool \<Rightarrow> nat option \<times> upState \<Rightarrow> usys \<Rightarrow> usys" where
  "spawn app r y =
     (case r of
        (None, s) \<Rightarrow> y\<lparr>us_up := s\<rparr>
      | (Some ctx, s) \<Rightarrow> y\<lparr>us_up := s, us_threads := (us_threads y)(ctx := Some (newThread app ctx))\<rparr>)"

text \<open>The handlers of the two checks start a download on request; a panic in a handler is caught by the server.\<close>

definition GetFirmwareCheckVersion :: "string \<Rightarrow> bool \<Rightarrow> world \<Rightarrow> usys \<Rightarrow> usys" where
  "GetFirmwareCheckVersion VERSION trigger w y =
     (case CheckUpdate VERSION w (us_up y) of
        (None, s) \<Rightarrow> y\<lparr>us_up := s\<rparr>
      | (Some r, s) \<Rightarrow>
          if HasUpdate r \<and> \<not> IsDownloaded r \<and> \<not> IsDownloading r \<and> trigger then spawn False (DownloadUpdate s) y
          else y\<lparr>us_up := s\<rparr>)"

definition GetSystemCheckVersion :: "string \<Rightarrow> bool \<Rightarrow> world \<Rightarrow> usys \<Rightarrow> usys" where
  "GetSystemCheckVersion VERSION trigger w y =
     (case CheckAppUpdate VERSION w (us_up y) of
        (None, s) \<Rightarrow> y\<lparr>us_up := s\<rparr>
      | (Some r, s) \<Rightarrow>
          if HasUpdate r \<and> \<not> IsDownloaded r \<and> \<not> IsDownloading r \<and> trigger then spawn True (DownloadAppUpdate s) y
          else y\<lparr>us_up := s\<rparr>)"

text \<open>A round of \<^verbatim>\<open>StartDailyDownloadChecker\<close>: nothing catches a panic in its goroutine, which ends the process.\<close>

definition dailyOs :: "string \<Rightarrow> world \<Rightarrow> usys \<Rightarrow> usys" where
  "dailyOs VERSION w y =
     (if fst (CheckUpdate VERSION w (us_up y)) = None then reboot y else GetFirmwareCheckVersion VERSION True w y)"

definition dailyApp :: "string \<Rightarrow> world \<Rightarrow> usys \<Rightarrow> usys" where
  "dailyApp VERSION w y =
     (if fst (CheckAppUpdate VERSION w (us_up y)) = None then reboot y else GetSystemCheckVersion VERSION True w y)"

definition runThread :: "string \<Rightarrow> (string \<Rightarrow> string) \<Rightarrow> nat \<Rightarrow> world \<Rightarrow> usys \<Rightarrow> usys" where
  "runThread VERSION sha n w y =
     (case us_threads y n of
        None \<Rightarrow> y
      | Some t \<Rightarrow>
          (case (if t_app t then runAppDownload VERSION sha w t (us_up y) else runDownload VERSION sha w t (us_up y)) of
             Next t' s \<Rightarrow> y\<lparr>us_up := s, us_threads := (us_threads y)(n := Some t')\<rparr>
           | Exit s \<Rightarrow> y\<lparr>us_up := s, us_threads := (us_threads y)(n := None)\<rparr>
           | Panic \<Rightarrow> reboot y))"

definition runJob :: "nat \<Rightarrow> scriptOutcome \<Rightarrow> world \<Rightarrow> usys \<Rightarrow> usys" where
  "runJob k r w y =
     (if k < length (us_jobs y)
      then (let j = us_jobs y ! k in
            if \<not> j_ran j then y\<lparr>us_up := installRun j (us_up y), us_jobs := (us_jobs y)[k := j\<lparr>j_ran := True\<rparr>]\<rparr>
            else (case installEnd r w j (us_up y) of
                    (rebooting, s) \<Rightarrow>
                      (let y = y\<lparr>us_up := s, us_jobs := take k (us_jobs y) @ drop (Suc k) (us_jobs y)\<rparr> in
                       if rebooting then reboot y else y)))
      else y)"

datatype action =
    ACheck bool world
  | ACheckApp bool world
  | ACancel
  | ADailyOs world
  | ADailyApp world
  | AThread nat world
  | AUpdate lockProbe world
  | AJob nat scriptOutcome world
  | AUpdateApp lockProbe world world world world
  | ARestart world

definition uact :: "string \<Rightarrow> (string \<Rightarrow> string) \<Rightarrow> action \<Rightarrow> usys \<Rightarrow> usys" where
  "uact VERSION sha a y =
     (case a of
        ACheck trigger w \<Rightarrow> GetFirmwareCheckVersion VERSION trigger w y
      | ACheckApp trigger w \<Rightarrow> GetSystemCheckVersion VERSION trigger w y
      | ACancel \<Rightarrow> y\<lparr>us_up := CancelAppDownload (CancelDownload (us_up y))\<rparr>
      | ADailyOs w \<Rightarrow> dailyOs VERSION w y
      | ADailyApp w \<Rightarrow> dailyApp VERSION w y
      | AThread n w \<Rightarrow> runThread VERSION sha n w y
      | AUpdate lock w \<Rightarrow>
          (case UpdateSystemVersion VERSION lock w (us_up y) of Inl _ \<Rightarrow> y | Inr j \<Rightarrow> y\<lparr>us_jobs := us_jobs y @ [j]\<rparr>)
      | AJob k r w \<Rightarrow> runJob k r w y
      | AUpdateApp lock w1 w2 w3 w4 \<Rightarrow> y\<lparr>us_up := snd (UpdateAppVersion VERSION lock w1 w2 w3 w4 (us_up y))\<rparr>
      | ARestart w \<Rightarrow> (reboot y)\<lparr>us_up := SyncStartupUpgradeStatus VERSION w (us_up (reboot y))\<rparr>)"

definition urun :: "string \<Rightarrow> (string \<Rightarrow> string) \<Rightarrow> action list \<Rightarrow> usys \<Rightarrow> usys" where
  "urun VERSION sha acts y = fold (uact VERSION sha) acts y"

end
