(* ===== verification/UpgradeSafe.thy ===== *)
theory UpgradeSafe
  imports UpgradeSystem
begin

text \<open>
  What the steps of the update service may do to the disk. \<open>ev P\<close> says that a step gives names and changes bytes only at the
  paths \<open>P\<close> its author owns; the locale \<open>disjoint_owners\<close> derives that the files and open descriptors of one owner survive the steps
  of another. The system downloads, the application downloads and the finished bundles are its instances.
\<close>

section \<open>Owners\<close>

definition upDir :: "string list" where
  "upDir = [''var'', ''lib'', ''nimoos_data'', ''upgrade'']"

definition ino :: "upState \<Rightarrow> string list \<Rightarrow> string option" where
  "ino s p = (case fsGet (u_fs s) p of Some (RegularFile i) \<Rightarrow> Some i | _ \<Rightarrow> None)"

definition ev :: "(string list \<Rightarrow> bool) \<Rightarrow> upState \<Rightarrow> upState \<Rightarrow> bool" where
  "ev P s s' =
     (u_next s \<le> u_next s' \<and>
      (\<forall>p i. ino s' p = Some i \<longrightarrow>
         ino s p = Some i \<or> P p \<and> ((\<exists>k \<ge> u_next s. i = Itoa k) \<or> (\<exists>q. P q \<and> ino s q = Some i))) \<and>
      (\<forall>i. u_data s' i \<noteq> u_data s i \<longrightarrow> (\<forall>p. ino s p = Some i \<longrightarrow> P p)))"

definition oldIno :: "upState \<Rightarrow> string \<Rightarrow> bool" where
  "oldIno s i = (\<exists>m < u_next s. i = Itoa m)"

locale disjoint_owners =
  fixes mine theirs :: "string list \<Rightarrow> bool"
  assumes apart_owners: "mine p \<Longrightarrow> \<not> theirs p"
begin

lemma fd_stable:
  assumes "ev theirs s s'" "oldIno s i" "\<And>p. ino s p = Some i \<Longrightarrow> mine p" "ino s' p = Some i"
  shows "mine p"
proof -
  have "ino s p = Some i \<or> (\<exists>k \<ge> u_next s. i = Itoa k) \<or> (\<exists>q. theirs q \<and> ino s q = Some i)"
    using assms(1,4) by (auto simp: ev_def)
  moreover have "\<not> (\<exists>k \<ge> u_next s. i = Itoa k)" using assms(2) Itoa_inj by (fastforce simp: oldIno_def)
  ultimately show ?thesis using assms(3) apart_owners by blast
qed

lemma file_stable:
  assumes "ev theirs s s'" "mine p" "ino s' p = Some i"
  shows "ino s p = Some i \<and> u_data s' i = u_data s i"
proof -
  have "ino s p = Some i" using assms apart_owners [OF assms(2)] by (auto simp: ev_def)
  moreover have "u_data s' i = u_data s i" using assms(1) calculation apart_owners [OF assms(2)] unfolding ev_def by blast
  ultimately show ?thesis by simp
qed

end

lemma oldIno_ev: "ev P s s' \<Longrightarrow> oldIno s i \<Longrightarrow> oldIno s' i"
  unfolding oldIno_def ev_def by (elim exE conjE) (rule exI, rule conjI, erule (1) less_le_trans)

lemma ev_mono: "ev P s s' \<Longrightarrow> (\<And>p. P p \<Longrightarrow> Q p) \<Longrightarrow> ev Q s s'"
  unfolding ev_def by blast

lemma ev_quiet: "u_next s' = u_next s \<Longrightarrow> u_data s' = u_data s \<Longrightarrow> (\<And>p i. ino s' p = Some i \<Longrightarrow> ino s p = Some i) \<Longrightarrow> ev P s s'"
  by (auto simp: ev_def)

text \<open>The three owners below the upgrade directory.\<close>

definition ownApp :: "string list \<Rightarrow> bool" where
  "ownApp p = (\<exists>d. p = upDir @ [d, ''bundle.tar.gz.tmp''] \<or> p = upDir @ [d, ''bundle.tar.gz''])"

definition ownTmp :: "string list \<Rightarrow> bool" where
  "ownTmp p = (\<exists>d x. p = upDir @ [d, x @ ''.raucb.tmp''])"

definition ownOs :: "string list \<Rightarrow> bool" where
  "ownOs p = (ownTmp p \<or> (\<exists>d x. p = upDir @ [d, x @ ''.raucb'']))"

definition bundlePath :: "string list \<Rightarrow> bool" where
  "bundlePath p = (\<exists>d x. p = upDir @ [d, x] \<and> Ext x = ''.raucb'')"

lemma own_names:
  "''bundle.tar.gz.tmp'' \<noteq> x @ ''.raucb.tmp''" "''bundle.tar.gz.tmp'' \<noteq> x @ ''.raucb''"
  "''bundle.tar.gz'' \<noteq> x @ ''.raucb.tmp''" "''bundle.tar.gz'' \<noteq> x @ ''.raucb''"
  by (rule notI, drule arg_cong [where f = rev], simp)+

lemma Ext_tmp: "Ext (x @ ''.raucb.tmp'') = ''.tmp''"
  by (simp add: Ext_def PathSplit_def Let_def)

interpretation app_os: disjoint_owners ownApp ownOs
  by unfold_locales (use own_names in \<open>auto simp only: ownApp_def ownOs_def ownTmp_def append_same_eq same_append_eq list.inject\<close>)

interpretation os_app: disjoint_owners ownOs ownApp
  by unfold_locales (use app_os.apart_owners in blast)

interpretation bundle_app: disjoint_owners bundlePath ownApp
  by unfold_locales (auto simp: bundlePath_def ownApp_def Ext_def PathSplit_def Let_def)

interpretation bundle_tmp: disjoint_owners bundlePath ownTmp
  by unfold_locales (auto simp: bundlePath_def ownTmp_def Ext_tmp)

section \<open>The disk\<close>

text \<open>Every regular file has one name, the inodes in use have been handed out, and no directory is in the place of a temporary file.\<close>

definition nsOk :: "upState \<Rightarrow> bool" where
  "nsOk s = (fsWF (u_fs s) \<and> (\<forall>p q i. ino s p = Some i \<longrightarrow> ino s q = Some i \<longrightarrow> p = q) \<and>
     (\<forall>p i. ino s p = Some i \<longrightarrow> oldIno s i) \<and>
     (\<forall>d x. fsGet (u_fs s) (upDir @ [d, x @ ''.tmp'']) \<noteq> Some Directory))"

lemma ino_iff: "ino s p = Some i \<longleftrightarrow> fsGet (u_fs s) p = Some (RegularFile i)"
  by (auto simp: ino_def split: option.splits node.splits)

definition good :: "(string list \<Rightarrow> bool) \<Rightarrow> upState \<Rightarrow> upState \<Rightarrow> bool" where
  "good P s s' = (nsOk s \<longrightarrow> nsOk s' \<and> ev P s s')"

definition sameDisk :: "upState \<Rightarrow> upState \<Rightarrow> bool" where
  "sameDisk s s' = (u_fs s' = u_fs s \<and> u_data s' = u_data s \<and> u_next s' = u_next s)"

lemma good_mono: "good P s s' \<Longrightarrow> (\<And>p. P p \<Longrightarrow> Q p) \<Longrightarrow> good Q s s'"
  unfolding good_def using ev_mono by blast

lemma sameDisk_ino: "sameDisk s s' \<Longrightarrow> ino s' = ino s"
  by (auto simp: sameDisk_def ino_def)

lemma sameDisk_nsOk: "sameDisk s s' \<Longrightarrow> nsOk s' = nsOk s"
  by (simp add: nsOk_def sameDisk_ino oldIno_def) (simp add: sameDisk_def)

lemma sameDisk_ev1: "sameDisk s s' \<Longrightarrow> ev P s' s'' = ev P s s''"
  unfolding ev_def by (simp add: sameDisk_ino) (simp add: sameDisk_def)

lemma sameDisk_ev2: "sameDisk s' s'' \<Longrightarrow> ev P s s'' = ev P s s'"
  unfolding ev_def by (simp add: sameDisk_ino) (simp add: sameDisk_def)

lemma good_sameDisk1: "sameDisk s s' \<Longrightarrow> good P s' s'' \<longleftrightarrow> good P s s''"
  by (simp add: good_def sameDisk_nsOk sameDisk_ev1)

lemma good_sameDisk2: "sameDisk s' s'' \<Longrightarrow> good P s s'' \<longleftrightarrow> good P s s'"
  by (simp add: good_def sameDisk_nsOk sameDisk_ev2)

lemma good_refl: "good P s s"
  by (simp add: good_def ev_def)

lemma good_same: "sameDisk s s' \<Longrightarrow> good P s s'"
  using good_sameDisk2 good_refl by blast

text \<open>Removing names.\<close>

lemma good_shrink:
  assumes "u_data s' = u_data s" "u_next s' = u_next s" "fsWF (u_fs s) \<Longrightarrow> fsWF (u_fs s')"
    "\<And>p n. fsGet (u_fs s') p = Some n \<Longrightarrow> fsGet (u_fs s) p = Some n"
  shows "good P s s'"
  unfolding good_def
proof (intro impI conjI)
  assume ok: "nsOk s"
  have i: "ino s p = Some i" if "ino s' p = Some i" for p i using assms(4) that by (simp add: ino_iff)
  show "ev P s s'" by (rule ev_quiet [OF assms(2,1)]) (rule i)
  show "nsOk s'" using ok assms i unfolding nsOk_def oldIno_def by metis
qed

lemma good_removeTmp: "good P s (removeTmp t s)"
proof (cases "fsRemove (u_fs s) (t_tmp t)")
  case (Inl e)
  then show ?thesis by (simp add: removeTmp_def onFs_def good_refl)
next
  case (Inr f)
  then show ?thesis
    by (intro good_shrink) (auto simp: removeTmp_def onFs_def fsRemove_wf fsRemove_get split: if_splits)
qed

lemma fold_removeAll:
  "fsWF f \<Longrightarrow> fsWF (fold (\<lambda>(n, isDir) f. if c n isDir then fsRemoveAll f (upDir @ [n]) else f) es f)"
  "fsGet (fold (\<lambda>(n, isDir) f. if c n isDir then fsRemoveAll f (upDir @ [n]) else f) es f) p = Some x \<Longrightarrow> fsGet f p = Some x"
proof (induction es arbitrary: f)
  case (Cons e es)
  {
    case 1
    then show ?case using Cons.IH(1) by (cases e) (simp add: fsRemoveAll_wf)
  next
    case 2
    then show ?case using Cons.IH(2) by (cases e) (fastforce simp: fsRemoveAll_get split: if_splits)
  }
qed simp_all

lemma segs_upgradeDir [simp]: "segs upgradeDir = upDir"
  by (simp add: upgradeDir_def upDir_def segs_def comps_def)

lemma cleanDirs_shrinks:
  "\<exists>f. cleanDirs old w s = s\<lparr>u_fs := f\<rparr> \<and> (fsWF (u_fs s) \<longrightarrow> fsWF f) \<and> (\<forall>p n. fsGet f p = Some n \<longrightarrow> fsGet (u_fs s) p = Some n)"
proof (cases "ReadDir upDir (u_fs s)")
  case (Inl e)
  then show ?thesis by (intro exI [of _ "u_fs s"]) (simp add: cleanDirs_def)
next
  case (Inr es)
  let ?c = "\<lambda>n isDir. isDir \<and> old n \<and> n \<notin> set (w_stuck w)"
  let ?f = "fold (\<lambda>(n, isDir) f. if ?c n isDir then fsRemoveAll f (upDir @ [n]) else f) es (u_fs s)"
  have "cleanDirs old w s = s\<lparr>u_fs := ?f\<rparr>" unfolding cleanDirs_def segs_upgradeDir using Inr by simp
  then show ?thesis using fold_removeAll [where c = ?c and es = es and f = "u_fs s"] by blast
qed

lemma good_cleanDirs: "good P s (cleanDirs old w s)"
  using cleanDirs_shrinks [of old w s] by (auto intro!: good_shrink)

text \<open>Making a version directory.\<close>

lemma good_mkdir:
  assumes "fsMkdirAll (u_fs s) (upDir @ [d]) = Inr f"
  shows "good P s (s\<lparr>u_fs := f\<rparr>)"
  unfolding good_def
proof (intro impI conjI)
  assume ok: "nsOk s"
  let ?s = "s\<lparr>u_fs := f\<rparr>"
  have i: "ino ?s p = Some i \<longleftrightarrow> ino s p = Some i" for p i
    using fsMkdirAll_get [OF assms, of p] by (auto simp: ino_iff)
  show "ev P s ?s" by (rule ev_quiet) (simp_all add: i)
  have "fsGet f (upDir @ [e, x @ ''.tmp'']) = fsGet (u_fs s) (upDir @ [e, x @ ''.tmp''])" for e x
    using fsMkdirAll_get [OF assms, of "upDir @ [e, x @ ''.tmp'']"] by (auto dest: prefix_length_le)
  then show "nsOk ?s" using ok fsMkdirAll_wf [OF _ assms] i by (auto simp: nsOk_def oldIno_def)
qed

lemma good_onMkdir: "good P s (onFs (\<lambda>f. fsMkdirAll f (upDir @ [d])) s)"
  by (auto simp: onFs_def good_refl good_mkdir split: sum.splits)

text \<open>Writing.\<close>

lemma good_write:
  assumes "\<And>p. ino s p = Some i \<Longrightarrow> P p"
  shows "good P s (s\<lparr>u_data := (u_data s)(i := b)\<rparr>)"
proof -
  have "ino (s\<lparr>u_data := (u_data s)(i := b)\<rparr>) = ino s" by (simp add: ino_def fun_eq_iff)
  then show ?thesis using assms by (auto simp: good_def ev_def nsOk_def oldIno_def)
qed

lemma openWrite_good:
  assumes run: "openWrite trunc p s = Inr (i, s')" and ok: "nsOk s" and P: "P p"
  shows "good P s s'" "ino s' p = Some i" "oldIno s' i" "\<And>q. ino s' q = Some i \<Longrightarrow> q = p"
proof -
  have "good P s s' \<and> ino s' p = Some i \<and> oldIno s' i"
  proof (cases "ino s p")
    case (Some j)
    then have g: "fsGet (u_fs s) p = Some (RegularFile j)" by (simp add: ino_iff)
    then have "i = j" "s' = (if trunc then s\<lparr>u_data := (u_data s)(i := [])\<rparr> else s)"
      using run by (auto simp: openWrite_def)
    moreover have "good P s (s\<lparr>u_data := (u_data s)(j := [])\<rparr>)"
      using ok Some P by (intro good_write) (auto simp: nsOk_def)
    ultimately show ?thesis using Some ok by (auto simp: good_refl nsOk_def ino_def oldIno_def)
  next
    case None
    then obtain f where f: "fsCreate (u_fs s) p (Itoa (u_next s)) = Inr f" and i: "i = Itoa (u_next s)"
      and s': "s' = s\<lparr>u_fs := f, u_data := (u_data s)(i := []), u_next := Suc (u_next s)\<rparr>"
      using run by (auto simp: openWrite_def ino_def split: option.splits node.splits sum.splits)
    have new: "ino s q \<noteq> Some i" for q using ok i Itoa_inj by (fastforce simp: nsOk_def oldIno_def)
    have get: "ino s' q = (if q = p then Some i else ino s q)" for q
      using fsCreate_get [OF f, of q] by (simp add: s' i ino_def)
    have nodir: "fsGet (u_fs s') (upDir @ [d, x @ ''.tmp'']) \<noteq> Some Directory" for d x
      using fsCreate_get [OF f, of "upDir @ [d, x @ ''.tmp'']"] ok by (auto simp: s' nsOk_def)
    have old: "oldIno s' j" if "ino s' q = Some j" for q j
      using that get [of q] ok by (auto simp: nsOk_def oldIno_def s' i less_Suc_eq split: if_splits) (metis less_Suc_eq)+
    have "ev P s s'" using P new get by (auto simp: ev_def s' i)
    moreover have "nsOk s'"
      unfolding nsOk_def using ok get new nodir old fsCreate_wf [OF _ f] by (auto simp: nsOk_def s' split: if_splits)
    ultimately show ?thesis using get by (auto simp: good_def oldIno_def s' i)
  qed
  then show "good P s s'" "ino s' p = Some i" "oldIno s' i" by simp_all
  show "q = p" if "ino s' q = Some i" for q
    using that \<open>good P s s' \<and> ino s' p = Some i \<and> oldIno s' i\<close> ok by (auto simp: good_def nsOk_def)
qed

text \<open>Moving a temporary file to its final name.\<close>

lemma rename_good:
  assumes run: "fsRename (u_fs s) (upDir @ [d, x @ ''.tmp'']) q = Inr f" and ok: "nsOk s"
    and P: "P (upDir @ [d, x @ ''.tmp''])" "P q" and q: "q = upDir @ [e, y]"
  shows "good P s (s\<lparr>u_fs := f\<rparr>) \<and>
    (\<exists>i. ino s (upDir @ [d, x @ ''.tmp'']) = Some i \<and> (\<forall>r. ino (s\<lparr>u_fs := f\<rparr>) r =
       (if r = q then Some i else if r = upDir @ [d, x @ ''.tmp''] then None else ino s r)))"
proof -
  let ?p = "upDir @ [d, x @ ''.tmp'']" and ?s = "s\<lparr>u_fs := f\<rparr>"
  have "fsGet (u_fs s) ?p \<noteq> Some Directory" using ok by (auto simp: nsOk_def)
  moreover have "fsGet (u_fs s) ?p \<noteq> None" using run by (auto simp: fsRename_def split: option.splits)
  ultimately obtain i where i: "fsGet (u_fs s) ?p = Some (RegularFile i)" by (auto split: node.splits) (metis node.exhaust)
  have wf: "fsWF (u_fs s)" using ok by (simp add: nsOk_def)
  note get = fsRename_file_get [OF wf i run]
  have ino: "ino ?s r = (if r = q then Some i else if r = ?p then None else ino s r)" for r
    using get [of r] by (simp add: ino_def)
  have io: "ino s ?p = Some i" using i by (simp add: ino_iff)
  have "ev P s ?s" using P io by (auto simp: ev_def ino)
  moreover have "nsOk ?s"
    using ok io fsRename_wf [OF wf i run] get unfolding nsOk_def oldIno_def ino
    by (auto split: if_splits)
  ultimately show ?thesis using io ino by (auto simp: good_def)
qed

end
