(* ===== verification/UpgradeSteps.thy ===== *)
theory UpgradeSteps
  imports UpgradeSafe
begin

text \<open>
  Every step of the download goroutines and of an installation writes only at the paths of its owner, keeps the finished system
  bundles verified, and leaves the goroutine in a state from which the next step does so too.
\<close>

section \<open>Paths\<close>

lemma segs_below: "proper n \<Longrightarrow> segs (upgradeDir @ ''/'' @ n) = upDir @ [n]"
  by (simp add: segs_append_slash comps_proper_name proper_def resolve_proper)

lemma segs_osDir: "slash \<notin> set v \<Longrightarrow> segs (osDir v) = upDir @ [''v'' @ v]"
  using segs_below [of "''v'' @ v"] by (simp add: osDir_def proper_def)

lemma segs_appDir: "slash \<notin> set v \<Longrightarrow> segs (appDir v) = upDir @ [''app_v'' @ v]"
  using segs_below [of "''app_v'' @ v"] by (simp add: appDir_def proper_def)

lemma rooted_dirs: "rooted (osDir v)" "rooted (appDir v)"
  by (simp_all add: osDir_def appDir_def upgradeDir_def)

lemma segs_osFile: "slash \<notin> set v \<Longrightarrow> proper n \<Longrightarrow> segs (Join [osDir v, n]) = upDir @ [''v'' @ v, n]"
  using segs_Join2 [OF rooted_dirs(1), of n v] by (simp add: segs_osDir comps_proper_name)

lemma appBundle_segs: "slash \<notin> set v \<Longrightarrow> appBundle v = upDir @ [''app_v'' @ v, ''bundle.tar.gz'']"
  using segs_Join2 [OF rooted_dirs(2), of "''bundle.tar.gz''" v]
  by (simp add: appBundle_def segs_appDir comps_proper_name proper_def)

lemma path_of_snoc_app: "path_of (ds @ [x]) @ y = path_of (ds @ [x @ y])"
  by (cases "ds = []") (simp_all add: path_of_def StrJoin_append)

lemma appTmp_segs:
  assumes "slash \<notin> set v"
  shows "segs (Join [appDir v, ''bundle.tar.gz''] @ ''.tmp'') = upDir @ [''app_v'' @ v, ''bundle.tar.gz.tmp'']"
proof -
  let ?ds = "upDir @ [''app_v'' @ v]"
  have "comps ''bundle.tar.gz'' = [''bundle.tar.gz'']" by (simp add: comps_def)
  moreover have p: "list_all proper ?ds" using assms by (simp add: upDir_def proper_def)
  ultimately have "Join [appDir v, ''bundle.tar.gz''] = path_of (?ds @ [''bundle.tar.gz''])"
    using assms by (simp add: Join2_rooted [OF rooted_dirs(2)] segs_appDir)
  then have "Join [appDir v, ''bundle.tar.gz''] @ ''.tmp'' = path_of (?ds @ [''bundle.tar.gz.tmp''])"
    using path_of_snoc_app [of ?ds "''bundle.tar.gz''" "''.tmp''"] by simp
  moreover have "list_all proper (?ds @ [''bundle.tar.gz.tmp''])" using p by (simp add: proper_def)
  ultimately show ?thesis by simp
qed

lemma good_removeTmp_after:
  assumes "good P s s1"
  shows "good P s (removeTmp t s1)"
proof -
  have "u_data (removeTmp t s1) = u_data s1" "u_next (removeTmp t s1) = u_next s1"
    "\<And>p i. ino (removeTmp t s1) p = Some i \<Longrightarrow> ino s1 p = Some i"
    by (auto simp: removeTmp_def onFs_def ino_iff fsRemove_get split: sum.splits if_splits)
  then show ?thesis using assms good_removeTmp [of P s1 t] unfolding good_def ev_def by metis
qed

section \<open>What holds of the disk and of a goroutine\<close>

definition verified :: "(string \<Rightarrow> string) \<Rightarrow> versionInfo set \<Rightarrow> string \<Rightarrow> bool" where
  "verified sha A bytes = (\<exists>vi \<in> A. EqualFold (sha bytes) (SHA256 vi))"

definition bundleOk :: "(string \<Rightarrow> string) \<Rightarrow> versionInfo set \<Rightarrow> upState \<Rightarrow> bool" where
  "bundleOk sha A s = (\<forall>p i. ino s p = Some i \<longrightarrow> bundlePath p \<longrightarrow> verified sha A (u_data s i))"

definition typed :: "upState \<Rightarrow> bool" where
  "typed s = (\<forall>e \<in> set (u_cloud s). cv_type (snd e) \<noteq> 1)"

definition okInfo :: "versionInfo set \<Rightarrow> versionInfo \<Rightarrow> bool" where
  "okInfo A vi = (slash \<notin> set (Version vi) \<and> (\<exists>v \<in> A. SHA256 vi = SHA256 v))"

definition worldOk :: "versionInfo set \<Rightarrow> world \<Rightarrow> bool" where
  "worldOk A w = (\<forall>c vi. w_cloud w = HttpReply c (BodyVersion vi) \<longrightarrow> vi \<in> A \<and> slash \<notin> set (Version vi))"

definition threadOk :: "(string \<Rightarrow> string) \<Rightarrow> versionInfo set \<Rightarrow> upState \<Rightarrow> thread \<Rightarrow> bool" where
  "threadOk sha A s t =
     ((t_pc t \<notin> {PLocal, PCheck, PQuery} \<longrightarrow> okInfo A (t_best t)) \<and>
      (t_pc t \<notin> {PLocal, PCheck, PQuery, PPrepare} \<longrightarrow>
         (if t_app t then \<exists>d. t_tmp t = upDir @ [d, ''bundle.tar.gz.tmp''] \<and> t_final t = upDir @ [d, ''bundle.tar.gz'']
          else \<exists>d x. t_tmp t = upDir @ [d, x @ ''.raucb.tmp''] \<and> t_final t = upDir @ [d, x @ ''.raucb''])) \<and>
      (t_pc t \<in> {PLoop, PRead} \<longrightarrow>
         oldIno s (t_ino t) \<and> (\<forall>p. ino s p = Some (t_ino t) \<longrightarrow> (if t_app t then ownApp p else ownTmp p))) \<and>
      (\<not> t_app t \<and> t_pc t = PRename \<longrightarrow> (\<forall>i. ino s (t_tmp t) = Some i \<longrightarrow> verified sha A (u_data s i))))"

text \<open>A step that leaves the disk alone, and a step of an owner.\<close>

definition osInstalls :: "upState \<Rightarrow> (string \<times> string \<times> string) list" where
  "osInstalls s = filter (\<lambda>e. fst e = ''os'') (u_installs s)"

definition calm :: "upState \<Rightarrow> upState \<Rightarrow> bool" where
  "calm s s' = (sameDisk s s' \<and> osInstalls s' = osInstalls s \<and> (typed s \<longrightarrow> typed s'))"

definition safe :: "(string \<Rightarrow> string) \<Rightarrow> versionInfo set \<Rightarrow> (string list \<Rightarrow> bool) \<Rightarrow> upState \<Rightarrow> upState \<Rightarrow> bool" where
  "safe sha A P s s' = (nsOk s \<and> bundleOk sha A s \<longrightarrow>
     good P s s' \<and> bundleOk sha A s' \<and> osInstalls s' = osInstalls s \<and> (typed s \<longrightarrow> typed s'))"

lemma calm_refl: "calm s s"
  by (simp add: calm_def sameDisk_def)

lemma calm_trans: "calm s s' \<Longrightarrow> calm s' s'' \<Longrightarrow> calm s s''"
  by (simp add: calm_def sameDisk_def)

lemma bundleOk_sameDisk: "sameDisk s s' \<Longrightarrow> bundleOk sha A s' = bundleOk sha A s"
  unfolding bundleOk_def by (simp only: sameDisk_ino) (simp only: sameDisk_def)

lemma safe_calm: "calm s s' \<Longrightarrow> safe sha A P s s'"
  using bundleOk_sameDisk by (auto simp: safe_def calm_def good_same)

lemma safe_calm1: "calm s s' \<Longrightarrow> safe sha A P s' s'' \<Longrightarrow> safe sha A P s s''"
  by (auto simp: safe_def calm_def bundleOk_sameDisk sameDisk_nsOk good_sameDisk1)

lemma safe_calm2: "safe sha A P s s' \<Longrightarrow> calm s' s'' \<Longrightarrow> safe sha A P s s''"
  by (auto simp: safe_def calm_def bundleOk_sameDisk good_sameDisk2)

text \<open>A step of an owner that owns no finished bundle keeps them all.\<close>

lemma bundleOk_ev:
  assumes "bundleOk sha A s" "ev P s s'" "P = ownApp \<or> P = ownTmp"
  shows "bundleOk sha A s'"
  using assms bundle_app.file_stable bundle_tmp.file_stable by (fastforce simp: bundleOk_def)

lemma safeI:
  assumes "good P s s'" "P = ownApp \<or> P = ownTmp" "u_installs s' = u_installs s" "u_cloud s' = u_cloud s"
  shows "safe sha A P s s'"
  using assms bundleOk_ev [of sha A s P s'] by (auto simp: safe_def good_def typed_def osInstalls_def)

lemma safe_mono: "safe sha A P s s' \<Longrightarrow> (\<And>p. P p \<Longrightarrow> Q p) \<Longrightarrow> safe sha A Q s s'"
  by (auto simp: safe_def intro: good_mono)

lemma ownTmp_ownOs: "ownTmp p \<Longrightarrow> ownOs p"
  by (simp add: ownOs_def)

section \<open>Checks are calm\<close>

lemma calm_fields:
  "calm s (s\<lparr>u_os := a\<rparr>)" "calm s (s\<lparr>u_app := a\<rparr>)" "calm s (s\<lparr>u_check := c\<rparr>)" "calm s (s\<lparr>u_appCheck := c\<rparr>)"
  "calm s (s\<lparr>u_reports := r\<rparr>)" "calm s (s\<lparr>u_events := e\<rparr>)" "calm s (s\<lparr>u_cancelled := x\<rparr>)" "calm s (s\<lparr>u_nextCtx := n\<rparr>)"
  "calm s (s\<lparr>u_appStatus := sa\<rparr>)" "calm s (s\<lparr>u_osStatus := so\<rparr>)"
  by (simp_all add: calm_def sameDisk_def typed_def osInstalls_def)

lemma calm_setStatus: "calm s (setDownloaderStatus st s)" "calm s (setAppDownloaderStatus st s)"
  by (simp_all add: setDownloaderStatus_def setAppDownloaderStatus_def calm_fields)

lemma calm_report: "calm s (reportUpgradeResult a b c d e s)" "calm s (publish ev' v s)"
  by (simp_all add: reportUpgradeResult_def publish_def calm_fields)

lemma set_update_mem: "e \<in> set (AList.update k v al) \<Longrightarrow> e = (k, v) \<or> e \<in> set al"
  by (induction al) (auto split: if_splits)

lemma calm_setCloud: "ty \<noteq> 1 \<Longrightarrow> calm s (setCloud k ty has vi s)"
  by (auto simp: calm_def sameDisk_def typed_def setCloud_def osInstalls_def dest!: set_update_mem)

lemma calm_cachedCheck: "calm s (snd (cachedCheck w s))"
  by (auto simp: cachedCheck_def calm_refl calm_fields split: option.splits)

lemma calm_cachedAppCheck: "calm s (snd (cachedAppCheck w s))"
  by (auto simp: cachedAppCheck_def calm_refl calm_fields split: option.splits)

lemma calm_CheckUpdate: "calm s (snd (CheckUpdate V w s))"
proof -
  obtain c s1 where c: "cachedCheck w s = (c, s1)" by force
  then have s1: "calm s s1" using calm_cachedCheck [of s w] by simp
  have "calm s1 (snd (CheckUpdate V w s))"
    by (simp add: CheckUpdate_def c calm_refl calm_fields Let_def split: option.splits sum.splits bool.splits prod.splits)
  then show ?thesis using calm_trans [OF s1] by simp
qed

text \<open>The cached answer of the cloud is never used: its type is declared elsewhere.\<close>

lemma checkAppCloudUpdate_fetches:
  assumes "checkAppCloudUpdate cur w s = (r, s')"
  shows "calm s s'" "typed s \<Longrightarrow> r = checkCloudUpdate (w_cloud w)"
proof -
  show "calm s s'"
    using assms by (auto simp: checkAppCloudUpdate_def Let_def calm_refl calm_setCloud
        split: option.splits cloudReply.splits cloudBody.splits if_splits)
  have "cv_type cv \<noteq> 1" if "typed s" "map_of (u_cloud s) k = Some cv" for k cv
    using that map_of_SomeD [OF that(2)] by (auto simp: typed_def)
  then show "typed s \<Longrightarrow> r = checkCloudUpdate (w_cloud w)"
    using assms by (auto simp: checkAppCloudUpdate_def checkCloudUpdate_def Let_def
        split: option.splits cloudReply.splits cloudBody.splits if_splits)
qed

lemma calm_CheckAppUpdate: "calm s (snd (CheckAppUpdate V w s))"
proof -
  obtain c s1 where c: "cachedAppCheck w s = (c, s1)" by force
  then have s1: "calm s s1" using calm_cachedAppCheck [of s w] by simp
  have "calm s1 (snd (CheckAppUpdate V w s))"
  proof (cases "c = None \<and> readLocalVersionInfo w \<noteq> None")
    case True
    then obtain l where l: "c = None" "readLocalVersionInfo w = Some l" by auto
    obtain r s2 where r: "checkAppCloudUpdate (currentApp V l) w s1 = (r, s2)" by force
    have "calm s2 (snd (CheckAppUpdate V w s))"
      by (simp add: CheckAppUpdate_def c l r calm_refl calm_fields Let_def split: option.splits sum.splits bool.splits prod.splits)
    then show ?thesis using calm_trans [OF checkAppCloudUpdate_fetches(1) [OF r]] by simp
  next
    case False
    then show ?thesis
      by (auto simp: CheckAppUpdate_def c calm_refl calm_fields split: option.splits)
  qed
  then show ?thesis using calm_trans [OF s1] by simp
qed

lemma checkCloudUpdate_okInfo: "checkCloudUpdate (w_cloud w) = Inr (True, Some best) \<Longrightarrow> worldOk A w \<Longrightarrow> okInfo A best"
  by (auto simp: checkCloudUpdate_def worldOk_def okInfo_def split: cloudReply.splits cloudBody.splits if_splits)

section \<open>Steps of the system download\<close>

definition stepOk :: "(string \<Rightarrow> string) \<Rightarrow> versionInfo set \<Rightarrow> (string list \<Rightarrow> bool) \<Rightarrow> thread \<Rightarrow> upState \<Rightarrow> outcome \<Rightarrow> bool" where
  "stepOk sha A P t s r =
     (case r of
        Next t' s' \<Rightarrow> safe sha A P s s' \<and> (nsOk s \<longrightarrow> threadOk sha A s' t') \<and> t_app t' = t_app t
      | Exit s' \<Rightarrow> safe sha A P s s'
      | Panic \<Rightarrow> True)"

lemma stepOk_fail: "stepOk sha A P t s (failOs s)" "stepOk sha A P t s (failApp s)"
  by (simp_all add: stepOk_def failOs_def failApp_def safe_calm calm_setStatus)

lemma safe_removeTmp_after:
  assumes "safe sha A P s s1" "P = ownApp \<or> P = ownTmp"
  shows "safe sha A P s (removeTmp t s1)"
proof -
  have "u_installs (removeTmp t s1) = u_installs s1" "u_cloud (removeTmp t s1) = u_cloud s1"
    by (auto simp: removeTmp_def onFs_def split: sum.splits)
  moreover have "nsOk s \<Longrightarrow> bundleOk sha A s \<Longrightarrow> good P s s1 \<Longrightarrow> bundleOk sha A (removeTmp t s1)"
    using bundleOk_ev [OF _ _ assms(2)] good_removeTmp_after [of P s s1 t] by (auto simp: good_def)
  ultimately show ?thesis using assms(1) good_removeTmp_after [of P s s1 t] by (auto simp: safe_def typed_def osInstalls_def)
qed

lemma safe_removeTmp: "P = ownApp \<or> P = ownTmp \<Longrightarrow> safe sha A P s (removeTmp t s)"
  by (rule safe_removeTmp_after [OF safe_calm [OF calm_refl]])

lemma stepOk_failRemoved:
  assumes "P = ownApp \<or> P = ownTmp"
  shows "stepOk sha A P t s (failOs (removeTmp t s))" "stepOk sha A P t s (failApp (removeTmp t s))"
    "stepOk sha A P t s (failOs (reportUpgradeResult a b c d e (removeTmp t s)))"
    "stepOk sha A P t s (failApp (removeTmp t (reportUpgradeResult a b c d e s)))"
    "stepOk sha A P t s (Exit (setDownloaderStatus st (removeTmp t s)))"
    "stepOk sha A P t s (Exit (setAppDownloaderStatus st (removeTmp t s)))"
proof -
  note r = safe_removeTmp [OF assms, of sha A]
  note ends = safe_calm2 [OF r calm_setStatus(1)] safe_calm2 [OF r calm_setStatus(2)]
    safe_calm2 [OF safe_calm2 [OF r calm_report(1)] calm_setStatus(1)] safe_calm1 [OF calm_report(1) safe_calm2 [OF r calm_setStatus(2)]]
  show "stepOk sha A P t s (failOs (removeTmp t s))" "stepOk sha A P t s (failApp (removeTmp t s))"
    "stepOk sha A P t s (failOs (reportUpgradeResult a b c d e (removeTmp t s)))"
    "stepOk sha A P t s (failApp (removeTmp t (reportUpgradeResult a b c d e s)))"
    "stepOk sha A P t s (Exit (setDownloaderStatus st (removeTmp t s)))"
    "stepOk sha A P t s (Exit (setAppDownloaderStatus st (removeTmp t s)))"
    unfolding stepOk_def failOs_def failApp_def outcome.case by (rule ends)+
qed

lemma safe_onMkdir:
  "P = ownApp \<or> P = ownTmp \<Longrightarrow> safe sha A P s (if c then s else onFs (\<lambda>f. fsMkdirAll f (upDir @ [d])) s)"
  by (intro safeI) (simp_all add: good_refl good_mkdir onFs_def split: sum.splits)

lemma stepOk_calm:
  assumes "calm s s'" "nsOk s \<Longrightarrow> threadOk sha A s' t'" "t_app t' = t_app t"
  shows "stepOk sha A P t s (Next t' s')"
  using assms by (simp add: stepOk_def safe_calm)

lemma stepOk_mono: "stepOk sha A P t s r \<Longrightarrow> (\<And>p. P p \<Longrightarrow> Q p) \<Longrightarrow> stepOk sha A Q t s r"
  by (auto simp: stepOk_def split: outcome.splits intro: safe_mono)

lemma stepOk_tmp: "stepOk sha A ownTmp t s r \<Longrightarrow> stepOk sha A ownOs t s r"
  by (rule stepOk_mono [OF _ ownTmp_ownOs])

text \<open>Opening the temporary file.\<close>

lemma openWrite_ok:
  assumes run: "openWrite trunc p s = Inr (i, s1)" and P: "P p" "P = ownApp \<or> P = ownTmp"
  shows "safe sha A P s s1" "nsOk s \<Longrightarrow> oldIno s1 i \<and> (\<forall>q. ino s1 q = Some i \<longrightarrow> P q)"
proof -
  have "u_installs s1 = u_installs s" "u_cloud s1 = u_cloud s"
    using run by (auto simp: openWrite_def split: option.splits node.splits sum.splits if_splits)
  then show "safe sha A P s s1"
    using openWrite_good(1) [where P = P, OF run _ P(1)] P(2) safeI [of P s s1 sha A] by (cases "nsOk s") (auto simp: safe_def)
  show "oldIno s1 i \<and> (\<forall>q. ino s1 q = Some i \<longrightarrow> P q)" if "nsOk s"
    using openWrite_good(3,4) [OF run that, of P] P by blast
qed

lemma osPrepare_ok:
  assumes t: "threadOk sha A s t" "\<not> t_app t" and w: "worldOk A w"
  shows "stepOk sha A ownTmp t s (osPrepare V w t s)"
proof (cases "t_pc t")
  case PLocal
  then show ?thesis using t
    by (auto simp: osPrepare_def stepOk_fail threadOk_def split: option.splits intro!: stepOk_calm calm_refl)
next
  case PCheck
  obtain r s1 where r: "CheckUpdate V w s = (r, s1)" by force
  then have c: "calm s s1" using calm_CheckUpdate [of s V w] by simp
  show ?thesis using PCheck t
    by (auto simp: osPrepare_def r stepOk_def failOs_def threadOk_def split: option.splits
        intro: safe_calm calm_trans [OF c] calm_setStatus c)
next
  case PQuery
  then show ?thesis using t checkCloudUpdate_okInfo [OF _ w]
    by (auto simp: osPrepare_def stepOk_fail threadOk_def split: sum.splits option.splits bool.splits
        intro!: stepOk_calm calm_fields)
next
  case PPrepare
  let ?v = "Version (t_best t)"
  have v: "slash \<notin> set ?v" using t PPrepare by (simp add: threadOk_def okInfo_def)
  have "proper (''nimo_update_'' @ ?v @ ''.raucb.tmp'')" "proper (''nimo_update_'' @ ?v @ ''.raucb'')"
    using v by (auto simp: proper_def)
  note files = this [THEN segs_osFile [OF v]]
  define s1 where "s1 = (if w_fault w then s else onFs (\<lambda>f. fsMkdirAll f (segs (osDir ?v))) s)"
  have "safe sha A ownTmp s s1"
    unfolding s1_def segs_osDir [OF v] by (rule safe_onMkdir) simp
  then have "safe sha A ownTmp s (reportUpgradeResult ''os'' (LocalVersion (t_local t)) ?v ''downloading'' [] (s1\<lparr>u_os := (u_os s1)\<lparr>dl_dir := osDir ?v\<rparr>\<rparr>))"
    by (blast intro: safe_calm2 calm_report calm_fields)
  then show ?thesis using PPrepare t files
    by (auto simp: osPrepare_def stepOk_def threadOk_def Let_def s1_def intro!: exI [of _ "''v'' @ ?v"] exI [of _ "''nimo_update_'' @ ?v"])
next
  case PStatFinal
  then show ?thesis using t
    by (auto simp: osPrepare_def stepOk_def threadOk_def safe_calm calm_refl
        intro!: safe_calm [OF calm_trans [OF calm_report(2) calm_setStatus(1)]])
next
  case PStatTmp
  then show ?thesis using t by (auto simp: osPrepare_def threadOk_def intro!: stepOk_calm calm_refl)
qed (use t in \<open>auto simp: osPrepare_def intro!: stepOk_calm calm_refl\<close>)

lemma osRequest_ok:
  assumes t: "threadOk sha A s t" "\<not> t_app t" and w: "worldOk A w"
  shows "stepOk sha A ownTmp t s (osRequest w t s)"
proof (cases "t_pc t")
  case POpen
  obtain d x where p: "t_tmp t = upDir @ [d, x @ ''.raucb.tmp'']" using t POpen by (auto simp: threadOk_def)
  have own: "ownTmp (t_tmp t)" by (auto simp: p ownTmp_def)
  show ?thesis
  proof (cases "if w_fault w then Inl EIO else openWrite (t_code t \<noteq> 206) (t_tmp t) s")
    case (Inl e)
    then show ?thesis using POpen by (simp add: osRequest_def stepOk_fail Let_def)
  next
    case (Inr a)
    then obtain i s1 where a: "a = (i, s1)" "openWrite (t_code t \<noteq> 206) (t_tmp t) s = Inr (i, s1)"
      by (cases a) (auto split: if_splits)
    note o = openWrite_ok [where P = ownTmp, OF a(2) own]
    show ?thesis using POpen t Inr a(1) o by (auto simp: osRequest_def stepOk_def threadOk_def Let_def)
  qed
next
  case PRefresh
  then show ?thesis using t checkCloudUpdate_okInfo [OF _ w]
    by (auto simp: osRequest_def stepOk_fail threadOk_def split: sum.splits option.splits bool.splits intro!: stepOk_calm calm_refl)
qed (use t in \<open>auto simp: osRequest_def stepOk_fail threadOk_def split: option.splits intro!: stepOk_calm calm_refl\<close>)

text \<open>A write through a descriptor: its inode has only names of the owner.\<close>

lemma writeChunk_ok:
  assumes "writeChunk t c s = (t1, s1)" "\<And>p. ino s p = Some (t_ino t) \<Longrightarrow> P p" "P = ownApp \<or> P = ownTmp"
  shows "safe sha A P s s1" "ino s1 = ino s" "oldIno s1 = oldIno s" "t_ino t1 = t_ino t" "t_app t1 = t_app t" "t_best t1 = t_best t"
    "t_tmp t1 = t_tmp t" "t_final t1 = t_final t" "t_ctx t1 = t_ctx t"
proof -
  obtain b where s1: "s1 = s\<lparr>u_data := (u_data s)(t_ino t := b)\<rparr>" and t1: "t1 = t\<lparr>t_off := t_off t1, t_written := t_written t1\<rparr>"
    using assms(1) by (auto simp: writeChunk_def Let_def)
  show "safe sha A P s s1" using good_write [OF assms(2)] assms(3) by (intro safeI) (simp_all add: s1)
  show "ino s1 = ino s" "oldIno s1 = oldIno s" by (simp_all add: s1 ino_def oldIno_def fun_eq_iff)
  show "t_ino t1 = t_ino t" "t_app t1 = t_app t" "t_best t1 = t_best t"
    "t_tmp t1 = t_tmp t" "t_final t1 = t_final t" "t_ctx t1 = t_ctx t" by (subst t1, simp)+
qed

lemma threadOk_written:
  assumes "threadOk sha A s t" "t_pc t = PRead" "pc' \<in> {PLoop, PHash}" "ino s1 = ino s" "oldIno s1 = oldIno s" "t_ino t1 = t_ino t"
    "t_app t1 = t_app t" "t_best t1 = t_best t" "t_tmp t1 = t_tmp t" "t_final t1 = t_final t"
  shows "threadOk sha A s1 (t1\<lparr>t_pc := pc'\<rparr>)"
  using assms by (auto simp: threadOk_def)

text \<open>Both loops, once the round has read: \<open>fin\<close> stores the status and does not touch the disk.\<close>

lemma readRound_ok:
  assumes t: "threadOk sha A s t" "t_pc t = PRead" and P: "P = (if t_app t then ownApp else ownTmp)"
    and w1: "(if w_chunk w \<noteq> [] then writeChunk t (w_chunk w) s else (t, s)) = (t1, s1)"
  shows "safe sha A P s s1" "t_app t1 = t_app t" "removeTmp t1 = removeTmp t"
    "pc' \<in> {PLoop, PHash} \<Longrightarrow> threadOk sha A s1 (t1\<lparr>t_pc := pc'\<rparr>)"
proof -
  have own: "\<And>p. ino s p = Some (t_ino t) \<Longrightarrow> P p" using t by (simp add: threadOk_def P)
  have P': "P = ownApp \<or> P = ownTmp" by (simp add: P)
  have s1: "safe sha A P s s1 \<and> ino s1 = ino s \<and> oldIno s1 = oldIno s \<and> t_ino t1 = t_ino t \<and>
      t_app t1 = t_app t \<and> t_best t1 = t_best t \<and> t_tmp t1 = t_tmp t \<and> t_final t1 = t_final t"
  proof (cases "w_chunk w \<noteq> []")
    case True
    then have "writeChunk t (w_chunk w) s = (t1, s1)" using w1 by simp
    from writeChunk_ok [OF this own P'] show ?thesis by simp
  next
    case False
    then show ?thesis using w1 safe_calm [OF calm_refl] by simp
  qed
  then show "safe sha A P s s1" "t_app t1 = t_app t" "removeTmp t1 = removeTmp t" by (simp_all add: removeTmp_def)
  show "threadOk sha A s1 (t1\<lparr>t_pc := pc'\<rparr>)" if "pc' \<in> {PLoop, PHash}"
    using threadOk_written [OF t that] s1 by simp
qed

lemma osLoop_ok:
  assumes t: "threadOk sha A s t" "\<not> t_app t" "t_pc t \<in> {PLoop, PRead}"
  shows "stepOk sha A ownTmp t s (osLoop w t s)"
proof (cases "t_pc t = PLoop")
  case True
  then show ?thesis using t
    by (auto simp: osLoop_def osReadEnd_def stepOk_failRemoved threadOk_def intro!: stepOk_calm calm_refl)
next
  case False
  then have pc: "t_pc t = PRead" using t(3) by simp
  obtain t1 s1 where w1: "(if w_chunk w \<noteq> [] then writeChunk t (w_chunk w) s else (t, s)) = (t1, s1)" by force
  note r = readRound_ok [OF t(1) pc _ w1, of ownTmp, unfolded if_not_P [OF t(2)], OF refl]
  have P: "ownTmp = ownApp \<or> ownTmp = ownTmp" by simp
  note ends = safe_calm2 [OF safe_removeTmp_after [OF r(1) P] calm_setStatus(1)] safe_calm2 [OF r(1) calm_setStatus(1)]
  show ?thesis
  proof (cases "w_chunk w \<noteq> [] \<and> w_fault w")
    case True
    then show ?thesis by (simp add: osLoop_def osReadEnd_def pc stepOk_fail)
  next
    case False
    then have "osLoop w t s = (case w_end w of
           ReadMore \<Rightarrow> Next (t1\<lparr>t_pc := PLoop\<rparr>) s1
         | ReadEOF \<Rightarrow> Next (t1\<lparr>t_pc := PHash\<rparr>) s1
         | ReadFailed \<Rightarrow>
             if t_ctx t1 \<in> set (u_cancelled s1) then Exit (setDownloaderStatus ''idle'' (removeTmp t1 s1))
             else Exit (setDownloaderStatus ''paused'' s1))"
      unfolding osLoop_def osReadEnd_def w1 by (auto simp: pc)
    then show ?thesis using r ends by (simp add: stepOk_def split: readEnd.splits)
  qed
qed

lemma safe_cleanDirs: "P = ownApp \<or> P = ownTmp \<Longrightarrow> safe sha A P s (cleanDirs old w s)"
  using cleanDirs_shrinks [of old w s] by (intro safeI good_cleanDirs) auto

text \<open>The move to the final name: here the promise is made.\<close>

lemma osRename_ok:
  assumes t: "threadOk sha A s t" "\<not> t_app t" "t_pc t = PRename" and run: "fsRename (u_fs s) (t_tmp t) (t_final t) = Inr f"
  shows "safe sha A ownOs s (s\<lparr>u_fs := f\<rparr>)"
  unfolding safe_def
proof (intro impI)
  assume s: "nsOk s \<and> bundleOk sha A s"
  obtain d x where p: "t_tmp t = upDir @ [d, (x @ ''.raucb'') @ ''.tmp'']" "t_final t = upDir @ [d, x @ ''.raucb'']"
    using t by (auto simp: threadOk_def)
  have own: "ownOs (upDir @ [d, (x @ ''.raucb'') @ ''.tmp''])" "ownOs (t_final t)" by (auto simp: p ownOs_def ownTmp_def)
  obtain i where g: "good ownOs s (s\<lparr>u_fs := f\<rparr>)" and i: "ino s (t_tmp t) = Some i"
    and get: "\<And>r. ino (s\<lparr>u_fs := f\<rparr>) r = (if r = t_final t then Some i else if r = t_tmp t then None else ino s r)"
    using rename_good [OF run [unfolded p(1)] _ own p(2)] s unfolding p(1) by blast
  have "verified sha A (u_data s i)" using t i by (simp add: threadOk_def)
  then have "bundleOk sha A (s\<lparr>u_fs := f\<rparr>)" using s get by (auto simp: bundleOk_def split: if_splits)
  then show "good ownOs s (s\<lparr>u_fs := f\<rparr>) \<and> bundleOk sha A (s\<lparr>u_fs := f\<rparr>) \<and>
      osInstalls (s\<lparr>u_fs := f\<rparr>) = osInstalls s \<and> (typed s \<longrightarrow> typed (s\<lparr>u_fs := f\<rparr>))"
    using g by (simp add: typed_def osInstalls_def)
qed

lemma hash_verified:
  assumes "hashInput t s = Some bytes" "EqualFold (sha bytes) (SHA256 (t_best t))" "okInfo A (t_best t)" "ino s (t_tmp t) = Some i"
  shows "verified sha A (u_data s i)"
  using assms by (auto simp: hashInput_def ino_iff okInfo_def verified_def)

lemma osFinish_ok:
  assumes t: "threadOk sha A s t" "\<not> t_app t"
  shows "stepOk sha A ownOs t s (osFinish sha w t s)"
proof -
  have P: "ownTmp = ownApp \<or> ownTmp = ownTmp" by simp
  show ?thesis
  proof (cases "t_pc t")
    case PHash
    then have "stepOk sha A ownTmp t s (osFinish sha w t s)"
      using t hash_verified [of t s _ sha A]
      by (auto simp: osFinish_def stepOk_failRemoved [OF P] threadOk_def split: option.splits intro!: stepOk_calm calm_refl)
    then show ?thesis by (rule stepOk_tmp)
  next
    case PRename
    show ?thesis
    proof (cases "if w_fault w then Inl EIO else fsRename (u_fs s) (t_tmp t) (t_final t)")
      case (Inl e)
      then show ?thesis using PRename stepOk_failRemoved(1) [OF P] by (auto simp: osFinish_def intro: stepOk_tmp)
    next
      case (Inr f)
      then have "fsRename (u_fs s) (t_tmp t) (t_final t) = Inr f" by (simp split: if_splits)
      from osRename_ok [OF t PRename this] show ?thesis using PRename Inr t by (auto simp: osFinish_def stepOk_def threadOk_def)
    qed
  next
    case PClean
    then have "stepOk sha A ownTmp t s (osFinish sha w t s)"
      using t safe_cleanDirs [OF P] by (auto simp: osFinish_def stepOk_def threadOk_def)
    then show ?thesis by (rule stepOk_tmp)
  next
    case PDone
    then show ?thesis
      by (simp add: osFinish_def stepOk_def safe_calm [OF calm_trans [OF calm_report(2) calm_setStatus(1)]])
  qed (use t in \<open>auto simp: osFinish_def intro!: stepOk_calm calm_refl\<close>)
qed

lemma runDownload_ok:
  assumes "threadOk sha A s t" "\<not> t_app t" "worldOk A w"
  shows "stepOk sha A ownOs t s (runDownload V sha w t s)"
  unfolding runDownload_def
  using osPrepare_ok [OF assms, of V] osRequest_ok [OF assms] osLoop_ok [OF assms(1,2), of w] osFinish_ok [OF assms(1,2), of w]
  by (simp add: stepOk_tmp)

section \<open>Steps of the application download\<close>

lemma appPrepare_ok:
  assumes t: "threadOk sha A s t" "t_app t" and w: "worldOk A w" and ty: "typed s"
  shows "stepOk sha A ownApp t s (appPrepare V w t s)"
proof (cases "t_pc t")
  case PLocal
  then show ?thesis using t
    by (auto simp: appPrepare_def stepOk_fail threadOk_def split: option.splits intro!: stepOk_calm calm_refl)
next
  case PQuery
  obtain r s1 where r: "checkAppCloudUpdate (currentApp V (t_local t)) w s = (r, s1)" by force
  note f = checkAppCloudUpdate_fetches [OF r]
  have "r = Inr (True, Some best) \<Longrightarrow> okInfo A best" for best using f(2) [OF ty] checkCloudUpdate_okInfo [OF _ w] by simp
  then show ?thesis using t PQuery f(1)
    by (auto simp: appPrepare_def r stepOk_def failApp_def threadOk_def split: sum.splits option.splits bool.splits
        intro: safe_calm calm_trans [OF f(1)] calm_setStatus calm_fields)
next
  case PPrepare
  let ?v = "Version (t_best t)"
  have v: "slash \<notin> set ?v" using t PPrepare by (simp add: threadOk_def okInfo_def)
  define s1 where "s1 = (if w_fault w then s else onFs (\<lambda>f. fsMkdirAll f (segs (appDir ?v))) s)"
  have "safe sha A ownApp s s1" unfolding s1_def segs_appDir [OF v] by (rule safe_onMkdir) simp
  then have "safe sha A ownApp s (s1\<lparr>u_app := (u_app s1)\<lparr>dl_dir := appDir ?v\<rparr>\<rparr>)" by (rule safe_calm2) (rule calm_fields)
  then show ?thesis using PPrepare t
    by (auto simp: appPrepare_def stepOk_def threadOk_def Let_def s1_def appTmp_segs [OF v] appBundle_segs [OF v])
next
  case PStatFinal
  then show ?thesis using t
    by (auto simp: appPrepare_def stepOk_def threadOk_def safe_calm calm_report calm_setStatus calm_trans)
next
  case PStatTmp
  then show ?thesis using t safe_removeTmp [of ownApp sha A s t]
    by (auto simp: appPrepare_def stepOk_def threadOk_def safe_calm calm_refl)
qed (use t in \<open>auto simp: appPrepare_def intro!: stepOk_calm calm_refl\<close>)

lemma appRequest_ok:
  assumes t: "threadOk sha A s t" "t_app t" and w: "worldOk A w" and ty: "typed s"
  shows "stepOk sha A ownApp t s (appRequest V w t s)"
proof (cases "t_pc t")
  case POpen
  have own: "ownApp (t_tmp t)" using t POpen by (auto simp: threadOk_def ownApp_def)
  show ?thesis
  proof (cases "if w_fault w then Inl EIO else openWrite True (t_tmp t) s")
    case (Inl e)
    then show ?thesis using POpen by (simp add: appRequest_def stepOk_fail)
  next
    case (Inr a)
    then obtain i s1 where a: "a = (i, s1)" "openWrite True (t_tmp t) s = Inr (i, s1)" by (cases a) (auto split: if_splits)
    note o = openWrite_ok [where P = ownApp, OF a(2) own]
    show ?thesis using POpen t Inr a(1) o by (auto simp: appRequest_def stepOk_def threadOk_def Let_def)
  qed
next
  case PRefresh
  obtain r s1 where r: "checkAppCloudUpdate (currentApp V (t_local t)) w s = (r, s1)" by force
  note f = checkAppCloudUpdate_fetches [OF r]
  have "r = Inr (True, Some best) \<Longrightarrow> okInfo A best" for best using f(2) [OF ty] checkCloudUpdate_okInfo [OF _ w] by simp
  then show ?thesis using t PRefresh f(1)
    by (auto simp: appRequest_def r stepOk_def failApp_def threadOk_def split: sum.splits option.splits bool.splits
        intro: safe_calm calm_trans [OF f(1)] calm_setStatus)
qed (use t in \<open>auto simp: appRequest_def stepOk_fail threadOk_def split: option.splits intro!: stepOk_calm calm_refl\<close>)

lemma appLoop_ok:
  assumes t: "threadOk sha A s t" "t_app t" "t_pc t \<in> {PLoop, PRead}"
  shows "stepOk sha A ownApp t s (appLoop w t s)"
proof (cases "t_pc t = PLoop")
  case True
  then show ?thesis using t
    by (auto simp: appLoop_def appReadEnd_def stepOk_failRemoved threadOk_def intro!: stepOk_calm calm_refl)
next
  case False
  then have pc: "t_pc t = PRead" using t(3) by simp
  obtain t1 s1 where w1: "(if w_chunk w \<noteq> [] then writeChunk t (w_chunk w) s else (t, s)) = (t1, s1)" by force
  note r = readRound_ok [OF t(1) pc _ w1, of ownApp, unfolded if_P [OF t(2)], OF refl]
  have P: "ownApp = ownApp \<or> ownApp = ownTmp" by simp
  note ends = safe_calm2 [OF safe_removeTmp_after [OF r(1) P] calm_setStatus(2)] safe_calm2 [OF r(1) calm_setStatus(2)]
  show ?thesis
  proof (cases "w_chunk w \<noteq> [] \<and> w_fault w")
    case True
    then show ?thesis by (simp add: appLoop_def appReadEnd_def pc stepOk_fail)
  next
    case False
    then have "appLoop w t s = (case w_end w of
           ReadMore \<Rightarrow> Next (t1\<lparr>t_pc := PLoop\<rparr>) s1
         | ReadEOF \<Rightarrow> Next (t1\<lparr>t_pc := PHash\<rparr>) s1
         | ReadFailed \<Rightarrow>
             if t_ctx t1 \<in> set (u_cancelled s1) then Exit (setAppDownloaderStatus ''idle'' (removeTmp t1 s1))
             else failApp s1)"
      unfolding appLoop_def appReadEnd_def w1 by (auto simp: pc)
    then show ?thesis using r ends by (simp add: stepOk_def failApp_def split: readEnd.splits)
  qed
qed

lemma appFinish_ok:
  assumes t: "threadOk sha A s t" "t_app t"
  shows "stepOk sha A ownApp t s (appFinish V sha w t s)"
proof -
  have P: "ownApp = ownApp \<or> ownApp = ownTmp" by simp
  show ?thesis
  proof (cases "t_pc t")
    case PHash
    then show ?thesis using t
      by (auto simp: appFinish_def Let_def stepOk_failRemoved [OF P] threadOk_def split: option.splits intro!: stepOk_calm calm_refl)
  next
    case PRename
    show ?thesis
    proof (cases "if w_fault w then Inl EIO else fsRename (u_fs s) (t_tmp t) (t_final t)")
      case (Inl e)
      then show ?thesis using PRename stepOk_failRemoved(2) [OF P] by (simp add: appFinish_def)
    next
      case (Inr f)
      then have run: "fsRename (u_fs s) (t_tmp t) (t_final t) = Inr f" by (simp split: if_splits)
      obtain d where p: "t_tmp t = upDir @ [d, ''bundle.tar.gz'' @ ''.tmp'']" "t_final t = upDir @ [d, ''bundle.tar.gz'']"
        using t PRename by (auto simp: threadOk_def)
      have own: "ownApp (upDir @ [d, ''bundle.tar.gz'' @ ''.tmp''])" "ownApp (t_final t)" by (auto simp: p ownApp_def)
      have "good ownApp s (s\<lparr>u_fs := f\<rparr>)" if "nsOk s" using rename_good [OF run [unfolded p(1)] that own p(2)] by blast
      then have "safe sha A ownApp s (s\<lparr>u_fs := f\<rparr>)" using safeI [OF _ P, of s "s\<lparr>u_fs := f\<rparr>" sha A] by (cases "nsOk s") (auto simp: safe_def)
      then show ?thesis using PRename Inr t by (auto simp: appFinish_def stepOk_def threadOk_def)
    qed
  next
    case PClean
    then show ?thesis using t safe_cleanDirs [OF P] by (auto simp: appFinish_def stepOk_def threadOk_def)
  next
    case PDone
    then show ?thesis
      by (simp add: appFinish_def stepOk_def safe_calm [OF calm_trans [OF calm_report(2) calm_setStatus(2)]])
  qed (use t in \<open>auto simp: appFinish_def intro!: stepOk_calm calm_refl\<close>)
qed

lemma runAppDownload_ok:
  assumes "threadOk sha A s t" "t_app t" "worldOk A w" "typed s"
  shows "stepOk sha A ownApp t s (runAppDownload V sha w t s)"
  unfolding runAppDownload_def
  using appPrepare_ok [OF assms, of V] appRequest_ok [OF assms, of V] appLoop_ok [OF assms(1,2), of w] appFinish_ok [OF assms(1,2), of V w]
  by simp

section \<open>Installing\<close>

text \<open>Steps that change neither names nor bytes of files.\<close>

definition quiet :: "upState \<Rightarrow> upState \<Rightarrow> bool" where
  "quiet s s' = (ino s' = ino s \<and> u_data s' = u_data s \<and> u_next s' = u_next s \<and> (nsOk s \<longrightarrow> nsOk s') \<and>
     osInstalls s' = osInstalls s \<and> (typed s \<longrightarrow> typed s'))"

lemma quiet_calm: "calm s s' \<Longrightarrow> quiet s s'"
  using sameDisk_ino sameDisk_nsOk unfolding quiet_def calm_def sameDisk_def by metis

lemma quiet_trans: "quiet s s' \<Longrightarrow> quiet s' s'' \<Longrightarrow> quiet s s''"
  by (simp add: quiet_def)

lemma safe_quiet1: "quiet s s' \<Longrightarrow> safe sha A P s' s'' \<Longrightarrow> safe sha A P s s''"
  by (auto simp: safe_def quiet_def bundleOk_def good_def ev_def)

lemma safe_quiet: "quiet s s' \<Longrightarrow> safe sha A P s s'"
  by (rule safe_quiet1 [OF _ safe_calm [OF calm_refl]])

lemma mkdir_quiet:
  assumes "fsMkdirAll (u_fs s) (upDir @ [d]) = Inr f"
  shows "quiet s (s\<lparr>u_fs := f\<rparr>)"
proof -
  have "ino (s\<lparr>u_fs := f\<rparr>) p = ino s p" for p
    using fsMkdirAll_get [OF assms, of p] by (auto simp: ino_def split: option.splits node.splits)
  then show ?thesis using good_mkdir [OF assms, of "\<lambda>_. False"]
    by (auto simp: quiet_def good_def osInstalls_def typed_def)
qed

lemma openWrite_write:
  assumes run: "openWrite True p s = Inr (i, s1)" and P: "P p" "P = ownApp \<or> P = ownTmp"
  shows "safe sha A P s (s1\<lparr>u_data := (u_data s1)(i := b)\<rparr>)"
proof (cases "nsOk s")
  case True
  let ?s = "s1\<lparr>u_data := (u_data s1)(i := b)\<rparr>"
  note o = openWrite_good [where P = P, OF run True P(1)]
  have same: "ino ?s = ino s1" "oldIno ?s = oldIno s1" by (simp_all add: ino_def oldIno_def fun_eq_iff)
  have "P q" if "ino s q = Some i" for q
  proof -
    have "ino s p = Some i"
    proof (cases "ino s p")
      case None
      then have "i = Itoa (u_next s)" using run by (auto simp: openWrite_def ino_def split: option.splits node.splits sum.splits)
      moreover have "oldIno s i" using True that by (auto simp: nsOk_def)
      ultimately show ?thesis using Itoa_inj by (fastforce simp: oldIno_def)
    next
      case (Some j)
      then show ?thesis using run by (auto simp: openWrite_def ino_iff)
    qed
    then show ?thesis using True that P(1) by (auto simp: nsOk_def)
  qed
  then have "good P s ?s" using o(1) unfolding good_def ev_def nsOk_def same by auto
  moreover have "u_installs s1 = u_installs s" "u_cloud s1 = u_cloud s"
    using run by (auto simp: openWrite_def split: option.splits node.splits sum.splits if_splits)
  ultimately show ?thesis using P(2) by (intro safeI) simp_all
qed (simp add: safe_def)

lemma fetchApp_ok:
  assumes "slash \<notin> set (Version best)"
  shows "safe sha A ownApp s (snd (fetchApp cur best w s))"
proof -
  let ?r = "reportUpgradeResult ''app'' cur (Version best)"
  have P: "ownApp = ownApp \<or> ownApp = ownTmp" by simp
  have own: "ownApp (appBundle (Version best))" by (auto simp: appBundle_segs [OF assms] ownApp_def)
  have fail: "safe sha A ownApp s (?r ''failed'' msg (?r ''downloading'' [] s))" for msg
    by (rule safe_calm [OF calm_trans [OF calm_report(1) calm_report(1)]])
  show ?thesis
  proof (cases "openWrite True (appBundle (Version best)) (?r ''downloading'' [] s)")
    case (Inl e)
    then show ?thesis using fail by (auto simp: fetchApp_def Let_def split: option.splits)
  next
    case (Inr a)
    obtain i s1 where a: "a = (i, s1)" by force
    note o = safe_calm1 [OF calm_report(1) openWrite_write [where P = ownApp, OF Inr [unfolded a] own P, of sha A "w_chunk w"]]
    show ?thesis using fail o safe_calm2 [OF o calm_report(1)] Inr by (auto simp: fetchApp_def Let_def a split: option.splits)
  qed
qed

lemma launchApp_ok: "calm s (snd (launchApp cur best w s))"
  by (auto simp: launchApp_def reportUpgradeResult_def Let_def calm_def sameDisk_def osInstalls_def typed_def split: option.splits)

lemma UpdateAppVersion_ok:
  assumes w: "worldOk A w2" and ty: "typed s"
  shows "safe sha A ownApp s (snd (UpdateAppVersion V lock w1 w2 w3 w4 s))"
proof (cases "isFileLocked lock = Inr True \<or> (case fst (CheckAppUpdate V w1 s) of None \<Rightarrow> True | Some c \<Rightarrow> \<not> HasUpdate c) \<or> readLocalVersionInfo w2 = None")
  case True
  then show ?thesis using calm_CheckAppUpdate [of s V w1]
    by (auto simp: UpdateAppVersion_def safe_calm calm_refl split: prod.splits option.splits)
next
  case False
  then obtain c s1 l where c: "CheckAppUpdate V w1 s = (Some c, s1)" "HasUpdate c" and l: "readLocalVersionInfo w2 = Some l"
    and lock: "isFileLocked lock \<noteq> Inr True" by (cases "CheckAppUpdate V w1 s") (auto split: option.splits)
  let ?cur = "currentApp V l"
  define s2 where "s2 = s1\<lparr>u_cloud := AList.delete (''cloud_update_app_'' @ ?cur) (u_cloud s1)\<rparr>"
  have s1: "calm s s1" using calm_CheckAppUpdate [of s V w1] c by simp
  have "set (AList.delete k al) \<subseteq> set al" for k and al :: "(string \<times> cacheVal) list" by (auto simp: AList.delete_eq)
  then have s2: "calm s s2" by (intro calm_trans [OF s1]) (auto simp: s2_def calm_def sameDisk_def typed_def osInstalls_def)
  obtain r s3 where r: "checkAppCloudUpdate ?cur w2 s2 = (r, s3)" by force
  have s3: "calm s s3" by (rule calm_trans [OF s2 checkAppCloudUpdate_fetches(1) [OF r]])
  have ty2: "typed s2" using s2 ty by (simp add: calm_def)
  show ?thesis
  proof (cases "\<exists>best. r = Inr (True, Some best)")
    case False
    then have "snd (UpdateAppVersion V lock w1 w2 w3 w4 s) = s3"
      using lock c l r by (auto simp: UpdateAppVersion_def s2_def Let_def split: sum.splits option.splits bool.splits prod.splits)
    then show ?thesis using safe_calm [OF s3] by simp
  next
    case True
    then obtain best where best: "r = Inr (True, Some best)" by blast
    then have v: "slash \<notin> set (Version best)"
      using checkAppCloudUpdate_fetches(2) [OF r ty2] checkCloudUpdate_okInfo [OF _ w] by (simp add: okInfo_def)
    note run = lock c l r [unfolded best]
    show ?thesis
    proof (cases "if w_fault w2 then Inl EIO else fsMkdirAll (u_fs s3) (segs (appDir (Version best)))")
      case (Inl e)
      then have "snd (UpdateAppVersion V lock w1 w2 w3 w4 s) = reportUpgradeResult ''app'' ?cur (Version best) ''failed'' ''mkdir_failed'' s3"
        using run by (auto simp: UpdateAppVersion_def s2_def Let_def split: if_splits)
      then show ?thesis using safe_calm [OF calm_trans [OF s3 calm_report(1)]] by simp
    next
      case (Inr f)
      let ?s = "s3\<lparr>u_fs := f\<rparr>"
      have q: "quiet s ?s" by (rule quiet_trans [OF quiet_calm [OF s3] mkdir_quiet]) (use Inr in \<open>simp only: segs_appDir [OF v] sum.simps split: if_splits\<close>)
      obtain e s4 where e: "(if notExist (u_fs ?s) (appBundle (Version best)) then fetchApp ?cur best w3 ?s else (Inr (), ?s)) = (e, s4)" by force
      have s4: "safe sha A ownApp s s4"
        using e fetchApp_ok [OF v, of sha A ?s ?cur w3] safe_quiet1 [OF q] safe_quiet [OF q] by (auto split: if_splits)
      have "snd (UpdateAppVersion V lock w1 w2 w3 w4 s) = (case e of Inl _ \<Rightarrow> s4 | Inr _ \<Rightarrow> snd (launchApp ?cur best w4 s4))"
        using run Inr e by (auto simp: UpdateAppVersion_def s2_def Let_def split: sum.splits prod.splits if_splits)
      then show ?thesis using s4 safe_calm2 [OF s4 launchApp_ok] by (simp split: sum.splits)
    qed
  qed
qed

end
