(* ===== verification/UpgradeDeliver.thy ===== *)
theory UpgradeDeliver
  imports UpgradeSafe
begin

text \<open>
  A download that is served completely delivers: from the request on, through any number of reads, the goroutine gives the bundle its
  final name with exactly the bytes of the server, also when it continues a partial file.
\<close>

section \<open>Single steps\<close>

text \<open>What the server sends: the reply to the request, then the chunks, then the end of the body.\<close>

definition chunkWorlds :: "world \<Rightarrow> string list \<Rightarrow> world list" where
  "chunkWorlds w cs = concat (map (\<lambda>c. [w, w\<lparr>w_chunk := c, w_end := ReadMore\<rparr>]) cs)"

definition served :: "world \<Rightarrow> string list \<Rightarrow> world list" where
  "served w cs = [w, w] @ chunkWorlds w cs @ [w, w\<lparr>w_chunk := [], w_end := ReadEOF\<rparr>] @ [w, w, w, w]"

definition goOn :: "string \<Rightarrow> (string \<Rightarrow> string) \<Rightarrow> nat \<Rightarrow> world list \<Rightarrow> usys \<Rightarrow> usys" where
  "goOn V sha n ws y = urun V sha (map (AThread n) ws) y"

lemma goOn_Nil [simp]: "goOn V sha n [] y = y"
  by (simp add: goOn_def urun_def)

lemma goOn_append: "goOn V sha n (us @ ws) y = goOn V sha n ws (goOn V sha n us y)"
  by (simp add: goOn_def urun_def)

definition at :: "nat \<Rightarrow> thread \<Rightarrow> upState \<Rightarrow> usys \<Rightarrow> bool" where
  "at n t s y = (us_threads y n = Some t \<and> us_up y = s)"

lemma goOn_step:
  assumes "at n t s y" "\<not> t_app t" "runDownload V sha w t s = Next t' s'"
  shows "\<exists>y'. at n t' s' y' \<and> goOn V sha n (w # ws) y = goOn V sha n ws y'"
  using assms
  by (intro exI [of _ "y\<lparr>us_up := s', us_threads := (us_threads y)(n := Some t')\<rparr>"])
    (auto simp: goOn_def urun_def uact_def runThread_def at_def)

lemma writeAt_end: "writeAt (length d) c d = d @ c"
  by (simp add: writeAt_def)

definition sameJob :: "thread \<Rightarrow> thread \<Rightarrow> bool" where
  "sameJob t t' = (t_app t' = t_app t \<and> t_ctx t' = t_ctx t \<and> t_best t' = t_best t \<and> t_tmp t' = t_tmp t \<and> t_final t' = t_final t \<and>
     t_ino t' = t_ino t \<and> t_append t' = t_append t)"

text \<open>The loop appends the chunks to the inode of the descriptor.\<close>

lemma goOn_chunks:
  assumes "at n t s y" "\<not> t_app t" "t_pc t = PLoop" "t_ctx t \<notin> set (u_cancelled s)" "\<not> w_fault w" "[] \<notin> set cs"
    and "t_append t \<or> t_off t = length (u_data s (t_ino t))"
  shows "\<exists>y' t'. sameJob t t' \<and> t_pc t' = PLoop \<and> at n t' (s\<lparr>u_data := (u_data s)(t_ino t := u_data s (t_ino t) @ concat cs)\<rparr>) y' \<and>
    goOn V sha n (chunkWorlds w cs @ ws) y = goOn V sha n ws y'"
  using assms
proof (induction cs arbitrary: t s y)
  case Nil
  then show ?case by (intro exI [of _ y] exI [of _ t]) (simp add: chunkWorlds_def sameJob_def)
next
  case (Cons c cs)
  let ?d = "u_data s (t_ino t)"
  let ?t1 = "t\<lparr>t_pc := PRead\<rparr>"
  let ?t2 = "t\<lparr>t_off := length ?d + length c, t_written := t_written t + length c, t_pc := PLoop\<rparr>"
  let ?s2 = "s\<lparr>u_data := (u_data s)(t_ino t := ?d @ c)\<rparr>"
  let ?w = "w\<lparr>w_chunk := c, w_end := ReadMore\<rparr>"
  have w: "chunkWorlds w (c # cs) @ ws = w # ?w # chunkWorlds w cs @ ws" by (simp add: chunkWorlds_def)
  have "runDownload V sha w t s = Next ?t1 s" using Cons.prems(3,4) by (simp add: runDownload_def osLoop_def osReadEnd_def)
  from goOn_step [OF Cons.prems(1,2) this] obtain y1
    where y1: "at n ?t1 s y1" "goOn V sha n (chunkWorlds w (c # cs) @ ws) y = goOn V sha n (?w # chunkWorlds w cs @ ws) y1"
    unfolding w by blast
  have c: "c \<noteq> []" using Cons.prems(6) by auto
  have "writeChunk ?t1 c s = (t\<lparr>t_off := length ?d + length c, t_written := t_written t + length c, t_pc := PRead\<rparr>, ?s2)"
    using Cons.prems(7) by (auto simp: writeChunk_def writeAt_end Let_def)
  then have "runDownload V sha ?w ?t1 s = Next ?t2 ?s2"
    using Cons.prems(5) c by (simp add: runDownload_def osLoop_def osReadEnd_def)
  from goOn_step [OF y1(1) _ this] obtain y2 where y2: "at n ?t2 ?s2 y2" "goOn V sha n (chunkWorlds w (c # cs) @ ws) y = goOn V sha n (chunkWorlds w cs @ ws) y2"
    using Cons.prems(2) y1(2) by auto
  have "\<exists>y' t'. sameJob ?t2 t' \<and> t_pc t' = PLoop \<and> at n t' (?s2\<lparr>u_data := (u_data ?s2)(t_ino ?t2 := u_data ?s2 (t_ino ?t2) @ concat cs)\<rparr>) y' \<and>
      goOn V sha n (chunkWorlds w cs @ ws) y2 = goOn V sha n ws y'"
    by (rule Cons.IH [OF y2(1)]) (use Cons.prems in simp_all)
  moreover have "sameJob ?t2 = sameJob t" by (simp add: sameJob_def fun_eq_iff)
  moreover have "?s2\<lparr>u_data := (u_data ?s2)(t_ino ?t2 := u_data ?s2 (t_ino ?t2) @ concat cs)\<rparr> =
      s\<lparr>u_data := (u_data s)(t_ino t := ?d @ concat (c # cs))\<rparr>" by simp
  ultimately show ?case by (simp only: y2(2))
qed

text \<open>The clean-up keeps what lies in a directory it is not told to remove.\<close>

lemma fold_removeAll_keeps:
  "(\<And>m isDir. (m, isDir) \<in> set es \<Longrightarrow> c m isDir \<Longrightarrow> m \<noteq> d) \<Longrightarrow>
   fsGet (fold (\<lambda>(m, isDir) f. if c m isDir then fsRemoveAll f (upDir @ [m]) else f) es f) (upDir @ [d, x]) = fsGet f (upDir @ [d, x])"
proof (induction es arbitrary: f)
  case (Cons e es)
  obtain m b where e: "e = (m, b)" by force
  have "c m b \<Longrightarrow> m \<noteq> d" using Cons.prems [of m b] by (simp add: e)
  then have "fsGet (if c m b then fsRemoveAll f (upDir @ [m]) else f) (upDir @ [d, x]) = fsGet f (upDir @ [d, x])"
    by (auto simp: fsRemoveAll_get)
  moreover have "fsGet (fold (\<lambda>(m, isDir) f. if c m isDir then fsRemoveAll f (upDir @ [m]) else f) es
      (if c m b then fsRemoveAll f (upDir @ [m]) else f)) (upDir @ [d, x]) =
      fsGet (if c m b then fsRemoveAll f (upDir @ [m]) else f) (upDir @ [d, x])"
    by (rule Cons.IH) (use Cons.prems in auto)
  ultimately show ?case by (simp only: e fold_simps prod.case)
qed simp

lemma cleanDirs_keeps:
  assumes "\<not> old d"
  shows "fileBytes (cleanDirs old w s) (upDir @ [d, x]) = fileBytes s (upDir @ [d, x])"
proof (cases "ReadDir upDir (u_fs s)")
  case (Inr es)
  let ?c = "\<lambda>n isDir. isDir \<and> old n \<and> n \<notin> set (w_stuck w)"
  define f where "f = fold (\<lambda>(n, isDir) f. if ?c n isDir then fsRemoveAll f (upDir @ [n]) else f) es (u_fs s)"
  have "cleanDirs old w s = s\<lparr>u_fs := f\<rparr>" unfolding cleanDirs_def segs_upgradeDir f_def using Inr by simp
  moreover have "fsGet f (upDir @ [d, x]) = fsGet (u_fs s) (upDir @ [d, x])"
    unfolding f_def by (rule fold_removeAll_keeps) (use assms in auto)
  ultimately show ?thesis by (simp add: fileBytes_def split: option.split node.split)
qed (simp add: cleanDirs_def)

section \<open>A served download\<close>

lemma openWrite_bytes:
  assumes "nsOk s" "fsGet (u_fs s) (upDir @ [d]) = Some Directory" "p = upDir @ [d, x @ ''.tmp'']"
  shows "\<exists>i s1. openWrite trunc p s = Inr (i, s1) \<and> ino s1 p = Some i \<and> u_cancelled s1 = u_cancelled s \<and>
    u_data s1 i = (if trunc then [] else case fileBytes s p of Some b \<Rightarrow> b | None \<Rightarrow> []) \<and>
    (\<forall>q. q \<noteq> p \<longrightarrow> fsGet (u_fs s1) q = fsGet (u_fs s) q) \<and> nsOk s1"
proof (cases "fsGet (u_fs s) p")
  case None
  have "butlast p = upDir @ [d]" by (simp add: assms(3) butlast_append)
  then have "fsCreate (u_fs s) p (Itoa (u_next s)) = Inr (fsPut (u_fs s) p (RegularFile (Itoa (u_next s))))"
    using None assms(2) by (simp add: fsCreate_def)
  then obtain f where f: "fsCreate (u_fs s) p (Itoa (u_next s)) = Inr f" by blast
  let ?s = "s\<lparr>u_fs := f, u_data := (u_data s)(Itoa (u_next s) := []), u_next := Suc (u_next s)\<rparr>"
  have run: "openWrite trunc p s = Inr (Itoa (u_next s), ?s)" using None f by (simp add: openWrite_def)
  have "nsOk ?s" using openWrite_good(1) [where P = "\<lambda>_. True", OF run assms(1)] assms(1) by (simp add: good_def)
  then show ?thesis using run fsCreate_get [OF f] None by (auto simp: ino_def fileBytes_def)
next
  case (Some n)
  then obtain i where i: "fsGet (u_fs s) p = Some (RegularFile i)" using assms(1,3) by (cases n) (auto simp: nsOk_def)
  let ?s = "if trunc then s\<lparr>u_data := (u_data s)(i := [])\<rparr> else s"
  have run: "openWrite trunc p s = Inr (i, ?s)" using i by (simp add: openWrite_def)
  have "nsOk ?s" using openWrite_good(1) [where P = "\<lambda>_. True", OF run assms(1)] assms(1) by (simp add: good_def)
  then show ?thesis using run i by (auto simp: ino_def fileBytes_def)
qed

lemma fileBytes_calls: "fileBytes (setDownloaderStatus st (publish e v s)) p = fileBytes s p"
  by (simp add: fileBytes_def setDownloaderStatus_def publish_def split: option.split node.split)

text \<open>The steps after the body: checksum, final name, clean-up, report.\<close>

lemma goOn_finish:
  assumes t: "at n t s y" "\<not> t_app t" "t_pc t = PHash" and w: "\<not> w_fault w"
    and p: "t_tmp t = upDir @ [d, (x @ ''.raucb'') @ ''.tmp'']" "t_final t = upDir @ [d, x @ ''.raucb'']" "d = ''v'' @ Version (t_best t)"
    and s: "nsOk s" "ino s (t_tmp t) = Some i" "EqualFold (sha (u_data s i)) (SHA256 (t_best t))" "fsGet (u_fs s) (upDir @ [d]) = Some Directory"
      "fsGet (u_fs s) (t_final t) = None"
  shows "fileBytes (us_up (goOn V sha n [w, w, w, w] y)) (t_final t) = Some (u_data s i) \<and>
    dl_status (u_os (us_up (goOn V sha n [w, w, w, w] y))) = ''completed'' \<and> us_threads (goOn V sha n [w, w, w, w] y) n = None"
proof -
  have i: "fsGet (u_fs s) (t_tmp t) = Some (RegularFile i)" using s(2) by (simp add: ino_iff)
  have "hashInput t s = Some (u_data s i)" using i by (simp add: hashInput_def)
  then have "runDownload V sha w t s = Next (t\<lparr>t_pc := PRename\<rparr>) s" using t(3) w s(3) by (simp add: runDownload_def osFinish_def)
  from goOn_step [OF t(1,2) this] obtain y1 where y1: "at n (t\<lparr>t_pc := PRename\<rparr>) s y1" "goOn V sha n [w, w, w, w] y = goOn V sha n [w, w, w] y1"
    by blast
  have "butlast (t_final t) = upDir @ [d]" by (simp add: p(2) butlast_append)
  then obtain f where f: "fsRename (u_fs s) (t_tmp t) (t_final t) = Inr f"
    using i s(4,5) p(1,2) by (simp add: fsRename_def)
  have fin: "fsGet f (t_final t) = Some (RegularFile i)"
    using fsRename_file_get [OF _ i f] s(1) by (simp add: nsOk_def)
  have "runDownload V sha w (t\<lparr>t_pc := PRename\<rparr>) s = Next (t\<lparr>t_pc := PClean\<rparr>) (s\<lparr>u_fs := f\<rparr>)" using w f by (simp add: runDownload_def osFinish_def)
  from goOn_step [OF y1(1) _ this] obtain y2 where y2: "at n (t\<lparr>t_pc := PClean\<rparr>) (s\<lparr>u_fs := f\<rparr>) y2" "goOn V sha n [w, w, w, w] y = goOn V sha n [w, w] y2"
    using y1(2) t(2) by auto
  let ?s = "cleanDirs (\<lambda>m. m \<noteq> ''v'' @ Version (t_best t)) w (s\<lparr>u_fs := f\<rparr>)"
  have "runDownload V sha w (t\<lparr>t_pc := PClean\<rparr>) (s\<lparr>u_fs := f\<rparr>) = Next (t\<lparr>t_pc := PDone\<rparr>) ?s" by (simp add: runDownload_def osFinish_def)
  from goOn_step [OF y2(1) _ this] obtain y3 where y3: "at n (t\<lparr>t_pc := PDone\<rparr>) ?s y3" "goOn V sha n [w, w, w, w] y = goOn V sha n [w] y3"
    using y2(2) t(2) by auto
  have "goOn V sha n [w] y3 = y3\<lparr>us_up := setDownloaderStatus ''completed'' (publish ''nimoos:upgrade:downloaded'' (Version (t_best t)) ?s),
      us_threads := (us_threads y3)(n := None)\<rparr>"
    using y3(1) t(2) by (simp add: goOn_def urun_def uact_def runThread_def at_def runDownload_def osFinish_def)
  moreover have "fileBytes ?s (t_final t) = Some (u_data s i)"
    unfolding p(2) using cleanDirs_keeps [of "\<lambda>m. m \<noteq> ''v'' @ Version (t_best t)" d w "s\<lparr>u_fs := f\<rparr>" "x @ ''.raucb''"] fin p(2,3)
    by (simp add: fileBytes_def)
  ultimately show ?thesis
    by (simp add: y3(2) fileBytes_calls) (simp add: setDownloaderStatus_def publish_def withStatus_def Let_def)
qed

text \<open>The transfer: from the request to the end of the body the temporary file receives the chunks.\<close>

lemma goOn_transfer:
  assumes t: "at n t s y" "\<not> t_app t" "t_pc t = PRequest" "t_ctx t \<notin> set (u_cancelled s)"
    and p: "t_tmp t = upDir @ [d, x @ ''.tmp'']" and s: "nsOk s" "fsGet (u_fs s) (upDir @ [d]) = Some Directory"
    and w: "\<not> w_fault w" "w_http w = Some (code, len)" "code = 200 \<or> code = 206" "[] \<notin> set cs"
    and b: "b = (if code = 206 then case fileBytes s (t_tmp t) of Some part \<Rightarrow> part | None \<Rightarrow> [] else []) @ concat cs"
  shows "\<exists>y' t' s' i. at n t' s' y' \<and> t_pc t' = PHash \<and> t_app t' = t_app t \<and> t_best t' = t_best t \<and> t_tmp t' = t_tmp t \<and> t_final t' = t_final t \<and>
    nsOk s' \<and> ino s' (t_tmp t) = Some i \<and> u_data s' i = b \<and> (\<forall>q. q \<noteq> t_tmp t \<longrightarrow> fsGet (u_fs s') q = fsGet (u_fs s) q) \<and>
    goOn V sha n (served w cs) y = goOn V sha n [w, w, w, w] y'"
proof -
  let ?rest = "[w, w\<lparr>w_chunk := [], w_end := ReadEOF\<rparr>] @ [w, w, w, w]"
  have "runDownload V sha w t s = Next (t\<lparr>t_code := code, t_length := len, t_pc := POpen\<rparr>) s"
    using t(3) w by (auto simp: runDownload_def osRequest_def)
  from goOn_step [OF t(1,2) this, of "w # chunkWorlds w cs @ ?rest"] obtain y1
    where y1: "at n (t\<lparr>t_code := code, t_length := len, t_pc := POpen\<rparr>) s y1"
      "goOn V sha n (served w cs) y = goOn V sha n (w # chunkWorlds w cs @ ?rest) y1" by (auto simp: served_def)
  from openWrite_bytes [OF s p, of "code \<noteq> 206"] obtain i s1 where o: "openWrite (code \<noteq> 206) (t_tmp t) s = Inr (i, s1)"
    "ino s1 (t_tmp t) = Some i" "u_cancelled s1 = u_cancelled s" "nsOk s1" "\<And>q. q \<noteq> t_tmp t \<Longrightarrow> fsGet (u_fs s1) q = fsGet (u_fs s) q"
    "u_data s1 i = (if code \<noteq> 206 then [] else case fileBytes s (t_tmp t) of Some b \<Rightarrow> b | None \<Rightarrow> [])" by blast
  let ?t2 = "t\<lparr>t_code := code, t_length := len, t_append := (code = 206), t_resume := (if code = 206 then t_resume t else 0), t_ino := i, t_off := 0,
    t_written := 0, t_pc := PLoop\<rparr>"
  have "runDownload V sha w (t\<lparr>t_code := code, t_length := len, t_pc := POpen\<rparr>) s = Next ?t2 s1"
    using o(1) w(1) by (simp add: runDownload_def osRequest_def Let_def)
  from goOn_step [OF y1(1) _ this] obtain y2 where y2: "at n ?t2 s1 y2" "goOn V sha n (served w cs) y = goOn V sha n (chunkWorlds w cs @ ?rest) y2"
    using y1(2) t(2) by auto
  let ?s3 = "s1\<lparr>u_data := (u_data s1)(i := u_data s1 i @ concat cs)\<rparr>"
  have "\<exists>y' t'. sameJob ?t2 t' \<and> t_pc t' = PLoop \<and> at n t' (s1\<lparr>u_data := (u_data s1)(t_ino ?t2 := u_data s1 (t_ino ?t2) @ concat cs)\<rparr>) y' \<and>
      goOn V sha n (chunkWorlds w cs @ ?rest) y2 = goOn V sha n ?rest y'"
    by (rule goOn_chunks [OF y2(1)]) (use t(2,4) w(1,4) o(3,6) in simp_all)
  then obtain y3 t3 where y3: "sameJob ?t2 t3" "t_pc t3 = PLoop" "at n t3 ?s3 y3" "goOn V sha n (served w cs) y = goOn V sha n ?rest y3"
    using y2(2) by auto
  have job: "t_app t3 = t_app t" "t_ctx t3 = t_ctx t" "t_best t3 = t_best t" "t_tmp t3 = t_tmp t" "t_final t3 = t_final t"
    using y3(1) by (simp_all add: sameJob_def)
  have "runDownload V sha w t3 ?s3 = Next (t3\<lparr>t_pc := PRead\<rparr>) ?s3" using y3(2) job t(4) o(3) by (simp add: runDownload_def osLoop_def osReadEnd_def)
  from goOn_step [OF y3(3) _ this] obtain y4 where y4: "at n (t3\<lparr>t_pc := PRead\<rparr>) ?s3 y4"
    "goOn V sha n (served w cs) y = goOn V sha n ((w\<lparr>w_chunk := [], w_end := ReadEOF\<rparr>) # [w, w, w, w]) y4" using y3(4) job t(2) by auto
  have "runDownload V sha (w\<lparr>w_chunk := [], w_end := ReadEOF\<rparr>) (t3\<lparr>t_pc := PRead\<rparr>) ?s3 = Next (t3\<lparr>t_pc := PHash\<rparr>) ?s3"
    by (simp add: runDownload_def osLoop_def osReadEnd_def)
  from goOn_step [OF y4(1) _ this] obtain y5 where y5: "at n (t3\<lparr>t_pc := PHash\<rparr>) ?s3 y5" "goOn V sha n (served w cs) y = goOn V sha n [w, w, w, w] y5"
    using y4(2) job t(2) by auto
  have same: "ino ?s3 = ino s1" "u_fs ?s3 = u_fs s1" by (simp_all add: ino_def fun_eq_iff)
  have "nsOk ?s3" using o(4) unfolding nsOk_def same oldIno_def by simp
  moreover have "u_data ?s3 i = b" using o(6) b by auto
  ultimately show ?thesis using y5 job o(2,5) same by (intro exI [of _ y5] exI [of _ "t3\<lparr>t_pc := PHash\<rparr>"] exI [of _ ?s3] exI [of _ i]) simp
qed

text \<open>C19. A download that the server answers with the whole file, or with the rest of the partial file on the disk, in any number of
  chunks, ends as completed, its goroutine is gone, and the final name holds exactly the bytes whose checksum was announced, whatever
  was left from an interrupted attempt.\<close>

theorem download_delivers:
  assumes t: "us_threads y n = Some t" "\<not> t_app t" "t_pc t = PRequest" "t_ctx t \<notin> set (u_cancelled (us_up y))"
    and p: "t_tmp t = upDir @ [''v'' @ Version (t_best t), x @ ''.raucb.tmp'']" "t_final t = upDir @ [''v'' @ Version (t_best t), x @ ''.raucb'']"
    and s: "nsOk (us_up y)" "fsGet (u_fs (us_up y)) (upDir @ [''v'' @ Version (t_best t)]) = Some Directory" "fsGet (u_fs (us_up y)) (t_final t) = None"
    and w: "\<not> w_fault w" "w_http w = Some (code, len)" "code = 200 \<or> code = 206" "[] \<notin> set cs"
    and b: "b = (if code = 206 then case fileBytes (us_up y) (t_tmp t) of Some part \<Rightarrow> part | None \<Rightarrow> [] else []) @ concat cs"
      "EqualFold (sha b) (SHA256 (t_best t))"
  shows "fileBytes (us_up (urun V sha (map (AThread n) (served w cs)) y)) (t_final t) = Some b \<and>
    dl_status (u_os (us_up (urun V sha (map (AThread n) (served w cs)) y))) = ''completed'' \<and>
    us_threads (urun V sha (map (AThread n) (served w cs)) y) n = None"
proof -
  let ?d = "''v'' @ Version (t_best t)"
  have tmp: "t_tmp t = upDir @ [?d, (x @ ''.raucb'') @ ''.tmp'']" by (simp add: p(1))
  have at0: "at n t (us_up y) y" using t(1) by (simp add: at_def)
  obtain y' t' s' i where r: "at n t' s' y'" "t_pc t' = PHash" "t_app t' = t_app t" "t_best t' = t_best t" "t_tmp t' = t_tmp t" "t_final t' = t_final t"
    "nsOk s'" "ino s' (t_tmp t) = Some i" "u_data s' i = b" "\<And>q. q \<noteq> t_tmp t \<Longrightarrow> fsGet (u_fs s') q = fsGet (u_fs (us_up y)) q"
    "goOn V sha n (served w cs) y = goOn V sha n [w, w, w, w] y'"
    using goOn_transfer [OF at0 t(2,3,4) tmp s(1,2) w b(1), of V sha] by blast
  have "t_final t \<noteq> t_tmp t" "upDir @ [?d] \<noteq> t_tmp t" by (simp_all add: p)
  then have "fsGet (u_fs s') (upDir @ [?d]) = Some Directory" "fsGet (u_fs s') (t_final t) = None" using r(10) s(2,3) by simp_all
  then show ?thesis
    using goOn_finish [OF r(1), of w ?d x i sha V] r t(2) w(1) tmp p(2) b(2) by (simp add: goOn_def)
qed

section \<open>A resumed download\<close>

definition demoInfo :: "string \<Rightarrow> string \<Rightarrow> versionInfo" where
  "demoInfo v h = \<lparr>Version = v, Changelog = [], DownloadURL = ''/f'', SHA256 = h, Size = 4, Compatible = None\<rparr>"

definition demoWorld :: "versionInfo \<Rightarrow> world" where
  "demoWorld vi = \<lparr>w_file = VJson \<lparr>LocalVersion = ''1.0.0'', AppVersion = ''1.0.0'', UpdateServer = ''s'', LocalPlatform = [], HardwareID = [],
     HardwareName = [], DeviceID = ''d''\<rparr>, w_mid = None, w_cloud = HttpReply 200 (BodyVersion vi), w_http = Some (200, 4), w_chunk = [],
     w_end = ReadEOF, w_fault = False, w_expired = True, w_stuck = []\<rparr>"

definition demoSys :: "(string list \<times> node) list \<Rightarrow> (string \<Rightarrow> string) \<Rightarrow> nat \<Rightarrow> usys" where
  "demoSys f d n = \<lparr>us_up = \<lparr>u_fs = [([''var''], Directory), ([''var'', ''lib''], Directory), ([''var'', ''lib'', ''nimoos_data''], Directory),
       ([''var'', ''lib'', ''nimoos_data'', ''upgrade''], Directory)] @ f, u_data = d, u_next = n, u_os = emptyDownloader, u_app = emptyDownloader,
     u_check = None, u_appCheck = None, u_cloud = [], u_cancelled = [], u_nextCtx = 0, u_reports = [], u_events = [], u_installs = [],
     u_appStatus = None, u_osStatus = None\<rparr>, us_threads = (\<lambda>_. None), us_jobs = []\<rparr>"

text \<open>Half of the bundle is there; the goroutine is about to ask for the rest.\<close>

definition resumeThread :: thread where
  "resumeThread = (newThread False 0)\<lparr>t_pc := PRequest, t_best := demoInfo ''1.1.0'' ''good'', t_resume := 2,
     t_tmp := upDir @ [''v1.1.0'', ''nimo_update_1.1.0.raucb.tmp''], t_final := upDir @ [''v1.1.0'', ''nimo_update_1.1.0.raucb'']\<rparr>"

definition resumeSys :: usys where
  "resumeSys = (demoSys [(upDir @ [''v1.1.0''], Directory), (upDir @ [''v1.1.0'', ''nimo_update_1.1.0.raucb.tmp''], RegularFile (Itoa 0))]
     (\<lambda>_. ''go'') 1)\<lparr>us_threads := (\<lambda>_. None)(0 := Some resumeThread)\<rparr>"

lemma resume_nsOk: "nsOk (us_up resumeSys)"
proof -
  have "ino (us_up resumeSys) p = (if p = upDir @ [''v1.1.0'', ''nimo_update_1.1.0.raucb.tmp''] then Some (Itoa 0) else None)" for p
    by (simp add: ino_def resumeSys_def demoSys_def fsGet_def upDir_def)
  moreover have "fsWF (u_fs (us_up resumeSys))" by (simp add: resumeSys_def demoSys_def fsWF_def fsGet_def upDir_def)
  moreover have "fsGet (u_fs (us_up resumeSys)) (upDir @ [e, x]) \<noteq> Some Directory" for e x
    by (simp add: resumeSys_def demoSys_def fsGet_def upDir_def)
  ultimately show ?thesis by (simp add: nsOk_def oldIno_def) (simp add: resumeSys_def demoSys_def)
qed

theorem download_delivers_witness:
  "(let w = (demoWorld (demoInfo ''1.1.0'' ''good''))\<lparr>w_http := Some (206, 2)\<rparr>; y' = urun ''dev'' (\<lambda>b. b) (map (AThread 0) (served w [''o'', ''d''])) resumeSys in
    fileBytes (us_up y') (upDir @ [''v1.1.0'', ''nimo_update_1.1.0.raucb'']) = Some ''good'' \<and> dl_status (u_os (us_up y')) = ''completed'' \<and>
    us_threads y' 0 = None)"
proof -
  let ?w = "(demoWorld (demoInfo ''1.1.0'' ''good''))\<lparr>w_http := Some (206, 2)\<rparr>"
  have v: "Version (t_best resumeThread) = ''1.1.0''" "t_final resumeThread = upDir @ [''v1.1.0'', ''nimo_update_1.1.0.raucb'']"
    "t_tmp resumeThread = upDir @ [''v1.1.0'', ''nimo_update_1.1.0.raucb.tmp'']" "SHA256 (t_best resumeThread) = ''good''"
    by (simp_all add: resumeThread_def demoInfo_def)
  have f: "fsGet (u_fs (us_up resumeSys)) (upDir @ [''v1.1.0'']) = Some Directory"
    "fsGet (u_fs (us_up resumeSys)) (upDir @ [''v1.1.0'', ''nimo_update_1.1.0.raucb'']) = None"
    "fileBytes (us_up resumeSys) (upDir @ [''v1.1.0'', ''nimo_update_1.1.0.raucb.tmp'']) = Some ''go''"
    by (simp_all add: resumeSys_def demoSys_def fsGet_def fileBytes_def upDir_def)
  have "fileBytes (us_up (urun ''dev'' (\<lambda>b. b) (map (AThread 0) (served ?w [''o'', ''d''])) resumeSys)) (t_final resumeThread) = Some ''good'' \<and>
      dl_status (u_os (us_up (urun ''dev'' (\<lambda>b. b) (map (AThread 0) (served ?w [''o'', ''d''])) resumeSys))) = ''completed'' \<and>
      us_threads (urun ''dev'' (\<lambda>b. b) (map (AThread 0) (served ?w [''o'', ''d''])) resumeSys) 0 = None"
  proof (rule download_delivers [where x = "''nimo_update_1.1.0''" and code = 206 and len = 2])
    show "us_threads resumeSys 0 = Some resumeThread" "t_ctx resumeThread \<notin> set (u_cancelled (us_up resumeSys))"
      by (simp_all add: resumeSys_def demoSys_def)
    show "\<not> t_app resumeThread" "t_pc resumeThread = PRequest" by (simp_all add: resumeThread_def newThread_def)
    show "\<not> w_fault ?w" "w_http ?w = Some (206, 2)" by (simp_all add: demoWorld_def)
  qed (simp_all add: v f resume_nsOk EqualFold_def)
  then show ?thesis by (simp only: v Let_def)
qed

end
