(* ===== verification/UpgradeProps.thy ===== *)
theory UpgradeProps
  imports UpgradeSteps UpgradeDeliver
begin

text \<open>
  The update service keeps its promise: unless a cancelled download overlaps with a new one, every system bundle that has its final
  name, and every system bundle an install script was given, has a checksum the cloud announced. The last part shows the histories
  in which the service fails its users.
\<close>

section \<open>Other goroutines\<close>

interpretation tmp_app: disjoint_owners ownTmp ownApp
  by unfold_locales (use app_os.apart_owners ownTmp_ownOs in blast)

lemma threadOk_stable:
  assumes ok: "threadOk sha A s u" and e: "ev P s s'" and P: "P = ownApp \<or> P = ownOs \<and> t_app u"
  shows "threadOk sha A s' u"
proof -
  have fd: "oldIno s' (t_ino u) \<and> (\<forall>p. ino s' p = Some (t_ino u) \<longrightarrow> (if t_app u then ownApp p else ownTmp p))"
    if pc: "t_pc u \<in> {PLoop, PRead}"
  proof -
    have old: "oldIno s (t_ino u)" and own: "\<And>p. ino s p = Some (t_ino u) \<Longrightarrow> (if t_app u then ownApp p else ownTmp p)"
      using ok pc by (auto simp: threadOk_def)
    have "if t_app u then ownApp p else ownTmp p" if p: "ino s' p = Some (t_ino u)" for p
    proof (cases "t_app u")
      case True
      have "ownApp p" if "P = ownApp"
      proof -
        have "ino s p = Some (t_ino u) \<or> ownApp p" using e p that unfolding ev_def by blast
        then show ?thesis using own True by auto
      qed
      moreover have "ownApp p" if "P = ownOs" using app_os.fd_stable [of s s' "t_ino u" p] that e old own p True by auto
      ultimately show ?thesis using P True by auto
    next
      case False
      then show ?thesis using tmp_app.fd_stable [of s s' "t_ino u" p] P e old own p by auto
    qed
    then show ?thesis using oldIno_ev [OF e old] by blast
  qed
  have "verified sha A (u_data s' i)" if "\<not> t_app u" "t_pc u = PRename" "ino s' (t_tmp u) = Some i" for i
  proof -
    have "ownTmp (t_tmp u)" using ok that by (auto simp: threadOk_def ownTmp_def)
    then have "ino s (t_tmp u) = Some i \<and> u_data s' i = u_data s i" using tmp_app.file_stable P e that by auto
    then show ?thesis using ok that by (simp add: threadOk_def)
  qed
  then show ?thesis using ok fd unfolding threadOk_def by blast
qed

section \<open>The whole service\<close>

definition oneDownload :: "usys \<Rightarrow> bool" where
  "oneDownload y = (\<forall>n m t u. us_threads y n = Some t \<longrightarrow> us_threads y m = Some u \<longrightarrow> \<not> t_app t \<longrightarrow> \<not> t_app u \<longrightarrow> n = m)"

text \<open>At no moment of a history do two system downloads run.\<close>

primrec neverTwo :: "string \<Rightarrow> (string \<Rightarrow> string) \<Rightarrow> action list \<Rightarrow> usys \<Rightarrow> bool" where
  "neverTwo V sha [] y = oneDownload y"
| "neverTwo V sha (a # as) y = (oneDownload y \<and> neverTwo V sha as (uact V sha a y))"

primrec worlds :: "action \<Rightarrow> world list" where
  "worlds (ACheck b w) = [w]"
| "worlds (ACheckApp b w) = [w]"
| "worlds ACancel = []"
| "worlds (ADailyOs w) = [w]"
| "worlds (ADailyApp w) = [w]"
| "worlds (AThread n w) = [w]"
| "worlds (AUpdate l w) = [w]"
| "worlds (AJob k r w) = [w]"
| "worlds (AUpdateApp l w1 w2 w3 w4) = [w1, w2, w3, w4]"
| "worlds (ARestart w) = [w]"

definition sysOk :: "(string \<Rightarrow> string) \<Rightarrow> versionInfo set \<Rightarrow> usys \<Rightarrow> bool" where
  "sysOk sha A y =
     (nsOk (us_up y) \<and> bundleOk sha A (us_up y) \<and> typed (us_up y) \<and> (\<forall>e \<in> set (osInstalls (us_up y)). verified sha A (snd (snd e))) \<and>
      (\<forall>n t. us_threads y n = Some t \<longrightarrow> threadOk sha A (us_up y) t) \<and> (\<forall>j \<in> set (us_jobs y). bundlePath (j_path j)))"

lemma threadOk_new: "threadOk sha A s (newThread app ctx)"
  by (simp add: threadOk_def newThread_def)

text \<open>A step of an owner, or a calm one, on the shared state.\<close>

lemma sysOk_safe:
  assumes "sysOk sha A y" "safe sha A ownApp (us_up y) s'"
  shows "sysOk sha A (y\<lparr>us_up := s'\<rparr>)"
proof -
  have "nsOk s' \<and> ev ownApp (us_up y) s' \<and> bundleOk sha A s' \<and> osInstalls s' = osInstalls (us_up y) \<and> typed s'"
    using assms by (auto simp: sysOk_def safe_def good_def)
  moreover from this have "threadOk sha A s' t" if "us_threads y n = Some t" for n t
    using assms(1) that threadOk_stable [of sha A "us_up y" t ownApp s'] by (auto simp: sysOk_def)
  ultimately show ?thesis using assms(1) by (simp add: sysOk_def)
qed

lemma sysOk_calm: "sysOk sha A y \<Longrightarrow> calm (us_up y) s' \<Longrightarrow> sysOk sha A (y\<lparr>us_up := s'\<rparr>)"
  by (rule sysOk_safe [OF _ safe_calm])

lemma sysOk_thread: "sysOk sha A y \<Longrightarrow> sysOk sha A (y\<lparr>us_threads := (us_threads y)(n := Some (newThread app c))\<rparr>)"
  by (auto simp: sysOk_def threadOk_new)

lemma sysOk_spawn:
  assumes "sysOk sha A y" "calm (us_up y) (snd r)"
  shows "sysOk sha A (spawn app r y)"
proof -
  obtain c s where r: "r = (c, s)" by force
  have "sysOk sha A (y\<lparr>us_up := s\<rparr>)" using assms sysOk_calm by (simp add: r)
  then show ?thesis using sysOk_thread [of sha A "y\<lparr>us_up := s\<rparr>"] by (simp add: spawn_def r split: option.splits)
qed

lemma sysOk_reboot: "sysOk sha A y \<Longrightarrow> sysOk sha A (reboot y)"
  by (simp add: reboot_def sysOk_def nsOk_def bundleOk_def typed_def osInstalls_def ino_def oldIno_def)

lemma calm_Download: "calm s (snd (DownloadUpdate s))" "calm s (snd (DownloadAppUpdate s))"
  by (simp_all add: DownloadUpdate_def DownloadAppUpdate_def calm_def sameDisk_def osInstalls_def typed_def)

lemma sysOk_check: "sysOk sha A y \<Longrightarrow> sysOk sha A (GetFirmwareCheckVersion V b w y)"
  using calm_CheckUpdate [of "us_up y" V w] sysOk_calm sysOk_spawn calm_trans calm_Download(1)
  by (auto simp: GetFirmwareCheckVersion_def split: prod.splits option.splits)

lemma sysOk_checkApp: "sysOk sha A y \<Longrightarrow> sysOk sha A (GetSystemCheckVersion V b w y)"
  using calm_CheckAppUpdate [of "us_up y" V w] sysOk_calm sysOk_spawn calm_trans calm_Download(2)
  by (auto simp: GetSystemCheckVersion_def split: prod.splits option.splits)

lemma calm_cancel: "calm s (CancelAppDownload (CancelDownload s))"
  by (auto simp: CancelAppDownload_def CancelDownload_def cancelCtx_def setDownloaderStatus_def setAppDownloaderStatus_def
      calm_def sameDisk_def osInstalls_def typed_def split: option.splits)

lemma calm_sync: "calm s (SyncStartupUpgradeStatus V w s)"
  by (auto simp: SyncStartupUpgradeStatus_def syncOs_def syncApp_def reportUpgradeResult_def calm_def sameDisk_def osInstalls_def
      typed_def Let_def split: option.splits)

text \<open>A step of a goroutine: its own assertion by its step lemma, those of the others by stability.\<close>

lemma sysOk_owner:
  assumes y: "sysOk sha A y" "oneDownload y" and t: "us_threads y n = Some t"
    and s: "safe sha A (if t_app t then ownApp else ownOs) (us_up y) s'" and t': "\<And>u. r = Some u \<Longrightarrow> threadOk sha A s' u"
  shows "sysOk sha A (y\<lparr>us_up := s', us_threads := (us_threads y)(n := r)\<rparr>)"
proof -
  let ?P = "if t_app t then ownApp else ownOs"
  have s': "nsOk s' \<and> ev ?P (us_up y) s' \<and> bundleOk sha A s' \<and> osInstalls s' = osInstalls (us_up y) \<and> typed s'"
    using y(1) s by (auto simp: sysOk_def safe_def good_def)
  have "threadOk sha A s' u" if u: "us_threads y m = Some u" "m \<noteq> n" for m u
  proof -
    have "?P = ownApp \<or> ?P = ownOs \<and> t_app u" using y(2) t u unfolding oneDownload_def by metis
    then show ?thesis using threadOk_stable [of sha A "us_up y" u ?P s'] s' y(1) u(1) by (auto simp: sysOk_def)
  qed
  then show ?thesis using y(1) s' t' by (auto simp: sysOk_def)
qed

lemma sysOk_runThread:
  assumes y: "sysOk sha A y" "oneDownload y" and w: "worldOk A w"
  shows "sysOk sha A (runThread V sha n w y)"
proof (cases "us_threads y n")
  case (Some t)
  let ?r = "if t_app t then runAppDownload V sha w t (us_up y) else runDownload V sha w t (us_up y)"
  have "stepOk sha A (if t_app t then ownApp else ownOs) t (us_up y) ?r"
    using runAppDownload_ok [of sha A "us_up y" t w V] runDownload_ok [of sha A "us_up y" t w V] y(1) Some w by (auto simp: sysOk_def)
  note ok = this
  show ?thesis
  proof (cases ?r)
    case (Next t' s')
    then show ?thesis using sysOk_owner [OF y Some, of s' "Some t'"] ok y(1) Some by (simp add: runThread_def stepOk_def sysOk_def [of sha A y])
  next
    case (Exit s')
    then show ?thesis using sysOk_owner [OF y Some, of s' None] ok Some by (simp add: runThread_def stepOk_def)
  next
    case Panic
    then show ?thesis using sysOk_reboot [OF y(1)] Some by (simp add: runThread_def)
  qed
qed (use y(1) in \<open>simp add: runThread_def\<close>)

lemma lastBundle_ext: "lastBundle d es latest = Some (e, x) \<Longrightarrow> latest = Some (e, x) \<or> Ext x = ''.raucb''"
  by (induction d es latest rule: lastBundle.induct) (auto split: if_splits)

lemma latestBundle_ext: "latestBundle s es latest = Some (e, x) \<Longrightarrow> latest = Some (e, x) \<or> Ext x = ''.raucb''"
  by (induction s es latest rule: latestBundle.induct) (auto split: if_splits sum.splits dest!: lastBundle_ext)

lemma UpdateSystemVersion_bundle: "UpdateSystemVersion V lock w s = Inr j \<Longrightarrow> bundlePath (j_path j)"
  by (auto simp: UpdateSystemVersion_def bundlePath_def dest!: latestBundle_ext split: if_splits sum.splits option.splits)

lemma fileBytes_ino: "fileBytes s p = map_option (u_data s) (ino s p)"
  by (simp add: fileBytes_def ino_def split: option.splits node.splits)

lemma sysOk_install:
  assumes y: "sysOk sha A y" and b: "verified sha A b"
  shows "sysOk sha A (y\<lparr>us_up := (us_up y)\<lparr>u_installs := (k, p, b) # u_installs (us_up y)\<rparr>\<rparr>)" (is "sysOk sha A (y\<lparr>us_up := ?s\<rparr>)")
proof -
  have d: "sameDisk (us_up y) ?s" by (simp add: sameDisk_def)
  have "threadOk sha A ?s t" if "us_threads y n = Some t" for n t
    using threadOk_stable [of sha A "us_up y" t ownApp ?s] y that sameDisk_ev2 [OF d, of ownApp "us_up y"]
    by (auto simp: sysOk_def ev_def)
  then show ?thesis using y b sameDisk_nsOk [OF d] bundleOk_sameDisk [OF d, of sha A] by (auto simp: sysOk_def typed_def osInstalls_def)
qed

lemma sysOk_installRun:
  assumes y: "sysOk sha A y" and j: "bundlePath (j_path j)"
  shows "sysOk sha A (y\<lparr>us_up := installRun j (us_up y)\<rparr>)"
proof -
  let ?s = "reportJob j ''installing'' [] (us_up y)"
  have c: "calm (us_up y) ?s" by (simp add: reportJob_def calm_report calm_refl)
  have r: "sysOk sha A (y\<lparr>us_up := ?s\<rparr>)" by (rule sysOk_calm [OF y c])
  show ?thesis
  proof (cases "ino ?s (j_path j)")
    case None
    then show ?thesis using r by (simp add: installRun_def fileBytes_ino)
  next
    case (Some i)
    then have "verified sha A (u_data ?s i)" using r j by (auto simp: sysOk_def bundleOk_def)
    then show ?thesis using sysOk_install [OF r] Some by (simp add: installRun_def fileBytes_ino Let_def)
  qed
qed

lemma safe_installEnd: "safe sha A ownApp s (snd (installEnd r w j s))"
proof (cases r)
  case ScriptOk
  have c: "calm (cleanDirs (\<lambda>_. True) w s) (snd (installEnd r w j s))"
    by (simp add: ScriptOk installEnd_def calm_def sameDisk_def typed_def osInstalls_def)
  show ?thesis by (rule safe_calm2 [OF safe_cleanDirs c]) simp
qed (simp_all add: installEnd_def reportJob_def safe_calm calm_refl calm_report)

lemma sysOk_jobs: "sysOk sha A y \<Longrightarrow> (\<And>j. j \<in> set js \<Longrightarrow> bundlePath (j_path j)) \<Longrightarrow> sysOk sha A (y\<lparr>us_jobs := js\<rparr>)"
  by (simp add: sysOk_def)

lemma sysOk_runJob:
  assumes y: "sysOk sha A y"
  shows "sysOk sha A (runJob k r w y)"
proof (cases "k < length (us_jobs y)")
  case True
  let ?j = "us_jobs y ! k"
  have js: "\<And>j. j \<in> set (us_jobs y) \<Longrightarrow> bundlePath (j_path j)" using y by (simp add: sysOk_def)
  have j: "bundlePath (j_path ?j)" using js True by simp
  obtain b s where e: "installEnd r w ?j (us_up y) = (b, s)" by force
  have "sysOk sha A (y\<lparr>us_up := s\<rparr>)" using sysOk_safe [OF y safe_installEnd [of sha A "us_up y" r w ?j]] by (simp add: e)
  then have "sysOk sha A (y\<lparr>us_up := s, us_jobs := take k (us_jobs y) @ drop (Suc k) (us_jobs y)\<rparr>)"
    using sysOk_jobs [of sha A "y\<lparr>us_up := s\<rparr>" "take k (us_jobs y) @ drop (Suc k) (us_jobs y)"] js
    by (auto dest!: in_set_takeD in_set_dropD)
  moreover have "bundlePath (j_path i)" if "i \<in> set ((us_jobs y)[k := ?j\<lparr>j_ran := True\<rparr>])" for i
    using set_update_subset_insert [THEN subsetD, OF that] js j by auto
  then have "sysOk sha A (y\<lparr>us_up := installRun ?j (us_up y), us_jobs := (us_jobs y)[k := ?j\<lparr>j_ran := True\<rparr>]\<rparr>)"
    using sysOk_jobs [OF sysOk_installRun [OF y j], of "(us_jobs y)[k := ?j\<lparr>j_ran := True\<rparr>]"] by simp
  ultimately show ?thesis using True sysOk_reboot by (simp add: runJob_def e Let_def)
qed (use y in \<open>simp add: runJob_def\<close>)

lemma sysOk_uact:
  assumes y: "sysOk sha A y" "oneDownload y" and w: "\<And>w. w \<in> set (worlds a) \<Longrightarrow> worldOk A w"
  shows "sysOk sha A (uact V sha a y)"
proof (cases a)
  case (ADailyOs w)
  then show ?thesis using sysOk_check [OF y(1)] sysOk_reboot [OF y(1)] by (simp add: uact_def dailyOs_def)
next
  case (ADailyApp w)
  then show ?thesis using sysOk_checkApp [OF y(1)] sysOk_reboot [OF y(1)] by (simp add: uact_def dailyApp_def)
next
  case (AUpdate lock w)
  then show ?thesis using sysOk_jobs [OF y(1)] UpdateSystemVersion_bundle y(1)
    by (auto simp: uact_def sysOk_def split: sum.splits)
next
  case (AUpdateApp lock w1 w2 w3 w4)
  then show ?thesis using sysOk_safe [OF y(1) UpdateAppVersion_ok] w y(1) by (simp add: uact_def sysOk_def [of sha A y])
next
  case (ARestart w)
  then show ?thesis using sysOk_calm [OF sysOk_reboot [OF y(1)] calm_sync] by (simp add: uact_def)
qed (use w in \<open>simp_all add: uact_def sysOk_check [OF y(1)] sysOk_checkApp [OF y(1)] sysOk_calm [OF y(1) calm_cancel]
    sysOk_runThread [OF y] sysOk_runJob [OF y(1)]\<close>)

lemma sysOk_urun:
  "sysOk sha A y \<Longrightarrow> neverTwo V sha acts y \<Longrightarrow> (\<And>a w. a \<in> set acts \<Longrightarrow> w \<in> set (worlds a) \<Longrightarrow> worldOk A w) \<Longrightarrow>
   sysOk sha A (urun V sha acts y)"
proof (induction acts arbitrary: y)
  case (Cons a acts)
  have "worldOk A w" if "w \<in> set (worlds a)" for w using Cons.prems(3) [of a w] that by simp
  then have "sysOk sha A (uact V sha a y)" using sysOk_uact [of sha A y a V] Cons.prems(1,2) by simp
  then have "sysOk sha A (urun V sha acts (uact V sha a y))"
    by (rule Cons.IH) (use Cons.prems in \<open>auto intro: Cons.prems(3)\<close>)
  then show ?case by (simp add: urun_def)
qed (simp add: urun_def)

section \<open>One download at a time\<close>

lemma os_calls [simp]:
  "u_os (setAppDownloaderStatus st s) = u_os s" "u_os (reportUpgradeResult a b c d e s) = u_os s" "u_os (publish ev' v s) = u_os s"
  "u_os (setCloud k ty has vi s) = u_os s" "u_os (removeTmp t s) = u_os s" "u_os (onFs g s) = u_os s" "u_os (cleanDirs old w s) = u_os s"
  "u_os (reportJob j st m s) = u_os s" "u_os (installRun j s) = u_os s" "u_os (snd (writeChunk t c s)) = u_os s"
  "u_os (snd (installEnd r w j s)) = u_os s"
  by (auto simp: setAppDownloaderStatus_def reportUpgradeResult_def publish_def setCloud_def removeTmp_def onFs_def cleanDirs_def
      reportJob_def installRun_def writeChunk_def installEnd_def Let_def split: sum.splits option.splits scriptOutcome.splits)

lemma os_openWrite: "openWrite b p s = Inr (i, s') \<Longrightarrow> u_os s' = u_os s"
  by (auto simp: openWrite_def split: option.splits node.splits sum.splits if_splits)

lemma os_CheckUpdate: "u_os (snd (CheckUpdate V w s)) = u_os s"
  by (auto simp: CheckUpdate_def cachedCheck_def Let_def split: option.splits sum.splits bool.splits prod.splits if_splits)

lemma os_checkAppCloud: "checkAppCloudUpdate cur w s = (r, s') \<Longrightarrow> u_os s' = u_os s"
  by (auto simp: checkAppCloudUpdate_def Let_def split: option.splits cloudReply.splits cloudBody.splits if_splits)

lemma os_cachedApp: "cachedAppCheck w s = (r, s') \<Longrightarrow> u_os s' = u_os s"
  by (auto simp: cachedAppCheck_def split: option.splits if_splits)

lemma os_CheckAppUpdate: "CheckAppUpdate V w s = (r, s') \<Longrightarrow> u_os s' = u_os s"
  by (auto simp: CheckAppUpdate_def Let_def dest!: os_cachedApp os_checkAppCloud split: option.splits sum.splits bool.splits prod.splits if_splits)

text \<open>While a goroutine goes on, the status of its downloader stays; a goroutine for the application never touches the other one.\<close>

lemma runDownload_status:
  assumes "runDownload V sha w t s = Next t' s'"
  shows "dl_status (u_os s') = dl_status (u_os s) \<and> t_app t' = t_app t"
proof (cases "t_pc t")
  case PCheck
  then show ?thesis using assms os_CheckUpdate [of V w s]
    by (auto simp: runDownload_def osPrepare_def failOs_def split: prod.splits option.splits if_splits)
next
  case POpen
  then show ?thesis using assms os_openWrite
    by (auto simp: runDownload_def osRequest_def failOs_def Let_def split: sum.splits if_splits)
next
  case PRead
  obtain t1 s1 where w1: "(if w_chunk w \<noteq> [] then writeChunk t (w_chunk w) s else (t, s)) = (t1, s1)" by force
  then have "u_os s1 = u_os s" "t_app t1 = t_app t" by (auto simp: writeChunk_def Let_def split: if_splits)
  then show ?thesis using assms w1 PRead
    by (auto simp: runDownload_def osLoop_def osReadEnd_def failOs_def split: readEnd.splits if_splits prod.splits)
qed (use assms in \<open>auto simp: runDownload_def osPrepare_def osRequest_def osLoop_def osReadEnd_def osFinish_def failOs_def Let_def
    split: option.splits sum.splits bool.splits prod.splits if_splits\<close>)

lemma runAppDownload_os:
  "(runAppDownload V sha w t s = Next t' s' \<longrightarrow> u_os s' = u_os s \<and> t_app t' = t_app t) \<and>
   (runAppDownload V sha w t s = Exit s' \<longrightarrow> u_os s' = u_os s)"
proof (cases "t_pc t")
  case PQuery
  then show ?thesis
    by (auto dest!: os_checkAppCloud simp: runAppDownload_def appPrepare_def failApp_def split: sum.splits option.splits bool.splits prod.splits)
next
  case PRefresh
  then show ?thesis
    by (auto dest!: os_checkAppCloud simp: runAppDownload_def appRequest_def failApp_def split: sum.splits option.splits bool.splits prod.splits)
next
  case POpen
  then show ?thesis using os_openWrite
    by (auto simp: runAppDownload_def appRequest_def failApp_def Let_def split: sum.splits if_splits)
next
  case PRead
  obtain t1 s1 where w1: "(if w_chunk w \<noteq> [] then writeChunk t (w_chunk w) s else (t, s)) = (t1, s1)" by force
  then have "u_os s1 = u_os s" "t_app t1 = t_app t" by (auto simp: writeChunk_def Let_def split: if_splits)
  then show ?thesis using w1 PRead
    by (auto simp: runAppDownload_def appLoop_def appReadEnd_def failApp_def split: readEnd.splits if_splits prod.splits)
qed (auto simp: runAppDownload_def appPrepare_def appRequest_def appLoop_def appReadEnd_def appFinish_def failApp_def Let_def
    split: option.splits sum.splits prod.splits if_splits)

lemma os_fetchApp: "fetchApp cur best w s = (r, s') \<Longrightarrow> u_os s' = u_os s"
  by (auto simp: fetchApp_def Let_def dest!: os_openWrite split: option.splits sum.splits prod.splits if_splits)

lemma os_launchApp: "launchApp cur best w s = (r, s') \<Longrightarrow> u_os s' = u_os s"
  by (auto simp: launchApp_def Let_def split: option.splits if_splits)

lemma os_UpdateAppVersion: "UpdateAppVersion V lock w1 w2 w3 w4 s = (r, s') \<Longrightarrow> u_os s' = u_os s"
  by (auto simp: UpdateAppVersion_def Let_def dest!: os_CheckAppUpdate os_checkAppCloud os_fetchApp os_launchApp
      split: prod.splits option.splits sum.splits bool.splits if_splits)

definition flight :: "usys \<Rightarrow> bool" where
  "flight y = (oneDownload y \<and> (\<forall>n t. us_threads y n = Some t \<longrightarrow> \<not> t_app t \<longrightarrow> dl_status (u_os (us_up y)) = ''running''))"

lemma flight_same: "flight y \<Longrightarrow> u_os s' = u_os (us_up y) \<Longrightarrow> flight (y\<lparr>us_up := s'\<rparr>)"
  by (simp add: flight_def oneDownload_def)

lemma flight_reboot: "flight (reboot y)"
  by (simp add: flight_def oneDownload_def reboot_def)

lemma flight_jobs: "flight (y\<lparr>us_jobs := js\<rparr>) = flight y"
  by (simp add: flight_def oneDownload_def)

lemma flight_app:
  assumes "flight y" "u_os s' = u_os (us_up y)" "\<And>t. r = Some t \<Longrightarrow> t_app t"
  shows "flight (y\<lparr>us_up := s', us_threads := (us_threads y)(n := r)\<rparr>)"
  using assms by (auto simp: flight_def oneDownload_def split: if_splits)

lemma flight_check: "flight y \<Longrightarrow> flight (GetFirmwareCheckVersion V b w y)"
proof -
  assume y: "flight y"
  obtain r s where r: "CheckUpdate V w (us_up y) = (r, s)" by force
  then have s: "u_os s = u_os (us_up y)" using os_CheckUpdate [of V w "us_up y"] by simp
  have "flight (spawn False (DownloadUpdate s) y)"
  proof (cases "dl_status (u_os s) = ''running''")
    case True
    then show ?thesis using flight_same [OF y s] by (simp add: spawn_def DownloadUpdate_def)
  next
    case False
    then have "us_threads y n = Some t \<Longrightarrow> t_app t" for n t using y s by (auto simp: flight_def)
    then show ?thesis using False
      by (auto simp: spawn_def DownloadUpdate_def flight_def oneDownload_def newThread_def split: if_splits)
  qed
  then show ?thesis using flight_same [OF y s] by (auto simp: GetFirmwareCheckVersion_def r split: option.splits)
qed

lemma flight_checkApp: "flight y \<Longrightarrow> flight (GetSystemCheckVersion V b w y)"
proof -
  assume y: "flight y"
  obtain r s where r: "CheckAppUpdate V w (us_up y) = (r, s)" by force
  note s = os_CheckAppUpdate [OF r]
  obtain c s1 where c: "DownloadAppUpdate s = (c, s1)" by force
  then have s1: "u_os s1 = u_os (us_up y)" using s by (auto simp: DownloadAppUpdate_def split: if_splits)
  have "t_app (newThread True n)" for n by (simp add: newThread_def)
  then have "flight (spawn True (DownloadAppUpdate s) y)"
    using flight_same [OF y s1] flight_app [OF y s1, of "Some (newThread True n)" n for n]
    by (cases c) (simp_all add: spawn_def c)
  then show ?thesis using flight_same [OF y s] by (auto simp: GetSystemCheckVersion_def r split: option.splits)
qed

lemma flight_runThread:
  assumes y: "flight y"
  shows "flight (runThread V sha n w y)"
proof (cases "us_threads y n")
  case (Some t)
  show ?thesis
  proof (cases "t_app t")
    case True
    show ?thesis
    proof (cases "runAppDownload V sha w t (us_up y)")
      case (Next t' s')
      then have "u_os s' = u_os (us_up y)" "t_app t'" using runAppDownload_os [of V sha w t "us_up y" t' s'] True by simp_all
      then show ?thesis using flight_app [OF y, of s' "Some t'" n] Some True Next by (simp add: runThread_def)
    next
      case (Exit s')
      then have "u_os s' = u_os (us_up y)" using runAppDownload_os [of V sha w t "us_up y" t s'] by simp
      then show ?thesis using flight_app [OF y, of s' None n] Some True Exit by (simp add: runThread_def)
    qed (simp add: runThread_def Some True flight_reboot)
  next
    case False
    show ?thesis
    proof (cases "runDownload V sha w t (us_up y)")
      case (Next t' s')
      then show ?thesis using runDownload_status [OF Next] y Some False
        by (auto simp: runThread_def flight_def oneDownload_def split: if_splits)
    next
      case (Exit s')
      then show ?thesis using y Some False by (auto simp: runThread_def flight_def oneDownload_def split: if_splits)
    qed (simp add: runThread_def Some False flight_reboot)
  qed
qed (simp add: runThread_def y)

lemma flight_runJob:
  assumes y: "flight y"
  shows "flight (runJob k r w y)"
proof -
  obtain b s where e: "installEnd r w (us_jobs y ! k) (us_up y) = (b, s)" by force
  then have "u_os s = u_os (us_up y)" using os_calls(11) [of r w "us_jobs y ! k" "us_up y"] by simp
  then have "flight (y\<lparr>us_up := s, us_jobs := js\<rparr>)" "flight (y\<lparr>us_up := installRun j (us_up y), us_jobs := js\<rparr>)" for js j
    using y by (simp_all add: flight_def oneDownload_def)
  then show ?thesis using y flight_reboot by (simp add: runJob_def e Let_def)
qed

lemma flight_uact:
  assumes y: "flight y" and a: "a \<noteq> ACancel"
  shows "flight (uact V sha a y)"
proof (cases a)
  case (AUpdateApp lock w1 w2 w3 w4)
  obtain r s where r: "UpdateAppVersion V lock w1 w2 w3 w4 (us_up y) = (r, s)" by force
  then show ?thesis using AUpdateApp flight_same [OF y os_UpdateAppVersion [OF r]] by (simp add: uact_def)
next
  case (ARestart w)
  then show ?thesis by (simp add: uact_def flight_def oneDownload_def reboot_def)
qed (use a y in \<open>simp_all add: uact_def dailyOs_def dailyApp_def flight_check flight_checkApp flight_reboot flight_runThread flight_runJob
    flight_jobs split: sum.splits\<close>)

lemma flight_neverTwo: "flight y \<Longrightarrow> ACancel \<notin> set acts \<Longrightarrow> neverTwo V sha acts y"
proof (induction acts arbitrary: y)
  case (Cons a acts)
  then show ?case using flight_uact [of y a V sha] by (auto simp: flight_def)
qed (simp add: flight_def)

section \<open>The cached answers of the cloud\<close>

lemma cloud_calls:
  "u_cloud (setDownloaderStatus st s) = u_cloud s" "u_cloud (setAppDownloaderStatus st s) = u_cloud s"
  "u_cloud (reportUpgradeResult a b c d e s) = u_cloud s" "u_cloud (publish ev' v s) = u_cloud s"
  "u_cloud (removeTmp t s) = u_cloud s" "u_cloud (onFs g s) = u_cloud s" "u_cloud (cleanDirs old w s) = u_cloud s"
  "u_cloud (installRun j s) = u_cloud s" "u_cloud (snd (installEnd r w j s)) = u_cloud s"
  by (auto simp: setDownloaderStatus_def setAppDownloaderStatus_def reportUpgradeResult_def publish_def removeTmp_def onFs_def cleanDirs_def
      reportJob_def installRun_def installEnd_def Let_def split: sum.splits option.splits scriptOutcome.splits)

lemma cloud_openWrite: "openWrite b p s = Inr (i, s') \<Longrightarrow> u_cloud s' = u_cloud s"
  by (auto simp: openWrite_def split: option.splits node.splits sum.splits if_splits)

lemma cloud_writeChunk: "writeChunk t c s = (t', s') \<Longrightarrow> u_cloud s' = u_cloud s"
  by (auto simp: writeChunk_def Let_def)

lemma typed_cong: "u_cloud s' = u_cloud s \<Longrightarrow> typed s' = typed s"
  by (simp add: typed_def)

lemma typed_calm: "calm s s' \<Longrightarrow> typed s \<Longrightarrow> typed s'"
  by (simp add: calm_def)

lemma typed_CheckUpdate: "CheckUpdate V w s = (r, s') \<Longrightarrow> typed s \<Longrightarrow> typed s'"
  using typed_calm [OF calm_CheckUpdate [of s V w]] by simp

lemma typed_CheckAppUpdate: "CheckAppUpdate V w s = (r, s') \<Longrightarrow> typed s \<Longrightarrow> typed s'"
  using typed_calm [OF calm_CheckAppUpdate [of s V w]] by simp

lemma typed_fetches: "checkAppCloudUpdate cur w s = (r, s') \<Longrightarrow> typed s \<Longrightarrow> typed s'"
  by (rule typed_calm [OF checkAppCloudUpdate_fetches(1)])

text \<open>The state after a step, if it is not the last one of the process.\<close>

primrec after :: "outcome \<Rightarrow> upState option" where
  "after (Next t s) = Some s"
| "after (Exit s) = Some s"
| "after Panic = None"

lemma typed_runDownload: "after (runDownload V sha w t s) = Some s' \<Longrightarrow> typed s \<Longrightarrow> typed s'"
proof (cases "t_pc t = PCheck")
  case True
  assume "after (runDownload V sha w t s) = Some s'" "typed s"
  then show ?thesis using True typed_CheckUpdate [of V w s]
    by (auto simp: runDownload_def osPrepare_def failOs_def typed_def cloud_calls split: prod.splits option.splits if_splits)
next
  case False
  assume "after (runDownload V sha w t s) = Some s'" "typed s"
  moreover from this have "u_cloud s' = u_cloud s" using False
    by (cases "t_pc t") (auto simp: runDownload_def osPrepare_def osRequest_def osLoop_def osReadEnd_def osFinish_def failOs_def Let_def cloud_calls
        dest!: cloud_openWrite cloud_writeChunk split: option.splits sum.splits bool.splits prod.splits if_splits readEnd.splits)
  ultimately show ?thesis by (simp add: typed_def)
qed

lemma typed_runAppDownload: "after (runAppDownload V sha w t s) = Some s' \<Longrightarrow> typed s \<Longrightarrow> typed s'"
proof (cases "t_pc t = PQuery \<or> t_pc t = PRefresh")
  case True
  assume run: "after (runAppDownload V sha w t s) = Some s'" and ty: "typed s"
  obtain r s1 where r: "checkAppCloudUpdate (currentApp V (t_local t)) w s = (r, s1)" by force
  have "u_cloud s' = u_cloud s1" using True run r
    by (auto simp: runAppDownload_def appPrepare_def appRequest_def failApp_def cloud_calls
        split: prod.splits option.splits sum.splits bool.splits)
  then show ?thesis using typed_fetches [OF r ty] by (simp add: typed_def)
next
  case False
  assume "after (runAppDownload V sha w t s) = Some s'" "typed s"
  moreover from this have "u_cloud s' = u_cloud s" using False
    by (cases "t_pc t") (auto simp: runAppDownload_def appPrepare_def appRequest_def appLoop_def appReadEnd_def appFinish_def failApp_def Let_def cloud_calls
        dest!: cloud_openWrite cloud_writeChunk split: option.splits sum.splits bool.splits prod.splits if_splits readEnd.splits)
  ultimately show ?thesis by (simp add: typed_def)
qed

lemma typed_UpdateAppVersion:
  assumes run: "UpdateAppVersion V lock w1 w2 w3 w4 s = (r, s')" and ty: "typed s"
  shows "typed s'"
proof -
  obtain c s1 where c: "CheckAppUpdate V w1 s = (c, s1)" by force
  note s1 = typed_CheckAppUpdate [OF c ty]
  define s2 where "s2 l = s1\<lparr>u_cloud := AList.delete (''cloud_update_app_'' @ currentApp V l) (u_cloud s1)\<rparr>" for l
  have s2: "typed (s2 l)" for l using s1 by (auto simp: typed_def s2_def AList.delete_eq)
  have f: "fetchApp cur best w s = (r, s') \<Longrightarrow> u_cloud s' = u_cloud s" for cur best w s r s'
    by (auto simp: fetchApp_def Let_def cloud_calls dest!: cloud_openWrite split: option.splits sum.splits prod.splits if_splits)
  have l: "launchApp cur best w s = (r, s') \<Longrightarrow> u_cloud s' = u_cloud s" for cur best w s r s'
    by (auto simp: launchApp_def Let_def cloud_calls split: option.splits if_splits)
  have "s' = s \<or> s' = s1 \<or> (\<exists>loc r3 s3. checkAppCloudUpdate (currentApp V loc) w2 (s2 loc) = (r3, s3) \<and> u_cloud s' = u_cloud s3)"
  proof (cases "readLocalVersionInfo w2")
    case None
    then show ?thesis using run by (auto simp: UpdateAppVersion_def c split: option.splits if_splits)
  next
    case (Some loc)
    obtain r3 s3 where r3: "checkAppCloudUpdate (currentApp V loc) w2 (s2 loc) = (r3, s3)" by force
    have "s' = s \<or> s' = s1 \<or> u_cloud s' = u_cloud s3"
      using run Some r3 by (auto simp: UpdateAppVersion_def c Let_def cloud_calls s2_def
          dest!: f l split: prod.splits option.splits sum.splits bool.splits if_splits)
    then show ?thesis using r3 by blast
  qed
  then show ?thesis using ty s1 typed_fetches [OF _ s2] typed_cong by blast
qed

lemma typed_reboot: "typed (us_up (reboot y))"
  by (simp add: typed_def reboot_def)

lemma typed_runThread: "typed (us_up y) \<Longrightarrow> typed (us_up (runThread V sha n w y))"
proof (cases "us_threads y n")
  case (Some t)
  assume "typed (us_up y)"
  then show ?thesis using Some typed_runDownload [of V sha w t "us_up y"] typed_runAppDownload [of V sha w t "us_up y"]
    by (auto simp: runThread_def typed_reboot split: outcome.split)
qed (simp add: runThread_def)

lemma typed_spawn: "typed (snd r) \<Longrightarrow> typed (us_up (spawn app r y))"
  by (auto simp: spawn_def split: prod.splits option.splits)

lemma typed_check:
  assumes "typed (us_up y)"
  shows "typed (us_up (GetFirmwareCheckVersion V b w y))" "typed (us_up (GetSystemCheckVersion V b w y))"
proof -
  obtain r s where r: "CheckUpdate V w (us_up y) = (r, s)" by force
  have "typed s" "typed (snd (DownloadUpdate s))" using typed_CheckUpdate [OF r assms] typed_calm [OF calm_Download(1)] by simp_all
  then show "typed (us_up (GetFirmwareCheckVersion V b w y))"
    by (simp add: GetFirmwareCheckVersion_def r typed_spawn split: option.splits)
  obtain r s where r: "CheckAppUpdate V w (us_up y) = (r, s)" by force
  have "typed s" "typed (snd (DownloadAppUpdate s))" using typed_CheckAppUpdate [OF r assms] typed_calm [OF calm_Download(2)] by simp_all
  then show "typed (us_up (GetSystemCheckVersion V b w y))"
    by (simp add: GetSystemCheckVersion_def r typed_spawn split: option.splits)
qed

lemma typed_uact: "typed (us_up y) \<Longrightarrow> typed (us_up (uact V sha a y))"
proof (cases a)
  case ACancel
  assume "typed (us_up y)"
  then show ?thesis using typed_calm [OF calm_cancel] by (simp add: ACancel uact_def)
next
  case (AJob k r w)
  assume ty: "typed (us_up y)"
  obtain b s where e: "installEnd r w (us_jobs y ! k) (us_up y) = (b, s)" by force
  then have "u_cloud s = u_cloud (us_up y)" using cloud_calls(9) [of r w "us_jobs y ! k" "us_up y"] by simp
  then have "typed s" "typed (installRun j (us_up y))" for j using ty by (simp_all add: typed_def cloud_calls)
  then show ?thesis using ty by (simp add: AJob uact_def runJob_def Let_def e typed_reboot)
next
  case (AUpdateApp lock w1 w2 w3 w4)
  assume "typed (us_up y)"
  then show ?thesis using typed_UpdateAppVersion [OF surjective_pairing] by (simp add: AUpdateApp uact_def)
next
  case (ARestart w)
  then show ?thesis using typed_calm [OF calm_sync typed_reboot] by (simp add: uact_def)
qed (simp_all add: uact_def typed_check typed_runThread dailyOs_def dailyApp_def typed_reboot split: sum.splits)

text \<open>C38. The answers of the cloud that are cached for three minutes are never used: each value is stored with a type that is declared in
  another block than the type the reader asserts, so from any history after a start, and before the entry expires, the check asks
  the cloud again.\<close>

theorem cloud_cache_never_hit:
  assumes "u_cloud (us_up y) = []"
  shows "fst (checkAppCloudUpdate cur w (us_up (urun V sha acts y))) = checkCloudUpdate (w_cloud w)"
proof -
  have "typed (us_up (urun V sha acts y))" if "typed (us_up y)" for y
    using that by (induction acts arbitrary: y) (simp_all add: urun_def typed_uact)
  moreover have "typed (us_up y)" using assms by (simp add: typed_def)
  ultimately have "typed (us_up (urun V sha acts y))" by blast
  then show ?thesis using checkAppCloudUpdate_fetches(2) [OF surjective_pairing] by blast
qed

section \<open>The promise\<close>

text \<open>The service right after its start: nothing runs, the disk is sound and holds no bundle but announced ones.\<close>

definition booted :: "(string \<Rightarrow> string) \<Rightarrow> versionInfo set \<Rightarrow> usys \<Rightarrow> bool" where
  "booted sha A y = (us_threads y = (\<lambda>_. None) \<and> us_jobs y = [] \<and> u_cloud (us_up y) = [] \<and> u_installs (us_up y) = [] \<and>
     nsOk (us_up y) \<and> bundleOk sha A (us_up y))"

lemma booted_ok: "booted sha A y \<Longrightarrow> sysOk sha A y" "booted sha A y \<Longrightarrow> flight y"
  by (simp_all add: booted_def sysOk_def typed_def osInstalls_def flight_def oneDownload_def)

text \<open>C6. From a start of the service, through every interleaving of requests, download goroutines for system and application, daily
  checks, installations, failing calls, interrupted transfers and restarts at any point, in which no two system downloads run at once:
  every file that has the name of a finished system bundle below the upgrade directory, and every bundle that was given to the system's
  install script, has a checksum that the cloud announced.\<close>

theorem system_bundles_verified:
  assumes "booted sha A y" and "neverTwo V sha acts y" and "\<forall>a \<in> set acts. \<forall>w \<in> set (worlds a). worldOk A w"
  shows "(\<forall>d x b. Ext x = ''.raucb'' \<longrightarrow> fileBytes (us_up (urun V sha acts y)) (upDir @ [d, x]) = Some b \<longrightarrow> verified sha A b) \<and>
    (\<forall>p b. (''os'', p, b) \<in> set (u_installs (us_up (urun V sha acts y))) \<longrightarrow> verified sha A b)"
proof -
  have "sysOk sha A (urun V sha acts y)" by (rule sysOk_urun [OF booted_ok(1) [OF assms(1)] assms(2)]) (use assms(3) in blast)
  then show ?thesis by (fastforce simp: sysOk_def bundleOk_def bundlePath_def fileBytes_ino osInstalls_def)
qed

text \<open>The steps of goroutine \<open>n\<close> that download a file with the given bytes, up to the look at the checksum.\<close>

definition fetchActs :: "nat \<Rightarrow> world \<Rightarrow> string \<Rightarrow> action list" where
  "fetchActs n w bytes = replicate 9 (AThread n w) @ [AThread n (w\<lparr>w_chunk := bytes\<rparr>), AThread n w]"

lemma demo_booted: "booted sha A (demoSys [] d 0)"
proof -
  have "ino (us_up (demoSys [] d 0)) p = None" for p
    by (auto simp: ino_def demoSys_def fsGet_def split: option.splits node.splits if_splits dest!: map_of_SomeD)
  moreover have "fsWF (u_fs (us_up (demoSys [] d 0)))" by (simp add: demoSys_def fsWF_def fsGet_def)
  moreover have "fsGet (u_fs (us_up (demoSys [] d 0))) (upDir @ [e, x]) = None" for e x by (simp add: demoSys_def fsGet_def upDir_def)
  ultimately show ?thesis by (simp add: booted_def nsOk_def bundleOk_def) (simp add: demoSys_def)
qed

lemma demo_world: "slash \<notin> set v \<Longrightarrow> worldOk {demoInfo v h} (demoWorld (demoInfo v h)\<lparr>w_chunk := c\<rparr>)"
  by (simp add: worldOk_def demoWorld_def demoInfo_def)

text \<open>The witness follows a download from the request to the installation.\<close>

definition installActs :: "action list" where
  "installActs = (let w = demoWorld (demoInfo ''1.1.0'' ''good'') in
     [ACheck True w] @ fetchActs 0 w ''good'' @ [AThread 0 w, AThread 0 w, AThread 0 w, AUpdate LockTaken w, AJob 0 ScriptOk w])"

theorem system_bundles_verified_witness:
  "u_installs (us_up (urun ''dev'' (\<lambda>b. b) installActs (demoSys [] (\<lambda>_. []) 0))) =
     [(''os'', ''/var/lib/nimoos_data/upgrade/v1.1.0/nimo_update_1.1.0.raucb'', ''good'')] \<and>
   verified (\<lambda>b. b) {demoInfo ''1.1.0'' ''good''} ''good''"
proof -
  have i: "u_installs (us_up (urun ''dev'' (\<lambda>b. b) installActs (demoSys [] (\<lambda>_. []) 0))) =
     [(''os'', ''/var/lib/nimoos_data/upgrade/v1.1.0/nimo_update_1.1.0.raucb'', ''good'')]" by code_simp
  have "neverTwo ''dev'' (\<lambda>b. b) installActs (demoSys [] (\<lambda>_. []) 0)"
    by (rule flight_neverTwo [OF booted_ok(2) [OF demo_booted]]) (simp add: installActs_def fetchActs_def Let_def)
  moreover have "\<forall>a \<in> set installActs. \<forall>w \<in> set (worlds a). worldOk {demoInfo ''1.1.0'' ''good''} w"
    by (auto simp: installActs_def fetchActs_def Let_def worldOk_def demoWorld_def demoInfo_def)
  ultimately have "\<forall>p b. (''os'', p, b) \<in> set (u_installs (us_up (urun ''dev'' (\<lambda>b. b) installActs (demoSys [] (\<lambda>_. []) 0)))) \<longrightarrow>
     verified (\<lambda>b. b) {demoInfo ''1.1.0'' ''good''} b"
    using system_bundles_verified [OF demo_booted] by blast
  then have "verified (\<lambda>b. b) {demoInfo ''1.1.0'' ''good''} ''good''" unfolding i by (simp only: list.set insert_iff simp_thms prod.inject) blast
  then show ?thesis using i by blast
qed

theorem cloud_cache_never_hit_witness:
  "(let w = demoWorld (demoInfo ''2.0.0'' ''good''); y = urun ''dev'' (\<lambda>b. b) [ACheckApp False w] (demoSys [] (\<lambda>_. []) 0) in
    map fst (u_cloud (us_up y)) = [''cloud_update_app_1.0.0''] \<and>
    fst (checkAppCloudUpdate ''1.0.0'' (w\<lparr>w_expired := False, w_cloud := HttpError\<rparr>) (us_up y)) = Inl ())"
proof -
  have "map fst (u_cloud (us_up (urun ''dev'' (\<lambda>b. b) [ACheckApp False (demoWorld (demoInfo ''2.0.0'' ''good''))] (demoSys [] (\<lambda>_. []) 0)))) =
      [''cloud_update_app_1.0.0'']" by code_simp
  moreover have "u_cloud (us_up (demoSys [] (\<lambda>_. []) 0)) = []" by (simp add: demoSys_def)
  ultimately show ?thesis using cloud_cache_never_hit [of "demoSys [] (\<lambda>_. []) 0"] by (simp add: Let_def checkCloudUpdate_def)
qed

text \<open>C22. As long as no request cancels a download, there is at no moment more than one goroutine that downloads a system bundle, whatever
  requests, daily checks, failures and restarts happen.\<close>

theorem single_download:
  assumes "booted sha A y" and "ACancel \<notin> set acts"
  shows "neverTwo V sha acts y"
  by (rule flight_neverTwo [OF booted_ok(2) [OF assms(1)] assms(2)])

theorem single_download_witness: "neverTwo ''dev'' (\<lambda>b. b) installActs (demoSys [] (\<lambda>_. []) 0)"
  by (rule single_download [OF demo_booted]) (simp add: installActs_def fetchActs_def Let_def)

section \<open>Where it fails\<close>

text \<open>Cancelling sets the status to idle while the goroutine still runs; a goroutine past its loop does not look at the context again.\<close>

definition raceActs :: "action list" where
  "raceActs = (let w = demoWorld (demoInfo ''1.1.0'' ''good'') in
     [ACheck True w] @ fetchActs 0 w ''good'' @ [ACancel, ACheck True w] @ replicate 8 (AThread 1 w) @
     [AThread 0 w, AUpdate LockTaken w, AJob 0 ScriptOk w])"


definition refreshActs :: "action list" where
  "refreshActs = (let w = demoWorld (demoInfo ''1.1.0'' ''good''); w2 = demoWorld (demoInfo ''1.2.0'' ''next'') in
     [ACheck True w] @ replicate 6 (AThread 0 w) @ [AThread 0 (w\<lparr>w_http := Some (403, 0)\<rparr>)] @ replicate 4 (AThread 0 w2) @
     [AThread 0 (w2\<lparr>w_chunk := ''next''\<rparr>)] @ replicate 4 (AThread 0 w2))"

text \<open>When the refreshed address belongs to a newer version, the download ends as completed and is announced, but its bundle lies in the
  directory of the older version and the clean-up has deleted it: the following installation finds no bundle.\<close>

theorem refreshed_download_deleted:
  "dl_status (u_os (us_up (urun ''dev'' (\<lambda>b. b) refreshActs (demoSys [] (\<lambda>_. []) 0)))) = ''completed'' \<and>
   u_events (us_up (urun ''dev'' (\<lambda>b. b) refreshActs (demoSys [] (\<lambda>_. []) 0))) = [(''nimoos:upgrade:downloaded'', ''1.2.0'')] \<and>
   UpdateSystemVersion ''dev'' LockTaken (demoWorld (demoInfo ''1.2.0'' ''next'')) (us_up (urun ''dev'' (\<lambda>b. b) refreshActs (demoSys [] (\<lambda>_. []) 0))) =
     Inl ''no downloaded upgrade bundle found''"
  by code_simp

text \<open>A downloaded application bundle, waiting for its installation.\<close>

definition appWaiting :: usys where
  "appWaiting = demoSys [(upDir @ [''app_v2.0.0''], Directory), (upDir @ [''app_v2.0.0'', ''bundle.tar.gz''], RegularFile (Itoa 0))] (\<lambda>_. ''app'') 1"

text \<open>The clean-up after a system download removes every directory but its own, and with it the downloaded bundle of the application.\<close>

theorem system_download_deletes_app_bundle:
  "fileBytes (us_up appWaiting) (appBundle ''2.0.0'') = Some ''app'' \<and>
   fileBytes (us_up (urun ''dev'' (\<lambda>b. b) (take 15 installActs) appWaiting)) (appBundle ''2.0.0'') = None \<and>
   dl_status (u_os (us_up (urun ''dev'' (\<lambda>b. b) (take 15 installActs) appWaiting))) = ''completed''"
  by code_simp

text \<open>\<^verbatim>\<open>UpdateAppVersion\<close> installs what it downloads without looking at the announced checksum; and when the transfer breaks off, the next
  request takes the partial file for a downloaded bundle and installs it.\<close>

theorem app_update_unverified:
  "(let w = demoWorld (demoInfo ''2.0.0'' ''good'') in
    u_installs (us_up (urun ''dev'' (\<lambda>b. b) [AUpdateApp LockTaken w w (w\<lparr>w_chunk := ''evil''\<rparr>) w] (demoSys [] (\<lambda>_. []) 0))) =
      [(''app'', ''/var/lib/nimoos_data/upgrade/app_v2.0.0/bundle.tar.gz'', ''evil'')] \<and>
    u_installs (us_up (urun ''dev'' (\<lambda>b. b) [AUpdateApp LockTaken w w (w\<lparr>w_chunk := ''go'', w_end := ReadFailed\<rparr>) w, AUpdateApp LockTaken w w w w]
      (demoSys [] (\<lambda>_. []) 0))) = [(''app'', ''/var/lib/nimoos_data/upgrade/app_v2.0.0/bundle.tar.gz'', ''go'')])"
  by code_simp

text \<open>A version of the cloud with fewer than three components ends the process: the comparison in the goroutine of the daily check
  panics, nothing recovers it, and the downloads that run are lost.\<close>

theorem short_version_ends_process:
  "(let w = demoWorld (demoInfo ''2.0.0'' ''good''); short = demoWorld (demoInfo ''1.0'' ''good'');
        y = urun ''dev'' (\<lambda>b. b) [ACheckApp True w, AThread 0 w] (demoSys [] (\<lambda>_. []) 0) in
    fst (CheckUpdate ''dev'' short (us_up y)) = None \<and> map_option t_pc (us_threads y 0) = Some PQuery \<and>
    us_threads (uact ''dev'' (\<lambda>b. b) (ADailyOs short) y) 0 = None \<and>
    dl_status (u_app (us_up (uact ''dev'' (\<lambda>b. b) (ADailyOs short) y))) = [])"
  by code_simp

end
