(* ===== verification/PeerTable.thy ===== *)
theory PeerTable
  imports Prelude "HOL-Library.Char_ord" "HOL-Library.List_Lexorder" "HOL-Library.Multiset"
begin

text \<open>
  The devices of the drop page: the peer table (\<^verbatim>\<open>service/peer.go\<close>), names and addresses of a device (\<^verbatim>\<open>service/socket.go\<close>) and what a
  connecting device does to the table (\<^verbatim>\<open>ConnectWebSocket\<close> in \<^verbatim>\<open>route/v1/file.go\<close>). A statement may fail; the code ignores every error.
  The order of rows with equal timestamps is left to the database: \<open>ord\<close> stands for its answer to \<^verbatim>\<open>updated desc\<close>. The parser of
  user agents is a library, \<open>ua\<close>.
\<close>

section \<open>Definitions\<close>

record peerRow =
  pd_ID :: string
  pd_Updated :: int
  pd_Created :: int
  pd_UserAgent :: string
  pd_DisplayName :: string
  pd_DeviceName :: string
  pd_Model :: string
  pd_IP :: string
  pd_OS :: string
  pd_Browser :: string
  pd_Online :: bool

definition zeroPeer :: peerRow where
  "zeroPeer = \<lparr>pd_ID = [], pd_Updated = 0, pd_Created = 0, pd_UserAgent = [], pd_DisplayName = [], pd_DeviceName = [], pd_Model = [],
     pd_IP = [], pd_OS = [], pd_Browser = [], pd_Online = False\<rparr>"

record peerDB =
  db_rows :: "peerRow list"
  db_faults :: "bool list"

definition dbFault :: "peerDB \<Rightarrow> bool \<times> peerDB" where
  "dbFault d = (case db_faults d of [] \<Rightarrow> (False, d) | f # fs \<Rightarrow> (f, d\<lparr>db_faults := fs\<rparr>))"

text \<open>\<^verbatim>\<open>First\<close> orders by the primary key.\<close>

definition firstRow :: "(peerRow \<Rightarrow> bool) \<Rightarrow> peerRow list \<Rightarrow> peerRow" where
  "firstRow P rows = (case sort_key pd_ID (filter P rows) of [] \<Rightarrow> zeroPeer | r # _ \<Rightarrow> r)"

definition dbFirst :: "(peerRow \<Rightarrow> bool) \<Rightarrow> peerDB \<Rightarrow> peerRow \<times> peerDB" where
  "dbFirst P d = (case dbFault d of (f, d1) \<Rightarrow> (if f then zeroPeer else firstRow P (db_rows d1), d1))"

definition GetPeerByName :: "string \<Rightarrow> peerDB \<Rightarrow> peerRow \<times> peerDB" where
  "GetPeerByName name = dbFirst (\<lambda>r. pd_DisplayName r = name)"

definition GetPeerByUserAgent :: "string \<Rightarrow> peerDB \<Rightarrow> peerRow \<times> peerDB" where
  "GetPeerByUserAgent agent = dbFirst (\<lambda>r. pd_UserAgent r = agent)"

definition GetPeerByID :: "string \<Rightarrow> peerDB \<Rightarrow> peerRow \<times> peerDB" where
  "GetPeerByID i = dbFirst (\<lambda>r. pd_ID r = i)"

type_synonym sqlOrder = "peerRow list \<Rightarrow> peerRow list"

definition GetPeers :: "sqlOrder \<Rightarrow> peerDB \<Rightarrow> peerRow list \<times> peerDB" where
  "GetPeers ord d = (case dbFault d of (f, d1) \<Rightarrow> (if f then [] else ord (db_rows d1), d1))"

text \<open>The insert fills the timestamps, and it fails when the primary key exists.\<close>

definition CreatePeer :: "int \<Rightarrow> peerRow \<Rightarrow> peerDB \<Rightarrow> peerRow \<times> peerDB" where
  "CreatePeer now m d =
     (let m1 = m\<lparr>pd_Updated := (if pd_Updated m = 0 then now else pd_Updated m), pd_Created := (if pd_Created m = 0 then now else pd_Created m)\<rparr>
      in case dbFault d of (f, d1) \<Rightarrow>
        (m1, if f \<or> pd_ID m1 \<in> pd_ID ` set (db_rows d1) then d1 else d1\<lparr>db_rows := db_rows d1 @ [m1]\<rparr>))"

definition TouchPeer :: "string \<Rightarrow> int \<Rightarrow> peerDB \<Rightarrow> peerDB" where
  "TouchPeer i updated d = (case dbFault d of (f, d1) \<Rightarrow>
     if f then d1 else d1\<lparr>db_rows := map (\<lambda>r. if pd_ID r = i then r\<lparr>pd_Updated := updated\<rparr> else r) (db_rows d1)\<rparr>)"

definition DeletePeer :: "string \<Rightarrow> peerDB \<Rightarrow> peerDB" where
  "DeletePeer i d = (case dbFault d of (f, d1) \<Rightarrow>
     if f then d1 else d1\<lparr>db_rows := filter (\<lambda>r. pd_ID r \<noteq> i) (db_rows d1)\<rparr>)"

text \<open>The device behind a request.\<close>

record peerRequest =
  rq_peer :: string
  rq_cookie :: "string option"
  rq_forwarded :: string
  rq_remote :: string
  rq_agent :: string

record userAgent =
  ua_Device :: string
  ua_Name :: string
  ua_OS :: string
  ua_Mobile :: bool
  ua_Tablet :: bool

record peerName =
  pn_Model :: string
  pn_OS :: string
  pn_Browser :: string
  pn_DeviceName :: string
  pn_DisplayName :: string

definition GetPeerId :: "peerRequest \<Rightarrow> string \<Rightarrow> string" where
  "GetPeerId rq key = (case rq_cookie rq of None \<Rightarrow> key | Some v \<Rightarrow> if v \<noteq> [] then v else key)"

definition GetIP :: "peerRequest \<Rightarrow> string" where
  "GetIP rq =
     (let ip = (if rq_forwarded rq \<noteq> [] then hd (Split (CHR '','') (rq_forwarded rq)) else rq_remote rq)
      in if ip = ''::1'' \<or> ip = ''::ffff:127.0.0.1'' then ''127.0.0.1'' else ip)"

text \<open>The loop that looks for a free display name.\<close>

partial_function (option) freeName :: "string \<Rightarrow> nat \<Rightarrow> peerDB \<Rightarrow> (string \<times> peerDB) option" where
  "freeName display i d =
     (case GetPeerByName (display @ ''_'' @ Itoa (i + 1)) d of (p, d1) \<Rightarrow>
        if pd_ID p = [] then Some (display @ ''_'' @ Itoa (i + 1), d1) else freeName display (i + 1) d1)"

declare freeName.simps [code]

definition GetName :: "(string \<Rightarrow> userAgent) \<Rightarrow> peerRequest \<Rightarrow> peerDB \<Rightarrow> (peerName \<times> peerDB) option" where
  "GetName ua rq d =
     (let us = ua (rq_agent rq);
          device = (if ua_Device us \<noteq> [] then ua_Device us else ua_Name us);
          display = (if ua_Device us \<noteq> [] then ua_Device us @ '' '' @ ua_Name us else ua_OS us @ '' '' @ ua_Name us);
          model = (if ua_Tablet us then ''tablet'' else if ua_Mobile us then ''mobile'' else ''desktop'');
          name = (\<lambda>dn. \<lparr>pn_Model = model, pn_OS = ua_OS us, pn_Browser = ua_Name us, pn_DeviceName = device, pn_DisplayName = dn\<rparr>)
      in case GetPeerByName display d of (p, d1) \<Rightarrow>
        if pd_ID p = [] then Some (name display, d1)
        else (case freeName display 0 d1 of None \<Rightarrow> None | Some (dn, d2) \<Rightarrow> Some (name dn, d2)))"

definition GetNameByDB :: "peerRow \<Rightarrow> peerName" where
  "GetNameByDB m = \<lparr>pn_Model = pd_Model m, pn_OS = pd_OS m, pn_Browser = pd_Browser m,
     pn_DeviceName = (if pd_DeviceName m \<noteq> [] then pd_DeviceName m else pd_Browser m), pn_DisplayName = pd_DisplayName m\<rparr>"

text \<open>The rows to drop: from the end, offline ones only and never the arriving one.\<close>

primrec kickLoop :: "(string \<Rightarrow> bool) \<Rightarrow> string \<Rightarrow> int \<Rightarrow> string list \<Rightarrow> string list" where
  "kickLoop isOnline arriving remaining [] = []"
| "kickLoop isOnline arriving remaining (i # is) =
     (if \<not> 0 < remaining then []
      else if i = arriving \<or> isOnline i then kickLoop isOnline arriving remaining is
      else i # kickLoop isOnline arriving (remaining - 1) is)"

definition kickoutIDs :: "string list \<Rightarrow> (string \<Rightarrow> bool) \<Rightarrow> string \<Rightarrow> int \<Rightarrow> string list" where
  "kickoutIDs ids isOnline arriving keep =
     (let remaining = int (length ids) - keep
      in if remaining \<le> 0 then [] else kickLoop isOnline arriving remaining (rev ids))"

text \<open>Who the device is: the row it asks for, or the identity of its cookie or a fresh one.\<close>

definition identify :: "int \<Rightarrow> peerRequest \<Rightarrow> string \<Rightarrow> peerName \<Rightarrow> peerDB \<Rightarrow> (string \<times> peerName \<times> peerRow) \<times> peerDB" where
  "identify now rq key name d =
     (if rq_peer rq = [] then ((GetPeerId rq key, name, zeroPeer), d)
      else (case GetPeerByID (rq_peer rq) d of (p, d1) \<Rightarrow>
        if pd_ID p = [] then ((GetPeerId rq key, name, p), d1)
        else ((pd_ID p, GetNameByDB p, p), TouchPeer (pd_ID p) now d1)))"

definition newPeer :: "peerRequest \<Rightarrow> string \<Rightarrow> peerName \<Rightarrow> peerRow" where
  "newPeer rq clientID name = zeroPeer\<lparr>pd_ID := clientID, pd_DisplayName := pn_DisplayName name, pd_DeviceName := pn_DeviceName name,
     pd_Model := pn_Model name, pd_OS := pn_OS name, pd_Browser := pn_Browser name, pd_UserAgent := rq_agent rq, pd_IP := GetIP rq\<rparr>"

text \<open>The table of at most ten rows: a new device is inserted, then offline rows go.\<close>

definition admitPeer :: "sqlOrder \<Rightarrow> (string \<Rightarrow> bool) \<Rightarrow> int \<Rightarrow> peerRequest \<Rightarrow> peerName \<Rightarrow> string \<Rightarrow> peerRow \<Rightarrow> peerDB \<Rightarrow> peerDB" where
  "admitPeer ord isOnline now rq name clientID p d =
     (case GetPeers ord d of (list, d1) \<Rightarrow>
        case (if pd_ID p = [] then (case CreatePeer now (newPeer rq clientID name) d1 of (m, d2) \<Rightarrow> (list @ [m], d2)) else (list, d1)) of
          (list1, d3) \<Rightarrow>
            snd (GetPeers ord (if 10 < length list1 then fold DeletePeer (kickoutIDs (map pd_ID list1) isOnline clientID 10) d3 else d3)))"

definition connectPeer :: "sqlOrder \<Rightarrow> (string \<Rightarrow> bool) \<Rightarrow> int \<Rightarrow> peerRequest \<Rightarrow> string \<Rightarrow> peerName \<Rightarrow> peerDB \<Rightarrow> (string \<times> peerName) \<times> peerDB" where
  "connectPeer ord isOnline now rq key name d =
     (case identify now rq key name d of ((clientID, cname, p), d1) \<Rightarrow> ((clientID, cname), admitPeer ord isOnline now rq name clientID p d1))"

section \<open>Lemmas\<close>

lemma kickLoop_take: "kickLoop on a r is = take (nat r) (filter (\<lambda>i. i \<noteq> a \<and> \<not> on i) is)"
proof (induction "is" arbitrary: r)
  case (Cons i "is")
  have "0 < r \<Longrightarrow> nat r = Suc (nat (r - 1))" by simp
  with Cons show ?case by (cases "0 < r") auto
qed simp

lemma kickoutIDs_take:
  "kickoutIDs ids on a keep = take (nat (int (length ids) - keep)) (filter (\<lambda>i. i \<noteq> a \<and> \<not> on i) (rev ids))"
  by (simp add: kickoutIDs_def kickLoop_take)

lemma sort_key_Nil_iff: "sort_key k xs = [] \<longleftrightarrow> xs = []"
  by (metis set_sort set_empty)

lemma firstRow_cases: "firstRow P rows = zeroPeer \<or> firstRow P rows \<in> set rows \<and> P (firstRow P rows)"
proof (cases "sort_key pd_ID (filter P rows)")
  case (Cons r rs)
  then have "r \<in> set (filter P rows)" by (metis list.set_intros(1) set_sort)
  then show ?thesis using Cons by (simp add: firstRow_def)
qed (simp add: firstRow_def)

lemma firstRow_unique:
  assumes "distinct (map pd_ID rows)" "r \<in> set rows"
  shows "firstRow (\<lambda>x. pd_ID x = pd_ID r) rows = r"
proof -
  have "filter (\<lambda>x. pd_ID x = pd_ID r) rows = [r]"
    using assms by (induction rows) (auto simp: filter_empty_conv rev_image_eqI)
  then show ?thesis by (simp add: firstRow_def)
qed

lemma dbFault_rows [simp]: "db_rows (snd (dbFault d)) = db_rows d"
  by (simp add: dbFault_def split: list.split)

lemma dbFault_rowsD: "dbFault d = (f, d1) \<Longrightarrow> db_rows d1 = db_rows d"
  by (metis dbFault_rows snd_conv)

lemma dbFault_none [simp]: "db_faults d = [] \<Longrightarrow> dbFault d = (False, d)"
  by (simp add: dbFault_def)

lemma dbFirst_rows [simp]: "db_rows (snd (dbFirst P d)) = db_rows d"
  by (simp add: dbFirst_def dbFault_rowsD split: prod.splits)

lemma GetPeers_rows [simp]: "db_rows (snd (GetPeers ord d)) = db_rows d"
  by (simp add: GetPeers_def dbFault_rowsD split: prod.splits)

lemma dbFirst_found:
  assumes "dbFirst P d = (p, d1)" "pd_ID p \<noteq> []"
  shows "p \<in> set (db_rows d) \<and> P p"
proof -
  have "p \<noteq> zeroPeer" using assms(2) by (auto simp: zeroPeer_def)
  then show ?thesis using assms(1) firstRow_cases [of P "db_rows d"]
    by (auto simp: dbFirst_def dbFault_rowsD split: prod.splits if_splits)
qed

text \<open>The search for a free name ends: every round that goes on has met another row.\<close>

abbreviation takenFrom :: "string \<Rightarrow> nat \<Rightarrow> peerDB \<Rightarrow> nat set" where
  "takenFrom display i d \<equiv> {k. i < k \<and> display @ ''_'' @ Itoa k \<in> pd_DisplayName ` set (db_rows d)}"

lemma takenFrom_finite: "finite (takenFrom display i d)"
proof (rule finite_subset)
  show "takenFrom display i d \<subseteq> {k. display @ ''_'' @ Itoa k \<in> pd_DisplayName ` set (db_rows d)}" by auto
  have "inj (\<lambda>k. display @ ''_'' @ Itoa k)" by (auto simp: inj_def dest: Itoa_inj)
  then show "finite {k. display @ ''_'' @ Itoa k \<in> pd_DisplayName ` set (db_rows d)}"
    using finite_vimageI [of "pd_DisplayName ` set (db_rows d)" "\<lambda>k. display @ ''_'' @ Itoa k"] by (simp add: vimage_def)
qed

lemma freeName_total: "\<exists>n d1. freeName display i d = Some (n, d1) \<and> db_rows d1 = db_rows d"
proof (induction "card (takenFrom display i d)" arbitrary: i d rule: less_induct)
  case less
  obtain p d1 where g: "GetPeerByName (display @ ''_'' @ Itoa (i + 1)) d = (p, d1)" by force
  have rows: "db_rows d1 = db_rows d" using dbFirst_rows g unfolding GetPeerByName_def by (metis snd_conv)
  show ?case
  proof (cases "pd_ID p = []")
    case True
    then show ?thesis using g rows by (subst freeName.simps) simp
  next
    case False
    then have "i + 1 \<in> takenFrom display i d"
      using dbFirst_found g unfolding GetPeerByName_def by (force intro: rev_image_eqI)
    moreover have "takenFrom display (i + 1) d1 \<subseteq> takenFrom display i d" "i + 1 \<notin> takenFrom display (i + 1) d1" using rows by auto
    ultimately have "takenFrom display (i + 1) d1 \<subset> takenFrom display i d" by blast
    then have "card (takenFrom display (i + 1) d1) < card (takenFrom display i d)" by (intro psubset_card_mono takenFrom_finite)
    from less [OF this] False g rows show ?thesis by (subst freeName.simps) simp
  qed
qed

lemma GetName_total: "\<exists>n d1. GetName ua rq d = Some (n, d1) \<and> db_rows d1 = db_rows d"
proof -
  let ?us = "ua (rq_agent rq)"
  define dn where "dn = (if ua_Device ?us \<noteq> [] then ua_Device ?us @ '' '' @ ua_Name ?us else ua_OS ?us @ '' '' @ ua_Name ?us)"
  obtain p d1 where g: "GetPeerByName dn d = (p, d1)" by force
  then have "db_rows d1 = db_rows d" using dbFirst_rows unfolding GetPeerByName_def by (metis snd_conv)
  moreover from this obtain n d2 where "freeName dn 0 d1 = Some (n, d2)" "db_rows d2 = db_rows d" using freeName_total by metis
  ultimately show ?thesis unfolding GetName_def Let_def dn_def [symmetric] g by simp
qed

section \<open>The table after a connect\<close>

text \<open>What \<^verbatim>\<open>order by updated desc\<close> promises.\<close>

definition orderOk :: "sqlOrder \<Rightarrow> bool" where
  "orderOk ord = (\<forall>rs. mset (ord rs) = mset rs \<and> sorted_wrt (\<lambda>a b. pd_Updated b \<le> pd_Updated a) (ord rs))"

lemma orderOk_set: "orderOk ord \<Longrightarrow> set (ord rs) = set rs \<and> length (ord rs) = length rs \<and> (distinct (map pd_ID (ord rs)) \<longleftrightarrow> distinct (map pd_ID rs))"
  unfolding orderOk_def by (metis mset_eq_setD mset_eq_length mset_map mset_eq_imp_distinct_iff)

lemma fold_DeletePeer:
  "db_faults d = [] \<Longrightarrow> fold DeletePeer ids d = d\<lparr>db_rows := filter (\<lambda>r. pd_ID r \<notin> set ids) (db_rows d)\<rparr>"
  by (induction ids arbitrary: d) (auto simp: DeletePeer_def intro!: filter_cong)

lemma filter_len: "distinct (map k xs) \<Longrightarrow> distinct K \<Longrightarrow> set K \<subseteq> k ` set xs \<Longrightarrow>
  length (filter (\<lambda>x. k x \<notin> set K) xs) + length K = length xs"
proof -
  assume d: "distinct (map k xs)" and K: "distinct K" "set K \<subseteq> k ` set xs"
  have "length (filter (\<lambda>x. k x \<in> set K) xs) = card (set K)"
  proof -
    have "length (filter (\<lambda>x. k x \<in> set K) xs) = card (k ` set (filter (\<lambda>x. k x \<in> set K) xs))"
      using d by (metis (no_types, lifting) distinct_card distinct_map_filter length_map set_map)
    also have "k ` set (filter (\<lambda>x. k x \<in> set K) xs) = set K" using K(2) by auto
    finally show ?thesis .
  qed
  then show ?thesis using sum_length_filter_compl [of "\<lambda>x. k x \<in> set K" xs] distinct_card [OF K(1)] by simp
qed

text \<open>The rows that are dropped, on the rows themselves.\<close>

lemma kickout_rows:
  "kickoutIDs (map pd_ID L @ (if c then [i] else [])) on i keep =
     map pd_ID (take (nat (int (length L) + (if c then 1 else 0) - keep)) (filter (\<lambda>r. pd_ID r \<noteq> i \<and> \<not> on (pd_ID r)) (rev L)))"
  by (simp add: kickoutIDs_take take_map rev_map filter_map comp_def)

text \<open>Eviction on rows: \<open>L\<close> is the listed table, \<open>R\<close> the table that is cut.\<close>

definition evict :: "(string \<Rightarrow> bool) \<Rightarrow> string \<Rightarrow> nat \<Rightarrow> peerRow list \<Rightarrow> peerRow list \<Rightarrow> peerRow list" where
  "evict on i N L R =
     (if 10 < N then filter (\<lambda>r. pd_ID r \<notin> pd_ID ` set (take (N - 10) (filter (\<lambda>r. pd_ID r \<noteq> i \<and> \<not> on (pd_ID r)) (rev L)))) R else R)"

lemma evict_kept:
  assumes "r \<in> set R" "pd_ID r = i \<or> on (pd_ID r)"
  shows "r \<in> set (evict on i N L R)"
  using assms by (auto simp: evict_def dest!: in_set_takeD)

lemma evict_cap:
  assumes d: "distinct (map pd_ID R)" "distinct (map pd_ID L)" and L: "set L \<subseteq> set R" and R: "\<And>r. r \<in> set R \<Longrightarrow> r \<in> set L \<or> pd_ID r = i"
    and N: "length R \<le> N"
  shows "length (evict on i N L R) \<le> 10 \<or> (\<forall>r \<in> set (evict on i N L R). pd_ID r = i \<or> on (pd_ID r))"
proof (cases "10 < N")
  case True
  define F where "F = filter (\<lambda>r. pd_ID r \<noteq> i \<and> \<not> on (pd_ID r)) (rev L)"
  define K where "K = map pd_ID (take (N - 10) F)"
  have ev: "evict on i N L R = filter (\<lambda>r. pd_ID r \<notin> set K) R" using True by (simp add: evict_def F_def K_def)
  show ?thesis
  proof (cases "N - 10 \<le> length F")
    case True
    have "distinct (map pd_ID F)" unfolding F_def by (intro distinct_map_filter) (use d(2) in \<open>simp add: rev_map [symmetric]\<close>)
    then have "distinct K" unfolding K_def by (metis distinct_take take_map)
    moreover have "set K \<subseteq> pd_ID ` set R" using L by (auto simp: K_def F_def dest!: in_set_takeD)
    ultimately have "length (filter (\<lambda>r. pd_ID r \<notin> set K) R) + length K = length R" using filter_len d(1) by blast
    moreover have "length K = N - 10" using True by (simp add: K_def)
    ultimately have "length (filter (\<lambda>r. pd_ID r \<notin> set K) R) \<le> 10" using N \<open>10 < N\<close> by linarith
    then show ?thesis using ev by simp
  next
    case False
    then have "take (N - 10) F = F" by simp
    then show ?thesis using R unfolding ev K_def F_def by (fastforce simp: F_def)
  qed
qed (use N in \<open>simp add: evict_def\<close>)

lemma evict_oldest:
  assumes s: "sorted_wrt (\<lambda>a b. pd_Updated b \<le> pd_Updated a) L" and q: "q \<in> set L" "q \<in> set (evict on i N L R)" "pd_ID q \<noteq> i" "\<not> on (pd_ID q)"
    and r: "r \<in> set L" "r \<in> set R" "r \<notin> set (evict on i N L R)" and d: "distinct (map pd_ID L)"
  shows "pd_Updated r \<le> pd_Updated q"
proof -
  define F where "F = filter (\<lambda>r. pd_ID r \<noteq> i \<and> \<not> on (pd_ID r)) (rev L)"
  have gone: "10 < N" "pd_ID r \<in> pd_ID ` set (take (N - 10) F)" using r by (auto simp: evict_def F_def split: if_splits)
  then obtain r' where "r' \<in> set (take (N - 10) F)" "pd_ID r' = pd_ID r" by auto
  moreover from this have "r' \<in> set L" by (auto simp: F_def dest!: in_set_takeD)
  ultimately have rt: "r \<in> set (take (N - 10) F)" using d r(1) by (metis distinct_map inj_onD)
  have "q \<in> set F" "q \<notin> set (take (N - 10) F)" using q gone(1) by (auto simp: F_def evict_def)
  then have qd: "q \<in> set (drop (N - 10) F)" by (metis Un_iff append_take_drop_id set_append)
  have "sorted_wrt (\<lambda>a b. pd_Updated a \<le> pd_Updated b) F"
    unfolding F_def by (intro sorted_wrt_filter) (use s in \<open>simp add: sorted_wrt_rev\<close>)
  then have "sorted_wrt (\<lambda>a b. pd_Updated a \<le> pd_Updated b) (take (N - 10) F @ drop (N - 10) F)" by simp
  then show ?thesis using rt qd by (simp only: sorted_wrt_append)
qed

text \<open>The statements of a connect, none failing: what it identifies, and the table it cuts.\<close>

lemma identify_rows:
  assumes "distinct (map pd_ID (db_rows d))" "db_faults d = []" "key \<noteq> []" and i: "identify now rq key name d = ((i, cn, p), d1)"
  shows "db_faults d1 = []" "i \<noteq> []" "pd_ID p = [] \<or> pd_ID p = i \<and> i \<in> pd_ID ` set (db_rows d)"
    and "db_rows d1 = map (\<lambda>r. if pd_ID p \<noteq> [] \<and> pd_ID r = i then r\<lparr>pd_Updated := now\<rparr> else r) (db_rows d)"
    and "rq_peer rq \<noteq> [] \<Longrightarrow> rq_peer rq \<in> pd_ID ` set (db_rows d) \<Longrightarrow> i = rq_peer rq \<and> pd_ID p = i"
proof -
  let ?f = "firstRow (\<lambda>r. pd_ID r = rq_peer rq) (db_rows d)"
  have key: "GetPeerId rq key \<noteq> []" using assms(3) by (simp add: GetPeerId_def split: option.splits)
  have found: "?f = zeroPeer \<or> ?f \<in> set (db_rows d) \<and> pd_ID ?f = rq_peer rq" by (rule firstRow_cases)
  have "identify now rq key name d = (if rq_peer rq = [] then ((GetPeerId rq key, name, zeroPeer), d)
     else if pd_ID ?f = [] then ((GetPeerId rq key, name, ?f), d)
     else ((pd_ID ?f, GetNameByDB ?f, ?f), TouchPeer (pd_ID ?f) now d))"
    using assms(2) by (simp add: identify_def GetPeerByID_def dbFirst_def)
  note eq = this [unfolded i]
  show "db_faults d1 = []" "i \<noteq> []" "db_rows d1 = map (\<lambda>r. if pd_ID p \<noteq> [] \<and> pd_ID r = i then r\<lparr>pd_Updated := now\<rparr> else r) (db_rows d)"
    using eq key assms(2) by (auto simp: TouchPeer_def zeroPeer_def split: if_splits)
  show "pd_ID p = [] \<or> pd_ID p = i \<and> i \<in> pd_ID ` set (db_rows d)"
    using eq found by (auto simp: zeroPeer_def split: if_splits)
  show "i = rq_peer rq \<and> pd_ID p = i" if "rq_peer rq \<noteq> []" "rq_peer rq \<in> pd_ID ` set (db_rows d)"
  proof -
    from that obtain r where "r \<in> set (db_rows d)" "pd_ID r = rq_peer rq" by auto
    then have "?f = r" using firstRow_unique [OF assms(1)] by metis
    then show ?thesis using eq that \<open>pd_ID r = rq_peer rq\<close> by simp
  qed
qed

lemma admitPeer_rows:
  fixes now :: int and rq :: peerRequest and name :: peerName and d :: peerDB and i :: string
  assumes "orderOk ord" "db_faults d = []" "pd_ID p = [] \<or> pd_ID p = i \<and> i \<in> pd_ID ` set (db_rows d)"
  defines "m \<equiv> fst (CreatePeer now (newPeer rq i name) d)"
  defines "R \<equiv> (if i \<in> pd_ID ` set (db_rows d) then db_rows d else db_rows d @ [m])"
  shows "db_rows (admitPeer ord on now rq name i p d) =
     evict on i (length (db_rows d) + (if pd_ID p = [] then 1 else 0)) (ord (db_rows d)) R"
proof -
  have m: "pd_ID m = i" by (simp add: m_def CreatePeer_def newPeer_def assms(2) Let_def)
  have c: "CreatePeer now (newPeer rq i name) d = (m, d\<lparr>db_rows := R\<rparr>)"
    using assms(2) by (auto simp: R_def m_def CreatePeer_def newPeer_def Let_def)
  have len: "length (ord (db_rows d)) = length (db_rows d)" using orderOk_set [OF assms(1)] by simp
  have k: "kickoutIDs (map pd_ID (ord (db_rows d)) @ (if b then [i] else [])) on i 10 =
      map pd_ID (take (length (db_rows d) + (if b then 1 else 0) - 10) (filter (\<lambda>r. pd_ID r \<noteq> i \<and> \<not> on (pd_ID r)) (rev (ord (db_rows d)))))" for b
    unfolding kickout_rows len by (cases b) (simp_all add: nat_diff_distrib' nat_add_distrib flip: of_nat_Suc)
  show ?thesis
  proof (cases "pd_ID p = []")
    case True
    then show ?thesis using assms(2) k [of True] c m len
      by (simp add: admitPeer_def GetPeers_def evict_def fold_DeletePeer)
  next
    case False
    then have "R = db_rows d" using assms(3) by (simp add: R_def)
    with False show ?thesis using assms(2) k [of False] len
      by (simp add: admitPeer_def GetPeers_def evict_def fold_DeletePeer)
  qed
qed

lemma connect_evicts:
  assumes ord: "orderOk ord" and ids: "distinct (map pd_ID (db_rows d))" and nf: "db_faults d = []" and key: "key \<noteq> []"
    and conn: "connectPeer ord on now rq key name d = ((i, cn), d')"
  obtains N L R where "db_rows d' = evict on i N L R" "length R \<le> N" "distinct (map pd_ID R)" "distinct (map pd_ID L)" "set L \<subseteq> set R"
    "i \<in> pd_ID ` set R" "pd_ID ` set L = pd_ID ` set (db_rows d)" "sorted_wrt (\<lambda>a b. pd_Updated b \<le> pd_Updated a) L"
    "\<And>r. r \<in> set R \<Longrightarrow> r \<in> set L \<or> pd_ID r = i" "\<And>r. r \<in> set (db_rows d) \<Longrightarrow> pd_ID r \<noteq> i \<Longrightarrow> r \<in> set L"
proof -
  obtain p d1 where id: "identify now rq key name d = ((i, cn, p), d1)" and d': "d' = admitPeer ord on now rq name i p d1"
    using conn by (auto simp: connectPeer_def split: prod.splits)
  note idr = identify_rows [OF ids nf key id]
  have same: "map pd_ID (db_rows d1) = map pd_ID (db_rows d)" by (simp add: idr(4))
  then have ids1: "pd_ID ` set (db_rows d1) = pd_ID ` set (db_rows d)" by (metis set_map)
  define m where "m = fst (CreatePeer now (newPeer rq i name) d1)"
  define R where "R = (if i \<in> pd_ID ` set (db_rows d1) then db_rows d1 else db_rows d1 @ [m])"
  define N where "N = length (db_rows d1) + (if pd_ID p = [] then 1 else 0)"
  let ?L = "ord (db_rows d1)"
  have m: "pd_ID m = i" by (simp add: m_def CreatePeer_def newPeer_def idr(1) Let_def)
  have L: "set ?L = set (db_rows d1)" "distinct (map pd_ID ?L)" "sorted_wrt (\<lambda>a b. pd_Updated b \<le> pd_Updated a) ?L"
    using orderOk_set [OF ord, of "db_rows d1"] ord ids same by (auto simp: orderOk_def)
  show ?thesis
  proof (rule that [of N ?L R])
    show "db_rows d' = evict on i N ?L R"
      unfolding d' R_def N_def m_def using idr(1,3) ids1 by (intro admitPeer_rows ord) auto
    show "distinct (map pd_ID R)" "set ?L \<subseteq> set R" "i \<in> pd_ID ` set R" "length R \<le> N"
      using ids same m idr(3) ids1 L(1) by (auto simp: R_def N_def)
    show "pd_ID ` set ?L = pd_ID ` set (db_rows d)" using L(1) ids1 by simp
    show "r \<in> set ?L \<or> pd_ID r = i" if "r \<in> set R" for r using that L(1) m by (auto simp: R_def split: if_splits)
    show "r \<in> set ?L" if "r \<in> set (db_rows d)" "pd_ID r \<noteq> i" for r using that L(1) by (auto simp: idr(4) rev_image_eqI)
  qed (use L in auto)
qed

text \<open>C27. When no statement fails, a connecting device keeps a row under the identity it is told, every online device keeps its row, and
  no row is listed twice; the table ends with at most ten rows unless all of them belong to online devices and the arriving one; an
  offline row that goes was not used later than an offline row that stays; a device that asks for an identity that has a row gets it.\<close>

theorem connect_peer_table:
  assumes "orderOk ord" and ids: "distinct (map pd_ID (db_rows d))" and "db_faults d = []" and "key \<noteq> []"
    and conn: "connectPeer ord on now rq key name d = ((i, cn), d')"
  shows "distinct (map pd_ID (db_rows d')) \<and> i \<in> pd_ID ` set (db_rows d') \<and>
    (\<forall>j \<in> pd_ID ` set (db_rows d). on j \<longrightarrow> j \<in> pd_ID ` set (db_rows d')) \<and>
    (length (db_rows d') \<le> 10 \<or> (\<forall>j \<in> pd_ID ` set (db_rows d'). j = i \<or> on j)) \<and>
    (\<forall>r \<in> set (db_rows d). \<forall>q \<in> set (db_rows d). pd_ID r \<notin> pd_ID ` set (db_rows d') \<longrightarrow> pd_ID q \<in> pd_ID ` set (db_rows d') \<longrightarrow>
       pd_ID q \<noteq> i \<longrightarrow> \<not> on (pd_ID q) \<longrightarrow> pd_Updated r \<le> pd_Updated q) \<and>
    (rq_peer rq \<noteq> [] \<and> rq_peer rq \<in> pd_ID ` set (db_rows d) \<longrightarrow> i = rq_peer rq)"
proof -
  obtain N L R where ev: "db_rows d' = evict on i N L R" "length R \<le> N" and dist: "distinct (map pd_ID R)" "distinct (map pd_ID L)"
    and sub: "set L \<subseteq> set R" and iR: "i \<in> pd_ID ` set R" and idL: "pd_ID ` set L = pd_ID ` set (db_rows d)"
    and srt: "sorted_wrt (\<lambda>a b. pd_Updated b \<le> pd_Updated a) L" and R: "\<And>r. r \<in> set R \<Longrightarrow> r \<in> set L \<or> pd_ID r = i"
    and dL: "\<And>r. r \<in> set (db_rows d) \<Longrightarrow> pd_ID r \<noteq> i \<Longrightarrow> r \<in> set L"
    using connect_evicts [OF assms] by metis
  have i': "i \<in> pd_ID ` set (db_rows d')" using iR evict_kept [of _ R i on N L] unfolding ev by blast
  have f1: "distinct (map pd_ID (db_rows d'))" unfolding ev evict_def using dist(1) by (simp add: distinct_map_filter)
  have f2: "\<forall>j \<in> pd_ID ` set (db_rows d). on j \<longrightarrow> j \<in> pd_ID ` set (db_rows d')"
    using sub evict_kept [of _ R i on N L] unfolding ev idL [symmetric] by blast
  have f3: "length (db_rows d') \<le> 10 \<or> (\<forall>j \<in> pd_ID ` set (db_rows d'). j = i \<or> on j)"
    using evict_cap [of R L i N on, OF dist sub R ev(2)] unfolding ev by blast
  have f4: "pd_Updated r \<le> pd_Updated q"
    if r: "r \<in> set (db_rows d)" "pd_ID r \<notin> pd_ID ` set (db_rows d')" and q: "q \<in> set (db_rows d)" "pd_ID q \<in> pd_ID ` set (db_rows d')"
      and off: "pd_ID q \<noteq> i" "\<not> on (pd_ID q)" for r q
  proof -
    have L: "r \<in> set L" "q \<in> set L" using dL r q off i' by auto
    have "set (db_rows d') \<subseteq> set R" unfolding ev evict_def by auto
    then have "q \<in> set (db_rows d')" using q(2) L(2) sub dist(1) by (auto simp: distinct_map dest: inj_onD)
    then show ?thesis using evict_oldest [of L q on i N R r] srt L sub off r(2) dist(2) unfolding ev by auto
  qed
  obtain p d1 where "identify now rq key name d = ((i, cn, p), d1)"
    using conn by (auto simp: connectPeer_def split: prod.splits)
  then have f5: "rq_peer rq \<noteq> [] \<Longrightarrow> rq_peer rq \<in> pd_ID ` set (db_rows d) \<Longrightarrow> i = rq_peer rq"
    using identify_rows(5) [OF ids assms(3,4)] by blast
  show ?thesis by (intro conjI f1 i' f2 f3 ballI impI) (use f4 f5 in blast)+
qed

section \<open>Examples\<close>

definition updatedDesc :: sqlOrder where
  "updatedDesc = sort_key (\<lambda>r. - pd_Updated r)"

lemma updatedDesc_ok: "orderOk updatedDesc"
  using sorted_sort_key [of "\<lambda>r. - pd_Updated r"]
  by (auto simp: orderOk_def updatedDesc_def sorted_wrt_map)

definition demoRow :: "char \<Rightarrow> int \<Rightarrow> peerRow" where
  "demoRow c n = zeroPeer\<lparr>pd_ID := [c], pd_Updated := n\<rparr>"

definition demoTable :: peerDB where
  "demoTable = \<lparr>db_rows = map2 demoRow ''abcdefghij'' [1, 2, 3, 4, 5, 6, 7, 8, 9, 10], db_faults = []\<rparr>"

definition demoRequest :: "string \<Rightarrow> string option \<Rightarrow> peerRequest" where
  "demoRequest p c = \<lparr>rq_peer = p, rq_cookie = c, rq_forwarded = [], rq_remote = ''10.0.0.2'', rq_agent = ''ua''\<rparr>"

definition demoName :: peerName where
  "demoName = \<lparr>pn_Model = ''mobile'', pn_OS = ''Android'', pn_Browser = ''Chrome'', pn_DeviceName = ''Pixel'', pn_DisplayName = ''Pixel Chrome''\<rparr>"

definition demoConnect :: "peerRequest \<Rightarrow> (string \<times> peerName) \<times> peerDB" where
  "demoConnect rq = connectPeer updatedDesc (\<lambda>j. j = ''a'') 11 rq ''k'' demoName demoTable"

lemma demo_new: "demoConnect (demoRequest [] None) = ((''k'', demoName), snd (demoConnect (demoRequest [] None)))"
  by code_simp

lemma demo_ids: "map pd_ID (db_rows (snd (demoConnect (demoRequest [] None)))) = map (\<lambda>c. [c]) ''acdefghijk''"
  by code_simp

theorem connect_peer_table_witness:
  "''k'' \<in> pd_ID ` set (db_rows (snd (demoConnect (demoRequest [] None)))) \<and>
   length (db_rows (snd (demoConnect (demoRequest [] None)))) \<le> 10 \<and> ''b'' \<notin> pd_ID ` set (db_rows (snd (demoConnect (demoRequest [] None))))"
proof -
  let ?d = "snd (demoConnect (demoRequest [] None))"
  have "distinct (map pd_ID (db_rows demoTable))" "db_faults demoTable = []" by code_simp+
  from connect_peer_table [OF updatedDesc_ok this, of "''k''" "\<lambda>j. j = ''a''" 11 "demoRequest [] None" demoName "''k''" demoName ?d]
  have "''k'' \<in> pd_ID ` set (db_rows ?d)" using demo_new by (simp add: demoConnect_def)
  moreover have "length (map pd_ID (db_rows ?d)) = 10" "set (map pd_ID (db_rows ?d)) = set (map (\<lambda>c. [c]) ''acdefghijk'')"
    unfolding demo_ids by simp_all
  ultimately show ?thesis by simp
qed

text \<open>A device with a cookie and a row that does not name itself is counted twice: one row too many goes.\<close>

lemma cookie_connect_drops_extra:
  "length (db_rows demoTable) = 10 \<and> fst (fst (demoConnect (demoRequest [] (Some ''j'')))) = ''j'' \<and>
   length (db_rows (snd (demoConnect (demoRequest [] (Some ''j''))))) = 9"
  by code_simp

end
