(* ===== verification/PeerCenter.thy ===== *)
theory PeerCenter
  imports PeerTable
begin

text \<open>
  The message center of the drop page (\<^verbatim>\<open>CenterHandler\<close> in \<^verbatim>\<open>route/v1/file.go\<close>): the monitoring goroutine, the handlers of connecting
  devices, a read and a write pump per session and the ping timer as one labelled step relation. Sessions are objects on a heap, since
  the center compares pointers. The channels of the center are unbuffered, so a send is one step with the \<^verbatim>\<open>select\<close> that receives
  it; a session's channel holds 256 messages and a send to a full one waits. A loop over the client map visits the entries the
  map has when the loop starts, in any order. Each read of the peer table and the client map by one handler between two sends is one step.
\<close>

section \<open>Sessions and messages\<close>

record PeerModel =
  pm_ID :: string
  pm_Name :: peerName
  pm_RtcSupported :: bool

text \<open>What a page sends: a JSON object, as its fields, or anything else.\<close>

datatype clientMsg = RawText string | JObj "(string \<times> string) list"

datatype wsMsg =
    Ping
  | PeerJoined PeerModel
  | PeersMsg "PeerModel list"
  | DisplayNameMsg string string string
  | PeerLeft string
  | FromClient clientMsg

primrec jsonField :: "string \<Rightarrow> clientMsg \<Rightarrow> string" where
  "jsonField k (RawText s) = []"
| "jsonField k (JObj fs) = (case map_of fs k of None \<Rightarrow> [] | Some v \<Rightarrow> v)"

primrec withSender :: "string \<Rightarrow> clientMsg \<Rightarrow> clientMsg" where
  "withSender i (RawText s) = RawText s"
| "withSender i (JObj fs) = JObj ((''sender'', i) # filter (\<lambda>f. fst f \<noteq> ''sender'' \<and> fst f \<noteq> ''to'') fs)"

record client =
  cl_conn :: "nat option"
  cl_send :: "wsMsg list"
  cl_ID :: string
  cl_IP :: string
  cl_Name :: peerName
  cl_RtcSupported :: bool
  cl_TimerId :: int
  cl_LastBeat :: int
  cl_superseded :: bool

definition sendCap :: nat where "sendCap = 256"

definition peerModelOf :: "client \<Rightarrow> PeerModel" where
  "peerModelOf c = \<lparr>pm_ID = cl_ID c, pm_Name = cl_Name c, pm_RtcSupported = cl_RtcSupported c\<rparr>"

text \<open>The state the goroutines share: the table, the package variable \<^verbatim>\<open>conn\<close>, the sessions and the client map, the closed connections.\<close>

record hub =
  h_db :: peerDB
  h_conn :: "nat option"
  h_conns :: nat
  h_heap :: "nat \<Rightarrow> client"
  h_next :: nat
  clients :: "string \<rightharpoonup> nat"
  h_closed :: "nat set"
  h_panic :: bool

definition zeroClient :: client where
  "zeroClient = \<lparr>cl_conn = None, cl_send = [], cl_ID = [], cl_IP = [], cl_Name = GetNameByDB zeroPeer, cl_RtcSupported = False, cl_TimerId = 0,
     cl_LastBeat = 0, cl_superseded = False\<rparr>"

definition emptyHub :: "peerDB \<Rightarrow> hub" where
  "emptyHub d = \<lparr>h_db = d, h_conn = None, h_conns = 0, h_heap = (\<lambda>_. zeroClient), h_next = 0, clients = Map.empty, h_closed = {}, h_panic = False\<rparr>"

definition updClient :: "nat \<Rightarrow> (client \<Rightarrow> client) \<Rightarrow> hub \<Rightarrow> hub" where
  "updClient a f h = h\<lparr>h_heap := (h_heap h)(a := f (h_heap h a))\<rparr>"

definition markSuperseded :: "nat \<Rightarrow> hub \<Rightarrow> hub" where
  "markSuperseded a = updClient a (\<lambda>c. c\<lparr>cl_superseded := True\<rparr>)"

definition isSuperseded :: "nat \<Rightarrow> hub \<Rightarrow> bool" where
  "isSuperseded a h = cl_superseded (h_heap h a)"

definition touchLastBeat :: "nat \<Rightarrow> int \<Rightarrow> hub \<Rightarrow> hub" where
  "touchLastBeat a now = updClient a (\<lambda>c. c\<lparr>cl_LastBeat := now\<rparr>)"

definition snapshotLastBeat :: "nat \<Rightarrow> hub \<Rightarrow> int" where
  "snapshotLastBeat a h = cl_LastBeat (h_heap h a)"

definition canSend :: "nat \<Rightarrow> hub \<Rightarrow> bool" where
  "canSend a h = (length (cl_send (h_heap h a)) < sendCap)"

definition sendTo :: "nat \<Rightarrow> wsMsg \<Rightarrow> hub \<Rightarrow> hub" where
  "sendTo a m = updClient a (\<lambda>c. c\<lparr>cl_send := cl_send c @ [m]\<rparr>)"

definition closeConn :: "nat \<Rightarrow> hub \<Rightarrow> hub" where
  "closeConn a h = (case cl_conn (h_heap h a) of None \<Rightarrow> h\<lparr>h_panic := True\<rparr> | Some c \<Rightarrow> h\<lparr>h_closed := insert c (h_closed h)\<rparr>)"

definition registerClient :: "nat \<Rightarrow> hub \<Rightarrow> nat option \<times> hub" where
  "registerClient a h =
     (let i = cl_ID (h_heap h a);
          old = (case clients h i of None \<Rightarrow> None | Some b \<Rightarrow> if b = a then None else Some b);
          h1 = (case old of None \<Rightarrow> h | Some b \<Rightarrow> markSuperseded b h)
      in (old, h1\<lparr>clients := (clients h1)(i \<mapsto> a)\<rparr>))"

definition unregisterClient :: "nat \<Rightarrow> hub \<Rightarrow> bool \<times> hub" where
  "unregisterClient a h =
     (let i = cl_ID (h_heap h a) in if clients h i \<noteq> Some a then (False, h) else (True, h\<lparr>clients := (clients h)(i := None)\<rparr>))"

definition heartbeatTimeout :: int where "heartbeatTimeout = 90 * 1000000000"

definition staleClientIDs :: "(string \<times> int) list \<Rightarrow> int \<Rightarrow> int \<Rightarrow> string list" where
  "staleClientIDs lastBeats now timeout = map fst (filter (\<lambda>e. now - snd e > timeout) lastBeats)"

text \<open>An order in which a loop may visit the client map.\<close>

definition visits :: "hub \<Rightarrow> (string \<times> nat) list \<Rightarrow> bool" where
  "visits h es = (distinct (map fst es) \<and> map_of es = clients h)"

definition newClient :: "int \<Rightarrow> peerRequest \<Rightarrow> string \<Rightarrow> peerName \<Rightarrow> hub \<Rightarrow> client" where
  "newClient now rq i name h = \<lparr>cl_conn = h_conn h, cl_send = [], cl_ID = i, cl_IP = GetIP rq, cl_Name = name, cl_RtcSupported = True,
     cl_TimerId = 0, cl_LastBeat = now, cl_superseded = False\<rparr>"

text \<open>The handler between the upgrade and the announcement: the session takes its connection from the package variable. Times are
  nanoseconds, the table keeps seconds.\<close>

definition buildClient :: "sqlOrder \<Rightarrow> int \<Rightarrow> peerRequest \<Rightarrow> string \<Rightarrow> peerName \<Rightarrow> hub \<Rightarrow> hub" where
  "buildClient ord now rq key name h =
     (case connectPeer ord (\<lambda>j. clients h j \<noteq> None) (now div 1000000000) rq key name (h_db h) of ((i, cn), d) \<Rightarrow>
        h\<lparr>h_db := d, h_heap := (h_heap h)(h_next h := newClient now rq i cn h), h_next := Suc (h_next h)\<rparr>)"

text \<open>The messages of a connect: to the others, and to the new page.\<close>

definition joinMsg :: "nat \<Rightarrow> hub \<Rightarrow> wsMsg" where
  "joinMsg a h = PeerJoined (peerModelOf (h_heap h a))"

definition peersMsg :: "(string \<times> nat) list \<Rightarrow> hub \<Rightarrow> wsMsg" where
  "peersMsg es h = PeersMsg (map (\<lambda>e. peerModelOf (h_heap h (snd e))) es)"

definition nameMsg :: "nat \<Rightarrow> hub \<Rightarrow> wsMsg" where
  "nameMsg a h = (let c = h_heap h a in DisplayNameMsg (pn_DisplayName (cl_Name c)) (pn_DeviceName (cl_Name c)) (cl_ID c))"

text \<open>The heartbeat sweep: the silent sessions, and the removal of one of them.\<close>

definition silentIDs :: "(string \<times> nat) list \<Rightarrow> int \<Rightarrow> hub \<Rightarrow> string list" where
  "silentIDs es now h = staleClientIDs (map (\<lambda>e. (fst e, snapshotLastBeat (snd e) h)) es) now heartbeatTimeout"

definition kickClient :: "string \<Rightarrow> nat \<Rightarrow> hub \<Rightarrow> hub" where
  "kickClient i a h = (closeConn a h)\<lparr>clients := (clients h)(i := None)\<rparr>"

definition GetPeers_v1 :: "sqlOrder \<Rightarrow> hub \<Rightarrow> peerRow list \<times> hub" where
  "GetPeers_v1 ord h = (case GetPeers ord (h_db h) of (rows, d) \<Rightarrow>
     (map (\<lambda>r. if clients h (pd_ID r) \<noteq> None then r\<lparr>pd_Online := True\<rparr> else r) rows, h\<lparr>h_db := d\<rparr>))"

section \<open>Goroutines and steps\<close>

text \<open>The program points: of the monitoring goroutine, and of all others with their local variables.\<close>

datatype centerPc =
    Select
  | Sending wsMsg "nat list"
  | Kicking "string list"
  | KickSending wsMsg "nat list" "string list"

datatype peerGor =
    Named peerRequest string peerName
  | Upgraded peerRequest string peerName
  | Announce nat "nat list"
  | Registering nat
  | SendPing nat
  | SendName nat
  | Writer nat
  | Writing nat wsMsg
  | WriterEnd nat
  | Reader nat
  | Disconnecting nat
  | Disconnected nat
  | Leaving nat
  | SendingTo nat nat wsMsg
  | Casting nat wsMsg
  | ReaderEnd nat
  | Closing nat
  | Pinger

record peerSys =
  ps_hub :: hub
  ps_pc :: centerPc
  ps_gors :: "peerGor list"

definition initPeers :: "peerDB \<Rightarrow> peerSys" where
  "initPeers d = \<lparr>ps_hub = emptyHub d, ps_pc = Select, ps_gors = []\<rparr>"

record peerEnv =
  pe_ord :: sqlOrder
  pe_ua :: "string \<Rightarrow> userAgent"

datatype peerEv = Quiet | UpgradeFailed | Registered nat | Unregistered nat | Kicked nat | Left nat

text \<open>One goroutine goes on: its point is replaced, the shared state and the point of the center are the given ones.\<close>

definition goOnP :: "peerGor \<Rightarrow> peerGor list \<Rightarrow> hub \<Rightarrow> centerPc \<Rightarrow> peerSys \<Rightarrow> peerSys" where
  "goOnP g k h pc s = \<lparr>ps_hub = h, ps_pc = pc, ps_gors = remove1 g (ps_gors s) @ k\<rparr>"

text \<open>What the read pump does with a message of its page, up to the next channel operation.\<close>

definition readMsg :: "int \<Rightarrow> nat \<Rightarrow> clientMsg \<Rightarrow> hub \<Rightarrow> peerGor \<times> hub" where
  "readMsg now a m h =
     (if jsonField ''type'' m = ''disconnect'' then (Disconnecting a, h)
      else if jsonField ''type'' m = ''pong'' then (Reader a, touchLastBeat a now h)
      else if jsonField ''to'' m \<noteq> [] then
        (case clients h (jsonField ''to'' m) of
           None \<Rightarrow> (Reader a, h)
         | Some b \<Rightarrow> (SendingTo a b (FromClient (withSender (cl_ID (h_heap h a)) m)), h))
      else (Casting a (FromClient m), h))"

definition afterLoss :: "nat \<Rightarrow> hub \<Rightarrow> peerGor" where
  "afterLoss a h = (if isSuperseded a h then ReaderEnd a else Leaving a)"

inductive peerStep :: "peerEnv \<Rightarrow> peerSys \<Rightarrow> peerEv \<Rightarrow> peerSys \<Rightarrow> bool" for E where
  connect: "\<lbrakk>\<not> h_panic (ps_hub s); key \<noteq> []; GetName (pe_ua E) rq (h_db (ps_hub s)) = Some (name, d)\<rbrakk>
     \<Longrightarrow> peerStep E s Quiet (s\<lparr>ps_hub := (ps_hub s)\<lparr>h_db := d\<rparr>, ps_gors := ps_gors s @ [Named rq key name]\<rparr>)"
| upgrade: "\<lbrakk>\<not> h_panic (ps_hub s); Named rq key name \<in> set (ps_gors s); c = Some (h_conns (ps_hub s))\<rbrakk>
     \<Longrightarrow> peerStep E s Quiet (goOnP (Named rq key name) [Upgraded rq key name]
           ((ps_hub s)\<lparr>h_conn := c, h_conns := Suc (h_conns (ps_hub s))\<rparr>) (ps_pc s) s)"
| upgradeFails: "\<lbrakk>\<not> h_panic (ps_hub s); Named rq key name \<in> set (ps_gors s)\<rbrakk>
     \<Longrightarrow> peerStep E s UpgradeFailed (goOnP (Named rq key name) [Upgraded rq key name]
           ((ps_hub s)\<lparr>h_conn := None, h_conns := Suc (h_conns (ps_hub s))\<rparr>) (ps_pc s) s)"
| build: "\<lbrakk>\<not> h_panic (ps_hub s); Upgraded rq key name \<in> set (ps_gors s); visits (ps_hub s) es\<rbrakk>
     \<Longrightarrow> peerStep E s Quiet (goOnP (Upgraded rq key name) [Announce (h_next (ps_hub s)) (map snd es)]
           (buildClient (pe_ord E) now rq key name (ps_hub s)) (ps_pc s) s)"
| announce: "\<lbrakk>\<not> h_panic (ps_hub s); Announce a (b # todo) \<in> set (ps_gors s); canSend b (ps_hub s)\<rbrakk>
     \<Longrightarrow> peerStep E s Quiet (goOnP (Announce a (b # todo)) [Announce a todo]
           (sendTo b (joinMsg a (ps_hub s)) (ps_hub s)) (ps_pc s) s)"
| listPeers: "\<lbrakk>\<not> h_panic (ps_hub s); Announce a [] \<in> set (ps_gors s); visits (ps_hub s) es; canSend a (ps_hub s)\<rbrakk>
     \<Longrightarrow> peerStep E s Quiet (goOnP (Announce a []) [Registering a]
           (sendTo a (peersMsg es (ps_hub s)) (ps_hub s)) (ps_pc s) s)"
| register: "\<lbrakk>\<not> h_panic (ps_hub s); Registering a \<in> set (ps_gors s); ps_pc s = Select\<rbrakk>
     \<Longrightarrow> peerStep E s (Registered a) (goOnP (Registering a) [SendPing a] (snd (registerClient a (ps_hub s))) Select s)"
| sendPing: "\<lbrakk>\<not> h_panic (ps_hub s); SendPing a \<in> set (ps_gors s); canSend a (ps_hub s)\<rbrakk>
     \<Longrightarrow> peerStep E s Quiet (goOnP (SendPing a) [SendName a] (sendTo a Ping (ps_hub s)) (ps_pc s) s)"
| sendName: "\<lbrakk>\<not> h_panic (ps_hub s); SendName a \<in> set (ps_gors s); canSend a (ps_hub s)\<rbrakk>
     \<Longrightarrow> peerStep E s Quiet (goOnP (SendName a) [Writer a, Reader a]
           (sendTo a (nameMsg a (ps_hub s)) (ps_hub s)) (ps_pc s) s)"
| receive: "\<lbrakk>\<not> h_panic (ps_hub s); Writer a \<in> set (ps_gors s); cl_send (h_heap (ps_hub s) a) = m # ms\<rbrakk>
     \<Longrightarrow> peerStep E s Quiet (goOnP (Writer a) [Writing a m] (updClient a (\<lambda>c. c\<lparr>cl_send := ms\<rparr>) (ps_hub s)) (ps_pc s) s)"
| written: "\<lbrakk>\<not> h_panic (ps_hub s); Writing a m \<in> set (ps_gors s); cl_conn (h_heap (ps_hub s) a) = Some c; c \<notin> h_closed (ps_hub s)\<rbrakk>
     \<Longrightarrow> peerStep E s Quiet (goOnP (Writing a m) [Writer a] (ps_hub s) (ps_pc s) s)"
| writeFails: "\<lbrakk>\<not> h_panic (ps_hub s); Writing a m \<in> set (ps_gors s); cl_conn (h_heap (ps_hub s) a) = Some c\<rbrakk>
     \<Longrightarrow> peerStep E s Quiet (goOnP (Writing a m) [WriterEnd a] (ps_hub s) (ps_pc s) s)"
| writeNil: "\<lbrakk>\<not> h_panic (ps_hub s); Writing a m \<in> set (ps_gors s); cl_conn (h_heap (ps_hub s) a) = None\<rbrakk>
     \<Longrightarrow> peerStep E s Quiet (s\<lparr>ps_hub := (ps_hub s)\<lparr>h_panic := True\<rparr>\<rparr>)"
| unregister: "\<lbrakk>\<not> h_panic (ps_hub s); g \<in> set (ps_gors s); g = WriterEnd a \<or> g = ReaderEnd a; ps_pc s = Select\<rbrakk>
     \<Longrightarrow> peerStep E s (Unregistered a) (goOnP g [Closing a] (snd (unregisterClient a (ps_hub s))) Select s)"
| closing: "\<lbrakk>\<not> h_panic (ps_hub s); Closing a \<in> set (ps_gors s)\<rbrakk>
     \<Longrightarrow> peerStep E s Quiet (goOnP (Closing a) [] (closeConn a (ps_hub s)) (ps_pc s) s)"
| read: "\<lbrakk>\<not> h_panic (ps_hub s); Reader a \<in> set (ps_gors s); cl_conn (h_heap (ps_hub s) a) = Some c; c \<notin> h_closed (ps_hub s);
          readMsg now a m (ps_hub s) = (g, h)\<rbrakk>
     \<Longrightarrow> peerStep E s Quiet (goOnP (Reader a) [g] h (ps_pc s) s)"
| readFails: "\<lbrakk>\<not> h_panic (ps_hub s); Reader a \<in> set (ps_gors s); cl_conn (h_heap (ps_hub s) a) = Some c\<rbrakk>
     \<Longrightarrow> peerStep E s Quiet (goOnP (Reader a) [afterLoss a (ps_hub s)] (ps_hub s) (ps_pc s) s)"
| readNil: "\<lbrakk>\<not> h_panic (ps_hub s); Reader a \<in> set (ps_gors s); cl_conn (h_heap (ps_hub s) a) = None\<rbrakk>
     \<Longrightarrow> peerStep E s Quiet (s\<lparr>ps_hub := (ps_hub s)\<lparr>h_panic := True\<rparr>\<rparr>)"
| disconnect: "\<lbrakk>\<not> h_panic (ps_hub s); Disconnecting a \<in> set (ps_gors s); ps_pc s = Select\<rbrakk>
     \<Longrightarrow> peerStep E s (Unregistered a) (goOnP (Disconnecting a) [Disconnected a] (snd (unregisterClient a (ps_hub s))) Select s)"
| disconnected: "\<lbrakk>\<not> h_panic (ps_hub s); Disconnected a \<in> set (ps_gors s)\<rbrakk>
     \<Longrightarrow> peerStep E s Quiet (goOnP (Disconnected a) [afterLoss a (ps_hub s)] (closeConn a (ps_hub s)) (ps_pc s) s)"
| leave: "\<lbrakk>\<not> h_panic (ps_hub s); Leaving a \<in> set (ps_gors s); ps_pc s = Select; visits (ps_hub s) es\<rbrakk>
     \<Longrightarrow> peerStep E s (Left a) (goOnP (Leaving a) [ReaderEnd a] (ps_hub s)
           (Sending (PeerLeft (cl_ID (h_heap (ps_hub s) a))) (map snd es)) s)"
| forward: "\<lbrakk>\<not> h_panic (ps_hub s); SendingTo a b m \<in> set (ps_gors s); canSend b (ps_hub s)\<rbrakk>
     \<Longrightarrow> peerStep E s Quiet (goOnP (SendingTo a b m) [Reader a] (sendTo b m (ps_hub s)) (ps_pc s) s)"
| broadcast: "\<lbrakk>\<not> h_panic (ps_hub s); Casting a m \<in> set (ps_gors s); ps_pc s = Select; visits (ps_hub s) es\<rbrakk>
     \<Longrightarrow> peerStep E s Quiet (goOnP (Casting a m) [Reader a] (ps_hub s) (Sending m (map snd es)) s)"
| peers: "\<not> h_panic (ps_hub s) \<Longrightarrow> peerStep E s Quiet (s\<lparr>ps_hub := snd (GetPeers_v1 (pe_ord E) (ps_hub s))\<rparr>)"
| cron: "\<not> h_panic (ps_hub s) \<Longrightarrow> peerStep E s Quiet (s\<lparr>ps_gors := ps_gors s @ [Pinger]\<rparr>)"
| ping: "\<lbrakk>\<not> h_panic (ps_hub s); Pinger \<in> set (ps_gors s); ps_pc s = Select; visits (ps_hub s) es\<rbrakk>
     \<Longrightarrow> peerStep E s Quiet (goOnP Pinger [] (ps_hub s) (Sending Ping (map snd es)) s)"
| push: "\<lbrakk>\<not> h_panic (ps_hub s); ps_pc s = Sending m (a # todo); canSend a (ps_hub s)\<rbrakk>
     \<Longrightarrow> peerStep E s Quiet (s\<lparr>ps_hub := sendTo a m (ps_hub s), ps_pc := Sending m todo\<rparr>)"
| pushed: "\<lbrakk>\<not> h_panic (ps_hub s); ps_pc s = Sending m []\<rbrakk> \<Longrightarrow> peerStep E s Quiet (s\<lparr>ps_pc := Select\<rparr>)"
| stale: "\<lbrakk>\<not> h_panic (ps_hub s); ps_pc s = Select; visits (ps_hub s) es\<rbrakk>
     \<Longrightarrow> peerStep E s Quiet (s\<lparr>ps_pc := Kicking (silentIDs es now (ps_hub s))\<rparr>)"
| kick: "\<lbrakk>\<not> h_panic (ps_hub s); ps_pc s = Kicking (i # ids); clients (ps_hub s) i = Some a; h = kickClient i a (ps_hub s); visits h es\<rbrakk>
     \<Longrightarrow> peerStep E s (Kicked a) (s\<lparr>ps_hub := h, ps_pc := KickSending (PeerLeft i) (map snd es) ids\<rparr>)"
| kickNone: "\<lbrakk>\<not> h_panic (ps_hub s); ps_pc s = Kicking (i # ids); clients (ps_hub s) i = None\<rbrakk>
     \<Longrightarrow> peerStep E s Quiet (s\<lparr>ps_pc := Kicking ids\<rparr>)"
| kickPush: "\<lbrakk>\<not> h_panic (ps_hub s); ps_pc s = KickSending m (a # todo) ids; canSend a (ps_hub s)\<rbrakk>
     \<Longrightarrow> peerStep E s Quiet (s\<lparr>ps_hub := sendTo a m (ps_hub s), ps_pc := KickSending m todo ids\<rparr>)"
| kickPushed: "\<lbrakk>\<not> h_panic (ps_hub s); ps_pc s = KickSending m [] ids\<rbrakk> \<Longrightarrow> peerStep E s Quiet (s\<lparr>ps_pc := Kicking ids\<rparr>)"
| kicked: "\<lbrakk>\<not> h_panic (ps_hub s); ps_pc s = Kicking []\<rbrakk> \<Longrightarrow> peerStep E s Quiet (s\<lparr>ps_pc := Select\<rparr>)"

inductive peerRun :: "peerEnv \<Rightarrow> peerSys \<Rightarrow> peerEv list \<Rightarrow> peerSys \<Rightarrow> bool" for E where
  run_refl: "peerRun E s [] s"
| run_step: "\<lbrakk>peerRun E s es s'; peerStep E s' e s''\<rbrakk> \<Longrightarrow> peerRun E s (es @ [e]) s''"

end
