(* ===== verification/PeerSessions.thy ===== *)
theory PeerSessions
  imports PeerCenter
begin

text \<open>
  The invariant of the message center: the client map leads an identity to a session of that identity that nobody has replaced, and a
  session is registered at most once. What one step and what a run do to the entry of a session.
\<close>

section \<open>Live sessions\<close>

lemma heap_updClient [simp]: "h_heap (updClient a f h) b = (if b = a then f (h_heap h a) else h_heap h b)"
  by (simp add: updClient_def)

lemma hub_updClient [simp]: "clients (updClient a f h) = clients h" "h_next (updClient a f h) = h_next h" "h_panic (updClient a f h) = h_panic h"
  "h_closed (updClient a f h) = h_closed h" "h_conn (updClient a f h) = h_conn h" "h_conns (updClient a f h) = h_conns h"
  "h_db (updClient a f h) = h_db h"
  by (simp_all add: updClient_def)

lemma hub_closeConn [simp]: "clients (closeConn a h) = clients h" "h_next (closeConn a h) = h_next h" "h_heap (closeConn a h) = h_heap h"
  by (simp_all add: closeConn_def split: option.splits)

lemma hub_build [simp]: "clients (buildClient ord now rq key name h) = clients h" "h_next (buildClient ord now rq key name h) = Suc (h_next h)"
  "h_panic (buildClient ord now rq key name h) = h_panic h" "h_closed (buildClient ord now rq key name h) = h_closed h"
  "h_conn (buildClient ord now rq key name h) = h_conn h" "h_conns (buildClient ord now rq key name h) = h_conns h"
  by (simp_all add: buildClient_def split: prod.splits)

lemma heap_build: "h_heap (buildClient ord now rq key name h) b =
  (if b = h_next h then newClient now rq (fst (fst (connectPeer ord (\<lambda>j. clients h j \<noteq> None) (now div 1000000000) rq key name (h_db h))))
     (snd (fst (connectPeer ord (\<lambda>j. clients h j \<noteq> None) (now div 1000000000) rq key name (h_db h)))) h else h_heap h b)"
  by (simp add: buildClient_def split: prod.splits)

lemma hub_peers [simp]: "clients (snd (GetPeers_v1 ord h)) = clients h" "h_heap (snd (GetPeers_v1 ord h)) = h_heap h"
  "h_next (snd (GetPeers_v1 ord h)) = h_next h"
  by (simp_all add: GetPeers_v1_def split: prod.splits)

lemmas client_ops = sendTo_def touchLastBeat_def markSuperseded_def isSuperseded_def

text \<open>The session a handler has built and not yet registered.\<close>

fun unregisteredOf :: "peerGor \<Rightarrow> nat list" where
  "unregisteredOf (Announce a todo) = [a]"
| "unregisteredOf (Registering a) = [a]"
| "unregisteredOf g = []"

definition pending :: "peerGor list \<Rightarrow> nat multiset" where
  "pending gs = mset (concat (map unregisteredOf gs))"

lemma pending_append [simp]: "pending (gs @ ks) = pending gs + pending ks"
  by (simp add: pending_def)

lemma pending_simps [simp]: "pending [] = {#}" "pending (g # gs) = mset (unregisteredOf g) + pending gs"
  by (simp_all add: pending_def)

lemma pending_remove: "g \<in> set gs \<Longrightarrow> pending gs = mset (unregisteredOf g) + pending (remove1 g gs)"
  by (induction gs) auto

definition hubOk :: "hub \<Rightarrow> bool" where
  "hubOk h = (\<forall>i a. clients h i = Some a \<longrightarrow> a < h_next h \<and> cl_ID (h_heap h a) = i \<and> \<not> cl_superseded (h_heap h a))"

definition pendingOk :: "hub \<Rightarrow> nat multiset \<Rightarrow> bool" where
  "pendingOk h P = (\<forall>a \<in># P. count P a = 1 \<and> a < h_next h \<and> \<not> cl_superseded (h_heap h a) \<and> (\<forall>i. clients h i \<noteq> Some a))"

definition peersOk :: "peerSys \<Rightarrow> bool" where
  "peersOk s = (hubOk (ps_hub s) \<and> pendingOk (ps_hub s) (pending (ps_gors s)))"

text \<open>A step that leaves client map and identities alone, and hands pending sessions on.\<close>

definition sameSessions :: "hub \<Rightarrow> hub \<Rightarrow> bool" where
  "sameSessions h h' = (clients h' = clients h \<and> h_next h' = h_next h \<and>
     (\<forall>a. cl_ID (h_heap h' a) = cl_ID (h_heap h a) \<and> cl_superseded (h_heap h' a) = cl_superseded (h_heap h a)))"

lemma sameSessions_ops [simp]:
  "sameSessions h h" "sameSessions h (sendTo a m h)" "sameSessions h (touchLastBeat a now h)" "sameSessions h (closeConn a h)"
  "sameSessions h (h\<lparr>h_db := d\<rparr>)" "sameSessions h (h\<lparr>h_conn := c, h_conns := n\<rparr>)" "sameSessions h (h\<lparr>h_panic := p\<rparr>)"
  "sameSessions h (updClient a (\<lambda>c. c\<lparr>cl_send := ms\<rparr>) h)" "sameSessions h (snd (GetPeers_v1 ord h))"
  by (simp_all add: sameSessions_def client_ops)

lemma sameSessions_read: "readMsg now a m h = (g, h') \<Longrightarrow> sameSessions h h' \<and> unregisteredOf g = []"
  by (auto simp: readMsg_def split: if_splits option.splits)

lemma peersOk_same:
  assumes "peersOk s" "sameSessions (ps_hub s) (ps_hub s')" "pending (ps_gors s') = pending (ps_gors s)"
  shows "peersOk s'"
  using assms by (simp add: peersOk_def hubOk_def pendingOk_def sameSessions_def)

lemma peersOk_goOn:
  assumes "peersOk s" "sameSessions (ps_hub s) h" "g \<in> set (ps_gors s)" "mset (unregisteredOf g) = pending k"
  shows "peersOk (goOnP g k h pc s)"
  by (rule peersOk_same [OF assms(1)]) (use assms pending_remove [OF assms(3)] in \<open>simp_all add: goOnP_def\<close>)

lemma peersOk_build:
  assumes "peersOk s" "Upgraded rq key name \<in> set (ps_gors s)"
  shows "peersOk (goOnP (Upgraded rq key name) [Announce (h_next (ps_hub s)) todo] (buildClient ord now rq key name (ps_hub s)) pc s)"
proof -
  let ?h = "ps_hub s" let ?P = "pending (ps_gors s)"
  have "h_next ?h \<notin># ?P" using assms(1) by (auto simp: peersOk_def pendingOk_def)
  moreover have "clients ?h i \<noteq> Some (h_next ?h)" for i using assms(1) by (fastforce simp: peersOk_def hubOk_def)
  moreover have "pending (remove1 (Upgraded rq key name) (ps_gors s)) = ?P" using pending_remove [OF assms(2)] by simp
  ultimately show ?thesis using assms(1)
    by (auto simp: peersOk_def hubOk_def pendingOk_def goOnP_def heap_build newClient_def count_eq_zero_iff less_Suc_eq)
qed

lemma registerClient_simps [simp]:
  "clients (snd (registerClient a h)) = (clients h)(cl_ID (h_heap h a) \<mapsto> a)" "h_next (snd (registerClient a h)) = h_next h"
  "h_panic (snd (registerClient a h)) = h_panic h" "h_closed (snd (registerClient a h)) = h_closed h" "h_conns (snd (registerClient a h)) = h_conns h"
  "h_conn (snd (registerClient a h)) = h_conn h"
  "h_heap (snd (registerClient a h)) b =
     (h_heap h b)\<lparr>cl_superseded := cl_superseded (h_heap h b) \<or> clients h (cl_ID (h_heap h a)) = Some b \<and> b \<noteq> a\<rparr>"
  by (auto simp: registerClient_def Let_def client_ops split: option.splits) (cases "b = a"; simp)

lemma hubOk_register:
  assumes ok: "hubOk h" and a: "a < h_next h" "\<not> cl_superseded (h_heap h a)"
  shows "hubOk (snd (registerClient a h))"
  unfolding hubOk_def
proof (intro allI impI)
  fix j b
  assume b: "clients (snd (registerClient a h)) j = Some b"
  show "b < h_next (snd (registerClient a h)) \<and> cl_ID (h_heap (snd (registerClient a h)) b) = j \<and> \<not> cl_superseded (h_heap (snd (registerClient a h)) b)"
  proof (cases "j = cl_ID (h_heap h a)")
    case True
    then show ?thesis using a b by simp
  next
    case False
    then have "clients h j = Some b" using b by simp
    then have "b < h_next h" "cl_ID (h_heap h b) = j" "\<not> cl_superseded (h_heap h b)" using ok by (simp_all add: hubOk_def)
    moreover have "clients h (cl_ID (h_heap h a)) \<noteq> Some b" using ok False calculation(2) by (auto simp: hubOk_def)
    ultimately show ?thesis by simp
  qed
qed

lemma pendingOk_register:
  assumes "pendingOk h (add_mset a P)"
  shows "pendingOk (snd (registerClient a h)) P"
proof -
  have a: "a \<notin># P" using assms by (auto simp: pendingOk_def count_eq_zero_iff)
  have "count P b = 1 \<and> b < h_next h \<and> \<not> cl_superseded (h_heap h b) \<and> (\<forall>i. clients h i \<noteq> Some b) \<and> b \<noteq> a" if "b \<in># P" for b
  proof -
    have "a \<noteq> b" using a that by auto
    then show ?thesis using assms that by (auto simp: pendingOk_def)
  qed
  then show ?thesis by (auto simp: pendingOk_def)
qed

lemma peersOk_register:
  assumes "peersOk s" "Registering a \<in> set (ps_gors s)"
  shows "peersOk (goOnP (Registering a) [SendPing a] (snd (registerClient a (ps_hub s))) pc s)"
proof -
  let ?P = "pending (remove1 (Registering a) (ps_gors s))"
  have "pending (ps_gors s) = add_mset a ?P" using pending_remove [OF assms(2)] by simp
  then have h: "hubOk (ps_hub s)" and p: "pendingOk (ps_hub s) (add_mset a ?P)" using assms(1) by (simp_all add: peersOk_def)
  have "hubOk (snd (registerClient a (ps_hub s)))" by (rule hubOk_register [OF h]) (use p in \<open>simp_all add: pendingOk_def\<close>)
  with pendingOk_register [OF p] show ?thesis by (simp add: peersOk_def goOnP_def)
qed

lemma peersOk_less:
  assumes "peersOk s" "h_heap (ps_hub s') = h_heap (ps_hub s)" "h_next (ps_hub s') = h_next (ps_hub s)"
    and "clients (ps_hub s') \<subseteq>\<^sub>m clients (ps_hub s)" "pending (ps_gors s') = pending (ps_gors s)"
  shows "peersOk s'"
proof -
  have "clients (ps_hub s) i = Some a" if "clients (ps_hub s') i = Some a" for i a using assms(4) that by (auto simp: map_le_def dom_def)
  then show ?thesis using assms by (simp add: peersOk_def hubOk_def pendingOk_def) blast
qed

lemma clients_unregister: "clients (snd (unregisterClient a h)) \<subseteq>\<^sub>m clients h" "h_heap (snd (unregisterClient a h)) = h_heap h"
  "h_next (snd (unregisterClient a h)) = h_next h"
  by (auto simp: unregisterClient_def Let_def map_le_def)

lemma peersOk_unregister:
  assumes "peersOk s" "g \<in> set (ps_gors s)" "unregisteredOf g = []" "unregisteredOf k = []"
  shows "peersOk (goOnP g [k] (snd (unregisterClient a (ps_hub s))) pc s)"
  by (rule peersOk_less [OF assms(1)]) (use assms pending_remove [OF assms(2)] in \<open>simp_all add: goOnP_def clients_unregister\<close>)

lemma afterLoss_pending [simp]: "unregisteredOf (afterLoss a h) = []"
  by (simp add: afterLoss_def)

lemma peersOk_step: "peerStep E s e s' \<Longrightarrow> peersOk s \<Longrightarrow> peersOk s'"
proof (induction rule: peerStep.induct)
  case (build s rq key name es now)
  then show ?case by (intro peersOk_build)
next
  case (register s a)
  then show ?case by (intro peersOk_register)
next
  case (unregister s g a)
  then show ?case by (intro peersOk_unregister) auto
next
  case (disconnect s a)
  then show ?case by (intro peersOk_unregister) auto
next
  case (kick s i ids a h es)
  then show ?case by (rule_tac peersOk_less [of s]) (simp_all add: map_le_def kickClient_def)
next
  case (read s a c now m g h)
  then show ?case using sameSessions_read by (intro peersOk_goOn) auto
qed ((rule peersOk_goOn peersOk_same, assumption, simp, simp, simp?)+)

text \<open>What a step does to the session of an address.\<close>

lemma step_session:
  assumes "peerStep E s e s'" "hubOk (ps_hub s)"
  shows "h_next (ps_hub s) \<le> h_next (ps_hub s') \<and>
    (\<forall>a < h_next (ps_hub s). cl_ID (h_heap (ps_hub s') a) = cl_ID (h_heap (ps_hub s) a) \<and>
       (cl_superseded (h_heap (ps_hub s) a) \<longrightarrow> cl_superseded (h_heap (ps_hub s') a)))"
  using assms
  by (induction rule: peerStep.induct)
    (auto simp: goOnP_def client_ops heap_build kickClient_def unregisterClient_def Let_def readMsg_def split: if_splits option.splits)

lemma step_lost:
  assumes "peerStep E s e s'" "clients (ps_hub s) i = Some a" "clients (ps_hub s') i \<noteq> Some a"
  shows "(\<exists>b. e = Registered b \<and> cl_superseded (h_heap (ps_hub s') a)) \<or> e = Unregistered a \<or> e = Kicked a"
  using assms
  by (induction rule: peerStep.induct)
    (auto simp: goOnP_def client_ops kickClient_def unregisterClient_def Let_def readMsg_def split: if_splits option.splits)

lemma step_gained:
  assumes "peerStep E s e s'" "clients (ps_hub s') i = Some a" "clients (ps_hub s) i \<noteq> Some a"
  shows "e = Registered a"
  using assms
  by (induction rule: peerStep.induct)
    (auto simp: goOnP_def client_ops kickClient_def unregisterClient_def Let_def readMsg_def split: if_splits option.splits)

inductive_cases registeredE: "peerStep E s (Registered a) s'"

lemma step_registered:
  assumes "peerStep E s (Registered a) s'" "peersOk s"
  shows "clients (ps_hub s') (cl_ID (h_heap (ps_hub s') a)) = Some a \<and> a < h_next (ps_hub s)"
  using assms pending_remove [of "Registering a" "ps_gors s"] by (auto elim!: registeredE simp: goOnP_def peersOk_def pendingOk_def)

lemma run_ok: "peerRun E s es s' \<Longrightarrow> peersOk s \<Longrightarrow> peersOk s'"
  by (induction rule: peerRun.induct) (auto intro: peersOk_step)

text \<open>What every step keeps that is not excluded, every run without the excluded events keeps.\<close>

locale peer_invariant =
  fixes E :: peerEnv and excluded :: "peerEv set" and kept :: "peerSys \<Rightarrow> bool"
  assumes kept_step: "peerStep E s e s' \<Longrightarrow> e \<notin> excluded \<Longrightarrow> peersOk s \<Longrightarrow> kept s \<Longrightarrow> kept s'"
begin

lemma kept_run: "peerRun E s es s' \<Longrightarrow> set es \<inter> excluded = {} \<Longrightarrow> peersOk s \<Longrightarrow> kept s \<Longrightarrow> kept s'"
proof (induction rule: peerRun.induct)
  case (run_step s es s' e s'')
  then have "kept s'" "peersOk s'" "e \<notin> excluded" using run_ok by auto
  then show ?case using kept_step run_step.hyps(2) by blast
qed

end

lemma initPeers_ok: "peersOk (initPeers d)"
  by (simp add: initPeers_def emptyHub_def peersOk_def hubOk_def pendingOk_def)

lemma run_registered:
  assumes "peerRun E s es s'" "peersOk s"
  shows "(clients (ps_hub s') i = Some a \<longrightarrow> clients (ps_hub s) i = Some a \<or> Registered a \<in> set es) \<and>
    (Registered b \<in> set es \<longrightarrow> b < h_next (ps_hub s') \<and>
       (Unregistered b \<notin> set es \<longrightarrow> Kicked b \<notin> set es \<longrightarrow> clients (ps_hub s') (cl_ID (h_heap (ps_hub s') b)) = Some b \<or>
          cl_superseded (h_heap (ps_hub s') b)))"
  using assms
proof (induction arbitrary: i a b rule: peerRun.induct)
  case (run_step s es s' e s'')
  have ok: "peersOk s'" using run_ok run_step.hyps(1) run_step.prems by blast
  then have h: "hubOk (ps_hub s')" by (simp add: peersOk_def)
  note IH = run_step.IH [OF run_step.prems]
  show ?case
  proof (intro conjI impI)
    show "clients (ps_hub s) i = Some a \<or> Registered a \<in> set (es @ [e])" if "clients (ps_hub s'') i = Some a"
      using IH [of i a] step_gained [OF run_step.hyps(2) that] by fastforce
    show "b < h_next (ps_hub s'')" if "Registered b \<in> set (es @ [e])"
      using that IH step_session [OF run_step.hyps(2) h] step_registered [of E s' b s''] run_step.hyps(2) ok by fastforce
    show "clients (ps_hub s'') (cl_ID (h_heap (ps_hub s'') b)) = Some b \<or> cl_superseded (h_heap (ps_hub s'') b)"
      if b: "Registered b \<in> set (es @ [e])" "Unregistered b \<notin> set (es @ [e])" "Kicked b \<notin> set (es @ [e])"
    proof (cases "e = Registered b")
      case True
      then show ?thesis using step_registered run_step.hyps(2) ok by blast
    next
      case False
      then have old: "b < h_next (ps_hub s')" "clients (ps_hub s') (cl_ID (h_heap (ps_hub s') b)) = Some b \<or> cl_superseded (h_heap (ps_hub s') b)"
        using IH b by auto
      have st: "cl_ID (h_heap (ps_hub s'') b) = cl_ID (h_heap (ps_hub s') b)"
        "cl_superseded (h_heap (ps_hub s') b) \<Longrightarrow> cl_superseded (h_heap (ps_hub s'') b)"
        using step_session [OF run_step.hyps(2) h] old(1) by blast+
      from old(2) show ?thesis
      proof
        assume "clients (ps_hub s') (cl_ID (h_heap (ps_hub s') b)) = Some b"
        from step_lost [OF run_step.hyps(2) this] b show ?thesis by (auto simp: st(1))
      qed (simp add: st)
    qed
  qed
qed simp

end
