(* ===== verification/PeerRun.thy ===== *)
theory PeerRun
  imports PeerSessions
begin

text \<open>
  Runs of the message center: a device that connects while the queues of the others have room ends up registered with both its
  pumps running, whatever the outcome of the upgrade. The histories of the next theory are built from these runs.
\<close>

section \<open>Running the center\<close>

definition reaches :: "peerEnv \<Rightarrow> peerSys \<Rightarrow> peerSys \<Rightarrow> bool" where
  "reaches E s s' = (\<exists>es. peerRun E s es s')"

lemma reaches_refl [intro]: "reaches E s s"
  unfolding reaches_def by (blast intro: run_refl)

lemma reaches_step: "reaches E s s' \<Longrightarrow> peerStep E s' e s'' \<Longrightarrow> reaches E s s''"
  unfolding reaches_def by (blast intro: run_step)

lemma run_append: "peerRun E s' fs s'' \<Longrightarrow> peerRun E s es s' \<Longrightarrow> peerRun E s (es @ fs) s''"
proof (induction rule: peerRun.induct)
  case (run_step s' fs s1 e s2)
  then show ?case using peerRun.run_step [of E s "es @ fs" s1 e s2] by simp
qed simp

lemma reaches_trans: "reaches E s s' \<Longrightarrow> reaches E s' s'' \<Longrightarrow> reaches E s s''"
  unfolding reaches_def using run_append by blast

lemma visits_exists:
  assumes "finite (dom (clients h))"
  obtains es where "visits h es"
proof -
  obtain xs where xs: "set xs = dom (clients h)" "distinct xs" using finite_distinct_list [OF assms] by blast
  have "map_of (map (\<lambda>i. (i, the (clients h i))) xs) i = clients h i" for i
    using xs(1) by (cases "i \<in> set xs") (auto simp: map_of_map_restrict restrict_map_def domIff)
  then have "visits h (map (\<lambda>i. (i, the (clients h i))) xs)" using xs(2) by (simp add: visits_def comp_def ext)
  then show thesis by (rule that)
qed

text \<open>Only the queues of some sessions have grown.\<close>

definition filled :: "nat set \<Rightarrow> hub \<Rightarrow> hub \<Rightarrow> bool" where
  "filled A h h' = (clients h' = clients h \<and> h_next h' = h_next h \<and> h_panic h' = h_panic h \<and> h_closed h' = h_closed h \<and> h_conn h' = h_conn h \<and>
     h_conns h' = h_conns h \<and> (\<forall>b. (h_heap h' b)\<lparr>cl_send := []\<rparr> = (h_heap h b)\<lparr>cl_send := []\<rparr>) \<and> (\<forall>b. b \<notin> A \<longrightarrow> h_heap h' b = h_heap h b))"

lemma filled_refl [simp]: "filled A h h"
  by (simp add: filled_def)

lemma filled_trans: "filled A h h1 \<Longrightarrow> filled B h1 h2 \<Longrightarrow> filled (A \<union> B) h h2"
  by (simp add: filled_def)

lemma filled_send [simp]: "filled {b} h (sendTo b m h)"
  by (simp add: filled_def client_ops)

lemma filled_send_trans: "filled A h h1 \<Longrightarrow> b \<in> A \<Longrightarrow> filled A h (sendTo b m h1)"
  using filled_trans [of A h h1 "{b}" "sendTo b m h1"] by (simp add: insert_absorb)

lemma filledD:
  assumes "filled A h h'"
  shows "cl_ID (h_heap h' b) = cl_ID (h_heap h b)" "cl_conn (h_heap h' b) = cl_conn (h_heap h b)"
    "cl_superseded (h_heap h' b) = cl_superseded (h_heap h b)"
proof -
  have "(h_heap h' b)\<lparr>cl_send := []\<rparr> = (h_heap h b)\<lparr>cl_send := []\<rparr>" using assms by (simp add: filled_def)
  then have "f ((h_heap h' b)\<lparr>cl_send := []\<rparr>) = f ((h_heap h b)\<lparr>cl_send := []\<rparr>)" for f :: "client \<Rightarrow> 'x" by simp
  from this [of cl_ID] this [of cl_conn] this [of cl_superseded]
  show "cl_ID (h_heap h' b) = cl_ID (h_heap h b)" "cl_conn (h_heap h' b) = cl_conn (h_heap h b)"
    "cl_superseded (h_heap h' b) = cl_superseded (h_heap h b)" by simp_all
qed

lemma goOnP_simps [simp]: "ps_hub (goOnP g k h pc s) = h" "ps_pc (goOnP g k h pc s) = pc"
  "mset (ps_gors (goOnP g k h pc s)) = mset (ps_gors s) - {#g#} + mset k"
  by (simp_all add: goOnP_def)

lemma gors_in: "mset (ps_gors s) = add_mset g G \<Longrightarrow> g \<in> set (ps_gors s)"
  by (metis set_mset_mset union_single_eq_member)

lemma announce_run:
  assumes "\<not> h_panic (ps_hub s)" "mset (ps_gors s) = add_mset (Announce a todo) G" "distinct todo" "\<And>b. b \<in> set todo \<Longrightarrow> canSend b (ps_hub s)"
  shows "\<exists>s'. reaches E s s' \<and> ps_pc s' = ps_pc s \<and> mset (ps_gors s') = add_mset (Announce a []) G \<and> filled (set todo) (ps_hub s) (ps_hub s')"
  using assms
proof (induction todo arbitrary: s)
  case (Cons b todo)
  let ?m = "joinMsg a (ps_hub s)"
  let ?s = "goOnP (Announce a (b # todo)) [Announce a todo] (sendTo b ?m (ps_hub s)) (ps_pc s) s"
  have st: "peerStep E s Quiet ?s" using Cons.prems gors_in by (intro announce) auto
  have "canSend x (ps_hub ?s)" if "x \<in> set todo" for x
    using Cons.prems(3,4) that by (auto simp: canSend_def client_ops)
  then obtain s' where s': "reaches E ?s s'" "ps_pc s' = ps_pc ?s" "mset (ps_gors s') = add_mset (Announce a []) G"
      "filled (set todo) (ps_hub ?s) (ps_hub s')"
    using Cons.IH [of ?s] Cons.prems by (auto simp: client_ops)
  have "filled (set (b # todo)) (ps_hub s) (ps_hub s')" using filled_trans [OF filled_send s'(4) [simplified]] by simp
  moreover have "reaches E s s'" using st s'(1) reaches_step [OF reaches_refl] reaches_trans by blast
  ultimately show ?case using s' by auto
qed (auto simp: filled_refl)

lemma visits_snd:
  assumes "visits h es" "hubOk h"
  shows "set (map snd es) = ran (clients h)" "distinct (map snd es)"
proof -
  have m: "map_of es = clients h" "distinct (map fst es)" using assms(1) by (simp_all add: visits_def)
  show "set (map snd es) = ran (clients h)" using m ran_distinct [of es] by simp
  have "fst e = cl_ID (h_heap h (snd e))" if "e \<in> set es" for e
  proof -
    have "clients h (fst e) = Some (snd e)" using m that by (metis map_of_is_SomeI prod.collapse)
    then show ?thesis using assms(2) by (simp add: hubOk_def)
  qed
  then have "map fst es = map (cl_ID \<circ> h_heap h) (map snd es)" by simp
  then show "distinct (map snd es)" using m(2) by (metis distinct_map)
qed

text \<open>The room a handler needs to announce its device.\<close>

definition hasRoom :: "peerSys \<Rightarrow> bool" where
  "hasRoom s = (\<not> h_panic (ps_hub s) \<and> ps_pc s = Select \<and> finite (dom (clients (ps_hub s))) \<and>
     (\<forall>a \<in> ran (clients (ps_hub s)). canSend a (ps_hub s)))"

lemma build_run:
  assumes room: "hasRoom s" and ok: "peersOk s" and key: "key \<noteq> []" and c: "c = None \<or> c = Some (h_conns (ps_hub s))"
  defines "a \<equiv> h_next (ps_hub s)"
  shows "\<exists>s' name d. reaches E s s' \<and> ps_pc s' = Select \<and> mset (ps_gors s') = add_mset (Announce a []) (mset (ps_gors s)) \<and>
    filled (ran (clients (ps_hub s))) (buildClient (pe_ord E) now rq key name ((ps_hub s)\<lparr>h_db := d, h_conn := c, h_conns := Suc (h_conns (ps_hub s))\<rparr>))
      (ps_hub s')"
proof -
  obtain name d where n: "GetName (pe_ua E) rq (h_db (ps_hub s)) = Some (name, d)" using GetName_total by blast
  obtain es where es: "visits (ps_hub s) es" using visits_exists room unfolding hasRoom_def by blast
  have hub: "hubOk (ps_hub s)" using ok by (simp add: peersOk_def)
  note snd = visits_snd [OF es hub]
  have new: "clients (ps_hub s) i \<noteq> Some a" for i using hub unfolding hubOk_def a_def by blast
  let ?h = "(ps_hub s)\<lparr>h_db := d, h_conn := c, h_conns := Suc (h_conns (ps_hub s))\<rparr>"
  let ?s1 = "s\<lparr>ps_hub := (ps_hub s)\<lparr>h_db := d\<rparr>, ps_gors := ps_gors s @ [Named rq key name]\<rparr>"
  let ?s2 = "goOnP (Named rq key name) [Upgraded rq key name] ?h (ps_pc s) ?s1"
  let ?s3 = "goOnP (Upgraded rq key name) [Announce a (map snd es)] (buildClient (pe_ord E) now rq key name ?h) (ps_pc s) ?s2"
  have "peerStep E s Quiet ?s1" using room key n by (intro connect) (auto simp: hasRoom_def)
  moreover have "peerStep E ?s1 (if c = None then UpgradeFailed else Quiet) ?s2"
    using upgrade [of ?s1 rq key name c E] upgradeFails [of ?s1 rq key name E] room c by (auto simp: hasRoom_def)
  moreover have "peerStep E ?s2 Quiet ?s3"
    using build [of ?s2 rq key name es E now] gors_in [of ?s2 "Upgraded rq key name" "mset (ps_gors s)"] room es
    by (simp add: hasRoom_def visits_def a_def)
  ultimately have "reaches E s ?s3" using reaches_step [OF reaches_step [OF reaches_step [OF reaches_refl]]] by blast
  moreover have "canSend b (ps_hub ?s3)" if "b \<in> set (map snd es)" for b
  proof -
    have "b \<in> ran (clients (ps_hub s))" using that snd(1) by simp
    then have "canSend b (ps_hub s)" "b \<noteq> a" using room new by (auto simp: hasRoom_def ran_def)
    then show ?thesis by (simp add: canSend_def heap_build a_def)
  qed
  then obtain s' where "reaches E ?s3 s'" "ps_pc s' = ps_pc ?s3" "mset (ps_gors s') = add_mset (Announce a []) (mset (ps_gors s))"
      "filled (set (map snd es)) (ps_hub ?s3) (ps_hub s')"
    using announce_run [of ?s3 a "map snd es" "mset (ps_gors s)" E] snd(2) room by (auto simp: hasRoom_def)
  moreover from this have "filled (ran (clients (ps_hub s))) (buildClient (pe_ord E) now rq key name ?h) (ps_hub s')" using snd(1) by simp
  ultimately show ?thesis using reaches_trans room unfolding hasRoom_def by (intro exI [of _ s'] exI [of _ name] exI [of _ d]) auto
qed

text \<open>The session that a device has after a connect, and what the others keep.\<close>

definition joined :: "nat option \<Rightarrow> string \<Rightarrow> peerSys \<Rightarrow> peerSys \<Rightarrow> bool" where
  "joined c i s s' = (let a = h_next (ps_hub s); h = ps_hub s; h' = ps_hub s' in
     ps_pc s' = Select \<and> \<not> h_panic h' \<and> mset (ps_gors s') = mset (ps_gors s) + {#Writer a, Reader a#} \<and>
     clients h' = (clients h)(i \<mapsto> a) \<and> cl_conn (h_heap h' a) = c \<and> cl_ID (h_heap h' a) = i \<and> \<not> cl_superseded (h_heap h' a) \<and>
     length (cl_send (h_heap h' a)) = 3 \<and> h_next h' = Suc a \<and> h_closed h' = h_closed h \<and> h_conns h' = Suc (h_conns h) \<and>
     (\<forall>b. b \<noteq> a \<longrightarrow> cl_ID (h_heap h' b) = cl_ID (h_heap h b) \<and> cl_conn (h_heap h' b) = cl_conn (h_heap h b)))"

lemma register_run:
  assumes pc: "ps_pc s = Select" "\<not> h_panic (ps_hub s)" and fin: "finite (dom (clients (ps_hub s)))"
    and g: "mset (ps_gors s) = add_mset (Announce a []) G" and q: "cl_send (h_heap (ps_hub s) a) = []"
  shows "\<exists>s' m. reaches E s s' \<and> ps_pc s' = Select \<and> mset (ps_gors s') = G + {#Writer a, Reader a#} \<and>
    filled {a} (snd (registerClient a (sendTo a m (ps_hub s)))) (ps_hub s') \<and> length (cl_send (h_heap (ps_hub s') a)) = 3"
proof -
  obtain es where es: "visits (ps_hub s) es" using visits_exists [OF fin] by blast
  let ?m = "peersMsg es (ps_hub s)"
  let ?h1 = "sendTo a ?m (ps_hub s)"
  let ?s1 = "goOnP (Announce a []) [Registering a] ?h1 (ps_pc s) s"
  let ?h2 = "snd (registerClient a ?h1)"
  let ?s2 = "goOnP (Registering a) [SendPing a] ?h2 Select ?s1"
  let ?h3 = "sendTo a Ping ?h2"
  let ?s3 = "goOnP (SendPing a) [SendName a] ?h3 (ps_pc ?s2) ?s2"
  let ?h4 = "sendTo a (nameMsg a ?h3) ?h3"
  let ?s4 = "goOnP (SendName a) [Writer a, Reader a] ?h4 (ps_pc ?s3) ?s3"
  have q1: "canSend a (ps_hub s)" "canSend a ?h2" "canSend a ?h3" using q by (simp_all add: canSend_def client_ops sendCap_def)
  have p: "\<not> h_panic ?h1" "\<not> h_panic ?h2" "\<not> h_panic ?h3" using pc(2) by (simp_all add: client_ops)
  have in1: "Announce a [] \<in> set (ps_gors s)" and in2: "Registering a \<in> set (ps_gors ?s1)" and in3: "SendPing a \<in> set (ps_gors ?s2)"
    and in4: "SendName a \<in> set (ps_gors ?s3)"
    using g by (auto simp: gors_in intro!: gors_in [of _ _ G])
  have "peerStep E s Quiet ?s1" using listPeers [OF pc(2) in1 es q1(1)] by simp
  moreover have "peerStep E ?s1 (Registered a) ?s2" using register [OF _ in2] p pc(1) by simp
  moreover have "peerStep E ?s2 Quiet ?s3" using sendPing [OF _ in3] p q1 by simp
  moreover have "peerStep E ?s3 Quiet ?s4" using sendName [OF _ in4] p q1 by simp
  ultimately have "reaches E s ?s4" using reaches_step [OF reaches_step [OF reaches_step [OF reaches_step [OF reaches_refl]]]] by blast
  moreover have "filled {a} ?h2 ?h4" by (intro filled_send_trans filled_refl) simp_all
  moreover have "length (cl_send (h_heap ?h4 a)) = 3" using q by (simp add: client_ops)
  ultimately show ?thesis using g by (intro exI [of _ ?s4] exI [of _ ?m]) simp
qed

lemma identity_no_peer:
  "rq_peer rq = [] \<Longrightarrow> fst (fst (connectPeer ord on now rq key name d)) = GetPeerId rq key"
  by (simp add: connectPeer_def identify_def)

lemma join_run:
  assumes room: "hasRoom s" and ok: "peersOk s" and key: "key \<noteq> []" and c: "c = None \<or> c = Some (h_conns (ps_hub s))"
  shows "\<exists>s' i. reaches E s s' \<and> joined c i s s' \<and> (rq_peer rq = [] \<longrightarrow> i = GetPeerId rq key)"
proof -
  define a where "a = h_next (ps_hub s)"
  obtain s1 name d where r1: "reaches E s s1" and pc1: "ps_pc s1 = Select" and g1: "mset (ps_gors s1) = add_mset (Announce a []) (mset (ps_gors s))"
    and f1: "filled (ran (clients (ps_hub s)))
      (buildClient (pe_ord E) 0 rq key name ((ps_hub s)\<lparr>h_db := d, h_conn := c, h_conns := Suc (h_conns (ps_hub s))\<rparr>)) (ps_hub s1)"
    using build_run [OF room ok key c, of E 0 rq] unfolding a_def by blast
  let ?h = "(ps_hub s)\<lparr>h_db := d, h_conn := c, h_conns := Suc (h_conns (ps_hub s))\<rparr>"
  have "clients (ps_hub s) i \<noteq> Some a" for i using ok unfolding peersOk_def hubOk_def a_def by blast
  then have new: "h_heap (ps_hub s1) a = h_heap (buildClient (pe_ord E) 0 rq key name ?h) a" using f1 by (auto simp: filled_def ran_def)
  have hub: "clients (ps_hub s1) = clients (ps_hub s)" "\<not> h_panic (ps_hub s1)" "h_next (ps_hub s1) = Suc a" "h_closed (ps_hub s1) = h_closed (ps_hub s)"
    "h_conns (ps_hub s1) = Suc (h_conns (ps_hub s))"
    using f1 room by (simp_all add: filled_def hasRoom_def a_def)
  have old: "cl_ID (h_heap (ps_hub s1) b) = cl_ID (h_heap (ps_hub s) b) \<and> cl_conn (h_heap (ps_hub s1) b) = cl_conn (h_heap (ps_hub s) b)" if "b \<noteq> a" for b
    using filledD [OF f1, of b] that by (simp add: heap_build a_def)
  define i where "i = cl_ID (h_heap (ps_hub s1) a)"
  have q: "cl_send (h_heap (ps_hub s1) a) = []" "cl_conn (h_heap (ps_hub s1) a) = c" "\<not> cl_superseded (h_heap (ps_hub s1) a)"
    by (simp_all add: new heap_build newClient_def flip: a_def)
  have i: "rq_peer rq = [] \<Longrightarrow> i = GetPeerId rq key"
    by (simp add: i_def new heap_build newClient_def identity_no_peer flip: a_def)
  obtain s2 m where r2: "reaches E s1 s2" and s2: "ps_pc s2 = Select" "mset (ps_gors s2) = mset (ps_gors s) + {#Writer a, Reader a#}"
    "length (cl_send (h_heap (ps_hub s2) a)) = 3" and f2: "filled {a} (snd (registerClient a (sendTo a m (ps_hub s1)))) (ps_hub s2)"
    using register_run [OF pc1 hub(2) _ g1 q(1), of E] room hub(1) by (auto simp: hasRoom_def)
  have "joined c i s s2"
    using f2 filledD [OF f2] s2 hub q old by (auto simp: joined_def Let_def a_def [symmetric] filled_def client_ops i_def)
  with r1 r2 i show ?thesis using reaches_trans by blast
qed

end
