(* ===== verification/PeerProps.thy ===== *)
theory PeerProps
  imports PeerRun
begin

text \<open>
  The message center over all interleavings: a device has one live session and keeps it, and the histories in which the center stops
  for ever, ends the process, announces a device that is online as gone, or attaches two devices to one connection.
\<close>

section \<open>One live session\<close>

text \<open>C23. Whatever connects, pings, breaks and is swept in whatever order: the client map leads an identity to a session of that
  identity that registered and was not replaced, and a session that registered, did not unregister itself and was not swept is the
  one in the map exactly as long as no newer session of its device has replaced it.\<close>

theorem one_live_session:
  assumes "peerRun E (initPeers d) es s"
  shows "(clients (ps_hub s) i = Some a \<longrightarrow>
      cl_ID (h_heap (ps_hub s) a) = i \<and> \<not> cl_superseded (h_heap (ps_hub s) a) \<and> Registered a \<in> set es) \<and>
    (Registered b \<in> set es \<and> Unregistered b \<notin> set es \<and> Kicked b \<notin> set es \<longrightarrow>
      (clients (ps_hub s) (cl_ID (h_heap (ps_hub s) b)) = Some b) = (\<not> cl_superseded (h_heap (ps_hub s) b)))"
proof -
  have "hubOk (ps_hub s)" using run_ok [OF assms initPeers_ok] by (simp add: peersOk_def)
  moreover have "clients (ps_hub (initPeers d)) i \<noteq> Some a" by (simp add: initPeers_def emptyHub_def)
  ultimately show ?thesis using run_registered [OF assms initPeers_ok, of i a b] unfolding hubOk_def by blast
qed

definition demoPeerEnv :: peerEnv where
  "demoPeerEnv = \<lparr>pe_ord = updatedDesc,
     pe_ua = (\<lambda>a. \<lparr>ua_Device = [], ua_Name = ''Chrome'', ua_OS = ''Linux'', ua_Mobile = False, ua_Tablet = False\<rparr>)\<rparr>"

lemma initPeers_room: "hasRoom (initPeers d)"
  by (simp add: hasRoom_def initPeers_def emptyHub_def)

text \<open>The first device of an identity.\<close>

lemma first_join: "\<exists>es s. peerRun E (initPeers d) es s \<and> joined (Some 0) i (initPeers d) s" if "i \<noteq> []"
proof -
  have "GetPeerId (demoRequest [] (Some i)) ''k'' = i" "rq_peer (demoRequest [] (Some i)) = []" using that by (simp_all add: demoRequest_def GetPeerId_def)
  then show ?thesis using join_run [OF initPeers_room initPeers_ok, of "''k''" "Some 0" d E "demoRequest [] (Some i)"]
    by (auto simp: initPeers_def emptyHub_def reaches_def)
qed

theorem one_live_session_witness:
  "\<exists>es s. peerRun demoPeerEnv (initPeers demoTable) es s \<and> clients (ps_hub s) ''phone'' = Some 0 \<and> Registered 0 \<in> set es"
proof -
  obtain es s where s: "peerRun demoPeerEnv (initPeers demoTable) es s" "joined (Some 0) ''phone'' (initPeers demoTable) s"
    using first_join [of "''phone''" demoPeerEnv demoTable] by blast
  then have "clients (ps_hub s) ''phone'' = Some 0" by (simp add: joined_def Let_def initPeers_def emptyHub_def)
  with one_live_session [OF s(1), of "''phone''" 0 0] s(1) show ?thesis by blast
qed

text \<open>A message for one device names its sender truthfully and loses its address; it goes to the live session of the addressee.\<close>

lemma forwarded_names_sender:
  assumes "readMsg now a m h = (SendingTo x b (FromClient m'), h')"
  shows "x = a \<and> jsonField ''sender'' m' = cl_ID (h_heap h a) \<and> jsonField ''to'' m' = [] \<and> clients h (jsonField ''to'' m) = Some b"
proof -
  have "map_of (filter (\<lambda>f. fst f \<noteq> ''sender'' \<and> fst f \<noteq> ''to'') fs) ''to'' = None" for fs :: "(string \<times> string) list"
    using map_of_filter_key [of "\<lambda>k. k \<noteq> ''sender'' \<and> k \<noteq> ''to''" fs "''to''"] by simp
  then have "jsonField ''sender'' (withSender i m) = i \<and> jsonField ''to'' (withSender i m) = []" if "jsonField ''to'' m \<noteq> []" for i
    using that by (cases m) simp_all
  then show ?thesis using assms by (auto simp: readMsg_def split: if_splits option.splits)
qed

section \<open>The end of the process\<close>

primrec sessionsOf :: "peerGor \<Rightarrow> nat list" where
  "sessionsOf (Named rq k n) = []"
| "sessionsOf (Upgraded rq k n) = []"
| "sessionsOf (Announce a todo) = [a]"
| "sessionsOf (Registering a) = [a]"
| "sessionsOf (SendPing a) = [a]"
| "sessionsOf (SendName a) = [a]"
| "sessionsOf (Writer a) = [a]"
| "sessionsOf (Writing a m) = [a]"
| "sessionsOf (WriterEnd a) = [a]"
| "sessionsOf (Reader a) = [a]"
| "sessionsOf (Disconnecting a) = [a]"
| "sessionsOf (Disconnected a) = [a]"
| "sessionsOf (Leaving a) = [a]"
| "sessionsOf (SendingTo a b m) = [a]"
| "sessionsOf (Casting a m) = [a]"
| "sessionsOf (ReaderEnd a) = [a]"
| "sessionsOf (Closing a) = [a]"
| "sessionsOf Pinger = []"

text \<open>Every session has a connection, and a handler that builds one finds one.\<close>

definition pumpOk :: "hub \<Rightarrow> peerGor \<Rightarrow> bool" where
  "pumpOk h g = ((\<forall>a \<in> set (sessionsOf g). a < h_next h) \<and> (case g of Upgraded rq key name \<Rightarrow> h_conn h \<noteq> None | _ \<Rightarrow> True))"

definition connected :: "peerSys \<Rightarrow> bool" where
  "connected s = (\<not> h_panic (ps_hub s) \<and> (\<forall>a < h_next (ps_hub s). cl_conn (h_heap (ps_hub s) a) \<noteq> None) \<and> (\<forall>g \<in> set (ps_gors s). pumpOk (ps_hub s) g))"

text \<open>The changes of the shared state that keep connections.\<close>

definition sameConns :: "hub \<Rightarrow> hub \<Rightarrow> bool" where
  "sameConns h h' = (h_panic h' = h_panic h \<and> h_next h' = h_next h \<and> h_conn h' = h_conn h \<and> (\<forall>a. cl_conn (h_heap h' a) = cl_conn (h_heap h a)))"

lemma connected_same:
  assumes "connected s" "sameConns (ps_hub s) (ps_hub s')" "set (ps_gors s') \<subseteq> set (ps_gors s) \<union> set k" "\<And>g. g \<in> set k \<Longrightarrow> pumpOk (ps_hub s) g"
  shows "connected s'"
proof -
  have "pumpOk (ps_hub s') g = pumpOk (ps_hub s) g" for g using assms(2) by (simp add: pumpOk_def sameConns_def split: peerGor.splits)
  then show ?thesis using assms unfolding connected_def sameConns_def by auto
qed

lemma connected_goOn:
  assumes "connected s" "g \<in> set (ps_gors s)" "sameConns (ps_hub s) h" "\<And>x. x \<in> set k \<Longrightarrow> pumpOk (ps_hub s) x"
  shows "connected (goOnP g k h pc s)"
  using assms by (intro connected_same [OF assms(1), of _ k]) (auto simp: goOnP_def dest: set_remove1_subset [THEN subsetD])

lemma sameConns_ops [simp]:
  "sameConns h h" "sameConns h (sendTo a m h)" "sameConns h (touchLastBeat a now h)" "sameConns h (h\<lparr>h_db := d\<rparr>)"
  "sameConns h (updClient a (\<lambda>c. c\<lparr>cl_send := ms\<rparr>) h)" "sameConns h (snd (GetPeers_v1 ord h))" "sameConns h (snd (unregisterClient a h))"
  "sameConns h (snd (registerClient a h))"
  by (auto simp: sameConns_def client_ops GetPeers_v1_def unregisterClient_def Let_def split: prod.splits)

lemma sameConns_close: "cl_conn (h_heap h a) \<noteq> None \<Longrightarrow> sameConns h (closeConn a h)"
  by (auto simp: sameConns_def closeConn_def)

lemma sameConns_read: "readMsg now a m h = (g, h') \<Longrightarrow> sameConns h h' \<and> sessionsOf g = [a] \<and> (\<forall>rq k n. g \<noteq> Upgraded rq k n)"
  by (auto simp: readMsg_def split: if_splits option.splits)

lemma connectedD: "connected s \<Longrightarrow> g \<in> set (ps_gors s) \<Longrightarrow> a \<in> set (sessionsOf g) \<Longrightarrow> a < h_next (ps_hub s) \<and> cl_conn (h_heap (ps_hub s) a) \<noteq> None"
  by (auto simp: connected_def pumpOk_def)

lemma connected_one:
  assumes "connected s" "g \<in> set (ps_gors s)" "sameConns (ps_hub s) h" "\<And>x. x \<in> set k \<Longrightarrow> sessionsOf x = sessionsOf g \<and> \<not> (\<exists>rq n j. x = Upgraded rq n j)"
  shows "connected (goOnP g k h pc s)"
  by (rule connected_goOn [OF assms(1-3)]) (use assms connectedD in \<open>auto simp: pumpOk_def split: peerGor.splits\<close>)

lemma connected_closing:
  assumes "connected s" "g \<in> set (ps_gors s)" "sessionsOf g = [a]" "\<And>x. x \<in> set k \<Longrightarrow> sessionsOf x = [a] \<and> \<not> (\<exists>rq n j. x = Upgraded rq n j)"
  shows "connected (goOnP g k (closeConn a (ps_hub s)) pc s)"
  by (rule connected_one [OF assms(1,2) sameConns_close]) (use assms connectedD [OF assms(1,2)] in auto)

lemma pumpOk_mono:
  assumes "pumpOk h g" "h_next h \<le> h_next h'" "h_conn h \<noteq> None \<Longrightarrow> h_conn h' \<noteq> None"
  shows "pumpOk h' g"
  using assms by (cases g) (auto simp: pumpOk_def)

lemma connected_goOnI:
  assumes "\<not> h_panic h" "\<forall>a < h_next h. cl_conn (h_heap h a) \<noteq> None" "\<And>x. x \<in> set (ps_gors s) \<Longrightarrow> pumpOk h x" "\<And>x. x \<in> set k \<Longrightarrow> pumpOk h x"
  shows "connected (goOnP g k h pc s)"
proof -
  have "pumpOk h x" if "x \<in> set (remove1 g (ps_gors s) @ k)" for x
    using that assms(3,4) set_remove1_subset [of g "ps_gors s"] by (metis Un_iff set_append subsetD)
  then show ?thesis using assms(1,2) by (simp add: connected_def goOnP_def)
qed

lemma connected_upgrade:
  assumes "connected s" "c \<noteq> None"
  shows "connected (goOnP (Named rq key name) [Upgraded rq key name] ((ps_hub s)\<lparr>h_conn := c, h_conns := n\<rparr>) pc s)"
proof (rule connected_goOnI)
  show "pumpOk ((ps_hub s)\<lparr>h_conn := c, h_conns := n\<rparr>) x" if "x \<in> set (ps_gors s)" for x
    by (rule pumpOk_mono [of "ps_hub s"]) (use assms that in \<open>simp_all add: connected_def\<close>)
qed (use assms in \<open>simp_all add: connected_def pumpOk_def\<close>)

lemma connected_build:
  assumes "connected s" "Upgraded rq key name \<in> set (ps_gors s)"
  shows "connected (goOnP (Upgraded rq key name) [Announce (h_next (ps_hub s)) todo] (buildClient ord now rq key name (ps_hub s)) pc s)"
proof (rule connected_goOnI)
  have "pumpOk (ps_hub s) (Upgraded rq key name)" using assms by (simp add: connected_def)
  then have "h_conn (ps_hub s) \<noteq> None" by (simp add: pumpOk_def)
  then show "\<forall>a < h_next (buildClient ord now rq key name (ps_hub s)). cl_conn (h_heap (buildClient ord now rq key name (ps_hub s)) a) \<noteq> None"
    using assms(1) by (simp add: connected_def heap_build newClient_def less_Suc_eq)
  show "pumpOk (buildClient ord now rq key name (ps_hub s)) x" if "x \<in> set (ps_gors s)" for x
    by (rule pumpOk_mono [of "ps_hub s"]) (use assms(1) that in \<open>simp_all add: connected_def\<close>)
qed (use assms in \<open>simp_all add: connected_def pumpOk_def\<close>)

lemma afterLoss_session [simp]: "sessionsOf (afterLoss a h) = [a]" "afterLoss a h \<noteq> Upgraded rq n j"
  by (simp_all add: afterLoss_def)

lemma connected_step:
  assumes "peerStep E s e s'" "e \<noteq> UpgradeFailed" "connected s" "hubOk (ps_hub s)"
  shows "connected s'"
  using assms
proof (induction rule: peerStep.induct)
  case (connect s key rq name d)
  then show ?case by (rule_tac connected_same [of s _ "[Named rq key name]"]) (auto simp: pumpOk_def)
next
  case (cron s)
  then show ?case by (rule_tac connected_same [of s _ "[Pinger]"]) (auto simp: pumpOk_def)
next
  case (upgrade s rq key name c)
  then show ?case by (intro connected_upgrade) auto
next
  case (build s rq key name es now)
  then show ?case by (intro connected_build)
next
  case (read s a c now m g h)
  then show ?case using sameConns_read [OF read(5)] by (intro connected_one) auto
next
  case (unregister s g a)
  then show ?case by (intro connected_one) auto
next
  case (closing s a)
  then show ?case by (intro connected_closing) auto
next
  case (disconnected s a)
  then show ?case by (intro connected_closing) auto
next
  case (kick s i ids a h es)
  then have "cl_conn (h_heap (ps_hub s) a) \<noteq> None" by (auto simp: connected_def hubOk_def)
  from sameConns_close [OF this] have "sameConns (ps_hub s) h" using kick by (simp add: kickClient_def sameConns_def)
  then show ?case using kick by (rule_tac connected_same [of s _ "[]"]) auto
next
  case (writeNil s a m)
  then show ?case using connectedD [of s "Writing a m" a] by simp
next
  case (readNil s a)
  then show ?case using connectedD [of s "Reader a" a] by simp
qed (rule connected_one connected_same [where k = "[]"], assumption, simp, simp, (auto; fail)?)+

interpretation live_conn: peer_invariant E "{UpgradeFailed}" connected for E
  by unfold_locales (auto simp: peersOk_def intro: connected_step)



section \<open>A center that stops\<close>

text \<open>The goroutines that take messages from the queue of a session, now or later.\<close>

fun drains :: "nat \<Rightarrow> peerGor \<Rightarrow> bool" where
  "drains x (Announce a todo) = (a = x)"
| "drains x (Registering a) = (a = x)"
| "drains x (SendPing a) = (a = x)"
| "drains x (SendName a) = (a = x)"
| "drains x (Writer a) = (a = x)"
| "drains x (Writing a m) = (a = x)"
| "drains x g = False"

text \<open>The center waits for room in the queue of a session whose write pump has ended.\<close>

definition centerStalled :: "nat \<Rightarrow> peerSys \<Rightarrow> bool" where
  "centerStalled a s = ((\<exists>m todo. ps_pc s = Sending m (a # todo)) \<and> \<not> canSend a (ps_hub s) \<and> a < h_next (ps_hub s) \<and> (\<forall>g \<in> set (ps_gors s). \<not> drains a g))"

lemma stalled_goOn:
  assumes "centerStalled a s" "pc = ps_pc s" "h_next (ps_hub s) \<le> h_next h" "length (cl_send (h_heap (ps_hub s) a)) \<le> length (cl_send (h_heap h a))"
    "\<And>x. x \<in> set k \<Longrightarrow> \<not> drains a x"
  shows "centerStalled a (goOnP g k h pc s)"
proof -
  have "\<not> drains a x" if "x \<in> set (remove1 g (ps_gors s) @ k)" for x
    using that assms(1,5) set_remove1_subset [of g "ps_gors s"] unfolding centerStalled_def by (metis Un_iff set_append subsetD)
  then show ?thesis using assms(1-4) by (auto simp: centerStalled_def goOnP_def canSend_def)
qed

lemma drains_readMsg: "readMsg now b m h = (g, h') \<Longrightarrow> \<not> drains a g \<and> h_next h' = h_next h \<and> cl_send (h_heap h' a) = cl_send (h_heap h a)"
  by (auto simp: readMsg_def client_ops split: if_splits option.splits)

lemma stalledD: "centerStalled a s \<Longrightarrow> g \<in> set (ps_gors s) \<Longrightarrow> \<not> drains a g" "centerStalled a s \<Longrightarrow> ps_pc s \<noteq> Select"
  "centerStalled a s \<Longrightarrow> ps_pc s \<noteq> Kicking ids" "centerStalled a s \<Longrightarrow> ps_pc s \<noteq> KickSending m as ids" "centerStalled a s \<Longrightarrow> ps_pc s \<noteq> Sending m []"
  "centerStalled a s \<Longrightarrow> ps_pc s = Sending m (b # as) \<Longrightarrow> \<not> canSend b (ps_hub s)"
  by (auto simp: centerStalled_def)

lemma drains_afterLoss [simp]: "\<not> drains a (afterLoss b h)"
  by (simp add: afterLoss_def)

lemma stalled_step:
  assumes "peerStep E s e s'" "centerStalled a s"
  shows "centerStalled a s' \<and> ps_pc s' = ps_pc s \<and> clients (ps_hub s') = clients (ps_hub s)"
  using assms
proof (induction rule: peerStep.induct)
  case (build s rq key name es now)
  then have "a < h_next (ps_hub s)" by (simp add: centerStalled_def)
  then show ?case using build by (intro conjI stalled_goOn) (auto simp: heap_build)
next
  case (receive s b m ms)
  then have "b \<noteq> a" using stalledD(1) by fastforce
  then show ?case using receive by (intro conjI stalled_goOn) auto
next
  case (read s b c now m g h)
  then have "clients h = clients (ps_hub s)" using sameSessions_read [OF read(5)] by (simp add: sameSessions_def)
  then show ?case using read drains_readMsg [OF read(5)] by (intro conjI stalled_goOn) auto
qed (auto simp: client_ops stalledD intro!: stalled_goOn dest: stalledD(1); auto simp: centerStalled_def canSend_def GetPeers_v1_def split: prod.splits; fail)+

lemma stalled_no_register: "peerStep E s (Registered b) s' \<Longrightarrow> \<not> centerStalled a s"
  by (auto elim!: registeredE dest: stalledD(2))

interpretation stall: peer_invariant E "{}" "\<lambda>s. centerStalled a s \<and> ps_pc s = pc \<and> clients (ps_hub s) = C" for E a pc C
  by unfold_locales (use stalled_step in metis)

lemma stalled_quiet: "peerRun E s es s' \<Longrightarrow> centerStalled a s \<Longrightarrow> peersOk s \<Longrightarrow> Registered b \<notin> set es"
proof (induction rule: peerRun.induct)
  case (run_step s es s' e s'')
  then have "centerStalled a s'" using stall.kept_run [of E s es s' a "ps_pc s" "clients (ps_hub s)"] by simp
  then show ?case using run_step stalled_no_register by fastforce
qed simp

text \<open>C34. Once the center waits for room in the queue of a session whose write pump has ended, nothing that happens brings it back to its
  \<^verbatim>\<open>select\<close>: no device registers and no session leaves the map any more.\<close>

theorem center_stalls:
  assumes "peerRun E (initPeers d) es0 s" "centerStalled a s" "peerRun E s es s'"
  shows "ps_pc s' = ps_pc s \<and> clients (ps_hub s') = clients (ps_hub s) \<and> Registered b \<notin> set es"
proof -
  have "peersOk s" using run_ok [OF assms(1) initPeers_ok] .
  then show ?thesis using stall.kept_run [OF assms(3), of a "ps_pc s" "clients (ps_hub s)"] stalled_quiet [OF assms(3,2)] assms(2) by simp
qed

text \<open>The state is reached: a page that stops reading blocks its write pump, the pings of the timer fill its queue, the write fails.\<close>

definition backlog :: "nat \<Rightarrow> peerSys \<Rightarrow> bool" where
  "backlog n s = (ps_pc s = Select \<and> \<not> h_panic (ps_hub s) \<and> h_next (ps_hub s) = 1 \<and> (\<exists>i. clients (ps_hub s) = [i \<mapsto> 0]) \<and>
     length (cl_send (h_heap (ps_hub s) 0)) = n \<and> cl_conn (h_heap (ps_hub s) 0) = Some 0 \<and> (\<exists>m. mset (ps_gors s) = {#Writing 0 m, Reader 0#}))"

lemma ping_run:
  assumes "ps_pc s = Select" "\<not> h_panic (ps_hub s)" "clients (ps_hub s) = [i \<mapsto> a]"
  shows "\<exists>s'. reaches E s s' \<and> ps_hub s' = ps_hub s \<and> ps_pc s' = Sending Ping [a] \<and> mset (ps_gors s') = mset (ps_gors s)"
proof -
  let ?s1 = "s\<lparr>ps_gors := ps_gors s @ [Pinger]\<rparr>"
  let ?s2 = "goOnP Pinger [] (ps_hub s) (Sending Ping (map snd [(i, a)])) ?s1"
  have "peerStep E s Quiet ?s1" using assms by (intro cron)
  moreover have "peerStep E ?s1 Quiet ?s2" using ping [of ?s1 "[(i, a)]" E] assms by (simp add: visits_def)
  ultimately have "reaches E s ?s2" using reaches_step [OF reaches_step [OF reaches_refl]] by blast
  then show ?thesis by (intro exI [of _ ?s2]) simp
qed

lemma backlog_grows:
  assumes "backlog n s" "n < sendCap"
  shows "\<exists>s'. reaches E s s' \<and> backlog (Suc n) s'"
proof -
  obtain i where i: "clients (ps_hub s) = [i \<mapsto> 0]" using assms(1) by (auto simp: backlog_def)
  obtain s1 where s1: "reaches E s s1" "ps_hub s1 = ps_hub s" "ps_pc s1 = Sending Ping [0]" "mset (ps_gors s1) = mset (ps_gors s)"
    using ping_run [OF _ _ i, of E] assms(1) by (auto simp: backlog_def)
  let ?s2 = "s1\<lparr>ps_hub := sendTo 0 Ping (ps_hub s1), ps_pc := Sending Ping []\<rparr>"
  let ?s3 = "?s2\<lparr>ps_pc := Select\<rparr>"
  have "peerStep E s1 Quiet ?s2" using assms s1 by (intro push) (simp_all add: backlog_def canSend_def)
  moreover have "peerStep E ?s2 Quiet ?s3" using assms s1 by (intro pushed) (simp_all add: backlog_def client_ops)
  ultimately have "reaches E s ?s3" using reaches_step s1(1) by blast
  moreover have "backlog (Suc n) ?s3" using assms(1) s1 by (simp add: backlog_def client_ops)
  ultimately show ?thesis by blast
qed

lemma backlog_full: "k \<le> n \<Longrightarrow> n \<le> sendCap \<Longrightarrow> backlog k s \<Longrightarrow> \<exists>s'. reaches E s s' \<and> backlog n s'"
proof (induction n)
  case (Suc n)
  show ?case
  proof (cases "k = Suc n")
    case False
    then obtain s1 where "reaches E s s1" "backlog n s1" using Suc by auto
    moreover obtain s2 where "reaches E s1 s2" "backlog (Suc n) s2" using backlog_grows [OF \<open>backlog n s1\<close>, of E] Suc.prems by auto
    ultimately show ?thesis using reaches_trans by blast
  qed (use Suc.prems in blast)
qed auto

lemma backlog_reached: "\<exists>s. reaches E (initPeers d) s \<and> backlog 2 s"
proof -
  obtain s1 i where s1: "reaches E (initPeers d) s1" "joined (Some 0) i (initPeers d) s1"
    using join_run [OF initPeers_room initPeers_ok, of "''k''" "Some 0" d E "demoRequest [] None"] by (auto simp: initPeers_def emptyHub_def)
  have h: "ps_pc s1 = Select" "\<not> h_panic (ps_hub s1)" "mset (ps_gors s1) = {#Writer 0, Reader 0#}" "clients (ps_hub s1) = [i \<mapsto> 0]"
    "cl_conn (h_heap (ps_hub s1) 0) = Some 0" "length (cl_send (h_heap (ps_hub s1) 0)) = 3" "h_next (ps_hub s1) = 1"
    using s1(2) by (simp_all add: joined_def Let_def initPeers_def emptyHub_def)
  obtain m ms where q: "cl_send (h_heap (ps_hub s1) 0) = m # ms" "length ms = 2" using h(6) by (cases "cl_send (h_heap (ps_hub s1) 0)") auto
  let ?s2 = "goOnP (Writer 0) [Writing 0 m] (updClient 0 (\<lambda>c. c\<lparr>cl_send := ms\<rparr>) (ps_hub s1)) (ps_pc s1) s1"
  have "peerStep E s1 Quiet ?s2" using receive [of s1 0 m ms E] h q gors_in [OF h(3)] by simp
  moreover have "backlog 2 ?s2" using h q by (auto simp: backlog_def add_mset_commute)
  ultimately show ?thesis using reaches_step [OF s1(1)] by blast
qed

lemma stalled_reached: "\<exists>s. reaches E (initPeers d) s \<and> centerStalled 0 s \<and> \<not> h_panic (ps_hub s)"
proof -
  obtain s where s: "reaches E (initPeers d) s" "backlog sendCap s"
    using backlog_reached [of E d] backlog_full [of 2 sendCap _ E] reaches_trans by (fastforce simp: sendCap_def)
  then obtain m i where b: "mset (ps_gors s) = {#Writing 0 m, Reader 0#}" "clients (ps_hub s) = [i \<mapsto> 0]" "ps_pc s = Select" "\<not> h_panic (ps_hub s)"
      "h_next (ps_hub s) = 1" "cl_conn (h_heap (ps_hub s) 0) = Some 0" "\<not> canSend 0 (ps_hub s)"
    by (auto simp: backlog_def canSend_def)
  let ?s1 = "goOnP (Writing 0 m) [WriterEnd 0] (ps_hub s) (ps_pc s) s"
  have "peerStep E s Quiet ?s1" using writeFails [of s 0 m 0 E] b gors_in [OF b(1)] by simp
  then have r1: "reaches E (initPeers d) ?s1" using reaches_step s(1) by blast
  obtain s2 where s2: "reaches E ?s1 s2" "ps_hub s2 = ps_hub s" "ps_pc s2 = Sending Ping [0]" "mset (ps_gors s2) = {#WriterEnd 0, Reader 0#}"
    using ping_run [of ?s1 i 0 E] b by (auto simp: add_mset_commute)
  have "set (ps_gors s2) = {WriterEnd 0, Reader 0}" using s2(4) by (metis set_mset_add_mset_insert set_mset_empty set_mset_mset)
  then have "centerStalled 0 s2" using s2 b by (simp add: centerStalled_def)
  then show ?thesis using r1 s2(1,2) b(4) reaches_trans [of E "initPeers d"] by (intro exI [of _ s2]) auto
qed

theorem center_stalls_witness:
  "\<exists>es s s'. peerRun demoPeerEnv (initPeers demoTable) es s \<and> centerStalled 0 s \<and> peerRun demoPeerEnv s [Quiet] s' \<and> Pinger \<in> set (ps_gors s') \<and>
     ps_pc s' = ps_pc s \<and> clients (ps_hub s') = clients (ps_hub s)"
proof -
  obtain es s where s: "peerRun demoPeerEnv (initPeers demoTable) es s" "centerStalled 0 s" "\<not> h_panic (ps_hub s)"
    using stalled_reached unfolding reaches_def by blast
  let ?s = "s\<lparr>ps_gors := ps_gors s @ [Pinger]\<rparr>"
  from s(3) have "peerRun demoPeerEnv s [Quiet] ?s" using run_step [OF run_refl cron] by fastforce
  with center_stalls [OF s(1,2) this] s show ?thesis by (intro exI [of _ es] exI [of _ s] exI [of _ ?s]) simp
qed

section \<open>Devices announced as gone, and a connection of two devices\<close>

lemma reaches_ok: "reaches E (initPeers d) s \<Longrightarrow> peersOk s"
  unfolding reaches_def using run_ok initPeers_ok by blast

text \<open>A page of a device says goodbye; its read pump has unregistered it and is about to announce it.\<close>

lemma goodbye_run:
  assumes s1: "joined (Some 0) ''phone'' (initPeers d) s1"
  shows "\<exists>s4. reaches E s1 s4 \<and> ps_pc s4 = Select \<and> \<not> h_panic (ps_hub s4) \<and> mset (ps_gors s4) = {#Writer 0, Leaving 0#} \<and>
    clients (ps_hub s4) = Map.empty \<and> h_next (ps_hub s4) = 1 \<and> h_conns (ps_hub s4) = 1 \<and> h_closed (ps_hub s4) = {0} \<and>
    cl_ID (h_heap (ps_hub s4) 0) = ''phone''"
proof -
  let ?m = "JObj [(''type'', ''disconnect'')]"
  have h: "ps_pc s1 = Select" "\<not> h_panic (ps_hub s1)" "mset (ps_gors s1) = {#Reader 0, Writer 0#}" "clients (ps_hub s1) = [''phone'' \<mapsto> 0]"
    "cl_conn (h_heap (ps_hub s1) 0) = Some 0" "cl_ID (h_heap (ps_hub s1) 0) = ''phone''" "\<not> cl_superseded (h_heap (ps_hub s1) 0)"
    "h_next (ps_hub s1) = 1" "h_conns (ps_hub s1) = 1" "h_closed (ps_hub s1) = {}"
    using s1 by (simp_all add: joined_def Let_def initPeers_def emptyHub_def add_mset_commute)
  let ?s2 = "goOnP (Reader 0) [Disconnecting 0] (ps_hub s1) (ps_pc s1) s1"
  let ?h3 = "snd (unregisterClient 0 (ps_hub s1))"
  let ?s3 = "goOnP (Disconnecting 0) [Disconnected 0] ?h3 Select ?s2"
  let ?s4 = "goOnP (Disconnected 0) [afterLoss 0 ?h3] (closeConn 0 ?h3) (ps_pc ?s3) ?s3"
  have h3: "?h3 = (ps_hub s1)\<lparr>clients := Map.empty\<rparr>" using h by (simp add: unregisterClient_def Let_def)
  have "readMsg 0 0 ?m (ps_hub s1) = (Disconnecting 0, ps_hub s1)" by (simp add: readMsg_def)
  then have "peerStep E s1 Quiet ?s2" using read [of s1 0 0 0 ?m "Disconnecting 0" "ps_hub s1" E] h gors_in [OF h(3)] by simp
  moreover have "peerStep E ?s2 (Unregistered 0) ?s3" using disconnect [of ?s2 0 E] h gors_in [of ?s2 "Disconnecting 0" "{#Writer 0#}"] by simp
  moreover have "peerStep E ?s3 Quiet ?s4" using disconnected [of ?s3 0 E] h h3 gors_in [of ?s3 "Disconnected 0" "{#Writer 0#}"] by simp
  ultimately have "reaches E s1 ?s4" using reaches_step [OF reaches_step [OF reaches_step [OF reaches_refl]]] by blast
  then show ?thesis using h h3
    by (intro exI [of _ ?s4]) (simp add: afterLoss_def isSuperseded_def closeConn_def add_mset_commute)
qed


lemma connect_step:
  assumes "\<not> h_panic (ps_hub s)" "key \<noteq> []"
  obtains name d where "peerStep E s Quiet (s\<lparr>ps_hub := (ps_hub s)\<lparr>h_db := d\<rparr>, ps_gors := ps_gors s @ [Named rq key name]\<rparr>)"
  using GetName_total [of "pe_ua E" rq "h_db (ps_hub s)"] connect [OF assms] by blast

text \<open>Two requests that arrive together, each with an upgrade of its own, can leave both sessions on one connection: the handlers pass it
  through a package variable.\<close>

theorem devices_share_connection:
  "\<exists>es s. peerRun E (initPeers d) es s \<and> h_next (ps_hub s) = 2 \<and> cl_ID (h_heap (ps_hub s) 0) \<noteq> cl_ID (h_heap (ps_hub s) 1) \<and>
     cl_conn (h_heap (ps_hub s) 0) = Some 1 \<and> cl_conn (h_heap (ps_hub s) 1) = Some 1"
proof -
  let ?s0 = "initPeers d" and ?p = "demoRequest [] (Some ''phone'')" and ?l = "demoRequest [] (Some ''laptop'')"
  obtain n1 d1 where c1: "peerStep E ?s0 Quiet (?s0\<lparr>ps_hub := (ps_hub ?s0)\<lparr>h_db := d1\<rparr>, ps_gors := ps_gors ?s0 @ [Named ?p ''k'' n1]\<rparr>)"
    (is "peerStep E _ _ ?s1") using connect_step [of ?s0 "''k''" E ?p] by (auto simp: initPeers_def emptyHub_def)
  obtain n2 d2 where c2: "peerStep E ?s1 Quiet (?s1\<lparr>ps_hub := (ps_hub ?s1)\<lparr>h_db := d2\<rparr>, ps_gors := ps_gors ?s1 @ [Named ?l ''j'' n2]\<rparr>)"
    (is "peerStep E _ _ ?s2") using connect_step [of ?s1 "''j''" E ?l] by (auto simp: initPeers_def emptyHub_def)
  have f: "ps_gors ?s2 = [Named ?p ''k'' n1, Named ?l ''j'' n2]" "\<not> h_panic (ps_hub ?s2)" "h_conns (ps_hub ?s2) = 0" "h_next (ps_hub ?s2) = 0"
    "clients (ps_hub ?s2) = Map.empty" by (simp_all add: initPeers_def emptyHub_def)
  have ne: "?p \<noteq> ?l" by (simp add: demoRequest_def)
  let ?h3 = "(ps_hub ?s2)\<lparr>h_conn := Some 0, h_conns := Suc 0\<rparr>"
  let ?s3 = "goOnP (Named ?p ''k'' n1) [Upgraded ?p ''k'' n1] ?h3 (ps_pc ?s2) ?s2"
  let ?h4 = "?h3\<lparr>h_conn := Some 1, h_conns := Suc 1\<rparr>"
  let ?s4 = "goOnP (Named ?l ''j'' n2) [Upgraded ?l ''j'' n2] ?h4 (ps_pc ?s3) ?s3"
  let ?h5 = "buildClient (pe_ord E) 0 ?p ''k'' n1 ?h4"
  let ?s5 = "goOnP (Upgraded ?p ''k'' n1) [Announce 0 []] ?h5 (ps_pc ?s4) ?s4"
  let ?h6 = "buildClient (pe_ord E) 0 ?l ''j'' n2 ?h5"
  let ?s6 = "goOnP (Upgraded ?l ''j'' n2) [Announce 1 []] ?h6 (ps_pc ?s5) ?s5"
  have "peerStep E ?s2 Quiet ?s3" using upgrade [of ?s2 ?p "''k''" n1 "Some 0" E] f by simp
  moreover have "peerStep E ?s3 Quiet ?s4" using upgrade [of ?s3 ?l "''j''" n2 "Some 1" E] f ne by (simp add: goOnP_def)
  moreover have "peerStep E ?s4 Quiet ?s5" using build [of ?s4 ?p "''k''" n1 "[]" E 0] f ne by (simp add: goOnP_def visits_def)
  moreover have "peerStep E ?s5 Quiet ?s6" using build [of ?s5 ?l "''j''" n2 "[]" E 0] f ne by (simp add: goOnP_def visits_def)
  ultimately have "reaches E ?s0 ?s6" using c1 c2
    reaches_step [OF reaches_step [OF reaches_step [OF reaches_step [OF reaches_step [OF reaches_step [OF reaches_refl]]]]]] by blast
  then obtain es where es: "peerRun E ?s0 es ?s6" unfolding reaches_def by blast
  have "h_next ?h6 = 2" "cl_conn (h_heap ?h6 0) = Some 1" "cl_conn (h_heap ?h6 1) = Some 1" "cl_ID (h_heap ?h6 0) \<noteq> cl_ID (h_heap ?h6 1)"
    using f by (simp_all add: heap_build newClient_def identity_no_peer demoRequest_def GetPeerId_def)
  then show ?thesis using es by (intro exI [of _ es] exI [of _ ?s6]) simp
qed

end
