(* ===== verification/Spec2Isabelle.thy ===== *)
theory Spec2Isabelle
  imports UploadApi UploadGC FileQueueRun FileApi PathLock SyncMap RootGrants MigrateProps UpgradeProps PeerProps
begin

text \<open>
  NimoOS core, the file and upload service of a home server.

  \<^bold>\<open>The program.\<close> A browser uploads files in batches over the tus protocol, browses, renames, deletes, moves and copies them, and
  shares directories over Samba. The parts and their interaction:

  \<^item> \<^emph>\<open>Uploads.\<close> \<^verbatim>\<open>service/upload\<close> keeps batches with a manifest and tasks in SQL tables; \<^verbatim>\<open>route/v2\<close> creates them
    (\<^verbatim>\<open>upload_batches.go\<close>), stages the bytes on the volume of the target (\<^verbatim>\<open>tus_staging_root.go\<close>, \<^verbatim>\<open>tus_routing_store.go\<close>),
    checks the metadata and moves the finished file into place (\<^verbatim>\<open>tus_file.go\<close>); a sweeper interrupts, cleans and abandons
    batches that stand still (\<^verbatim>\<open>batch_sweeper.go\<close>), and listings carry a badge for interrupted ones.
  \<^item> \<^emph>\<open>Access.\<close> Every handler asks \<^verbatim>\<open>checkPathAccess\<close>, which combines the data roots and the system disk
    (\<^verbatim>\<open>pkg/utils/path_acl.go\<close>) with folder grants of the user (\<^verbatim>\<open>service/user.go\<close>), both cached.
  \<^item> \<^emph>\<open>File operations.\<close> Move and copy batches go through a queue with deduplication, cancellation and progress pollers
    (\<^verbatim>\<open>service/file.go\<close>, \<^verbatim>\<open>service/notify.go\<close>) to a worker that uses \<^verbatim>\<open>pkg/utils/file/file.go\<close> under path locks
    (\<^verbatim>\<open>service/pathlock\<close>). Rename and delete run in the handler (\<^verbatim>\<open>route/v1/file.go\<close>).
  \<^item> \<^emph>\<open>Shares and search roots.\<close> Deleting and moving directories keeps the share table and the Samba configuration in step
    (\<^verbatim>\<open>service/shares.go\<close>); the wiki reconciles the table of search roots (\<^verbatim>\<open>service/rootgrants.go\<close>).
  \<^item> \<^emph>\<open>Migration.\<close> App data, images, user data and photos move between disks behind fixed anchors, which become links
    (\<^verbatim>\<open>service/migrate.go\<close>); the path configuration follows, and the access checks read it.
  \<^item> \<^emph>\<open>Updates.\<close> Checks ask the cloud for versions, download goroutines fetch system and application bundles, an install script gets
    them, and a restart reports the outcome (\<^verbatim>\<open>service/system.go\<close>, \<^verbatim>\<open>route/v1/system.go\<close>).
  \<^item> \<^emph>\<open>Drop page.\<close> Devices that open the page meet in a message center (\<^verbatim>\<open>ConnectWebSocket\<close>, \<^verbatim>\<open>CenterHandler\<close> in \<^verbatim>\<open>route/v1/file.go\<close>) and keep
    their identities in a table of ten rows (\<^verbatim>\<open>service/peer.go\<close>, \<^verbatim>\<open>service/socket.go\<close>).

  \<^bold>\<open>Theories.\<close>
  \<^item> \<^verbatim>\<open>Prelude\<close>, \<^verbatim>\<open>GoPath\<close>, \<^verbatim>\<open>FileSys\<close>, \<^verbatim>\<open>FileTree\<close>: Go's string and path functions, the file system as a table from component
    lists to nodes, whole trees and frame conditions. A textual containment test is reduced to the prefix order on components.
  \<^item> \<^verbatim>\<open>Simulation\<close>: the locale \<open>simulation\<close> for data types that refine a specification, interpreted by \<^verbatim>\<open>SyncMap\<close> and \<^verbatim>\<open>RootGrants\<close>.
  \<^item> \<^verbatim>\<open>PathUtils\<close>, \<^verbatim>\<open>PathAcl\<close>: path normalisation, data roots, system disk, grants and the gate. Both caches interpret the locale
    \<open>ttl_cache\<close>; the theorems give the gate's meaning on components and the age of a granted answer.
  \<^item> \<^verbatim>\<open>UploadStore\<close>, \<^verbatim>\<open>UploadInv\<close>, \<^verbatim>\<open>UploadBadge\<close>, \<^verbatim>\<open>UploadSweeper\<close>, \<^verbatim>\<open>TusStaging\<close>, \<^verbatim>\<open>TusIngest\<close>, \<^verbatim>\<open>UploadApi\<close>, \<^verbatim>\<open>UploadGC\<close>: the upload tables with
    every failing statement, the manifest invariant and the life cycle of a batch through the locales \<open>exec_relation\<close>,
    \<open>table_relation\<close> and \<open>store_relation\<close>, badges, the sweeper as a function on rows (\<open>bulk_update\<close>), staging and ingestion without
    loss, and the whole subsystem as a step relation in which requests, tus events, sweeper rounds and failures interleave; where the
    garbage collector looks for staged files.
  \<^item> \<^verbatim>\<open>FileQueue\<close>, \<^verbatim>\<open>FileQueueRun\<close>: the queue section by section, and its goroutines as a labelled step relation: no duplicates, honoured
    cancellation, when a task is retired, and the histories in which the queue stalls.
  \<^item> \<^verbatim>\<open>FileCopy\<close>, \<^verbatim>\<open>FileOps\<close>, \<^verbatim>\<open>FileOpsProps\<close>: recursive copy, cross-device moves, replacement and keep-both names under faults and
    cancellation: termination, completeness and no loss of data.
  \<^item> \<^verbatim>\<open>PathLock\<close>: the lock table for any number of goroutines: exclusion, and the self-deadlock of a batch that names a path twice.
  \<^item> \<^verbatim>\<open>Shares\<close>, \<^verbatim>\<open>FileApi\<close>: shares and the handlers that rename, delete and submit, over all the parts above.
  \<^item> \<^verbatim>\<open>SyncMap\<close>, \<^verbatim>\<open>RootGrants\<close>: the two-level concurrent map refines a partial function; so does the grant table behind its routes.
  \<^item> \<^verbatim>\<open>LinkSys\<close>, \<^verbatim>\<open>Migrate\<close>, \<^verbatim>\<open>MigrateSafe\<close>, \<^verbatim>\<open>MigrateSwap\<close>, \<^verbatim>\<open>MigrateProps\<close>: a file system with symbolic links, the whole migration with its
    roll-backs and its clean-up on the stop signal, what each phase may write (the locale \<open>mg_relation\<close>), and that no outcome loses
    data and success delivers it. The units are assumed to lie in separate places whose directories are not links, and every anchor
    to be a directory or a link straight to its data.
  \<^item> \<^verbatim>\<open>UpgradeVersion\<close>, \<^verbatim>\<open>UpgradeCheck\<close>, \<^verbatim>\<open>UpgradeDownload\<close>, \<^verbatim>\<open>UpgradeSystem\<close>: version arithmetic, cloud answers and caches, the two download goroutines
    step by step on files with inodes, installation, daily checks, restarts, and the whole service as a transition function.
    \<^verbatim>\<open>UpgradeSafe\<close>, \<^verbatim>\<open>UpgradeSteps\<close>, \<^verbatim>\<open>UpgradeDeliver\<close>, \<^verbatim>\<open>UpgradeProps\<close>: which goroutine may touch which files (the locale \<open>disjoint_owners\<close>), that
    finished and installed system bundles are verified and a complete answer is delivered, and the histories in which this fails.
  \<^item> \<^verbatim>\<open>PeerTable\<close>, \<^verbatim>\<open>PeerCenter\<close>: identities, names and eviction; sessions on a heap, with the monitoring goroutine, connect handlers, pumps, pings
    and heartbeat sweeps as a labelled step relation. \<^verbatim>\<open>PeerSessions\<close>, \<^verbatim>\<open>PeerRun\<close>, \<^verbatim>\<open>PeerProps\<close>: one live session per device, runs that connect a
    device, what runs keep (the locale \<open>peer_invariant\<close>), and the histories that stop the center, end the process or announce an
    online device as gone.

  \<^bold>\<open>State and errors.\<close> Rows, structs and package variables are records; an operation takes and returns the state. A statement or
  file call that may fail takes its outcome from a list of faults in the state, so every error return of the code is a branch; in a
  migration the script also says at which call the process is stopped. A panic is \<open>None\<close> of a version comparison, a restart of the update
  service or a flag of the message center after which nothing happens.
  Error values are \<open>Inl\<close> of a result or a reply of a handler.

  \<^bold>\<open>Bounds and fuel.\<close> \<open>CopyDirContents\<close> has fuel: more fuel than the depth of the source is enough outside the source, and no amount is
  enough when a directory is copied into itself. The search for a free device name is a partial function that is shown to return. The keep-both search counts to \<open>maxRenameCandidateAttempts\<close> = 1000 as the code does
  and then falls back to \<open>noDupFrom\<close>, a partial function that is shown to return. Go's \<^verbatim>\<open>int\<close> and \<^verbatim>\<open>int64\<close> counters are \<open>int\<close> or
  \<open>nat\<close>, as they count rows and bytes; the quota check rounds its products to 53 bits as \<^verbatim>\<open>float64\<close> does.

  \<^bold>\<open>Not modelled.\<close> Symbolic links outside the migration, modes and times of files; a path denotes its cleaned components. HTTP and JSON binding (a
  body that does not bind is \<open>None\<close>), authentication, message bus. Faults of \<^verbatim>\<open>os.Stat\<close>; fairness of mutexes. Handlers of the file API run
  without interference, and the operations of the concurrent map too; so do the statements of one connect on the peer table, and a loop
  over the client map sees the entries of one moment, where Go leaves a data race open. The application update runs in one piece; the
  percentage of a download, request headers, uploaded logs and the cookie of a connect (set after the connection is taken over) are left
  out. Downloads, archives, previews, listings and chunked uploads of the
  first API, the progress ticker of a migration and the file systems mounted inside its sources (what \<^verbatim>\<open>rsync\<close> leaves out is a parameter),
  system information, cloud drivers, thumbnails beyond the names of cache files, start-up
  and generated code.
\<close>

end
